(* ===== verification/Prelude.thy ===== *)
theory Prelude
  imports Main "HOL-Library.Finite_Map" "HOL-Library.List_Lexorder" "HOL-Library.Char_ord"
    "HOL-Library.Word"
begin

section \<open>Shared vocabulary of the server model\<close>

text \<open>
  Conventions used by every component theory.

  \<^item> A Go map is a finite map of \<open>HOL-Library.Finite_Map\<close>; \<open>len(m)\<close> is \<^term>\<open>mlen m\<close>.
    A Go set (\<open>map[K]struct{}\<close>) is a finite map to \<^typ>\<open>unit\<close>.
  \<^item> \<open>for k := range m\<close> visits the keys in an unspecified order.  Where a result depends on that
    order the operation takes an iteration order \<open>ord\<close>, a function that lists a finite set of
    keys; the theorems hold for every order that satisfies \<open>valid_order\<close>.
  \<^item> Strings are byte strings (lists of \<^typ>\<open>char\<close>), ordered lexicographically as Go orders them.
  \<^item> Times and durations are integers (nanoseconds since the epoch); \<open>now\<close> is an argument.
  \<^item> A map of maps with the "drop the inner map when it becomes empty" discipline is used by
    the presence tracker, the status registry and the matchmaker.  Its contract is the locale
    \<open>nested_store\<close>; two such maps that mirror each other satisfy \<open>paired_index\<close>.
\<close>

named_theorems nested_laws \<open>laws of two-level maps, oriented for simplification\<close>
named_theorems order_laws \<open>facts about iteration orders over the keys of a map\<close>

type_synonym gotime = int
type_synonym 'k goset = "('k, unit) fmap"

subsection \<open>Length of a map\<close>

definition mlen :: "('k, 'v) fmap \<Rightarrow> nat" where
  "mlen m = fcard (fmdom m)"

lemma mlen_empty [simp]: "mlen fmempty = 0"
  by (simp add: mlen_def)

lemma mlen_0_iff [simp]: "mlen m = 0 \<longleftrightarrow> m = fmempty"
proof
  assume "mlen m = 0"
  then have "fmdom m = {||}" by (simp add: mlen_def fcard_def fset_inverse card_eq_0_iff)
       (metis bot_fset.rep_eq fset_inject)
  then show "m = fmempty" by (metis fmdrop_fset_fmdom fmdrop_fset_null)
qed simp

lemma mlen_fmupd: "mlen (fmupd k v m) = (if k |\<in>| fmdom m then mlen m else Suc (mlen m))"
  by (simp add: mlen_def fcard_finsert_if)

lemma mlen_fmupd_new: "fmlookup m k = None \<Longrightarrow> mlen (fmupd k v m) = Suc (mlen m)"
  by (simp add: mlen_fmupd fmlookup_dom_iff)

lemma mlen_fmupd_old: "fmlookup m k = Some w \<Longrightarrow> mlen (fmupd k v m) = mlen m"
  by (simp add: mlen_fmupd fmlookup_dom_iff)

lemma mlen_fmdrop: "fmlookup m k = Some v \<Longrightarrow> mlen (fmdrop k m) = mlen m - 1"
  by (simp add: mlen_def fcard_fminus_fsingleton fmdomI)

lemma mlen_fmdrop_le: "mlen (fmdrop k m) \<le> mlen m"
proof (cases "fmlookup m k")
  case None
  then show ?thesis by (simp add: fmdrop_idle fmdom_notI)
next
  case (Some v)
  then show ?thesis by (simp add: mlen_fmdrop)
qed

lemma mlen_pos: "fmlookup m k = Some v \<Longrightarrow> 0 < mlen m"
  by (metis fmempty_lookup mlen_0_iff neq0_conv option.distinct(1))

lemma fmempty_iff_lookup: "m = fmempty \<longleftrightarrow> (\<forall>k. fmlookup m k = None)"
  by (metis fmap_ext fmempty_lookup)

lemma mlen_le_inj:
  assumes "inj_on g (fmdom' m)" and "g ` fmdom' m \<subseteq> fmdom' n"
  shows "mlen m \<le> mlen n"
proof -
  have "card (fmdom' m) \<le> card (fmdom' n)"
    using assms by (intro card_inj_on_le [of g]) (auto simp: finite_fmdom')
  then show ?thesis by (simp add: mlen_def fcard.rep_eq fmdom'_alt_def)
qed

lemma unit_option_cases [simp]: "(x \<noteq> Some ()) = (x = None)"
  by (cases x) auto

subsection \<open>Iteration orders\<close>

definition valid_order :: "('k fset \<Rightarrow> 'k list) \<Rightarrow> bool" where
  "valid_order ord \<longleftrightarrow> (\<forall>S. distinct (ord S) \<and> set (ord S) = fset S)"

lemma valid_order_set [order_laws]: "valid_order ord \<Longrightarrow> set (ord S) = fset S"
  by (simp add: valid_order_def)

lemma valid_order_distinct [order_laws]: "valid_order ord \<Longrightarrow> distinct (ord S)"
  by (simp add: valid_order_def)

lemma valid_order_length [order_laws]: "valid_order ord \<Longrightarrow> length (ord S) = fcard S"
  by (metis distinct_card fcard.rep_eq valid_order_def)

lemma valid_order_keys [order_laws]:
  "valid_order ord \<Longrightarrow> k \<in> set (ord (fmdom m)) \<longleftrightarrow> (\<exists>v. fmlookup m k = Some v)"
  by (simp add: valid_order_set fmlookup_dom_iff)

lemma valid_order_sorted: "valid_order (sorted_list_of_fset :: ('k::linorder) fset \<Rightarrow> 'k list)"
  by (simp add: valid_order_def sorted_list_of_fset.rep_eq)

subsection \<open>Two-level maps\<close>

type_synonym ('a, 'b, 'v) nmap = "('a, ('b, 'v) fmap) fmap"

definition nget :: "('a, 'b, 'v) nmap \<Rightarrow> 'a \<Rightarrow> 'b \<Rightarrow> 'v option" where
  "nget m a b = (case fmlookup m a of None \<Rightarrow> None | Some s \<Rightarrow> fmlookup s b)"

definition inner :: "('a, 'b, 'v) nmap \<Rightarrow> 'a \<Rightarrow> ('b, 'v) fmap" where
  "inner m a = (case fmlookup m a of None \<Rightarrow> fmempty | Some s \<Rightarrow> s)"

definition nput :: "('a, 'b, 'v) nmap \<Rightarrow> 'a \<Rightarrow> 'b \<Rightarrow> 'v \<Rightarrow> ('a, 'b, 'v) nmap" where
  "nput m a b v = fmupd a (fmupd b v (inner m a)) m"

text \<open>Delete the inner key; drop the inner map once it is empty.\<close>

definition ndel :: "('a, 'b, 'v) nmap \<Rightarrow> 'a \<Rightarrow> 'b \<Rightarrow> ('a, 'b, 'v) nmap" where
  "ndel m a b =
     (case fmlookup m a of
        None \<Rightarrow> m
      | Some s \<Rightarrow> if mlen (fmdrop b s) = 0 then fmdrop a m else fmupd a (fmdrop b s) m)"

definition ninv :: "('a, 'b, 'v) nmap \<Rightarrow> bool" where
  "ninv m \<longleftrightarrow> fmpred (\<lambda>_ s. s \<noteq> fmempty) m"

lemma inner_lookup [nested_laws]: "fmlookup (inner m a) b = nget m a b"
  by (simp add: inner_def nget_def split: option.split)

lemma nget_empty [simp]: "nget fmempty a b = None"
  by (simp add: nget_def)

lemma nget_nput [nested_laws]:
  "nget (nput m a b v) x y = (if x = a \<and> y = b then Some v else nget m x y)"
  by (auto simp: nget_def nput_def inner_def split: option.splits)

lemma nget_ndel [nested_laws]:
  "nget (ndel m a b) x y = (if x = a \<and> y = b then None else nget m x y)"
proof (cases "fmlookup m a")
  case None
  then show ?thesis by (auto simp: nget_def ndel_def)
next
  case (Some s)
  have "fmdrop b s = fmempty \<Longrightarrow> y \<noteq> b \<Longrightarrow> fmlookup s y = None"
    by (metis fmempty_lookup fmlookup_drop)
  with Some show ?thesis by (auto simp: nget_def ndel_def)
qed

lemma nget_fmdrop [nested_laws]: "nget (fmdrop a m) x y = (if x = a then None else nget m x y)"
  by (simp add: nget_def)

lemma ninv_empty [simp]: "ninv fmempty"
  by (simp add: ninv_def)

lemma ninv_nput [simp]: "ninv m \<Longrightarrow> ninv (nput m a b v)"
  by (auto simp: ninv_def nput_def intro: fmpred_upd)

lemma ninv_ndel [simp]: "ninv m \<Longrightarrow> ninv (ndel m a b)"
  by (auto simp: ninv_def ndel_def split: option.split intro: fmpred_drop fmpred_upd)

lemma ninv_fmdrop [simp]: "ninv m \<Longrightarrow> ninv (fmdrop a m)"
  by (auto simp: ninv_def)

text \<open>Under the invariant the outer key exists exactly when some inner key does.\<close>

lemma ninv_outer: "ninv m \<Longrightarrow> fmlookup m a = None \<longleftrightarrow> (\<forall>b. nget m a b = None)"
proof (cases "fmlookup m a")
  case None
  then show ?thesis by (simp add: nget_def)
next
  case (Some s)
  moreover assume "ninv m"
  ultimately have "s \<noteq> fmempty" by (auto simp: ninv_def)
  with Some show ?thesis by (simp add: nget_def fmempty_iff_lookup)
qed

lemma ninv_ext:
  assumes "ninv m" "ninv n" "\<And>a b. nget m a b = nget n a b"
  shows "m = n"
proof (rule fmap_ext)
  fix a
  have none: "fmlookup m a = None \<longleftrightarrow> fmlookup n a = None"
    by (simp add: ninv_outer [OF assms(1)] ninv_outer [OF assms(2)] assms(3))
  show "fmlookup m a = fmlookup n a"
  proof (cases "fmlookup m a")
    case None
    with none show ?thesis by simp
  next
    case (Some s)
    with none obtain t where t: "fmlookup n a = Some t" by auto
    have "s = t"
      by (rule fmap_ext) (use assms(3) [of a] Some t in \<open>simp add: nget_def\<close>)
    with Some t show ?thesis by simp
  qed
qed

text \<open>Sizes of the inner maps.\<close>

lemma inner_nput: "inner (nput m a b v) x = (if x = a then fmupd b v (inner m a) else inner m x)"
  by (simp add: inner_def nput_def)

lemma mlen_inner_nput: "mlen (inner (nput m a b v) x) \<le> (if x = a then Suc (mlen (inner m a)) else mlen (inner m x))"
  by (auto simp: inner_nput mlen_fmupd)

lemma mlen_mono_lookup:
  assumes "\<And>k. fmlookup m k \<noteq> None \<Longrightarrow> fmlookup n k \<noteq> None"
  shows "mlen m \<le> mlen n"
  by (rule mlen_le_inj [of id]) (use assms in \<open>auto simp: fmlookup_dom'_iff\<close>)

lemma mlen_inner_le:
  assumes "\<And>b. nget m a b \<noteq> None \<Longrightarrow> nget n a b \<noteq> None"
  shows "mlen (inner m a) \<le> mlen (inner n a)"
  by (rule mlen_mono_lookup) (use assms in \<open>simp add: inner_lookup\<close>)

subsection \<open>The contract of a two-level map\<close>

locale nested_store =
  fixes put :: "'m \<Rightarrow> 'a \<Rightarrow> 'b \<Rightarrow> 'v \<Rightarrow> 'm"
    and del :: "'m \<Rightarrow> 'a \<Rightarrow> 'b \<Rightarrow> 'm"
    and get :: "'m \<Rightarrow> 'a \<Rightarrow> 'b \<Rightarrow> 'v option"
    and inv :: "'m \<Rightarrow> bool"
    and empty :: "'m"
  assumes get_empty: "get empty a b = None"
    and get_put: "get (put m a b v) x y = (if x = a \<and> y = b then Some v else get m x y)"
    and get_del: "get (del m a b) x y = (if x = a \<and> y = b then None else get m x y)"
    and inv_empty: "inv empty"
    and inv_put: "inv m \<Longrightarrow> inv (put m a b v)"
    and inv_del: "inv m \<Longrightarrow> inv (del m a b)"
begin

lemma get_fold_put:
  "get (fold (\<lambda>b m. put m a b v) bs m) x y =
     (if x = a \<and> y \<in> set bs then Some v else get m x y)"
  by (induction bs arbitrary: m) (auto simp: get_put)

lemma get_fold_del:
  "get (fold (\<lambda>b m. del m a b) bs m) x y = (if x = a \<and> y \<in> set bs then None else get m x y)"
  by (induction bs arbitrary: m) (auto simp: get_del)

lemma get_fold_del_outer:
  "get (fold (\<lambda>a m. del m a b) as m) x y = (if y = b \<and> x \<in> set as then None else get m x y)"
  by (induction as arbitrary: m) (auto simp: get_del)

lemma get_fold_put_outer:
  "get (fold (\<lambda>a m. put m a b v) as m) x y = (if y = b \<and> x \<in> set as then Some v else get m x y)"
  by (induction as arbitrary: m) (auto simp: get_put)

lemma inv_fold_del: "inv m \<Longrightarrow> inv (fold (\<lambda>b m. del m a b) bs m)"
  by (induction bs arbitrary: m) (auto simp: inv_del)

lemma inv_fold_put: "inv m \<Longrightarrow> inv (fold (\<lambda>b m. put m a b v) bs m)"
  by (induction bs arbitrary: m) (auto simp: inv_put)

lemma inv_fold_del_outer: "inv m \<Longrightarrow> inv (fold (\<lambda>a m. del m a b) as m)"
  by (induction as arbitrary: m) (auto simp: inv_del)

lemma inv_fold_put_outer: "inv m \<Longrightarrow> inv (fold (\<lambda>a m. put m a b v) as m)"
  by (induction as arbitrary: m) (auto simp: inv_put)

lemmas fold_laws = get_fold_put get_fold_del get_fold_put_outer get_fold_del_outer
  inv_fold_put inv_fold_del inv_fold_put_outer inv_fold_del_outer

end

interpretation nm: nested_store nput ndel nget ninv fmempty
  by unfold_locales (simp_all add: nested_laws)

text \<open>
  Two indexes that list the same edges, one from each end.  The operations that touch both
  keep them in agreement; the lemmas are proved once from the contract.
\<close>

definition agree :: "('a \<Rightarrow> 'b \<Rightarrow> 'v option) \<Rightarrow> ('b \<Rightarrow> 'a \<Rightarrow> 'w option) \<Rightarrow> bool" where
  "agree f g \<longleftrightarrow> (\<forall>a b. (f a b = None) = (g b a = None))"

lemma agreeD: "agree f g \<Longrightarrow> f a b = None \<longleftrightarrow> g b a = None"
  by (simp add: agree_def)

locale paired_index = fwd: nested_store fput fdel fget finv fempty
  + bwd: nested_store bput bdel bget binv bempty
  for fput :: "'f \<Rightarrow> 'a \<Rightarrow> 'b \<Rightarrow> 'v \<Rightarrow> 'f" and fdel fget finv fempty
    and bput :: "'g \<Rightarrow> 'b \<Rightarrow> 'a \<Rightarrow> 'w \<Rightarrow> 'g" and bdel bget binv bempty
begin

lemma agree_empty: "agree (fget fempty) (bget bempty)"
  by (simp add: agree_def fwd.get_empty bwd.get_empty)

lemma agree_put: "agree (fget f) (bget g) \<Longrightarrow> agree (fget (fput f a b v)) (bget (bput g b a w))"
  by (auto simp: agree_def fwd.get_put bwd.get_put)

lemma agree_overwrite:
  "agree (fget f) (bget g) \<Longrightarrow> fget f a b \<noteq> None \<Longrightarrow> agree (fget (fput f a b v)) (bget g)"
  by (auto simp: agree_def fwd.get_put)

lemma agree_del: "agree (fget f) (bget g) \<Longrightarrow> agree (fget (fdel f a b)) (bget (bdel g b a))"
  by (auto simp: agree_def fwd.get_del bwd.get_del)

lemma agree_fold_del:
  "agree (fget f) (bget g) \<Longrightarrow>
   agree (fget (fold (\<lambda>b m. fdel m a b) bs f)) (bget (fold (\<lambda>b m. bdel m b a) bs g))"
  by (auto simp: agree_def fwd.get_fold_del bwd.get_fold_del_outer)

lemma agree_fold_put:
  "agree (fget f) (bget g) \<Longrightarrow>
   agree (fget (fold (\<lambda>b m. fput m a b v) bs f)) (bget (fold (\<lambda>b m. bput m b a w) bs g))"
  by (auto simp: agree_def fwd.get_fold_put bwd.get_fold_put_outer)

end

interpretation pidx: paired_index nput ndel nget ninv fmempty nput ndel nget ninv fmempty
  by unfold_locales

subsection \<open>Go integer remainder\<close>

text \<open>Go's \<open>%\<close> takes the sign of the dividend; a zero divisor panics, which callers guard.\<close>

definition go_rem :: "int \<Rightarrow> int \<Rightarrow> int" where
  "go_rem a b = sgn a * (\<bar>a\<bar> mod \<bar>b\<bar>)"

lemma go_rem_nonneg: "0 \<le> a \<Longrightarrow> 0 < b \<Longrightarrow> go_rem a b = a mod b"
  by (cases "a = 0") (auto simp: go_rem_def)

lemma go_rem_one [simp]: "go_rem a 1 = 0"
  by (simp add: go_rem_def)

subsection \<open>64-bit signed addition\<close>

lemma sint64_range: "- (2 ^ 63) \<le> sint (a :: 64 word)" "sint (a :: 64 word) < 2 ^ 63"
  using sint_range_size [of a] by (simp_all add: word_size)

lemma sint64_add: "sint (a + b :: 64 word) = (sint a + sint b + 2 ^ 63) mod 2 ^ 64 - 2 ^ 63"
  by (simp add: sint_word_ariths signed_take_bit_eq_take_bit_shift take_bit_eq_mod)

text \<open>From a non-negative value, the sum is non-negative exactly when it did not wrap, and then exact.\<close>

lemma sint64_add_nonneg:
  fixes a b :: "64 word"
  assumes "0 \<le> sint a"
  shows "0 \<le> sint (a + b) \<longleftrightarrow> 0 \<le> sint a + sint b \<and> sint a + sint b < 2 ^ 63"
    and "0 \<le> sint (a + b) \<Longrightarrow> sint (a + b) = sint a + sint b"
proof -
  let ?s = "sint a + sint b"
  have lo: "- (2 ^ 63) \<le> ?s" and hi: "?s < 2 ^ 64"
    using assms sint64_range [of a] sint64_range [of b] by auto
  have small: "sint (a + b) = ?s" if "?s < 2 ^ 63"
    using that lo by (simp add: sint64_add)
  have big: "sint (a + b) = ?s - 2 ^ 64" if "2 ^ 63 \<le> ?s"
  proof -
    have "(?s + 2 ^ 63) mod 2 ^ 64 = (?s + 2 ^ 63 - 2 ^ 64) mod 2 ^ 64"
      by (metis minus_mod_self2)
    also have "\<dots> = ?s + 2 ^ 63 - 2 ^ 64" using that hi by (intro mod_pos_pos_trivial) auto
    finally show ?thesis by (simp add: sint64_add)
  qed
  show iff: "0 \<le> sint (a + b) \<longleftrightarrow> 0 \<le> ?s \<and> ?s < 2 ^ 63"
    using small big hi by (cases "?s < 2 ^ 63") auto
  show "0 \<le> sint (a + b) \<Longrightarrow> sint (a + b) = ?s" using iff small by blast
qed

subsection \<open>Results\<close>

text \<open>Operations that return \<open>(T, error)\<close> yield \<open>Inl error\<close> or \<open>Inr value\<close>.\<close>

fun is_ok :: "'e + 'a \<Rightarrow> bool" where
  "is_ok (Inl _) = False"
| "is_ok (Inr _) = True"

lemma is_ok_iff: "is_ok r \<longleftrightarrow> (\<exists>v. r = Inr v)"
  by (cases r) auto

end
