(* ===== verification/Presence_Tracker.thy ===== *)
theory Presence_Tracker
  imports Prelude "HOL-Library.Product_Lexorder"
begin

section \<open>Local stream tracker\<close>

text \<open>
  Models \<open>internal/presence/stream_tracker.go\<close>: which session is on which stream, with the
  presence data of each membership.  The tracker keeps two indexes, stream to sessions and
  session to streams; every operation takes the mutex for its whole body, so each is one atomic
  step.  The abstract content of a tracker is a partial map from (stream, session) to presence
  data (\<open>tracker_abs\<close>); the lemmas show each operation as an update of that map and that the
  two indexes always list the same memberships (\<open>tracker_wf\<close>).
\<close>

subsection \<open>Data\<close>

type_synonym int16 = "16 word"

definition StreamModeNotifications :: int16 where "StreamModeNotifications = 0"
definition StreamModeStatus :: int16 where "StreamModeStatus = 1"
definition StreamModeChannel :: int16 where "StreamModeChannel = 2"
definition StreamModeGroup :: int16 where "StreamModeGroup = 3"
definition StreamModeDM :: int16 where "StreamModeDM = 4"
definition StreamModeMatchRelayed :: int16 where "StreamModeMatchRelayed = 5"
definition StreamModeMatchAuthoritative :: int16 where "StreamModeMatchAuthoritative = 6"
definition StreamModeParty :: int16 where "StreamModeParty = 7"

lemmas stream_mode_defs = StreamModeNotifications_def StreamModeStatus_def StreamModeChannel_def
  StreamModeGroup_def StreamModeDM_def StreamModeMatchRelayed_def
  StreamModeMatchAuthoritative_def StreamModeParty_def

record stream_key =
  Mode :: int16
  Subject :: string
  Subcontext :: string
  Label :: string

record presence_meta =
  MetaUsername :: string
  MetaStatus :: string
  MetaHidden :: bool

record presence =
  PSessionID :: string
  PUserID :: string
  PMeta :: presence_meta

record stream_presence =
  SPUserID :: string
  SPMeta :: presence_meta

record local_tracker =
  byStream :: "(stream_key, string, stream_presence) nmap"
  bySess :: "(string, stream_key, unit) nmap"

text \<open>Stream keys are compared field by field; the order is the lexicographic one.\<close>

definition key_tuple :: "'z stream_key_scheme \<Rightarrow> int16 \<times> string \<times> string \<times> string \<times> 'z" where
  "key_tuple k = (Mode k, Subject k, Subcontext k, Label k, stream_key.more k)"

lemma key_tuple_inj: "key_tuple k = key_tuple l \<longleftrightarrow> k = l"
  by (cases k; cases l) (simp add: key_tuple_def)

instantiation stream_key_ext :: (linorder) linorder
begin

definition less_eq_stream_key_ext :: "'a stream_key_ext \<Rightarrow> 'a stream_key_ext \<Rightarrow> bool" where
  "less_eq_stream_key_ext k l \<longleftrightarrow> key_tuple k \<le> key_tuple l"

definition less_stream_key_ext :: "'a stream_key_ext \<Rightarrow> 'a stream_key_ext \<Rightarrow> bool" where
  "less_stream_key_ext k l \<longleftrightarrow> key_tuple k < key_tuple l"

instance
  by standard
    (auto simp: less_eq_stream_key_ext_def less_stream_key_ext_def key_tuple_inj [symmetric])

end

definition NewLocalTracker :: local_tracker where
  "NewLocalTracker = \<lparr>byStream = fmempty, bySess = fmempty\<rparr>"

definition mk_presence :: "string \<Rightarrow> stream_presence \<Rightarrow> presence" where
  "mk_presence sid sp = \<lparr>PSessionID = sid, PUserID = SPUserID sp, PMeta = SPMeta sp\<rparr>"

definition zero_presence :: presence where
  "zero_presence = \<lparr>PSessionID = [], PUserID = [],
     PMeta = \<lparr>MetaUsername = [], MetaStatus = [], MetaHidden = False\<rparr>\<rparr>"

subsection \<open>Operations\<close>

definition Track ::
  "local_tracker \<Rightarrow> string \<Rightarrow> stream_key \<Rightarrow> string \<Rightarrow> presence_meta \<Rightarrow> local_tracker \<times> bool" where
  "Track t sid key uid meta =
     (let sp = \<lparr>SPUserID = uid, SPMeta = meta\<rparr>;
          t' = t\<lparr>byStream := nput (byStream t) key sid sp\<rparr>
      in if fmlookup (inner (byStream t) key) sid \<noteq> None then (t', False)
         else (t'\<lparr>bySess := nput (bySess t) sid key ()\<rparr>, True))"

definition TrackMembership :: "local_tracker \<Rightarrow> string \<Rightarrow> stream_key \<Rightarrow> local_tracker \<times> bool" where
  "TrackMembership t sid key =
     Track t sid key [] \<lparr>MetaUsername = [], MetaStatus = [], MetaHidden = False\<rparr>"

definition Update ::
  "local_tracker \<Rightarrow> string \<Rightarrow> stream_key \<Rightarrow> string \<Rightarrow> presence_meta \<Rightarrow> local_tracker \<times> bool" where
  "Update t sid key uid meta =
     (case fmlookup (byStream t) key of
        None \<Rightarrow> (t, False)
      | Some st \<Rightarrow>
          (case fmlookup st sid of
             None \<Rightarrow> (t, False)
           | Some sp \<Rightarrow>
               (t\<lparr>byStream := nput (byStream t) key sid \<lparr>SPUserID = uid, SPMeta = meta\<rparr>\<rparr>, True)))"

definition Untrack ::
  "local_tracker \<Rightarrow> string \<Rightarrow> stream_key \<Rightarrow> local_tracker \<times> presence \<times> bool" where
  "Untrack t sid key =
     (let removed = (case nget (byStream t) key sid of
                       Some sp \<Rightarrow> (mk_presence sid sp, True)
                     | None \<Rightarrow> (zero_presence, False))
      in (t\<lparr>byStream := ndel (byStream t) key sid, bySess := ndel (bySess t) sid key\<rparr>, removed))"

text \<open>One round of the loop of \<open>UntrackAllDetailed\<close>: the stream index and the output so far.\<close>

definition detail_step ::
  "string \<Rightarrow> stream_key \<Rightarrow> (stream_key, string, stream_presence) nmap \<times> (stream_key \<times> presence) list
   \<Rightarrow> (stream_key, string, stream_presence) nmap \<times> (stream_key \<times> presence) list" where
  "detail_step sid key st =
     (ndel (fst st) key sid,
      snd st @ (case nget (fst st) key sid of
                  Some sp \<Rightarrow> [(key, mk_presence sid sp)]
                | None \<Rightarrow> []))"

definition UntrackAllDetailed ::
  "(stream_key fset \<Rightarrow> stream_key list) \<Rightarrow> local_tracker \<Rightarrow> string
   \<Rightarrow> local_tracker \<times> (stream_key \<times> presence) list" where
  "UntrackAllDetailed ord t sid =
     (case fmlookup (bySess t) sid of
        None \<Rightarrow> (t, [])
      | Some sess \<Rightarrow>
          (let (bs, out) = fold (detail_step sid) (ord (fmdom sess)) (byStream t, [])
           in (t\<lparr>byStream := bs, bySess := fmdrop sid (bySess t)\<rparr>, out)))"

definition UntrackAll ::
  "(stream_key fset \<Rightarrow> stream_key list) \<Rightarrow> local_tracker \<Rightarrow> string
   \<Rightarrow> local_tracker \<times> presence list" where
  "UntrackAll ord t sid =
     (let (t', detailed) = UntrackAllDetailed ord t sid in (t', map snd detailed))"

definition UntrackAllKeys ::
  "(stream_key fset \<Rightarrow> stream_key list) \<Rightarrow> local_tracker \<Rightarrow> string
   \<Rightarrow> local_tracker \<times> stream_key list" where
  "UntrackAllKeys ord t sid =
     (case fmlookup (bySess t) sid of
        None \<Rightarrow> (t, [])
      | Some sess \<Rightarrow>
          (t\<lparr>byStream := fold (\<lambda>key m. ndel m key sid) (ord (fmdom sess)) (byStream t),
             bySess := fmdrop sid (bySess t)\<rparr>, ord (fmdom sess)))"

definition UntrackByMode ::
  "(stream_key fset \<Rightarrow> stream_key list) \<Rightarrow> local_tracker \<Rightarrow> string \<Rightarrow> int16 \<Rightarrow> local_tracker" where
  "UntrackByMode ord t sid mode =
     (case fmlookup (bySess t) sid of
        None \<Rightarrow> t
      | Some sess \<Rightarrow>
          (let keys = filter (\<lambda>key. Mode key = mode) (ord (fmdom sess));
               sess' = fold fmdrop keys sess
           in t\<lparr>byStream := fold (\<lambda>key m. ndel m key sid) keys (byStream t),
                bySess := (if mlen sess' = 0 then fmdrop sid (bySess t)
                           else fmupd sid sess' (bySess t))\<rparr>))"

definition IsDomainStreamMode :: "int16 \<Rightarrow> bool" where
  "IsDomainStreamMode mode \<longleftrightarrow>
     mode \<in> {StreamModeNotifications, StreamModeStatus, StreamModeChannel, StreamModeGroup,
             StreamModeDM, StreamModeMatchRelayed, StreamModeMatchAuthoritative, StreamModeParty}"

definition ListByStream ::
  "(string fset \<Rightarrow> string list) \<Rightarrow> local_tracker \<Rightarrow> stream_key \<Rightarrow> presence list" where
  "ListByStream ord t key =
     (let st = inner (byStream t) key
      in map (\<lambda>sid. mk_presence sid (the (fmlookup st sid))) (ord (fmdom st)))"

definition GetPresence :: "local_tracker \<Rightarrow> string \<Rightarrow> stream_key \<Rightarrow> presence \<times> bool" where
  "GetPresence t sid key =
     (case fmlookup (inner (byStream t) key) sid of
        None \<Rightarrow> (zero_presence, False)
      | Some sp \<Rightarrow> (mk_presence sid sp, True))"

definition Sessions :: "(string fset \<Rightarrow> string list) \<Rightarrow> local_tracker \<Rightarrow> stream_key \<Rightarrow> string list" where
  "Sessions ord t key = ord (fmdom (inner (byStream t) key))"

definition CountStream :: "local_tracker \<Rightarrow> stream_key \<Rightarrow> nat" where
  "CountStream t key = mlen (inner (byStream t) key)"

subsection \<open>Stream keys of the domains\<close>

definition StatusStream :: "string \<Rightarrow> stream_key" where
  "StatusStream userID =
     \<lparr>Mode = StreamModeStatus, Subject = userID, Subcontext = [], Label = []\<rparr>"

definition NotificationsStream :: "string \<Rightarrow> stream_key" where
  "NotificationsStream userID =
     \<lparr>Mode = StreamModeNotifications, Subject = userID, Subcontext = [], Label = []\<rparr>"

definition PartyStream :: "string \<Rightarrow> stream_key" where
  "PartyStream partyID =
     \<lparr>Mode = StreamModeParty, Subject = [], Subcontext = [], Label = partyID\<rparr>"

definition ChannelStream :: "string \<Rightarrow> stream_key" where
  "ChannelStream label =
     \<lparr>Mode = StreamModeChannel, Subject = [], Subcontext = [], Label = label\<rparr>"

definition GroupStream :: "string \<Rightarrow> stream_key" where
  "GroupStream groupID =
     \<lparr>Mode = StreamModeGroup, Subject = groupID, Subcontext = [], Label = []\<rparr>"

definition DMStream :: "string \<Rightarrow> string \<Rightarrow> stream_key" where
  "DMStream subject subcontext =
     \<lparr>Mode = StreamModeDM, Subject = subject, Subcontext = subcontext, Label = []\<rparr>"

definition MatchRelayedStream :: "string \<Rightarrow> stream_key" where
  "MatchRelayedStream matchUUID =
     \<lparr>Mode = StreamModeMatchRelayed, Subject = matchUUID, Subcontext = [], Label = []\<rparr>"

definition MatchAuthoritativeStream :: "string \<Rightarrow> string \<Rightarrow> stream_key" where
  "MatchAuthoritativeStream matchUUID node =
     \<lparr>Mode = StreamModeMatchAuthoritative, Subject = matchUUID, Subcontext = [], Label = node\<rparr>"

lemmas stream_key_defs = StatusStream_def NotificationsStream_def PartyStream_def
  ChannelStream_def GroupStream_def DMStream_def MatchRelayedStream_def
  MatchAuthoritativeStream_def

subsection \<open>Abstract content and invariant\<close>

definition tracker_abs :: "local_tracker \<Rightarrow> stream_key \<Rightarrow> string \<Rightarrow> stream_presence option" where
  "tracker_abs t = nget (byStream t)"

definition tracker_wf :: "local_tracker \<Rightarrow> bool" where
  "tracker_wf t \<longleftrightarrow> ninv (byStream t) \<and> ninv (bySess t) \<and>
     agree (nget (byStream t)) (nget (bySess t))"

lemma tracker_wfI:
  "ninv (byStream t) \<Longrightarrow> ninv (bySess t) \<Longrightarrow> agree (nget (byStream t)) (nget (bySess t)) \<Longrightarrow>
   tracker_wf t"
  by (simp add: tracker_wf_def)

lemma tracker_wf_new: "tracker_wf NewLocalTracker"
  by (simp add: tracker_wf_def NewLocalTracker_def agree_def)

lemma Track_wf: "tracker_wf t \<Longrightarrow> tracker_wf (fst (Track t sid key uid meta))"
  by (auto simp: tracker_wf_def Track_def Let_def inner_lookup
      intro: pidx.agree_put pidx.agree_overwrite)

lemma Update_nget:
  "Update t sid key uid meta =
     (if nget (byStream t) key sid = None then (t, False)
      else (t\<lparr>byStream := nput (byStream t) key sid \<lparr>SPUserID = uid, SPMeta = meta\<rparr>\<rparr>, True))"
  by (auto simp: Update_def nget_def split: option.split)

lemma Update_wf: "tracker_wf t \<Longrightarrow> tracker_wf (fst (Update t sid key uid meta))"
  by (simp add: tracker_wf_def Update_nget pidx.agree_overwrite)

lemma Untrack_wf: "tracker_wf t \<Longrightarrow> tracker_wf (fst (Untrack t sid key))"
  by (auto simp: tracker_wf_def Untrack_def Let_def intro: pidx.agree_del)

text \<open>The loops over a session's streams.\<close>

lemma detail_fold:
  "fst (fold (detail_step sid) keys (bs, out)) = fold (\<lambda>key m. ndel m key sid) keys bs"
  by (induction keys arbitrary: bs out) (auto simp: detail_step_def)

lemma detail_fold_out:
  "distinct keys \<Longrightarrow>
   snd (fold (detail_step sid) keys (bs, out)) =
     out @ concat (map (\<lambda>key. case nget bs key sid of
                                 Some sp \<Rightarrow> [(key, mk_presence sid sp)] | None \<Rightarrow> []) keys)"
proof (induction keys arbitrary: bs out)
  case (Cons k ks)
  then have "\<And>x. x \<in> set ks \<Longrightarrow> nget (ndel bs k sid) x sid = nget bs x sid"
    by (auto simp: nget_ndel)
  then have eq: "map (\<lambda>key. case nget (ndel bs k sid) key sid of
                    Some sp \<Rightarrow> [(key, mk_presence sid sp)] | None \<Rightarrow> []) ks =
             map (\<lambda>key. case nget bs key sid of
                    Some sp \<Rightarrow> [(key, mk_presence sid sp)] | None \<Rightarrow> []) ks"
    by simp
  from Cons.prems Cons.IH show ?case by (simp add: detail_step_def eq)
qed simp

lemma drop_session_wf:
  assumes "tracker_wf t" "set keys = {key. nget (bySess t) sid key \<noteq> None}"
  shows "tracker_wf (t\<lparr>byStream := fold (\<lambda>key m. ndel m key sid) keys (byStream t),
                       bySess := fmdrop sid (bySess t)\<rparr>)"
  using assms
  by (auto simp: tracker_wf_def nm.fold_laws agree_def nget_fmdrop)

lemma sess_keys:
  "valid_order ord \<Longrightarrow> fmlookup (bySess t) sid = Some sess \<Longrightarrow>
   set (ord (fmdom sess)) = {key. nget (bySess t) sid key \<noteq> None}"
  by (auto simp: valid_order_keys nget_def)

lemma UntrackAllDetailed_state:
  "fst (UntrackAllDetailed ord t sid) = fst (UntrackAllKeys ord t sid)"
  by (simp add: UntrackAllDetailed_def UntrackAllKeys_def case_prod_beta detail_fold
      split: option.split)

lemma UntrackAllKeys_wf:
  "valid_order ord \<Longrightarrow> tracker_wf t \<Longrightarrow> tracker_wf (fst (UntrackAllKeys ord t sid))"
  by (cases "fmlookup (bySess t) sid")
    (simp_all add: UntrackAllKeys_def drop_session_wf sess_keys)

lemma UntrackAllDetailed_wf:
  "valid_order ord \<Longrightarrow> tracker_wf t \<Longrightarrow> tracker_wf (fst (UntrackAllDetailed ord t sid))"
  by (simp add: UntrackAllDetailed_state UntrackAllKeys_wf)

lemma UntrackAll_state: "fst (UntrackAll ord t sid) = fst (UntrackAllKeys ord t sid)"
  by (simp add: UntrackAll_def case_prod_beta UntrackAllDetailed_state)

lemma lookup_fold_fmdrop:
  "fmlookup (fold fmdrop ks m) k = (if k \<in> set ks then None else fmlookup m k)"
  by (induction ks arbitrary: m) auto

lemma nget_set_inner:
  "nget (if mlen s = 0 then fmdrop a m else fmupd a s m) x y =
     (if x = a then fmlookup s y else nget m x y)"
  by (auto simp: nget_def)

lemma ninv_set_inner: "ninv m \<Longrightarrow> ninv (if mlen s = 0 then fmdrop a m else fmupd a s m)"
  by (auto simp: ninv_def)

lemma UntrackByMode_wf:
  assumes "valid_order ord" "tracker_wf t"
  shows "tracker_wf (UntrackByMode ord t sid mode)"
proof (cases "fmlookup (bySess t) sid")
  case None
  with assms show ?thesis by (simp add: UntrackByMode_def)
next
  case (Some sess)
  let ?keys = "filter (\<lambda>key. Mode key = mode) (ord (fmdom sess))"
  have sess: "fmlookup sess key = nget (bySess t) sid key" for key
    using Some by (simp add: nget_def)
  from assms(2) have wf: "ninv (byStream t)" "ninv (bySess t)"
    "agree (nget (byStream t)) (nget (bySess t))" by (simp_all add: tracker_wf_def)
  have keys: "set ?keys = {key. Mode key = mode \<and> nget (bySess t) sid key \<noteq> None}"
    using assms(1) by (auto simp: valid_order_keys sess)
  have "agree (nget (fold (\<lambda>key m. ndel m key sid) ?keys (byStream t)))
              (nget (if mlen (fold fmdrop ?keys sess) = 0 then fmdrop sid (bySess t)
                     else fmupd sid (fold fmdrop ?keys sess) (bySess t)))"
    unfolding agree_def nm.get_fold_del_outer nget_set_inner lookup_fold_fmdrop sess
    using wf(3) by (auto simp: keys agree_def simp del: set_filter)
  with Some wf show ?thesis
    unfolding tracker_wf_def
    by (simp add: UntrackByMode_def Let_def nm.inv_fold_del_outer ninv_set_inner del: mlen_0_iff)
qed

subsection \<open>Runs of tracker operations\<close>

datatype tracker_event =
    ETrack string stream_key string presence_meta
  | EUpdate string stream_key string presence_meta
  | EUntrack string stream_key
  | EUntrackAll string
  | EUntrackAllKeys string
  | EUntrackByMode string int16

fun tracker_step ::
  "(stream_key fset \<Rightarrow> stream_key list) \<Rightarrow> local_tracker \<Rightarrow> tracker_event \<Rightarrow> local_tracker" where
  "tracker_step ord t (ETrack sid key uid meta) = fst (Track t sid key uid meta)"
| "tracker_step ord t (EUpdate sid key uid meta) = fst (Update t sid key uid meta)"
| "tracker_step ord t (EUntrack sid key) = fst (Untrack t sid key)"
| "tracker_step ord t (EUntrackAll sid) = fst (UntrackAll ord t sid)"
| "tracker_step ord t (EUntrackAllKeys sid) = fst (UntrackAllKeys ord t sid)"
| "tracker_step ord t (EUntrackByMode sid mode) = UntrackByMode ord t sid mode"

lemma tracker_step_wf:
  "valid_order ord \<Longrightarrow> tracker_wf t \<Longrightarrow> tracker_wf (tracker_step ord t e)"
  by (cases e) (simp_all add: Track_wf Update_wf Untrack_wf UntrackAll_state UntrackAllKeys_wf
      UntrackByMode_wf)

text \<open>from an empty tracker, every sequence of tracker operations leaves the stream index and
  the session index listing exactly the same memberships, with no empty inner map kept.\<close>

lemma tracker_run_wf:
  assumes "valid_order ord"
  shows "tracker_wf (fold (\<lambda>e t. tracker_step ord t e) es NewLocalTracker)"
proof -
  have "tracker_wf t \<Longrightarrow> tracker_wf (fold (\<lambda>e t. tracker_step ord t e) es t)" for t
    by (induction es arbitrary: t) (simp_all add: tracker_step_wf assms)
  then show ?thesis by (simp add: tracker_wf_new)
qed

definition demo_meta :: presence_meta where
  "demo_meta = \<lparr>MetaUsername = ''ann'', MetaStatus = [], MetaHidden = False\<rparr>"

lemma tracker_run_wf_witness:
  "tracker_wf (fold (\<lambda>e t. tracker_step sorted_list_of_fset t e)
     [ETrack ''s1'' (StatusStream ''u1'') ''u1'' demo_meta,
      ETrack ''s1'' (PartyStream ''p'') ''u1'' demo_meta,
      EUntrackByMode ''s1'' StreamModeParty, EUntrackAll ''s1''] NewLocalTracker)"
  by (rule tracker_run_wf [OF valid_order_sorted])

subsection \<open>Each operation against the abstract content\<close>

lemma tracker_abs_new [simp]: "tracker_abs NewLocalTracker k s = None"
  by (simp add: tracker_abs_def NewLocalTracker_def)

lemma Track_abs:
  "tracker_abs (fst (Track t sid key uid meta)) k s =
     (if k = key \<and> s = sid then Some \<lparr>SPUserID = uid, SPMeta = meta\<rparr> else tracker_abs t k s)"
  by (simp add: tracker_abs_def Track_def Let_def nget_nput)

lemma Track_new: "snd (Track t sid key uid meta) \<longleftrightarrow> tracker_abs t key sid = None"
  by (simp add: Track_def Let_def tracker_abs_def inner_lookup)

lemma Update_abs:
  "tracker_abs (fst (Update t sid key uid meta)) k s =
     (if k = key \<and> s = sid \<and> tracker_abs t key sid \<noteq> None
      then Some \<lparr>SPUserID = uid, SPMeta = meta\<rparr> else tracker_abs t k s)"
  by (simp add: tracker_abs_def Update_nget nget_nput)

lemma Untrack_abs:
  "tracker_abs (fst (Untrack t sid key)) k s =
     (if k = key \<and> s = sid then None else tracker_abs t k s)"
  by (simp add: tracker_abs_def Untrack_def Let_def nget_ndel)

lemma UntrackAllKeys_abs:
  assumes "valid_order ord" "tracker_wf t"
  shows "tracker_abs (fst (UntrackAllKeys ord t sid)) k s =
           (if s = sid then None else tracker_abs t k s)"
proof (cases "fmlookup (bySess t) sid")
  case None
  with assms(2) have "tracker_abs t k sid = None"
    by (auto simp: tracker_abs_def tracker_wf_def agree_def nget_def [of "bySess t"])
  with None show ?thesis by (auto simp: UntrackAllKeys_def)
next
  case (Some sess)
  with assms show ?thesis
    by (auto simp: UntrackAllKeys_def tracker_abs_def nm.fold_laws sess_keys tracker_wf_def agree_def)
qed

lemma UntrackByMode_abs:
  assumes "valid_order ord" "tracker_wf t"
  shows "tracker_abs (UntrackByMode ord t sid mode) k s =
           (if s = sid \<and> Mode k = mode then None else tracker_abs t k s)"
proof (cases "fmlookup (bySess t) sid")
  case None
  with assms(2) have "tracker_abs t k sid = None"
    by (auto simp: tracker_abs_def tracker_wf_def agree_def nget_def [of "bySess t"])
  with None show ?thesis by (auto simp: UntrackByMode_def)
next
  case (Some sess)
  with assms show ?thesis
    by (auto simp: UntrackByMode_def Let_def tracker_abs_def nm.fold_laws sess_keys
        tracker_wf_def agree_def)
qed

text \<open>Every tracker operation implements the obvious update of the partial map from
  (stream, session) to presence data: \<open>Track\<close> sets one entry, \<open>Update\<close> replaces an existing one,
  \<open>Untrack\<close> clears one, the session-wide operations clear a session's entries (of one mode).\<close>

fun abs_step ::
  "(stream_key \<Rightarrow> string \<Rightarrow> stream_presence option) \<Rightarrow> tracker_event
   \<Rightarrow> stream_key \<Rightarrow> string \<Rightarrow> stream_presence option" where
  "abs_step m (ETrack sid key uid meta) =
     (\<lambda>k s. if k = key \<and> s = sid then Some \<lparr>SPUserID = uid, SPMeta = meta\<rparr> else m k s)"
| "abs_step m (EUpdate sid key uid meta) =
     (\<lambda>k s. if k = key \<and> s = sid \<and> m key sid \<noteq> None
            then Some \<lparr>SPUserID = uid, SPMeta = meta\<rparr> else m k s)"
| "abs_step m (EUntrack sid key) = (\<lambda>k s. if k = key \<and> s = sid then None else m k s)"
| "abs_step m (EUntrackAll sid) = (\<lambda>k s. if s = sid then None else m k s)"
| "abs_step m (EUntrackAllKeys sid) = (\<lambda>k s. if s = sid then None else m k s)"
| "abs_step m (EUntrackByMode sid mode) = (\<lambda>k s. if s = sid \<and> Mode k = mode then None else m k s)"

lemma tracker_step_abs:
  "valid_order ord \<Longrightarrow> tracker_wf t \<Longrightarrow>
   tracker_abs (tracker_step ord t e) = abs_step (tracker_abs t) e"
  by (cases e) (simp_all add: fun_eq_iff Track_abs Update_abs Untrack_abs UntrackAll_state
      UntrackAllKeys_abs UntrackByMode_abs)

text \<open>C1: a whole run of tracker operations computes the same content as the abstract partial map.\<close>

theorem tracker_refines_map:
  assumes "valid_order ord"
  shows "tracker_abs (fold (\<lambda>e t. tracker_step ord t e) es NewLocalTracker) =
         fold (\<lambda>e m. abs_step m e) es (\<lambda>_ _. None)"
proof -
  have "tracker_wf t \<Longrightarrow> tracker_abs (fold (\<lambda>e t. tracker_step ord t e) es t) =
          fold (\<lambda>e m. abs_step m e) es (tracker_abs t)" for t
    by (induction es arbitrary: t) (simp_all add: tracker_step_wf tracker_step_abs assms)
  moreover have "tracker_abs NewLocalTracker = (\<lambda>_ _. None)"
    by (simp add: tracker_abs_def NewLocalTracker_def fun_eq_iff)
  ultimately show ?thesis by (simp add: tracker_wf_new)
qed

theorem tracker_refines_map_witness:
  "tracker_abs (fold (\<lambda>e t. tracker_step sorted_list_of_fset t e)
     [ETrack ''s1'' (StatusStream ''u1'') ''u1'' demo_meta, EUntrackAll ''s2'']
     NewLocalTracker) (StatusStream ''u1'') ''s1'' =
   Some \<lparr>SPUserID = ''u1'', SPMeta = demo_meta\<rparr>"
  by (subst tracker_refines_map [OF valid_order_sorted]) simp

lemma UntrackAllDetailed_out:
  assumes "valid_order ord" "tracker_wf t"
  shows "set (snd (UntrackAllDetailed ord t sid)) =
           {(key, mk_presence sid sp) | key sp. tracker_abs t key sid = Some sp}"
    and "distinct (map fst (snd (UntrackAllDetailed ord t sid)))"
proof -
  let ?f = "\<lambda>key. case nget (byStream t) key sid of
                    Some sp \<Rightarrow> [(key, mk_presence sid sp)] | None \<Rightarrow> []"
  have shape: "\<exists>keys. distinct keys \<and> snd (UntrackAllDetailed ord t sid) = concat (map ?f keys) \<and>
                 set keys = {key. nget (bySess t) sid key \<noteq> None}"
  proof (cases "fmlookup (bySess t) sid")
    case None
    then show ?thesis
      by (intro exI [of _ "[]"]) (simp add: UntrackAllDetailed_def nget_def)
  next
    case (Some sess)
    with assms(1) show ?thesis
      by (intro exI [of _ "ord (fmdom sess)"])
        (simp add: UntrackAllDetailed_def case_prod_beta detail_fold_out valid_order_distinct sess_keys)
  qed
  then obtain keys where keys: "distinct keys"
    "snd (UntrackAllDetailed ord t sid) = concat (map ?f keys)"
    "set keys = {key. nget (bySess t) sid key \<noteq> None}" by blast
  have mem: "tracker_abs t key sid = Some sp \<Longrightarrow> key \<in> set keys" for key sp
    using assms(2) agreeD [of "nget (byStream t)" "nget (bySess t)" key sid]
    by (auto simp: keys(3) tracker_abs_def tracker_wf_def)
  have split: "set (?f key) =
      {(k, mk_presence sid sp) | k sp. k = key \<and> tracker_abs t k sid = Some sp}" for key
    by (auto simp: tracker_abs_def split: option.splits)
  show "set (snd (UntrackAllDetailed ord t sid)) =
          {(key, mk_presence sid sp) | key sp. tracker_abs t key sid = Some sp}"
    unfolding keys(2) set_concat set_map image_image split using mem by auto
  have "map fst (concat (map ?f ks)) = filter (\<lambda>key. nget (byStream t) key sid \<noteq> None) ks" for ks
    by (induction ks) (auto split: option.splits)
  then show "distinct (map fst (snd (UntrackAllDetailed ord t sid)))"
    by (simp add: keys)
qed

text \<open>when a session disconnects, \<open>UntrackAllDetailed\<close> reports each of its presences exactly
  once, with the data that was stored, and afterwards the session is on no stream while every
  other session's presences are untouched.\<close>

lemma untrack_all_complete:
  assumes "valid_order ord" "tracker_wf t"
  shows "set (snd (UntrackAllDetailed ord t sid)) =
           {(key, mk_presence sid sp) | key sp. tracker_abs t key sid = Some sp} \<and>
         distinct (map fst (snd (UntrackAllDetailed ord t sid))) \<and>
         (\<forall>k s. tracker_abs (fst (UntrackAllDetailed ord t sid)) k s =
                  (if s = sid then None else tracker_abs t k s))"
  using assms
  by (simp add: UntrackAllDetailed_out UntrackAllDetailed_state UntrackAllKeys_abs)

lemma untrack_all_complete_witness:
  "set (snd (UntrackAllDetailed sorted_list_of_fset
     (fst (Track NewLocalTracker ''s1'' (PartyStream ''p'') ''u1'' demo_meta)) ''s1'')) =
   {(PartyStream ''p'', \<lparr>PSessionID = ''s1'', PUserID = ''u1'', PMeta = demo_meta\<rparr>)}"
  using untrack_all_complete [OF valid_order_sorted Track_wf [OF tracker_wf_new],
      of "''s1''" "PartyStream ''p''" "''u1''" demo_meta "''s1''"]
  by (simp add: Track_abs mk_presence_def)

lemma ListByStream_set:
  assumes "valid_order ord"
  shows "set (ListByStream ord t key) =
           {mk_presence sid sp | sid sp. tracker_abs t key sid = Some sp}"
proof -
  have look: "fmlookup (inner (byStream t) key) sid = tracker_abs t key sid" for sid
    by (simp add: tracker_abs_def inner_lookup)
  have keys: "sid \<in> set (ord (fmdom (inner (byStream t) key))) \<longleftrightarrow> tracker_abs t key sid \<noteq> None" for sid
    using assms by (auto simp: valid_order_keys look)
  have "x \<in> set (ListByStream ord t key) \<longleftrightarrow>
          (\<exists>sid sp. tracker_abs t key sid = Some sp \<and> x = mk_presence sid sp)" for x
    unfolding ListByStream_def Let_def set_map image_iff Bex_def keys look
    by (metis not_None_eq option.sel)
  then show ?thesis by blast
qed

lemma domain_streams_are_domain:
  "IsDomainStreamMode (Mode (StatusStream u)) \<and> IsDomainStreamMode (Mode (NotificationsStream u)) \<and>
   IsDomainStreamMode (Mode (PartyStream u)) \<and> IsDomainStreamMode (Mode (ChannelStream u)) \<and>
   IsDomainStreamMode (Mode (GroupStream u)) \<and> IsDomainStreamMode (Mode (DMStream u v)) \<and>
   IsDomainStreamMode (Mode (MatchRelayedStream u)) \<and>
   IsDomainStreamMode (Mode (MatchAuthoritativeStream u v))"
  by (simp add: IsDomainStreamMode_def stream_key_defs)

end
