(* ===== verification/Online_Index.thy ===== *)
theory Online_Index
  imports Prelude
begin

section \<open>Online index\<close>

text \<open>
  Models \<open>internal/presence/online_index.go\<close>: users get a 32-bit index on first sight, and a
  roaring bitmap holds the indices of the users with at least one online session.  The bitmap
  library is not part of the repository: it is the parameter \<open>api\<close>, and \<open>bitmap_spec\<close> states its
  documented behaviour (a set of 32-bit integers, iterated in ascending order).  The index
  counter wraps at \<open>2 ^ 32\<close>, so the correctness lemmas bound the number of users ever seen.
\<close>

subsection \<open>The bitmap library as a parameter\<close>

record 'bm bitmap_api =
  bm_new :: 'bm
  bm_add :: "'bm \<Rightarrow> 32 word \<Rightarrow> 'bm"
  bm_remove :: "'bm \<Rightarrow> 32 word \<Rightarrow> 'bm"
  bm_contains :: "'bm \<Rightarrow> 32 word \<Rightarrow> bool"
  bm_and :: "'bm \<Rightarrow> 'bm \<Rightarrow> 'bm"
  bm_iter :: "'bm \<Rightarrow> 32 word list"

definition bitmap_spec :: "'bm bitmap_api \<Rightarrow> bool" where
  "bitmap_spec api \<longleftrightarrow>
     (\<forall>i. \<not> bm_contains api (bm_new api) i) \<and>
     (\<forall>b i j. bm_contains api (bm_add api b i) j \<longleftrightarrow> j = i \<or> bm_contains api b j) \<and>
     (\<forall>b i j. bm_contains api (bm_remove api b i) j \<longleftrightarrow> j \<noteq> i \<and> bm_contains api b j) \<and>
     (\<forall>a b i. bm_contains api (bm_and api a b) i \<longleftrightarrow> bm_contains api a i \<and> bm_contains api b i) \<and>
     (\<forall>b. set (bm_iter api b) = {i. bm_contains api b i} \<and> distinct (bm_iter api b))"

lemma bitmap_specD:
  assumes "bitmap_spec api"
  shows "\<not> bm_contains api (bm_new api) i"
    and "bm_contains api (bm_add api b i) j \<longleftrightarrow> j = i \<or> bm_contains api b j"
    and "bm_contains api (bm_remove api b i) j \<longleftrightarrow> j \<noteq> i \<and> bm_contains api b j"
    and "bm_contains api (bm_and api a b) i \<longleftrightarrow> bm_contains api a i \<and> bm_contains api b i"
    and "set (bm_iter api b) = {i. bm_contains api b i}"
    and "distinct (bm_iter api b)"
  using assms by (simp_all add: bitmap_spec_def)

text \<open>A concrete bitmap, a finite set of words, for closed examples.\<close>

definition fset_bitmap :: "32 word fset bitmap_api" where
  "fset_bitmap = \<lparr>bm_new = {||}, bm_add = (\<lambda>b i. finsert i b), bm_remove = (\<lambda>b i. b |-| {|i|}),
     bm_contains = (\<lambda>b i. i |\<in>| b), bm_and = (|\<inter>|), bm_iter = sorted_list_of_fset\<rparr>"

lemma fset_bitmap_spec: "bitmap_spec fset_bitmap"
  by (auto simp: bitmap_spec_def fset_bitmap_def sorted_list_of_fset.rep_eq)

subsection \<open>State and operations\<close>

record 'bm online_index =
  onlineBitmap :: 'bm
  userToIdx :: "(string, 32 word) fmap"
  idxToUser :: "(32 word, string) fmap"
  nextUserIdx :: "32 word"
  sessionCount :: "(string, int) fmap"

definition NewOnlineIndex :: "'bm bitmap_api \<Rightarrow> 'bm online_index" where
  "NewOnlineIndex api = \<lparr>onlineBitmap = bm_new api, userToIdx = fmempty, idxToUser = fmempty,
     nextUserIdx = 1, sessionCount = fmempty\<rparr>"

text \<open>Reading a missing key of a Go map yields the zero value.\<close>

definition sess_count :: "'bm online_index \<Rightarrow> string \<Rightarrow> int" where
  "sess_count oi u = (case fmlookup (sessionCount oi) u of None \<Rightarrow> 0 | Some n \<Rightarrow> n)"

definition SetOnline :: "'bm bitmap_api \<Rightarrow> 'bm online_index \<Rightarrow> string \<Rightarrow> 'bm online_index" where
  "SetOnline api oi userID =
     (if userID = [] then oi
      else
        (let oi1 = oi\<lparr>sessionCount := fmupd userID (sess_count oi userID + 1) (sessionCount oi)\<rparr>
         in case fmlookup (userToIdx oi1) userID of
              Some idx \<Rightarrow> oi1\<lparr>onlineBitmap := bm_add api (onlineBitmap oi1) idx\<rparr>
            | None \<Rightarrow>
                (let idx = nextUserIdx oi1
                 in oi1\<lparr>nextUserIdx := nextUserIdx oi1 + 1,
                        userToIdx := fmupd userID idx (userToIdx oi1),
                        idxToUser := fmupd idx userID (idxToUser oi1),
                        onlineBitmap := bm_add api (onlineBitmap oi1) idx\<rparr>)))"

definition ClearOnline :: "'bm bitmap_api \<Rightarrow> 'bm online_index \<Rightarrow> string \<Rightarrow> 'bm online_index" where
  "ClearOnline api oi userID =
     (if userID = [] then oi
      else
        (let n = sess_count oi userID
         in if n \<le> 1 then
              (let oi1 = oi\<lparr>sessionCount := fmdrop userID (sessionCount oi)\<rparr>
               in case fmlookup (userToIdx oi1) userID of
                    Some idx \<Rightarrow> oi1\<lparr>onlineBitmap := bm_remove api (onlineBitmap oi1) idx\<rparr>
                  | None \<Rightarrow> oi1)
            else oi\<lparr>sessionCount := fmupd userID (n - 1) (sessionCount oi)\<rparr>))"

definition IndexIsOnline :: "'bm bitmap_api \<Rightarrow> 'bm online_index \<Rightarrow> string \<Rightarrow> bool" where
  "IndexIsOnline api oi userID =
     (case fmlookup (userToIdx oi) userID of
        None \<Rightarrow> False
      | Some idx \<Rightarrow> bm_contains api (onlineBitmap oi) idx)"

definition GetOnlineFriends ::
  "'bm bitmap_api \<Rightarrow> 'bm online_index \<Rightarrow> string list \<Rightarrow> string list" where
  "GetOnlineFriends api oi friends =
     (let friendsBitmap = fold (\<lambda>f b. case fmlookup (userToIdx oi) f of
                                        Some idx \<Rightarrow> bm_add api b idx | None \<Rightarrow> b)
                            friends (bm_new api);
          intersection = bm_and api friendsBitmap (onlineBitmap oi)
      in List.map_filter (\<lambda>idx. fmlookup (idxToUser oi) idx) (bm_iter api intersection))"

subsection \<open>Session counts\<close>

definition counts_pos :: "'bm online_index \<Rightarrow> bool" where
  "counts_pos oi \<longleftrightarrow> fmpred (\<lambda>u n. 0 < n \<and> u \<noteq> []) (sessionCount oi)"

lemma counts_pos_new: "counts_pos (NewOnlineIndex api)"
  by (simp add: counts_pos_def NewOnlineIndex_def)

lemma sess_count_nonneg: "counts_pos oi \<Longrightarrow> 0 \<le> sess_count oi u"
  by (fastforce simp: counts_pos_def sess_count_def fmpred_iff split: option.split)

lemma sessionCount_Set:
  "sessionCount (SetOnline api oi u) =
     (if u = [] then sessionCount oi else fmupd u (sess_count oi u + 1) (sessionCount oi))"
  by (simp add: SetOnline_def Let_def split: option.split)

lemma sessionCount_Clear:
  "sessionCount (ClearOnline api oi u) =
     (if u = [] then sessionCount oi
      else if sess_count oi u \<le> 1 then fmdrop u (sessionCount oi)
      else fmupd u (sess_count oi u - 1) (sessionCount oi))"
  by (simp add: ClearOnline_def Let_def split: option.split)

lemma counts_pos_Set: "counts_pos oi \<Longrightarrow> counts_pos (SetOnline api oi u)"
  using sess_count_nonneg [of oi u]
  by (auto simp: counts_pos_def sessionCount_Set intro!: fmpred_upd)

lemma counts_pos_Clear: "counts_pos oi \<Longrightarrow> counts_pos (ClearOnline api oi u)"
  by (auto simp: counts_pos_def sessionCount_Clear intro!: fmpred_upd fmpred_drop)

text \<open>
  What a client of the index relies on: \<open>set\<close> adds one session, \<open>clear\<close> takes one away but
  never goes below zero, and the empty user ID is ignored.
\<close>

locale session_counter =
  fixes set_on :: "'s \<Rightarrow> string \<Rightarrow> 's"
    and clear_on :: "'s \<Rightarrow> string \<Rightarrow> 's"
    and count :: "'s \<Rightarrow> string \<Rightarrow> nat"
    and ok :: "'s \<Rightarrow> bool"
  assumes count_set: "ok s \<Longrightarrow> u \<noteq> [] \<Longrightarrow>
      count (set_on s u) v = (if v = u then Suc (count s u) else count s v)"
    and count_clear: "ok s \<Longrightarrow> u \<noteq> [] \<Longrightarrow>
      count (clear_on s u) v = (if v = u then count s u - 1 else count s v)"
    and count_none: "count (set_on s []) v = count s v" "count (clear_on s []) v = count s v"
    and ok_set: "ok s \<Longrightarrow> ok (set_on s u)"
    and ok_clear: "ok s \<Longrightarrow> ok (clear_on s u)"

definition user_count :: "'bm online_index \<Rightarrow> string \<Rightarrow> nat" where
  "user_count oi u = nat (sess_count oi u)"

lemma user_count_Set:
  "counts_pos oi \<Longrightarrow> u \<noteq> [] \<Longrightarrow>
   user_count (SetOnline api oi u) v = (if v = u then Suc (user_count oi u) else user_count oi v)"
  using sess_count_nonneg [of oi u]
  by (simp add: user_count_def sess_count_def [of "SetOnline api oi u"] sessionCount_Set
      Suc_nat_eq_nat_zadd1 add.commute) (simp add: sess_count_def)

lemma user_count_Clear:
  "counts_pos oi \<Longrightarrow> u \<noteq> [] \<Longrightarrow>
   user_count (ClearOnline api oi u) v = (if v = u then user_count oi u - 1 else user_count oi v)"
  using sess_count_nonneg [of oi u]
  by (simp add: user_count_def sess_count_def [of "ClearOnline api oi u"] sessionCount_Clear)
    (auto simp: sess_count_def)

interpretation oic: session_counter "SetOnline api" "ClearOnline api" user_count counts_pos
  for api :: "'bm bitmap_api"
proof
  show "user_count (SetOnline api s []) v = user_count s v" for s :: "'bm online_index" and v
    by (simp add: SetOnline_def)
  show "user_count (ClearOnline api s []) v = user_count s v" for s :: "'bm online_index" and v
    by (simp add: ClearOnline_def)
qed (simp_all add: user_count_Set user_count_Clear counts_pos_Set counts_pos_Clear)

subsection \<open>The bitmap agrees with the counts\<close>

definition index_wf :: "'bm bitmap_api \<Rightarrow> 'bm online_index \<Rightarrow> bool" where
  "index_wf api oi \<longleftrightarrow>
     counts_pos oi \<and>
     (\<forall>u i. fmlookup (userToIdx oi) u = Some i \<longleftrightarrow> fmlookup (idxToUser oi) i = Some u) \<and>
     (\<forall>u i. fmlookup (userToIdx oi) u = Some i \<longrightarrow> unat i < unat (nextUserIdx oi)) \<and>
     unat (nextUserIdx oi) = Suc (mlen (userToIdx oi)) \<and>
     (\<forall>u. u |\<in>| fmdom (sessionCount oi) \<longrightarrow> fmlookup (userToIdx oi) u \<noteq> None) \<and>
     (\<forall>i. bm_contains api (onlineBitmap oi) i \<longleftrightarrow>
        (\<exists>u. fmlookup (userToIdx oi) u = Some i \<and> u |\<in>| fmdom (sessionCount oi)))"

lemma index_wf_new: "bitmap_spec api \<Longrightarrow> index_wf api (NewOnlineIndex api)"
  by (simp add: index_wf_def NewOnlineIndex_def bitmap_specD counts_pos_def)

lemma index_wf_counts: "index_wf api oi \<Longrightarrow> counts_pos oi"
  by (simp add: index_wf_def)

lemma index_wfD:
  assumes "index_wf api oi"
  shows "fmlookup (idxToUser oi) i = Some u \<longleftrightarrow> fmlookup (userToIdx oi) u = Some i"
    and "fmlookup (userToIdx oi) u = Some i \<Longrightarrow> unat i < unat (nextUserIdx oi)"
    and "unat (nextUserIdx oi) = Suc (mlen (userToIdx oi))"
    and "u |\<in>| fmdom (sessionCount oi) \<Longrightarrow> fmlookup (userToIdx oi) u \<noteq> None"
    and "bm_contains api (onlineBitmap oi) i \<longleftrightarrow>
        (\<exists>u. fmlookup (userToIdx oi) u = Some i \<and> u |\<in>| fmdom (sessionCount oi))"
  using assms unfolding index_wf_def by metis+

lemma index_wfI:
  assumes "counts_pos oi"
    and "\<And>u i. fmlookup (userToIdx oi) u = Some i \<longleftrightarrow> fmlookup (idxToUser oi) i = Some u"
    and "\<And>u i. fmlookup (userToIdx oi) u = Some i \<Longrightarrow> unat i < unat (nextUserIdx oi)"
    and "unat (nextUserIdx oi) = Suc (mlen (userToIdx oi))"
    and "\<And>u. u |\<in>| fmdom (sessionCount oi) \<Longrightarrow> fmlookup (userToIdx oi) u \<noteq> None"
    and "\<And>i. bm_contains api (onlineBitmap oi) i \<longleftrightarrow>
        (\<exists>u. fmlookup (userToIdx oi) u = Some i \<and> u |\<in>| fmdom (sessionCount oi))"
  shows "index_wf api oi"
  unfolding index_wf_def using assms by blast

lemma index_inj:
  "index_wf api oi \<Longrightarrow> fmlookup (userToIdx oi) u = Some i \<Longrightarrow> fmlookup (userToIdx oi) v = Some i \<Longrightarrow>
   u = v"
  by (metis index_wfD(1) option.inject)

lemma unat_succ: "Suc (unat (x :: 32 word)) < 2 ^ 32 \<Longrightarrow> unat (x + 1) = Suc (unat x)"
  by (simp add: unat_word_ariths)

lemma Set_fields_old:
  assumes "fmlookup (userToIdx oi) u = Some i" "u \<noteq> []"
  shows "userToIdx (SetOnline api oi u) = userToIdx oi"
    and "idxToUser (SetOnline api oi u) = idxToUser oi"
    and "nextUserIdx (SetOnline api oi u) = nextUserIdx oi"
    and "onlineBitmap (SetOnline api oi u) = bm_add api (onlineBitmap oi) i"
  using assms by (simp_all add: SetOnline_def Let_def)

lemma Set_fields_new:
  assumes "fmlookup (userToIdx oi) u = None" "u \<noteq> []"
  shows "userToIdx (SetOnline api oi u) = fmupd u (nextUserIdx oi) (userToIdx oi)"
    and "idxToUser (SetOnline api oi u) = fmupd (nextUserIdx oi) u (idxToUser oi)"
    and "nextUserIdx (SetOnline api oi u) = nextUserIdx oi + 1"
    and "onlineBitmap (SetOnline api oi u) = bm_add api (onlineBitmap oi) (nextUserIdx oi)"
  using assms by (simp_all add: SetOnline_def Let_def)

lemma index_wf_Set_old:
  assumes spec: "bitmap_spec api" and wf: "index_wf api oi"
    and old: "fmlookup (userToIdx oi) u = Some i" and u: "u \<noteq> []"
  shows "index_wf api (SetOnline api oi u)"
proof (rule index_wfI)
  show "counts_pos (SetOnline api oi u)"
    by (rule counts_pos_Set [OF index_wf_counts [OF wf]])
  fix v j
  show "fmlookup (userToIdx (SetOnline api oi u)) v = Some j \<longleftrightarrow>
        fmlookup (idxToUser (SetOnline api oi u)) j = Some v"
    by (simp add: Set_fields_old [OF old u] index_wfD(1) [OF wf])
  show "fmlookup (userToIdx (SetOnline api oi u)) v = Some j \<Longrightarrow>
        unat j < unat (nextUserIdx (SetOnline api oi u))"
    by (simp add: Set_fields_old [OF old u] index_wfD(2) [OF wf])
  show "unat (nextUserIdx (SetOnline api oi u)) = Suc (mlen (userToIdx (SetOnline api oi u)))"
    by (simp add: Set_fields_old [OF old u] index_wfD(3) [OF wf])
  show "v |\<in>| fmdom (sessionCount (SetOnline api oi u)) \<Longrightarrow>
        fmlookup (userToIdx (SetOnline api oi u)) v \<noteq> None"
    using index_wfD(4) [OF wf, of v] old u
    by (auto simp: Set_fields_old [OF old u] sessionCount_Set split: if_splits)
  show "bm_contains api (onlineBitmap (SetOnline api oi u)) j \<longleftrightarrow>
        (\<exists>v. fmlookup (userToIdx (SetOnline api oi u)) v = Some j \<and>
             v |\<in>| fmdom (sessionCount (SetOnline api oi u)))"
    unfolding Set_fields_old [OF old u] bitmap_specD(2) [OF spec] index_wfD(5) [OF wf]
      sessionCount_Set
    using old u by (cases "j = i") auto
qed

lemma index_wf_Set_new:
  assumes spec: "bitmap_spec api" and wf: "index_wf api oi"
    and new: "fmlookup (userToIdx oi) u = None" and u: "u \<noteq> []"
    and room: "mlen (userToIdx oi) < 2 ^ 32 - 2"
  shows "index_wf api (SetOnline api oi u)"
proof (rule index_wfI)
  have n: "unat (nextUserIdx oi) = Suc (mlen (userToIdx oi))" by (rule index_wfD(3) [OF wf])
  with room have succ: "unat (nextUserIdx oi + 1) = Suc (unat (nextUserIdx oi))"
    by (intro unat_succ) simp
  have fresh: "fmlookup (userToIdx oi) v \<noteq> Some (nextUserIdx oi)" for v
    using index_wfD(2) [OF wf, of v "nextUserIdx oi"] by auto
  have nocount: "u |\<notin>| fmdom (sessionCount oi)"
    using index_wfD(4) [OF wf, of u] new by auto
  show "counts_pos (SetOnline api oi u)"
    by (rule counts_pos_Set [OF index_wf_counts [OF wf]])
  fix v j
  show "fmlookup (userToIdx (SetOnline api oi u)) v = Some j \<longleftrightarrow>
        fmlookup (idxToUser (SetOnline api oi u)) j = Some v"
    using fresh new by (auto simp: Set_fields_new [OF new u] index_wfD(1) [OF wf])
  show "fmlookup (userToIdx (SetOnline api oi u)) v = Some j \<Longrightarrow>
        unat j < unat (nextUserIdx (SetOnline api oi u))"
    using index_wfD(2) [OF wf, of v j]
    by (auto simp: Set_fields_new [OF new u] succ split: if_splits)
  show "unat (nextUserIdx (SetOnline api oi u)) = Suc (mlen (userToIdx (SetOnline api oi u)))"
    using new by (simp add: Set_fields_new [OF new u] succ n mlen_fmupd_new)
  show "v |\<in>| fmdom (sessionCount (SetOnline api oi u)) \<Longrightarrow>
        fmlookup (userToIdx (SetOnline api oi u)) v \<noteq> None"
    using index_wfD(4) [OF wf, of v] u
    by (auto simp: Set_fields_new [OF new u] sessionCount_Set split: if_splits)
  show "bm_contains api (onlineBitmap (SetOnline api oi u)) j \<longleftrightarrow>
        (\<exists>v. fmlookup (userToIdx (SetOnline api oi u)) v = Some j \<and>
             v |\<in>| fmdom (sessionCount (SetOnline api oi u)))"
    unfolding Set_fields_new [OF new u] bitmap_specD(2) [OF spec] index_wfD(5) [OF wf]
      sessionCount_Set
    using new u fresh nocount by (cases "j = nextUserIdx oi", auto) metis
qed

lemma index_wf_Set:
  assumes "bitmap_spec api" "index_wf api oi" "mlen (userToIdx oi) < 2 ^ 32 - 2"
  shows "index_wf api (SetOnline api oi u)"
proof (cases "u = []")
  case True
  with assms show ?thesis by (simp add: SetOnline_def)
next
  case False
  then show ?thesis
    using assms index_wf_Set_old index_wf_Set_new
    by (cases "fmlookup (userToIdx oi) u") blast+
qed

lemma Clear_fields:
  "userToIdx (ClearOnline api oi u) = userToIdx oi"
  "idxToUser (ClearOnline api oi u) = idxToUser oi"
  "nextUserIdx (ClearOnline api oi u) = nextUserIdx oi"
  by (simp_all add: ClearOnline_def Let_def split: option.split)

lemma Clear_bitmap:
  "onlineBitmap (ClearOnline api oi u) =
     (if u = [] \<or> 1 < sess_count oi u then onlineBitmap oi
      else case fmlookup (userToIdx oi) u of
             Some i \<Rightarrow> bm_remove api (onlineBitmap oi) i | None \<Rightarrow> onlineBitmap oi)"
  by (auto simp: ClearOnline_def Let_def split: option.split)

lemma index_wf_Clear:
  assumes spec: "bitmap_spec api" and wf: "index_wf api oi"
  shows "index_wf api (ClearOnline api oi u)"
proof (rule index_wfI)
  have has: "u |\<in>| fmdom (sessionCount oi)" if "1 < sess_count oi u"
    using that by (auto simp: sess_count_def fmlookup_dom_iff split: option.splits)
  show "counts_pos (ClearOnline api oi u)"
    by (rule counts_pos_Clear [OF index_wf_counts [OF wf]])
  fix v j
  show "fmlookup (userToIdx (ClearOnline api oi u)) v = Some j \<longleftrightarrow>
        fmlookup (idxToUser (ClearOnline api oi u)) j = Some v"
    by (simp add: Clear_fields index_wfD(1) [OF wf])
  show "fmlookup (userToIdx (ClearOnline api oi u)) v = Some j \<Longrightarrow>
        unat j < unat (nextUserIdx (ClearOnline api oi u))"
    by (simp add: Clear_fields index_wfD(2) [OF wf])
  show "unat (nextUserIdx (ClearOnline api oi u)) = Suc (mlen (userToIdx (ClearOnline api oi u)))"
    by (simp add: Clear_fields index_wfD(3) [OF wf])
  show "v |\<in>| fmdom (sessionCount (ClearOnline api oi u)) \<Longrightarrow>
        fmlookup (userToIdx (ClearOnline api oi u)) v \<noteq> None"
    using index_wfD(4) [OF wf, of v] has
    by (auto simp: Clear_fields sessionCount_Clear split: if_splits)
  show "bm_contains api (onlineBitmap (ClearOnline api oi u)) j \<longleftrightarrow>
        (\<exists>v. fmlookup (userToIdx (ClearOnline api oi u)) v = Some j \<and>
             v |\<in>| fmdom (sessionCount (ClearOnline api oi u)))"
  proof (cases "u = [] \<or> 1 < sess_count oi u")
    case True
    then show ?thesis
      using has by (auto simp: Clear_fields Clear_bitmap sessionCount_Clear index_wfD(5) [OF wf])
  next
    case False
    then show ?thesis
      unfolding Clear_fields Clear_bitmap sessionCount_Clear
      by (cases "fmlookup (userToIdx oi) u")
        (auto simp: index_wfD(5) [OF wf] bitmap_specD(3) [OF spec] dest: index_inj [OF wf])
  qed
qed

lemma IndexIsOnline_count:
  assumes "index_wf api oi"
  shows "IndexIsOnline api oi u \<longleftrightarrow> 0 < user_count oi u"
proof -
  have "u |\<in>| fmdom (sessionCount oi) \<longleftrightarrow> 0 < user_count oi u"
    using index_wf_counts [OF assms]
    by (auto simp: counts_pos_def user_count_def sess_count_def fmpred_iff fmlookup_dom_iff
        split: option.splits)
  moreover have "IndexIsOnline api oi u \<longleftrightarrow> u |\<in>| fmdom (sessionCount oi)"
  proof (cases "fmlookup (userToIdx oi) u")
    case None
    with index_wfD(4) [OF assms, of u] show ?thesis by (auto simp: IndexIsOnline_def)
  next
    case (Some i)
    have "(\<exists>v. fmlookup (userToIdx oi) v = Some i \<and> v |\<in>| fmdom (sessionCount oi)) \<longleftrightarrow>
          u |\<in>| fmdom (sessionCount oi)"
      using Some index_inj [OF assms Some] by metis
    with Some show ?thesis
      by (simp add: IndexIsOnline_def index_wfD(5) [OF assms])
  qed
  ultimately show ?thesis by simp
qed

subsection \<open>Online friends\<close>

lemma friends_bits:
  assumes "bitmap_spec api"
  shows "bm_contains api (fold (\<lambda>f b. case m f of Some idx \<Rightarrow> bm_add api b idx | None \<Rightarrow> b) fs b) i
           \<longleftrightarrow> bm_contains api b i \<or> (\<exists>f \<in> set fs. m f = Some i)"
  by (induction fs arbitrary: b)
    (auto simp: bitmap_specD [OF assms] split: option.splits)

lemma set_map_filter: "set (List.map_filter f xs) = {y. \<exists>x \<in> set xs. f x = Some y}"
  by (auto simp: List.map_filter_def image_iff) force

lemma distinct_map_filter:
  "distinct xs \<Longrightarrow> (\<And>x y z. f x = Some z \<Longrightarrow> f y = Some z \<Longrightarrow> x = y) \<Longrightarrow>
   distinct (List.map_filter f xs)"
proof (induction xs)
  case Nil
  then show ?case by (simp add: List.map_filter_simps)
next
  case (Cons x xs)
  then show ?case
    by (auto simp: List.map_filter_simps set_map_filter split: option.split)
qed

text \<open>the online friends of a list of users are exactly the listed users with a positive
  session count, each reported once.\<close>

lemma online_friends_exact:
  assumes spec: "bitmap_spec api" and wf: "index_wf api oi"
  shows "set (GetOnlineFriends api oi fs) = {u \<in> set fs. 0 < user_count oi u} \<and>
         distinct (GetOnlineFriends api oi fs)"
proof
  have inv: "fmlookup (idxToUser oi) i = Some u \<longleftrightarrow> fmlookup (userToIdx oi) u = Some i" for i u
    using wf by (simp add: index_wf_def)
  have on: "0 < user_count oi u \<longleftrightarrow>
      (\<exists>i. fmlookup (userToIdx oi) u = Some i \<and> bm_contains api (onlineBitmap oi) i)" for u
    by (simp add: IndexIsOnline_count [OF wf, symmetric] IndexIsOnline_def split: option.split)
  have inj: "fmlookup (userToIdx oi) u = Some i \<Longrightarrow> fmlookup (userToIdx oi) v = Some i \<Longrightarrow> u = v"
    for u v i by (metis inv option.inject)
  show "set (GetOnlineFriends api oi fs) = {u \<in> set fs. 0 < user_count oi u}"
    unfolding GetOnlineFriends_def Let_def set_map_filter
    by (auto simp: bitmap_specD [OF spec] friends_bits [OF spec] inv on dest: inj)
  show "distinct (GetOnlineFriends api oi fs)"
    unfolding GetOnlineFriends_def Let_def
    by (rule distinct_map_filter) (auto simp: bitmap_specD [OF spec] inv)
qed

lemma online_friends_exact_witness:
  "set (GetOnlineFriends fset_bitmap
          (SetOnline fset_bitmap (NewOnlineIndex fset_bitmap) ''u1'') [''u1'', ''u2'']) = {''u1''}"
proof -
  let ?o = "NewOnlineIndex fset_bitmap"
  have wf: "index_wf fset_bitmap (SetOnline fset_bitmap ?o ''u1'')"
    by (rule index_wf_Set [OF fset_bitmap_spec index_wf_new [OF fset_bitmap_spec]])
      (simp add: NewOnlineIndex_def)
  have "user_count (SetOnline fset_bitmap ?o ''u1'') v = (if v = ''u1'' then 1 else 0)" for v
    by (simp add: user_count_Set counts_pos_new) (simp add: user_count_def sess_count_def NewOnlineIndex_def)
  then show ?thesis
    using online_friends_exact [OF fset_bitmap_spec wf, of "[''u1'', ''u2'']"]
    by (auto split: if_splits)
qed

end
