(* ===== verification/Status_Registry.thy ===== *)
theory Status_Registry
  imports Online_Index "HOL-Library.Multiset"
begin

section \<open>Status registry\<close>

text \<open>
  Models \<open>internal/presence/status_registry.go\<close> and \<open>message_router.go\<close>: sessions follow users,
  status events are queued on a bounded channel, a worker applies each to the online cache (and
  to the online index, when one is attached) and fans it out to the follower sessions.

  Three parts: the follow edges (two mirrored indexes), the online cache against the online
  index through the contract \<open>session_counter\<close>, and the event queue with its overflow path as a
  step relation.
\<close>

record status_presence =
  StUserID :: string
  StSessionID :: string
  StUsername :: string
  StStatus :: string

record status_event =
  evUserID :: string
  evJoins :: "status_presence list"
  evLeaves :: "status_presence list"

text \<open>A \<open>LocalMessageRouter\<close>, whose sender (the connection registry, outside this model) may be nil.\<close>

datatype local_router = LocalMessageRouter (has_sender: bool)

record 'bm status_registry =
  bySession :: "(string, string, unit) nmap"
  byUser :: "(string, string, unit) nmap"
  onlineCache :: "(string, string, unit) nmap"
  router :: "local_router option"
  online :: "'bm online_index option"

definition NewStatusRegistry :: "local_router option \<Rightarrow> 'bm online_index option \<Rightarrow> 'bm status_registry" where
  "NewStatusRegistry r oi =
     \<lparr>bySession = fmempty, byUser = fmempty, onlineCache = fmempty, router = r, online = oi\<rparr>"

definition queue_capacity :: "int \<Rightarrow> nat" where
  "queue_capacity queueSize = (if queueSize \<le> 0 then 1024 else nat queueSize)"

subsection \<open>Follow edges\<close>

definition Follow ::
  "'bm status_registry \<Rightarrow> string \<Rightarrow> string list \<Rightarrow> 'bm status_registry \<times> nat" where
  "Follow sr sid uids =
     (let valid = filter (\<lambda>u. u \<noteq> []) uids;
          followed = fold (\<lambda>u f. fmupd u () f) valid (inner (bySession sr) sid)
      in (sr\<lparr>bySession := fmupd sid followed (bySession sr),
             byUser := fold (\<lambda>u m. nput m u sid ()) valid (byUser sr)\<rparr>,
          mlen followed))"

definition FollowCount :: "'bm status_registry \<Rightarrow> string \<Rightarrow> nat" where
  "FollowCount sr sid = mlen (inner (bySession sr) sid)"

definition Unfollow :: "'bm status_registry \<Rightarrow> string \<Rightarrow> string list \<Rightarrow> 'bm status_registry" where
  "Unfollow sr sid uids =
     (let byUser' = fold (\<lambda>u m. ndel m u sid) uids (byUser sr)
      in case fmlookup (bySession sr) sid of
           None \<Rightarrow> sr\<lparr>byUser := byUser'\<rparr>
         | Some followed \<Rightarrow>
             (let followed' = fold fmdrop uids followed
              in sr\<lparr>byUser := byUser',
                    bySession := (if mlen followed' = 0 then fmdrop sid (bySession sr)
                                  else fmupd sid followed' (bySession sr))\<rparr>))"

definition UnfollowAll ::
  "(string fset \<Rightarrow> string list) \<Rightarrow> 'bm status_registry \<Rightarrow> string \<Rightarrow> 'bm status_registry" where
  "UnfollowAll ord sr sid =
     (case fmlookup (bySession sr) sid of
        None \<Rightarrow> sr
      | Some followed \<Rightarrow>
          sr\<lparr>byUser := fold (\<lambda>u m. ndel m u sid) (ord (fmdom followed)) (byUser sr),
             bySession := fmdrop sid (bySession sr)\<rparr>)"

definition follow_wf :: "'bm status_registry \<Rightarrow> bool" where
  "follow_wf sr \<longleftrightarrow> ninv (byUser sr) \<and> agree (nget (bySession sr)) (nget (byUser sr))"

lemma follow_wf_new: "follow_wf (NewStatusRegistry r oi)"
  by (simp add: follow_wf_def NewStatusRegistry_def agree_def)

lemma lookup_fold_unit:
  "fmlookup (fold (\<lambda>u f. fmupd u () f) us m) k = (if k \<in> set us then Some () else fmlookup m k)"
  by (induction us arbitrary: m) auto

lemma lookup_fold_drop:
  "fmlookup (fold fmdrop us m) k = (if k \<in> set us then None else fmlookup m k)"
  by (induction us arbitrary: m) auto

lemma nget_fmupd: "nget (fmupd a s m) x y = (if x = a then fmlookup s y else nget m x y)"
  by (simp add: nget_def)

lemma Follow_edges:
  "nget (bySession (fst (Follow sr sid uids))) s u =
     (if s = sid \<and> u \<in> set uids \<and> u \<noteq> [] then Some () else nget (bySession sr) s u)"
  "nget (byUser (fst (Follow sr sid uids))) u s =
     (if s = sid \<and> u \<in> set uids \<and> u \<noteq> [] then Some () else nget (byUser sr) u s)"
  by (auto simp: Follow_def Let_def nget_fmupd lookup_fold_unit inner_lookup nm.fold_laws)

lemma Unfollow_edges:
  "nget (bySession (Unfollow sr sid uids)) s u =
     (if s = sid \<and> u \<in> set uids then None else nget (bySession sr) s u)"
  "nget (byUser (Unfollow sr sid uids)) u s =
     (if s = sid \<and> u \<in> set uids then None else nget (byUser sr) u s)"
  by (auto simp: Unfollow_def Let_def nget_fmupd nget_fmdrop lookup_fold_drop nm.fold_laws
      nget_def [of "bySession sr"] fmempty_iff_lookup split: option.split)

lemma Follow_wf: "follow_wf sr \<Longrightarrow> follow_wf (fst (Follow sr sid uids))"
  unfolding follow_wf_def agree_def Follow_edges
  by (auto simp: Follow_def Let_def nm.fold_laws)

lemma Unfollow_wf: "follow_wf sr \<Longrightarrow> follow_wf (Unfollow sr sid uids)"
  unfolding follow_wf_def agree_def Unfollow_edges
  by (auto simp: Unfollow_def Let_def nm.fold_laws split: option.split)

lemma UnfollowAll_edges:
  assumes "valid_order ord" "follow_wf sr"
  shows "nget (bySession (UnfollowAll ord sr sid)) s u =
           (if s = sid then None else nget (bySession sr) s u)"
    and "nget (byUser (UnfollowAll ord sr sid)) u s =
           (if s = sid then None else nget (byUser sr) u s)"
proof -
  have ag: "nget (bySession sr) s u = None \<longleftrightarrow> nget (byUser sr) u s = None" for s u
    using assms(2) by (simp add: follow_wf_def agree_def)
  have keys: "fmlookup (bySession sr) sid = Some followed \<Longrightarrow>
      u \<in> set (ord (fmdom followed)) \<longleftrightarrow> nget (byUser sr) u sid \<noteq> None" for followed u
    using assms(1) ag [of sid u] by (auto simp: valid_order_keys nget_def [of "bySession sr"])
  show "nget (bySession (UnfollowAll ord sr sid)) s u =
          (if s = sid then None else nget (bySession sr) s u)"
    by (auto simp: UnfollowAll_def nget_fmdrop nget_def [of "bySession sr"] split: option.split)
  have none: "fmlookup (bySession sr) sid = None \<Longrightarrow> nget (byUser sr) u sid = None"
    using ag [of sid u] by (simp add: nget_def [of "bySession sr"])
  show "nget (byUser (UnfollowAll ord sr sid)) u s =
          (if s = sid then None else nget (byUser sr) u s)"
  proof (cases "fmlookup (bySession sr) sid")
    case None
    with none show ?thesis by (simp add: UnfollowAll_def)
  next
    case (Some followed)
    then show ?thesis by (simp add: UnfollowAll_def nm.fold_laws keys [OF Some])
  qed
qed

lemma UnfollowAll_wf:
  assumes "valid_order ord" "follow_wf sr"
  shows "follow_wf (UnfollowAll ord sr sid)"
  using assms unfolding follow_wf_def [of "UnfollowAll ord sr sid"] agree_def
    UnfollowAll_edges [OF assms]
  by (auto simp: UnfollowAll_def follow_wf_def agree_def nm.fold_laws split: option.split)

subsection \<open>Online cache\<close>

text \<open>
  \<open>applyOnline\<close> for one event: the user's session set (\<open>existing\<close>) and the attached index are
  threaded through the leave loop and then the join loop; the set is dropped when it ends empty.
  The operations of the index are parameters here, so that the proof needs only their contract.
\<close>

definition leave_step ::
  "('s \<Rightarrow> string \<Rightarrow> 's) \<Rightarrow> string \<Rightarrow> status_presence \<Rightarrow> string goset \<times> 's \<Rightarrow> string goset \<times> 's" where
  "leave_step clear_on uid leave st =
     (if fmlookup (fst st) (StSessionID leave) \<noteq> None
      then (fmdrop (StSessionID leave) (fst st), clear_on (snd st) uid)
      else st)"

definition join_step ::
  "('s \<Rightarrow> string \<Rightarrow> 's) \<Rightarrow> string \<Rightarrow> status_presence \<Rightarrow> string goset \<times> 's \<Rightarrow> string goset \<times> 's" where
  "join_step set_on uid join st =
     (fmupd (StSessionID join) () (fst st),
      if fmlookup (fst st) (StSessionID join) = None then set_on (snd st) uid else snd st)"

definition apply_online_with ::
  "('s \<Rightarrow> string \<Rightarrow> 's) \<Rightarrow> ('s \<Rightarrow> string \<Rightarrow> 's) \<Rightarrow> (string, string, unit) nmap \<times> 's \<Rightarrow> status_event
   \<Rightarrow> (string, string, unit) nmap \<times> 's" where
  "apply_online_with set_on clear_on st e =
     (let uid = evUserID e;
          found = (fmlookup (fst st) uid \<noteq> None);
          st1 = (if found then fold (leave_step clear_on uid) (evLeaves e) (inner (fst st) uid, snd st)
                 else (fmempty, snd st));
          st2 = fold (join_step set_on uid) (evJoins e) st1
      in if found \<or> evJoins e \<noteq> []
         then (if mlen (fst st2) = 0 then fmdrop uid (fst st) else fmupd uid (fst st2) (fst st),
               snd st2)
         else st)"

definition applyOnline ::
  "'bm bitmap_api \<Rightarrow> 'bm status_registry \<Rightarrow> status_event \<Rightarrow> 'bm status_registry" where
  "applyOnline api sr e =
     (case online sr of
        None \<Rightarrow>
          sr\<lparr>onlineCache := fst (apply_online_with (\<lambda>s _. s) (\<lambda>s _. s) (onlineCache sr, ()) e)\<rparr>
      | Some oi \<Rightarrow>
          (let (cache, oi') = apply_online_with (SetOnline api) (ClearOnline api) (onlineCache sr, oi) e
           in sr\<lparr>onlineCache := cache, online := Some oi'\<rparr>))"

definition IsOnline :: "'bm status_registry \<Rightarrow> string \<Rightarrow> bool" where
  "IsOnline sr u \<longleftrightarrow> 0 < mlen (inner (onlineCache sr) u)"

text \<open>
  Delivery.  The payload is the JSON text of the joins and leaves; \<open>marshal\<close> stands for \<open>json.Marshal\<close>, which
  may fail, and the result lists what the sender is asked to send.  One round of the worker applies an event
  and then fans it out.
\<close>

definition SendToSessionIDs :: "local_router option \<Rightarrow> string list \<Rightarrow> 'p list \<Rightarrow> (string \<times> 'p list) list" where
  "SendToSessionIDs r sids payload =
     (case r of
        None \<Rightarrow> []
      | Some lr \<Rightarrow> if \<not> has_sender lr \<or> payload = [] then [] else map (\<lambda>sid. (sid, payload)) sids)"

definition fanOut ::
  "(string fset \<Rightarrow> string list) \<Rightarrow> (status_presence list \<Rightarrow> status_presence list \<Rightarrow> 'p list option)
   \<Rightarrow> 'bm status_registry \<Rightarrow> status_event \<Rightarrow> (string \<times> 'p list) list" where
  "fanOut ord marshal sr e =
     (case fmlookup (byUser sr) (evUserID e) of
        None \<Rightarrow> []
      | Some ids \<Rightarrow>
          (if mlen ids = 0 then []
           else (case marshal (evJoins e) (evLeaves e) of
                   None \<Rightarrow> []
                 | Some payload \<Rightarrow>
                     if router sr = None then [] else SendToSessionIDs (router sr) (ord (fmdom ids)) payload)))"

definition worker_step ::
  "'bm bitmap_api \<Rightarrow> (string fset \<Rightarrow> string list)
   \<Rightarrow> (status_presence list \<Rightarrow> status_presence list \<Rightarrow> 'p list option)
   \<Rightarrow> 'bm status_registry \<Rightarrow> status_event \<Rightarrow> 'bm status_registry \<times> (string \<times> 'p list) list" where
  "worker_step api ord marshal sr e =
     (let sr' = applyOnline api sr e in (sr', fanOut ord marshal sr' e))"

lemma inner_set_inner:
  "inner (if mlen s = 0 then fmdrop a m else fmupd a s m) x = (if x = a then s else inner m x)"
  by (auto simp: inner_def)

lemma leave_step_pair:
  "leave_step clear_on uid l (ex, s) =
     (if fmlookup ex (StSessionID l) \<noteq> None
      then (fmdrop (StSessionID l) ex, clear_on s uid) else (ex, s))"
  by (simp add: leave_step_def)

lemma join_step_pair:
  "join_step set_on uid j (ex, s) =
     (fmupd (StSessionID j) () ex,
      if fmlookup ex (StSessionID j) = None then set_on s uid else s)"
  by (simp add: join_step_def)

context session_counter
begin

lemma leave_fold:
  assumes "ok s" "uid \<noteq> []" "count s uid = mlen ex"
    and "fold (leave_step clear_on uid) ls (ex, s) = (ex', s')"
  shows "ok s' \<and> count s' uid = mlen ex' \<and> (\<forall>v. v \<noteq> uid \<longrightarrow> count s' v = count s v)"
  using assms
proof (induction ls arbitrary: ex s)
  case (Cons l ls)
  show ?case
  proof (cases "fmlookup ex (StSessionID l)")
    case None
    with Cons show ?thesis by (simp add: leave_step_pair)
  next
    case (Some w)
    let ?s = "clear_on s uid" and ?ex = "fmdrop (StSessionID l) ex"
    have "ok ?s" "count ?s uid = mlen ?ex" "\<forall>v. v \<noteq> uid \<longrightarrow> count ?s v = count s v"
      using Cons.prems Some by (simp_all add: ok_clear count_clear mlen_fmdrop)
    moreover have "fold (leave_step clear_on uid) ls (?ex, ?s) = (ex', s')"
      using Cons.prems(4) Some by (simp add: leave_step_pair)
    ultimately show ?thesis using Cons.IH [of ?s ?ex] Cons.prems(2) by auto
  qed
qed simp

lemma join_fold:
  assumes "ok s" "uid \<noteq> []" "count s uid = mlen ex"
    and "fold (join_step set_on uid) js (ex, s) = (ex', s')"
  shows "ok s' \<and> count s' uid = mlen ex' \<and> (\<forall>v. v \<noteq> uid \<longrightarrow> count s' v = count s v)"
  using assms
proof (induction js arbitrary: ex s)
  case (Cons j js)
  let ?ex = "fmupd (StSessionID j) () ex"
  let ?s = "if fmlookup ex (StSessionID j) = None then set_on s uid else s"
  have "ok ?s" "count ?s uid = mlen ?ex" "\<forall>v. v \<noteq> uid \<longrightarrow> count ?s v = count s v"
    using Cons.prems by (auto simp: ok_set count_set mlen_fmupd_new mlen_fmupd_old)
  moreover have "fold (join_step set_on uid) js (?ex, ?s) = (ex', s')"
    using Cons.prems(4) by (simp add: join_step_pair)
  ultimately show ?case using Cons.IH [of ?s ?ex] Cons.prems(2) by auto
qed simp

lemma apply_online_counts:
  assumes ok: "ok s" and uid: "evUserID e \<noteq> []"
    and sync: "\<forall>v. v \<noteq> [] \<longrightarrow> count s v = mlen (inner cache v)"
    and res: "apply_online_with set_on clear_on (cache, s) e = (cache', s')"
  shows "ok s' \<and> (\<forall>v. v \<noteq> [] \<longrightarrow> count s' v = mlen (inner cache' v))"
proof -
  let ?u = "evUserID e"
  define st1 where "st1 = (if fmlookup cache ?u \<noteq> None
      then fold (leave_step clear_on ?u) (evLeaves e) (inner cache ?u, s) else (fmempty, s))"
  define st2 where "st2 = fold (join_step set_on ?u) (evJoins e) st1"
  have s0: "count s ?u = mlen (inner cache ?u)" using sync uid by simp
  have nil: "fmlookup cache ?u = None \<Longrightarrow> inner cache ?u = fmempty" by (simp add: inner_def)
  obtain ex1 s1 where st1: "st1 = (ex1, s1)" by (cases st1)
  have c1: "ok s1 \<and> count s1 ?u = mlen ex1 \<and> (\<forall>v. v \<noteq> ?u \<longrightarrow> count s1 v = count s v)"
  proof (cases "fmlookup cache ?u = None")
    case True
    with st1 ok s0 nil show ?thesis by (simp add: st1_def)
  next
    case False
    with st1 show ?thesis
      by (intro leave_fold [OF ok uid s0, of "evLeaves e"]) (simp add: st1_def)
  qed
  obtain ex2 s2 where st2: "st2 = (ex2, s2)" by (cases st2)
  have c2: "ok s2 \<and> count s2 ?u = mlen ex2 \<and> (\<forall>v. v \<noteq> ?u \<longrightarrow> count s2 v = count s1 v)"
    using join_fold [of s1 ?u ex1 "evJoins e" ex2 s2] c1 uid st1 st2 by (simp add: st2_def)
  let ?cache2 = "if mlen ex2 = 0 then fmdrop ?u cache else fmupd ?u ex2 cache"
  have eq: "apply_online_with set_on clear_on (cache, s) e =
      (if fmlookup cache ?u \<noteq> None \<or> evJoins e \<noteq> [] then (?cache2, s2) else (cache, s))"
    unfolding apply_online_with_def Let_def fst_conv snd_conv st1_def [symmetric]
      st2_def [symmetric] st2 by simp
  have "count s2 v = mlen (inner ?cache2 v)" if "v \<noteq> []" for v
    unfolding inner_set_inner using c1 c2 sync that by simp
  with res ok sync c2 eq show ?thesis
    by (cases "fmlookup cache ?u \<noteq> None \<or> evJoins e \<noteq> []") (simp_all del: mlen_0_iff)
qed

end

text \<open>The registry with an index attached: the index counts, per user, the cached sessions.\<close>

definition online_synced :: "'bm status_registry \<Rightarrow> bool" where
  "online_synced sr \<longleftrightarrow>
     (\<exists>oi. online sr = Some oi \<and> counts_pos oi \<and>
        (\<forall>u. u \<noteq> [] \<longrightarrow> user_count oi u = mlen (inner (onlineCache sr) u)))"

lemma online_synced_new: "online_synced (NewStatusRegistry r (Some (NewOnlineIndex api)))"
  by (simp add: online_synced_def NewStatusRegistry_def counts_pos_new)
    (simp add: inner_def user_count_def sess_count_def NewOnlineIndex_def)

lemma applyOnline_synced:
  assumes "online_synced sr" "evUserID e \<noteq> []"
  shows "online_synced (applyOnline api sr e)"
proof -
  obtain oi where oi: "online sr = Some oi" "counts_pos oi"
    "\<forall>u. u \<noteq> [] \<longrightarrow> user_count oi u = mlen (inner (onlineCache sr) u)"
    using assms(1) by (auto simp: online_synced_def)
  obtain cache oi' where r:
    "apply_online_with (SetOnline api) (ClearOnline api) (onlineCache sr, oi) e = (cache, oi')"
    by (cases "apply_online_with (SetOnline api) (ClearOnline api) (onlineCache sr, oi) e")
  show ?thesis
    using oic.apply_online_counts [OF oi(2) assms(2) oi(3) r]
    by (simp add: online_synced_def applyOnline_def oi(1) r)
qed

text \<open>after any sequence of status events for real users, the number of online sessions the
  index counts for a user is the number of sessions in the registry's cache, so the two components
  answer "is this user online" alike.\<close>

lemma registry_and_index_agree:
  assumes "\<forall>e \<in> set es. evUserID e \<noteq> []" and "u \<noteq> []"
    and "online (fold (\<lambda>e sr. applyOnline api sr e) es
           (NewStatusRegistry r (Some (NewOnlineIndex api)))) = Some oi"
  shows "user_count oi u = mlen (inner (onlineCache (fold (\<lambda>e sr. applyOnline api sr e) es
           (NewStatusRegistry r (Some (NewOnlineIndex api))))) u) \<and>
         (IsOnline (fold (\<lambda>e sr. applyOnline api sr e) es
           (NewStatusRegistry r (Some (NewOnlineIndex api)))) u \<longleftrightarrow> 0 < user_count oi u)"
proof -
  have "online_synced sr \<Longrightarrow> \<forall>e \<in> set es. evUserID e \<noteq> [] \<Longrightarrow>
      online_synced (fold (\<lambda>e sr. applyOnline api sr e) es sr)" for sr :: "'a status_registry"
    by (induction es arbitrary: sr) (simp_all add: applyOnline_synced)
  from this [OF online_synced_new [of r api] assms(1)] assms(2,3) show ?thesis
    by (auto simp: online_synced_def IsOnline_def simp del: mlen_0_iff)
qed

definition demo_status :: "string \<Rightarrow> status_presence" where
  "demo_status sid = \<lparr>StUserID = ''u'', StSessionID = sid, StUsername = ''ann'', StStatus = []\<rparr>"

lemma registry_and_index_agree_witness:
  "IsOnline (applyOnline fset_bitmap
     (NewStatusRegistry None (Some (NewOnlineIndex fset_bitmap)))
     \<lparr>evUserID = ''u'', evJoins = [demo_status ''s1''], evLeaves = []\<rparr>) ''u''"
proof -
  let ?e = "\<lparr>evUserID = ''u'', evJoins = [demo_status ''s1''], evLeaves = []\<rparr>"
  let ?sr = "NewStatusRegistry None (Some (NewOnlineIndex fset_bitmap))"
  let ?oi = "SetOnline fset_bitmap (NewOnlineIndex fset_bitmap) ''u''"
  have step: "online (applyOnline fset_bitmap ?sr ?e) = Some ?oi"
    by (simp add: applyOnline_def NewStatusRegistry_def apply_online_with_def join_step_def Let_def)
  have "user_count ?oi ''u'' = 1"
    by (simp add: user_count_Set counts_pos_new)
      (simp add: user_count_def sess_count_def NewOnlineIndex_def)
  then show ?thesis
    using registry_and_index_agree [of "[?e]" "''u''" fset_bitmap None ?oi] step by simp
qed

subsection \<open>Runs of the registry\<close>

text \<open>
  Sessions follow, unfollow and close while the worker handles events.  \<open>edge_step\<close> is the specification:
  the set of edges (session, followed user).
\<close>

datatype registry_op =
    FollowOp string "string list"
  | UnfollowOp string "string list"
  | UnfollowAllOp string
  | EventOp status_event

fun registry_step ::
  "'bm bitmap_api \<Rightarrow> (string fset \<Rightarrow> string list) \<Rightarrow> registry_op \<Rightarrow> 'bm status_registry \<Rightarrow> 'bm status_registry" where
  "registry_step api ord (FollowOp sid uids) sr = fst (Follow sr sid uids)"
| "registry_step api ord (UnfollowOp sid uids) sr = Unfollow sr sid uids"
| "registry_step api ord (UnfollowAllOp sid) sr = UnfollowAll ord sr sid"
| "registry_step api ord (EventOp e) sr = applyOnline api sr e"

fun edge_step :: "registry_op \<Rightarrow> (string \<times> string) set \<Rightarrow> (string \<times> string) set" where
  "edge_step (FollowOp sid uids) E = E \<union> {(sid, u) | u. u \<in> set uids \<and> u \<noteq> []}"
| "edge_step (UnfollowOp sid uids) E = E - {(sid, u) | u. u \<in> set uids}"
| "edge_step (UnfollowAllOp sid) E = {(s, u) \<in> E. s \<noteq> sid}"
| "edge_step (EventOp e) E = E"

definition edges_are :: "'bm status_registry \<Rightarrow> (string \<times> string) set \<Rightarrow> bool" where
  "edges_are sr E \<longleftrightarrow> follow_wf sr \<and> (\<forall>s u. (s, u) \<in> E \<longleftrightarrow> nget (bySession sr) s u \<noteq> None)"

lemma edges_areI: "follow_wf sr \<Longrightarrow> (\<And>s u. (s, u) \<in> E \<longleftrightarrow> nget (bySession sr) s u \<noteq> None) \<Longrightarrow> edges_are sr E"
  by (simp add: edges_are_def)

lemma applyOnline_frame:
  "bySession (applyOnline api sr e) = bySession sr" "byUser (applyOnline api sr e) = byUser sr"
  "router (applyOnline api sr e) = router sr"
  by (simp_all add: applyOnline_def Let_def split: option.split prod.split)

lemma registry_step_router: "router (registry_step api ord op sr) = router sr"
  by (cases op) (simp_all add: Follow_def Unfollow_def UnfollowAll_def Let_def applyOnline_frame split: option.split)

lemma registry_step_edges:
  assumes ord: "valid_order ord" and E: "edges_are sr E"
  shows "edges_are (registry_step api ord op sr) (edge_step op E)"
proof -
  have wf: "follow_wf sr" and E': "(s, u) \<in> E \<longleftrightarrow> nget (bySession sr) s u \<noteq> None" for s u
    using E by (simp_all add: edges_are_def)
  show ?thesis
  proof (cases op)
    case (FollowOp sid uids)
    then show ?thesis by (auto intro!: edges_areI simp: Follow_wf [OF wf] Follow_edges E' split: if_splits)
  next
    case (UnfollowOp sid uids)
    then show ?thesis by (auto intro!: edges_areI simp: Unfollow_wf [OF wf] Unfollow_edges E' split: if_splits)
  next
    case (UnfollowAllOp sid)
    then show ?thesis
      by (auto intro!: edges_areI simp: UnfollowAll_wf [OF ord wf] UnfollowAll_edges [OF ord wf] E' split: if_splits)
  next
    case (EventOp e)
    then show ?thesis using wf by (auto intro!: edges_areI simp: follow_wf_def applyOnline_frame E')
  qed
qed

lemma registry_run_edges:
  "valid_order ord \<Longrightarrow> edges_are sr E \<Longrightarrow>
   edges_are (fold (registry_step api ord) ops sr) (fold edge_step ops E) \<and>
   router (fold (registry_step api ord) ops sr) = router sr"
proof (induction ops arbitrary: sr E)
  case (Cons op ops)
  show ?case using Cons.IH [OF Cons.prems(1) registry_step_edges [OF Cons.prems]]
    by (simp add: registry_step_router)
qed simp

text \<open>C32: in every run of the registry, in which sessions follow, unfollow and end and events are handled, the
  worker sends the payload of a status event to exactly the sessions that follow its user at that time, by the
  history of the follow operations, once each.  This holds with a router that has a sender and a payload that
  is encoded to a non-empty text.\<close>

theorem fanout_reaches_followers:
  assumes "valid_order ord" and "marshal (evJoins e) (evLeaves e) = Some p" and "p \<noteq> []"
    and "sr = fold (registry_step api ord) ops (NewStatusRegistry (Some (LocalMessageRouter True)) oi)"
  shows "set (snd (worker_step api ord marshal sr e)) = {(sid, p) | sid. (sid, evUserID e) \<in> fold edge_step ops {}} \<and>
         distinct (map fst (snd (worker_step api ord marshal sr e)))"
proof -
  let ?new = "NewStatusRegistry (Some (LocalMessageRouter True)) oi"
  let ?E = "fold edge_step ops {}"
  have "edges_are ?new {}"
    by (rule edges_areI [OF follow_wf_new]) (simp add: NewStatusRegistry_def)
  from registry_run_edges [OF assms(1) this, of api ops]
  have E: "edges_are sr ?E" and r: "router sr = Some (LocalMessageRouter True)"
    unfolding assms(4) by (simp_all add: NewStatusRegistry_def)
  have ag: "(sid, u) \<in> ?E \<longleftrightarrow> nget (byUser sr) u sid \<noteq> None" for sid u
  proof -
    have "(sid, u) \<in> ?E \<longleftrightarrow> nget (bySession sr) sid u \<noteq> None" using E unfolding edges_are_def by blast
    moreover have "nget (bySession sr) sid u = None \<longleftrightarrow> nget (byUser sr) u sid = None"
      using E unfolding edges_are_def follow_wf_def agree_def by blast
    ultimately show ?thesis by (simp only:)
  qed
  have send: "snd (worker_step api ord marshal sr e) = (case fmlookup (byUser sr) (evUserID e) of
      None \<Rightarrow> [] | Some ids \<Rightarrow> if mlen ids = 0 then [] else map (\<lambda>sid. (sid, p)) (ord (fmdom ids)))"
    using assms(2,3) r
    by (simp add: worker_step_def Let_def fanOut_def applyOnline_frame SendToSessionIDs_def split: option.split)
  have "set (snd (worker_step api ord marshal sr e)) = {(sid, p) | sid. nget (byUser sr) (evUserID e) sid \<noteq> None}"
  proof (cases "fmlookup (byUser sr) (evUserID e)")
    case (Some ids)
    then show ?thesis unfolding send using assms(1) by (auto simp: nget_def valid_order_keys)
  qed (simp add: send nget_def)
  moreover have "distinct (map fst (snd (worker_step api ord marshal sr e)))"
    unfolding send using assms(1) by (simp add: comp_def valid_order_distinct split: option.split)
  ultimately show ?thesis by (simp only: ag)
qed

definition demo_marshal :: "status_presence list \<Rightarrow> status_presence list \<Rightarrow> char list option" where
  "demo_marshal js ls = Some (''{'' @ concat (map StSessionID (js @ ls)) @ ''}'')"

definition demo_registry_ops :: "registry_op list" where
  "demo_registry_ops = [FollowOp ''s1'' [''u'', []], FollowOp ''s2'' [''u'', ''v''], FollowOp ''s3'' [''u''],
     UnfollowOp ''s2'' [''u''], UnfollowAllOp ''s3'']"

theorem fanout_reaches_followers_witness:
  "set (snd (worker_step fset_bitmap sorted_list_of_fset demo_marshal
     (fold (registry_step fset_bitmap sorted_list_of_fset) demo_registry_ops
        (NewStatusRegistry (Some (LocalMessageRouter True)) None))
     \<lparr>evUserID = ''u'', evJoins = [demo_status ''s9''], evLeaves = []\<rparr>)) = {(''s1'', ''{s9}'')}"
proof -
  have "fold edge_step demo_registry_ops {} = {(''s1'', ''u''), (''s2'', ''v'')}"
    by (auto simp: demo_registry_ops_def)
  moreover have "demo_marshal [demo_status ''s9''] [] = Some ''{s9}''"
    by (simp add: demo_marshal_def demo_status_def)
  ultimately show ?thesis
    using fanout_reaches_followers [OF valid_order_sorted, of demo_marshal _ _ _ fset_bitmap demo_registry_ops None, OF _ _ refl]
    by simp
qed

subsection \<open>The event queue\<close>

text \<open>
  \<open>Queue\<close> sends on a channel of capacity \<open>q_cap\<close>.  When the channel is full and the registry is not
  stopped, the event is handed to a new goroutine that blocks until there is room (\<open>q_blocked\<close>, in no
  particular order).  Once stopped, a pending send may be abandoned.  The worker takes the head of
  the channel until it sees the stop.  The last three fields record the history.
\<close>

record event_queue =
  q_ch :: "status_event list"
  q_cap :: nat
  q_blocked :: "status_event list"
  q_stopped :: bool
  q_done :: bool
  q_submitted :: "status_event list"
  q_applied :: "status_event list"
  q_dropped :: "status_event list"

definition new_queue :: "int \<Rightarrow> event_queue" where
  "new_queue queueSize = \<lparr>q_ch = [], q_cap = queue_capacity queueSize, q_blocked = [],
     q_stopped = False, q_done = False, q_submitted = [], q_applied = [], q_dropped = []\<rparr>"

inductive queue_step :: "event_queue \<Rightarrow> event_queue \<Rightarrow> bool" where
  send: "length (q_ch q) < q_cap q \<Longrightarrow>
    queue_step q (q\<lparr>q_ch := q_ch q @ [e], q_submitted := q_submitted q @ [e]\<rparr>)"
| send_stopped: "q_stopped q \<Longrightarrow>
    queue_step q (q\<lparr>q_dropped := q_dropped q @ [e], q_submitted := q_submitted q @ [e]\<rparr>)"
| spill: "q_cap q \<le> length (q_ch q) \<Longrightarrow> \<not> q_stopped q \<Longrightarrow>
    queue_step q (q\<lparr>q_blocked := q_blocked q @ [e], q_submitted := q_submitted q @ [e]\<rparr>)"
| unblock: "length (q_ch q) < q_cap q \<Longrightarrow> q_blocked q = xs @ e # ys \<Longrightarrow>
    queue_step q (q\<lparr>q_ch := q_ch q @ [e], q_blocked := xs @ ys\<rparr>)"
| abandon: "q_stopped q \<Longrightarrow> q_blocked q = xs @ e # ys \<Longrightarrow>
    queue_step q (q\<lparr>q_dropped := q_dropped q @ [e], q_blocked := xs @ ys\<rparr>)"
| work: "\<not> q_done q \<Longrightarrow> q_ch q = e # es \<Longrightarrow>
    queue_step q (q\<lparr>q_ch := es, q_applied := q_applied q @ [e]\<rparr>)"
| stop: "queue_step q (q\<lparr>q_stopped := True\<rparr>)"
| worker_exit: "q_stopped q \<Longrightarrow> queue_step q (q\<lparr>q_done := True\<rparr>)"

inductive queue_reach :: "int \<Rightarrow> event_queue \<Rightarrow> bool" for queueSize where
  init: "queue_reach queueSize (new_queue queueSize)"
| step: "queue_reach queueSize q \<Longrightarrow> queue_step q q' \<Longrightarrow> queue_reach queueSize q'"

definition queue_inv :: "event_queue \<Rightarrow> bool" where
  "queue_inv q \<longleftrightarrow>
     mset (q_submitted q) =
       mset (q_applied q) + mset (q_ch q) + mset (q_blocked q) + mset (q_dropped q) \<and>
     length (q_ch q) \<le> q_cap q \<and> (q_dropped q \<noteq> [] \<longrightarrow> q_stopped q)"

lemma queue_inv_step: "queue_step q q' \<Longrightarrow> queue_inv q \<Longrightarrow> queue_inv q'"
  by (induction rule: queue_step.induct) (auto simp: queue_inv_def)

text \<open>C33: no status event is lost or duplicated while the registry runs, with a full channel as well: in every
  reachable state of the queue, the events submitted are those applied, those on the channel, those held by a
  blocked sender and those dropped, counted with repetition; an event is dropped only after \<open>Stop\<close>; and the
  channel never exceeds its capacity.  (That a held event is applied in the end is not stated: it depends on the scheduler.)\<close>

theorem queue_conserves_events:
  assumes "queue_reach queueSize q"
  shows "mset (q_submitted q) =
           mset (q_applied q) + mset (q_ch q) + mset (q_blocked q) + mset (q_dropped q) \<and>
         length (q_ch q) \<le> q_cap q \<and> (\<not> q_stopped q \<longrightarrow> q_dropped q = [])"
proof -
  from assms have "queue_inv q"
  proof (induction rule: queue_reach.induct)
    case init
    show ?case by (simp add: queue_inv_def new_queue_def)
  next
    case (step q q')
    then show ?case by (blast intro: queue_inv_step)
  qed
  then show ?thesis by (auto simp: queue_inv_def)
qed

definition join_event :: "string \<Rightarrow> status_event" where
  "join_event sid = \<lparr>evUserID = ''u'', evJoins = [demo_status sid], evLeaves = []\<rparr>"

definition leave_event :: "string \<Rightarrow> status_event" where
  "leave_event sid = \<lparr>evUserID = ''u'', evJoins = [], evLeaves = [demo_status sid]\<rparr>"

lemma queue_send:
  "queue_reach n q \<Longrightarrow> length (q_ch q) < q_cap q \<Longrightarrow>
   queue_reach n (q\<lparr>q_ch := q_ch q @ [e], q_submitted := q_submitted q @ [e]\<rparr>)"
  by (blast intro: queue_reach.step queue_step.send)

lemma queue_spill:
  "queue_reach n q \<Longrightarrow> q_cap q \<le> length (q_ch q) \<Longrightarrow> \<not> q_stopped q \<Longrightarrow>
   queue_reach n (q\<lparr>q_blocked := q_blocked q @ [e], q_submitted := q_submitted q @ [e]\<rparr>)"
  by (blast intro: queue_reach.step queue_step.spill)

lemma queue_work:
  "queue_reach n q \<Longrightarrow> \<not> q_done q \<Longrightarrow> q_ch q = e # es \<Longrightarrow>
   queue_reach n (q\<lparr>q_ch := es, q_applied := q_applied q @ [e]\<rparr>)"
  by (blast intro: queue_reach.step queue_step.work)

lemma queue_unblock:
  "queue_reach n q \<Longrightarrow> length (q_ch q) < q_cap q \<Longrightarrow> q_blocked q = e # ys \<Longrightarrow>
   queue_reach n (q\<lparr>q_ch := q_ch q @ [e], q_blocked := ys\<rparr>)"
  using queue_reach.step [of n q] queue_step.unblock [of q "[]" e ys] by simp

theorem queue_conserves_events_witness:
  "mset (q_submitted (new_queue 1\<lparr>q_ch := [join_event ''a''], q_submitted := [join_event ''a'']\<rparr>)) =
   {#join_event ''a''#}"
proof -
  let ?q = "new_queue 1\<lparr>q_ch := [join_event ''a''], q_submitted := [join_event ''a'']\<rparr>"
  have "queue_reach 1 ?q"
    using queue_send [OF queue_reach.init, of 1 "join_event ''a''"]
    by (simp add: new_queue_def queue_capacity_def)
  from queue_conserves_events [OF this] show ?thesis by (simp add: new_queue_def)
qed

text \<open>Under backpressure the queue can reorder events: with a channel of capacity one there is a
  reachable state in which a session's leave, submitted after its join, was applied before it.\<close>

lemma queue_can_reorder:
  "\<exists>q. queue_reach 1 q \<and>
       q_submitted q = [join_event ''a'', join_event ''b'', leave_event ''b''] \<and>
       q_applied q = [join_event ''a'', leave_event ''b'', join_event ''b''] \<and> \<not> q_stopped q"
proof -
  let ?a = "join_event ''a''" and ?b = "join_event ''b''" and ?c = "leave_event ''b''"
  note d = new_queue_def queue_capacity_def
  have "queue_reach 1 (new_queue 1\<lparr>q_ch := [?a], q_submitted := [?a]\<rparr>)"
    using queue_send [OF queue_reach.init, of 1 ?a] by (simp add: d)
  from queue_spill [OF this, of ?b]
  have "queue_reach 1 (new_queue 1\<lparr>q_ch := [?a], q_blocked := [?b], q_submitted := [?a, ?b]\<rparr>)"
    by (simp add: d)
  from queue_work [OF this]
  have "queue_reach 1 (new_queue 1\<lparr>q_blocked := [?b], q_submitted := [?a, ?b], q_applied := [?a]\<rparr>)"
    by (simp add: d)
  from queue_send [OF this, of ?c]
  have "queue_reach 1 (new_queue 1\<lparr>q_ch := [?c], q_blocked := [?b], q_submitted := [?a, ?b, ?c],
          q_applied := [?a]\<rparr>)" by (simp add: d)
  from queue_work [OF this]
  have "queue_reach 1 (new_queue 1\<lparr>q_blocked := [?b], q_submitted := [?a, ?b, ?c],
          q_applied := [?a, ?c]\<rparr>)" by (simp add: d)
  from queue_unblock [OF this]
  have "queue_reach 1 (new_queue 1\<lparr>q_ch := [?b], q_submitted := [?a, ?b, ?c],
          q_applied := [?a, ?c]\<rparr>)" by (simp add: d)
  from queue_work [OF this]
  have "queue_reach 1 (new_queue 1\<lparr>q_submitted := [?a, ?b, ?c], q_applied := [?a, ?c, ?b]\<rparr>)"
    by (simp add: d)
  then show ?thesis
    by (intro exI [of _ "new_queue 1\<lparr>q_submitted := [?a, ?b, ?c], q_applied := [?a, ?c, ?b]\<rparr>"])
      (simp add: d)
qed

end
