(* ===== verification/Base64.thy ===== *)
theory Base64
  imports Prelude
begin

section \<open>URL-safe base64\<close>

text \<open>
  The two encodings of Go's \<open>encoding/base64\<close> that the server uses for cursors and permission
  bitmaps: \<open>RawURLEncoding\<close> (no padding) and the decoder of \<open>URLEncoding\<close> (padded).  As in Go the
  decoders skip carriage returns and line feeds and do not check the unused trailing bits.
  Bytes are natural numbers below 256 here; \<open>string_bytes\<close> reads a Go string.
\<close>

definition b64_alphabet :: string where
  "b64_alphabet = ''ABCDEFGHIJKLMNOPQRSTUVWXYZabcdefghijklmnopqrstuvwxyz0123456789-_''"

definition b64_char :: "nat \<Rightarrow> char" where
  "b64_char v = b64_alphabet ! v"

fun index_of :: "'a \<Rightarrow> 'a list \<Rightarrow> nat option" where
  "index_of x [] = None"
| "index_of x (y # ys) = (if x = y then Some 0 else map_option Suc (index_of x ys))"

definition b64_val :: "char \<Rightarrow> nat option" where
  "b64_val c = index_of c b64_alphabet"

lemma index_of_nth: "distinct xs \<Longrightarrow> i < length xs \<Longrightarrow> index_of (xs ! i) xs = Some i"
proof (induction xs arbitrary: i)
  case (Cons x xs)
  then show ?case by (cases i) auto
qed simp

lemma index_of_Some: "index_of x xs = Some i \<Longrightarrow> i < length xs \<and> xs ! i = x"
  by (induction xs arbitrary: i) (auto split: if_splits)

lemma b64_alphabet_length: "length b64_alphabet = 64"
  by (simp add: b64_alphabet_def)

lemma b64_alphabet_distinct: "distinct b64_alphabet"
  by (simp add: b64_alphabet_def)

lemma b64_val_char: "v < 64 \<Longrightarrow> b64_val (b64_char v) = Some v"
  by (simp add: b64_val_def b64_char_def index_of_nth b64_alphabet_distinct b64_alphabet_length)

lemma b64_val_bound: "b64_val c = Some v \<Longrightarrow> v < 64"
  using index_of_Some [of c b64_alphabet v] by (simp add: b64_val_def b64_alphabet_length)

subsection \<open>Groups of three bytes and four digits\<close>

fun b64_enc :: "nat list \<Rightarrow> nat list" where
  "b64_enc [] = []"
| "b64_enc [a] = [a div 4, (a mod 4) * 16]"
| "b64_enc [a, b] = [a div 4, (a mod 4) * 16 + b div 16, (b mod 16) * 4]"
| "b64_enc (a # b # c # bs) =
     a div 4 # ((a mod 4) * 16 + b div 16) # ((b mod 16) * 4 + c div 64) # (c mod 64) # b64_enc bs"

fun b64_dec :: "nat list \<Rightarrow> nat list option" where
  "b64_dec [] = Some []"
| "b64_dec [p] = None"
| "b64_dec [p, q] = Some [p * 4 + q div 16]"
| "b64_dec [p, q, r] = Some [p * 4 + q div 16, (q mod 16) * 16 + r div 4]"
| "b64_dec (p # q # r # s # vs) =
     map_option (\<lambda>bs. (p * 4 + q div 16) # ((q mod 16) * 16 + r div 4) # ((r mod 4) * 64 + s) # bs)
       (b64_dec vs)"

lemma b64_enc_digits: "\<forall>b \<in> set bs. b < 256 \<Longrightarrow> \<forall>v \<in> set (b64_enc bs). v < 64"
  by (induction bs rule: b64_enc.induct) auto

lemma b64_dec_enc: "\<forall>b \<in> set bs. b < 256 \<Longrightarrow> b64_dec (b64_enc bs) = Some bs"
proof (induction bs rule: b64_enc.induct)
  case (2 a)
  then show ?case by simp
next
  case (3 a b)
  then have "(a div 4) * 4 + ((a mod 4) * 16 + b div 16) div 16 = a"
    "(((a mod 4) * 16 + b div 16) mod 16) * 16 + ((b mod 16) * 4) div 4 = b"
    by auto
  then show ?case by simp
next
  case (4 a b c bs)
  have "(a div 4) * 4 + ((a mod 4) * 16 + b div 16) div 16 = a"
    "(((a mod 4) * 16 + b div 16) mod 16) * 16 + ((b mod 16) * 4 + c div 64) div 4 = b"
    "(((b mod 16) * 4 + c div 64) mod 4) * 64 + c mod 64 = c"
    using 4(2) by auto
  with 4 show ?case by simp
qed simp

lemma b64_dec_bytes:
  "\<forall>v \<in> set vs. v < 64 \<Longrightarrow> b64_dec vs = Some bs \<Longrightarrow> \<forall>b \<in> set bs. b < 256"
  by (induction vs arbitrary: bs rule: b64_dec.induct) auto

lemma b64_enc_length: "length (b64_enc bs) = (4 * length bs + 2) div 3"
  by (induction bs rule: b64_enc.induct) auto

subsection \<open>Strings\<close>

fun all_some :: "'a option list \<Rightarrow> 'a list option" where
  "all_some [] = Some []"
| "all_some (None # xs) = None"
| "all_some (Some x # xs) = map_option (\<lambda>ys. x # ys) (all_some xs)"

lemma all_some_map_Some [simp]: "all_some (map Some xs) = Some xs"
  by (induction xs) auto

lemma all_some_SomeD: "all_some xs = Some ys \<Longrightarrow> xs = map Some ys"
  by (induction xs arbitrary: ys rule: all_some.induct) auto

definition string_bytes :: "string \<Rightarrow> nat list" where
  "string_bytes s = map of_char s"

definition bytes_string :: "nat list \<Rightarrow> string" where
  "bytes_string bs = map char_of bs"

lemma string_bytes_bound: "\<forall>b \<in> set (string_bytes s). b < 256"
  by (simp add: string_bytes_def)

lemma bytes_string_bytes [simp]: "bytes_string (string_bytes s) = s"
  by (simp add: bytes_string_def string_bytes_def comp_def)

definition skip_newlines :: "string \<Rightarrow> string" where
  "skip_newlines s = filter (\<lambda>c. c \<noteq> CHR 0x0A \<and> c \<noteq> CHR 0x0D) s"

definition raw_url_encode :: "nat list \<Rightarrow> string" where
  "raw_url_encode bs = map b64_char (b64_enc bs)"

definition raw_url_decode :: "string \<Rightarrow> nat list option" where
  "raw_url_decode s =
     (case all_some (map b64_val (skip_newlines s)) of None \<Rightarrow> None | Some vs \<Rightarrow> b64_dec vs)"

definition url_decode :: "string \<Rightarrow> nat list option" where
  "url_decode s =
     (let cs = skip_newlines s;
          body = takeWhile (\<lambda>c. c \<noteq> CHR ''='') cs;
          pad = dropWhile (\<lambda>c. c \<noteq> CHR ''='') cs
      in if length body mod 4 = 0 \<and> pad = [] \<or> length body mod 4 = 2 \<and> pad = ''=='' \<or>
            length body mod 4 = 3 \<and> pad = ''=''
         then (case all_some (map b64_val body) of None \<Rightarrow> None | Some vs \<Rightarrow> b64_dec vs)
         else None)"

lemma b64_char_not_newline:
  assumes "v < 64"
  shows "b64_char v \<noteq> CHR 0x0A \<and> b64_char v \<noteq> CHR 0x0D"
proof -
  have "b64_char v \<in> set b64_alphabet"
    using assms by (simp add: b64_char_def b64_alphabet_length)
  moreover have "CHR 0x0A \<notin> set b64_alphabet \<and> CHR 0x0D \<notin> set b64_alphabet"
    by (simp add: b64_alphabet_def)
  ultimately show ?thesis by metis
qed

lemma raw_url_roundtrip:
  assumes "\<forall>b \<in> set bs. b < 256"
  shows "raw_url_decode (raw_url_encode bs) = Some bs"
proof -
  have digits: "\<forall>v \<in> set (b64_enc bs). v < 64" by (rule b64_enc_digits [OF assms])
  have "skip_newlines (raw_url_encode bs) = raw_url_encode bs"
    using digits b64_char_not_newline by (auto simp: skip_newlines_def raw_url_encode_def filter_id_conv)
  moreover have "map b64_val (raw_url_encode bs) = map Some (b64_enc bs)"
    using digits by (simp add: raw_url_encode_def b64_val_char)
  ultimately show ?thesis
    by (simp add: raw_url_decode_def b64_dec_enc [OF assms])
qed

lemma raw_url_decode_bytes: "raw_url_decode s = Some bs \<Longrightarrow> \<forall>b \<in> set bs. b < 256"
proof -
  assume s: "raw_url_decode s = Some bs"
  then obtain vs where vs: "all_some (map b64_val (skip_newlines s)) = Some vs" "b64_dec vs = Some bs"
    by (auto simp: raw_url_decode_def split: option.splits)
  have "\<forall>v \<in> set vs. v < 64"
  proof
    fix v assume "v \<in> set vs"
    then have "Some v \<in> set (map b64_val (skip_newlines s))"
      by (simp add: all_some_SomeD [OF vs(1)])
    then show "v < 64" by (auto dest: sym intro: b64_val_bound)
  qed
  then show ?thesis by (rule b64_dec_bytes [OF _ vs(2)])
qed

lemma raw_url_encode_nonempty: "raw_url_encode bs = [] \<longleftrightarrow> bs = []"
  by (cases bs rule: b64_enc.cases) (simp_all add: raw_url_encode_def)

subsection \<open>Padding\<close>

definition url_encode :: "nat list \<Rightarrow> string" where
  "url_encode bs =
     (let s = raw_url_encode bs in
      s @ (if length s mod 4 = 2 then ''=='' else if length s mod 4 = 3 then ''='' else []))"

lemma url_encode_nonempty: "url_encode bs = [] \<longleftrightarrow> bs = []"
  using raw_url_encode_nonempty [of bs] by (auto simp: url_encode_def Let_def)

lemma raw_url_encode_no_pad: "\<forall>b \<in> set bs. b < 256 \<Longrightarrow> c \<in> set (raw_url_encode bs) \<Longrightarrow> c \<noteq> CHR ''=''"
proof -
  assume bs: "\<forall>b \<in> set bs. b < 256" and c: "c \<in> set (raw_url_encode bs)"
  then obtain v where v: "v < 64" "c = b64_char v"
    using b64_enc_digits [OF bs] by (auto simp: raw_url_encode_def)
  have "c \<in> set b64_alphabet" unfolding v(2) b64_char_def by (rule nth_mem) (simp add: v b64_alphabet_length)
  moreover have "CHR ''='' \<notin> set b64_alphabet" by (simp add: b64_alphabet_def)
  ultimately show ?thesis by metis
qed

lemma url_roundtrip:
  assumes "\<forall>b \<in> set bs. b < 256"
  shows "url_decode (url_encode bs) = Some bs"
proof -
  let ?r = "raw_url_encode bs"
  define pad where "pad = (if length ?r mod 4 = 2 then ''=='' else if length ?r mod 4 = 3 then ''='' else [])"
  have digits: "\<forall>v \<in> set (b64_enc bs). v < 64" by (rule b64_enc_digits [OF assms])
  have "skip_newlines ?r = ?r"
    using digits b64_char_not_newline by (auto simp: skip_newlines_def raw_url_encode_def filter_id_conv)
  moreover have "skip_newlines pad = pad" by (simp add: pad_def skip_newlines_def)
  ultimately have sk: "skip_newlines (?r @ pad) = ?r @ pad" by (simp add: skip_newlines_def)
  have ne: "\<forall>c \<in> set ?r. c \<noteq> CHR ''=''" using raw_url_encode_no_pad [OF assms] by blast
  have tw: "takeWhile (\<lambda>c. c \<noteq> CHR ''='') (?r @ pad) = ?r" "dropWhile (\<lambda>c. c \<noteq> CHR ''='') (?r @ pad) = pad"
    using ne by (auto simp: pad_def takeWhile_append dropWhile_append)
  have "length ?r mod 4 \<noteq> 1"
  proof -
    have "length (b64_enc bs) mod 4 \<noteq> 1" by (induction bs rule: b64_enc.induct) simp_all
    then show ?thesis by (simp add: raw_url_encode_def)
  qed
  moreover have "length ?r mod 4 < 4" by simp
  ultimately have "length ?r mod 4 = 0 \<or> length ?r mod 4 = 2 \<or> length ?r mod 4 = 3" by linarith
  then have ok: "length ?r mod 4 = 0 \<and> pad = [] \<or> length ?r mod 4 = 2 \<and> pad = ''=='' \<or>
      length ?r mod 4 = 3 \<and> pad = ''=''"
    by (auto simp: pad_def)
  have "map b64_val ?r = map Some (b64_enc bs)"
    using digits by (simp add: raw_url_encode_def b64_val_char)
  with ok have "url_decode (?r @ pad) = Some bs"
    by (simp only: url_decode_def Let_def sk tw if_True all_some_map_Some option.case b64_dec_enc [OF assms])
  then show ?thesis by (simp add: url_encode_def Let_def pad_def)
qed

end
