(* ===== verification/Party.thy ===== *)
theory Party
  imports Base64 "HOL-Library.Sublist"
begin

section \<open>Party registry\<close>

text \<open>
  Models \<open>internal/party/party.go\<close>: the in-memory registry of parties with its user and session
  indexes.  Every operation holds the registry mutex, so each is one atomic step; the registry
  hands out only clones of its party objects, so a party is a value of the map.  The current time
  and the random part of a new party ID are arguments.  \<open>jf\<close> stands for decoding a label as a JSON
  object (the number of its fields, or \<open>None\<close> when it does not decode).  The callback for
  membership changes is recorded as the list of its invocations.  Member properties are opaque
  JSON texts.
\<close>

subsection \<open>Data\<close>

definition LabelMaxBytes :: nat where "LabelMaxBytes = 2048"
definition AbsoluteMaxSize :: int where "AbsoluteMaxSize = 256"
definition DefaultMaxSize :: int where "DefaultMaxSize = 4"

datatype party_error =
    ErrPartyNotFound | ErrNotLeader | ErrPartyFull | ErrPartyClosed | ErrMemberNotFound
  | ErrInvalidMaxSize | ErrAlreadyMember | ErrJoinRequestDuplicate | ErrJoinRequestsFull
  | ErrNotJoinRequest | ErrRemoveSelf | ErrAlreadyInParty | ErrInvalidLabel
  | ErrHiddenNonEmptyLabel

record party_member =
  MUserID :: string
  MUsername :: string
  MSessionID :: string
  MJoinedAt :: gotime
  MProperties :: "(string, string) fmap"

record join_request =
  JUserID :: string
  JUsername :: string
  JSessionID :: string
  JRequested :: gotime

record party_target =
  TUserID :: string
  TUsername :: string
  TSessionID :: string

record party_list_entry =
  EntryID :: string
  EntryOpen :: bool
  EntryHidden :: bool
  EntryMaxSize :: int
  EntryLabel :: string

record party_session =
  PartyID :: string
  LeaderID :: string
  POpen :: bool
  PHidden :: bool
  PMaxSize :: int
  PLabel :: string
  Members :: "(string, party_member) fmap"
  JoinRequests :: "(string, join_request) fmap"
  PNode :: string
  CreateTime :: gotime
  LastActive :: gotime
  Closed :: bool
  Activity :: "64 word"

record join_outcome =
  JoinParty_of :: party_session
  Joined :: bool

record leave_outcome =
  LParty :: "party_session option"
  LPromoted :: "party_member option"
  LDissolved :: bool
  LWasMember :: bool

record remove_outcome =
  RParty :: party_session
  RKicked :: "party_member option"
  RRejected :: bool

record party_config =
  CfgNode :: string
  SingleParty :: bool
  CfgDefaultMaxSize :: int
  CfgAbsoluteMaxSize :: int
  IdleCheckMs :: int

record party_registry =
  parties :: "(string, party_session) fmap"
  pByUser :: "(string, string) fmap"
  pBySess :: "(string, string) fmap"
  pcfg :: party_config
  hookSet :: bool
  notified :: "string list"

definition DefaultConfig :: party_config where
  "DefaultConfig = \<lparr>CfgNode = ''local'', SingleParty = True, CfgDefaultMaxSize = DefaultMaxSize,
     CfgAbsoluteMaxSize = AbsoluteMaxSize, IdleCheckMs = 30000\<rparr>"

definition NewRegistryWithConfig :: "party_config \<Rightarrow> party_registry" where
  "NewRegistryWithConfig cfg =
     (let cfg1 = (if CfgAbsoluteMaxSize cfg \<le> 0 then cfg\<lparr>CfgAbsoluteMaxSize := AbsoluteMaxSize\<rparr> else cfg);
          cfg2 = (if CfgDefaultMaxSize cfg1 \<le> 0 then cfg1\<lparr>CfgDefaultMaxSize := DefaultMaxSize\<rparr> else cfg1);
          cfg3 = (if CfgNode cfg2 = [] then cfg2\<lparr>CfgNode := ''local''\<rparr> else cfg2)
      in \<lparr>parties = fmempty, pByUser = fmempty, pBySess = fmempty, pcfg = cfg3,
          hookSet = False, notified = []\<rparr>)"

definition SetMembershipChangeHook :: "party_registry \<Rightarrow> bool \<Rightarrow> party_registry" where
  "SetMembershipChangeHook r fn = r\<lparr>hookSet := fn\<rparr>"

definition notifyMembershipChange :: "party_registry \<Rightarrow> string \<Rightarrow> party_registry" where
  "notifyMembershipChange r pid = (if hookSet r then r\<lparr>notified := notified r @ [pid]\<rparr> else r)"

definition touch :: "gotime \<Rightarrow> party_session \<Rightarrow> party_session" where
  "touch now p = p\<lparr>LastActive := now, Activity := Activity p + 1\<rparr>"

text \<open>A clone carries neither the closed flag nor the activity counter.\<close>

definition cloneParty :: "party_session \<Rightarrow> party_session" where
  "cloneParty p = p\<lparr>Closed := False, Activity := 0\<rparr>"

subsection \<open>Labels\<close>

text \<open>
  \<open>strings.TrimSpace(label) == ""\<close>: the label consists of Unicode white space only, read as UTF-8.
\<close>

fun blank_bytes :: "nat list \<Rightarrow> bool" where
  "blank_bytes [] = True"
| "blank_bytes (b # bs) =
     (if b \<in> {9, 10, 11, 12, 13, 32} then blank_bytes bs
      else case bs of
        [] \<Rightarrow> False
      | c # cs \<Rightarrow>
          if b = 0xC2 \<and> c \<in> {0x85, 0xA0} then blank_bytes cs
          else case cs of
            [] \<Rightarrow> False
          | d # ds \<Rightarrow>
              if b = 0xE1 \<and> c = 0x9A \<and> d = 0x80 \<or>
                 b = 0xE2 \<and> c = 0x80 \<and> (0x80 \<le> d \<and> d \<le> 0x8A \<or> d \<in> {0xA8, 0xA9, 0xAF}) \<or>
                 b = 0xE2 \<and> c = 0x81 \<and> d = 0x9F \<or>
                 b = 0xE3 \<and> c = 0x80 \<and> d = 0x80
              then blank_bytes ds else False)"

definition normalizeLabel :: "string \<Rightarrow> string" where
  "normalizeLabel label = (if blank_bytes (string_bytes label) then ''{}'' else label)"

definition validateLabel :: "(string \<Rightarrow> nat option) \<Rightarrow> string \<Rightarrow> bool \<Rightarrow> party_error option" where
  "validateLabel jf label hidden =
     (let label' = (if label = [] then ''{}'' else label)
      in if length label' > LabelMaxBytes then Some ErrInvalidLabel
         else case jf label' of
                None \<Rightarrow> Some ErrInvalidLabel
              | Some n \<Rightarrow>
                  if hidden \<and> label' \<noteq> ''{}'' \<and> n > 0 then Some ErrHiddenNonEmptyLabel else None)"

subsection \<open>Operations\<close>

definition find_party :: "party_registry \<Rightarrow> string \<Rightarrow> party_session option" where
  "find_party r pid =
     (case fmlookup (parties r) pid of
        None \<Rightarrow> None
      | Some p \<Rightarrow> if Closed p then None else Some p)"

definition set_party :: "party_registry \<Rightarrow> string \<Rightarrow> party_session \<Rightarrow> party_registry" where
  "set_party r pid p = r\<lparr>parties := fmupd pid p (parties r)\<rparr>"

text \<open>The earliest member by join time; among equals the first one the iteration meets.\<close>

definition oldest_step ::
  "(string, party_member) fmap \<Rightarrow> string \<Rightarrow> party_member option \<Rightarrow> party_member option" where
  "oldest_step ms u oldest =
     (case fmlookup ms u of
        None \<Rightarrow> oldest
      | Some mem \<Rightarrow>
          (case oldest of
             None \<Rightarrow> Some mem
           | Some old \<Rightarrow> if MJoinedAt mem < MJoinedAt old then Some mem else Some old))"

definition oldest_member ::
  "(string fset \<Rightarrow> string list) \<Rightarrow> (string, party_member) fmap \<Rightarrow> party_member option" where
  "oldest_member ord ms = fold (oldest_step ms) (ord (fmdom ms)) None"

definition leaveLocked ::
  "(string fset \<Rightarrow> string list) \<Rightarrow> gotime \<Rightarrow> party_registry \<Rightarrow> string \<Rightarrow> string
   \<Rightarrow> party_registry \<times> (party_error + leave_outcome)" where
  "leaveLocked ord now r pid uid =
     (case find_party r pid of
        None \<Rightarrow> (r, Inl ErrPartyNotFound)
      | Some p \<Rightarrow>
          (case fmlookup (Members p) uid of
             None \<Rightarrow>
               (if fmlookup (JoinRequests p) uid \<noteq> None
                then (let p1 = p\<lparr>JoinRequests := fmdrop uid (JoinRequests p)\<rparr>
                      in (set_party r pid p1,
                          Inr \<lparr>LParty = Some (cloneParty p1), LPromoted = None,
                               LDissolved = False, LWasMember = False\<rparr>))
                else (r, Inl ErrMemberNotFound))
           | Some m \<Rightarrow>
               (let p1 = (touch now p)\<lparr>Members := fmdrop uid (Members p)\<rparr>;
                    r1 = r\<lparr>pByUser := fmdrop uid (pByUser r),
                           pBySess := fmdrop (MSessionID m) (pBySess r)\<rparr>
                in if mlen (Members p1) = 0
                   then (notifyMembershipChange (r1\<lparr>parties := fmdrop pid (parties r)\<rparr>) pid,
                         Inr \<lparr>LParty = None, LPromoted = None, LDissolved = True, LWasMember = True\<rparr>)
                   else (let (p2, promoted) =
                               (if LeaderID p1 = uid
                                then (case oldest_member ord (Members p1) of
                                        None \<Rightarrow> (p1, None)
                                      | Some old \<Rightarrow> (p1\<lparr>LeaderID := MUserID old\<rparr>, Some old))
                                else (p1, None))
                         in (notifyMembershipChange (set_party r1 pid p2) pid,
                             Inr \<lparr>LParty = Some (cloneParty p2), LPromoted = promoted,
                                  LDissolved = False, LWasMember = True\<rparr>)))))"

definition Create ::
  "(string fset \<Rightarrow> string list) \<Rightarrow> (string \<Rightarrow> nat option) \<Rightarrow> gotime \<Rightarrow> string \<Rightarrow> party_registry
   \<Rightarrow> string \<Rightarrow> string \<Rightarrow> string \<Rightarrow> bool \<Rightarrow> bool \<Rightarrow> int \<Rightarrow> string
   \<Rightarrow> party_registry \<times> (party_error + party_session)" where
  "Create ord jf now uuid r leaderID username sessionID opn hidden maxSize label =
     (let maxSize' = (if maxSize = 0 then CfgDefaultMaxSize (pcfg r) else maxSize);
          label' = normalizeLabel label
      in if maxSize' < 1 \<or> CfgAbsoluteMaxSize (pcfg r) < maxSize' then (r, Inl ErrInvalidMaxSize)
         else case validateLabel jf label' hidden of
           Some err \<Rightarrow> (r, Inl err)
         | None \<Rightarrow>
             (let r1 = (if SingleParty (pcfg r)
                        then (case fmlookup (pByUser r) leaderID of
                                Some prevID \<Rightarrow> fst (leaveLocked ord now r prevID leaderID)
                              | None \<Rightarrow> r)
                        else r);
                  pid = uuid @ ''.'' @ CfgNode (pcfg r1);
                  mem = \<lparr>MUserID = leaderID, MUsername = username, MSessionID = sessionID,
                         MJoinedAt = now, MProperties = fmempty\<rparr>;
                  p = \<lparr>PartyID = pid, LeaderID = leaderID, POpen = opn, PHidden = hidden,
                       PMaxSize = maxSize', PLabel = label', Members = fmupd leaderID mem fmempty,
                       JoinRequests = fmempty, PNode = CfgNode (pcfg r1), CreateTime = now,
                       LastActive = now, Closed = False, Activity = 1\<rparr>
              in (r1\<lparr>parties := fmupd pid p (parties r1),
                     pByUser := fmupd leaderID pid (pByUser r1),
                     pBySess := fmupd sessionID pid (pBySess r1)\<rparr>,
                  Inr (cloneParty p))))"

definition GetParty :: "party_registry \<Rightarrow> string \<Rightarrow> party_error + party_session" where
  "GetParty r pid =
     (case find_party r pid of None \<Rightarrow> Inl ErrPartyNotFound | Some p \<Rightarrow> Inr (cloneParty p))"

definition PartyIDForSession :: "party_registry \<Rightarrow> string \<Rightarrow> string option" where
  "PartyIDForSession r sessionID = fmlookup (pBySess r) sessionID"

definition Join ::
  "gotime \<Rightarrow> party_registry \<Rightarrow> string \<Rightarrow> string \<Rightarrow> string \<Rightarrow> string
   \<Rightarrow> party_registry \<times> (party_error + join_outcome)" where
  "Join now r pid userID username sessionID =
     (case find_party r pid of
        None \<Rightarrow> (r, Inl ErrPartyNotFound)
      | Some p0 \<Rightarrow>
          (let p = touch now p0; r0 = set_party r pid p
           in if fmlookup (Members p) userID \<noteq> None then (r0, Inl ErrAlreadyMember)
              else if SingleParty (pcfg r) \<and>
                      (case fmlookup (pByUser r) userID of
                         Some prevID \<Rightarrow> prevID \<noteq> pid | None \<Rightarrow> False)
                   then (r0, Inl ErrAlreadyInParty)
              else if int (mlen (Members p)) \<ge> PMaxSize p then (r0, Inl ErrPartyFull)
              else if POpen p then
                (let mem = \<lparr>MUserID = userID, MUsername = username, MSessionID = sessionID,
                            MJoinedAt = now, MProperties = fmempty\<rparr>;
                     p1 = p\<lparr>Members := fmupd userID mem (Members p),
                            JoinRequests := fmdrop userID (JoinRequests p)\<rparr>;
                     r1 = (set_party r pid p1)\<lparr>pByUser := fmupd userID pid (pByUser r),
                            pBySess := fmupd sessionID pid (pBySess r)\<rparr>
                 in (notifyMembershipChange r1 pid,
                     Inr \<lparr>JoinParty_of = cloneParty p1, Joined = True\<rparr>))
              else if fmlookup (JoinRequests p) userID \<noteq> None then (r0, Inl ErrJoinRequestDuplicate)
              else if int (mlen (JoinRequests p)) \<ge> PMaxSize p then (r0, Inl ErrJoinRequestsFull)
              else
                (let p1 = p\<lparr>JoinRequests := fmupd userID
                              \<lparr>JUserID = userID, JUsername = username, JSessionID = sessionID,
                               JRequested = now\<rparr> (JoinRequests p)\<rparr>
                 in (set_party r pid p1, Inr \<lparr>JoinParty_of = cloneParty p1, Joined = False\<rparr>))))"

definition Leave ::
  "(string fset \<Rightarrow> string list) \<Rightarrow> gotime \<Rightarrow> party_registry \<Rightarrow> string \<Rightarrow> string
   \<Rightarrow> party_registry \<times> (party_error + leave_outcome)" where
  "Leave ord now r pid uid = leaveLocked ord now r pid uid"

definition LeaveSession ::
  "(string fset \<Rightarrow> string list) \<Rightarrow> gotime \<Rightarrow> party_registry \<Rightarrow> string
   \<Rightarrow> party_registry \<times> (party_error + leave_outcome)" where
  "LeaveSession ord now r sessionID =
     (let not_member = \<lparr>LParty = None, LPromoted = None, LDissolved = False, LWasMember = False\<rparr>
      in case fmlookup (pBySess r) sessionID of
           None \<Rightarrow> (r, Inr not_member)
         | Some pid \<Rightarrow>
             (case fmlookup (parties r) pid of
                None \<Rightarrow> (r\<lparr>pBySess := fmdrop sessionID (pBySess r)\<rparr>, Inr not_member)
              | Some p \<Rightarrow>
                  (let userID =
                         (case find (\<lambda>u. case fmlookup (Members p) u of
                                           Some m \<Rightarrow> MSessionID m = sessionID | None \<Rightarrow> False)
                                 (ord (fmdom (Members p))) of
                            Some u \<Rightarrow> (case fmlookup (Members p) u of Some m \<Rightarrow> MUserID m | None \<Rightarrow> [])
                          | None \<Rightarrow> [])
                   in if userID = [] then
                        (case find (\<lambda>u. case fmlookup (JoinRequests p) u of
                                          Some jr \<Rightarrow> JSessionID jr = sessionID | None \<Rightarrow> False)
                                (ord (fmdom (JoinRequests p))) of
                           Some u \<Rightarrow>
                             (let p1 = p\<lparr>JoinRequests := fmdrop u (JoinRequests p)\<rparr>
                              in ((set_party r pid p1)\<lparr>pBySess := fmdrop sessionID (pBySess r)\<rparr>,
                                  Inr (not_member\<lparr>LParty := Some (cloneParty p1)\<rparr>)))
                         | None \<Rightarrow> (r\<lparr>pBySess := fmdrop sessionID (pBySess r)\<rparr>, Inr not_member))
                      else leaveLocked ord now r pid userID)))"

definition requireLeader :: "party_registry \<Rightarrow> string \<Rightarrow> string \<Rightarrow> party_error + party_session" where
  "requireLeader r pid leaderSessionID =
     (case find_party r pid of
        None \<Rightarrow> Inl ErrPartyNotFound
      | Some p \<Rightarrow>
          (case fmlookup (Members p) (LeaderID p) of
             None \<Rightarrow> Inl ErrNotLeader
           | Some leader \<Rightarrow>
               if MSessionID leader \<noteq> leaderSessionID then Inl ErrNotLeader else Inr p))"

definition Promote ::
  "gotime \<Rightarrow> party_registry \<Rightarrow> string \<Rightarrow> string \<Rightarrow> party_target
   \<Rightarrow> party_registry \<times> (party_error + party_session \<times> party_member)" where
  "Promote now r pid leaderSessionID target =
     (case requireLeader r pid leaderSessionID of
        Inl err \<Rightarrow> (r, Inl err)
      | Inr p0 \<Rightarrow>
          (let p = touch now p0; r0 = set_party r pid p
           in case fmlookup (Members p) (TUserID target) of
                None \<Rightarrow> (r0, Inl ErrMemberNotFound)
              | Some m \<Rightarrow>
                  if MSessionID m \<noteq> TSessionID target then (r0, Inl ErrMemberNotFound)
                  else (let p1 = p\<lparr>LeaderID := MUserID m\<rparr>
                        in (set_party r pid p1, Inr (cloneParty p1, m)))))"

definition Accept ::
  "(string fset \<Rightarrow> string list) \<Rightarrow> gotime \<Rightarrow> party_registry \<Rightarrow> string \<Rightarrow> string \<Rightarrow> party_target
   \<Rightarrow> party_registry \<times> (party_error + party_session \<times> party_member)" where
  "Accept ord now r pid leaderSessionID target =
     (case requireLeader r pid leaderSessionID of
        Inl err \<Rightarrow> (r, Inl err)
      | Inr p0 \<Rightarrow>
          (let p = touch now p0; r0 = set_party r pid p
           in if int (mlen (Members p)) \<ge> PMaxSize p then (r0, Inl ErrPartyFull)
              else case fmlookup (JoinRequests p) (TUserID target) of
                     None \<Rightarrow> (r0, Inl ErrNotJoinRequest)
                   | Some jr \<Rightarrow>
                       if JSessionID jr \<noteq> TSessionID target then (r0, Inl ErrNotJoinRequest)
                       else
                         (let r1 = (if SingleParty (pcfg r0)
                                    then (case fmlookup (pByUser r0) (JUserID jr) of
                                            Some prevID \<Rightarrow>
                                              if prevID \<noteq> pid
                                              then fst (leaveLocked ord now r0 prevID (JUserID jr))
                                              else r0
                                          | None \<Rightarrow> r0)
                                    else r0);
                              mem = \<lparr>MUserID = JUserID jr, MUsername = JUsername jr,
                                     MSessionID = JSessionID jr, MJoinedAt = now,
                                     MProperties = fmempty\<rparr>;
                              p1 = p\<lparr>JoinRequests := fmdrop (TUserID target) (JoinRequests p),
                                     Members := fmupd (JUserID jr) mem (Members p)\<rparr>;
                              r2 = (set_party r1 pid p1)\<lparr>
                                     pByUser := fmupd (JUserID jr) pid (pByUser r1),
                                     pBySess := fmupd (JSessionID jr) pid (pBySess r1)\<rparr>
                          in (notifyMembershipChange r2 pid, Inr (cloneParty p1, mem)))))"

definition Remove ::
  "gotime \<Rightarrow> party_registry \<Rightarrow> string \<Rightarrow> string \<Rightarrow> party_target
   \<Rightarrow> party_registry \<times> (party_error + remove_outcome)" where
  "Remove now r pid leaderSessionID target =
     (case requireLeader r pid leaderSessionID of
        Inl err \<Rightarrow> (r, Inl err)
      | Inr p0 \<Rightarrow>
          (let p = touch now p0; r0 = set_party r pid p
           in if (case fmlookup (Members p) (LeaderID p) of
                    Some leader \<Rightarrow> MSessionID leader = TSessionID target \<and> MUserID leader = TUserID target
                  | None \<Rightarrow> False)
              then (r0, Inl ErrRemoveSelf)
              else if (case fmlookup (JoinRequests p) (TUserID target) of
                         Some jr \<Rightarrow> JSessionID jr = TSessionID target | None \<Rightarrow> False)
              then (let p1 = p\<lparr>JoinRequests := fmdrop (TUserID target) (JoinRequests p)\<rparr>
                    in (set_party r pid p1,
                        Inr \<lparr>RParty = cloneParty p1, RKicked = None, RRejected = True\<rparr>))
              else case fmlookup (Members p) (TUserID target) of
                     None \<Rightarrow> (r0, Inl ErrMemberNotFound)
                   | Some m \<Rightarrow>
                       if MSessionID m \<noteq> TSessionID target then (r0, Inl ErrMemberNotFound)
                       else
                         (let p1 = p\<lparr>Members := fmdrop (TUserID target) (Members p)\<rparr>;
                              r1 = (set_party r pid p1)\<lparr>pByUser := fmdrop (MUserID m) (pByUser r),
                                     pBySess := fmdrop (MSessionID m) (pBySess r)\<rparr>
                          in (notifyMembershipChange r1 pid,
                              Inr \<lparr>RParty = cloneParty p1, RKicked = Some m, RRejected = False\<rparr>))))"

definition Close ::
  "party_registry \<Rightarrow> string \<Rightarrow> string \<Rightarrow> party_registry \<times> (party_error + party_session)" where
  "Close r pid leaderSessionID =
     (case requireLeader r pid leaderSessionID of
        Inl err \<Rightarrow> (r, Inl err)
      | Inr p \<Rightarrow>
          (let ms = fmran (Members p);
               r1 = r\<lparr>pByUser := fmdrop_fset (MUserID |`| ms) (pByUser r),
                      pBySess := fmdrop_fset (MSessionID |`| ms) (pBySess r),
                      parties := fmdrop pid (parties r)\<rparr>
           in (notifyMembershipChange r1 pid, Inr (cloneParty p))))"

definition UpdateParty ::
  "(string \<Rightarrow> nat option) \<Rightarrow> gotime \<Rightarrow> party_registry \<Rightarrow> string \<Rightarrow> string \<Rightarrow> string \<Rightarrow> bool \<Rightarrow> bool
   \<Rightarrow> party_registry \<times> (party_error + party_session)" where
  "UpdateParty jf now r pid leaderSessionID label opn hidden =
     (case requireLeader r pid leaderSessionID of
        Inl err \<Rightarrow> (r, Inl err)
      | Inr p \<Rightarrow>
          (let label' = normalizeLabel label
           in case validateLabel jf label' hidden of
                Some err \<Rightarrow> (r, Inl err)
              | None \<Rightarrow>
                  (let p1 = (touch now p)\<lparr>POpen := opn, PHidden := hidden, PLabel := label'\<rparr>
                   in (set_party r pid p1, Inr (cloneParty p1)))))"

definition JoinRequestList ::
  "(string fset \<Rightarrow> string list) \<Rightarrow> party_registry \<Rightarrow> string \<Rightarrow> string
   \<Rightarrow> party_error + join_request list" where
  "JoinRequestList ord r pid leaderSessionID =
     (case requireLeader r pid leaderSessionID of
        Inl err \<Rightarrow> Inl err
      | Inr p \<Rightarrow> Inr (List.map_filter (fmlookup (JoinRequests p)) (ord (fmdom (JoinRequests p)))))"

definition UpdateMemberProperties ::
  "gotime \<Rightarrow> party_registry \<Rightarrow> string \<Rightarrow> string \<Rightarrow> (string, string) fmap
   \<Rightarrow> party_registry \<times> (party_error + party_session)" where
  "UpdateMemberProperties now r pid userID properties =
     (case find_party r pid of
        None \<Rightarrow> (r, Inl ErrPartyNotFound)
      | Some p \<Rightarrow>
          (case fmlookup (Members p) userID of
             None \<Rightarrow> (r, Inl ErrMemberNotFound)
           | Some m \<Rightarrow>
               (let m1 = m\<lparr>MProperties := MProperties m ++\<^sub>f properties\<rparr>;
                    p1 = touch now (p\<lparr>Members := fmupd userID m1 (Members p)\<rparr>)
                in (set_party r pid p1, Inr (cloneParty p1)))))"

definition SweepIdle :: "party_registry \<Rightarrow> party_registry" where
  "SweepIdle r = r\<lparr>parties := fmfilter (\<lambda>pid. case fmlookup (parties r) pid of
       Some p \<Rightarrow> \<not> Closed p \<and> mlen (Members p) \<noteq> 0 | None \<Rightarrow> False) (parties r)\<rparr>"

definition CountParties :: "party_registry \<Rightarrow> nat" where
  "CountParties r = mlen (parties r)"

subsection \<open>Discovery\<close>

definition party_listed ::
  "bool option \<Rightarrow> bool \<Rightarrow> string \<Rightarrow> party_session \<Rightarrow> bool" where
  "party_listed opn showHidden query p \<longleftrightarrow>
     \<not> Closed p \<and> \<not> (\<not> showHidden \<and> PHidden p) \<and>
     (case opn of None \<Rightarrow> True | Some b \<Rightarrow> POpen p = b) \<and>
     (query = [] \<or> sublist query (PLabel p))"

definition listed_ids ::
  "party_registry \<Rightarrow> bool option \<Rightarrow> bool \<Rightarrow> string \<Rightarrow> string list" where
  "listed_ids r opn showHidden query =
     sorted_list_of_fset (ffilter (\<lambda>pid. case fmlookup (parties r) pid of
         Some p \<Rightarrow> party_listed opn showHidden query p | None \<Rightarrow> False) (fmdom (parties r)))"

definition list_entry :: "party_session \<Rightarrow> party_list_entry" where
  "list_entry p = \<lparr>EntryID = PartyID p, EntryOpen = POpen p, EntryHidden = PHidden p,
     EntryMaxSize = PMaxSize p, EntryLabel = PLabel p\<rparr>"

definition page_limit :: "int \<Rightarrow> nat" where
  "page_limit limit = nat (if limit \<le> 0 then 10 else if limit > 100 then 100 else limit)"

definition page_start :: "string list \<Rightarrow> string \<Rightarrow> nat" where
  "page_start ids cursor =
     (if cursor = [] then 0
      else case raw_url_decode cursor of
             None \<Rightarrow> 0
           | Some raw \<Rightarrow>
               (case index_of (bytes_string raw) ids of None \<Rightarrow> 0 | Some i \<Rightarrow> Suc i))"

definition ListParties ::
  "party_registry \<Rightarrow> int \<Rightarrow> bool option \<Rightarrow> bool \<Rightarrow> string \<Rightarrow> string
   \<Rightarrow> party_list_entry list \<times> string" where
  "ListParties r limit opn showHidden query cursor =
     (let n = page_limit limit;
          ids = listed_ids r opn showHidden query;
          start = page_start ids cursor;
          out = List.map_filter (\<lambda>pid. map_option list_entry (fmlookup (parties r) pid))
                  (take n (drop start ids));
          next_cursor = (if start + n < length ids
                  then raw_url_encode (string_bytes (ids ! (start + n - 1))) else [])
      in (out, next_cursor))"

end
