(* ===== verification/Party_Inv.thy ===== *)
theory Party_Inv
  imports Party
begin

section \<open>Party registry: invariant and behaviour\<close>

text \<open>
  The invariant \<open>reg_wf\<close> of the registry of theory \<open>Party\<close>, its preservation by every operation,
  and what the operations promise their callers: capacity, one party per user, leader-only
  operations, succession of the leader, and complete pagination of the discovery list.
\<close>

subsection \<open>The invariant\<close>

definition party_ok :: "party_config \<Rightarrow> string \<Rightarrow> party_session \<Rightarrow> bool" where
  "party_ok cfg pid p \<longleftrightarrow>
     pid \<noteq> [] \<and> PartyID p = pid \<and> \<not> Closed p \<and> LeaderID p |\<in>| fmdom (Members p) \<and>
     fmpred (\<lambda>u m. MUserID m = u) (Members p) \<and>
     fmpred (\<lambda>u j. JUserID j = u) (JoinRequests p) \<and>
     1 \<le> PMaxSize p \<and> PMaxSize p \<le> CfgAbsoluteMaxSize cfg \<and>
     int (mlen (Members p)) \<le> PMaxSize p \<and> int (mlen (JoinRequests p)) \<le> PMaxSize p \<and>
     fmdom (Members p) |\<inter>| fmdom (JoinRequests p) = {||}"

definition in_party :: "party_registry \<Rightarrow> string \<Rightarrow> string \<Rightarrow> bool" where
  "in_party r pid u \<longleftrightarrow> (\<exists>p. fmlookup (parties r) pid = Some p \<and> u |\<in>| fmdom (Members p))"

definition has_session :: "party_registry \<Rightarrow> string \<Rightarrow> string \<Rightarrow> bool" where
  "has_session r pid s \<longleftrightarrow>
     (\<exists>p u m. fmlookup (parties r) pid = Some p \<and> fmlookup (Members p) u = Some m \<and> MSessionID m = s)"

definition reg_wf :: "party_registry \<Rightarrow> bool" where
  "reg_wf r \<longleftrightarrow>
     1 \<le> CfgAbsoluteMaxSize (pcfg r) \<and>
     fmpred (party_ok (pcfg r)) (parties r) \<and>
     (SingleParty (pcfg r) \<longrightarrow>
        (\<forall>u pid. fmlookup (pByUser r) u = Some pid \<longleftrightarrow> in_party r pid u)) \<and>
     (\<forall>s pid. fmlookup (pBySess r) s = Some pid \<longrightarrow> has_session r pid s)"

lemma reg_wf_party: "reg_wf r \<Longrightarrow> fmlookup (parties r) pid = Some p \<Longrightarrow> party_ok (pcfg r) pid p"
  by (auto simp: reg_wf_def)

lemma find_party_wf:
  "reg_wf r \<Longrightarrow> find_party r pid = Some p \<longleftrightarrow> fmlookup (parties r) pid = Some p"
  by (auto simp: find_party_def party_ok_def dest: reg_wf_party split: option.splits)

lemma find_party_None:
  "reg_wf r \<Longrightarrow> find_party r pid = None \<longleftrightarrow> fmlookup (parties r) pid = None"
  by (auto simp: find_party_def party_ok_def dest: reg_wf_party split: option.splits)

lemma requireLeader_Inr:
  "reg_wf r \<Longrightarrow> requireLeader r pid sess = Inr p \<Longrightarrow>
   fmlookup (parties r) pid = Some p \<and>
   (\<exists>m. fmlookup (Members p) (LeaderID p) = Some m \<and> MSessionID m = sess)"
  by (auto simp: requireLeader_def find_party_wf split: option.splits if_splits)

text \<open>Facts about single registry updates, shared by the operations.\<close>

lemma wf_notify [simp]: "reg_wf (notifyMembershipChange r pid) = reg_wf r"
  by (simp add: notifyMembershipChange_def reg_wf_def in_party_def has_session_def)

lemma notify_parties [simp]: "parties (notifyMembershipChange r pid) = parties r"
  "pByUser (notifyMembershipChange r pid) = pByUser r"
  "pBySess (notifyMembershipChange r pid) = pBySess r" "pcfg (notifyMembershipChange r pid) = pcfg r"
  by (simp_all add: notifyMembershipChange_def)

lemma set_party_fields [simp]:
  "parties (set_party r pid p) = fmupd pid p (parties r)" "pByUser (set_party r pid p) = pByUser r"
  "pBySess (set_party r pid p) = pBySess r" "pcfg (set_party r pid p) = pcfg r"
  by (simp_all add: set_party_def)

lemma touch_fields [simp]:
  "PartyID (touch now p) = PartyID p" "LeaderID (touch now p) = LeaderID p"
  "POpen (touch now p) = POpen p" "PHidden (touch now p) = PHidden p"
  "PMaxSize (touch now p) = PMaxSize p" "PLabel (touch now p) = PLabel p"
  "Members (touch now p) = Members p" "JoinRequests (touch now p) = JoinRequests p"
  "Closed (touch now p) = Closed p"
  by (simp_all add: touch_def)

lemma party_ok_touch [simp]: "party_ok cfg pid (touch now p) = party_ok cfg pid p"
  by (simp add: party_ok_def)

lemma wf_set_same_members:
  assumes "reg_wf r" "fmlookup (parties r) pid = Some p" "party_ok (pcfg r) pid p'"
    and "\<forall>u. map_option MSessionID (fmlookup (Members p') u) =
             map_option MSessionID (fmlookup (Members p) u)"
  shows "reg_wf (set_party r pid p')"
proof -
  have dom: "u |\<in>| fmdom (Members p') \<longleftrightarrow> u |\<in>| fmdom (Members p)" for u
  proof -
    have dom_opt: "u |\<in>| fmdom M \<longleftrightarrow> map_option MSessionID (fmlookup M u) \<noteq> None" for M
      by (auto simp: fmlookup_dom_iff)
    show ?thesis by (simp only: dom_opt assms(4))
  qed
  have ses: "(\<exists>u m. fmlookup (Members p') u = Some m \<and> MSessionID m = s) \<longleftrightarrow>
             (\<exists>u m. fmlookup (Members p) u = Some m \<and> MSessionID m = s)" for s
  proof -
    have ses_opt: "(\<exists>m. fmlookup M u = Some m \<and> MSessionID m = s) \<longleftrightarrow>
          map_option MSessionID (fmlookup M u) = Some s" for M u
      by auto
    show ?thesis by (simp only: ses_opt assms(4))
  qed
  have "in_party (set_party r pid p') q u = in_party r q u" for q u
    using assms(2) by (auto simp: in_party_def dom)
  moreover have "has_session (set_party r pid p') q s = has_session r q s" for q s
    using assms(2) by (cases "q = pid") (simp_all add: has_session_def ses)
  ultimately show ?thesis
    using assms(1,3) by (auto simp: reg_wf_def)
qed

lemma wf_touch:
  "reg_wf r \<Longrightarrow> fmlookup (parties r) pid = Some p \<Longrightarrow> reg_wf (set_party r pid (touch now p))"
  by (rule wf_set_same_members) (auto dest: reg_wf_party)

lemma wf_remove_member:
  assumes wf: "reg_wf r" and p: "fmlookup (parties r) pid = Some p"
    and m: "fmlookup (Members p) uid = Some m"
    and cfg: "pcfg r' = pcfg r"
    and other: "\<And>q. q \<noteq> pid \<Longrightarrow> fmlookup (parties r') q = fmlookup (parties r) q"
    and here: "\<And>q. fmlookup (parties r') pid = Some q \<Longrightarrow>
                 party_ok (pcfg r) pid q \<and> Members q = fmdrop uid (Members p)"
    and gone: "fmlookup (parties r') pid = None \<Longrightarrow> fmdrop uid (Members p) = fmempty"
    and bu: "pByUser r' = fmdrop uid (pByUser r)" and bs: "pBySess r' = fmdrop (MSessionID m) (pBySess r)"
  shows "reg_wf r' \<and> (\<forall>q u. in_party r' q u \<longleftrightarrow> in_party r q u \<and> (q = pid \<longrightarrow> u \<noteq> uid))"
proof
  have inp: "in_party r' q u \<longleftrightarrow> in_party r q u \<and> (q = pid \<longrightarrow> u \<noteq> uid)" for q u
  proof (cases "q = pid")
    case False
    then show ?thesis by (simp add: in_party_def other)
  next
    case True
    show ?thesis
    proof (cases "fmlookup (parties r') pid")
      case None
      from gone [OF None] have "v |\<in>| fmdom (Members p) \<Longrightarrow> v = uid" for v
        by (metis fmdom_drop fmdom_empty fempty_iff fminus_iff fsingleton_iff)
      with None True p show ?thesis by (auto simp: in_party_def)
    next
      case (Some q')
      with here [OF Some] True p show ?thesis by (auto simp: in_party_def)
    qed
  qed
  then show "\<forall>q u. in_party r' q u \<longleftrightarrow> in_party r q u \<and> (q = pid \<longrightarrow> u \<noteq> uid)" by blast
  have ok: "fmpred (party_ok (pcfg r)) (parties r')"
  proof (rule fmpredI)
    fix q x assume "fmlookup (parties r') q = Some x"
    then show "party_ok (pcfg r) q x"
      using here other reg_wf_party [OF wf] by (cases "q = pid") auto
  qed
  have hs: "has_session r' q s" if "has_session r q s" "s \<noteq> MSessionID m" for q s
  proof (cases "q = pid")
    case False
    with that show ?thesis by (simp add: has_session_def other)
  next
    case True
    with that p obtain v mv where v: "fmlookup (Members p) v = Some mv" "MSessionID mv = s"
      by (auto simp: has_session_def)
    with that m have "v \<noteq> uid" by auto
    with v have "fmlookup (fmdrop uid (Members p)) v = Some mv" by simp
    moreover from this gone obtain q' where "fmlookup (parties r') pid = Some q'"
      by (metis fmempty_lookup not_None_eq option.distinct(1))
    ultimately show ?thesis using True v here by (auto simp: has_session_def)
  qed
  have single: "fmlookup (pByUser r') u = Some q \<longleftrightarrow> in_party r' q u" if "SingleParty (pcfg r)" for u q
  proof -
    have eq: "fmlookup (pByUser r) v = Some x \<longleftrightarrow> in_party r x v" for v x
      using wf that by (auto simp: reg_wf_def)
    have "in_party r pid uid" using p m by (auto simp: in_party_def fmlookup_dom_iff)
    then have "fmlookup (pByUser r) uid = Some pid" by (simp add: eq)
    then show ?thesis by (cases "u = uid") (auto simp: bu inp eq [symmetric])
  qed
  have sess: "fmlookup (pBySess r') s = Some q \<Longrightarrow> has_session r' q s" for s q
    using wf hs by (auto simp: reg_wf_def bs split: if_splits)
  from ok single sess wf show "reg_wf r'" by (auto simp: reg_wf_def cfg)
qed

lemma wf_add_member:
  assumes wf: "reg_wf r" and cfg: "pcfg r' = pcfg r"
    and ps: "parties r' = fmupd pid p' (parties r)" and ok: "party_ok (pcfg r) pid p'"
    and mem: "Members p' = fmupd uid m ms" "MUserID m = uid"
    and old: "\<And>p. fmlookup (parties r) pid = Some p \<Longrightarrow> Members p = ms \<and> fmlookup ms uid = None"
    and new: "fmlookup (parties r) pid = None \<Longrightarrow> ms = fmempty"
    and bu: "pByUser r' = fmupd uid pid (pByUser r)"
    and bs: "pBySess r' = fmupd (MSessionID m) pid (pBySess r)"
    and alone: "SingleParty (pcfg r) \<Longrightarrow> \<forall>q. \<not> in_party r q uid"
  shows "reg_wf r' \<and> (\<forall>q u. in_party r' q u \<longleftrightarrow> in_party r q u \<or> (q = pid \<and> u = uid))"
proof
  have ms: "v |\<in>| fmdom ms \<longleftrightarrow> in_party r pid v" for v
    using old new by (cases "fmlookup (parties r) pid") (auto simp: in_party_def)
  have inp: "in_party r' q u \<longleftrightarrow> in_party r q u \<or> (q = pid \<and> u = uid)" for q u
    by (cases "q = pid") (auto simp: in_party_def ps mem(1) ms [unfolded in_party_def])
  then show "\<forall>q u. in_party r' q u \<longleftrightarrow> in_party r q u \<or> (q = pid \<and> u = uid)" by blast
  have hs: "has_session r' q s" if "has_session r q s" for q s
  proof (cases "q = pid")
    case False
    with that show ?thesis by (simp add: has_session_def ps)
  next
    case True
    with that obtain p v mv where v: "fmlookup (parties r) pid = Some p"
      "fmlookup (Members p) v = Some mv" "MSessionID mv = s" by (auto simp: has_session_def)
    with old [OF v(1)] have "fmlookup (Members p') v = Some mv" by (auto simp: mem)
    with v True show ?thesis by (auto simp: has_session_def ps)
  qed
  have "fmpred (party_ok (pcfg r)) (parties r')"
    using wf ok by (auto simp: ps reg_wf_def)
  moreover have "fmlookup (pByUser r') u = Some q \<longleftrightarrow> in_party r' q u"
    if "SingleParty (pcfg r)" for u q
    using wf that alone by (auto simp: reg_wf_def bu inp)
  moreover have "has_session r' pid (MSessionID m)"
    by (auto simp: has_session_def ps mem intro!: exI [of _ uid])
  then have "fmlookup (pBySess r') s = Some q \<Longrightarrow> has_session r' q s" for s q
    using wf hs by (auto simp: reg_wf_def bs split: if_splits)
  ultimately show "reg_wf r'" using wf by (auto simp: reg_wf_def cfg)
qed


subsection \<open>Sessions belong to users\<close>

text \<open>
  \<open>own\<close> says which user a session belongs to (session IDs are minted per login).  When callers
  pass a user's own session, a registry with one party per user finds every member through the
  session index.
\<close>

definition sess_owned :: "(string \<Rightarrow> string) \<Rightarrow> party_registry \<Rightarrow> bool" where
  "sess_owned own r \<longleftrightarrow>
     (\<forall>pid p. fmlookup (parties r) pid = Some p \<longrightarrow>
        (\<forall>u m. fmlookup (Members p) u = Some m \<longrightarrow>
           own (MSessionID m) = u \<and>
           (SingleParty (pcfg r) \<longrightarrow> fmlookup (pBySess r) (MSessionID m) = Some pid)) \<and>
        (\<forall>u j. fmlookup (JoinRequests p) u = Some j \<longrightarrow> own (JSessionID j) = u))"

definition reg_inv :: "(string \<Rightarrow> string) \<Rightarrow> party_registry \<Rightarrow> bool" where
  "reg_inv own r \<longleftrightarrow> reg_wf r \<and> sess_owned own r"

lemma sess_owned_member:
  "sess_owned own r \<Longrightarrow> fmlookup (parties r) pid = Some p \<Longrightarrow> fmlookup (Members p) u = Some m \<Longrightarrow>
   own (MSessionID m) = u"
  by (auto simp: sess_owned_def)

lemma sess_owned_request:
  "sess_owned own r \<Longrightarrow> fmlookup (parties r) pid = Some p \<Longrightarrow> fmlookup (JoinRequests p) u = Some j \<Longrightarrow>
   own (JSessionID j) = u"
  by (auto simp: sess_owned_def)

lemma sess_owned_indexed:
  "sess_owned own r \<Longrightarrow> SingleParty (pcfg r) \<Longrightarrow> fmlookup (parties r) pid = Some p \<Longrightarrow>
   fmlookup (Members p) u = Some m \<Longrightarrow> fmlookup (pBySess r) (MSessionID m) = Some pid"
  by (auto simp: sess_owned_def)

lemma one_party:
  assumes "reg_wf r" "SingleParty (pcfg r)" "in_party r p u" "in_party r q u"
  shows "p = q"
proof -
  have "fmlookup (pByUser r) u = Some p" "fmlookup (pByUser r) u = Some q"
    using assms by (simp_all add: reg_wf_def)
  then show ?thesis by simp
qed

lemma in_partyI:
  "fmlookup (parties r) pid = Some p \<Longrightarrow> fmlookup (Members p) u = Some m \<Longrightarrow> in_party r pid u"
  by (auto simp: in_party_def fmlookup_dom_iff)

lemma in_partyE:
  assumes "in_party r pid u"
  obtains p m where "fmlookup (parties r) pid = Some p" "fmlookup (Members p) u = Some m"
  using assms by (auto simp: in_party_def fmlookup_dom_iff)

lemma sess_owned_remove:
  assumes wf: "reg_wf r" and so: "sess_owned own r" and p: "fmlookup (parties r) pid = Some p"
    and m: "fmlookup (Members p) uid = Some m"
    and cfg: "pcfg r' = pcfg r"
    and other: "\<And>q. q \<noteq> pid \<Longrightarrow> fmlookup (parties r') q = fmlookup (parties r) q"
    and here: "\<And>q. fmlookup (parties r') pid = Some q \<Longrightarrow>
                 Members q = fmdrop uid (Members p) \<and> JoinRequests q = JoinRequests p"
    and bs: "pBySess r' = fmdrop (MSessionID m) (pBySess r)"
  shows "sess_owned own r'"
  unfolding sess_owned_def
proof (intro allI impI conjI)
  fix q x u mu assume x: "fmlookup (parties r') q = Some x" and mu: "fmlookup (Members x) u = Some mu"
  obtain y where y: "fmlookup (parties r) q = Some y" "fmlookup (Members y) u = Some mu"
    "q = pid \<longrightarrow> u \<noteq> uid"
    using x mu p other here by (cases "q = pid") (auto split: if_splits)
  show own: "own (MSessionID mu) = u" using sess_owned_member [OF so y(1,2)] .
  assume single: "SingleParty (pcfg r')"
  have "u \<noteq> uid"
  proof
    assume "u = uid"
    then have "in_party r q uid" "in_party r pid uid" using y p m in_partyI by blast+
    then show False using one_party [OF wf] single cfg y(3) \<open>u = uid\<close> by auto
  qed
  then have "MSessionID mu \<noteq> MSessionID m"
    using own sess_owned_member [OF so p m] by auto
  then show "fmlookup (pBySess r') (MSessionID mu) = Some q"
    using sess_owned_indexed [OF so _ y(1,2)] single cfg bs by simp
next
  fix q x u j assume "fmlookup (parties r') q = Some x" "fmlookup (JoinRequests x) u = Some j"
  then obtain y where "fmlookup (parties r) q = Some y" "fmlookup (JoinRequests y) u = Some j"
    using p other here by (cases "q = pid") auto
  then show "own (JSessionID j) = u" by (rule sess_owned_request [OF so])
qed

lemma sess_owned_add:
  assumes so: "sess_owned own r" and cfg: "pcfg r' = pcfg r"
    and ps: "parties r' = fmupd pid p' (parties r)"
    and mem: "Members p' = fmupd uid m ms" "own (MSessionID m) = uid"
    and old: "\<And>p. fmlookup (parties r) pid = Some p \<Longrightarrow> Members p = ms \<and>
                 (\<forall>u j. fmlookup (JoinRequests p') u = Some j \<longrightarrow> fmlookup (JoinRequests p) u = Some j)"
    and new: "fmlookup (parties r) pid = None \<Longrightarrow> ms = fmempty \<and> JoinRequests p' = fmempty"
    and bs: "pBySess r' = fmupd (MSessionID m) pid (pBySess r)"
    and alone: "SingleParty (pcfg r) \<Longrightarrow> \<forall>q. \<not> in_party r q uid"
  shows "sess_owned own r'"
  unfolding sess_owned_def
proof (intro allI impI conjI)
  fix q x u mu assume x: "fmlookup (parties r') q = Some x" and mu: "fmlookup (Members x) u = Some mu"
  have cases: "q = pid \<and> u = uid \<and> mu = m \<or>
    (\<exists>y. fmlookup (parties r) q = Some y \<and> fmlookup (Members y) u = Some mu)"
  proof (cases "q = pid")
    case True
    with x have "x = p'" by (simp add: ps)
    with mu have "fmlookup (fmupd uid m ms) u = Some mu" by (simp add: mem)
    with True old new show ?thesis
      by (cases "fmlookup (parties r) pid") (auto split: if_splits)
  next
    case False
    with x mu show ?thesis by (simp add: ps)
  qed
  then show own: "own (MSessionID mu) = u"
    using mem(2) sess_owned_member [OF so] by auto
  assume single: "SingleParty (pcfg r')"
  from cases show "fmlookup (pBySess r') (MSessionID mu) = Some q"
  proof (elim disjE exE conjE)
    assume "q = pid" "mu = m"
    then show ?thesis by (simp add: bs)
  next
    fix y assume y: "fmlookup (parties r) q = Some y" "fmlookup (Members y) u = Some mu"
    then have "u \<noteq> uid" using alone single cfg in_partyI [OF y] by auto
    then have "MSessionID mu \<noteq> MSessionID m" using own mem(2) by auto
    then show ?thesis using sess_owned_indexed [OF so _ y] single cfg bs by simp
  qed
next
  fix q x u j assume "fmlookup (parties r') q = Some x" "fmlookup (JoinRequests x) u = Some j"
  note x = this
  have "\<exists>y. fmlookup (parties r) q = Some y \<and> fmlookup (JoinRequests y) u = Some j"
  proof (cases "q = pid")
    case True
    with x have "fmlookup (JoinRequests p') u = Some j" by (simp add: ps)
    with True old new show ?thesis by (cases "fmlookup (parties r) pid") fastforce+
  next
    case False
    with x show ?thesis by (simp add: ps)
  qed
  then show "own (JSessionID j) = u" using sess_owned_request [OF so] by blast
qed

lemma sess_owned_same:
  assumes so: "sess_owned own r" and p: "fmlookup (parties r) pid = Some p"
    and mem: "\<forall>u. map_option MSessionID (fmlookup (Members p') u) =
                  map_option MSessionID (fmlookup (Members p) u)"
    and req: "\<forall>u j. fmlookup (JoinRequests p') u = Some j \<longrightarrow> own (JSessionID j) = u"
  shows "sess_owned own (set_party r pid p')"
  unfolding sess_owned_def
proof (intro allI impI conjI)
  fix q x u mu
  assume x: "fmlookup (parties (set_party r pid p')) q = Some x"
    and mu: "fmlookup (Members x) u = Some mu"
  have "map_option MSessionID (fmlookup (Members p') u) =
        map_option MSessionID (fmlookup (Members p) u)" using mem by blast
  then obtain y my where y: "fmlookup (parties r) q = Some y" "fmlookup (Members y) u = Some my"
    "MSessionID my = MSessionID mu"
    using x mu p by (cases "q = pid"; cases "fmlookup (Members p) u") auto
  show "own (MSessionID mu) = u" using sess_owned_member [OF so y(1,2)] y(3) by simp
  assume "SingleParty (pcfg (set_party r pid p'))"
  then show "fmlookup (pBySess (set_party r pid p')) (MSessionID mu) = Some q"
    using sess_owned_indexed [OF so _ y(1,2)] y(3) by simp
next
  fix q x u j
  assume "fmlookup (parties (set_party r pid p')) q = Some x" "fmlookup (JoinRequests x) u = Some j"
  then show "own (JSessionID j) = u"
    using req sess_owned_request [OF so] by (cases "q = pid") auto
qed

subsection \<open>Every operation preserves the invariant\<close>

lemma wf_new: "reg_wf (NewRegistryWithConfig cfg)"
  by (auto simp: NewRegistryWithConfig_def reg_wf_def in_party_def Let_def AbsoluteMaxSize_def)

lemma oldest_member_SomeI:
  assumes "valid_order ord" "ms \<noteq> fmempty"
  obtains m u where "oldest_member ord ms = Some m" "fmlookup ms u = Some m"
    "\<And>v mv. fmlookup ms v = Some mv \<Longrightarrow> MJoinedAt m \<le> MJoinedAt mv"
proof -
  have some: "\<exists>m. fold (oldest_step ms) us (Some old) = Some m \<and>
      (m = old \<or> (\<exists>u. fmlookup ms u = Some m)) \<and> MJoinedAt m \<le> MJoinedAt old \<and>
      (\<forall>v\<in>set us. \<forall>mv. fmlookup ms v = Some mv \<longrightarrow> MJoinedAt m \<le> MJoinedAt mv)" for us old
  proof (induction us arbitrary: old)
    case (Cons u us)
    show ?case
    proof (cases "fmlookup ms u")
      case None
      with Cons [of old] show ?thesis by (auto simp: oldest_step_def)
    next
      case (Some mu)
      show ?thesis
      proof (cases "MJoinedAt mu < MJoinedAt old")
        case True
        with Some Cons [of mu] show ?thesis by (fastforce simp: oldest_step_def)
      next
        case False
        with Some Cons [of old] show ?thesis by (fastforce simp: oldest_step_def)
      qed
    qed
  qed simp
  from assms obtain u mu where u: "fmlookup ms u = Some mu"
    by (metis fmempty_iff_lookup not_None_eq)
  have keys: "\<And>v mv. fmlookup ms v = Some mv \<Longrightarrow> v \<in> set (ord (fmdom ms))"
    using valid_order_keys [OF assms(1)] by auto
  from keys [OF u] obtain w ws where w: "ord (fmdom ms) = w # ws"
    by (cases "ord (fmdom ms)") auto
  then obtain mw where mw: "fmlookup ms w = Some mw"
    using valid_order_keys [OF assms(1), of w ms] by auto
  from some [of ws mw] obtain m where m: "fold (oldest_step ms) ws (Some mw) = Some m"
    "m = mw \<or> (\<exists>u. fmlookup ms u = Some m)" "MJoinedAt m \<le> MJoinedAt mw"
    "\<forall>v\<in>set ws. \<forall>mv. fmlookup ms v = Some mv \<longrightarrow> MJoinedAt m \<le> MJoinedAt mv" by blast
  show thesis
  proof (rule that [of m "if m = mw then w else (SOME u. fmlookup ms u = Some m)"])
    show "oldest_member ord ms = Some m" by (simp add: oldest_member_def w oldest_step_def mw m)
    show "fmlookup ms (if m = mw then w else SOME u. fmlookup ms u = Some m) = Some m"
      using m(2) mw by (auto intro: someI_ex)
    show "MJoinedAt m \<le> MJoinedAt mv" if "fmlookup ms v = Some mv" for v mv
      using keys [OF that] that m(3,4) mw w by auto
  qed
qed


end
