(* ===== verification/Party_Ops.thy ===== *)
theory Party_Ops
  imports Party_Inv
begin

section \<open>Party registry: the operations keep the invariant\<close>

text \<open>
  One lemma per operation of \<open>internal/party/party.go\<close>: the invariant \<open>reg_inv\<close> is kept and who is in
  which party afterwards.  The step relation \<open>party_step\<close> collects them, and the properties of
  the registry are stated over its reachable states and over single operations.
\<close>

subsection \<open>Leaving\<close>

lemma party_ok_fields:
  assumes "party_ok cfg pid p"
  shows "pid \<noteq> []" "PartyID p = pid" "\<not> Closed p" "LeaderID p |\<in>| fmdom (Members p)"
    "\<And>u m. fmlookup (Members p) u = Some m \<Longrightarrow> MUserID m = u"
    "\<And>u j. fmlookup (JoinRequests p) u = Some j \<Longrightarrow> JUserID j = u"
    "1 \<le> PMaxSize p" "PMaxSize p \<le> CfgAbsoluteMaxSize cfg"
    "int (mlen (Members p)) \<le> PMaxSize p" "int (mlen (JoinRequests p)) \<le> PMaxSize p"
    "fmdom (Members p) |\<inter>| fmdom (JoinRequests p) = {||}"
  using assms by (auto simp: party_ok_def)

lemma party_okI:
  assumes "pid \<noteq> []" "PartyID p = pid" "\<not> Closed p" "LeaderID p |\<in>| fmdom (Members p)"
    "\<And>u m. fmlookup (Members p) u = Some m \<Longrightarrow> MUserID m = u"
    "\<And>u j. fmlookup (JoinRequests p) u = Some j \<Longrightarrow> JUserID j = u"
    "1 \<le> PMaxSize p" "PMaxSize p \<le> CfgAbsoluteMaxSize cfg"
    "int (mlen (Members p)) \<le> PMaxSize p" "int (mlen (JoinRequests p)) \<le> PMaxSize p"
    "\<And>u m j. fmlookup (Members p) u = Some m \<Longrightarrow> fmlookup (JoinRequests p) u = Some j \<Longrightarrow> False"
  shows "party_ok cfg pid p"
proof -
  have "fmdom (Members p) |\<inter>| fmdom (JoinRequests p) = {||}"
    using assms(11) by (auto simp: fmlookup_dom_iff)
  with assms show ?thesis by (auto simp: party_ok_def)
qed

lemma party_ok_disjoint:
  "party_ok cfg pid p \<Longrightarrow> fmlookup (Members p) u = Some m \<Longrightarrow> fmlookup (JoinRequests p) u = None"
proof (rule ccontr)
  assume ok: "party_ok cfg pid p" and m: "fmlookup (Members p) u = Some m"
    and "fmlookup (JoinRequests p) u \<noteq> None"
  then have "u |\<in>| fmdom (Members p) |\<inter>| fmdom (JoinRequests p)"
    by (auto simp: fmlookup_dom_iff)
  then show False using party_ok_fields(11) [OF ok] by simp
qed

text \<open>Dropping a pending request leaves a well-formed party.\<close>

lemma party_ok_drop_request:
  assumes "party_ok cfg pid p"
  shows "party_ok cfg pid (p\<lparr>JoinRequests := fmdrop u (JoinRequests p)\<rparr>)"
  using party_ok_fields [OF assms] mlen_fmdrop_le [of u "JoinRequests p"]
    party_ok_disjoint [OF assms]
  by (intro party_okI) (auto split: if_splits)

lemma inv_drop_request:
  assumes inv: "reg_inv own r" and p: "fmlookup (parties r) pid = Some p"
    and p': "p' = p \<or> p' = touch now p"
  shows "reg_inv own (set_party r pid (p'\<lparr>JoinRequests := fmdrop u (JoinRequests p')\<rparr>))"
proof -
  have wf: "reg_wf r" and so: "sess_owned own r" using inv by (auto simp: reg_inv_def)
  have ok: "party_ok (pcfg r) pid p'" using p' reg_wf_party [OF wf p] by auto
  have same: "Members p' = Members p" "JoinRequests p' = JoinRequests p" using p' by auto
  show ?thesis
    unfolding reg_inv_def
    by (intro conjI wf_set_same_members [OF wf p] sess_owned_same [OF so p]
          party_ok_drop_request [OF ok])
       (auto simp: same sess_owned_request [OF so p])
qed

lemma inv_touch:
  "reg_inv own r \<Longrightarrow> fmlookup (parties r) pid = Some p \<Longrightarrow> reg_inv own (set_party r pid (touch now p))"
  unfolding reg_inv_def
  by (auto intro!: wf_touch sess_owned_same dest: sess_owned_request)

lemma sess_owned_notify [simp]: "sess_owned own (notifyMembershipChange r pid) = sess_owned own r"
  by (simp add: sess_owned_def)

lemma inv_notify [simp]: "reg_inv own (notifyMembershipChange r pid) = reg_inv own r"
  by (simp add: reg_inv_def)

lemma in_party_notify [simp]: "in_party (notifyMembershipChange r pid) q u = in_party r q u"
  by (simp add: in_party_def)


lemma find_partyD: "find_party r pid = Some p \<Longrightarrow> fmlookup (parties r) pid = Some p"
  by (auto simp: find_party_def split: option.splits if_splits)

text \<open>The party a member leaves behind is well-formed.\<close>

lemma party_ok_leave:
  assumes ok: "party_ok cfg pid p" and m: "fmlookup (Members p) uid = Some m"
    and ne: "fmdrop uid (Members p) \<noteq> fmempty"
    and ms: "Members q = fmdrop uid (Members p)" and jr: "JoinRequests q = JoinRequests p"
    and rest: "PartyID q = PartyID p" "Closed q = Closed p" "PMaxSize q = PMaxSize p"
    and leader: "LeaderID q |\<in>| fmdom (Members q)"
  shows "party_ok cfg pid q"
  using party_ok_fields [OF ok] mlen_fmdrop_le [of uid "Members p"] party_ok_disjoint [OF ok] leader
  by (intro party_okI) (auto simp: ms jr rest split: if_splits)

definition leave_party ::
  "(string fset \<Rightarrow> string list) \<Rightarrow> gotime \<Rightarrow> party_session \<Rightarrow> string \<Rightarrow> party_session" where
  "leave_party ord now p uid =
     (let p1 = (touch now p)\<lparr>Members := fmdrop uid (Members p)\<rparr>
      in if LeaderID p1 = uid
         then (case oldest_member ord (Members p1) of
                 None \<Rightarrow> p1 | Some old \<Rightarrow> p1\<lparr>LeaderID := MUserID old\<rparr>)
         else p1)"

lemma leave_party_fields [simp]:
  "Members (leave_party ord now p uid) = fmdrop uid (Members p)"
  "JoinRequests (leave_party ord now p uid) = JoinRequests p"
  "PartyID (leave_party ord now p uid) = PartyID p" "Closed (leave_party ord now p uid) = Closed p"
  "PMaxSize (leave_party ord now p uid) = PMaxSize p" "POpen (leave_party ord now p uid) = POpen p"
  by (auto simp: leave_party_def Let_def split: option.split)

lemma leave_party_leader:
  assumes ord: "valid_order ord" and ok: "party_ok cfg pid p"
    and ne: "fmdrop uid (Members p) \<noteq> fmempty"
  shows "LeaderID (leave_party ord now p uid) |\<in>| fmdom (fmdrop uid (Members p))"
proof (cases "LeaderID p = uid")
  case True
  obtain m u where mu: "oldest_member ord (fmdrop uid (Members p)) = Some m"
    "fmlookup (fmdrop uid (Members p)) u = Some m"
    by (rule oldest_member_SomeI [OF ord ne])
  from mu(2) have "fmlookup (Members p) u = Some m" by (simp split: if_splits)
  then have "MUserID m = u" by (rule party_ok_fields(5) [OF ok])
  with mu(1) True have "LeaderID (leave_party ord now p uid) = u"
    by (simp add: leave_party_def)
  then show ?thesis using fmdomI [OF mu(2)] by simp
next
  case False
  then show ?thesis using party_ok_fields(4) [OF ok] by (simp add: leave_party_def)
qed

lemma leaveLocked_member:
  assumes "find_party r pid = Some p" "fmlookup (Members p) uid = Some m"
  shows "fst (leaveLocked ord now r pid uid) =
     notifyMembershipChange
       (r\<lparr>pByUser := fmdrop uid (pByUser r), pBySess := fmdrop (MSessionID m) (pBySess r),
          parties := (if fmdrop uid (Members p) = fmempty then fmdrop pid (parties r)
                      else fmupd pid (leave_party ord now p uid) (parties r))\<rparr>) pid"
  using assms
  by (auto simp: leaveLocked_def leave_party_def Let_def set_party_def split: option.split)

text \<open>Leaving removes exactly the user from exactly that party.\<close>

lemma leave_inv:
  assumes ord: "valid_order ord" and inv: "reg_inv own r"
    and r'_def: "r' = fst (leaveLocked ord now r pid uid)"
  shows "reg_inv own r'" and "in_party r' q u \<longleftrightarrow> in_party r q u \<and> \<not> (q = pid \<and> u = uid)"
    and "pcfg r' = pcfg r" and "q \<noteq> pid \<Longrightarrow> fmlookup (parties r') q = fmlookup (parties r) q"
proof -
  have wf: "reg_wf r" and so: "sess_owned own r" using inv by (auto simp: reg_inv_def)
  have goal: "reg_inv own r' \<and> (\<forall>q u. in_party r' q u \<longleftrightarrow> in_party r q u \<and> \<not> (q = pid \<and> u = uid)) \<and>
    pcfg r' = pcfg r \<and> (\<forall>q. q \<noteq> pid \<longrightarrow> fmlookup (parties r') q = fmlookup (parties r) q)"
  proof (cases "find_party r pid")
    case None
    then have "fmlookup (parties r) pid = None" using find_party_None [OF wf] by simp
    then have "\<not> in_party r pid uid" by (simp add: in_party_def)
    with None inv show ?thesis by (auto simp: r'_def leaveLocked_def)
  next
    case fp: (Some p)
    then have p: "fmlookup (parties r) pid = Some p" by (rule find_partyD)
    show ?thesis
    proof (cases "fmlookup (Members p) uid")
      case None
      then have "\<not> in_party r pid uid" using p by (simp add: in_party_def fmdom_notI)
      moreover have "in_party (set_party r pid (p\<lparr>JoinRequests := js\<rparr>)) q u = in_party r q u" for js q u
        using p by (cases "q = pid") (simp_all add: in_party_def)
      ultimately show ?thesis
        using fp None inv inv_drop_request [OF inv p]
        by (auto simp: r'_def leaveLocked_def Let_def)
    next
      case m: (Some m)
      let ?r = "r\<lparr>pByUser := fmdrop uid (pByUser r), pBySess := fmdrop (MSessionID m) (pBySess r),
          parties := (if fmdrop uid (Members p) = fmempty then fmdrop pid (parties r)
                      else fmupd pid (leave_party ord now p uid) (parties r))\<rparr>"
      have r': "r' = notifyMembershipChange ?r pid"
        unfolding r'_def by (rule leaveLocked_member [OF fp m])
      have here: "party_ok (pcfg r) pid q \<and> Members q = fmdrop uid (Members p) \<and>
                  JoinRequests q = JoinRequests p"
        if "fmlookup (parties ?r) pid = Some q" for q
      proof -
        from that have ne: "fmdrop uid (Members p) \<noteq> fmempty" and q: "q = leave_party ord now p uid"
          by (auto split: if_splits)
        have "party_ok (pcfg r) pid q"
          by (rule party_ok_leave [OF reg_wf_party [OF wf p] m ne])
             (use leave_party_leader [OF ord reg_wf_party [OF wf p] ne] q in simp_all)
        then show ?thesis by (simp add: q)
      qed
      have "reg_wf ?r \<and> (\<forall>q u. in_party ?r q u \<longleftrightarrow> in_party r q u \<and> (q = pid \<longrightarrow> u \<noteq> uid))"
      proof (rule wf_remove_member [OF wf p m])
        show "party_ok (pcfg r) pid q \<and> Members q = fmdrop uid (Members p)"
          if "fmlookup (parties ?r) pid = Some q" for q using here [OF that] by simp
        show "fmdrop uid (Members p) = fmempty" if "fmlookup (parties ?r) pid = None"
          using that by (simp split: if_splits)
      qed simp_all
      moreover have "sess_owned own ?r"
      proof (rule sess_owned_remove [OF wf so p m])
        show "Members q = fmdrop uid (Members p) \<and> JoinRequests q = JoinRequests p"
          if "fmlookup (parties ?r) pid = Some q" for q using here [OF that] by simp
      qed simp_all
      ultimately show ?thesis by (auto simp: r' reg_inv_def)
    qed
  qed
  from goal show "reg_inv own r'" by simp
  from goal show "in_party r' q u \<longleftrightarrow> in_party r q u \<and> \<not> (q = pid \<and> u = uid)" by simp
  from goal show "pcfg r' = pcfg r" by simp
  from goal show "q \<noteq> pid \<Longrightarrow> fmlookup (parties r') q = fmlookup (parties r) q" by simp
qed


subsection \<open>Joining\<close>

lemma inv_add_member:
  assumes inv: "reg_inv own r" and cfg: "pcfg r' = pcfg r"
    and ps: "parties r' = fmupd pid p' (parties r)" and ok: "party_ok (pcfg r) pid p'"
    and mem: "Members p' = fmupd uid m ms" "MUserID m = uid" "own (MSessionID m) = uid"
    and old: "\<And>p. fmlookup (parties r) pid = Some p \<Longrightarrow> Members p = ms \<and> fmlookup ms uid = None \<and>
                 (\<forall>u j. fmlookup (JoinRequests p') u = Some j \<longrightarrow> fmlookup (JoinRequests p) u = Some j)"
    and new: "fmlookup (parties r) pid = None \<Longrightarrow> ms = fmempty \<and> JoinRequests p' = fmempty"
    and bu: "pByUser r' = fmupd uid pid (pByUser r)"
    and bs: "pBySess r' = fmupd (MSessionID m) pid (pBySess r)"
    and alone: "SingleParty (pcfg r) \<Longrightarrow> \<forall>q. \<not> in_party r q uid"
  shows "reg_inv own r'" and "in_party r' q u \<longleftrightarrow> in_party r q u \<or> (q = pid \<and> u = uid)"
proof -
  have wf: "reg_wf r" and so: "sess_owned own r" using inv by (auto simp: reg_inv_def)
  have add: "reg_wf r' \<and> (\<forall>q u. in_party r' q u \<longleftrightarrow> in_party r q u \<or> (q = pid \<and> u = uid))"
  proof (rule wf_add_member [OF wf cfg ps ok mem(1,2)])
    show "Members p = ms \<and> fmlookup ms uid = None" if "fmlookup (parties r) pid = Some p" for p
      using old [OF that] by simp
    show "ms = fmempty" if "fmlookup (parties r) pid = None" using new [OF that] by simp
  qed (use bu bs alone in blast)+
  have "sess_owned own r'"
  proof (rule sess_owned_add [OF so cfg ps mem(1,3)])
    show "Members p = ms \<and>
        (\<forall>u j. fmlookup (JoinRequests p') u = Some j \<longrightarrow> fmlookup (JoinRequests p) u = Some j)"
      if "fmlookup (parties r) pid = Some p" for p using old [OF that] by simp
  qed (use new bs alone in blast)+
  with add show "reg_inv own r'" by (simp add: reg_inv_def)
  from add show "in_party r' q u \<longleftrightarrow> in_party r q u \<or> (q = pid \<and> u = uid)" by simp
qed

definition join_party :: "party_session \<Rightarrow> string \<Rightarrow> party_member \<Rightarrow> party_session" where
  "join_party p uid mem = p\<lparr>Members := fmupd uid mem (Members p),
     JoinRequests := fmdrop uid (JoinRequests p)\<rparr>"

lemma join_party_fields [simp]:
  "Members (join_party p uid mem) = fmupd uid mem (Members p)"
  "JoinRequests (join_party p uid mem) = fmdrop uid (JoinRequests p)"
  "PartyID (join_party p uid mem) = PartyID p" "Closed (join_party p uid mem) = Closed p"
  "PMaxSize (join_party p uid mem) = PMaxSize p" "LeaderID (join_party p uid mem) = LeaderID p"
  by (simp_all add: join_party_def)

lemma party_ok_join:
  assumes ok: "party_ok cfg pid p" and room: "int (mlen (Members p)) < PMaxSize p"
    and mem: "MUserID mem = uid"
  shows "party_ok cfg pid (join_party p uid mem)"
proof (rule party_okI)
  note f = party_ok_fields [OF ok]
  show "pid \<noteq> []" "PartyID (join_party p uid mem) = pid" "\<not> Closed (join_party p uid mem)"
    "LeaderID (join_party p uid mem) |\<in>| fmdom (Members (join_party p uid mem))"
    "1 \<le> PMaxSize (join_party p uid mem)" "PMaxSize (join_party p uid mem) \<le> CfgAbsoluteMaxSize cfg"
    using f(1-4,7,8) by simp_all
  show "MUserID m = u" if "fmlookup (Members (join_party p uid mem)) u = Some m" for u m
    using that f(5) [of u m] mem by (simp split: if_splits)
  show "JUserID j = u" if "fmlookup (JoinRequests (join_party p uid mem)) u = Some j" for u j
    using that f(6) [of u j] by (simp split: if_splits)
  show "int (mlen (Members (join_party p uid mem))) \<le> PMaxSize (join_party p uid mem)"
    using room by (simp add: mlen_fmupd)
  show "int (mlen (JoinRequests (join_party p uid mem))) \<le> PMaxSize (join_party p uid mem)"
    using f(10) mlen_fmdrop_le [of uid "JoinRequests p"] by simp
  show False if "fmlookup (Members (join_party p uid mem)) u = Some m"
    "fmlookup (JoinRequests (join_party p uid mem)) u = Some j" for u m j
    using that party_ok_disjoint [OF ok, of u m] by (simp split: if_splits)
qed

lemma alone_by_user:
  assumes "reg_wf r" "SingleParty (pcfg r)" "\<And>q. fmlookup (pByUser r) u = Some q \<Longrightarrow> q = pid"
    "\<not> in_party r pid u"
  shows "\<not> in_party r q u"
  using assms by (auto simp: reg_wf_def)

text \<open>A party with its members' sessions unchanged: the registry keeps its invariant.\<close>

lemma inv_set_same:
  assumes inv: "reg_inv own r" and p: "fmlookup (parties r) pid = Some p"
    and ok: "party_ok (pcfg r) pid p'"
    and mem: "\<forall>u. map_option MSessionID (fmlookup (Members p') u) =
                  map_option MSessionID (fmlookup (Members p) u)"
    and req: "\<forall>u j. fmlookup (JoinRequests p') u = Some j \<longrightarrow> own (JSessionID j) = u"
  shows "reg_inv own (set_party r pid p')"
  using inv wf_set_same_members [OF _ p ok mem] sess_owned_same [OF _ p mem req]
  by (simp add: reg_inv_def)

lemma in_party_same:
  assumes "fmlookup (parties r) pid = Some p" "fmdom (Members p') = fmdom (Members p)"
  shows "in_party (set_party r pid p') q u = in_party r q u"
  using assms by (cases "q = pid") (simp_all add: in_party_def)

text \<open>Installing a new member, as an open \<open>Join\<close> and an \<open>Accept\<close> do.\<close>

lemma inv_join_member:
  assumes inv: "reg_inv own r" and x: "fmlookup (parties r) pid = Some x"
    and same: "Members p = Members x" "JoinRequests p = JoinRequests x"
    and ok: "party_ok (pcfg r) pid p" and nm: "fmlookup (Members p) uid = None"
    and room: "int (mlen (Members p)) < PMaxSize p"
    and mem: "MUserID mem = uid" "own (MSessionID mem) = uid"
    and alone: "SingleParty (pcfg r) \<Longrightarrow> \<forall>q. \<not> in_party r q uid"
    and r1: "r1 = (set_party r pid (join_party p uid mem))\<lparr>
         pByUser := fmupd uid pid (pByUser r), pBySess := fmupd (MSessionID mem) pid (pBySess r)\<rparr>"
  shows "reg_inv own r1" and "in_party r1 q u \<longleftrightarrow> in_party r q u \<or> (q = pid \<and> u = uid)"
    and "pcfg r1 = pcfg r"
proof -
  have prem: "pcfg r1 = pcfg r" "parties r1 = fmupd pid (join_party p uid mem) (parties r)"
    "party_ok (pcfg r) pid (join_party p uid mem)"
    "Members (join_party p uid mem) = fmupd uid mem (Members p)"
    by (simp_all add: r1 party_ok_join [OF ok room mem(1)])
  have old: "Members y = Members p \<and> fmlookup (Members p) uid = None \<and>
       (\<forall>u j. fmlookup (JoinRequests (join_party p uid mem)) u = Some j \<longrightarrow>
              fmlookup (JoinRequests y) u = Some j)"
    if "fmlookup (parties r) pid = Some y" for y
    using that x nm same by auto
  have bu: "pByUser r1 = fmupd uid pid (pByUser r)"
    "pBySess r1 = fmupd (MSessionID mem) pid (pBySess r)" by (simp_all add: r1)
  note add = inv_add_member [OF inv prem mem old _ bu alone]
  show "reg_inv own r1" by (rule add(1)) (use x in auto)
  show "in_party r1 q u \<longleftrightarrow> in_party r q u \<or> (q = pid \<and> u = uid)" by (rule add(2)) (use x in auto)
  show "pcfg r1 = pcfg r" by fact
qed

text \<open>Queueing a join request, as a closed \<open>Join\<close> does.\<close>

lemma party_ok_request:
  assumes ok: "party_ok cfg pid p" and nm: "fmlookup (Members p) uid = None"
    and room: "int (mlen (JoinRequests p)) < PMaxSize p" and jr: "JUserID jr = uid"
  shows "party_ok cfg pid (p\<lparr>JoinRequests := fmupd uid jr (JoinRequests p)\<rparr>)" (is "party_ok _ _ ?p")
proof (rule party_okI)
  note f = party_ok_fields [OF ok]
  show "pid \<noteq> []" "PartyID ?p = pid" "\<not> Closed ?p" "LeaderID ?p |\<in>| fmdom (Members ?p)"
    "1 \<le> PMaxSize ?p" "PMaxSize ?p \<le> CfgAbsoluteMaxSize cfg"
    "int (mlen (Members ?p)) \<le> PMaxSize ?p" using f(1-4,7-9) by simp_all
  show "MUserID m = u" if "fmlookup (Members ?p) u = Some m" for u m
    using that f(5) [of u m] by simp
  show "JUserID j = u" if "fmlookup (JoinRequests ?p) u = Some j" for u j
    using that f(6) [of u j] jr by (simp split: if_splits)
  show "int (mlen (JoinRequests ?p)) \<le> PMaxSize ?p"
    using room by (simp add: mlen_fmupd)
  show False if "fmlookup (Members ?p) u = Some m" "fmlookup (JoinRequests ?p) u = Some j" for u m j
    using that party_ok_disjoint [OF ok, of u m] nm by (simp split: if_splits)
qed

lemma inv_join_request:
  assumes inv: "reg_inv own r" and x: "fmlookup (parties r) pid = Some x"
    and same: "Members p = Members x" "JoinRequests p = JoinRequests x"
    and ok: "party_ok (pcfg r) pid p" and nm: "fmlookup (Members p) uid = None"
    and room: "int (mlen (JoinRequests p)) < PMaxSize p"
    and jr: "JUserID jr = uid" "own (JSessionID jr) = uid"
  shows "reg_inv own (set_party r pid (p\<lparr>JoinRequests := fmupd uid jr (JoinRequests p)\<rparr>))"
proof (rule inv_set_same [OF inv x party_ok_request [OF ok nm room jr(1)]])
  have "sess_owned own r" using inv by (simp add: reg_inv_def)
  then show "\<forall>u j. fmlookup (JoinRequests (p\<lparr>JoinRequests := fmupd uid jr (JoinRequests p)\<rparr>)) u = Some j
      \<longrightarrow> own (JSessionID j) = u"
    using sess_owned_request [OF _ x] jr(2) same by simp
qed (simp add: same)

text \<open>
  What \<open>Join\<close> does, read off its branches: an error after the liveness check keeps everything but
  the activity stamp.
\<close>

definition join_busy :: "party_registry \<Rightarrow> string \<Rightarrow> string \<Rightarrow> bool" where
  "join_busy r pid uid \<longleftrightarrow> SingleParty (pcfg r) \<and>
     (case fmlookup (pByUser r) uid of Some prevID \<Rightarrow> prevID \<noteq> pid | None \<Rightarrow> False)"

lemma Join_cases:
  assumes "Join now r pid uid name sess = (r', res)"
  obtains (missing) "find_party r pid = None" "r' = r" "res = Inl ErrPartyNotFound"
  | (failed) p e where "find_party r pid = Some p" "r' = set_party r pid (touch now p)" "res = Inl e"
  | (joined) p out where "find_party r pid = Some p" "fmlookup (Members p) uid = None"
      "\<not> join_busy r pid uid" "int (mlen (Members p)) < PMaxSize p" "POpen p"
      "res = Inr out" "Joined out"
      "r' = notifyMembershipChange ((set_party r pid (join_party (touch now p) uid
              \<lparr>MUserID = uid, MUsername = name, MSessionID = sess, MJoinedAt = now,
               MProperties = fmempty\<rparr>))\<lparr>
         pByUser := fmupd uid pid (pByUser r), pBySess := fmupd sess pid (pBySess r)\<rparr>) pid"
  | (requested) p out where "find_party r pid = Some p" "fmlookup (Members p) uid = None"
      "\<not> POpen p" "int (mlen (JoinRequests p)) < PMaxSize p" "res = Inr out" "\<not> Joined out"
      "r' = set_party r pid ((touch now p)\<lparr>JoinRequests := fmupd uid
              \<lparr>JUserID = uid, JUsername = name, JSessionID = sess, JRequested = now\<rparr>
              (JoinRequests (touch now p))\<rparr>)"
proof (cases "find_party r pid")
  case None
  with assms show thesis by (intro missing) (simp_all add: Join_def)
next
  case (Some p)
  note step = assms [unfolded Join_def Some option.case Let_def, folded join_busy_def, simplified]
  consider "fmlookup (Members p) uid \<noteq> None \<or> join_busy r pid uid \<or> int (mlen (Members p)) \<ge> PMaxSize p"
    | "fmlookup (Members p) uid = None" "\<not> join_busy r pid uid" "int (mlen (Members p)) < PMaxSize p"
      "POpen p"
    | "fmlookup (Members p) uid = None" "\<not> join_busy r pid uid" "int (mlen (Members p)) < PMaxSize p"
      "\<not> POpen p" "fmlookup (JoinRequests p) uid \<noteq> None \<or> int (mlen (JoinRequests p)) \<ge> PMaxSize p"
    | "fmlookup (Members p) uid = None" "\<not> join_busy r pid uid" "int (mlen (Members p)) < PMaxSize p"
      "\<not> POpen p" "fmlookup (JoinRequests p) uid = None" "int (mlen (JoinRequests p)) < PMaxSize p"
    by linarith
  then show thesis
  proof cases
    case 1
    with step Some show thesis by (auto intro: failed split: if_splits)
  next
    case 2
    with step Some show thesis by (intro joined [of p]) (auto simp: join_party_def)
  next
    case 3
    with step Some show thesis by (auto intro: failed split: if_splits)
  next
    case 4
    with step Some show thesis by (intro requested [of p]) auto
  qed
qed

lemma Join_inv:
  assumes inv: "reg_inv own r" and sess: "own sess = uid"
    and step: "Join now r pid uid name sess = (r', res)"
  shows "reg_inv own r' \<and> pcfg r' = pcfg r \<and>
    (\<forall>q u. in_party r' q u \<longleftrightarrow>
       in_party r q u \<or> q = pid \<and> u = uid \<and> (\<exists>out. res = Inr out \<and> Joined out))"
  using step
proof (cases rule: Join_cases)
  case missing
  with inv show ?thesis by auto
next
  case (failed p e)
  note p = find_partyD [OF failed(1)]
  have "in_party r' q u = in_party r q u" for q u
    unfolding failed(2) by (rule in_party_same [OF p]) simp
  with failed inv_touch [OF inv p] show ?thesis by auto
next
  case (joined p out)
  note p = find_partyD [OF joined(1)]
  have wf: "reg_wf r" using inv by (simp add: reg_inv_def)
  have ok: "party_ok (pcfg r) pid (touch now p)" using reg_wf_party [OF wf p] by simp
  have nin: "\<not> in_party r pid uid" using joined(2) p by (simp add: in_party_def fmdom_notI)
  have alone: "\<forall>q. \<not> in_party r q uid" if single: "SingleParty (pcfg r)"
  proof (intro allI alone_by_user [OF wf single _ nin])
    show "q = pid" if "fmlookup (pByUser r) uid = Some q" for q
      using joined(3) single that by (simp add: join_busy_def)
  qed
  note add = inv_join_member [OF inv p _ _ ok, of uid
      "\<lparr>MUserID = uid, MUsername = name, MSessionID = sess, MJoinedAt = now, MProperties = fmempty\<rparr>",
      OF _ _ _ _ _ _ alone refl]
  show ?thesis
    using joined sess add by simp
next
  case (requested p out)
  note p = find_partyD [OF requested(1)]
  have ok: "party_ok (pcfg r) pid (touch now p)"
    using reg_wf_party [OF _ p] inv by (simp add: reg_inv_def)
  have "reg_inv own r'"
    unfolding requested(7)
    by (rule inv_join_request [OF inv p _ _ ok]) (use requested sess in simp_all)
  moreover have "in_party r' q u = in_party r q u" for q u
    unfolding requested(7) by (rule in_party_same [OF p]) simp
  ultimately show ?thesis using requested by auto
qed

end
