(* ===== verification/Party_Steps.thy ===== *)
theory Party_Steps
  imports Party_Ops
begin

section \<open>Party registry: reachable states and the promises of the operations\<close>

text \<open>
  The remaining operations, the step relation \<open>party_step\<close> over all of them, and the properties:
  the invariant of reachable registries, one party per user, who may change a party, what a
  leave does to the leadership, and what paging through the discovery list visits.
\<close>

subsection \<open>Creating and accepting\<close>

lemma Create_cases:
  assumes "Create ord jf now uuid r uid name sess opn hidden maxSize label = (r', res)"
  obtains (rejected) e where "r' = r" "res = Inl e"
  | (created) r1 p where
      "r1 = (if SingleParty (pcfg r)
             then (case fmlookup (pByUser r) uid of
                     Some prevID \<Rightarrow> fst (leaveLocked ord now r prevID uid) | None \<Rightarrow> r)
             else r)"
      "1 \<le> PMaxSize p" "PMaxSize p \<le> CfgAbsoluteMaxSize (pcfg r)"
      "PartyID p = uuid @ ''.'' @ CfgNode (pcfg r1)" "LeaderID p = uid" "\<not> Closed p"
      "Members p = fmupd uid \<lparr>MUserID = uid, MUsername = name, MSessionID = sess, MJoinedAt = now,
                              MProperties = fmempty\<rparr> fmempty" "JoinRequests p = fmempty"
      "r' = r1\<lparr>parties := fmupd (PartyID p) p (parties r1),
               pByUser := fmupd uid (PartyID p) (pByUser r1),
               pBySess := fmupd sess (PartyID p) (pBySess r1)\<rparr>"
      "res = Inr (cloneParty p)"
proof -
  define ms where "ms = (if maxSize = 0 then CfgDefaultMaxSize (pcfg r) else maxSize)"
  consider "ms < 1 \<or> CfgAbsoluteMaxSize (pcfg r) < ms"
    | e where "1 \<le> ms" "ms \<le> CfgAbsoluteMaxSize (pcfg r)"
        "validateLabel jf (normalizeLabel label) hidden = Some e"
    | "1 \<le> ms" "ms \<le> CfgAbsoluteMaxSize (pcfg r)" "validateLabel jf (normalizeLabel label) hidden = None"
    by (cases "validateLabel jf (normalizeLabel label) hidden")
       (meson linorder_not_less)+
  then show thesis
  proof cases
    case 3
    show thesis
      by (rule created [OF refl], insert assms [symmetric] 3)
         (simp_all add: Create_def Let_def ms_def [symmetric])
  qed (insert assms, auto intro: rejected simp: Create_def Let_def ms_def)
qed

lemma drop_user_first:
  assumes ord: "valid_order ord" and inv: "reg_inv own r"
    and r1: "r1 = (if SingleParty (pcfg r)
             then (case fmlookup (pByUser r) uid of
                     Some prevID \<Rightarrow> fst (leaveLocked ord now r prevID uid) | None \<Rightarrow> r)
             else r)"
  shows "reg_inv own r1" "pcfg r1 = pcfg r" "SingleParty (pcfg r) \<Longrightarrow> \<not> in_party r1 q uid"
    "u \<noteq> uid \<Longrightarrow> in_party r1 q u = in_party r q u"
    "\<not> SingleParty (pcfg r) \<Longrightarrow> r1 = r"
    "fmlookup (parties r) pid = None \<Longrightarrow> fmlookup (parties r1) pid = None"
proof -
  have wf: "reg_wf r" using inv by (simp add: reg_inv_def)
  have eq: "fmlookup (pByUser r) u = Some q \<longleftrightarrow> in_party r q u" if "SingleParty (pcfg r)" for u q
    using wf that by (simp add: reg_wf_def)
  show "reg_inv own r1" "pcfg r1 = pcfg r" "u \<noteq> uid \<Longrightarrow> in_party r1 q u = in_party r q u"
    "\<not> SingleParty (pcfg r) \<Longrightarrow> r1 = r"
    using inv leave_inv [OF ord inv refl] by (auto simp: r1 split: option.split)
  show "\<not> in_party r1 q uid" if single: "SingleParty (pcfg r)"
  proof (cases "fmlookup (pByUser r) uid")
    case None
    with single have "r1 = r" by (simp add: r1)
    with eq [OF single, of uid q] None show ?thesis by simp
  next
    case (Some a)
    with single have r1': "r1 = fst (leaveLocked ord now r a uid)" by (simp add: r1)
    have "in_party r q uid \<longleftrightarrow> q = a" using eq [OF single, of uid q] Some by auto
    then show ?thesis using leave_inv(2) [OF ord inv r1'] by auto
  qed
  show "fmlookup (parties r1) pid = None" if none: "fmlookup (parties r) pid = None"
  proof (cases "SingleParty (pcfg r) \<and> fmlookup (pByUser r) uid = Some pid")
    case True
    then have "in_party r pid uid" using eq by simp
    with none show ?thesis by (simp add: in_party_def)
  next
    case False
    then show ?thesis using none leave_inv(4) [OF ord inv refl, of pid _ now uid]
      by (auto simp: r1 split: option.split)
  qed
qed

lemma Create_inv:
  assumes ord: "valid_order ord" and inv: "reg_inv own r" and sess: "own sess = uid"
    and fresh: "fmlookup (parties r) (uuid @ ''.'' @ CfgNode (pcfg r)) = None"
    and step: "Create ord jf now uuid r uid name sess opn hidden maxSize label = (r', res)"
  shows "reg_inv own r' \<and> pcfg r' = pcfg r"
  using step
proof (cases rule: Create_cases)
  case (rejected e)
  with inv show ?thesis by simp
next
  case (created r1 p)
  note d = drop_user_first [OF ord inv created(1)]
  let ?m = "\<lparr>MUserID = uid, MUsername = name, MSessionID = sess, MJoinedAt = now,
             MProperties = fmempty\<rparr>"
  have pid: "PartyID p = uuid @ ''.'' @ CfgNode (pcfg r)" using created(4) d(2) by simp
  have none: "fmlookup (parties r1) (PartyID p) = None"
    unfolding pid by (rule d(6) [OF fresh])
  have ok: "party_ok (pcfg r1) (PartyID p) p"
  proof (rule party_okI)
    show "PartyID p \<noteq> []" by (simp add: pid)
    show "MUserID m = u" if "fmlookup (Members p) u = Some m" for u m
      using that created(7) by (auto split: if_splits)
  qed (use created(2,3,5,6,7,8) d(2) in \<open>simp_all add: mlen_fmupd\<close>)
  have "reg_inv own r'"
    by (rule inv_add_member(1) [OF d(1) _ _ ok created(7)])
       (use created sess none d in simp_all)
  then show ?thesis using created d by simp
qed


lemma requireLeader_party:
  "reg_inv own r \<Longrightarrow> requireLeader r pid sess = Inr p \<Longrightarrow> fmlookup (parties r) pid = Some p"
  by (auto simp: reg_inv_def dest: requireLeader_Inr)

lemma Accept_cases:
  assumes "Accept ord now r pid lsess target = (r', res)"
  obtains (refused) e where "requireLeader r pid lsess = Inl e" "r' = r" "res = Inl e"
  | (failed) p e where "requireLeader r pid lsess = Inr p" "r' = set_party r pid (touch now p)"
      "res = Inl e"
  | (accepted) p jr r1 mem where "requireLeader r pid lsess = Inr p"
      "int (mlen (Members p)) < PMaxSize p"
      "fmlookup (JoinRequests p) (TUserID target) = Some jr" "JSessionID jr = TSessionID target"
      "r1 = (if SingleParty (pcfg r)
             then (case fmlookup (pByUser r) (JUserID jr) of
                     Some prevID \<Rightarrow> if prevID \<noteq> pid
                       then fst (leaveLocked ord now (set_party r pid (touch now p)) prevID (JUserID jr))
                       else set_party r pid (touch now p)
                   | None \<Rightarrow> set_party r pid (touch now p))
             else set_party r pid (touch now p))"
      "mem = \<lparr>MUserID = JUserID jr, MUsername = JUsername jr, MSessionID = JSessionID jr,
              MJoinedAt = now, MProperties = fmempty\<rparr>"
      "r' = notifyMembershipChange
         ((set_party r1 pid ((touch now p)\<lparr>JoinRequests := fmdrop (TUserID target) (JoinRequests p),
             Members := fmupd (JUserID jr) mem (Members p)\<rparr>))
           \<lparr>pByUser := fmupd (JUserID jr) pid (pByUser r1),
            pBySess := fmupd (JSessionID jr) pid (pBySess r1)\<rparr>) pid"
      "is_ok res"
proof (cases "requireLeader r pid lsess")
  case (Inl e)
  with assms show thesis by (intro refused [of e]) (simp_all add: Accept_def)
next
  case (Inr p)
  note step = assms [unfolded Accept_def Inr sum.case Let_def, simplified]
  show thesis
  proof (cases "int (mlen (Members p)) < PMaxSize p \<and>
      (\<exists>jr. fmlookup (JoinRequests p) (TUserID target) = Some jr \<and> JSessionID jr = TSessionID target)")
    case False
    with step Inr show thesis by (auto intro!: failed split: if_splits option.splits)
  next
    case True
    then obtain jr where "int (mlen (Members p)) < PMaxSize p"
      "fmlookup (JoinRequests p) (TUserID target) = Some jr" "JSessionID jr = TSessionID target" by blast
    with step Inr show thesis
      by (intro accepted [of p jr, OF _ _ _ _ refl refl]) (auto simp: notifyMembershipChange_def)
  qed
qed

lemma Accept_inv:
  assumes ord: "valid_order ord" and inv: "reg_inv own r"
    and step: "Accept ord now r pid lsess target = (r', res)"
  shows "reg_inv own r' \<and> pcfg r' = pcfg r"
  using step
proof (cases rule: Accept_cases)
  case (refused e)
  with inv show ?thesis by simp
next
  case (failed p e)
  with inv_touch [OF inv requireLeader_party [OF inv failed(1)]] show ?thesis by simp
next
  case (accepted p jr r1 mem)
  note p = requireLeader_party [OF inv accepted(1)]
  have wf: "reg_wf r" and so: "sess_owned own r" using inv by (auto simp: reg_inv_def)
  note f = party_ok_fields [OF reg_wf_party [OF wf p]]
  have uid: "JUserID jr = TUserID target" using f(6) [OF accepted(3)] .
  have nm: "fmlookup (Members p) (JUserID jr) = None"
    using party_ok_disjoint [OF reg_wf_party [OF wf p]] accepted(3) uid
    by (cases "fmlookup (Members p) (TUserID target)") auto
  define r0 where "r0 = set_party r pid (touch now p)"
  have inv0: "reg_inv own r0" unfolding r0_def by (rule inv_touch [OF inv p])
  have r1: "r1 = (if SingleParty (pcfg r0)
             then (case fmlookup (pByUser r0) (JUserID jr) of
                     Some prevID \<Rightarrow> fst (leaveLocked ord now r0 prevID (JUserID jr)) | None \<Rightarrow> r0)
             else r0)" and notpid: "SingleParty (pcfg r) \<Longrightarrow> fmlookup (pByUser r) (JUserID jr) \<noteq> Some pid"
  proof -
    show notpid: "fmlookup (pByUser r) (JUserID jr) \<noteq> Some pid" if "SingleParty (pcfg r)"
    proof
      assume "fmlookup (pByUser r) (JUserID jr) = Some pid"
      then have "in_party r pid (JUserID jr)" using wf that by (simp add: reg_wf_def)
      with p nm show False by (auto simp: in_party_def fmlookup_dom_iff)
    qed
    then show "r1 = (if SingleParty (pcfg r0)
             then (case fmlookup (pByUser r0) (JUserID jr) of
                     Some prevID \<Rightarrow> fst (leaveLocked ord now r0 prevID (JUserID jr)) | None \<Rightarrow> r0)
             else r0)"
      by (auto simp: accepted(5) r0_def split: option.split)
  qed
  note d = drop_user_first [OF ord inv0 r1]
  have here: "fmlookup (parties r1) pid = Some (touch now p)"
    using leave_inv(4) [OF ord inv0 refl, of pid _ now "JUserID jr"] notpid
    by (auto simp: r1 r0_def split: option.split)
  have x: "reg_inv own ((set_party r1 pid (join_party (touch now p) (JUserID jr) mem))\<lparr>
         pByUser := fmupd (JUserID jr) pid (pByUser r1),
         pBySess := fmupd (MSessionID mem) pid (pBySess r1)\<rparr>)"
  proof (rule inv_join_member(1) [OF d(1) here refl refl _ _ _ _ _ _ refl])
    show "party_ok (pcfg r1) pid (touch now p)" using reg_wf_party [OF wf p] d(2) by (simp add: r0_def)
    show "own (MSessionID mem) = JUserID jr"
      using sess_owned_request [OF so p accepted(3)] uid by (simp add: accepted(6))
    show "SingleParty (pcfg r1) \<Longrightarrow> \<forall>q. \<not> in_party r1 q (JUserID jr)" using d(2,3) by simp
  qed (use nm accepted(2,6) in simp_all)
  have eq: "(touch now p)\<lparr>JoinRequests := fmdrop (TUserID target) (JoinRequests p),
             Members := fmupd (JUserID jr) mem (Members p)\<rparr> = join_party (touch now p) (JUserID jr) mem"
    by (simp add: join_party_def uid)
  from x show ?thesis using d(2) by (simp add: accepted(7) eq) (simp add: accepted(6) r0_def)
qed


subsection \<open>Operations of the leader on an existing party\<close>

lemma inv_same_people:
  assumes inv: "reg_inv own r" and p: "fmlookup (parties r) pid = Some p"
    and same: "Members p' = Members p" "JoinRequests p' = JoinRequests p" "PartyID p' = PartyID p"
      "Closed p' = Closed p" "PMaxSize p' = PMaxSize p"
    and leader: "LeaderID p' |\<in>| fmdom (Members p)"
  shows "reg_inv own (set_party r pid p')"
proof (rule inv_set_same [OF inv p])
  have ok: "party_ok (pcfg r) pid p" using inv p by (auto simp: reg_inv_def dest: reg_wf_party)
  then show "party_ok (pcfg r) pid p'" using leader by (simp add: party_ok_def same)
  show "\<forall>u j. fmlookup (JoinRequests p') u = Some j \<longrightarrow> own (JSessionID j) = u"
    using inv p by (auto simp: same reg_inv_def dest: sess_owned_request)
qed (simp add: same)

lemma Promote_inv:
  assumes inv: "reg_inv own r" and step: "Promote now r pid lsess target = (r', res)"
  shows "reg_inv own r' \<and> pcfg r' = pcfg r"
proof (cases "requireLeader r pid lsess")
  case (Inl e)
  with inv step show ?thesis by (simp add: Promote_def)
next
  case (Inr p)
  note p = requireLeader_party [OF inv Inr]
  have ok: "party_ok (pcfg r) pid p" using inv p by (auto simp: reg_inv_def dest: reg_wf_party)
  have lead: "LeaderID p |\<in>| fmdom (Members p)" by (rule party_ok_fields(4) [OF ok])
  show ?thesis
  proof (cases "\<exists>m. fmlookup (Members p) (TUserID target) = Some m \<and> MSessionID m = TSessionID target")
    case False
    with step Inr have "r' = set_party r pid (touch now p)"
      by (auto simp: Promote_def Let_def split: option.splits if_splits)
    with inv_touch [OF inv p] show ?thesis by simp
  next
    case True
    then obtain m where m: "fmlookup (Members p) (TUserID target) = Some m"
      "MSessionID m = TSessionID target" by blast
    then have "MUserID m |\<in>| fmdom (Members p)" using party_ok_fields(5) [OF ok m(1)] by (auto intro: fmdomI)
    moreover have "r' = set_party r pid ((touch now p)\<lparr>LeaderID := MUserID m\<rparr>)"
      using step Inr m by (simp add: Promote_def Let_def)
    ultimately show ?thesis using inv_same_people [OF inv p] by simp
  qed
qed

lemma UpdateParty_inv:
  assumes inv: "reg_inv own r" and step: "UpdateParty jf now r pid lsess label opn hidden = (r', res)"
  shows "reg_inv own r' \<and> pcfg r' = pcfg r"
proof (cases "requireLeader r pid lsess")
  case (Inl e)
  with inv step show ?thesis by (simp add: UpdateParty_def)
next
  case (Inr p)
  note p = requireLeader_party [OF inv Inr]
  have lead: "LeaderID p |\<in>| fmdom (Members p)"
    using inv p by (auto simp: reg_inv_def party_ok_def dest: reg_wf_party)
  show ?thesis
  proof (cases "validateLabel jf (normalizeLabel label) hidden")
    case None
    then have "r' = set_party r pid
        ((touch now p)\<lparr>POpen := opn, PHidden := hidden, PLabel := normalizeLabel label\<rparr>)"
      using step Inr by (simp add: UpdateParty_def Let_def)
    with inv_same_people [OF inv p] lead show ?thesis by simp
  qed (use inv step Inr in \<open>simp add: UpdateParty_def Let_def\<close>)
qed

lemma UpdateMemberProperties_inv:
  assumes inv: "reg_inv own r" and step: "UpdateMemberProperties now r pid uid props = (r', res)"
  shows "reg_inv own r' \<and> pcfg r' = pcfg r"
proof (cases "\<exists>p m. find_party r pid = Some p \<and> fmlookup (Members p) uid = Some m")
  case False
  with inv step show ?thesis by (auto simp: UpdateMemberProperties_def split: option.splits)
next
  case True
  then obtain p m where fp: "find_party r pid = Some p" and m: "fmlookup (Members p) uid = Some m" by blast
  note p = find_partyD [OF fp]
  define p1 where "p1 = touch now (p\<lparr>Members := fmupd uid (m\<lparr>MProperties := MProperties m ++\<^sub>f props\<rparr>)
                                              (Members p)\<rparr>)"
  have r': "r' = set_party r pid p1"
    using step fp m by (simp add: UpdateMemberProperties_def p1_def Let_def)
  have ok: "party_ok (pcfg r) pid p" using inv p by (auto simp: reg_inv_def dest: reg_wf_party)
  note f = party_ok_fields [OF ok]
  have "reg_inv own (set_party r pid p1)"
  proof (rule inv_set_same [OF inv p])
    have mem: "fmdom (Members p1) = fmdom (Members p)" "mlen (Members p1) = mlen (Members p)"
      using fmdomI [OF m] by (auto simp: p1_def mlen_fmupd_old [OF m])
    have "fmpred (\<lambda>u m. MUserID m = u) (Members p1)"
      using f(5) [OF m] f(5) by (auto simp: p1_def intro!: fmpred_upd)
    with ok mem show "party_ok (pcfg r) pid p1" by (simp add: party_ok_def) (simp add: p1_def)
    show "\<forall>u. map_option MSessionID (fmlookup (Members p1) u) =
              map_option MSessionID (fmlookup (Members p) u)"
      using m by (simp add: p1_def)
    show "\<forall>u j. fmlookup (JoinRequests p1) u = Some j \<longrightarrow> own (JSessionID j) = u"
      using inv p by (auto simp: p1_def reg_inv_def dest: sess_owned_request)
  qed
  then show ?thesis by (simp add: r')
qed

lemma Remove_inv:
  assumes inv: "reg_inv own r" and step: "Remove now r pid lsess target = (r', res)"
  shows "reg_inv own r' \<and> pcfg r' = pcfg r"
proof (cases "requireLeader r pid lsess")
  case (Inl e)
  with inv step show ?thesis by (simp add: Remove_def)
next
  case (Inr p)
  note p = requireLeader_party [OF inv Inr]
  have wf: "reg_wf r" and so: "sess_owned own r" using inv by (auto simp: reg_inv_def)
  note ok = reg_wf_party [OF wf p]
  note f = party_ok_fields [OF ok]
  obtain l where l: "fmlookup (Members p) (LeaderID p) = Some l" "MUserID l = LeaderID p"
    using f(4,5) by (auto simp: fmlookup_dom_iff)
  note step' = step [unfolded Remove_def Inr sum.case Let_def, simplified, unfolded l option.case]
  consider (err) "r' = set_party r pid (touch now p)"
    | (reject) "r' = set_party r pid ((touch now p)\<lparr>JoinRequests := fmdrop (TUserID target) (JoinRequests (touch now p))\<rparr>)"
    | (kick) m where "fmlookup (Members p) (TUserID target) = Some m" "MSessionID m = TSessionID target"
        "TUserID target \<noteq> LeaderID p"
        "r' = notifyMembershipChange ((set_party r pid ((touch now p)\<lparr>Members := fmdrop (TUserID target) (Members p)\<rparr>))
           \<lparr>pByUser := fmdrop (MUserID m) (pByUser r), pBySess := fmdrop (MSessionID m) (pBySess r)\<rparr>) pid"
  proof (cases "\<exists>m. fmlookup (Members p) (TUserID target) = Some m \<and> MSessionID m = TSessionID target")
    case True
    then obtain m where m: "fmlookup (Members p) (TUserID target) = Some m"
      "MSessionID m = TSessionID target" by blast
    with step' l that show thesis
      by (cases "TUserID target = LeaderID p") (auto split: if_splits option.splits)
  next
    case False
    with step' that show thesis by (auto split: if_splits option.splits)
  qed
  then show ?thesis
  proof cases
    case err
    with inv_touch [OF inv p] show ?thesis by simp
  next
    case reject
    with inv_drop_request [OF inv p, of "touch now p" now "TUserID target"] show ?thesis by simp
  next
    case (kick m)
    let ?u = "TUserID target"
    let ?p = "(touch now p)\<lparr>Members := fmdrop ?u (Members p)\<rparr>"
    let ?r = "(set_party r pid ?p)\<lparr>pByUser := fmdrop (MUserID m) (pByUser r),
               pBySess := fmdrop (MSessionID m) (pBySess r)\<rparr>"
    have u: "MUserID m = ?u" by (rule f(5) [OF kick(1)])
    have ne: "fmdrop ?u (Members p) \<noteq> fmempty"
      using l(1) kick(3) by (auto simp: fmempty_iff_lookup)
    have okp: "party_ok (pcfg r) pid ?p"
      by (rule party_ok_leave [OF ok kick(1) ne]) (use f(4) kick(3) in simp_all)
    have "reg_wf ?r \<and> (\<forall>q v. in_party ?r q v \<longleftrightarrow> in_party r q v \<and> (q = pid \<longrightarrow> v \<noteq> ?u))"
      by (rule wf_remove_member [OF wf p kick(1)]) (use okp u in \<open>auto simp del: fmdrop_comm\<close>)
    moreover have "sess_owned own ?r"
      by (rule sess_owned_remove [OF wf so p kick(1)]) (use u in auto)
    ultimately show ?thesis using kick(4) by (simp add: reg_inv_def)
  qed
qed


lemma Close_cases:
  assumes "Close r pid lsess = (r', res)"
  obtains (refused) e where "requireLeader r pid lsess = Inl e" "r' = r" "res = Inl e"
  | (closed) p where "requireLeader r pid lsess = Inr p" "res = Inr (cloneParty p)"
      "r' = notifyMembershipChange (r\<lparr>
             pByUser := fmdrop_fset (MUserID |`| fmran (Members p)) (pByUser r),
             pBySess := fmdrop_fset (MSessionID |`| fmran (Members p)) (pBySess r),
             parties := fmdrop pid (parties r)\<rparr>) pid"
  using assms by (cases "requireLeader r pid lsess") (auto simp: Close_def Let_def)

lemma Close_inv:
  assumes inv: "reg_inv own r" and step: "Close r pid lsess = (r', res)"
  shows "reg_inv own r' \<and> pcfg r' = pcfg r"
  using step
proof (cases rule: Close_cases)
  case (refused e)
  with inv show ?thesis by simp
next
  case (closed p)
  note p = requireLeader_party [OF inv closed(1)]
  have wf: "reg_wf r" and so: "sess_owned own r" using inv by (auto simp: reg_inv_def)
  note f = party_ok_fields [OF reg_wf_party [OF wf p]]
  define U where "U = MUserID |`| fmran (Members p)"
  define S where "S = MSessionID |`| fmran (Members p)"
  let ?r = "r\<lparr>pByUser := fmdrop_fset U (pByUser r), pBySess := fmdrop_fset S (pBySess r),
              parties := fmdrop pid (parties r)\<rparr>"
  have U: "u |\<in>| U \<longleftrightarrow> in_party r pid u" for u
    unfolding U_def
  proof
    assume "u |\<in>| MUserID |`| fmran (Members p)"
    then obtain v m where m: "fmlookup (Members p) v = Some m" "MUserID m = u" by (auto elim: fmranE)
    with f(5) [OF m(1)] show "in_party r pid u" using in_partyI [OF p] by auto
  next
    assume "in_party r pid u"
    with p obtain m where m: "fmlookup (Members p) u = Some m" by (auto elim: in_partyE)
    with f(5) [OF m] show "u |\<in>| MUserID |`| fmran (Members p)" by (auto intro: fmranI rev_fimage_eqI)
  qed
  have S: "s |\<in>| S \<longleftrightarrow> has_session r pid s" for s
    using p unfolding S_def by (auto simp: has_session_def elim!: fmranE intro: fmranI rev_fimage_eqI)
  have inp: "in_party ?r q u \<longleftrightarrow> in_party r q u \<and> q \<noteq> pid" for q u
    by (auto simp: in_party_def)
  have hs: "has_session ?r q s \<longleftrightarrow> has_session r q s \<and> q \<noteq> pid" for q s
    by (auto simp: has_session_def)
  have "reg_wf ?r"
  proof -
    have "fmlookup (pByUser ?r) u = Some q \<longleftrightarrow> in_party ?r q u" if "SingleParty (pcfg r)" for u q
    proof -
      have "fmlookup (pByUser r) u = Some q \<longleftrightarrow> in_party r q u" using wf that by (simp add: reg_wf_def)
      then show ?thesis using one_party [OF wf that, of q u pid] by (auto simp: U inp)
    qed
    moreover have "has_session ?r q s" if "fmlookup (pBySess ?r) s = Some q" for q s
      using wf that by (auto simp: S hs reg_wf_def split: if_splits)
    ultimately show ?thesis using wf by (simp add: reg_wf_def fmpred_drop)
  qed
  moreover have "sess_owned own ?r"
    unfolding sess_owned_def
  proof (intro allI impI conjI)
    fix q x u m assume "fmlookup (parties ?r) q = Some x" and m: "fmlookup (Members x) u = Some m"
    then have x: "fmlookup (parties r) q = Some x" and q: "q \<noteq> pid" by (auto split: if_splits)
    show own: "own (MSessionID m) = u" by (rule sess_owned_member [OF so x m])
    assume "SingleParty (pcfg ?r)"
    then have single: "SingleParty (pcfg r)" by simp
    have "\<not> has_session r pid (MSessionID m)"
    proof
      assume "has_session r pid (MSessionID m)"
      with p obtain v mv where v: "fmlookup (Members p) v = Some mv" "MSessionID mv = MSessionID m"
        by (auto simp: has_session_def)
      then have "v = u" using own sess_owned_member [OF so p v(1)] by simp
      then show False using one_party [OF wf single in_partyI [OF p v(1)]] in_partyI [OF x m] q by auto
    qed
    then show "fmlookup (pBySess ?r) (MSessionID m) = Some q"
      using S sess_owned_indexed [OF so single x m] by simp
  qed (auto dest: sess_owned_request [OF so] split: if_splits)
  ultimately show ?thesis by (simp add: closed(3) reg_inv_def U_def S_def)
qed

subsection \<open>Disconnects and the idle sweep\<close>

text \<open>A disconnecting member's session resolves to the member, who then leaves.\<close>

lemma LeaveSession_member:
  assumes ord: "valid_order ord" and inv: "reg_inv own r" and user: "own sess \<noteq> []"
    and idx: "fmlookup (pBySess r) sess = Some pid"
  shows "LeaveSession ord now r sess = leaveLocked ord now r pid (own sess)"
    "in_party r pid (own sess)"
proof -
  have wf: "reg_wf r" and so: "sess_owned own r" using inv by (auto simp: reg_inv_def)
  have "has_session r pid sess" using wf idx by (simp add: reg_wf_def)
  then obtain p u m where p: "fmlookup (parties r) pid = Some p"
    and m: "fmlookup (Members p) u = Some m" "MSessionID m = sess" by (auto simp: has_session_def)
  note f = party_ok_fields [OF reg_wf_party [OF wf p]]
  let ?P = "\<lambda>u. case fmlookup (Members p) u of Some m \<Rightarrow> MSessionID m = sess | None \<Rightarrow> False"
  have "u \<in> set (ord (fmdom (Members p)))" "?P u"
    using valid_order_keys [OF ord] m by auto
  then obtain v where v: "find ?P (ord (fmdom (Members p))) = Some v" "?P v"
    by (metis find_None_iff find_Some_iff not_None_eq)
  then obtain mv where mv: "fmlookup (Members p) v = Some mv" "MSessionID mv = sess"
    by (auto split: option.splits)
  have "v = own sess" using sess_owned_member [OF so p mv(1)] mv(2) by simp
  moreover have "MUserID mv = v" by (rule f(5) [OF mv(1)])
  ultimately show "LeaveSession ord now r sess = leaveLocked ord now r pid (own sess)"
    using idx p v(1) mv user by (simp add: LeaveSession_def Let_def)
  show "in_party r pid (own sess)" using in_partyI [OF p mv(1)] \<open>v = own sess\<close> by simp
qed

lemma LeaveSession_inv:
  assumes ord: "valid_order ord" and inv: "reg_inv own r" and user: "own sess \<noteq> []"
    and step: "LeaveSession ord now r sess = (r', res)"
  shows "reg_inv own r' \<and> pcfg r' = pcfg r"
proof (cases "fmlookup (pBySess r) sess")
  case None
  with inv step show ?thesis by (simp add: LeaveSession_def)
next
  case (Some pid)
  have "r' = fst (leaveLocked ord now r pid (own sess))"
    using step LeaveSession_member(1) [OF ord inv user Some, of now] by simp
  from leave_inv(1,3) [OF ord inv this] show ?thesis by simp
qed

lemma SweepIdle_id: "reg_wf r \<Longrightarrow> SweepIdle r = r"
proof -
  assume wf: "reg_wf r"
  have "fmfilter (\<lambda>pid. case fmlookup (parties r) pid of
       Some p \<Rightarrow> \<not> Closed p \<and> mlen (Members p) \<noteq> 0 | None \<Rightarrow> False) (parties r) = parties r"
  proof (rule fmap_ext)
    fix pid
    show "fmlookup (fmfilter (\<lambda>pid. case fmlookup (parties r) pid of
       Some p \<Rightarrow> \<not> Closed p \<and> mlen (Members p) \<noteq> 0 | None \<Rightarrow> False) (parties r)) pid =
       fmlookup (parties r) pid"
    proof (cases "fmlookup (parties r) pid")
      case (Some p)
      from party_ok_fields(3,4) [OF reg_wf_party [OF wf Some]] Some show ?thesis by auto
    qed simp
  qed
  then show ?thesis by (simp add: SweepIdle_def)
qed

subsection \<open>Reachable registries\<close>

text \<open>
  One constructor per operation.  Callers pass sessions of the users they name; users have
  non-empty IDs; a freshly generated party ID is not in use.
\<close>

inductive party_step :: "(string \<Rightarrow> string) \<Rightarrow> party_registry \<Rightarrow> party_registry \<Rightarrow> bool"
  for own :: "string \<Rightarrow> string" where
  step_Create: "valid_order ord \<Longrightarrow> own sess = uid \<Longrightarrow>
     fmlookup (parties r) (uuid @ ''.'' @ CfgNode (pcfg r)) = None \<Longrightarrow>
     party_step own r (fst (Create ord jf now uuid r uid name sess opn hidden maxSize label))"
| step_Join: "own sess = uid \<Longrightarrow> party_step own r (fst (Join now r pid uid name sess))"
| step_Leave: "valid_order ord \<Longrightarrow> party_step own r (fst (Leave ord now r pid uid))"
| step_LeaveSession: "valid_order ord \<Longrightarrow> own sess \<noteq> [] \<Longrightarrow>
     party_step own r (fst (LeaveSession ord now r sess))"
| step_Promote: "party_step own r (fst (Promote now r pid lsess target))"
| step_Accept: "valid_order ord \<Longrightarrow> party_step own r (fst (Accept ord now r pid lsess target))"
| step_Remove: "party_step own r (fst (Remove now r pid lsess target))"
| step_Close: "party_step own r (fst (Close r pid lsess))"
| step_UpdateParty: "party_step own r (fst (UpdateParty jf now r pid lsess label opn hidden))"
| step_UpdateMemberProperties:
    "party_step own r (fst (UpdateMemberProperties now r pid uid props))"
| step_SweepIdle: "party_step own r (SweepIdle r)"
| step_SetHook: "party_step own r (SetMembershipChangeHook r fn)"

inductive party_reach :: "(string \<Rightarrow> string) \<Rightarrow> party_config \<Rightarrow> party_registry \<Rightarrow> bool"
  for own :: "string \<Rightarrow> string" and cfg :: party_config where
  reach_new: "party_reach own cfg (NewRegistryWithConfig cfg)"
| reach_step: "party_reach own cfg r \<Longrightarrow> party_step own r r' \<Longrightarrow> party_reach own cfg r'"

lemma inv_new: "reg_inv own (NewRegistryWithConfig cfg)"
  using wf_new [of cfg] by (simp add: reg_inv_def sess_owned_def NewRegistryWithConfig_def Let_def)

lemma inv_hook: "reg_inv own (SetMembershipChangeHook r fn) = reg_inv own r"
  by (simp add: SetMembershipChangeHook_def reg_inv_def reg_wf_def sess_owned_def in_party_def
      has_session_def)

lemmas step_invs =
  Create_inv [OF _ _ _ _ prod.collapse [symmetric]]
  LeaveSession_inv [OF _ _ _ prod.collapse [symmetric]]
  Promote_inv [OF _ prod.collapse [symmetric]] Accept_inv [OF _ _ prod.collapse [symmetric]]
  Remove_inv [OF _ prod.collapse [symmetric]] Close_inv [OF _ prod.collapse [symmetric]]
  UpdateParty_inv [OF _ prod.collapse [symmetric]]
  UpdateMemberProperties_inv [OF _ prod.collapse [symmetric]]

lemma party_step_inv: "party_step own r r' \<Longrightarrow> reg_inv own r \<Longrightarrow> reg_inv own r' \<and> pcfg r' = pcfg r"
proof (induction rule: party_step.induct)
  case (step_Leave ord r now pid uid)
  from leave_inv(1,3) [OF step_Leave(1,2) refl] show ?case by (simp add: Leave_def)
next
  case (step_SweepIdle r)
  then show ?case by (simp add: SweepIdle_id reg_inv_def)
next
  case (step_SetHook r fn)
  then show ?case by (simp add: inv_hook) (simp add: SetMembershipChangeHook_def)
next
  case (step_Join sess uid r now pid name)
  from Join_inv [OF step_Join(2,1) prod.collapse [symmetric], of now pid name]
  show ?case by simp
qed (rule step_invs, (assumption | simp)+)+

lemma party_reach_inv:
  "party_reach own cfg r \<Longrightarrow> reg_inv own r \<and> pcfg r = pcfg (NewRegistryWithConfig cfg)"
  by (induction rule: party_reach.induct) (auto simp: inv_new dest: party_step_inv)

end
