(* ===== verification/Paging.thy ===== *)
theory Paging
  imports Prelude
begin

section \<open>Following list cursors\<close>

text \<open>
  Every list operation of the server returns one page and a cursor for the next one, empty on the
  last page.  \<open>follow\<close> is the client that requests pages until the cursor is empty; the locale
  \<open>cursor_pager\<close> states what a list operation has to promise so that this client sees the whole
  list, each item once and in order.
\<close>

fun follow :: "('c \<Rightarrow> 'a list \<times> 'c) \<Rightarrow> ('c \<Rightarrow> bool) \<Rightarrow> nat \<Rightarrow> 'c \<Rightarrow> 'a list" where
  "follow page ended 0 c = []"
| "follow page ended (Suc n) c =
     (let (out, c') = page c in if ended c' then out else out @ follow page ended n c')"

locale cursor_pager =
  fixes ok :: "'s \<Rightarrow> bool"
    and page :: "'s \<Rightarrow> 'c \<Rightarrow> 'a list \<times> 'c"
    and ended :: "'c \<Rightarrow> bool"
    and items :: "'s \<Rightarrow> 'a list"
    and page_size :: "'s \<Rightarrow> nat"
    and at_pos :: "'s \<Rightarrow> 'c \<Rightarrow> nat \<Rightarrow> bool"
  assumes page_size_pos: "ok s \<Longrightarrow> 0 < page_size s"
    and last_page: "ok s \<Longrightarrow> at_pos s c i \<Longrightarrow> length (items s) \<le> i + page_size s \<Longrightarrow>
           \<exists>c'. page s c = (drop i (items s), c') \<and> ended c'"
    and next_page: "ok s \<Longrightarrow> at_pos s c i \<Longrightarrow> i + page_size s < length (items s) \<Longrightarrow>
           \<exists>c'. page s c = (take (page_size s) (drop i (items s)), c') \<and> \<not> ended c' \<and>
                at_pos s c' (i + page_size s)"
begin

lemma follow_all:
  assumes "ok s"
  shows "at_pos s c i \<Longrightarrow> length (items s) - i \<le> n \<Longrightarrow>
         follow (page s) ended (Suc n) c = drop i (items s)"
proof (induction n arbitrary: c i)
  case 0
  then have "length (items s) \<le> i + page_size s" by simp
  from last_page [OF assms 0(1) this] show ?case by auto
next
  case (Suc n)
  show ?case
  proof (cases "i + page_size s < length (items s)")
    case False
    then have "length (items s) \<le> i + page_size s" by simp
    from last_page [OF assms Suc.prems(1) this] show ?thesis by auto
  next
    case True
    from next_page [OF assms Suc.prems(1) this] obtain c' where
      c': "page s c = (take (page_size s) (drop i (items s)), c')" "\<not> ended c'"
      "at_pos s c' (i + page_size s)" by blast
    have "length (items s) - (i + page_size s) \<le> n"
      using Suc.prems(2) page_size_pos [OF assms] by linarith
    from Suc.IH [OF c'(3) this] c' have
      "follow (page s) ended (Suc (Suc n)) c =
         take (page_size s) (drop i (items s)) @ drop (i + page_size s) (items s)"
      by (subst follow.simps) simp
    also have "\<dots> = drop i (items s)"
      by (metis append_take_drop_id drop_drop add.commute)
    finally show ?thesis .
  qed
qed

lemma follow_from_start:
  "ok s \<Longrightarrow> at_pos s c 0 \<Longrightarrow> length (items s) \<le> n \<Longrightarrow> follow (page s) ended (Suc n) c = items s"
  using follow_all [of s c 0 n] by simp

end

text \<open>Keyset cursors: in a list strictly ordered by a key, the entries beyond a key are a suffix.\<close>

lemma filter_beyond:
  assumes "sorted_wrt (\<lambda>a b. lt (key a) (key b)) xs" "i < length xs"
    and irrefl: "\<And>k. \<not> lt k k" and trans: "\<And>a b c. lt a b \<Longrightarrow> lt b c \<Longrightarrow> lt a c"
  shows "filter (\<lambda>r. lt (key (xs ! i)) (key r)) xs = drop (Suc i) xs"
  using assms(1,2)
proof (induction xs arbitrary: i)
  case (Cons x xs)
  show ?case
  proof (cases i)
    case 0
    with Cons.prems irrefl show ?thesis by (simp add: filter_id_conv)
  next
    case (Suc j)
    then have j: "j < length xs" using Cons.prems by simp
    then have "lt (key x) (key (xs ! j))" using Cons.prems by simp
    then have "\<not> lt (key (xs ! j)) (key x)" using irrefl trans by blast
    with Suc j Cons show ?thesis by simp
  qed
qed simp

lemma sorted_wrt_rev_sort_key:
  assumes "distinct (map key xs)"
  shows "sorted_wrt (\<lambda>a b. key b < (key a :: 'k::linorder)) (rev (sort_key key xs))"
proof -
  have "sorted (map key (sort_key key xs))" "distinct (map key (sort_key key xs))"
    using assms by (simp_all add: distinct_map)
  then have "sorted_wrt (<) (map key (sort_key key xs))" by (simp add: strict_sorted_iff)
  then show ?thesis by (simp add: sorted_wrt_map sorted_wrt_rev)
qed

text \<open>A number in unary with a terminator: the concrete cursor encodings of the instances are built from it.\<close>

fun unary_take :: "nat list \<Rightarrow> nat \<times> nat list" where
  "unary_take [] = (0, [])"
| "unary_take (b # bs) =
     (if b = 0 then (0, bs) else let (n, rest) = unary_take bs in (Suc n, rest))"

lemma unary_take_replicate: "unary_take (replicate n 1 @ 0 # bs) = (n, bs)"
  by (induction n) simp_all

end
