(* ===== verification/Party_Props.thy ===== *)
theory Party_Props
  imports Party_Steps Paging
begin

section \<open>Party registry: properties\<close>

text \<open>
  What the registry of \<open>internal/party/party.go\<close> promises, stated over the registries that
  sequences of its operations can reach and over single operations.
\<close>

subsection \<open>A small reachable registry\<close>

definition demo_own :: "string \<Rightarrow> string" where
  "demo_own s = drop 1 s"

definition demo_json :: "string \<Rightarrow> nat option" where
  "demo_json s = (if s = ''{}'' then Some 0 else None)"

definition demo1 :: party_registry where
  "demo1 = fst (Create sorted_list_of_fset demo_json 10 ''a1'' (NewRegistryWithConfig DefaultConfig)
     ''ann'' ''Ann'' ''1ann'' True False 0 [])"

definition demo2 :: party_registry where
  "demo2 = fst (Join 11 demo1 ''a1.local'' ''bob'' ''Bob'' ''1bob'')"

definition demo_member :: "string \<Rightarrow> string \<Rightarrow> string \<Rightarrow> gotime \<Rightarrow> party_member" where
  "demo_member u n s t =
     \<lparr>MUserID = u, MUsername = n, MSessionID = s, MJoinedAt = t, MProperties = fmempty\<rparr>"

definition demo_party :: party_session where
  "demo_party = \<lparr>PartyID = ''a1.local'', LeaderID = ''ann'', POpen = True, PHidden = False,
     PMaxSize = 4, PLabel = ''{}'', Members = fmupd ''ann'' (demo_member ''ann'' ''Ann'' ''1ann'' 10) fmempty,
     JoinRequests = fmempty, PNode = ''local'', CreateTime = 10, LastActive = 10, Closed = False,
     Activity = 1\<rparr>"

lemma demo1_eq:
  "demo1 = \<lparr>parties = fmupd ''a1.local'' demo_party fmempty,
     pByUser = fmupd ''ann'' ''a1.local'' fmempty, pBySess = fmupd ''1ann'' ''a1.local'' fmempty,
     pcfg = DefaultConfig, hookSet = False, notified = []\<rparr>"
  by (simp add: demo1_def Create_def DefaultConfig_def NewRegistryWithConfig_def DefaultMaxSize_def
      AbsoluteMaxSize_def normalizeLabel_def validateLabel_def string_bytes_def LabelMaxBytes_def
      demo_json_def demo_party_def demo_member_def Let_def)

lemma demo1_reach: "party_reach demo_own DefaultConfig demo1"
  unfolding demo1_def
  by (rule reach_step [OF reach_new step_Create [OF valid_order_sorted]])
     (simp_all add: demo_own_def NewRegistryWithConfig_def DefaultConfig_def AbsoluteMaxSize_def
        DefaultMaxSize_def)

lemma demo2_reach: "party_reach demo_own DefaultConfig demo2"
  unfolding demo2_def by (rule reach_step [OF demo1_reach step_Join]) (simp add: demo_own_def)

definition demo_party2 :: party_session where
  "demo_party2 = demo_party\<lparr>Members := fmupd ''bob'' (demo_member ''bob'' ''Bob'' ''1bob'' 11)
       (Members demo_party), LastActive := 11, Activity := 2\<rparr>"

lemma demo2_eq:
  "demo2 = \<lparr>parties = fmupd ''a1.local'' demo_party2 fmempty,
     pByUser = fmupd ''bob'' ''a1.local'' (fmupd ''ann'' ''a1.local'' fmempty),
     pBySess = fmupd ''1bob'' ''a1.local'' (fmupd ''1ann'' ''a1.local'' fmempty),
     pcfg = DefaultConfig, hookSet = False, notified = []\<rparr>"
  by (simp add: demo2_def demo1_eq Join_def find_party_def demo_party_def demo_member_def
      DefaultConfig_def touch_def set_party_def notifyMembershipChange_def mlen_fmupd demo_party2_def Let_def)


subsection \<open>Reachable registries\<close>

text \<open>C6: in every reachable registry a live party has its leader among its members, stays within
  its size and the configured limit, queues at most as many requests, and no user is both a member
  and a requester.\<close>

theorem reachable_party_shape:
  assumes "party_reach own cfg r" and "fmlookup (parties r) pid = Some p"
  shows "PartyID p = pid \<and> LeaderID p |\<in>| fmdom (Members p) \<and> int (mlen (Members p)) \<le> PMaxSize p \<and>
    PMaxSize p \<le> CfgAbsoluteMaxSize (pcfg r) \<and> int (mlen (JoinRequests p)) \<le> PMaxSize p \<and>
    fmdom (Members p) |\<inter>| fmdom (JoinRequests p) = {||}"
  using party_ok_fields [OF reg_wf_party [OF _ assms(2)]] party_reach_inv [OF assms(1)]
  by (simp add: reg_inv_def)

theorem reachable_party_shape_witness:
  "LeaderID demo_party2 |\<in>| fmdom (Members demo_party2) \<and>
   int (mlen (Members demo_party2)) \<le> PMaxSize demo_party2"
  using reachable_party_shape [OF demo2_reach, of "''a1.local''" demo_party2]
  by (simp add: demo2_eq)

text \<open>C30: with one party per user, no sequence of operations ever puts a user into two parties, and the
  user index names exactly the party the user is in.\<close>

theorem one_party_per_user:
  assumes "party_reach own cfg r" and "SingleParty cfg"
  shows "(in_party r p u \<and> in_party r q u \<longrightarrow> p = q) \<and>
         (fmlookup (pByUser r) u = Some p \<longleftrightarrow> in_party r p u)"
proof -
  have "SingleParty (pcfg r)"
    using party_reach_inv [OF assms(1)] assms(2) by (simp add: NewRegistryWithConfig_def Let_def)
  moreover have "reg_wf r" using party_reach_inv [OF assms(1)] by (simp add: reg_inv_def)
  ultimately show ?thesis using one_party [of r p u q] by (auto simp: reg_wf_def)
qed

theorem one_party_per_user_witness:
  "in_party demo2 ''a1.local'' ''bob'' \<and> \<not> in_party demo2 ''a2.local'' ''bob''"
proof -
  have "SingleParty DefaultConfig" by (simp add: DefaultConfig_def)
  note one = one_party_per_user [OF demo2_reach this]
  have "in_party demo2 ''a1.local'' ''bob''"
    using one [of "''a1.local''" "''bob''" "''a1.local''"] by (simp add: demo2_eq)
  with one [of "''a2.local''" "''bob''" "''a1.local''"] show ?thesis by auto
qed

subsection \<open>Leaving and disconnecting\<close>

text \<open>when a member leaves, the party disappears exactly when nobody is left; otherwise the
  remaining members stay, and if the leader left the leadership passes to a member who joined
  no later than any other, who is the one reported as promoted.\<close>

lemma leave_succession:
  assumes "valid_order ord" and "party_reach own cfg r"
    and "fmlookup (parties r) pid = Some p" and "fmlookup (Members p) uid = Some m"
  shows "case Leave ord now r pid uid of (r', res) \<Rightarrow>
    (if mlen (Members p) = 1
     then fmlookup (parties r') pid = None \<and>
          res = Inr \<lparr>LParty = None, LPromoted = None, LDissolved = True, LWasMember = True\<rparr>
     else \<exists>p' out. fmlookup (parties r') pid = Some p' \<and> res = Inr out \<and> \<not> LDissolved out \<and>
          Members p' = fmdrop uid (Members p) \<and>
          (if LeaderID p = uid
           then \<exists>new. LPromoted out = Some new \<and> fmlookup (Members p') (LeaderID p') = Some new \<and>
                (\<forall>v mv. fmlookup (Members p') v = Some mv \<longrightarrow> MJoinedAt new \<le> MJoinedAt mv)
           else LeaderID p' = LeaderID p \<and> LPromoted out = None))"
proof -
  have wf: "reg_wf r" using party_reach_inv [OF assms(2)] by (simp add: reg_inv_def)
  note ok = reg_wf_party [OF wf assms(3)]
  have fp: "find_party r pid = Some p" by (simp add: find_party_wf [OF wf] assms(3))
  let ?ms = "fmdrop uid (Members p)"
  have "mlen (Members p) = 1 \<longleftrightarrow> mlen ?ms = 0"
    using mlen_fmdrop [OF assms(4)] mlen_pos [OF assms(4)] by linarith
  then have one: "mlen (Members p) = 1 \<longleftrightarrow> ?ms = fmempty" by (simp only: mlen_0_iff)
  show ?thesis
  proof (cases "?ms = fmempty")
    case True
    with one show ?thesis
      by (simp add: Leave_def leaveLocked_def fp assms(4) Let_def)
  next
    case ne: False
    show ?thesis
    proof (cases "LeaderID p = uid")
      case False
      with ne one show ?thesis
        by (simp add: Leave_def leaveLocked_def fp assms(4) Let_def)
    next
      case True
      obtain new u where new: "oldest_member ord ?ms = Some new" "fmlookup ?ms u = Some new"
        "\<forall>v mv. fmlookup ?ms v = Some mv \<longrightarrow> MJoinedAt new \<le> MJoinedAt mv"
        by (rule oldest_member_SomeI [OF assms(1) ne]) (simp add: that)
      from new(2) have "fmlookup (Members p) u = Some new" by (simp split: if_splits)
      then have "MUserID new = u" by (rule party_ok_fields(5) [OF ok])
      with new True ne one show ?thesis
        by (simp add: Leave_def leaveLocked_def fp assms(4) Let_def split: if_splits)
    qed
  qed
qed

lemma leave_succession_witness:
  "\<exists>p'. fmlookup (parties (fst (Leave sorted_list_of_fset 12 demo2 ''a1.local'' ''ann''))) ''a1.local'' =
     Some p' \<and> LeaderID p' = ''bob''"
proof -
  have ms: "Members demo_party2 = fmupd ''bob'' (demo_member ''bob'' ''Bob'' ''1bob'' 11)
      (fmupd ''ann'' (demo_member ''ann'' ''Ann'' ''1ann'' 10) fmempty)" "LeaderID demo_party2 = ''ann''"
    by (simp_all add: demo_party2_def demo_party_def)
  obtain r' res where L: "Leave sorted_list_of_fset 12 demo2 ''a1.local'' ''ann'' = (r', res)"
    by (cases "Leave sorted_list_of_fset 12 demo2 ''a1.local'' ''ann''")
  have p: "fmlookup (parties demo2) ''a1.local'' = Some demo_party2" by (simp add: demo2_eq)
  have m: "fmlookup (Members demo_party2) ''ann'' = Some (demo_member ''ann'' ''Ann'' ''1ann'' 10)"
    by (simp add: ms)
  have "mlen (Members demo_party2) \<noteq> 1" by (simp add: ms mlen_fmupd)
  with leave_succession [OF valid_order_sorted demo2_reach p m, of 12]
  have "\<exists>p' new. fmlookup (parties r') ''a1.local'' = Some p' \<and>
      Members p' = fmdrop ''ann'' (Members demo_party2) \<and>
      fmlookup (Members p') (LeaderID p') = Some new"
    by (auto simp: L ms(2))
  then show ?thesis by (auto simp: L ms split: if_splits)
qed

text \<open>after a disconnect no party has a member on the lost session, and every other user is in
  exactly the parties they were in before.\<close>

lemma disconnect_clears_session:
  assumes "valid_order ord" and "party_reach own cfg r" and "SingleParty cfg" and "own sess \<noteq> []"
    and r': "r' = fst (LeaveSession ord now r sess)"
  shows "\<not> has_session r' q sess \<and> (u \<noteq> own sess \<longrightarrow> in_party r' q u = in_party r q u)"
proof -
  have single: "SingleParty (pcfg r)"
    using party_reach_inv [OF assms(2)] assms(3) by (simp add: NewRegistryWithConfig_def Let_def)
  have inv: "reg_inv own r" using party_reach_inv [OF assms(2)] by simp
  then have wf: "reg_wf r" and so: "sess_owned own r" by (simp_all add: reg_inv_def)
  show ?thesis
  proof (cases "fmlookup (pBySess r) sess")
    case None
    then have "r' = r" by (simp add: r' LeaveSession_def)
    moreover have "\<not> has_session r q sess"
      using sess_owned_indexed [OF so single] None by (fastforce simp: has_session_def)
    ultimately show ?thesis by simp
  next
    case (Some pid)
    note L = LeaveSession_member [OF assms(1) inv assms(4) Some]
    have r'_leave: "r' = fst (leaveLocked ord now r pid (own sess))" by (simp add: r' L(1))
    note leave = leave_inv [OF assms(1) inv r'_leave]
    have "\<not> has_session r' q sess"
    proof
      assume "has_session r' q sess"
      then obtain p v m where m: "fmlookup (parties r') q = Some p" "fmlookup (Members p) v = Some m"
        "MSessionID m = sess" by (auto simp: has_session_def)
      have "sess_owned own r'" using leave(1) by (simp add: reg_inv_def)
      from sess_owned_member [OF this m(1,2)] m(3) have "v = own sess" by simp
      with in_partyI [OF m(1,2)] have "in_party r' q (own sess)" by simp
      with leave(2) [of q "own sess"] have "in_party r q (own sess)" "q \<noteq> pid" by auto
      with one_party [OF wf single _ L(2)] show False by blast
    qed
    then show ?thesis using leave(2) [of q u] by auto
  qed
qed

lemma disconnect_clears_session_witness:
  "\<not> has_session (fst (LeaveSession sorted_list_of_fset 12 demo2 ''1bob'')) ''a1.local'' ''1bob'' \<and>
   in_party (fst (LeaveSession sorted_list_of_fset 12 demo2 ''1bob'')) ''a1.local'' ''ann''"
proof -
  have "in_party demo2 ''a1.local'' ''ann''"
    by (simp add: demo2_eq in_party_def demo_party2_def demo_party_def)
  with disconnect_clears_session [OF valid_order_sorted demo2_reach _ _ refl, of "''1bob''"
      12 "''a1.local''" "''ann''"]
  show ?thesis by (simp add: demo_own_def DefaultConfig_def)
qed


subsection \<open>Authority and admission\<close>

text \<open>C29: a session that is not the current leader's gets \<open>ErrNotLeader\<close> from every leader operation,
  and the registry is left exactly as it was.\<close>

theorem only_leader_acts:
  assumes "find_party r pid = Some p"
    and "\<forall>m. fmlookup (Members p) (LeaderID p) = Some m \<longrightarrow> MSessionID m \<noteq> lsess"
  shows "Promote now r pid lsess target = (r, Inl ErrNotLeader) \<and>
    Accept ord now r pid lsess target = (r, Inl ErrNotLeader) \<and>
    Remove now r pid lsess target = (r, Inl ErrNotLeader) \<and>
    Close r pid lsess = (r, Inl ErrNotLeader) \<and>
    UpdateParty jf now r pid lsess label opn hidden = (r, Inl ErrNotLeader) \<and>
    JoinRequestList ord r pid lsess = Inl ErrNotLeader"
proof -
  have "requireLeader r pid lsess = Inl ErrNotLeader"
    using assms by (auto simp: requireLeader_def split: option.split)
  then show ?thesis
    by (simp_all add: Promote_def Accept_def Remove_def Close_def UpdateParty_def JoinRequestList_def)
qed

theorem only_leader_acts_witness:
  "Close demo2 ''a1.local'' ''1bob'' = (demo2, Inl ErrNotLeader)"
proof -
  have "find_party demo2 ''a1.local'' = Some demo_party2"
    by (simp add: demo2_eq find_party_def demo_party2_def demo_party_def)
  from only_leader_acts [OF this, of "''1bob''"] show ?thesis
    by (simp add: demo_party2_def demo_party_def demo_member_def)
qed

text \<open>on a live party, \<open>Join\<close> admits the caller at once exactly when the party is open, has room, does
  not have the user yet and the user is in no other party (when users are limited to one); in
  every other case nobody's membership changes.\<close>

lemma join_admits_iff:
  assumes "party_reach own cfg r" and "own sess = uid" and "fmlookup (parties r) pid = Some p"
    and "Join now r pid uid name sess = (r', res)"
  shows "((\<exists>out. res = Inr out \<and> Joined out) \<longleftrightarrow>
           POpen p \<and> \<not> in_party r pid uid \<and> int (mlen (Members p)) < PMaxSize p \<and>
           (SingleParty (pcfg r) \<longrightarrow> (\<forall>q. q \<noteq> pid \<longrightarrow> \<not> in_party r q uid))) \<and>
         (in_party r' q u \<longleftrightarrow>
           in_party r q u \<or> q = pid \<and> u = uid \<and> (\<exists>out. res = Inr out \<and> Joined out))"
proof -
  have inv: "reg_inv own r" using party_reach_inv [OF assms(1)] by simp
  then have wf: "reg_wf r" by (simp add: reg_inv_def)
  have fp: "find_party r pid = Some p" by (simp add: find_party_wf [OF wf] assms(3))
  have mem: "fmlookup (Members p) uid = None \<longleftrightarrow> \<not> in_party r pid uid"
    by (simp add: in_party_def assms(3) fmlookup_dom_iff)
  have busy: "join_busy r pid uid \<longleftrightarrow> SingleParty (pcfg r) \<and> (\<exists>q. q \<noteq> pid \<and> in_party r q uid)"
  proof (cases "SingleParty (pcfg r)")
    case True
    then have "\<And>q. fmlookup (pByUser r) uid = Some q \<longleftrightarrow> in_party r q uid"
      using wf by (simp add: reg_wf_def)
    from this [symmetric] True show ?thesis by (auto simp: join_busy_def split: option.split)
  qed (simp add: join_busy_def)
  have "(\<exists>out. res = Inr out \<and> Joined out) \<longleftrightarrow>
           POpen p \<and> \<not> in_party r pid uid \<and> int (mlen (Members p)) < PMaxSize p \<and>
           (SingleParty (pcfg r) \<longrightarrow> (\<forall>q. q \<noteq> pid \<longrightarrow> \<not> in_party r q uid))"
    using assms(4)
    by (auto simp: Join_def fp Let_def mem [symmetric] busy [unfolded join_busy_def]
        split: if_splits)
  moreover have "in_party r' q u \<longleftrightarrow>
           in_party r q u \<or> q = pid \<and> u = uid \<and> (\<exists>out. res = Inr out \<and> Joined out)"
    using Join_inv [OF inv assms(2,4)] by blast
  ultimately show ?thesis by blast
qed

lemma join_admits_iff_witness:
  "in_party (fst (Join 11 demo1 ''a1.local'' ''bob'' ''Bob'' ''1bob'')) ''a1.local'' ''bob''"
proof -
  obtain r' res where J: "Join 11 demo1 ''a1.local'' ''bob'' ''Bob'' ''1bob'' = (r', res)"
    by (cases "Join 11 demo1 ''a1.local'' ''bob'' ''Bob'' ''1bob''")
  have p: "fmlookup (parties demo1) ''a1.local'' = Some demo_party" by (simp add: demo1_eq)
  have own: "demo_own ''1bob'' = ''bob''" by (simp add: demo_own_def)
  note j = join_admits_iff [OF demo1_reach own p J]
  have "POpen demo_party" "int (mlen (Members demo_party)) < PMaxSize demo_party"
    "\<not> in_party demo1 q ''bob''" for q
    by (auto simp: demo_party_def mlen_fmupd in_party_def demo1_eq split: if_splits)
  with j show ?thesis by (simp add: J)
qed

subsection \<open>Discovery\<close>

lemma listed_ids_props:
  "distinct (listed_ids r opn showHidden query)"
  "set (listed_ids r opn showHidden query) =
     {pid. \<exists>p. fmlookup (parties r) pid = Some p \<and> party_listed opn showHidden query p}"
  by (auto simp: listed_ids_def sorted_list_of_fset.rep_eq fmlookup_dom_iff split: option.splits)

lemma page_start_after:
  assumes "distinct ids" "i < length ids" "ids ! i \<noteq> []"
  shows "page_start ids (raw_url_encode (string_bytes (ids ! i))) = Suc i"
proof -
  have "string_bytes (ids ! i) \<noteq> []" using assms(3) by (simp add: string_bytes_def)
  then show ?thesis
    by (simp add: page_start_def raw_url_encode_nonempty raw_url_roundtrip [OF string_bytes_bound]
        index_of_nth assms(1,2))
qed

lemma list_entries_of:
  assumes "reg_wf r" and "set xs \<subseteq> set (listed_ids r opn showHidden query)"
  shows "map EntryID (List.map_filter (\<lambda>pid. map_option list_entry (fmlookup (parties r) pid)) xs) = xs"
  using assms(2)
proof (induction xs)
  case (Cons x xs)
  then obtain p where p: "fmlookup (parties r) x = Some p" by (auto simp: listed_ids_props)
  have "PartyID p = x" using party_ok_fields(2) [OF reg_wf_party [OF assms(1) p]] .
  with Cons p show ?case by (simp add: List.map_filter_def list_entry_def)
qed (simp add: List.map_filter_def)

lemma page_limit_pos: "0 < page_limit limit"
  by (simp add: page_limit_def)

type_synonym party_query = "party_registry \<times> int \<times> bool option \<times> bool \<times> string"

fun party_page :: "party_query \<Rightarrow> string \<Rightarrow> string list \<times> string" where
  "party_page (r, limit, opn, showHidden, query) c =
     (let (out, c') = ListParties r limit opn showHidden query c in (map EntryID out, c'))"

fun party_items :: "party_query \<Rightarrow> string list" where
  "party_items (r, limit, opn, showHidden, query) = listed_ids r opn showHidden query"

fun party_page_size :: "party_query \<Rightarrow> nat" where
  "party_page_size (r, limit, opn, showHidden, query) = page_limit limit"

interpretation party_pager: cursor_pager "\<lambda>q. reg_wf (fst q)" party_page "\<lambda>c. c = []"
  party_items party_page_size "\<lambda>q c i. page_start (party_items q) c = i"
proof unfold_locales
  show "0 < party_page_size q" for q by (cases q) (simp add: page_limit_def)
next
  fix q :: party_query and c i
  obtain r limit opn showHidden query where q: "q = (r, limit, opn, showHidden, query)"
    by (cases q) auto
  define ids where "ids = listed_ids r opn showHidden query"
  define k where "k = page_limit limit"
  assume wf: "reg_wf (fst q)" and i: "page_start (party_items q) c = i"
  have page: "party_page q c = (take k (drop i ids),
      if i + k < length ids then raw_url_encode (string_bytes (ids ! (i + k - 1))) else [])"
  proof -
    have "map EntryID (List.map_filter (\<lambda>pid. map_option list_entry (fmlookup (parties r) pid))
            (take k (drop i ids))) = take k (drop i ids)"
      by (rule list_entries_of [of _ _ opn showHidden query])
         (use wf in \<open>auto simp: q ids_def dest: in_set_takeD in_set_dropD\<close>)
    then show ?thesis using i by (simp add: q ListParties_def Let_def ids_def k_def)
  qed
  show "\<exists>c'. party_page q c = (drop i (party_items q), c') \<and> c' = []"
    if "length (party_items q) \<le> i + party_page_size q"
    using that by (simp add: page) (simp add: q ids_def k_def)
  assume more: "i + party_page_size q < length (party_items q)"
  then have lt: "i + k < length ids" by (simp add: q ids_def k_def)
  have k: "0 < k" by (simp add: k_def page_limit_def)
  have "ids ! (i + k - 1) \<in> set ids" using lt by (intro nth_mem) linarith
  then obtain p where p: "fmlookup (parties r) (ids ! (i + k - 1)) = Some p"
    by (auto simp: ids_def listed_ids_props)
  have "reg_wf r" using wf by (simp add: q)
  then have ne: "ids ! (i + k - 1) \<noteq> []" by (rule party_ok_fields(1) [OF reg_wf_party [OF _ p]])
  have "page_start ids (raw_url_encode (string_bytes (ids ! (i + k - 1)))) = Suc (i + k - 1)"
    by (rule page_start_after) (use lt ne in \<open>simp_all add: ids_def listed_ids_props\<close>)
  then have "page_start ids (raw_url_encode (string_bytes (ids ! (i + k - 1)))) = i + k"
    using k by simp
  moreover have "raw_url_encode (string_bytes (ids ! (i + k - 1))) \<noteq> []"
    using ne by (simp add: raw_url_encode_nonempty string_bytes_def)
  ultimately show "\<exists>c'. party_page q c = (take (party_page_size q) (drop i (party_items q)), c') \<and>
      c' \<noteq> [] \<and> page_start (party_items q) c' = i + party_page_size q"
    using lt by (simp add: page) (simp add: q ids_def k_def)
qed

text \<open>on an unchanging registry, following the cursor of the discovery list from the start returns every
  matching party exactly once, in order of its ID, whatever the page size; as many requests as
  there are parties, plus one, are enough.\<close>

lemma discovery_pages_complete:
  assumes "party_reach own cfg r" and "CountParties r \<le> n"
  shows "follow (\<lambda>c. let (out, c') = ListParties r limit opn showHidden query c
                     in (map EntryID out, c')) (\<lambda>c. c = []) (Suc n) [] =
         sorted_list_of_set {pid. \<exists>p. fmlookup (parties r) pid = Some p \<and>
                                      party_listed opn showHidden query p}"
proof -
  let ?ids = "listed_ids r opn showHidden query"
  let ?q = "(r, limit, opn, showHidden, query)"
  have wf: "reg_wf r" using party_reach_inv [OF assms(1)] by (simp add: reg_inv_def)
  have "length ?ids \<le> CountParties r"
  proof -
    have "length ?ids = card (set ?ids)" by (rule distinct_card [symmetric]) (rule listed_ids_props)
    also have "\<dots> \<le> card (fset (fmdom (parties r)))"
      by (rule card_mono) (auto simp: listed_ids_props fmlookup_dom_iff intro: fmdomI)
    finally show ?thesis by (simp add: CountParties_def mlen_def fcard.rep_eq)
  qed
  with assms(2) party_pager.follow_from_start [of ?q "[]" n] wf
  have "follow (party_page ?q) (\<lambda>c. c = []) (Suc n) [] = ?ids"
    by (simp add: page_start_def del: follow.simps party_page.simps)
  moreover have "?ids = sorted_list_of_set (set ?ids)"
    by (simp add: listed_ids_def sorted_list_of_fset.rep_eq)
  moreover have "party_page ?q = (\<lambda>c. let (out, c') = ListParties r limit opn showHidden query c
                     in (map EntryID out, c'))" by (simp add: fun_eq_iff)
  ultimately show ?thesis by (simp add: listed_ids_props del: follow.simps party_page.simps)
qed

lemma discovery_pages_complete_witness:
  "follow (\<lambda>c. let (out, c') = ListParties demo2 1 None False [] c
               in (map EntryID out, c')) (\<lambda>c. c = []) 3 [] = [''a1.local'']"
proof -
  have "CountParties demo2 \<le> 2" by (simp add: CountParties_def demo2_eq mlen_fmupd)
  from discovery_pages_complete [OF demo2_reach this, of 1 None False "[]"]
  have "follow (\<lambda>c. let (out, c') = ListParties demo2 1 None False [] c
               in (map EntryID out, c')) (\<lambda>c. c = []) 3 [] =
    sorted_list_of_set {pid. \<exists>p. fmlookup (parties demo2) pid = Some p \<and> party_listed None False [] p}"
    by (simp add: numeral_3_eq_3 del: follow.simps)
  also have "{pid. \<exists>p. fmlookup (parties demo2) pid = Some p \<and> party_listed None False [] p} = {''a1.local''}"
    by (auto simp: demo2_eq party_listed_def demo_party2_def demo_party_def split: if_splits)
  finally show ?thesis by simp
qed

end
