(* ===== verification/Wallet.thy ===== *)
theory Wallet
  imports Paging Base64 "HOL-Library.AList" "HOL-Library.Product_Lexorder"
begin

section \<open>Wallets and the wallet ledger\<close>

text \<open>
  Models \<open>internal/economy/wallet.go\<close>: balances are 64-bit signed integers per currency, kept in a
  JSON column of the user row; an update locks the rows, applies the changesets in memory, writes
  the rows back and appends to the ledger, all in one transaction.  The database is the state
  \<open>wallet_db\<close>; an operation that fails rolls back, so it returns the state it was given.

  Parameters: \<open>uuid_of\<close> is the database's reading of a text as a UUID (its canonical text, or \<open>None\<close>
  for a text that is no UUID); \<open>newid\<close> numbers the random IDs one call draws; \<open>ord\<close> is the iteration
  order of a changeset; \<open>genc\<close> and \<open>gdec\<close> are the gob encoding of a cursor; \<open>jcat\<close> is the database's
  \<open>||\<close> on JSON values.  A JSON column is read through \<open>wallet_col\<close>.  Connection failures are not modelled.
\<close>

subsection \<open>Data\<close>

type_synonym wallet = "(string, 64 word) fmap"

datatype wallet_col = WNull | WBad | WMap wallet

datatype wallet_error =
    ErrWalletNegative string string "64 word" "64 word"
  | ErrEmptyChangeset | ErrParseWallet | ErrDatabase | ErrNoRows | ErrUserNotFound string
  | ErrLedgerCursorInvalid | ErrLedgerItemNotFound

record wallet_update =
  WUserID :: string
  Changeset :: wallet
  Metadata :: "string option"

record wallet_result =
  WRUserID :: string
  Updated :: wallet
  Previous :: wallet

record ledger_item =
  LedgerID :: string
  LedgerUser :: string
  LedgerChangeset :: wallet
  LedgerMetadata :: string
  LedgerCreateTime :: gotime
  LedgerUpdateTime :: gotime

record ledger_cursor =
  LCUserID :: string
  LCCreateTime :: gotime
  LCID :: string

record wallet_db =
  user_wallets :: "(string, wallet_col) fmap"
  ledger :: "ledger_item list"

definition balance :: "wallet \<Rightarrow> string \<Rightarrow> 64 word" where
  "balance w currency = (case fmlookup w currency of None \<Rightarrow> 0 | Some b \<Rightarrow> b)"

definition parse_wallet :: "wallet_col \<Rightarrow> wallet_error + wallet" where
  "parse_wallet col = (case col of WNull \<Rightarrow> Inr fmempty | WBad \<Rightarrow> Inl ErrParseWallet | WMap w \<Rightarrow> Inr w)"

subsection \<open>Updates\<close>

definition GetWallet :: "(string \<Rightarrow> string option) \<Rightarrow> wallet_db \<Rightarrow> string \<Rightarrow> wallet_error + wallet" where
  "GetWallet uuid_of db userID =
     (case uuid_of userID of
        None \<Rightarrow> Inl ErrDatabase
      | Some uid \<Rightarrow>
          (case fmlookup (user_wallets db) uid of None \<Rightarrow> Inl ErrNoRows | Some col \<Rightarrow> parse_wallet col))"

text \<open>The inner loop: one changeset, currency by currency, with the 64-bit addition of the code.\<close>

fun apply_changes :: "string \<Rightarrow> wallet \<Rightarrow> string list \<Rightarrow> wallet \<Rightarrow> wallet_error + wallet" where
  "apply_changes uid cs [] w = Inr w"
| "apply_changes uid cs (currency # rest) w =
     (let delta = balance cs currency;
          newBal = balance w currency + delta
      in if sint newBal < 0 then Inl (ErrWalletNegative uid currency (balance w currency) delta)
         else apply_changes uid cs rest (fmupd currency newBal w))"

record update_state =
  us_wallets :: "(string, wallet) fmap"
  us_results :: "wallet_result list"
  us_writes :: "(string \<times> wallet) list"
  us_ledger :: "ledger_item list"
  us_drawn :: nat

definition ledger_insert :: "ledger_item \<Rightarrow> ledger_item list \<Rightarrow> ledger_item list option" where
  "ledger_insert row l = (if LedgerID row \<in> LedgerID ` set l then None else Some (l @ [row]))"

definition update_one ::
  "(string fset \<Rightarrow> string list) \<Rightarrow> (nat \<Rightarrow> string) \<Rightarrow> gotime \<Rightarrow> bool \<Rightarrow> wallet_update \<Rightarrow> update_state
   \<Rightarrow> wallet_error + update_state" where
  "update_one ord newid now updateLedger u st =
     (case fmlookup (us_wallets st) (WUserID u) of
        None \<Rightarrow> Inr st
      | Some previous \<Rightarrow>
          (case apply_changes (WUserID u) (Changeset u) (ord (fmdom (Changeset u))) previous of
             Inl err \<Rightarrow> Inl err
           | Inr updated \<Rightarrow>
               (let st1 = st\<lparr>us_wallets := fmupd (WUserID u) updated (us_wallets st),
                             us_results := us_results st @
                               [\<lparr>WRUserID = WUserID u, Updated = updated, Previous = previous\<rparr>],
                             us_writes := AList.update (WUserID u) updated (us_writes st)\<rparr>
                in if \<not> updateLedger then Inr st1
                   else case ledger_insert
                          \<lparr>LedgerID = newid (us_drawn st), LedgerUser = WUserID u,
                           LedgerChangeset = Changeset u,
                           LedgerMetadata = (case Metadata u of None \<Rightarrow> ''{}'' | Some md \<Rightarrow> md),
                           LedgerCreateTime = now, LedgerUpdateTime = now\<rparr> (us_ledger st) of
                          None \<Rightarrow> Inl ErrDatabase
                        | Some l \<Rightarrow> Inr (st1\<lparr>us_ledger := l, us_drawn := Suc (us_drawn st)\<rparr>))))"

fun update_loop ::
  "(string fset \<Rightarrow> string list) \<Rightarrow> (nat \<Rightarrow> string) \<Rightarrow> gotime \<Rightarrow> bool \<Rightarrow> wallet_update list \<Rightarrow> update_state
   \<Rightarrow> wallet_error + update_state" where
  "update_loop ord newid now updateLedger [] st = Inr st"
| "update_loop ord newid now updateLedger (u # us) st =
     (case update_one ord newid now updateLedger u st of
        Inl err \<Rightarrow> Inl err
      | Inr st' \<Rightarrow> update_loop ord newid now updateLedger us st')"

text \<open>The locked rows, keyed by the canonical ID the database returns.\<close>

fun lock_rows ::
  "(string \<Rightarrow> string option) \<Rightarrow> wallet_db \<Rightarrow> string list \<Rightarrow> wallet_error + (string, wallet) fmap" where
  "lock_rows uuid_of db [] = Inr fmempty"
| "lock_rows uuid_of db (i # ids) =
     (case uuid_of i of
        None \<Rightarrow> Inl ErrDatabase
      | Some uid \<Rightarrow>
          (case lock_rows uuid_of db ids of
             Inl err \<Rightarrow> Inl err
           | Inr ws \<Rightarrow>
               (case fmlookup (user_wallets db) uid of
                  None \<Rightarrow> Inr ws
                | Some col \<Rightarrow>
                    (case parse_wallet col of Inl err \<Rightarrow> Inl err | Inr w \<Rightarrow> Inr (fmupd uid w ws)))))"

definition updateWalletsTx ::
  "(string \<Rightarrow> string option) \<Rightarrow> (string fset \<Rightarrow> string list) \<Rightarrow> (nat \<Rightarrow> string) \<Rightarrow> gotime \<Rightarrow> wallet_db
   \<Rightarrow> wallet_update list \<Rightarrow> bool \<Rightarrow> wallet_error + wallet_db \<times> wallet_result list" where
  "updateWalletsTx uuid_of ord newid now db updates updateLedger =
     (case lock_rows uuid_of db (sort (remdups (map WUserID updates))) of
        Inl err \<Rightarrow> Inl err
      | Inr ws \<Rightarrow>
          (case update_loop ord newid now updateLedger updates
                  \<lparr>us_wallets = ws, us_results = [], us_writes = [], us_ledger = ledger db,
                   us_drawn = 0\<rparr> of
             Inl err \<Rightarrow> Inl err
           | Inr st \<Rightarrow>
               Inr (db\<lparr>user_wallets :=
                         fold (\<lambda>(uid, w). fmupd uid (WMap w)) (us_writes st) (user_wallets db),
                       ledger := us_ledger st\<rparr>,
                    us_results st)))"

definition UpdateWallets ::
  "(string \<Rightarrow> string option) \<Rightarrow> (string fset \<Rightarrow> string list) \<Rightarrow> (nat \<Rightarrow> string) \<Rightarrow> gotime \<Rightarrow> wallet_db
   \<Rightarrow> wallet_update list \<Rightarrow> bool \<Rightarrow> wallet_db \<times> (wallet_error + wallet_result list)" where
  "UpdateWallets uuid_of ord newid now db updates updateLedger =
     (if updates = [] then (db, Inr [])
      else if \<exists>u \<in> set updates. mlen (Changeset u) = 0 then (db, Inl ErrEmptyChangeset)
      else case updateWalletsTx uuid_of ord newid now db updates updateLedger of
             Inl err \<Rightarrow> (db, Inl err)
           | Inr (db', results) \<Rightarrow> (db', Inr results))"

definition UpdateWallet ::
  "(string \<Rightarrow> string option) \<Rightarrow> (string fset \<Rightarrow> string list) \<Rightarrow> (nat \<Rightarrow> string) \<Rightarrow> gotime \<Rightarrow> wallet_db
   \<Rightarrow> string \<Rightarrow> wallet \<Rightarrow> string option \<Rightarrow> bool \<Rightarrow> wallet_db \<times> (wallet_error + wallet \<times> wallet)" where
  "UpdateWallet uuid_of ord newid now db userID changeset metadata updateLedger =
     (case UpdateWallets uuid_of ord newid now db
             [\<lparr>WUserID = userID, Changeset = changeset, Metadata = metadata\<rparr>] updateLedger of
        (db', Inl err) \<Rightarrow> (db', Inl err)
      | (db', Inr []) \<Rightarrow> (db', Inl (ErrUserNotFound userID))
      | (db', Inr (r # _)) \<Rightarrow> (db', Inr (Updated r, Previous r)))"

subsection \<open>The ledger\<close>

definition encodeLedgerCursor :: "(ledger_cursor \<Rightarrow> nat list) \<Rightarrow> ledger_cursor option \<Rightarrow> string" where
  "encodeLedgerCursor genc c = (case c of None \<Rightarrow> [] | Some lc \<Rightarrow> raw_url_encode (genc lc))"

definition decodeLedgerCursor ::
  "(nat list \<Rightarrow> ledger_cursor option) \<Rightarrow> string \<Rightarrow> wallet_error + ledger_cursor option" where
  "decodeLedgerCursor gdec cursor =
     (if cursor = [] then Inr None
      else case (case raw_url_decode cursor of Some b \<Rightarrow> Some b | None \<Rightarrow> url_decode cursor) of
             None \<Rightarrow> Inl ErrLedgerCursorInvalid
           | Some b \<Rightarrow> (case gdec b of None \<Rightarrow> Inl ErrLedgerCursorInvalid | Some lc \<Rightarrow> Inr (Some lc)))"

definition ledger_key :: "ledger_item \<Rightarrow> gotime \<times> string" where
  "ledger_key r = (LedgerCreateTime r, LedgerID r)"

definition ledger_of :: "wallet_db \<Rightarrow> string \<Rightarrow> ledger_item list" where
  "ledger_of db uid = rev (sort_key ledger_key (filter (\<lambda>r. LedgerUser r = uid) (ledger db)))"

definition ledger_limit :: "int \<Rightarrow> nat" where
  "ledger_limit limit = nat (let l = (if limit \<le> 0 then 100 else limit) in if l > 100 then 100 else l)"

definition ListWalletLedger ::
  "(string \<Rightarrow> string option) \<Rightarrow> (ledger_cursor \<Rightarrow> nat list) \<Rightarrow> (nat list \<Rightarrow> ledger_cursor option)
   \<Rightarrow> wallet_db \<Rightarrow> string \<Rightarrow> int \<Rightarrow> string \<Rightarrow> wallet_error + ledger_item list \<times> string" where
  "ListWalletLedger uuid_of genc gdec db userID limit cursor =
     (let n = ledger_limit limit
      in case decodeLedgerCursor gdec cursor of
           Inl err \<Rightarrow> Inl err
         | Inr sc \<Rightarrow>
             (case uuid_of userID of
                None \<Rightarrow> Inl ErrDatabase
              | Some uid \<Rightarrow>
                  (case (case sc of
                           None \<Rightarrow> Some (ledger_of db uid)
                         | Some c \<Rightarrow>
                             map_option (\<lambda>i. filter (\<lambda>r. ledger_key r < (LCCreateTime c, i)) (ledger_of db uid))
                               (uuid_of (LCID c))) of
                     None \<Rightarrow> Inl ErrDatabase
                   | Some rows \<Rightarrow>
                       (let items = take (n + 1) rows
                        in if length items > n
                           then (let items' = take n items; l = last items'
                                 in Inr (items', encodeLedgerCursor genc
                                      (Some \<lparr>LCUserID = LedgerUser l, LCCreateTime = LedgerCreateTime l,
                                             LCID = LedgerID l\<rparr>)))
                           else Inr (items, [])))))"

definition UpdateWalletLedgerMetadata ::
  "(string \<Rightarrow> string option) \<Rightarrow> (string \<Rightarrow> string \<Rightarrow> string) \<Rightarrow> gotime \<Rightarrow> wallet_db \<Rightarrow> string \<Rightarrow> string
   \<Rightarrow> string option \<Rightarrow> wallet_db \<times> (wallet_error + unit)" where
  "UpdateWalletLedgerMetadata uuid_of jcat now db ledgerID userID metadata =
     (let md = (case metadata of None \<Rightarrow> ''{}'' | Some m \<Rightarrow> m)
      in case (uuid_of ledgerID, uuid_of userID) of
           (Some lid, Some uid) \<Rightarrow>
             (let hit = (\<lambda>r. LedgerID r = lid \<and> LedgerUser r = uid)
              in if list_ex hit (ledger db)
                 then (db\<lparr>ledger := map (\<lambda>r. if hit r
                            then r\<lparr>LedgerMetadata := jcat (LedgerMetadata r) md, LedgerUpdateTime := now\<rparr>
                            else r) (ledger db)\<rparr>, Inr ())
                 else (db, Inl ErrLedgerItemNotFound))
         | _ \<Rightarrow> (db, Inl ErrDatabase))"

end
