(* ===== verification/Wallet_Props.thy ===== *)
theory Wallet_Props
  imports Wallet
begin

section \<open>Wallets: what an update does to the balances\<close>

text \<open>
  Balances read as integers.  The lemmas follow the nesting of the code: one changeset
  (\<open>apply_changes\<close>), one update (\<open>update_one\<close>), the batch (\<open>update_loop\<close>), the transaction
  (\<open>updateWalletsTx\<close>); the properties state the effect of \<open>UpdateWallets\<close> on the database.
\<close>

subsection \<open>One changeset\<close>

definition ibal :: "wallet \<Rightarrow> string \<Rightarrow> int" where
  "ibal w c = sint (balance w c)"

definition wallet_nonneg :: "wallet \<Rightarrow> bool" where
  "wallet_nonneg w \<longleftrightarrow> (\<forall>c. 0 \<le> ibal w c)"

lemma wallet_nonnegD: "wallet_nonneg w \<Longrightarrow> 0 \<le> ibal w c"
  by (simp add: wallet_nonneg_def)

lemma wallet_nonneg_empty [simp]: "wallet_nonneg fmempty"
  by (simp add: wallet_nonneg_def ibal_def balance_def)

lemma ibal_less: "ibal w c < 2 ^ 63"
  unfolding ibal_def by (rule sint64_range(2))

lemma balance_upd: "balance (fmupd k v w) c = (if c = k then v else balance w c)"
  by (simp add: balance_def)

lemma balance_outside: "c |\<notin>| fmdom w \<Longrightarrow> balance w c = 0"
  by (simp add: balance_def fmdom_notD)

lemma apply_changes_Inr:
  "distinct ks \<Longrightarrow> apply_changes uid cs ks w = Inr w' \<Longrightarrow>
   (\<forall>c. balance w' c = (if c \<in> set ks then balance w c + balance cs c else balance w c)) \<and>
   (\<forall>c \<in> set ks. 0 \<le> sint (balance w c + balance cs c))"
proof (induction ks arbitrary: w)
  case (Cons k ks)
  from Cons.prems have k: "k \<notin> set ks" "0 \<le> sint (balance w k + balance cs k)"
    and rest: "apply_changes uid cs ks (fmupd k (balance w k + balance cs k) w) = Inr w'"
    by (auto simp: Let_def split: if_splits)
  let ?w = "fmupd k (balance w k + balance cs k) w"
  have IH: "\<And>c. balance w' c = (if c \<in> set ks then balance ?w c + balance cs c else balance ?w c)"
    "\<And>c. c \<in> set ks \<Longrightarrow> 0 \<le> sint (balance ?w c + balance cs c)"
    using Cons.IH [OF _ rest] Cons.prems(1) by auto
  have "balance ?w c = balance w c" if "c \<in> set ks" for c
    using that k(1) by (auto simp: balance_upd)
  with IH(2) have "\<forall>c \<in> set (k # ks). 0 \<le> sint (balance w c + balance cs c)" using k(2) by auto
  then show ?case using IH(1) k(1) by (simp add: balance_upd)
qed simp

lemma apply_changes_ok:
  "distinct ks \<Longrightarrow> is_ok (apply_changes uid cs ks w) \<longleftrightarrow>
   (\<forall>c \<in> set ks. 0 \<le> sint (balance w c + balance cs c))"
proof (induction ks arbitrary: w)
  case (Cons k ks)
  let ?w = "fmupd k (balance w k + balance cs k) w"
  have "balance ?w c = balance w c" if "c \<in> set ks" for c
    using that Cons.prems by (auto simp: balance_upd)
  then show ?case using Cons.IH [of ?w] Cons.prems by (auto simp: Let_def)
qed simp

text \<open>In integers: the changeset goes through exactly when no balance leaves the 63-bit range.\<close>

definition fits :: "wallet \<Rightarrow> wallet \<Rightarrow> bool" where
  "fits w cs \<longleftrightarrow> (\<forall>c. 0 \<le> ibal w c + ibal cs c \<and> ibal w c + ibal cs c < 2 ^ 63)"

lemma fits_iff:
  assumes "valid_order ord" "wallet_nonneg w"
  shows "fits w cs \<longleftrightarrow> (\<forall>c \<in> set (ord (fmdom cs)). 0 \<le> sint (balance w c + balance cs c))"
proof -
  have "0 \<le> ibal w c + ibal cs c \<and> ibal w c + ibal cs c < 2 ^ 63 \<longleftrightarrow>
        0 \<le> sint (balance w c + balance cs c)" for c
    using sint64_add_nonneg(1) [of "balance w c" "balance cs c"] wallet_nonnegD [OF assms(2), of c]
    by (simp add: ibal_def)
  moreover have "0 \<le> sint (balance w c + balance cs c)" if "c \<notin> set (ord (fmdom cs))" for c
    using that wallet_nonnegD [OF assms(2), of c]
    by (simp add: valid_order_set [OF assms(1)] balance_outside ibal_def)
  ultimately show ?thesis unfolding fits_def by blast
qed

lemma apply_changes_fits:
  assumes "valid_order ord" "wallet_nonneg w"
  shows "is_ok (apply_changes uid cs (ord (fmdom cs)) w) \<longleftrightarrow> fits w cs"
  using apply_changes_ok [OF valid_order_distinct [OF assms(1)]] fits_iff [OF assms] by simp

lemma apply_changes_exact:
  assumes "valid_order ord" "wallet_nonneg w" "apply_changes uid cs (ord (fmdom cs)) w = Inr w'"
  shows "ibal w' c = ibal w c + ibal cs c" "wallet_nonneg w'"
proof -
  note r = apply_changes_Inr [OF valid_order_distinct [OF assms(1)] assms(3)]
  have eq: "balance w' c = balance w c + balance cs c" for c
    using r balance_outside [of c cs] by (simp add: valid_order_set [OF assms(1)])
  have "fits w cs" using r fits_iff [OF assms(1,2)] by simp
  then have "0 \<le> sint (balance w c + balance cs c)" for c
    using sint64_add_nonneg(1) [of "balance w c" "balance cs c"] wallet_nonnegD [OF assms(2), of c]
    by (simp add: ibal_def fits_def)
  then show exact: "ibal w' c = ibal w c + ibal cs c" for c
    using sint64_add_nonneg(2) [of "balance w c" "balance cs c"] wallet_nonnegD [OF assms(2), of c]
    by (simp add: ibal_def eq)
  show "wallet_nonneg w'" using \<open>fits w cs\<close> by (simp add: wallet_nonneg_def exact fits_def)
qed

subsection \<open>The batch\<close>

definition requested :: "wallet_update list \<Rightarrow> string \<Rightarrow> string \<Rightarrow> int" where
  "requested us uid c = (\<Sum>u\<leftarrow>us. if WUserID u = uid then ibal (Changeset u) c else 0)"

lemma requested_simps [simp]:
  "requested [] uid c = 0"
  "requested (u # us) uid c =
     (if WUserID u = uid then ibal (Changeset u) c else 0) + requested us uid c"
  by (simp_all add: requested_def)

definition loaded_nonneg :: "update_state \<Rightarrow> bool" where
  "loaded_nonneg st \<longleftrightarrow> fmpred (\<lambda>_ w. wallet_nonneg w) (us_wallets st)"

definition drawable :: "(nat \<Rightarrow> string) \<Rightarrow> update_state \<Rightarrow> bool" where
  "drawable newid st \<longleftrightarrow> inj newid \<and> (\<forall>i \<ge> us_drawn st. newid i \<notin> LedgerID ` set (us_ledger st))"

text \<open>What one update leaves behind.\<close>

lemma update_one_Inr:
  assumes ord: "valid_order ord" and nonneg: "loaded_nonneg st"
    and step: "update_one ord newid now lg u st = Inr st'"
  shows "loaded_nonneg st'"
    and "fmlookup (us_wallets st) uid = Some w \<Longrightarrow>
         \<exists>w'. fmlookup (us_wallets st') uid = Some w' \<and>
              (\<forall>c. ibal w' c = ibal w c + (if WUserID u = uid then ibal (Changeset u) c else 0))"
    and "fmdom (us_wallets st') = fmdom (us_wallets st)"
proof -
  have "loaded_nonneg st' \<and> (\<forall>uid w. fmlookup (us_wallets st) uid = Some w \<longrightarrow>
         (\<exists>w'. fmlookup (us_wallets st') uid = Some w' \<and>
              (\<forall>c. ibal w' c = ibal w c + (if WUserID u = uid then ibal (Changeset u) c else 0)))) \<and>
        fmdom (us_wallets st') = fmdom (us_wallets st)"
  proof (cases "fmlookup (us_wallets st) (WUserID u)")
    case None
    with step nonneg show ?thesis by (auto simp: update_one_def)
  next
    case (Some prev)
    with step obtain upd where upd:
      "apply_changes (WUserID u) (Changeset u) (ord (fmdom (Changeset u))) prev = Inr upd"
      by (auto simp: update_one_def split: sum.splits)
    have ws: "us_wallets st' = fmupd (WUserID u) upd (us_wallets st)"
      using step Some upd by (auto simp: update_one_def Let_def split: if_splits option.splits)
    have "wallet_nonneg prev" using nonneg Some by (auto simp: loaded_nonneg_def)
    note exact = apply_changes_exact [OF ord this upd]
    have "loaded_nonneg st'"
      using nonneg exact(2) by (auto simp: loaded_nonneg_def ws intro: fmpred_upd)
    moreover have "fmdom (us_wallets st') = fmdom (us_wallets st)"
      using fmdomI [OF Some] by (auto simp: ws)
    ultimately show ?thesis using exact(1) Some by (auto simp: ws)
  qed
  then show "loaded_nonneg st'" "fmlookup (us_wallets st) uid = Some w \<Longrightarrow>
         \<exists>w'. fmlookup (us_wallets st') uid = Some w' \<and>
              (\<forall>c. ibal w' c = ibal w c + (if WUserID u = uid then ibal (Changeset u) c else 0))"
    "fmdom (us_wallets st') = fmdom (us_wallets st)" by blast+
qed

lemma update_loop_Inr:
  assumes ord: "valid_order ord"
  shows "loaded_nonneg st \<Longrightarrow> update_loop ord newid now lg us st = Inr st' \<Longrightarrow>
    loaded_nonneg st' \<and> fmdom (us_wallets st') = fmdom (us_wallets st) \<and>
    (\<forall>uid w. fmlookup (us_wallets st) uid = Some w \<longrightarrow>
       (\<exists>w'. fmlookup (us_wallets st') uid = Some w' \<and> (\<forall>c. ibal w' c = ibal w c + requested us uid c)))"
proof (induction us arbitrary: st)
  case (Cons u us)
  then obtain st1 where st1: "update_one ord newid now lg u st = Inr st1"
    and rest: "update_loop ord newid now lg us st1 = Inr st'" by (auto split: sum.splits)
  note one = update_one_Inr [OF ord Cons.prems(1) st1]
  note IH = Cons.IH [OF one(1) rest]
  have "\<exists>w'. fmlookup (us_wallets st') uid = Some w' \<and>
             (\<forall>c. ibal w' c = ibal w c + requested (u # us) uid c)"
    if w: "fmlookup (us_wallets st) uid = Some w" for uid w
  proof -
    from one(2) [OF w] obtain w1 where w1: "fmlookup (us_wallets st1) uid = Some w1"
      "\<forall>c. ibal w1 c = ibal w c + (if WUserID u = uid then ibal (Changeset u) c else 0)" by blast
    with IH obtain w' where "fmlookup (us_wallets st') uid = Some w'"
      "\<forall>c. ibal w' c = ibal w1 c + requested us uid c" by blast
    with w1(2) show ?thesis by simp
  qed
  then show ?case using IH one(3) by simp
qed auto


text \<open>The batch goes through exactly when every running balance stays in range.\<close>

lemma update_one_ledger:
  assumes "update_one ord newid now lg u st = Inr st'"
  shows "if lg \<and> WUserID u |\<in>| fmdom (us_wallets st)
         then \<exists>row. us_ledger st' = us_ledger st @ [row] \<and> LedgerUser row = WUserID u \<and>
              LedgerChangeset row = Changeset u \<and> LedgerID row = newid (us_drawn st) \<and>
              us_drawn st' = Suc (us_drawn st)
         else us_ledger st' = us_ledger st \<and> us_drawn st' = us_drawn st"
proof (cases "fmlookup (us_wallets st) (WUserID u)")
  case None
  with assms show ?thesis by (auto simp: update_one_def fmlookup_dom_iff)
next
  case (Some w)
  then have "WUserID u |\<in>| fmdom (us_wallets st)" by (rule fmdomI)
  with assms Some show ?thesis
    by (cases "apply_changes (WUserID u) (Changeset u) (ord (fmdom (Changeset u))) w")
       (auto simp: update_one_def Let_def ledger_insert_def split: if_splits)
qed

lemma update_one_drawable:
  assumes draw: "drawable newid st" and step: "update_one ord newid now lg u st = Inr st'"
  shows "drawable newid st'"
proof (cases "lg \<and> WUserID u |\<in>| fmdom (us_wallets st)")
  case True
  with update_one_ledger [OF step] obtain row where "us_ledger st' = us_ledger st @ [row]"
    "LedgerID row = newid (us_drawn st)" "us_drawn st' = Suc (us_drawn st)" by auto
  moreover have "newid i \<noteq> newid (us_drawn st)" if "Suc (us_drawn st) \<le> i" for i
    using draw that by (auto simp: drawable_def dest: injD)
  moreover have "newid i \<notin> LedgerID ` set (us_ledger st)" if "Suc (us_drawn st) \<le> i" for i
    using draw that by (simp add: drawable_def)
  ultimately show ?thesis using draw by (simp add: drawable_def)
next
  case False
  with update_one_ledger [OF step] draw show ?thesis by (auto simp: drawable_def)
qed

lemma update_one_ok:
  assumes ord: "valid_order ord" and nonneg: "loaded_nonneg st" and draw: "drawable newid st"
  shows "is_ok (update_one ord newid now lg u st) \<longleftrightarrow>
    (\<forall>w. fmlookup (us_wallets st) (WUserID u) = Some w \<longrightarrow> fits w (Changeset u))"
proof (cases "fmlookup (us_wallets st) (WUserID u)")
  case None
  then show ?thesis by (simp add: update_one_def)
next
  case (Some w)
  then have "wallet_nonneg w" using nonneg by (auto simp: loaded_nonneg_def)
  note fits = apply_changes_fits [OF ord this, of "WUserID u" "Changeset u"]
  have "newid (us_drawn st) \<notin> LedgerID ` set (us_ledger st)"
    using draw by (simp add: drawable_def)
  then show ?thesis
    using fits Some
    by (cases "apply_changes (WUserID u) (Changeset u) (ord (fmdom (Changeset u))) w")
       (auto simp: update_one_def Let_def ledger_insert_def)
qed

definition in_range :: "int \<Rightarrow> bool" where
  "in_range x \<longleftrightarrow> 0 \<le> x \<and> x < 2 ^ 63"

definition running_ok :: "(string, wallet) fmap \<Rightarrow> wallet_update list \<Rightarrow> bool" where
  "running_ok ws us \<longleftrightarrow>
     (\<forall>n uid w c. fmlookup ws uid = Some w \<longrightarrow> in_range (ibal w c + requested (take n us) uid c))"

lemma running_ok_cons:
  assumes nonneg: "fmpred (\<lambda>_ w. wallet_nonneg w) ws"
    and dom: "fmdom ws' = fmdom ws"
    and upd: "\<And>uid w. fmlookup ws uid = Some w \<Longrightarrow>
         \<exists>w'. fmlookup ws' uid = Some w' \<and>
              (\<forall>c. ibal w' c = ibal w c + (if WUserID u = uid then ibal (Changeset u) c else 0))"
  shows "running_ok ws (u # us) \<longleftrightarrow> running_ok ws' us"
proof
  assume run: "running_ok ws (u # us)"
  show "running_ok ws' us"
    unfolding running_ok_def
  proof (intro allI impI)
    fix n uid w' c assume w': "fmlookup ws' uid = Some w'"
    with dom obtain w where w: "fmlookup ws uid = Some w" by (metis fmdomI fmlookup_dom_iff)
    from upd [OF this] w' have "ibal w' c = ibal w c + (if WUserID u = uid then ibal (Changeset u) c else 0)"
      by auto
    moreover have "in_range (ibal w c + requested (take (Suc n) (u # us)) uid c)"
      using run w unfolding running_ok_def by blast
    ultimately show "in_range (ibal w' c + requested (take n us) uid c)"
      by (simp add: add.assoc)
  qed
next
  assume run: "running_ok ws' us"
  show "running_ok ws (u # us)"
    unfolding running_ok_def
  proof (intro allI impI)
    fix n uid w c assume w: "fmlookup ws uid = Some w"
    show "in_range (ibal w c + requested (take n (u # us)) uid c)"
    proof (cases n)
      case 0
      have "wallet_nonneg w" using nonneg w by auto
      with 0 ibal_less [of w c] show ?thesis by (simp add: in_range_def wallet_nonneg_def)
    next
      case (Suc m)
      from upd [OF w] obtain w' where "fmlookup ws' uid = Some w'"
        "ibal w' c = ibal w c + (if WUserID u = uid then ibal (Changeset u) c else 0)" by blast
      with run have "in_range (ibal w c + (if WUserID u = uid then ibal (Changeset u) c else 0) +
          requested (take m us) uid c)" unfolding running_ok_def by metis
      with Suc show ?thesis by (simp add: add.assoc)
    qed
  qed
qed

lemma update_loop_ok:
  assumes ord: "valid_order ord"
  shows "loaded_nonneg st \<Longrightarrow> drawable newid st \<Longrightarrow>
    is_ok (update_loop ord newid now lg us st) \<longleftrightarrow> running_ok (us_wallets st) us"
proof (induction us arbitrary: st)
  case Nil
  then show ?case using ibal_less
    by (auto simp: running_ok_def in_range_def loaded_nonneg_def wallet_nonneg_def)
next
  case (Cons u us)
  note ok = update_one_ok [OF ord Cons.prems, of now lg u]
  show ?case
  proof (cases "update_one ord newid now lg u st")
    case (Inl err)
    with ok obtain w where w: "fmlookup (us_wallets st) (WUserID u) = Some w" "\<not> fits w (Changeset u)"
      by auto
    then obtain c where "\<not> in_range (ibal w c + requested (take 1 (u # us)) (WUserID u) c)"
      by (auto simp: fits_def in_range_def)
    with w(1) have "\<not> running_ok (us_wallets st) (u # us)" unfolding running_ok_def by blast
    with Inl show ?thesis by simp
  next
    case (Inr st1)
    note one = update_one_Inr [OF ord Cons.prems(1) Inr]
    have "running_ok (us_wallets st) (u # us) \<longleftrightarrow> running_ok (us_wallets st1) us"
      by (rule running_ok_cons) (use Cons.prems(1) one(2,3) in \<open>simp_all add: loaded_nonneg_def\<close>)
    with Cons.IH [OF one(1) update_one_drawable [OF Cons.prems(2) Inr]] Inr show ?thesis by simp
  qed
qed

subsection \<open>What is written back\<close>

definition writes_ok :: "(string, wallet) fmap \<Rightarrow> update_state \<Rightarrow> bool" where
  "writes_ok ws st \<longleftrightarrow> distinct (map fst (us_writes st)) \<and> fmdom (us_wallets st) = fmdom ws \<and>
     fst ` set (us_writes st) \<subseteq> fset (fmdom ws) \<and>
     (\<forall>uid w. fmlookup (us_wallets st) uid = Some w \<longrightarrow>
        (case map_of (us_writes st) uid of Some w1 \<Rightarrow> w1 = w | None \<Rightarrow> fmlookup ws uid = Some w))"

lemma update_one_writes:
  assumes ok: "writes_ok ws st" and step: "update_one ord newid now lg u st = Inr st'"
  shows "writes_ok ws st'"
proof (cases "fmlookup (us_wallets st) (WUserID u)")
  case None
  with assms show ?thesis by (simp add: update_one_def)
next
  case (Some prev)
  with step obtain upd where upd: "us_wallets st' = fmupd (WUserID u) upd (us_wallets st)"
    "us_writes st' = AList.update (WUserID u) upd (us_writes st)"
    by (auto simp: update_one_def Let_def split: sum.splits if_splits option.splits)
  have dom: "WUserID u \<in> fset (fmdom ws)" using ok fmdomI [OF Some] by (simp add: writes_ok_def)
  have "fmdom (us_wallets st') = fmdom ws"
    using ok dom unfolding upd(1) writes_ok_def by auto
  moreover have "distinct (map fst (us_writes st'))"
    unfolding upd(2) by (rule distinct_update) (use ok in \<open>simp add: writes_ok_def\<close>)
  moreover have "fst ` set (us_writes st') \<subseteq> fset (fmdom ws)"
    using ok dom by (auto simp: upd(2) dom_update writes_ok_def)
  ultimately show ?thesis
    using ok by (auto simp: writes_ok_def upd update_conv')
qed

lemma update_loop_writes:
  "writes_ok ws st \<Longrightarrow> update_loop ord newid now lg us st = Inr st' \<Longrightarrow> writes_ok ws st'"
proof (induction us arbitrary: st)
  case (Cons u us)
  then obtain st1 where st1: "update_one ord newid now lg u st = Inr st1"
    and rest: "update_loop ord newid now lg us st1 = Inr st'" by (auto split: sum.splits)
  show ?case by (rule Cons.IH [OF update_one_writes [OF Cons.prems(1) st1] rest])
qed simp

lemma lookup_fold_writes:
  "distinct (map fst ws) \<Longrightarrow>
   fmlookup (fold (\<lambda>(uid, w). fmupd uid (WMap w)) ws m) uid =
     (case map_of ws uid of Some w \<Rightarrow> Some (WMap w) | None \<Rightarrow> fmlookup m uid)"
proof (induction ws arbitrary: m)
  case (Cons p ws)
  obtain k w where p: "p = (k, w)" by (cases p)
  from Cons have "map_of ws k = None" by (simp add: p map_of_eq_None_iff)
  with Cons show ?case by (auto simp: p split: option.splits)
qed simp

lemma lock_rows_Inr:
  "lock_rows uuid_of db ids = Inr ws \<Longrightarrow>
   fmlookup ws uid = Some w \<longleftrightarrow>
     Some uid \<in> uuid_of ` set ids \<and>
     (\<exists>col. fmlookup (user_wallets db) uid = Some col \<and> parse_wallet col = Inr w)"
proof (induction ids arbitrary: ws)
  case (Cons i ids)
  then obtain j ws1 where j: "uuid_of i = Some j" and ws1: "lock_rows uuid_of db ids = Inr ws1"
    by (auto split: option.splits sum.splits)
  note IH = Cons.IH [OF ws1]
  show ?case
  proof (cases "fmlookup (user_wallets db) j")
    case None
    with Cons.prems j ws1 have "ws = ws1" by simp
    with IH None j show ?thesis by (auto simp del: image_insert simp: image_iff)
  next
    case (Some col)
    with Cons.prems j ws1 obtain v where v: "parse_wallet col = Inr v" "ws = fmupd j v ws1"
      by (auto split: sum.splits)
    with IH Some j show ?thesis by (auto simp: image_iff)
  qed
qed simp


subsection \<open>The database\<close>

definition db_balance :: "wallet_db \<Rightarrow> string \<Rightarrow> string \<Rightarrow> int" where
  "db_balance db uid c =
     (case fmlookup (user_wallets db) uid of
        None \<Rightarrow> 0
      | Some col \<Rightarrow> (case parse_wallet col of Inl _ \<Rightarrow> 0 | Inr w \<Rightarrow> ibal w c))"

definition db_nonneg :: "wallet_db \<Rightarrow> bool" where
  "db_nonneg db \<longleftrightarrow> (\<forall>uid c. 0 \<le> db_balance db uid c)"

text \<open>The keys of the user table are canonical UUIDs.\<close>

definition keys_canonical :: "(string \<Rightarrow> string option) \<Rightarrow> wallet_db \<Rightarrow> bool" where
  "keys_canonical uuid_of db \<longleftrightarrow> fmpred (\<lambda>uid _. uuid_of uid = Some uid) (user_wallets db)"

definition ledger_total :: "ledger_item list \<Rightarrow> string \<Rightarrow> string \<Rightarrow> int" where
  "ledger_total l uid c = (\<Sum>r\<leftarrow>l. if LedgerUser r = uid then ibal (LedgerChangeset r) c else 0)"

lemma ledger_total_append [simp]:
  "ledger_total (l @ [r]) uid c =
     ledger_total l uid c + (if LedgerUser r = uid then ibal (LedgerChangeset r) c else 0)"
  by (simp add: ledger_total_def)

lemma update_loop_ledger:
  assumes ord: "valid_order ord"
  shows "loaded_nonneg st \<Longrightarrow> update_loop ord newid now lg us st = Inr st' \<Longrightarrow>
    ledger_total (us_ledger st') uid c = ledger_total (us_ledger st) uid c +
      (if lg \<and> uid |\<in>| fmdom (us_wallets st) then requested us uid c else 0)"
proof (induction us arbitrary: st)
  case (Cons u us)
  then obtain st1 where st1: "update_one ord newid now lg u st = Inr st1"
    and rest: "update_loop ord newid now lg us st1 = Inr st'" by (auto split: sum.splits)
  note one = update_one_Inr [OF ord Cons.prems(1) st1]
  have "ledger_total (us_ledger st1) uid c = ledger_total (us_ledger st) uid c +
      (if lg \<and> uid |\<in>| fmdom (us_wallets st) \<and> WUserID u = uid then ibal (Changeset u) c else 0)"
    using update_one_ledger [OF st1] by (auto split: if_splits)
  with Cons.IH [OF one(1) rest] one(3) show ?case by auto
qed simp

definition start_state :: "(string, wallet) fmap \<Rightarrow> wallet_db \<Rightarrow> update_state" where
  "start_state ws db = \<lparr>us_wallets = ws, us_results = [], us_writes = [], us_ledger = ledger db,
                        us_drawn = 0\<rparr>"

lemma UpdateWallets_cases:
  assumes "UpdateWallets uuid_of ord newid now db us lg = (db', res)"
  obtains (nothing) "us = []" "db' = db" "res = Inr []"
  | (failed) e where "db' = db" "res = Inl e"
  | (committed) ws st where "us \<noteq> []" "lock_rows uuid_of db (sort (remdups (map WUserID us))) = Inr ws"
      "update_loop ord newid now lg us (start_state ws db) = Inr st" "res = Inr (us_results st)"
      "db' = db\<lparr>user_wallets := fold (\<lambda>(uid, w). fmupd uid (WMap w)) (us_writes st) (user_wallets db),
               ledger := us_ledger st\<rparr>"
proof -
  let ?ids = "sort (remdups (map WUserID us))"
  consider "us = []" | "us \<noteq> []" "\<exists>u \<in> set us. mlen (Changeset u) = 0"
    | "us \<noteq> []" "\<not> (\<exists>u \<in> set us. mlen (Changeset u) = 0)" by blast
  then show thesis
  proof cases
    case 1
    then have "db' = db" "res = Inr []" using assms by (simp_all add: UpdateWallets_def)
    with 1 show thesis by (rule nothing)
  next
    case 2
    then have "UpdateWallets uuid_of ord newid now db us lg = (db, Inl ErrEmptyChangeset)"
      by (simp only: UpdateWallets_def if_False if_True)
    with assms have "db' = db" "res = Inl ErrEmptyChangeset" by simp_all
    then show thesis by (rule failed)
  next
    case 3
    have U: "UpdateWallets uuid_of ord newid now db us lg =
        (case updateWalletsTx uuid_of ord newid now db us lg of
             Inl err \<Rightarrow> (db, Inl err) | Inr (db', results) \<Rightarrow> (db', Inr results))"
      by (simp only: UpdateWallets_def 3 if_False simp_thms)
    show thesis
    proof (cases "lock_rows uuid_of db ?ids")
      case (Inl e)
      with assms U have "db' = db" "res = Inl e" by (simp_all add: updateWalletsTx_def)
      then show thesis by (rule failed)
    next
      case ws: (Inr ws)
      show thesis
      proof (cases "update_loop ord newid now lg us (start_state ws db)")
        case (Inl e)
        with assms U ws have "db' = db" "res = Inl e"
          by (simp_all add: updateWalletsTx_def start_state_def)
        then show thesis by (rule failed)
      next
        case (Inr st)
        with assms U ws show thesis
          by (intro committed [OF 3(1) ws Inr]) (simp_all add: updateWalletsTx_def start_state_def)
      qed
    qed
  qed
qed

lemma lock_rows_nonneg:
  assumes "lock_rows uuid_of db ids = Inr ws" "db_nonneg db"
  shows "loaded_nonneg (start_state ws db)"
  unfolding loaded_nonneg_def
proof (rule fmpredI)
  fix uid w assume "fmlookup (us_wallets (start_state ws db)) uid = Some w"
  then obtain col where "fmlookup (user_wallets db) uid = Some col" "parse_wallet col = Inr w"
    by (auto simp: start_state_def lock_rows_Inr [OF assms(1)])
  then have "db_balance db uid c = ibal w c" for c by (simp add: db_balance_def)
  with assms(2) show "wallet_nonneg w" by (metis db_nonneg_def wallet_nonneg_def)
qed

text \<open>The effect of a committed batch on one balance and on the ledger total.\<close>

lemma committed_balance:
  assumes ord: "valid_order ord" and keys: "keys_canonical uuid_of db" and nonneg: "db_nonneg db"
    and lock: "lock_rows uuid_of db (sort (remdups (map WUserID us))) = Inr ws"
    and loop: "update_loop ord newid now lg us (start_state ws db) = Inr st"
    and db': "db' = db\<lparr>user_wallets := fold (\<lambda>(uid, w). fmupd uid (WMap w)) (us_writes st)
                 (user_wallets db), ledger := us_ledger st\<rparr>"
  shows "db_balance db' uid c = db_balance db uid c +
           (if uid |\<in>| fmdom (user_wallets db) then requested us uid c else 0)"
    and "0 \<le> db_balance db' uid c"
    and "ledger_total (ledger db') uid c = ledger_total (ledger db) uid c +
           (if lg \<and> uid |\<in>| fmdom (user_wallets db) then requested us uid c else 0)"
proof -
  note nn = lock_rows_nonneg [OF lock nonneg]
  note L = update_loop_Inr [OF ord nn loop]
  have "writes_ok ws (start_state ws db)" by (simp add: writes_ok_def start_state_def)
  from update_loop_writes [OF this loop] have W: "writes_ok ws st" .
  have req0: "requested us uid c = 0" if "uid \<notin> WUserID ` set us"
    using that by (induction us) auto
  have dom: "uid |\<in>| fmdom ws" if "uid \<in> WUserID ` set us" "uid |\<in>| fmdom (user_wallets db)"
  proof -
    from that(2) obtain col where col: "fmlookup (user_wallets db) uid = Some col"
      by (auto simp: fmlookup_dom_iff)
    with keys have u: "uuid_of uid = Some uid" by (auto simp: keys_canonical_def)
    from lock have "\<exists>w. parse_wallet col = Inr w"
    proof -
      have "lock_rows uuid_of db ids = Inr ws' \<Longrightarrow> uid \<in> set ids \<Longrightarrow> \<exists>w. parse_wallet col = Inr w"
        for ids ws'
        by (induction ids arbitrary: ws') (use u col in \<open>auto split: option.splits sum.splits\<close>)
      from this [OF lock] that(1) show ?thesis by auto
    qed
    then obtain w where "parse_wallet col = Inr w" ..
    with col u that(1) have "fmlookup ws uid = Some w"
      unfolding lock_rows_Inr [OF lock] by (auto intro!: rev_image_eqI)
    then show ?thesis by (rule fmdomI)
  qed
  have main: "db_balance db' uid c = db_balance db uid c +
      (if uid |\<in>| fmdom (user_wallets db) then requested us uid c else 0) \<and> 0 \<le> db_balance db' uid c"
  proof (cases "fmlookup ws uid")
    case None
    then have nws: "uid |\<notin>| fmdom ws" by (rule fmdom_notI)
    have sub: "fst ` set (us_writes st) \<subseteq> fset (fmdom ws)" and d: "distinct (map fst (us_writes st))"
      using W by (simp_all add: writes_ok_def)
    have "map_of (us_writes st) uid = None"
      unfolding map_of_eq_None_iff using sub nws by blast
    then have "db_balance db' uid c = db_balance db uid c"
      by (simp add: db' db_balance_def lookup_fold_writes [OF d])
    moreover have "uid |\<in>| fmdom (user_wallets db) \<Longrightarrow> requested us uid c = 0"
      using nws dom req0 by blast
    ultimately show ?thesis using nonneg by (simp add: db_nonneg_def)
  next
    case (Some w)
    then obtain col where col: "fmlookup (user_wallets db) uid = Some col" "parse_wallet col = Inr w"
      unfolding lock_rows_Inr [OF lock] by blast
    have "fmlookup (us_wallets (start_state ws db)) uid = Some w" using Some by (simp add: start_state_def)
    with L obtain w' where w': "fmlookup (us_wallets st) uid = Some w'"
      "ibal w' c = ibal w c + requested us uid c" by blast
    have stored: "case map_of (us_writes st) uid of Some w1 \<Rightarrow> w1 = w' | None \<Rightarrow> fmlookup ws uid = Some w'"
      using W w'(1) unfolding writes_ok_def by blast
    have d: "distinct (map fst (us_writes st))" using W by (simp add: writes_ok_def)
    have "db_balance db' uid c = ibal w' c"
    proof (cases "map_of (us_writes st) uid")
      case (Some w1)
      with stored show ?thesis
        by (simp add: db' db_balance_def lookup_fold_writes [OF d] parse_wallet_def)
    next
      case None
      with stored show ?thesis
        using Some col by (simp add: db' db_balance_def lookup_fold_writes [OF d])
    qed
    moreover have "db_balance db uid c = ibal w c" using col by (simp add: db_balance_def)
    moreover have "wallet_nonneg w'" using L w'(1) by (auto simp: loaded_nonneg_def)
    then have "0 \<le> ibal w' c" by (rule wallet_nonnegD)
    ultimately show ?thesis using w'(2) fmdomI [OF col(1)] by simp
  qed
  then show "db_balance db' uid c = db_balance db uid c +
      (if uid |\<in>| fmdom (user_wallets db) then requested us uid c else 0)"
    "0 \<le> db_balance db' uid c" by blast+
  have sub: "uid |\<in>| fmdom (user_wallets db)" if "uid |\<in>| fmdom ws"
    using that unfolding fmlookup_dom_iff lock_rows_Inr [OF lock] by blast
  have "(if lg \<and> uid |\<in>| fmdom ws then requested us uid c else 0) =
      (if lg \<and> uid |\<in>| fmdom (user_wallets db) then requested us uid c else 0)"
    using sub dom req0 by (cases "uid \<in> WUserID ` set us") simp_all
  then show "ledger_total (ledger db') uid c = ledger_total (ledger db) uid c +
      (if lg \<and> uid |\<in>| fmdom (user_wallets db) then requested us uid c else 0)"
    using update_loop_ledger [OF ord nn loop, of uid c] by (simp add: db' start_state_def)
qed


subsection \<open>Properties\<close>

text \<open>C2: a committed batch changes every balance by exactly the integer sum of the deltas requested for
  that user and currency, leaves unknown users alone, and no balance ever becomes negative; the
  64-bit additions of the code never wrap.\<close>

theorem UpdateWallets_exact:
  assumes "valid_order ord" and "keys_canonical uuid_of db" and "db_nonneg db"
    and "UpdateWallets uuid_of ord newid now db us lg = (db', Inr results)"
  shows "db_balance db' uid c = db_balance db uid c +
           (if uid |\<in>| fmdom (user_wallets db) then requested us uid c else 0) \<and>
         0 \<le> db_balance db' uid c"
  using assms(4)
proof (cases rule: UpdateWallets_cases)
  case nothing
  with assms(3) show ?thesis by (simp add: db_nonneg_def)
next
  case (committed ws st)
  from committed_balance [OF assms(1-3) committed(2,3,5)] show ?thesis by simp
qed simp

text \<open>C23: a batch is accepted exactly when, after each of its updates in turn, every balance it touches
  would lie between 0 and the largest 64-bit integer (given well-formed input, readable wallets and
  unused ledger IDs); the iteration order of the changesets does not matter.\<close>

theorem UpdateWallets_succeeds_iff:
  assumes "valid_order ord" and "db_nonneg db" and "us \<noteq> []"
    and "\<forall>u \<in> set us. Changeset u \<noteq> fmempty"
    and "lock_rows uuid_of db (sort (remdups (map WUserID us))) = Inr ws"
    and "inj newid" and "\<forall>i. newid i \<notin> LedgerID ` set (ledger db)"
  shows "is_ok (snd (UpdateWallets uuid_of ord newid now db us lg)) \<longleftrightarrow>
    (\<forall>n uid c. uid |\<in>| fmdom ws \<longrightarrow> in_range (db_balance db uid c + requested (take n us) uid c))"
proof -
  have draw: "drawable newid (start_state ws db)"
    using assms(6,7) by (simp add: drawable_def start_state_def)
  note nn = lock_rows_nonneg [OF assms(5,2)]
  have bal: "db_balance db uid c = ibal w c" if "fmlookup ws uid = Some w" for uid w c
    using that unfolding lock_rows_Inr [OF assms(5)] by (auto simp: db_balance_def)
  have "is_ok (snd (UpdateWallets uuid_of ord newid now db us lg)) \<longleftrightarrow>
        is_ok (update_loop ord newid now lg us (start_state ws db))"
    using assms(3-5)
    by (cases "update_loop ord newid now lg us (start_state ws db)")
       (simp_all add: UpdateWallets_def updateWalletsTx_def start_state_def)
  also have "\<dots> \<longleftrightarrow> running_ok ws us"
    using update_loop_ok [OF assms(1) nn draw] by (simp add: start_state_def)
  also have "\<dots> \<longleftrightarrow>
    (\<forall>n uid c. uid |\<in>| fmdom ws \<longrightarrow> in_range (db_balance db uid c + requested (take n us) uid c))"
    unfolding running_ok_def fmlookup_dom_iff using bal by metis
  finally show ?thesis .
qed

text \<open>C24: with the ledger enabled, the difference between each balance and the sum of the user's ledger
  entries is the same before and after any call, successful or not: the ledger accounts for every
  change of a balance.\<close>

theorem ledger_accounts_for_balances:
  assumes "valid_order ord" and "keys_canonical uuid_of db" and "db_nonneg db"
    and "UpdateWallets uuid_of ord newid now db us True = (db', res)"
  shows "db_balance db' uid c - ledger_total (ledger db') uid c =
         db_balance db uid c - ledger_total (ledger db) uid c"
  using assms(4)
proof (cases rule: UpdateWallets_cases)
  case (committed ws st)
  from committed_balance [OF assms(1-3) committed(2,3,5)] show ?thesis by simp
qed simp_all

subsection \<open>Paging through the ledger\<close>

record ledger_query =
  q_genc :: "ledger_cursor \<Rightarrow> nat list"
  q_gdec :: "nat list \<Rightarrow> ledger_cursor option"
  q_uuid :: "string \<Rightarrow> string option"
  q_db :: wallet_db
  q_user :: string
  q_limit :: int

text \<open>What the encoder, the stored IDs and the query have to satisfy.\<close>

definition gob_ok :: "(ledger_cursor \<Rightarrow> nat list) \<Rightarrow> (nat list \<Rightarrow> ledger_cursor option) \<Rightarrow> bool" where
  "gob_ok genc gdec \<longleftrightarrow>
     (\<forall>c. gdec (genc c) = Some c \<and> genc c \<noteq> [] \<and> (\<forall>b \<in> set (genc c). b < 256))"

definition ledger_ids_ok :: "(string \<Rightarrow> string option) \<Rightarrow> wallet_db \<Rightarrow> bool" where
  "ledger_ids_ok uuid_of db \<longleftrightarrow> distinct (map LedgerID (ledger db)) \<and>
     (\<forall>r \<in> set (ledger db). uuid_of (LedgerID r) = Some (LedgerID r))"

definition ledger_query_ok :: "ledger_query \<Rightarrow> bool" where
  "ledger_query_ok q \<longleftrightarrow> gob_ok (q_genc q) (q_gdec q) \<and> ledger_ids_ok (q_uuid q) (q_db q) \<and>
     q_uuid q (q_user q) = Some (q_user q)"

definition ledger_page :: "ledger_query \<Rightarrow> string \<Rightarrow> ledger_item list \<times> string" where
  "ledger_page q c =
     (case ListWalletLedger (q_uuid q) (q_genc q) (q_gdec q) (q_db q) (q_user q) (q_limit q) c of
        Inl _ \<Rightarrow> ([], []) | Inr p \<Rightarrow> p)"

definition ledger_items :: "ledger_query \<Rightarrow> ledger_item list" where
  "ledger_items q = ledger_of (q_db q) (q_user q)"

definition cursor_for :: "ledger_item \<Rightarrow> ledger_cursor" where
  "cursor_for l = \<lparr>LCUserID = LedgerUser l, LCCreateTime = LedgerCreateTime l, LCID = LedgerID l\<rparr>"

definition ledger_at :: "ledger_query \<Rightarrow> string \<Rightarrow> nat \<Rightarrow> bool" where
  "ledger_at q c i \<longleftrightarrow> i = 0 \<and> c = [] \<or>
     0 < i \<and> i \<le> length (ledger_items q) \<and>
     c = encodeLedgerCursor (q_genc q) (Some (cursor_for (ledger_items q ! (i - 1))))"

lemma ledger_limit_pos: "0 < ledger_limit limit"
  by (simp add: ledger_limit_def Let_def)

lemma ledger_of_set: "set (ledger_of db uid) \<subseteq> set (ledger db)"
  by (auto simp: ledger_of_def)

lemma ledger_of_sorted:
  assumes "distinct (map LedgerID (ledger db))"
  shows "sorted_wrt (\<lambda>a b. ledger_key b < ledger_key a) (ledger_of db uid)"
proof -
  have "distinct (map LedgerID (filter (\<lambda>r. LedgerUser r = uid) (ledger db)))"
    using assms by (simp add: distinct_map_filter)
  then have "distinct (map ledger_key (filter (\<lambda>r. LedgerUser r = uid) (ledger db)))"
    by (auto simp: distinct_map inj_on_def ledger_key_def)
  then show ?thesis unfolding ledger_of_def by (rule sorted_wrt_rev_sort_key)
qed

lemma ledger_page_at:
  assumes ok: "ledger_query_ok q" and pos: "ledger_at q c i"
  defines "k \<equiv> ledger_limit (q_limit q)" and "items \<equiv> ledger_items q"
  shows "ledger_page q c = (take k (drop i items),
    if i + k < length items
    then encodeLedgerCursor (q_genc q) (Some (cursor_for (last (take k (drop i items))))) else [])"
proof -
  have ids: "ledger_ids_ok (q_uuid q) (q_db q)" and gob: "gob_ok (q_genc q) (q_gdec q)"
    and user: "q_uuid q (q_user q) = Some (q_user q)" using ok by (auto simp: ledger_query_ok_def)
  let ?sc = "if i = 0 then None else Some (cursor_for (items ! (i - 1)))"
  have dec: "decodeLedgerCursor (q_gdec q) c = Inr ?sc"
    using pos gob
    by (auto simp: ledger_at_def decodeLedgerCursor_def encodeLedgerCursor_def gob_ok_def
        raw_url_encode_nonempty raw_url_roundtrip items_def)
  have rows: "(case ?sc of None \<Rightarrow> Some (ledger_of (q_db q) (q_user q))
      | Some c \<Rightarrow> map_option (\<lambda>j. filter (\<lambda>r. ledger_key r < (LCCreateTime c, j)) (ledger_of (q_db q) (q_user q)))
                    (q_uuid q (LCID c))) = Some (drop i items)"
  proof (cases "i = 0")
    case False
    with pos have i: "i - 1 < length items" by (auto simp: ledger_at_def items_def)
    then have "items ! (i - 1) \<in> set (ledger (q_db q))"
      using ledger_of_set nth_mem unfolding items_def ledger_items_def by blast
    then have "q_uuid q (LedgerID (items ! (i - 1))) = Some (LedgerID (items ! (i - 1)))"
      using ids by (simp add: ledger_ids_ok_def)
    moreover have "filter (\<lambda>r. ledger_key r < ledger_key (items ! (i - 1))) items = drop (Suc (i - 1)) items"
      by (rule filter_beyond [of "\<lambda>a b. b < a" ledger_key])
         (use ids ledger_of_sorted i in \<open>auto simp: items_def ledger_items_def ledger_ids_ok_def\<close>)
    ultimately show ?thesis using False by (simp add: cursor_for_def ledger_key_def items_def ledger_items_def)
  qed (simp add: items_def ledger_items_def)
  have k: "0 < k" by (simp add: k_def ledger_limit_pos)
  have "min (length (drop i items)) (k + 1) > k \<longleftrightarrow> i + k < length items" by auto
  moreover have "take k (take (k + 1) (drop i items)) = take k (drop i items)" by simp
  moreover have "\<not> i + k < length items \<Longrightarrow> take (k + 1) (drop i items) = take k (drop i items)" by simp
  ultimately show ?thesis
    unfolding ledger_page_def ListWalletLedger_def Let_def dec sum.case user option.case rows
      k_def [symmetric] length_take
    by (simp add: cursor_for_def del: take_take take_all_iff)
qed

interpretation ledger_pager: cursor_pager ledger_query_ok ledger_page "\<lambda>c. c = []" ledger_items
  "\<lambda>q. ledger_limit (q_limit q)" ledger_at
proof unfold_locales
  show "0 < ledger_limit (q_limit q)" for q :: ledger_query by (rule ledger_limit_pos)
next
  fix q c i assume ok: "ledger_query_ok q" and pos: "ledger_at q c i"
  define k where "k = ledger_limit (q_limit q)"
  define items where "items = ledger_items q"
  note page = ledger_page_at [OF ok pos, folded k_def items_def]
  show "\<exists>c'. ledger_page q c = (drop i (ledger_items q), c') \<and> c' = []"
    if "length (ledger_items q) \<le> i + ledger_limit (q_limit q)"
    using that by (simp add: page) (simp add: items_def k_def)
  assume "i + ledger_limit (q_limit q) < length (ledger_items q)"
  then have lt: "i + k < length items" by (simp add: k_def items_def)
  have k: "0 < k" by (simp add: k_def ledger_limit_pos)
  have last: "last (take k (drop i items)) = items ! (i + k - 1)"
    using lt k by (simp add: last_conv_nth min_def)
  have "encodeLedgerCursor (q_genc q) (Some (cursor_for (items ! (i + k - 1)))) \<noteq> []"
    using ok by (simp add: encodeLedgerCursor_def raw_url_encode_nonempty ledger_query_ok_def gob_ok_def)
  moreover have "ledger_at q (encodeLedgerCursor (q_genc q) (Some (cursor_for (items ! (i + k - 1))))) (i + k)"
    using lt k by (simp add: ledger_at_def items_def)
  ultimately show "\<exists>c'. ledger_page q c = (take (ledger_limit (q_limit q)) (drop i (ledger_items q)), c') \<and>
      c' \<noteq> [] \<and> ledger_at q c' (i + ledger_limit (q_limit q))"
    using lt last by (simp add: page) (simp add: items_def k_def)
qed

text \<open>following the ledger cursor from the start returns every ledger entry of the user exactly once,
  newest first, for every page size, when the cursor encoding can be decoded again.\<close>

lemma ledger_pages_complete:
  assumes "ledger_query_ok q" and "length (ledger (q_db q)) \<le> n"
  shows "follow (ledger_page q) (\<lambda>c. c = []) (Suc n) [] =
         rev (sort_key ledger_key (filter (\<lambda>r. LedgerUser r = q_user q) (ledger (q_db q))))"
proof -
  have "length (ledger_items q) \<le> length (ledger (q_db q))"
    by (simp add: ledger_items_def ledger_of_def)
  with assms(2) have "length (ledger_items q) \<le> n" by simp
  from ledger_pager.follow_from_start [OF assms(1) _ this, of "[]"]
  show ?thesis by (simp add: ledger_at_def ledger_items_def ledger_of_def)
qed

subsection \<open>Instances\<close>

definition demo_wallet_db :: wallet_db where
  "demo_wallet_db = \<lparr>user_wallets = fmupd ''u1'' (WMap (fmupd ''gold'' 5 fmempty)) fmempty, ledger = []\<rparr>"

definition demo_update :: "string \<Rightarrow> 64 word \<Rightarrow> wallet_update" where
  "demo_update c d = \<lparr>WUserID = ''u1'', Changeset = fmupd c d fmempty, Metadata = None\<rparr>"

definition demo_newid :: "nat \<Rightarrow> string" where
  "demo_newid n = replicate n CHR ''x''"

lemma demo_wallet_nonneg: "db_nonneg demo_wallet_db"
  by (auto simp: db_nonneg_def db_balance_def demo_wallet_db_def parse_wallet_def ibal_def balance_def
      split: option.splits if_splits)

lemma demo_wallet_keys: "keys_canonical Some demo_wallet_db"
  by (auto simp: keys_canonical_def demo_wallet_db_def)

lemma demo_update_result:
  "\<exists>db' results. UpdateWallets Some sorted_list_of_fset demo_newid 0 demo_wallet_db
     [demo_update ''gold'' (-3), demo_update ''gem'' 2] True = (db', Inr results)"
  by (simp add: UpdateWallets_def updateWalletsTx_def demo_wallet_db_def demo_update_def parse_wallet_def
      update_one_def balance_def Let_def ledger_insert_def demo_newid_def mlen_fmupd
      sorted_list_of_fset.rep_eq)

theorem UpdateWallets_exact_witness:
  "\<exists>db' results. UpdateWallets Some sorted_list_of_fset demo_newid 0 demo_wallet_db
     [demo_update ''gold'' (-3), demo_update ''gem'' 2] True = (db', Inr results) \<and>
     db_balance db' ''u1'' ''gold'' = 2"
proof -
  from demo_update_result obtain db' results where
    U: "UpdateWallets Some sorted_list_of_fset demo_newid 0 demo_wallet_db
     [demo_update ''gold'' (-3), demo_update ''gem'' 2] True = (db', Inr results)" by blast
  from UpdateWallets_exact [OF valid_order_sorted demo_wallet_keys demo_wallet_nonneg U, of "''u1''" "''gold''"]
  have "db_balance db' ''u1'' ''gold'' = 2"
    by (simp add: db_balance_def demo_wallet_db_def parse_wallet_def ibal_def balance_def demo_update_def)
  with U show ?thesis by blast
qed

theorem ledger_accounts_for_balances_witness:
  "db_balance (fst (UpdateWallets Some sorted_list_of_fset demo_newid 0 demo_wallet_db
     [demo_update ''gold'' (-3), demo_update ''gem'' 2] True)) ''u1'' ''gold'' -
   ledger_total (ledger (fst (UpdateWallets Some sorted_list_of_fset demo_newid 0 demo_wallet_db
     [demo_update ''gold'' (-3), demo_update ''gem'' 2] True))) ''u1'' ''gold'' = 5"
  using ledger_accounts_for_balances [OF valid_order_sorted demo_wallet_keys demo_wallet_nonneg
      prod.collapse [symmetric], of demo_newid 0 "[demo_update ''gold'' (-3), demo_update ''gem'' 2]"
      "''u1''" "''gold''"]
  by (simp add: db_balance_def demo_wallet_db_def parse_wallet_def ibal_def balance_def
      ledger_total_def)

theorem UpdateWallets_succeeds_iff_witness:
  "\<not> is_ok (snd (UpdateWallets Some sorted_list_of_fset demo_newid 0 demo_wallet_db
     [demo_update ''gold'' (-6), demo_update ''gold'' 10] True))"
proof -
  let ?us = "[demo_update ''gold'' (-6), demo_update ''gold'' 10]"
  have ids: "sort (remdups (map WUserID ?us)) = [''u1'']" by (simp add: demo_update_def)
  have lock: "lock_rows Some demo_wallet_db (sort (remdups (map WUserID ?us))) =
      Inr (fmupd ''u1'' (fmupd ''gold'' 5 fmempty) fmempty)"
    unfolding ids by (simp add: demo_wallet_db_def parse_wallet_def)
  have inj: "inj demo_newid" by (rule injI) (metis demo_newid_def length_replicate)
  have ne: "\<forall>u \<in> set ?us. Changeset u \<noteq> fmempty" by (simp add: demo_update_def)
  have fresh: "\<forall>i. demo_newid i \<notin> LedgerID ` set (ledger demo_wallet_db)"
    by (simp add: demo_wallet_db_def)
  have "\<not> in_range (db_balance demo_wallet_db ''u1'' ''gold'' + requested (take 1 ?us) ''u1'' ''gold'')"
    by (simp add: db_balance_def demo_wallet_db_def parse_wallet_def ibal_def balance_def demo_update_def
        in_range_def)
  moreover have "''u1'' |\<in>| fmdom (fmupd ''u1'' (fmupd ''gold'' 5 fmempty) fmempty :: (string, wallet) fmap)"
    by simp
  moreover have "?us \<noteq> []" by simp
  note UpdateWallets_succeeds_iff [OF valid_order_sorted demo_wallet_nonneg this ne lock inj fresh, of 0 True]
  ultimately show ?thesis by blast
qed


text \<open>A self-delimiting encoding of cursors: lengths in unary, then the bytes.\<close>

definition demo_genc :: "ledger_cursor \<Rightarrow> nat list" where
  "demo_genc c = (if LCCreateTime c < 0 then 1 else 0) #
     replicate (nat \<bar>LCCreateTime c\<bar>) 1 @ 0 #
     replicate (length (LCUserID c)) 1 @ 0 # string_bytes (LCUserID c) @ string_bytes (LCID c)"

fun demo_gdec :: "nat list \<Rightarrow> ledger_cursor option" where
  "demo_gdec [] = None"
| "demo_gdec (s # bs) =
     (let (t, bs1) = unary_take bs; (n, bs2) = unary_take bs1
      in Some \<lparr>LCUserID = bytes_string (take n bs2),
               LCCreateTime = (if s = 1 then - int t else int t),
               LCID = bytes_string (drop n bs2)\<rparr>)"

lemma demo_gob: "gob_ok demo_genc demo_gdec"
proof -
  have "demo_gdec (demo_genc c) = Some c" for c
  proof -
    have "length (LCUserID c) = length (string_bytes (LCUserID c))" by (simp add: string_bytes_def)
    then show ?thesis
      unfolding demo_genc_def demo_gdec.simps unary_take_replicate Let_def prod.case
      by (simp add: bytes_string_bytes)
  qed
  moreover have "\<forall>b \<in> set (demo_genc c). b < 256" for c
    using string_bytes_bound [of "LCUserID c"] string_bytes_bound [of "LCID c"]
    by (auto simp: demo_genc_def)
  ultimately show ?thesis by (simp add: gob_ok_def) (simp add: demo_genc_def)
qed

definition demo_row :: "string \<Rightarrow> gotime \<Rightarrow> ledger_item" where
  "demo_row i t = \<lparr>LedgerID = i, LedgerUser = ''u1'', LedgerChangeset = fmempty,
     LedgerMetadata = ''{}'', LedgerCreateTime = t, LedgerUpdateTime = t\<rparr>"

definition demo_ledger_query :: ledger_query where
  "demo_ledger_query = \<lparr>q_genc = demo_genc, q_gdec = demo_gdec, q_uuid = Some,
     q_db = demo_wallet_db\<lparr>ledger := [demo_row ''a'' 1, demo_row ''b'' 3, demo_row ''c'' 2]\<rparr>,
     q_user = ''u1'', q_limit = 1\<rparr>"

lemma ledger_pages_complete_witness:
  "map LedgerID (follow (ledger_page demo_ledger_query) (\<lambda>c. c = []) 4 []) = [''b'', ''c'', ''a'']"
proof -
  have "ledger_query_ok demo_ledger_query"
    by (simp add: ledger_query_ok_def demo_ledger_query_def demo_gob ledger_ids_ok_def demo_row_def)
  moreover have "length (ledger (q_db demo_ledger_query)) \<le> 3"
    by (simp add: demo_ledger_query_def)
  ultimately have "follow (ledger_page demo_ledger_query) (\<lambda>c. c = []) (Suc 3) [] =
     rev (sort_key ledger_key (filter (\<lambda>r. LedgerUser r = q_user demo_ledger_query)
       (ledger (q_db demo_ledger_query))))"
    by (rule ledger_pages_complete)
  then show ?thesis by (simp add: demo_ledger_query_def demo_row_def ledger_key_def)
qed

end
