(* ===== verification/Session_Store.thy ===== *)
theory Session_Store
  imports Prelude
begin

section \<open>Refresh tokens\<close>

text \<open>
  Models the memory-backed store of \<open>internal/auth/session_store.go\<close> and the refresh handlers of
  \<open>internal/api/server.go\<close> and \<open>internal/api/auth_server.go\<close>.  The Go interface \<open>SessionStore\<close> is a record of
  functions over a store state; \<open>MemorySessionStore\<close> fills it in.  The locale \<open>session_store\<close> is the
  contract the handlers rely on: who owns a token, whether it was already rotated, and what each
  operation does to both.  Every method of the store holds its mutex, so each is one atomic step;
  a handler is several steps.

  The user table is a function from a user ID to the user name and the disable time; a new refresh
  token (a random UUID) is an argument.  Access tokens (JWTs) enter through their \<open>jti\<close> and expiry.
\<close>

subsection \<open>The interface\<close>

datatype session_error = ErrRefreshNotFound | ErrUserRevoked | ErrTokenReused string

text \<open>\<open>ErrTokenReused u\<close> is the error that comes with \<open>theftDetected\<close> and the user ID.\<close>

record 's session_ops =
  op_register :: "'s \<Rightarrow> string \<Rightarrow> string \<Rightarrow> string \<Rightarrow> 's"
  op_validate :: "'s \<Rightarrow> string \<Rightarrow> 's \<times> (session_error + string)"
  op_revoke_all :: "'s \<Rightarrow> string \<Rightarrow> 's"
  op_revoke_token :: "'s \<Rightarrow> string \<Rightarrow> 's"
  op_deny_jti :: "'s \<Rightarrow> string \<Rightarrow> gotime \<Rightarrow> 's"
  op_jti_denied :: "gotime \<Rightarrow> 's \<Rightarrow> string \<Rightarrow> 's \<times> bool"
  op_user_revoked :: "'s \<Rightarrow> string \<Rightarrow> bool"

subsection \<open>The memory store\<close>

record memory_store =
  tokens :: "(string, string) fmap"
  tokenFamily :: "(string, string) fmap"
  usedTokens :: "(string, bool) fmap"
  revokedUsers :: "(string, bool) fmap"
  jwtDeny :: "(string, gotime) fmap"

definition NewMemorySessionStore :: memory_store where
  "NewMemorySessionStore = \<lparr>tokens = fmempty, tokenFamily = fmempty, usedTokens = fmempty,
     revokedUsers = fmempty, jwtDeny = fmempty\<rparr>"

definition flag :: "(string, bool) fmap \<Rightarrow> string \<Rightarrow> bool" where
  "flag m k = (case fmlookup m k of None \<Rightarrow> False | Some b \<Rightarrow> b)"

definition RegisterSession :: "memory_store \<Rightarrow> string \<Rightarrow> string \<Rightarrow> string \<Rightarrow> memory_store" where
  "RegisterSession m userID token parentToken =
     (let m1 = m\<lparr>revokedUsers := fmdrop userID (revokedUsers m),
                 tokens := fmupd token userID (tokens m)\<rparr>
      in if parentToken \<noteq> []
         then m1\<lparr>tokenFamily := fmupd token parentToken (tokenFamily m),
                 usedTokens := fmupd parentToken True (usedTokens m)\<rparr>
         else m1)"

text \<open>The loop over \<open>m.tokens\<close> that deletes everything the user owns; its order is irrelevant.\<close>

definition owned_tokens :: "memory_store \<Rightarrow> string \<Rightarrow> string fset" where
  "owned_tokens m userID = ffilter (\<lambda>t. fmlookup (tokens m) t = Some userID) (fmdom (tokens m))"

definition drop_owned :: "memory_store \<Rightarrow> string \<Rightarrow> memory_store" where
  "drop_owned m userID =
     (let ts = owned_tokens m userID
      in m\<lparr>tokens := fmdrop_fset ts (tokens m), tokenFamily := fmdrop_fset ts (tokenFamily m),
           usedTokens := fmdrop_fset ts (usedTokens m)\<rparr>)"

definition RevokeAllSessions :: "memory_store \<Rightarrow> string \<Rightarrow> memory_store" where
  "RevokeAllSessions m userID =
     drop_owned (m\<lparr>revokedUsers := fmupd userID True (revokedUsers m)\<rparr>) userID"

definition ValidateAndRotateSession ::
  "memory_store \<Rightarrow> string \<Rightarrow> memory_store \<times> (session_error + string)" where
  "ValidateAndRotateSession m token =
     (case fmlookup (tokens m) token of
        None \<Rightarrow> (m, Inl ErrRefreshNotFound)
      | Some userID \<Rightarrow>
          if flag (revokedUsers m) userID then (m, Inl ErrUserRevoked)
          else if flag (usedTokens m) token
          then (let m1 = drop_owned m userID
                in (m1\<lparr>revokedUsers := fmupd userID True (revokedUsers m1)\<rparr>,
                    Inl (ErrTokenReused userID)))
          else (m, Inr userID))"

definition RevokeRefreshToken :: "memory_store \<Rightarrow> string \<Rightarrow> memory_store" where
  "RevokeRefreshToken m token =
     m\<lparr>tokens := fmdrop token (tokens m), tokenFamily := fmdrop token (tokenFamily m),
       usedTokens := fmdrop token (usedTokens m)\<rparr>"

definition BlacklistAccessJTI :: "memory_store \<Rightarrow> string \<Rightarrow> gotime \<Rightarrow> memory_store" where
  "BlacklistAccessJTI m jti until =
     (if jti = [] then m else m\<lparr>jwtDeny := fmupd jti until (jwtDeny m)\<rparr>)"

definition IsAccessJTIBlacklisted :: "gotime \<Rightarrow> memory_store \<Rightarrow> string \<Rightarrow> memory_store \<times> bool" where
  "IsAccessJTIBlacklisted now m jti =
     (if jti = [] then (m, False)
      else case fmlookup (jwtDeny m) jti of
             None \<Rightarrow> (m, False)
           | Some until \<Rightarrow>
               if now > until then (m\<lparr>jwtDeny := fmdrop jti (jwtDeny m)\<rparr>, False) else (m, True))"

definition IsUserRevoked :: "memory_store \<Rightarrow> string \<Rightarrow> bool" where
  "IsUserRevoked m userID = flag (revokedUsers m) userID"

definition memory_ops :: "memory_store session_ops" where
  "memory_ops = \<lparr>op_register = RegisterSession, op_validate = ValidateAndRotateSession,
     op_revoke_all = RevokeAllSessions, op_revoke_token = RevokeRefreshToken,
     op_deny_jti = BlacklistAccessJTI, op_jti_denied = IsAccessJTIBlacklisted,
     op_user_revoked = IsUserRevoked\<rparr>"

subsection \<open>Handlers\<close>

datatype refresh_error =
    Compromised | Unauthorized session_error | UserNotFound | AccountDisabled

text \<open>The user table row the refresh handler reads: user name and disable time.\<close>

type_synonym user_rows = "string \<Rightarrow> (string \<times> gotime) option"

text \<open>\<open>handleSessionRefresh\<close> after the request hooks: the part before and after the new token is minted.\<close>

definition refresh_check ::
  "'s session_ops \<Rightarrow> user_rows \<Rightarrow> 's \<Rightarrow> string \<Rightarrow> 's \<times> (refresh_error + string)" where
  "refresh_check ops users s token =
     (case op_validate ops s token of
        (s1, Inl (ErrTokenReused _)) \<Rightarrow> (s1, Inl Compromised)
      | (s1, Inl err) \<Rightarrow> (s1, Inl (Unauthorized err))
      | (s1, Inr userID) \<Rightarrow>
          (case users userID of
             None \<Rightarrow> (s1, Inl UserNotFound)
           | Some (username, disableTime) \<Rightarrow>
               if disableTime > 0 then (op_revoke_all ops s1 userID, Inl AccountDisabled)
               else (s1, Inr userID)))"

definition handleSessionRefresh ::
  "'s session_ops \<Rightarrow> user_rows \<Rightarrow> string \<Rightarrow> 's \<Rightarrow> string \<Rightarrow> 's \<times> (refresh_error + string \<times> string)" where
  "handleSessionRefresh ops users newRefresh s token =
     (case refresh_check ops users s token of
        (s1, Inl err) \<Rightarrow> (s1, Inl err)
      | (s1, Inr userID) \<Rightarrow>
          (op_register ops s1 userID newRefresh token, Inr (userID, newRefresh)))"

text \<open>
  The same handler as other requests see it: it calls the store to validate, reads the row of the user and
  mints the tokens (either can fail), and calls the store again.  \<open>refresh_end\<close> is all after the validation.
\<close>

definition refresh_end ::
  "'s session_ops \<Rightarrow> (string \<times> gotime) option \<Rightarrow> string option \<Rightarrow> 's \<Rightarrow> string \<Rightarrow> string \<Rightarrow> 's" where
  "refresh_end ops row minted s userID token =
     (case row of
        None \<Rightarrow> s
      | Some (username, disableTime) \<Rightarrow>
          if disableTime > 0 then op_revoke_all ops s userID
          else (case minted of None \<Rightarrow> s | Some newRefresh \<Rightarrow> op_register ops s userID newRefresh token))"

lemma refresh_in_two_steps:
  "fst (handleSessionRefresh ops users newRefresh s token) =
     (case op_validate ops s token of
        (s1, Inl _) \<Rightarrow> s1 | (s1, Inr userID) \<Rightarrow> refresh_end ops (users userID) (Some newRefresh) s1 userID token)"
  by (simp add: handleSessionRefresh_def refresh_check_def refresh_end_def
      split: prod.split sum.split session_error.split option.split)

text \<open>
  \<open>Logout\<close> and \<open>LogoutAll\<close>: \<open>claims\<close> is what the access token verifies to (its \<open>jti\<close> and its expiry, the
  latter optional), \<open>None\<close> for no or an invalid access token; \<open>expiry\<close> is the token lifetime.
\<close>

definition deny_claims ::
  "'s session_ops \<Rightarrow> gotime \<Rightarrow> gotime \<Rightarrow> (string \<times> gotime option) option \<Rightarrow> 's \<Rightarrow> 's" where
  "deny_claims ops now expiry claims s =
     (case claims of
        None \<Rightarrow> s
      | Some (jti, expiresAt) \<Rightarrow>
          op_deny_jti ops s jti (case expiresAt of None \<Rightarrow> now + expiry | Some e \<Rightarrow> e))"

definition Logout ::
  "'s session_ops \<Rightarrow> gotime \<Rightarrow> gotime \<Rightarrow> (string \<times> gotime option) option \<Rightarrow> 's \<Rightarrow> string \<Rightarrow> 's" where
  "Logout ops now expiry claims s refreshToken =
     (let s1 = (if refreshToken \<noteq> [] then op_revoke_token ops s refreshToken else s)
      in deny_claims ops now expiry claims s1)"

definition LogoutAll ::
  "'s session_ops \<Rightarrow> gotime \<Rightarrow> gotime \<Rightarrow> (string \<times> gotime option) option \<Rightarrow> 's \<Rightarrow> string \<Rightarrow> 's" where
  "LogoutAll ops now expiry claims s userID =
     deny_claims ops now expiry claims (op_revoke_all ops s userID)"

subsection \<open>The contract\<close>

locale session_store =
  fixes ops :: "'s session_ops"
    and wf :: "'s \<Rightarrow> bool"
    and owner :: "'s \<Rightarrow> string \<Rightarrow> string option"
    and used :: "'s \<Rightarrow> string \<Rightarrow> bool"
  assumes wf_register: "wf s \<Longrightarrow> wf (op_register ops s u t p)"
    and wf_validate: "wf s \<Longrightarrow> wf (fst (op_validate ops s t))"
    and wf_revoke_all: "wf s \<Longrightarrow> wf (op_revoke_all ops s u)"
    and wf_revoke_token: "wf s \<Longrightarrow> wf (op_revoke_token ops s t)"
    and wf_deny: "wf s \<Longrightarrow> wf (op_deny_jti ops s j e)"
    and owner_register: "wf s \<Longrightarrow>
          owner (op_register ops s u t p) x = (if x = t then Some u else owner s x)"
    and used_register: "wf s \<Longrightarrow> used (op_register ops s u t p) x \<longleftrightarrow> used s x \<or> p \<noteq> [] \<and> x = p"
    and owner_revoke_all: "wf s \<Longrightarrow>
          owner (op_revoke_all ops s u) x = (if owner s x = Some u then None else owner s x)"
    and used_revoke_all: "wf s \<Longrightarrow> owner s x \<noteq> Some u \<Longrightarrow> used (op_revoke_all ops s u) x = used s x"
    and owner_revoke_token: "wf s \<Longrightarrow>
          owner (op_revoke_token ops s t) x = (if x = t then None else owner s x)"
    and used_revoke_token: "wf s \<Longrightarrow> x \<noteq> t \<Longrightarrow> used (op_revoke_token ops s t) x = used s x"
    and owner_deny: "wf s \<Longrightarrow> owner (op_deny_jti ops s j e) x = owner s x"
    and used_deny: "wf s \<Longrightarrow> used (op_deny_jti ops s j e) x = used s x"
    and validate_unknown: "wf s \<Longrightarrow> owner s t = None \<Longrightarrow>
          op_validate ops s t = (s, Inl ErrRefreshNotFound)"
    and validate_fresh: "wf s \<Longrightarrow> owner s t = Some u \<Longrightarrow> \<not> used s t \<Longrightarrow>
          op_validate ops s t = (s, Inr u)"
    and validate_reused: "wf s \<Longrightarrow> owner s t = Some u \<Longrightarrow> used s t \<Longrightarrow>
          snd (op_validate ops s t) = Inl (ErrTokenReused u)"
    and owner_reused: "wf s \<Longrightarrow> owner s t = Some u \<Longrightarrow> used s t \<Longrightarrow>
          owner (fst (op_validate ops s t)) x = (if owner s x = Some u then None else owner s x)"
    and used_reused: "wf s \<Longrightarrow> owner s t = Some u \<Longrightarrow> used s t \<Longrightarrow> owner s x \<noteq> Some u \<Longrightarrow>
          used (fst (op_validate ops s t)) x = used s x"
begin

text \<open>A token is spent once it is unknown or was rotated.\<close>

definition spent :: "'s \<Rightarrow> string \<Rightarrow> bool" where
  "spent s t \<longleftrightarrow> owner s t = None \<or> used s t"

lemma validate_wf: "op_validate ops s t = (s', r) \<Longrightarrow> wf s \<Longrightarrow> wf s'"
  using wf_validate [of s t] by simp

lemma validate_owner:
  assumes "wf s"
  shows "owner (fst (op_validate ops s t)) x =
    (if owner s t \<noteq> None \<and> used s t \<and> owner s x = owner s t then None else owner s x)"
  using assms validate_unknown [of s t] validate_fresh [of s t] owner_reused [of s t _ x]
  by (cases "owner s t"; cases "used s t") auto

lemma validate_spent:
  assumes "wf s" "spent s x"
  shows "spent (fst (op_validate ops s t)) x"
proof (cases "owner s t \<noteq> None \<and> used s t \<and> owner s x = owner s t")
  case True
  with validate_owner [OF assms(1)] show ?thesis by (simp add: spent_def)
next
  case False
  show ?thesis
  proof (cases "owner s t = None \<or> \<not> used s t")
    case True
    with assms validate_unknown [of s t] validate_fresh [of s t] show ?thesis
      by (cases "owner s t") auto
  next
    case reused: False
    with False obtain u where u: "owner s t = Some u" "used s t" "owner s x \<noteq> Some u" by auto
    from assms(2) owner_reused [OF assms(1) u(1,2), of x] used_reused [OF assms(1) u]
    show ?thesis by (auto simp: spent_def)
  qed
qed

lemma revoke_all_spent: "wf s \<Longrightarrow> spent s x \<Longrightarrow> spent (op_revoke_all ops s u) x"
  by (cases "owner s x = Some u") (auto simp: spent_def owner_revoke_all used_revoke_all)

lemma revoke_token_spent: "wf s \<Longrightarrow> spent s x \<Longrightarrow> spent (op_revoke_token ops s t) x"
  by (cases "x = t") (auto simp: spent_def owner_revoke_token used_revoke_token)

lemma register_spent: "wf s \<Longrightarrow> spent s x \<Longrightarrow> x \<noteq> t \<Longrightarrow> spent (op_register ops s u t p) x"
  by (auto simp: spent_def owner_register used_register)

lemma deny_spent: "wf s \<Longrightarrow> spent s x \<Longrightarrow> spent (op_deny_jti ops s j e) x"
  by (auto simp: spent_def owner_deny used_deny)

lemma check_fails_spent:
  assumes "wf s" "spent s t"
  shows "\<exists>err. snd (refresh_check ops users s t) = Inl err"
proof (cases "owner s t")
  case None
  with validate_unknown [OF assms(1)] show ?thesis by (simp add: refresh_check_def)
next
  case (Some u)
  with assms(2) have "used s t" by (simp add: spent_def)
  from validate_reused [OF assms(1) Some this] show ?thesis
    by (cases "op_validate ops s t") (simp add: refresh_check_def)
qed

lemma check_Inr:
  assumes "wf s" "refresh_check ops users s t = (s1, Inr u)"
  shows "owner s t = Some u \<and> \<not> used s t \<and> s1 = s"
proof (cases "spent s t")
  case True
  from check_fails_spent [OF assms(1) this, of users] assms(2) show ?thesis by simp
next
  case False
  then obtain v where v: "owner s t = Some v" "\<not> used s t" by (auto simp: spent_def)
  with assms(2) show ?thesis
    by (auto simp: refresh_check_def validate_fresh [OF assms(1)] split: option.splits if_splits)
qed

lemma check_state:
  assumes "wf s" "refresh_check ops users s t = (s1, r)"
  shows "wf s1" "spent s x \<Longrightarrow> spent s1 x" "owner s x = None \<Longrightarrow> owner s1 x = None"
    "owner s1 x = Some u \<Longrightarrow> owner s x = Some u"
proof -
  obtain s0 q where v: "op_validate ops s t = (s0, q)" by (cases "op_validate ops s t")
  have s0: "wf s0" "spent s x \<Longrightarrow> spent s0 x" "owner s0 x = Some u \<Longrightarrow> owner s x = Some u" for x u
    using validate_wf [OF v assms(1)] validate_spent [OF assms(1), of x t]
      validate_owner [OF assms(1), of t x] v by (auto split: if_splits)
  have "s1 = s0 \<or> (\<exists>u. s1 = op_revoke_all ops s0 u)"
    using assms(2) v
    by (auto simp: refresh_check_def split: sum.splits session_error.splits option.splits if_splits)
  then show "wf s1" "spent s x \<Longrightarrow> spent s1 x" "owner s1 x = Some u \<Longrightarrow> owner s x = Some u"
    using s0 wf_revoke_all revoke_all_spent owner_revoke_all
    by (auto split: if_splits)
  then show "owner s x = None \<Longrightarrow> owner s1 x = None"
    using s0(3) \<open>s1 = s0 \<or> (\<exists>u. s1 = op_revoke_all ops s0 u)\<close> owner_revoke_all [OF s0(1)]
    by (cases "owner s1 x") (auto split: if_splits)
qed

lemma refresh_Inr:
  assumes "wf s" "handleSessionRefresh ops users nt s t = (s', Inr (u, t'))"
  shows "owner s t = Some u" "\<not> used s t" "t' = nt" "s' = op_register ops s u nt t"
  using assms(2) check_Inr [OF assms(1)]
  by (auto simp: handleSessionRefresh_def split: prod.splits sum.splits)

lemma refresh_state:
  assumes "wf s" "handleSessionRefresh ops users nt s t = (s', r)"
  shows "wf s'" "spent s x \<Longrightarrow> x \<noteq> nt \<Longrightarrow> spent s' x"
    "owner s' x = Some u \<Longrightarrow> \<exists>y. owner s y = Some u"
proof -
  obtain s1 q where c: "refresh_check ops users s t = (s1, q)" by (cases "refresh_check ops users s t")
  note st = check_state [OF assms(1) c]
  consider "s' = s1" | v where "q = Inr v" "s' = op_register ops s1 v nt t"
    using assms(2) c by (auto simp: handleSessionRefresh_def split: sum.splits)
  then have "wf s' \<and> (spent s x \<longrightarrow> x \<noteq> nt \<longrightarrow> spent s' x) \<and>
    (owner s' x = Some u \<longrightarrow> (\<exists>y. owner s y = Some u))"
  proof cases
    case 1
    with st show ?thesis by blast
  next
    case 2
    with c check_Inr [OF assms(1)] have "owner s t = Some v" "s1 = s" by auto
    with 2 assms(1) show ?thesis
      by (auto simp: wf_register register_spent owner_register split: if_splits)
  qed
  then show "wf s'" "spent s x \<Longrightarrow> x \<noteq> nt \<Longrightarrow> spent s' x"
    "owner s' x = Some u \<Longrightarrow> \<exists>y. owner s y = Some u"
    by blast+
qed

end

subsection \<open>The memory store keeps the contract\<close>

text \<open>A revoked user has no token left.\<close>

definition memory_wf :: "memory_store \<Rightarrow> bool" where
  "memory_wf m \<longleftrightarrow> (\<forall>u t. flag (revokedUsers m) u \<longrightarrow> fmlookup (tokens m) t \<noteq> Some u)"

definition token_owner :: "memory_store \<Rightarrow> string \<Rightarrow> string option" where
  "token_owner m t = fmlookup (tokens m) t"

definition token_used :: "memory_store \<Rightarrow> string \<Rightarrow> bool" where
  "token_used m t = flag (usedTokens m) t"

lemma flag_upd [simp]: "flag (fmupd k b m) x = (if x = k then b else flag m x)"
  by (simp add: flag_def)

lemma flag_drop [simp]: "flag (fmdrop k m) x \<longleftrightarrow> x \<noteq> k \<and> flag m x"
  by (simp add: flag_def)

lemma flag_empty [simp]: "\<not> flag fmempty x"
  by (simp add: flag_def)

lemma owned_tokens_iff: "t |\<in>| owned_tokens m u \<longleftrightarrow> fmlookup (tokens m) t = Some u"
  by (auto simp: owned_tokens_def fmlookup_dom_iff)

lemma drop_owned_simps [simp]:
  "fmlookup (tokens (drop_owned m u)) x =
     (if fmlookup (tokens m) x = Some u then None else fmlookup (tokens m) x)"
  "flag (usedTokens (drop_owned m u)) x \<longleftrightarrow> fmlookup (tokens m) x \<noteq> Some u \<and> flag (usedTokens m) x"
  "revokedUsers (drop_owned m u) = revokedUsers m"
  by (simp_all add: drop_owned_def Let_def owned_tokens_iff flag_def)

interpretation mem: session_store memory_ops memory_wf token_owner token_used
  by unfold_locales
     (auto simp: memory_ops_def memory_wf_def token_owner_def token_used_def RegisterSession_def
       RevokeAllSessions_def RevokeRefreshToken_def BlacklistAccessJTI_def Let_def
       ValidateAndRotateSession_def split: option.splits if_splits)

lemma memory_wf_new: "memory_wf NewMemorySessionStore"
  by (simp add: memory_wf_def NewMemorySessionStore_def)

end
