(* ===== verification/Session_Props.thy ===== *)
theory Session_Props
  imports Session_Store
begin

section \<open>Refresh tokens: properties\<close>

text \<open>
  Runs of the session endpoints over the memory store.  The properties rest on the contract
  \<open>session_store\<close>; the last part shows what the two-step refresh handler does when requests overlap.
\<close>

subsection \<open>Runs\<close>

datatype session_event =
    Login string string
  | Refresh string string
  | LogoutToken string "(string \<times> gotime option) option"
  | LogoutUser string "(string \<times> gotime option) option"
  | BanUser string
  | Access gotime string

text \<open>\<open>Login u t\<close> hands out \<open>t\<close>; \<open>Refresh t n\<close> presents \<open>t\<close> and would hand out \<open>n\<close>.\<close>

fun session_step ::
  "user_rows \<Rightarrow> gotime \<Rightarrow> gotime \<Rightarrow> session_event \<Rightarrow> memory_store \<Rightarrow> memory_store" where
  "session_step users now expiry (Login u t) s = op_register memory_ops s u t []"
| "session_step users now expiry (Refresh t n) s = fst (handleSessionRefresh memory_ops users n s t)"
| "session_step users now expiry (LogoutToken t c) s = Logout memory_ops now expiry c s t"
| "session_step users now expiry (LogoutUser u c) s = LogoutAll memory_ops now expiry c s u"
| "session_step users now expiry (BanUser u) s = op_revoke_all memory_ops s u"
| "session_step users now expiry (Access t j) s = fst (op_jti_denied memory_ops t s j)"

fun mints :: "session_event \<Rightarrow> string option" where
  "mints (Login u t) = Some t"
| "mints (Refresh t n) = Some n"
| "mints _ = None"

lemma jti_denied_state [simp]:
  "tokens (fst (IsAccessJTIBlacklisted now m j)) = tokens m"
  "usedTokens (fst (IsAccessJTIBlacklisted now m j)) = usedTokens m"
  "revokedUsers (fst (IsAccessJTIBlacklisted now m j)) = revokedUsers m"
  by (auto simp: IsAccessJTIBlacklisted_def split: option.split)

lemma access_view:
  "memory_wf (fst (op_jti_denied memory_ops t m j)) = memory_wf m"
  "token_owner (fst (op_jti_denied memory_ops t m j)) = token_owner m"
  "token_used (fst (op_jti_denied memory_ops t m j)) = token_used m"
  by (simp_all add: memory_ops_def memory_wf_def token_owner_def token_used_def fun_eq_iff)

lemma deny_view:
  assumes "memory_wf s"
  shows "memory_wf (deny_claims memory_ops now expiry c s)"
    "token_owner (deny_claims memory_ops now expiry c s) x = token_owner s x"
    "mem.spent s x \<Longrightarrow> mem.spent (deny_claims memory_ops now expiry c s) x"
  using assms mem.wf_deny [OF assms] mem.owner_deny [OF assms] mem.deny_spent [OF assms]
  by (auto simp: deny_claims_def split: option.split)

lemma logout_view:
  assumes "memory_wf s"
  shows "memory_wf (Logout memory_ops now expiry c s t)"
    "mem.spent s x \<Longrightarrow> mem.spent (Logout memory_ops now expiry c s t) x"
    "token_owner (Logout memory_ops now expiry c s t) x = Some u \<Longrightarrow> token_owner s x = Some u"
proof -
  define s1 where "s1 = (if t \<noteq> [] then op_revoke_token memory_ops s t else s)"
  have s1: "memory_wf s1" "mem.spent s x \<Longrightarrow> mem.spent s1 x"
    "token_owner s1 x = Some u \<Longrightarrow> token_owner s x = Some u"
    using mem.wf_revoke_token [OF assms] mem.revoke_token_spent [OF assms]
      mem.owner_revoke_token [OF assms] assms by (auto simp: s1_def split: if_splits)
  have L: "Logout memory_ops now expiry c s t = deny_claims memory_ops now expiry c s1"
    by (simp add: Logout_def s1_def)
  from deny_view [OF s1(1)] s1 show "memory_wf (Logout memory_ops now expiry c s t)"
    "mem.spent s x \<Longrightarrow> mem.spent (Logout memory_ops now expiry c s t) x"
    "token_owner (Logout memory_ops now expiry c s t) x = Some u \<Longrightarrow> token_owner s x = Some u"
    by (simp_all add: L)
qed

lemma logout_all_view:
  assumes "memory_wf s"
  shows "memory_wf (LogoutAll memory_ops now expiry c s v)"
    "mem.spent s x \<Longrightarrow> mem.spent (LogoutAll memory_ops now expiry c s v) x"
    "token_owner (LogoutAll memory_ops now expiry c s v) x = Some u \<Longrightarrow> token_owner s x = Some u"
  using deny_view [OF mem.wf_revoke_all [OF assms]] mem.revoke_all_spent [OF assms]
    mem.owner_revoke_all [OF assms]
  by (auto simp: LogoutAll_def split: if_splits)

lemma session_step_wf: "memory_wf s \<Longrightarrow> memory_wf (session_step users now expiry e s)"
proof (cases e)
  case (Refresh t n)
  then show "memory_wf s \<Longrightarrow> ?thesis"
    using mem.refresh_state(1) by (metis prod.collapse session_step.simps(2))
qed (simp_all add: mem.wf_register mem.wf_revoke_all logout_view logout_all_view access_view)

lemma session_step_spent:
  assumes "memory_wf s" "mem.spent s x" "mints e \<noteq> Some x"
  shows "mem.spent (session_step users now expiry e s) x"
proof (cases e)
  case (Refresh t n)
  with assms(3) have "x \<noteq> n" by auto
  with mem.refresh_state(2) [OF assms(1) prod.collapse [symmetric]] assms(2) Refresh
  show ?thesis by simp
next
  case (Access t j)
  then show ?thesis using assms(2) by (simp add: mem.spent_def access_view)
qed (use assms mem.register_spent [OF assms(1,2)] in
      \<open>auto simp: mem.revoke_all_spent logout_view logout_all_view\<close>)

definition session_run ::
  "user_rows \<Rightarrow> gotime \<Rightarrow> gotime \<Rightarrow> session_event list \<Rightarrow> memory_store \<Rightarrow> memory_store" where
  "session_run users now expiry es s = fold (session_step users now expiry) es s"

lemma session_run_wf: "memory_wf s \<Longrightarrow> memory_wf (session_run users now expiry es s)"
  unfolding session_run_def
  by (induction es arbitrary: s) (simp_all add: session_step_wf)

lemma session_run_spent:
  "memory_wf s \<Longrightarrow> mem.spent s x \<Longrightarrow> \<forall>e \<in> set es. mints e \<noteq> Some x \<Longrightarrow>
   mem.spent (session_run users now expiry es s) x"
  unfolding session_run_def
  by (induction es arbitrary: s) (simp_all add: session_step_wf session_step_spent)

subsection \<open>Properties\<close>

text \<open>C5: a refresh token works at most once.  After it was exchanged, whatever logins, refreshes, logouts
  and bans follow (new tokens being different from it), presenting it again is refused; and if it
  is still on file the attempt is answered as theft and leaves its owner without any token.\<close>

theorem refresh_token_single_use:
  assumes "memory_wf s" and "t \<noteq> []" and "n \<noteq> t"
    and "handleSessionRefresh memory_ops users n s t = (s1, Inr (u, n'))"
    and "\<forall>e \<in> set es. mints e \<noteq> Some t"
    and "handleSessionRefresh memory_ops users2 n2 (session_run users1 now expiry es s1) t = (s2, res)"
  shows "(\<exists>err. res = Inl err) \<and>
    (\<forall>v. fmlookup (tokens (session_run users1 now expiry es s1)) t = Some v \<longrightarrow>
       res = Inl Compromised \<and> (\<forall>x. fmlookup (tokens s2) x \<noteq> Some v))"
proof -
  note first = mem.refresh_Inr [OF assms(1,4)]
  have wf1: "memory_wf s1" using mem.refresh_state(1) [OF assms(1,4)] .
  have "mem.spent s1 t"
    using assms(2) by (simp add: first(4) mem.spent_def mem.used_register [OF assms(1)])
  let ?f = "session_run users1 now expiry es s1"
  have wf: "memory_wf ?f" by (rule session_run_wf [OF wf1])
  have spent: "mem.spent ?f t" by (rule session_run_spent [OF wf1 \<open>mem.spent s1 t\<close> assms(5)])
  obtain s3 q where c: "refresh_check memory_ops users2 ?f t = (s3, q)"
    by (cases "refresh_check memory_ops users2 ?f t")
  then obtain err where q: "q = Inl err" using mem.check_fails_spent [OF wf spent, of users2] by auto
  with c assms(6) have res: "res = Inl err" "s2 = s3" by (auto simp: handleSessionRefresh_def)
  have "res = Inl Compromised \<and> (\<forall>x. fmlookup (tokens s2) x \<noteq> Some v)"
    if "fmlookup (tokens ?f) t = Some v" for v
  proof -
    from that have own: "token_owner ?f t = Some v" by (simp add: token_owner_def)
    then have used: "token_used ?f t" using spent by (simp add: mem.spent_def)
    obtain s4 where v4: "op_validate memory_ops ?f t = (s4, Inl (ErrTokenReused v))"
      using mem.validate_reused [OF wf own used] by (cases "op_validate memory_ops ?f t") auto
    then have "s3 = s4" "err = Compromised" using c q by (auto simp: refresh_check_def)
    moreover have "token_owner s4 x \<noteq> Some v" for x
      using mem.owner_reused [OF wf own used, of x] v4 by auto
    ultimately show ?thesis using res by (auto simp: token_owner_def)
  qed
  with res show ?thesis by blast
qed

definition demo_users :: user_rows where
  "demo_users u = (if u = ''u1'' then Some (''ann'', 0) else None)"

definition demo_store :: memory_store where
  "demo_store = RegisterSession NewMemorySessionStore ''u1'' ''t1'' []"

lemma demo_store_wf: "memory_wf demo_store"
  using mem.wf_register [OF memory_wf_new] by (simp add: demo_store_def memory_ops_def)

theorem refresh_token_single_use_witness:
  "snd (handleSessionRefresh memory_ops demo_users ''t3''
     (session_run demo_users 5 10 [Login ''u1'' ''t9'']
       (fst (handleSessionRefresh memory_ops demo_users ''t2'' demo_store ''t1''))) ''t1'') =
   Inl Compromised"
proof -
  obtain s1 u n' where first: "handleSessionRefresh memory_ops demo_users ''t2'' demo_store ''t1'' = (s1, Inr (u, n'))"
    and tok: "fmlookup (tokens (session_run demo_users 5 10 [Login ''u1'' ''t9''] s1)) ''t1'' = Some ''u1''"
    by (simp add: handleSessionRefresh_def refresh_check_def memory_ops_def ValidateAndRotateSession_def
        demo_store_def RegisterSession_def NewMemorySessionStore_def demo_users_def session_run_def
        Let_def)
  obtain s2 res where second: "handleSessionRefresh memory_ops demo_users ''t3''
      (session_run demo_users 5 10 [Login ''u1'' ''t9''] s1) ''t1'' = (s2, res)"
    by (cases "handleSessionRefresh memory_ops demo_users ''t3''
      (session_run demo_users 5 10 [Login ''u1'' ''t9''] s1) ''t1''")
  from refresh_token_single_use [OF demo_store_wf _ _ first _ second] tok
  show ?thesis by (simp add: first second)
qed

subsection \<open>Runs in which refreshes overlap\<close>

text \<open>
  A refresh is two steps here, with any others in between: \<open>RefreshStart\<close> validates the token, \<open>RefreshEnd\<close>
  goes on with the refresh at a position of the list of those under way, with the row of the user and the
  outcome of minting as they are then.
\<close>

datatype overlap_event =
    Whole session_event
  | RefreshStart string
  | RefreshEnd nat "(string \<times> gotime) option" "string option"

fun overlap_step ::
  "user_rows \<Rightarrow> gotime \<Rightarrow> gotime \<Rightarrow> overlap_event \<Rightarrow> memory_store \<times> (string \<times> string) list
   \<Rightarrow> memory_store \<times> (string \<times> string) list" where
  "overlap_step users now expiry (Whole e) (s, P) = (session_step users now expiry e s, P)"
| "overlap_step users now expiry (RefreshStart t) (s, P) =
     (case op_validate memory_ops s t of (s1, Inl _) \<Rightarrow> (s1, P) | (s1, Inr u) \<Rightarrow> (s1, P @ [(u, t)]))"
| "overlap_step users now expiry (RefreshEnd i row minted) (s, P) =
     (if i < length P
      then (refresh_end memory_ops row minted s (fst (P ! i)) (snd (P ! i)), take i P @ drop (Suc i) P)
      else (s, P))"

definition overlap_run ::
  "user_rows \<Rightarrow> gotime \<Rightarrow> gotime \<Rightarrow> overlap_event list \<Rightarrow> memory_store \<times> (string \<times> string) list
   \<Rightarrow> memory_store \<times> (string \<times> string) list" where
  "overlap_run users now expiry es st = fold (overlap_step users now expiry) es st"

text \<open>No token belongs to the user and no refresh of the user is under way.\<close>

definition none_of :: "string \<Rightarrow> memory_store \<times> (string \<times> string) list \<Rightarrow> bool" where
  "none_of u st \<longleftrightarrow> memory_wf (fst st) \<and> (\<forall>x. token_owner (fst st) x \<noteq> Some u) \<and> u \<notin> fst ` set (snd st)"

lemma session_step_none:
  assumes "memory_wf s" and "\<forall>x. token_owner s x \<noteq> Some u" and "\<forall>t. e \<noteq> Login u t"
  shows "token_owner (session_step users now expiry e s) x \<noteq> Some u"
proof (cases e)
  case (Login v t)
  with assms show ?thesis by (auto simp: mem.owner_register split: if_splits)
next
  case (Refresh t n)
  with assms(2) mem.refresh_state(3) [OF assms(1) prod.collapse [symmetric], of users n t x u] show ?thesis by auto
next
  case (LogoutToken t c)
  show ?thesis unfolding LogoutToken session_step.simps
    using assms(2) logout_view(3) [OF assms(1)] by blast
next
  case (LogoutUser v c)
  show ?thesis unfolding LogoutUser session_step.simps
    using assms(2) logout_all_view(3) [OF assms(1)] by blast
next
  case (BanUser v)
  with assms show ?thesis by (auto simp: mem.owner_revoke_all split: if_splits)
next
  case (Access a j)
  with assms show ?thesis by (simp add: access_view)
qed

lemma overlap_step_none:
  assumes "none_of u st" and "\<forall>t. e \<noteq> Whole (Login u t)"
  shows "none_of u (overlap_step users now expiry e st)"
proof -
  obtain s P where st: "st = (s, P)" by fastforce
  have wf: "memory_wf s" and none: "\<forall>x. token_owner s x \<noteq> Some u" and P: "u \<notin> fst ` set P"
    using assms(1) by (simp_all add: none_of_def st)
  show ?thesis
  proof (cases e)
    case (Whole f)
    with assms(2) P show ?thesis using session_step_none [OF wf none, of f] session_step_wf [OF wf]
      by (auto simp: none_of_def st)
  next
    case (RefreshStart t)
    obtain s1 r where v: "op_validate memory_ops s t = (s1, r)" by fastforce
    have s1: "memory_wf s1" "\<forall>x. token_owner s1 x \<noteq> Some u"
      using mem.validate_wf [OF v wf] mem.validate_owner [OF wf, of t] v none by (auto split: if_splits)
    have "r \<noteq> Inr u"
    proof (cases "token_owner s t")
      case None
      with mem.validate_unknown [OF wf] v show ?thesis by auto
    next
      case (Some w)
      with none have "w \<noteq> u" by auto
      moreover have "r = Inr w \<or> (\<exists>err. r = Inl err)"
        using mem.validate_fresh [OF wf Some] mem.validate_reused [OF wf Some] v by (cases "token_used s t") auto
      ultimately show ?thesis by auto
    qed
    with RefreshStart s1 P show ?thesis by (cases r) (auto simp: none_of_def st v)
  next
    case (RefreshEnd i row minted)
    show ?thesis
    proof (cases "i < length P")
      case True
      let ?v = "fst (P ! i)"
      have v: "?v \<noteq> u" using P True by (metis imageI nth_mem)
      have "memory_wf (refresh_end memory_ops row minted s ?v (snd (P ! i))) \<and>
          (\<forall>x. token_owner (refresh_end memory_ops row minted s ?v (snd (P ! i))) x \<noteq> Some u)"
        using wf none v
        by (auto simp: refresh_end_def mem.wf_register mem.wf_revoke_all mem.owner_register mem.owner_revoke_all
            split: option.splits if_splits)
      moreover have "u \<notin> fst ` set (take i P @ drop (Suc i) P)"
        using P by (auto dest: in_set_takeD in_set_dropD)
      ultimately show ?thesis using True by (simp add: none_of_def st RefreshEnd)
    next
      case False
      with assms(1) show ?thesis by (simp add: st RefreshEnd)
    qed
  qed
qed

text \<open>C34: once all sessions of a user are revoked, at a moment at which no refresh of the user is between its
  validation and its end, nothing brings one back: whatever refreshes, overlapping or not, logouts and bans
  follow, until a login of the user registers a token no refresh token belongs to the user and none can be
  refreshed for the user.  (C35 shows that a refresh under way at that moment does hand out a token.)\<close>

theorem revoked_until_login:
  assumes "memory_wf s" and "u \<notin> fst ` set P" and "\<forall>e \<in> set es. \<forall>t. e \<noteq> Whole (Login u t)"
    and "(sF, PF) = overlap_run users now expiry es (RevokeAllSessions s u, P)"
  shows "fmlookup (tokens sF) x \<noteq> Some u \<and>
    snd (handleSessionRefresh memory_ops users2 n sF t) \<noteq> Inr (u, n)"
proof -
  have "none_of u (RevokeAllSessions s u, P)"
    using assms(2) mem.wf_revoke_all [OF assms(1)] mem.owner_revoke_all [OF assms(1), of u]
    by (auto simp: none_of_def memory_ops_def split: if_splits)
  moreover have "none_of u st \<Longrightarrow> \<forall>e \<in> set es. \<forall>t. e \<noteq> Whole (Login u t) \<Longrightarrow> none_of u (overlap_run users now expiry es st)" for st
    unfolding overlap_run_def by (induction es arbitrary: st) (simp_all add: overlap_step_none)
  ultimately have none: "none_of u (sF, PF)" using assms(3,4) by simp
  then have "memory_wf sF" and own: "\<forall>x. token_owner sF x \<noteq> Some u" by (simp_all add: none_of_def)
  from mem.refresh_Inr(1) [OF this(1), of users2 n t _ u n] own
  have "snd (handleSessionRefresh memory_ops users2 n sF t) \<noteq> Inr (u, n)"
    by (metis prod.collapse)
  with own show ?thesis by (simp add: token_owner_def)
qed

theorem revoked_until_login_witness:
  "fmlookup (tokens (fst (overlap_run demo_users 5 10
     [RefreshStart ''t1'', Whole (Login ''u2'' ''t3''), RefreshStart ''t3'', RefreshEnd 0 (Some (''bob'', 0)) (Some ''t4'')]
     (RevokeAllSessions demo_store ''u1'', [])))) ''t4'' \<noteq> Some ''u1''"
proof -
  let ?es = "[RefreshStart ''t1'', Whole (Login ''u2'' ''t3''), RefreshStart ''t3'',
    RefreshEnd 0 (Some (''bob'', 0)) (Some ''t4'')]"
  obtain sF PF where r: "(sF, PF) = overlap_run demo_users 5 10 ?es (RevokeAllSessions demo_store ''u1'', [])"
    by (metis surj_pair)
  from revoked_until_login [OF demo_store_wf _ _ r] show ?thesis by (simp add: r [symmetric])
qed

subsection \<open>Overlapping requests\<close>

text \<open>C35: \<open>ValidateAndRotateSession\<close> does not mark the token, \<open>RegisterSession\<close> does, and nothing joins the two
  steps of the refresh handler: two overlapping refreshes of one token both succeed and leave two
  live, unspent tokens, and a refresh that overlaps a ban hands the banned user a live token.\<close>

theorem overlapping_refresh_not_atomic:
  "\<exists>s a b c. memory_wf s \<and>
     refresh_check memory_ops demo_users s ''t1'' = (a, Inr ''u1'') \<and>
     refresh_check memory_ops demo_users a ''t1'' = (b, Inr ''u1'') \<and>
     c = op_register memory_ops (op_register memory_ops b ''u1'' ''t2'' ''t1'') ''u1'' ''t3'' ''t1'' \<and>
     snd (op_validate memory_ops c ''t2'') = Inr ''u1'' \<and>
     snd (op_validate memory_ops c ''t3'') = Inr ''u1'' \<and>
     snd (op_validate memory_ops
       (op_register memory_ops (op_revoke_all memory_ops a ''u1'') ''u1'' ''t2'' ''t1'') ''t2'') =
       Inr ''u1''"
proof -
  have own: "token_owner demo_store ''t1'' = Some ''u1''" "\<not> token_used demo_store ''t1''"
    by (simp_all add: token_owner_def token_used_def demo_store_def RegisterSession_def
        NewMemorySessionStore_def)
  have chk: "refresh_check memory_ops demo_users demo_store ''t1'' = (demo_store, Inr ''u1'')"
    using mem.validate_fresh [OF demo_store_wf own] by (simp add: refresh_check_def demo_users_def)
  have fresh: "\<not> token_used demo_store x" for x
    by (simp add: token_used_def demo_store_def RegisterSession_def NewMemorySessionStore_def)
  let ?b = "op_register memory_ops demo_store ''u1'' ''t2'' ''t1''"
  let ?c = "op_register memory_ops ?b ''u1'' ''t3'' ''t1''"
  let ?r = "op_revoke_all memory_ops demo_store ''u1''"
  let ?d = "op_register memory_ops ?r ''u1'' ''t2'' ''t1''"
  have wfb: "memory_wf ?b" by (rule mem.wf_register [OF demo_store_wf])
  have wfc: "memory_wf ?c" by (rule mem.wf_register [OF wfb])
  have wfr: "memory_wf ?r" by (rule mem.wf_revoke_all [OF demo_store_wf])
  have wfd: "memory_wf ?d" by (rule mem.wf_register [OF wfr])
  have live: "op_validate memory_ops ?c ''t2'' = (?c, Inr ''u1'')"
    "op_validate memory_ops ?c ''t3'' = (?c, Inr ''u1'')"
    by (rule mem.validate_fresh [OF wfc],
        simp_all add: mem.owner_register [OF wfb] mem.owner_register [OF demo_store_wf]
          mem.used_register [OF wfb] mem.used_register [OF demo_store_wf] fresh)+
  have "token_owner demo_store ''t2'' \<noteq> Some ''u1''"
    by (simp add: token_owner_def demo_store_def RegisterSession_def NewMemorySessionStore_def)
  then have "op_validate memory_ops ?d ''t2'' = (?d, Inr ''u1'')"
    by (intro mem.validate_fresh [OF wfd])
       (simp_all add: mem.owner_register [OF wfr] mem.used_register [OF wfr]
          mem.used_revoke_all [OF demo_store_wf] fresh)
  with chk live demo_store_wf show ?thesis by (metis snd_conv)
qed

end
