(* ===== verification/Matchmaker.thy ===== *)
theory Matchmaker
  imports Prelude
begin

section \<open>Matchmaker: tickets and match tokens\<close>

text \<open>
  Models \<open>internal/matchmaker/matchmaker.go\<close> for a matchmaker without Redis (\<open>rdb == nil\<close>): the pool of
  tickets, the index of tickets per session, the submission rate limit, and the single-use match
  tokens.  Every exported method holds the matchmaker's mutex, so each is one atomic step.

  Time is an argument, 0 being Go's zero time.  The random UUIDs and nonces a call draws come from
  the supplies of \<open>mm_env\<close>, indexed by a counter in the state; \<open>hmac\<close> is HMAC-SHA256 in hexadecimal.
  The status map stores JSON snapshots of tickets; a snapshot is modelled as the ticket itself.
  Numeric properties are only carried along and are kept as texts.
\<close>

subsection \<open>Data\<close>

datatype mm_error = ErrTooManyTickets | ErrRateLimited | ErrInvalidTicket | ErrTokenInvalid | ErrTicketNotFound

record mm_presence =
  PUserID :: string
  PUsername :: string
  PSessionID :: string

record ticket =
  TkID :: string
  TkUserID :: string
  TkUsername :: string
  SkillRating :: int
  TkRegion :: string
  CreatedAt :: gotime
  Query :: string
  MinCount :: int
  MaxCount :: int
  CountMultiple :: int
  TkCount :: int
  TkPartyID :: string
  TkSessionID :: string
  Presences :: "mm_presence list"
  Intervals :: int
  StringProperties :: "(string, string) fmap"
  NumericProperties :: "(string, string) fmap"
  ReversePrecision :: bool
  QueueName :: string
  Status :: string
  TkMatchID :: string
  TkMatchToken :: string

record matched_user =
  MUUserID :: string
  MUUsername :: string
  MUSessionID :: string
  MUPartyID :: string
  MUTicketID :: string
  MUString :: "(string, string) fmap"
  MUNumeric :: "(string, string) fmap"

record match_result =
  RMatchID :: string
  RPlayerIDs :: "string list"
  RUsernames :: "string list"
  RUsers :: "mm_presence list"
  RMatchedUsers :: "matched_user list"
  RTicketIDs :: "(string, string) fmap"
  RMatchToken :: string
  RQueueName :: string
  RAuthoritative :: bool
  RModule :: string

record completion_record =
  CMatchID :: string
  CompletedAt :: gotime
  PlayerCount :: nat

record queue_config =
  QName :: string
  MinPlayers :: int
  MaxPlayers :: int
  QCountMultiple :: int
  SkillEnabled :: bool
  RegionStrict :: bool
  FallbackDelaySec :: int
  RevEnabled :: bool
  ReverseThresholdTicks :: int

record mm_config =
  TicketExpirySec :: int
  MaxTickets :: int
  MaxIntervals :: int
  TokenTTLSec :: int
  RevPrecision :: bool
  RateLimitMax :: int
  RateLimitWindowSec :: int
  TokenSecret :: string
  Queues :: "(string, queue_config) fmap option"

record token_record =
  TrMatchID :: string
  TrUsers :: "mm_presence list"
  TrTicketIDs :: "(string, string) fmap"
  TrExpiresAt :: gotime
  TrConsumed :: bool

record mm_state =
  mm_config :: mm_config
  tickets :: "(string, ticket) fmap"
  ticketStatus :: "(string, ticket) fmap"
  sessionTickets :: "(string, string, unit) nmap"
  submitTimes :: "(string, gotime list) fmap"
  matchTokens :: "(string, token_record) fmap"
  completions :: "completion_record list"
  mm_matched :: "match_result list"
  draws :: nat

record mm_env =
  env_now :: gotime
  env_uuid :: "nat \<Rightarrow> string"
  env_nonce :: "nat \<Rightarrow> string"
  env_hmac :: "string \<Rightarrow> string \<Rightarrow> string \<Rightarrow> string"

definition second :: gotime where
  "second = 1000000000"

subsection \<open>Configuration\<close>

definition default_queue :: queue_config where
  "default_queue = \<lparr>QName = ''default'', MinPlayers = 2, MaxPlayers = 8, QCountMultiple = 1,
     SkillEnabled = False, RegionStrict = False, FallbackDelaySec = 15, RevEnabled = False,
     ReverseThresholdTicks = 10\<rparr>"

definition DefaultConfig :: mm_config where
  "DefaultConfig = \<lparr>TicketExpirySec = 300, MaxTickets = 3, MaxIntervals = 2, TokenTTLSec = 30,
     RevPrecision = False, RateLimitMax = 10, RateLimitWindowSec = 300,
     TokenSecret = ''uge-matchmaker-default-secret'',
     Queues = Some (fmupd ''default'' default_queue fmempty)\<rparr>"

definition NewMatchmaker :: mm_state where
  "NewMatchmaker = \<lparr>mm_config = DefaultConfig, tickets = fmempty, ticketStatus = fmempty,
     sessionTickets = fmempty, submitTimes = fmempty, matchTokens = fmempty, completions = [],
     mm_matched = [], draws = 0\<rparr>"

definition normalizeConfig :: "mm_config \<Rightarrow> mm_config" where
  "normalizeConfig cfg = cfg\<lparr>
     MaxTickets := (if MaxTickets cfg \<le> 0 then 3 else MaxTickets cfg),
     MaxIntervals := (if MaxIntervals cfg \<le> 0 then 2 else MaxIntervals cfg),
     TokenTTLSec := (if TokenTTLSec cfg \<le> 0 then 30 else TokenTTLSec cfg),
     TicketExpirySec := (if TicketExpirySec cfg \<le> 0 then 300 else TicketExpirySec cfg),
     RateLimitMax := (if RateLimitMax cfg \<le> 0 then 10 else RateLimitMax cfg),
     RateLimitWindowSec := (if RateLimitWindowSec cfg \<le> 0 then 300 else RateLimitWindowSec cfg),
     TokenSecret := (if TokenSecret cfg = [] then ''uge-matchmaker-default-secret'' else TokenSecret cfg),
     Queues := (if Queues cfg = None then Queues DefaultConfig else Queues cfg)\<rparr>"

definition Configure :: "mm_config option \<Rightarrow> mm_state \<Rightarrow> mm_state" where
  "Configure cfg mm = (case cfg of None \<Rightarrow> mm | Some c \<Rightarrow> mm\<lparr>mm_config := normalizeConfig c\<rparr>)"

definition queueConfig :: "mm_state \<Rightarrow> string \<Rightarrow> queue_config" where
  "queueConfig mm queueName =
     (let qs = (case Queues (mm_config mm) of None \<Rightarrow> fmempty | Some qs \<Rightarrow> qs)
      in case fmlookup qs queueName of
           Some q \<Rightarrow> q
         | None \<Rightarrow>
             (case fmlookup qs ''default'' of
                Some q \<Rightarrow> q\<lparr>QName := queueName\<rparr>
              | None \<Rightarrow> \<lparr>QName = queueName, MinPlayers = 2, MaxPlayers = 8, QCountMultiple = 1,
                         SkillEnabled = False, RegionStrict = False, FallbackDelaySec = 0,
                         RevEnabled = False, ReverseThresholdTicks = 0\<rparr>))"

subsection \<open>Submitting\<close>

definition checkRateLimit :: "gotime \<Rightarrow> mm_state \<Rightarrow> string \<Rightarrow> mm_state \<times> bool" where
  "checkRateLimit now mm userID =
     (let cutoff = now - RateLimitWindowSec (mm_config mm) * second;
          times = (case fmlookup (submitTimes mm) userID of None \<Rightarrow> [] | Some ts \<Rightarrow> ts);
          filtered = filter (\<lambda>ts. ts > cutoff) times
      in if int (length filtered) \<ge> RateLimitMax (mm_config mm)
         then (mm\<lparr>submitTimes := fmupd userID filtered (submitTimes mm)\<rparr>, False)
         else (mm\<lparr>submitTimes := fmupd userID (filtered @ [now]) (submitTimes mm)\<rparr>, True))"

text \<open>
  The fields \<open>submitLocked\<close> fills in before validating.  It draws a UUID for a missing ticket ID and
  for a missing session ID, in this order.
\<close>

definition complete_ticket :: "mm_env \<Rightarrow> queue_config \<Rightarrow> nat \<Rightarrow> ticket \<Rightarrow> ticket \<times> nat" where
  "complete_ticket env q n t =
     (let (tid, n1) = (if TkID t = [] then (env_uuid env n, Suc n) else (TkID t, n));
          (sid, n2) = (if TkSessionID t = [] then (env_uuid env n1, Suc n1) else (TkSessionID t, n1));
          pres = (if Presences t = []
                  then [\<lparr>PUserID = TkUserID t, PUsername = TkUsername t, PSessionID = sid\<rparr>]
                  else Presences t)
      in (t\<lparr>TkID := tid,
            CreatedAt := (if CreatedAt t = 0 then env_now env else CreatedAt t),
            TkSessionID := sid,
            Query := (if Query t = [] then ''*'' else Query t),
            MinCount := (if MinCount t \<le> 0 then MinPlayers q else MinCount t),
            MaxCount := (if MaxCount t \<le> 0 then MaxPlayers q else MaxCount t),
            CountMultiple := (if CountMultiple t \<le> 0
               then (if QCountMultiple q \<le> 0 then 1 else QCountMultiple q) else CountMultiple t),
            TkCount := (if TkCount t \<le> 0
               then (if Presences t \<noteq> [] then int (length (Presences t)) else 1) else TkCount t),
            Presences := pres,
            TkRegion := (case fmlookup (StringProperties t) ''region'' of
               Some region \<Rightarrow> if TkRegion t = [] then region else TkRegion t | None \<Rightarrow> TkRegion t),
            Status := ''queued'', Intervals := 0\<rparr>, n2))"

definition Submit :: "mm_env \<Rightarrow> mm_state \<Rightarrow> ticket \<Rightarrow> mm_state \<times> (mm_error + ticket)" where
  "Submit env mm t0 =
     (let t1 = t0\<lparr>QueueName := (if QueueName t0 = [] then ''default'' else QueueName t0)\<rparr>;
          (t, n) = complete_ticket env (queueConfig mm (QueueName t1)) (draws mm) t1;
          mm0 = mm\<lparr>draws := n\<rparr>
      in if MinCount t < 2 \<or> MaxCount t < MinCount t \<or> CountMultiple t < 1 then (mm0, Inl ErrInvalidTicket)
         else if TkCount t > MaxCount t then (mm0, Inl ErrInvalidTicket)
         else (let (mm1, allowed) = checkRateLimit (env_now env) mm0 (TkUserID t)
               in if \<not> allowed then (mm1, Inl ErrRateLimited)
                  else (let sessionSet = inner (sessionTickets mm1) (TkSessionID t);
                            mm2 = mm1\<lparr>sessionTickets := fmupd (TkSessionID t) sessionSet (sessionTickets mm1)\<rparr>
                        in if int (mlen sessionSet) \<ge> MaxTickets (mm_config mm2)
                           then (mm2, Inl ErrTooManyTickets)
                           else (mm2\<lparr>tickets := fmupd (TkID t) t (tickets mm2),
                                     ticketStatus := fmupd (TkID t) t (ticketStatus mm2),
                                     sessionTickets := nput (sessionTickets mm2) (TkSessionID t) (TkID t) ()\<rparr>,
                                 Inr t))))"

fun add_members :: "string fset \<Rightarrow> mm_presence option list \<Rightarrow> mm_presence list" where
  "add_members seen [] = []"
| "add_members seen (None # ms) = add_members seen ms"
| "add_members seen (Some p # ms) =
     (if PUserID p |\<in>| seen then add_members seen ms
      else p # add_members (finsert (PUserID p) seen) ms)"

definition empty_ticket :: ticket where
  "empty_ticket = \<lparr>TkID = [], TkUserID = [], TkUsername = [], SkillRating = 0, TkRegion = [],
     CreatedAt = 0, Query = [], MinCount = 0, MaxCount = 0, CountMultiple = 0, TkCount = 0,
     TkPartyID = [], TkSessionID = [], Presences = [], Intervals = 0, StringProperties = fmempty,
     NumericProperties = fmempty, ReversePrecision = False, QueueName = [], Status = [],
     TkMatchID = [], TkMatchToken = []\<rparr>"

definition SubmitParty ::
  "mm_env \<Rightarrow> mm_state \<Rightarrow> mm_presence option \<Rightarrow> mm_presence option list \<Rightarrow> ticket option
   \<Rightarrow> mm_state \<times> (mm_error + ticket)" where
  "SubmitParty env mm leader members tk =
     (let t = (case tk of None \<Rightarrow> empty_ticket | Some t \<Rightarrow> t)
      in case leader of
           None \<Rightarrow> (mm, Inl ErrInvalidTicket)
         | Some l \<Rightarrow>
             (let presences = l # add_members {|PUserID l|} members;
                  (party, n) = (if TkPartyID t = [] then (env_uuid env (draws mm), Suc (draws mm))
                                else (TkPartyID t, draws mm))
              in Submit env (mm\<lparr>draws := n\<rparr>)
                   (t\<lparr>TkUserID := PUserID l, TkUsername := PUsername l, TkSessionID := PSessionID l,
                      Presences := presences, TkCount := int (length presences),
                      TkPartyID := party\<rparr>)))"

subsection \<open>Cancelling\<close>

definition Cancel :: "mm_state \<Rightarrow> string \<Rightarrow> mm_state" where
  "Cancel mm ticketID =
     (case fmlookup (tickets mm) ticketID of
        None \<Rightarrow> mm
      | Some t \<Rightarrow>
          mm\<lparr>ticketStatus := fmupd ticketID (t\<lparr>Status := ''cancelled''\<rparr>) (ticketStatus mm),
             tickets := fmdrop ticketID (tickets mm),
             sessionTickets := ndel (sessionTickets mm) (TkSessionID t) ticketID\<rparr>)"

definition RemovePartyAll :: "(string fset \<Rightarrow> string list) \<Rightarrow> mm_state \<Rightarrow> string \<Rightarrow> mm_state" where
  "RemovePartyAll ord mm partyID =
     (if partyID = [] then mm
      else fold (\<lambda>i m. Cancel m i)
             (filter (\<lambda>i. case fmlookup (tickets mm) i of
                Some t \<Rightarrow> TkPartyID t = partyID | None \<Rightarrow> False) (ord (fmdom (tickets mm)))) mm)"

definition RemoveSessionAll :: "(string fset \<Rightarrow> string list) \<Rightarrow> mm_state \<Rightarrow> string \<Rightarrow> mm_state" where
  "RemoveSessionAll ord mm sessionID =
     (let ids = ord (fmdom (inner (sessionTickets mm) sessionID));
          mm1 = fold (\<lambda>i m. Cancel m i) ids mm
      in mm1\<lparr>sessionTickets := fmdrop sessionID (sessionTickets mm1)\<rparr>)"

definition GetTicket :: "mm_state \<Rightarrow> string \<Rightarrow> mm_error + ticket" where
  "GetTicket mm ticketID =
     (case fmlookup (ticketStatus mm) ticketID of
        Some t \<Rightarrow> Inr t
      | None \<Rightarrow> (case fmlookup (tickets mm) ticketID of None \<Rightarrow> Inl ErrTicketNotFound | Some t \<Rightarrow> Inr t))"

definition oldest_created :: "(string fset \<Rightarrow> string list) \<Rightarrow> (string, ticket) fmap \<Rightarrow> gotime" where
  "oldest_created ord ts =
     fold (\<lambda>i old. case fmlookup ts i of
             Some t \<Rightarrow> if old = 0 \<or> CreatedAt t < old then CreatedAt t else old | None \<Rightarrow> old)
       (ord (fmdom ts)) 0"

definition GetStats ::
  "(string fset \<Rightarrow> string list) \<Rightarrow> mm_state \<Rightarrow> nat \<times> gotime \<times> completion_record list" where
  "GetStats ord mm = (mlen (tickets mm), oldest_created ord (tickets mm), completions mm)"

subsection \<open>Match tokens\<close>

definition mintMatchToken ::
  "mm_env \<Rightarrow> mm_state \<Rightarrow> string \<Rightarrow> mm_presence list \<Rightarrow> (string, string) fmap \<Rightarrow> mm_state \<times> string" where
  "mintMatchToken env mm matchID users ticketIDs =
     (let nonce = env_nonce env (draws mm);
          token = env_hmac env (TokenSecret (mm_config mm)) matchID nonce @ nonce
      in (mm\<lparr>draws := Suc (draws mm),
             matchTokens := fmupd token
               \<lparr>TrMatchID = matchID, TrUsers = users, TrTicketIDs = ticketIDs,
                TrExpiresAt = env_now env + TokenTTLSec (mm_config mm) * second,
                TrConsumed = False\<rparr> (matchTokens mm)\<rparr>, token))"

definition ConsumeMatchToken ::
  "gotime \<Rightarrow> mm_state \<Rightarrow> string \<Rightarrow> mm_state \<times> (mm_error + token_record)" where
  "ConsumeMatchToken now mm token =
     (if token = [] then (mm, Inl ErrTokenInvalid)
      else case fmlookup (matchTokens mm) token of
             None \<Rightarrow> (mm, Inl ErrTokenInvalid)
           | Some rec \<Rightarrow>
               if TrConsumed rec \<or> now > TrExpiresAt rec then (mm, Inl ErrTokenInvalid)
               else (mm\<lparr>matchTokens := fmupd token (rec\<lparr>TrConsumed := True\<rparr>) (matchTokens mm)\<rparr>,
                     Inr rec))"

end
