(* ===== verification/Matchmaker_Process.thy ===== *)
theory Matchmaker_Process
  imports Matchmaker
begin

section \<open>Matchmaker: forming matches\<close>

text \<open>
  Models \<open>internal/matchmaker/process.go\<close> for a matchmaker without Redis: a tick walks the queues, expires
  and collects the tickets of a queue, forms groups and finalises them.

  The full-text index is third-party code and enters as \<open>search_api\<close>: \<open>build_index\<close> says whether the index
  of a list of tickets can be built, \<open>search_sorted\<close> answers a query sorted by score and age
  (\<open>None\<close> for match-all), \<open>search_hits\<close> an unsorted one; both take the number of hits requested and may
  fail.  The processor, override and matched hooks are optional functions of \<open>mm_hooks\<close>.  Waiting times
  are compared in nanoseconds, where the code converts to floating-point seconds.
\<close>

record search_api =
  build_index :: "ticket list \<Rightarrow> bool"
  search_sorted :: "ticket list \<Rightarrow> string option \<Rightarrow> nat \<Rightarrow> string list option"
  search_hits :: "ticket list \<Rightarrow> string \<Rightarrow> nat \<Rightarrow> string list option"

record mm_hooks =
  hk_processor :: "(ticket list \<Rightarrow> ticket list list) option"
  hk_override :: "(ticket list list \<Rightarrow> ticket list list) option"
  hk_matched :: "(matched_user list \<Rightarrow> string) option"

subsection \<open>Sizes and compatibility\<close>

definition head_count :: "ticket \<Rightarrow> int" where
  "head_count t = (if TkCount t \<le> 0 then 1 else TkCount t)"

definition groupSize :: "ticket list \<Rightarrow> int" where
  "groupSize ts = (\<Sum>t\<leftarrow>ts. head_count t)"

definition partyCount :: "ticket list \<Rightarrow> int" where
  "partyCount ts = (\<Sum>t\<leftarrow>ts. TkCount t + (if TkCount t \<le> 0 then 1 else 0))"

fun satisfies_from :: "int \<Rightarrow> string list \<Rightarrow> ticket list \<Rightarrow> bool" where
  "satisfies_from sz parties [] = True"
| "satisfies_from sz parties (t # ts) =
     (if TkPartyID t \<noteq> [] \<and> TkPartyID t \<in> set parties then False
      else if sz < MinCount t \<or> sz > MaxCount t then False
      else if CountMultiple t > 1 \<and> go_rem sz (CountMultiple t) \<noteq> 0 then False
      else satisfies_from sz (if TkPartyID t \<noteq> [] then TkPartyID t # parties else parties) ts)"

definition groupSatisfiesAll :: "ticket list \<Rightarrow> bool" where
  "groupSatisfiesAll ts = satisfies_from (groupSize ts) [] ts"

definition compatibleRange :: "ticket \<Rightarrow> ticket \<Rightarrow> bool" where
  "compatibleRange a b \<longleftrightarrow> MinCount a \<le> MaxCount b \<and> MinCount b \<le> MaxCount a"

definition getSkillDelta :: "gotime \<Rightarrow> int" where
  "getSkillDelta wait =
     (if wait < 5 * second then 50 else if wait < 10 * second then 75
      else if wait < 20 * second then 125 else if wait < 30 * second then 200
      else if wait < 60 * second then 350 else 500)"

definition queryMatches :: "search_api \<Rightarrow> ticket list \<Rightarrow> ticket \<Rightarrow> string \<Rightarrow> bool" where
  "queryMatches api index querier targetID =
     (if Query querier = [] \<or> Query querier = ''*'' then True
      else case search_hits api index (Query querier) 1000 of
             None \<Rightarrow> False | Some hits \<Rightarrow> targetID \<in> set hits)"

definition evaluatePairing ::
  "search_api \<Rightarrow> gotime \<Rightarrow> queue_config \<Rightarrow> bool \<Rightarrow> int \<Rightarrow> ticket list \<Rightarrow> ticket \<Rightarrow> ticket \<Rightarrow> bool" where
  "evaluatePairing api now q revEnabled revThreshold index t1 t2 =
     (let wait1 = now - CreatedAt t1; wait2 = now - CreatedAt t2
      in if TkRegion t1 \<noteq> TkRegion t2 \<and> TkRegion t1 \<noteq> [] \<and> TkRegion t2 \<noteq> [] \<and>
            (RegionStrict q \<or> wait1 < FallbackDelaySec q * second \<or> wait2 < FallbackDelaySec q * second)
         then False
         else if SkillEnabled q \<and>
                 \<bar>SkillRating t1 - SkillRating t2\<bar> > max (getSkillDelta wait1) (getSkillDelta wait2)
         then False
         else if TkPartyID t1 \<noteq> [] \<and> TkPartyID t1 = TkPartyID t2 then False
         else if (revEnabled \<or> ReversePrecision t1 \<or> ReversePrecision t2) \<and>
                 Intervals t1 < revThreshold \<and> Intervals t2 < revThreshold \<and>
                 \<not> queryMatches api index t2 (TkID t1)
         then False
         else True)"

subsection \<open>Default matching\<close>

text \<open>The ticket to drop: the first one after the seed with at most \<open>rem\<close> heads, else the last.\<close>

definition drop_index :: "int \<Rightarrow> ticket list \<Rightarrow> nat" where
  "drop_index rem out =
     (case find (\<lambda>i. TkCount (out ! i) \<le> rem) [1..<length out] of
        Some i \<Rightarrow> i | None \<Rightarrow> length out - 1)"

function trim_loop :: "int \<Rightarrow> ticket list \<Rightarrow> ticket list" where
  "trim_loop rem out =
     (if rem > 0 \<and> length out > 1
      then (let i = drop_index rem out; c = head_count (out ! i)
            in trim_loop (rem - c) (take i out @ drop (Suc i) out))
      else out)"
  by pat_completeness auto

lemma drop_index_bounds:
  assumes "1 < length out"
  shows "drop_index rem out < length out" "1 \<le> drop_index rem out"
proof -
  have "i < length out \<and> 1 \<le> i" if "find (\<lambda>i. TkCount (out ! i) \<le> rem) [1..<length out] = Some i" for i
  proof -
    from that obtain k where "k < length [1..<length out]" "[1..<length out] ! k = i"
      by (auto simp: find_Some_iff)
    then show ?thesis using assms by auto
  qed
  then show "drop_index rem out < length out" "1 \<le> drop_index rem out"
    using assms by (auto simp: drop_index_def split: option.split)
qed

termination trim_loop
proof (relation "measure (\<lambda>(rem, out). length out)")
  fix rem out i c
  assume "0 < rem \<and> 1 < length out" "i = drop_index rem out"
  then have "i < length (out :: ticket list)" using drop_index_bounds(1) by simp
  then show "((rem - c, take i out @ drop (Suc i) out), rem, out) \<in> measure (\<lambda>(rem, out). length out)"
    by simp
qed simp

declare trim_loop.simps [simp del]

definition trimToMultiple :: "ticket list \<Rightarrow> int \<Rightarrow> int \<Rightarrow> ticket list" where
  "trimToMultiple ts multiple minCount =
     (if multiple \<le> 1 then ts
      else let rem = go_rem (groupSize ts) multiple
           in if rem = 0 then ts
              else let out = trim_loop rem ts
                   in if groupSize out < minCount then take 1 ts else out)"

text \<open>The inner loop of \<open>matchDefault\<close>: grow the seed's candidates along the hits.\<close>

fun grow ::
  "(ticket \<Rightarrow> bool) \<Rightarrow> (string, ticket) fmap \<Rightarrow> string list \<Rightarrow> ticket \<Rightarrow> string list \<Rightarrow> ticket list
   \<Rightarrow> string list \<Rightarrow> ticket list" where
  "grow pairs byID matched seed partySeen cands [] = cands"
| "grow pairs byID matched seed partySeen cands (hid # hits) =
     (case fmlookup byID hid of
        None \<Rightarrow> grow pairs byID matched seed partySeen cands hits
      | Some other \<Rightarrow>
          if TkID other \<in> set matched \<or>
             TkPartyID other \<noteq> [] \<and> TkPartyID other \<in> set partySeen \<or>
             \<not> compatibleRange seed other \<or> \<not> pairs other \<or>
             groupSize (cands @ [other]) > MaxCount seed
          then grow pairs byID matched seed partySeen cands hits
          else let cands' = cands @ [other];
                   seen' = (if TkPartyID other \<noteq> [] then TkPartyID other # partySeen else partySeen)
               in if groupSize cands' \<ge> MaxCount seed then cands'
                  else grow pairs byID matched seed seen' cands' hits)"

definition searchIndex ::
  "search_api \<Rightarrow> ticket list \<Rightarrow> ticket \<Rightarrow> nat \<Rightarrow> string list \<Rightarrow> string list" where
  "searchIndex api index seed n matched =
     (case search_sorted api index
             (if Query seed = [] \<or> Query seed = ''*'' then None else Some (Query seed)) n of
        None \<Rightarrow> []
      | Some hits \<Rightarrow> filter (\<lambda>h. h \<noteq> TkID seed \<and> h \<notin> set matched) hits)"

definition lastInterval :: "mm_config \<Rightarrow> ticket \<Rightarrow> bool" where
  "lastInterval cfg t \<longleftrightarrow> Intervals t \<ge> MaxIntervals cfg \<or> MinCount t = MaxCount t"

text \<open>The group formed from one seed, if any.\<close>

definition match_seed ::
  "search_api \<Rightarrow> gotime \<Rightarrow> mm_config \<Rightarrow> queue_config \<Rightarrow> ticket list \<Rightarrow> string list \<Rightarrow> ticket
   \<Rightarrow> ticket list option" where
  "match_seed api now cfg q ts matched seed =
     (let byID = fold (\<lambda>t m. fmupd (TkID t) t m) ts fmempty;
          revEnabled = RevPrecision cfg \<or> RevEnabled q;
          revThreshold = (if ReverseThresholdTicks q \<le> 0 then 10 else ReverseThresholdTicks q);
          hits = searchIndex api ts seed (mlen byID) matched;
          cands = grow (evaluatePairing api now q revEnabled revThreshold ts seed) byID matched seed
                    (if TkPartyID seed \<noteq> [] then [TkPartyID seed] else []) [seed] hits;
          cands' = (if go_rem (groupSize cands) (CountMultiple seed) \<noteq> 0
                    then trimToMultiple cands (CountMultiple seed) (MinCount seed) else cands);
          sz = groupSize cands'
      in if \<not> (sz = MaxCount seed \<or>
               lastInterval cfg seed \<and> sz \<ge> MinCount seed \<and> sz \<le> MaxCount seed) then None
         else if \<not> groupSatisfiesAll cands' then None
         else Some cands')"

fun match_seeds ::
  "search_api \<Rightarrow> gotime \<Rightarrow> mm_config \<Rightarrow> queue_config \<Rightarrow> ticket list \<Rightarrow> string list \<Rightarrow> ticket list
   \<Rightarrow> ticket list list" where
  "match_seeds api now cfg q ts matched [] = []"
| "match_seeds api now cfg q ts matched (seed # seeds) =
     (if TkID seed \<in> set matched then match_seeds api now cfg q ts matched seeds
      else case match_seed api now cfg q ts matched seed of
             None \<Rightarrow> match_seeds api now cfg q ts matched seeds
           | Some grp \<Rightarrow> grp # match_seeds api now cfg q ts (map TkID grp @ matched) seeds)"

definition matchDefault ::
  "search_api \<Rightarrow> gotime \<Rightarrow> mm_config \<Rightarrow> queue_config \<Rightarrow> ticket list \<Rightarrow> ticket list list" where
  "matchDefault api now cfg q ts =
     (if length ts < 2 \<and> partyCount ts < MinPlayers q
      then (case ts of
              [t] \<Rightarrow> if TkCount t \<ge> MinCount t \<and> TkCount t \<le> MaxCount t \<and>
                        go_rem (TkCount t) (CountMultiple t) = 0 \<and> lastInterval cfg t
                     then [ts] else []
            | _ \<Rightarrow> [])
      else if \<not> build_index api ts then []
      else match_seeds api now cfg q ts [] ts)"

subsection \<open>Collecting the tickets of a queue\<close>

definition expire_ticket :: "string \<Rightarrow> ticket \<Rightarrow> mm_state \<Rightarrow> mm_state" where
  "expire_ticket i t mm =
     mm\<lparr>ticketStatus := fmupd (TkID t) (t\<lparr>Status := ''expired''\<rparr>) (ticketStatus mm),
        tickets := fmdrop i (tickets mm),
        sessionTickets := (case fmlookup (sessionTickets mm) (TkSessionID t) of
            None \<Rightarrow> sessionTickets mm
          | Some ids \<Rightarrow> fmupd (TkSessionID t) (fmdrop (TkID t) ids) (sessionTickets mm))\<rparr>"

fun load_loop :: "gotime \<Rightarrow> string \<Rightarrow> string list \<Rightarrow> mm_state \<Rightarrow> mm_state \<times> ticket list" where
  "load_loop now queueName [] mm = (mm, [])"
| "load_loop now queueName (i # ids) mm =
     (case fmlookup (tickets mm) i of
        None \<Rightarrow> load_loop now queueName ids mm
      | Some t \<Rightarrow>
          if QueueName t \<noteq> queueName then load_loop now queueName ids mm
          else if now - CreatedAt t > TicketExpirySec (mm_config mm) * second
          then load_loop now queueName ids (expire_ticket i t mm)
          else (let (mm', ts) = load_loop now queueName ids mm in (mm', t # ts)))"

definition loadActiveTickets ::
  "(string fset \<Rightarrow> string list) \<Rightarrow> gotime \<Rightarrow> mm_state \<Rightarrow> string \<Rightarrow> mm_state \<times> ticket list" where
  "loadActiveTickets ord now mm queueName = load_loop now queueName (ord (fmdom (tickets mm))) mm"

text \<open>\<open>t.Intervals++\<close> through the pointers shared with the pool, and the status snapshot.\<close>

definition bump_interval :: "ticket \<Rightarrow> mm_state \<Rightarrow> mm_state \<times> ticket" where
  "bump_interval t mm =
     (let t' = t\<lparr>Intervals := Intervals t + 1\<rparr>
      in (mm\<lparr>tickets := fmupd (TkID t) t' (tickets mm),
             ticketStatus := fmupd (TkID t) t' (ticketStatus mm)\<rparr>, t'))"

fun bump_all :: "ticket list \<Rightarrow> mm_state \<Rightarrow> mm_state \<times> ticket list" where
  "bump_all [] mm = (mm, [])"
| "bump_all (t # ts) mm =
     (let (mm1, t') = bump_interval t mm; (mm2, ts') = bump_all ts mm1 in (mm2, t' # ts'))"

subsection \<open>Finalising a match\<close>

definition ticket_presences :: "ticket \<Rightarrow> mm_presence list" where
  "ticket_presences t =
     (if Presences t = []
      then [\<lparr>PUserID = TkUserID t, PUsername = TkUsername t, PSessionID = TkSessionID t\<rparr>]
      else Presences t)"

definition group_users :: "ticket list \<Rightarrow> mm_presence list" where
  "group_users ts = concat (map ticket_presences ts)"

definition group_ticket_ids :: "ticket list \<Rightarrow> (string, string) fmap" where
  "group_ticket_ids ts =
     fold (\<lambda>(u, i) m. fmupd u i m)
       (concat (map (\<lambda>t. map (\<lambda>p. (PUserID p, TkID t)) (ticket_presences t)) ts)) fmempty"

definition matched_user_of :: "ticket list \<Rightarrow> (string, string) fmap \<Rightarrow> mm_presence \<Rightarrow> matched_user" where
  "matched_user_of ts ticketIDs p =
     (let tid = (case fmlookup ticketIDs (PUserID p) of None \<Rightarrow> [] | Some i \<Rightarrow> i)
      in case find (\<lambda>t. TkID t = tid) ts of
           None \<Rightarrow> \<lparr>MUUserID = PUserID p, MUUsername = PUsername p, MUSessionID = PSessionID p,
                    MUPartyID = [], MUTicketID = tid, MUString = fmempty, MUNumeric = fmempty\<rparr>
         | Some t \<Rightarrow> \<lparr>MUUserID = PUserID p, MUUsername = PUsername p, MUSessionID = PSessionID p,
                    MUPartyID = TkPartyID t, MUTicketID = tid, MUString = StringProperties t,
                    MUNumeric = NumericProperties t\<rparr>)"

definition module_of :: "matched_user list \<Rightarrow> ticket list \<Rightarrow> string" where
  "module_of mus ts =
     (let named = (\<lambda>props. case fmlookup props ''module'' of Some m \<Rightarrow> m | None \<Rightarrow> [])
      in case find (\<lambda>mu. named (MUString mu) \<noteq> []) mus of
           Some mu \<Rightarrow> named (MUString mu)
         | None \<Rightarrow> (case find (\<lambda>t. named (StringProperties t) \<noteq> []) ts of
                     Some t \<Rightarrow> named (StringProperties t) | None \<Rightarrow> []))"

definition remove_matched :: "ticket list \<Rightarrow> mm_state \<Rightarrow> mm_state" where
  "remove_matched ts mm =
     fold (\<lambda>t m. m\<lparr>tickets := fmdrop (TkID t) (tickets m),
                   sessionTickets := ndel (sessionTickets m) (TkSessionID t) (TkID t)\<rparr>) ts mm"

definition add_completion :: "completion_record \<Rightarrow> completion_record list \<Rightarrow> completion_record list" where
  "add_completion c cs =
     (let cs' = cs @ [c] in if length cs' > 10 then drop (length cs' - 10) cs' else cs')"

definition finalizeMatch :: "mm_env \<Rightarrow> mm_hooks \<Rightarrow> string \<Rightarrow> ticket list \<Rightarrow> mm_state \<Rightarrow> mm_state" where
  "finalizeMatch env hooks queueName ts mm =
     (let ticketIDs = group_ticket_ids ts;
          users = group_users ts;
          mus = map (matched_user_of ts ticketIDs) users;
          mm1 = remove_matched ts mm;
          hooked = (case hk_matched hooks of None \<Rightarrow> [] | Some h \<Rightarrow> h mus);
          authoritative = (hooked \<noteq> []);
          (matchID, mm2) = (if hooked = []
             then (''match_'' @ env_uuid env (draws mm1), mm1\<lparr>draws := Suc (draws mm1)\<rparr>)
             else (hooked, mm1));
          (mm3, token) = (if authoritative then (mm2, [])
                          else mintMatchToken env mm2 matchID users ticketIDs);
          mm4 = mm3\<lparr>ticketStatus := fold (\<lambda>t m. fmupd (TkID t)
                  (t\<lparr>Status := ''matched'', TkMatchID := matchID, TkMatchToken := token\<rparr>) m) ts
                  (ticketStatus mm3)\<rparr>
      in mm4\<lparr>completions := add_completion
               \<lparr>CMatchID = matchID, CompletedAt = env_now env, PlayerCount = length users\<rparr>
               (completions mm4),
             mm_matched := mm_matched mm4 @
               [\<lparr>RMatchID = matchID, RPlayerIDs = map PUserID users, RUsernames = map PUsername users,
                 RUsers = users, RMatchedUsers = mus, RTicketIDs = ticketIDs, RMatchToken = token,
                 RQueueName = queueName, RAuthoritative = authoritative, RModule = module_of mus ts\<rparr>]\<rparr>)"

subsection \<open>The tick\<close>

fun finalize_groups ::
  "mm_env \<Rightarrow> mm_hooks \<Rightarrow> string \<Rightarrow> string list \<Rightarrow> ticket list list \<Rightarrow> mm_state \<Rightarrow> mm_state" where
  "finalize_groups env hooks queueName matched [] mm = mm"
| "finalize_groups env hooks queueName matched (g # gs) mm =
     (if g = [] \<or> (\<exists>t \<in> set g. TkID t \<in> set matched)
      then finalize_groups env hooks queueName matched gs mm
      else finalize_groups env hooks queueName (map TkID g @ matched) gs
             (finalizeMatch env hooks queueName g mm))"

definition form_groups ::
  "search_api \<Rightarrow> mm_hooks \<Rightarrow> gotime \<Rightarrow> mm_config \<Rightarrow> queue_config \<Rightarrow> ticket list \<Rightarrow> ticket list list" where
  "form_groups api hooks now cfg q ts =
     (let gs = (case hk_processor hooks of None \<Rightarrow> matchDefault api now cfg q ts | Some f \<Rightarrow> f ts)
      in case hk_override hooks of None \<Rightarrow> gs | Some f \<Rightarrow> f gs)"

definition processQueue ::
  "(string fset \<Rightarrow> string list) \<Rightarrow> search_api \<Rightarrow> mm_hooks \<Rightarrow> mm_env \<Rightarrow> mm_state \<Rightarrow> string \<Rightarrow> mm_state" where
  "processQueue ord api hooks env mm queueName =
     (let q = queueConfig mm queueName;
          (mm1, active) = loadActiveTickets ord (env_now env) mm queueName
      in if active = [] then mm1
         else (let (mm2, ts) = bump_all (sort_key CreatedAt active) mm1
               in finalize_groups env hooks queueName []
                    (form_groups api hooks (env_now env) (mm_config mm2) q ts) mm2))"

definition queue_names :: "mm_state \<Rightarrow> string list" where
  "queue_names mm =
     (case Queues (mm_config mm) of
        None \<Rightarrow> [''default'']
      | Some qs \<Rightarrow> if mlen qs = 0 then [''default''] else sorted_list_of_fset (fmdom qs))"

definition Tick ::
  "(string fset \<Rightarrow> string list) \<Rightarrow> search_api \<Rightarrow> mm_hooks \<Rightarrow> mm_env \<Rightarrow> mm_state \<Rightarrow> mm_state" where
  "Tick ord api hooks env mm =
     fold (\<lambda>qn m. processQueue ord api hooks env m qn) (queue_names mm) mm"

end
