(* ===== verification/Matchmaker_Groups.thy ===== *)
theory Matchmaker_Groups
  imports Matchmaker_Process
begin

section \<open>Matchmaker: the groups of default matching\<close>

text \<open>
  What \<open>matchDefault\<close> of \<open>internal/matchmaker/process.go\<close> returns, whatever the search engine finds: groups
  of distinct queued tickets that do not overlap and whose size every member accepts.
\<close>

subsection \<open>Sizes\<close>

lemma head_count_pos: "1 \<le> head_count t"
  by (simp add: head_count_def)

lemma groupSize_simps [simp]:
  "groupSize [] = 0" "groupSize (t # ts) = head_count t + groupSize ts"
  "groupSize (ts @ us) = groupSize ts + groupSize us"
  by (simp_all add: groupSize_def)

lemma groupSize_nonneg: "0 \<le> groupSize ts"
proof (induction ts)
  case (Cons t ts)
  then show ?case using head_count_pos [of t] by simp
qed simp

definition party_ids :: "ticket list \<Rightarrow> string list" where
  "party_ids ts = filter (\<lambda>p. p \<noteq> []) (map TkPartyID ts)"

text \<open>A ticket accepts a group size.\<close>

definition accepts :: "ticket \<Rightarrow> int \<Rightarrow> bool" where
  "accepts t n \<longleftrightarrow> MinCount t \<le> n \<and> n \<le> MaxCount t \<and> (CountMultiple t > 1 \<longrightarrow> go_rem n (CountMultiple t) = 0)"

lemma satisfies_from_iff:
  "satisfies_from n parties ts \<longleftrightarrow>
     (\<forall>t \<in> set ts. accepts t n) \<and> distinct (party_ids ts) \<and> set (party_ids ts) \<inter> set parties = {}"
proof (induction ts arbitrary: parties)
  case (Cons t ts)
  have acc: "satisfies_from n parties (t # ts) \<longleftrightarrow>
      \<not> (TkPartyID t \<noteq> [] \<and> TkPartyID t \<in> set parties) \<and> accepts t n \<and>
      satisfies_from n (if TkPartyID t \<noteq> [] then TkPartyID t # parties else parties) ts"
    unfolding accepts_def by (simp only: satisfies_from.simps not_le [symmetric]) argo
  show ?case
  proof (cases "TkPartyID t = []")
    case True
    then have "party_ids (t # ts) = party_ids ts" by (simp add: party_ids_def)
    with True show ?thesis unfolding acc by (simp add: Cons.IH)
  next
    case False
    then have "party_ids (t # ts) = TkPartyID t # party_ids ts" by (simp add: party_ids_def)
    with False show ?thesis unfolding acc by (simp add: Cons.IH) blast
  qed
qed (simp add: party_ids_def)

lemma groupSatisfiesAll_iff:
  "groupSatisfiesAll ts \<longleftrightarrow> (\<forall>t \<in> set ts. accepts t (groupSize ts)) \<and> distinct (party_ids ts)"
  by (simp add: groupSatisfiesAll_def satisfies_from_iff)

subsection \<open>Trimming\<close>

lemma trim_loop_props:
  "set (trim_loop rem out) \<subseteq> set out \<and> (distinct (map TkID out) \<longrightarrow> distinct (map TkID (trim_loop rem out))) \<and>
   (out \<noteq> [] \<longrightarrow> trim_loop rem out \<noteq> [] \<and> hd (trim_loop rem out) = hd out)"
proof (induction rem out rule: trim_loop.induct)
  case (1 rem out)
  show ?case
  proof (cases "rem > 0 \<and> length out > 1")
    case False
    then show ?thesis by (subst (1 2 3 4) trim_loop.simps) auto
  next
    case True
    define i where "i = drop_index rem out"
    define out' where "out' = take i out @ drop (Suc i) out"
    have i: "i < length out" "1 \<le> i" using drop_index_bounds True by (simp_all add: i_def)
    have step: "trim_loop rem out = trim_loop (rem - head_count (out ! i)) out'"
      unfolding i_def out'_def by (subst trim_loop.simps) (simp only: True Let_def if_True simp_thms)
    have "set out' \<subseteq> set out" by (auto simp: out'_def dest: in_set_takeD in_set_dropD)
    moreover have "distinct (map TkID out')" if "distinct (map TkID out)"
    proof -
      have "map TkID out = map TkID (take i out) @ TkID (out ! i) # map TkID (drop (Suc i) out)"
        using i(1) by (metis id_take_nth_drop map_append list.simps(9))
      with that show ?thesis by (simp add: out'_def)
    qed
    moreover have "out' \<noteq> []" "hd out' = hd out" using i by (cases out; cases i; simp add: out'_def)+
    ultimately show ?thesis
      using "1.IH" [OF True i_def refl] by (auto simp: step out'_def)
  qed
qed

lemma trimToMultiple_props:
  assumes "ts \<noteq> []"
  shows "set (trimToMultiple ts m k) \<subseteq> set ts \<and>
    (distinct (map TkID ts) \<longrightarrow> distinct (map TkID (trimToMultiple ts m k))) \<and>
    trimToMultiple ts m k \<noteq> []"
  using trim_loop_props [of "go_rem (groupSize ts) m" ts] assms
  by (auto simp: trimToMultiple_def Let_def take_map [symmetric] dest: in_set_takeD)

subsection \<open>Growing a group\<close>

lemma grow_props:
  assumes byID: "\<And>i t. fmlookup byID i = Some t \<Longrightarrow> TkID t = i \<and> t \<in> set pool"
  shows "distinct hits \<Longrightarrow> distinct (map TkID cands) \<Longrightarrow> set (map TkID cands) \<inter> set hits = {} \<Longrightarrow>
    set cands \<subseteq> set pool \<Longrightarrow> set (map TkID cands) \<inter> set matched = {} \<Longrightarrow> cands \<noteq> [] \<Longrightarrow>
    (let g = grow pairs byID matched seed partySeen cands hits
     in distinct (map TkID g) \<and> set g \<subseteq> set pool \<and> set (map TkID g) \<inter> set matched = {} \<and> g \<noteq> [])"
proof (induction hits arbitrary: partySeen cands)
  case Nil
  then show ?case by simp
next
  case (Cons h hits)
  have IH: "let g = grow pairs byID matched seed ps cs hits
     in distinct (map TkID g) \<and> set g \<subseteq> set pool \<and> set (map TkID g) \<inter> set matched = {} \<and> g \<noteq> []"
    if "distinct (map TkID cs)" "set (map TkID cs) \<inter> set hits = {}" "set cs \<subseteq> set pool"
      "set (map TkID cs) \<inter> set matched = {}" "cs \<noteq> []" for ps cs
    using Cons.IH [of cs ps] Cons.prems(1) that by simp
  show ?case
  proof (cases "fmlookup byID h")
    case None
    then show ?thesis using IH [of cands] Cons.prems by simp
  next
    case (Some t)
    then have t: "TkID t = h" "t \<in> set pool" using byID by auto
    show ?thesis
    proof (cases "TkID t \<in> set matched")
      case True
      then show ?thesis using IH [of cands] Cons.prems Some by simp
    next
      case False
      have new: "distinct (map TkID (cands @ [t]))" "set (map TkID (cands @ [t])) \<inter> set hits = {}"
        "set (cands @ [t]) \<subseteq> set pool" "set (map TkID (cands @ [t])) \<inter> set matched = {}"
        "cands @ [t] \<noteq> []" using Cons.prems t False by auto
      show ?thesis
        using IH [of cands] IH [OF new] Cons.prems Some new
        by (simp add: Let_def)
    qed
  qed
qed

lemma byID_lookup:
  assumes "distinct (map TkID ts)"
  shows "fmlookup (fold (\<lambda>t m. fmupd (TkID t) t m) ts fmempty) i = Some t \<longleftrightarrow> t \<in> set ts \<and> TkID t = i"
proof -
  have "distinct (map TkID ts) \<Longrightarrow>
    fmlookup (fold (\<lambda>t m. fmupd (TkID t) t m) ts m) i = Some t \<longleftrightarrow>
      (t \<in> set ts \<and> TkID t = i) \<or> (i \<notin> TkID ` set ts \<and> fmlookup m i = Some t)" for m
    by (induction ts arbitrary: m) (auto simp: image_iff)
  from this [OF assms, of fmempty] show ?thesis by simp
qed

definition hits_distinct :: "search_api \<Rightarrow> bool" where
  "hits_distinct api \<longleftrightarrow>
     (\<forall>index q n hits. search_sorted api index q n = Some hits \<longrightarrow> distinct hits)"

text \<open>A well-formed group of tickets of the pool.\<close>

definition group_ok :: "ticket list \<Rightarrow> ticket list \<Rightarrow> bool" where
  "group_ok pool g \<longleftrightarrow> g \<noteq> [] \<and> set g \<subseteq> set pool \<and> distinct (map TkID g) \<and>
     (\<forall>t \<in> set g. accepts t (groupSize g)) \<and> distinct (party_ids g)"

lemma match_seed_ok:
  assumes api: "hits_distinct api" and dist: "distinct (map TkID ts)" and seed: "seed \<in> set ts"
    and free: "TkID seed \<notin> set matched"
    and m: "match_seed api now cfg q ts matched seed = Some g"
  shows "group_ok ts g" "set (map TkID g) \<inter> set matched = {}"
proof -
  define byID where "byID = fold (\<lambda>t m. fmupd (TkID t) t m) ts fmempty"
  define hits where "hits = searchIndex api ts seed (mlen byID) matched"
  define pairs where "pairs = evaluatePairing api now q (RevPrecision cfg \<or> RevEnabled q)
     (if ReverseThresholdTicks q \<le> 0 then 10 else ReverseThresholdTicks q) ts seed"
  define cands where "cands = grow pairs byID matched seed
     (if TkPartyID seed \<noteq> [] then [TkPartyID seed] else []) [seed] hits"
  define cands' where "cands' = (if go_rem (groupSize cands) (CountMultiple seed) \<noteq> 0
     then trimToMultiple cands (CountMultiple seed) (MinCount seed) else cands)"
  have g: "g = cands'" and sat: "groupSatisfiesAll cands'"
    using m by (simp_all add: match_seed_def Let_def byID_def hits_def pairs_def cands_def cands'_def
        split: if_splits)
  have lk: "fmlookup byID i = Some t \<Longrightarrow> TkID t = i \<and> t \<in> set ts" for i t
    using byID_lookup [OF dist] by (simp add: byID_def)
  have hits: "distinct hits" "TkID seed \<notin> set hits"
    using api by (auto simp: hits_def searchIndex_def hits_distinct_def split: option.splits)
  have "distinct (map TkID cands) \<and> set cands \<subseteq> set ts \<and> set (map TkID cands) \<inter> set matched = {} \<and>
        cands \<noteq> []"
    unfolding cands_def
    using grow_props [OF lk hits(1), where cands = "[seed]" and matched = matched] hits(2) seed free
    by (simp add: Let_def)
  then have "distinct (map TkID g) \<and> set g \<subseteq> set ts \<and> set (map TkID g) \<inter> set matched = {} \<and> g \<noteq> []"
    using trimToMultiple_props [of cands "CountMultiple seed" "MinCount seed"]
    unfolding g cands'_def by (auto simp: image_iff; blast)
  then show "group_ok ts g" "set (map TkID g) \<inter> set matched = {}"
    using sat by (auto simp: group_ok_def groupSatisfiesAll_iff g)
qed

lemma match_seeds_ok:
  assumes api: "hits_distinct api" and dist: "distinct (map TkID ts)"
  shows "set seeds \<subseteq> set ts \<Longrightarrow>
    (\<forall>g \<in> set (match_seeds api now cfg q ts matched seeds). group_ok ts g) \<and>
    distinct (concat (map (map TkID) (match_seeds api now cfg q ts matched seeds))) \<and>
    set (concat (map (map TkID) (match_seeds api now cfg q ts matched seeds))) \<inter> set matched = {}"
proof (induction seeds arbitrary: matched)
  case (Cons s seeds)
  show ?case
  proof (cases "TkID s \<in> set matched")
    case True
    with Cons show ?thesis by simp
  next
    case False
    show ?thesis
    proof (cases "match_seed api now cfg q ts matched s")
      case None
      with False Cons show ?thesis by simp
    next
      case (Some g)
      have s: "s \<in> set ts" using Cons.prems by simp
      note g = match_seed_ok [OF api dist s False Some]
      define gs where "gs = match_seeds api now cfg q ts (map TkID g @ matched) seeds"
      have IH: "\<forall>h \<in> set gs. group_ok ts h" "distinct (concat (map (map TkID) gs))"
        "set (concat (map (map TkID) gs)) \<inter> set (map TkID g @ matched) = {}"
        using Cons.IH [of "map TkID g @ matched"] Cons.prems by (simp_all add: gs_def)
      have eq: "match_seeds api now cfg q ts matched (s # seeds) = g # gs"
        using False Some by (simp add: gs_def)
      have "distinct (map TkID g)" using g(1) by (simp add: group_ok_def)
      moreover have "set (concat (map (map TkID) gs)) \<inter> set (map TkID g) = {}"
        "set (concat (map (map TkID) gs)) \<inter> set matched = {}"
        using IH(3) unfolding set_append by blast+
      ultimately show ?thesis
        using IH(1,2) g
        unfolding eq list.map concat.simps distinct_append set_append list.set by blast
    qed
  qed
qed simp

definition ticket_ok :: "ticket \<Rightarrow> bool" where
  "ticket_ok t \<longleftrightarrow> 2 \<le> MinCount t \<and> MinCount t \<le> MaxCount t \<and> 1 \<le> CountMultiple t \<and> 1 \<le> TkCount t \<and>
     TkCount t \<le> MaxCount t \<and> TkCount t = int (length (Presences t))"

lemma matchDefault_ok:
  assumes "hits_distinct api" "distinct (map TkID ts)" "\<forall>t \<in> set ts. ticket_ok t"
  shows "(\<forall>g \<in> set (matchDefault api now cfg q ts). group_ok ts g) \<and>
    distinct (concat (map (map TkID) (matchDefault api now cfg q ts)))"
proof (cases "length ts < 2 \<and> partyCount ts < MinPlayers q")
  case True
  show ?thesis
  proof (cases ts)
    case (Cons t us)
    with True have ts: "ts = [t]" by (cases us) auto
    have "1 \<le> TkCount t" using assms(3) by (auto simp: ts ticket_ok_def)
    then have "head_count t = TkCount t" by (simp add: head_count_def)
    with True show ?thesis
      by (auto simp: matchDefault_def ts group_ok_def accepts_def party_ids_def)
  qed (use True in \<open>simp add: matchDefault_def\<close>)
next
  case False
  then have eq: "matchDefault api now cfg q ts =
      (if \<not> build_index api ts then [] else match_seeds api now cfg q ts [] ts)"
    by (simp only: matchDefault_def if_False)
  show ?thesis
    unfolding eq using match_seeds_ok [OF assms(1,2) subset_refl, of now cfg q "[]"] by simp
qed

end
