(* ===== verification/Matchmaker_Inv.thy ===== *)
theory Matchmaker_Inv
  imports Matchmaker_Groups
begin

section \<open>Matchmaker: the pool invariant\<close>

text \<open>
  The invariant \<open>mm_inv\<close> of the matchmaker state (tickets keyed by their IDs, the session index listing
  exactly the pooled tickets and never more than \<open>MaxTickets\<close> per session, at most ten completions),
  and its preservation by submitting, cancelling and ticking.
\<close>

subsection \<open>The invariant\<close>

definition index_of_pool ::
  "(string, string, unit) nmap \<Rightarrow> (string, ticket) fmap \<Rightarrow> bool" where
  "index_of_pool st ts \<longleftrightarrow>
     (\<forall>sid i. nget st sid i \<noteq> None \<longleftrightarrow> (\<exists>t. fmlookup ts i = Some t \<and> TkSessionID t = sid))"

definition pool_ok :: "(string, ticket) fmap \<Rightarrow> bool" where
  "pool_ok ts \<longleftrightarrow> fmpred (\<lambda>i t. TkID t = i \<and> ticket_ok t) ts"

definition sets_bounded :: "(string, string, unit) nmap \<Rightarrow> int \<Rightarrow> bool" where
  "sets_bounded st n \<longleftrightarrow> (\<forall>sid. int (mlen (inner st sid)) \<le> n)"

definition mm_inv :: "mm_state \<Rightarrow> bool" where
  "mm_inv mm \<longleftrightarrow> pool_ok (tickets mm) \<and> index_of_pool (sessionTickets mm) (tickets mm) \<and>
     sets_bounded (sessionTickets mm) (MaxTickets (mm_config mm)) \<and> 1 \<le> MaxTickets (mm_config mm) \<and>
     length (completions mm) \<le> 10"

lemma pool_okD: "pool_ok ts \<Longrightarrow> fmlookup ts i = Some t \<Longrightarrow> TkID t = i \<and> ticket_ok t"
  by (auto simp: pool_ok_def)

lemma pool_ok_drop: "pool_ok ts \<Longrightarrow> pool_ok (fmdrop i ts)"
  by (auto simp: pool_ok_def)

lemma pool_ok_upd: "pool_ok ts \<Longrightarrow> TkID t = i \<Longrightarrow> ticket_ok t \<Longrightarrow> pool_ok (fmupd i t ts)"
  unfolding pool_ok_def by (rule fmpred_upd) simp_all

lemma index_put:
  assumes "index_of_pool st ts" "fmlookup ts i = None" "TkSessionID t = sid"
  shows "index_of_pool (nput st sid i ()) (fmupd i t ts)"
  using assms by (auto simp: index_of_pool_def nested_laws)

lemma index_del:
  assumes "index_of_pool st ts" "fmlookup ts i = Some t"
    and del: "\<And>a b. nget st' a b = (if a = TkSessionID t \<and> b = i then None else nget st a b)"
  shows "index_of_pool st' (fmdrop i ts)"
  unfolding index_of_pool_def
proof (intro allI)
  fix sid j
  have "nget st sid j \<noteq> None \<longleftrightarrow> (\<exists>t. fmlookup ts j = Some t \<and> TkSessionID t = sid)"
    using assms(1) by (simp add: index_of_pool_def)
  then show "nget st' sid j \<noteq> None \<longleftrightarrow> (\<exists>t. fmlookup (fmdrop i ts) j = Some t \<and> TkSessionID t = sid)"
    using assms(2) by (cases "j = i") (auto simp: del)
qed

lemma index_same_sessions:
  assumes "index_of_pool st ts" "fmlookup ts i = Some t" "TkSessionID t' = TkSessionID t"
  shows "index_of_pool st (fmupd i t' ts)"
  unfolding index_of_pool_def
proof (intro allI)
  fix sid j
  have "nget st sid j \<noteq> None \<longleftrightarrow> (\<exists>t. fmlookup ts j = Some t \<and> TkSessionID t = sid)"
    using assms(1) by (simp add: index_of_pool_def)
  then show "nget st sid j \<noteq> None \<longleftrightarrow> (\<exists>t. fmlookup (fmupd i t' ts) j = Some t \<and> TkSessionID t = sid)"
    using assms(2,3) by (cases "j = i") auto
qed

lemma sets_bounded_sub:
  assumes "sets_bounded st n" "\<And>a b. nget st' a b \<noteq> None \<Longrightarrow> nget st a b \<noteq> None"
  shows "sets_bounded st' n"
  unfolding sets_bounded_def
proof
  fix sid
  have "mlen (inner st' sid) \<le> mlen (inner st sid)" by (rule mlen_inner_le [OF assms(2)])
  moreover have "int (mlen (inner st sid)) \<le> n" using assms(1) by (simp add: sets_bounded_def)
  ultimately show "int (mlen (inner st' sid)) \<le> n" by linarith
qed

subsection \<open>Removing a ticket\<close>

text \<open>Every way a ticket leaves the pool changes these three fields.\<close>

lemma inv_drop_ticket:
  assumes inv: "mm_inv mm" and t: "fmlookup (tickets mm) i = Some t"
    and ts: "tickets mm' = fmdrop i (tickets mm)" and cfg: "mm_config mm' = mm_config mm"
    and st: "\<And>a b. nget (sessionTickets mm') a b =
               (if a = TkSessionID t \<and> b = i then None else nget (sessionTickets mm) a b)"
    and cs: "length (completions mm') \<le> 10"
  shows "mm_inv mm'"
  unfolding mm_inv_def ts cfg
proof (intro conjI)
  show "pool_ok (fmdrop i (tickets mm))" using inv by (simp add: mm_inv_def pool_ok_drop)
  show "index_of_pool (sessionTickets mm') (fmdrop i (tickets mm))"
    by (rule index_del [OF _ t st]) (use inv in \<open>simp add: mm_inv_def\<close>)
  show "sets_bounded (sessionTickets mm') (MaxTickets (mm_config mm))"
    by (rule sets_bounded_sub [of "sessionTickets mm"])
       (use inv st in \<open>auto simp: mm_inv_def split: if_splits\<close>)
qed (use inv cs in \<open>simp_all add: mm_inv_def\<close>)

lemma Cancel_inv: "mm_inv mm \<Longrightarrow> mm_inv (Cancel mm i)"
proof (cases "fmlookup (tickets mm) i")
  case (Some t)
  assume inv: "mm_inv mm"
  show ?thesis
    by (rule inv_drop_ticket [OF inv Some])
       (use inv Some in \<open>simp_all add: Cancel_def nested_laws mm_inv_def\<close>)
qed (simp add: Cancel_def)

lemma Cancel_tickets: "fmlookup (tickets (Cancel mm i)) j = (if j = i then None else fmlookup (tickets mm) j)"
  by (simp add: Cancel_def split: option.split)

lemma Cancel_config [simp]: "mm_config (Cancel mm i) = mm_config mm"
  by (simp add: Cancel_def split: option.split)

lemma cancel_fold_inv: "mm_inv mm \<Longrightarrow> mm_inv (fold (\<lambda>i m. Cancel m i) is mm)"
  by (induction "is" arbitrary: mm) (simp_all add: Cancel_inv)

lemma cancel_fold_tickets:
  "fmlookup (tickets (fold (\<lambda>i m. Cancel m i) is mm)) j =
     (if j \<in> set is then None else fmlookup (tickets mm) j)"
  by (induction "is" arbitrary: mm) (simp_all add: Cancel_tickets)

lemma cancel_fold_config [simp]: "mm_config (fold (\<lambda>i m. Cancel m i) is mm) = mm_config mm"
  by (induction "is" arbitrary: mm) simp_all

lemma RemovePartyAll_inv: "mm_inv mm \<Longrightarrow> mm_inv (RemovePartyAll ord mm pid)"
  by (simp add: RemovePartyAll_def cancel_fold_inv)

lemma RemoveSessionAll_inv:
  assumes ord: "valid_order ord" and inv: "mm_inv mm"
  shows "mm_inv (RemoveSessionAll ord mm sid)"
    and "fmlookup (tickets (RemoveSessionAll ord mm sid)) i =
           (case fmlookup (tickets mm) i of
              Some t \<Rightarrow> if TkSessionID t = sid then None else Some t | None \<Rightarrow> None)"
proof -
  define ids where "ids = ord (fmdom (inner (sessionTickets mm) sid))"
  define mm1 where "mm1 = fold (\<lambda>i m. Cancel m i) ids mm"
  have R: "RemoveSessionAll ord mm sid = mm1\<lparr>sessionTickets := fmdrop sid (sessionTickets mm1)\<rparr>"
    by (simp add: RemoveSessionAll_def ids_def mm1_def Let_def)
  have idx: "index_of_pool (sessionTickets mm) (tickets mm)" using inv by (simp add: mm_inv_def)
  have ids: "i \<in> set ids \<longleftrightarrow> (\<exists>t. fmlookup (tickets mm) i = Some t \<and> TkSessionID t = sid)" for i
  proof -
    have "i \<in> set ids \<longleftrightarrow> nget (sessionTickets mm) sid i \<noteq> None"
      by (simp add: ids_def valid_order_set [OF ord] fmlookup_dom_iff inner_lookup)
    then show ?thesis using idx by (simp add: index_of_pool_def)
  qed
  have ts: "fmlookup (tickets mm1) i = (case fmlookup (tickets mm) i of
              Some t \<Rightarrow> if TkSessionID t = sid then None else Some t | None \<Rightarrow> None)" for i
    by (auto simp: mm1_def cancel_fold_tickets ids split: option.split)
  then show "fmlookup (tickets (RemoveSessionAll ord mm sid)) i =
           (case fmlookup (tickets mm) i of
              Some t \<Rightarrow> if TkSessionID t = sid then None else Some t | None \<Rightarrow> None)"
    by (simp add: R)
  have inv1: "mm_inv mm1" unfolding mm1_def by (rule cancel_fold_inv [OF inv])
  have none: "nget (sessionTickets mm1) sid j = None" for j
  proof -
    have "\<not> (\<exists>t. fmlookup (tickets mm1) j = Some t \<and> TkSessionID t = sid)"
      by (auto simp: ts split: option.splits if_splits)
    moreover have "nget (sessionTickets mm1) sid j \<noteq> None \<longleftrightarrow>
        (\<exists>t. fmlookup (tickets mm1) j = Some t \<and> TkSessionID t = sid)"
      using inv1 unfolding mm_inv_def index_of_pool_def by blast
    ultimately show ?thesis by blast
  qed
  have eq: "nget (fmdrop sid (sessionTickets mm1)) a b = nget (sessionTickets mm1) a b" for a b
    by (simp add: nget_fmdrop none)
  have "sets_bounded (fmdrop sid (sessionTickets mm1)) (MaxTickets (mm_config mm1))"
    by (rule sets_bounded_sub [of "sessionTickets mm1"]) (use inv1 in \<open>simp_all add: eq mm_inv_def\<close>)
  with inv1 show "mm_inv (RemoveSessionAll ord mm sid)"
    by (simp add: R mm_inv_def index_of_pool_def eq)
qed


subsection \<open>Submitting\<close>

lemma checkRateLimit_fields [simp]:
  "tickets (fst (checkRateLimit now mm u)) = tickets mm"
  "sessionTickets (fst (checkRateLimit now mm u)) = sessionTickets mm"
  "mm_config (fst (checkRateLimit now mm u)) = mm_config mm"
  "completions (fst (checkRateLimit now mm u)) = completions mm"
  "ticketStatus (fst (checkRateLimit now mm u)) = ticketStatus mm"
  "matchTokens (fst (checkRateLimit now mm u)) = matchTokens mm"
  "mm_matched (fst (checkRateLimit now mm u)) = mm_matched mm"
  by (simp_all add: checkRateLimit_def Let_def)

lemma complete_ticket_count:
  assumes "TkCount t0 \<le> 0 \<or> TkCount t0 = int (length (Presences t0))"
    and "complete_ticket env q n t0 = (t, n')"
  shows "TkCount t = int (length (Presences t)) \<and> 1 \<le> TkCount t"
proof -
  have "TkCount t = (if TkCount t0 \<le> 0 then (if Presences t0 \<noteq> [] then int (length (Presences t0)) else 1)
                     else TkCount t0)"
    "Presences t0 \<noteq> [] \<Longrightarrow> Presences t = Presences t0" "Presences t0 = [] \<Longrightarrow> length (Presences t) = 1"
    using assms(2) by (auto simp: complete_ticket_def Let_def split: prod.splits)
  moreover have "Presences t0 \<noteq> [] \<Longrightarrow> Suc 0 \<le> length (Presences t0)" by (cases "Presences t0") simp_all
  ultimately show ?thesis using assms(1) by (cases "Presences t0 = []") auto
qed

lemma Submit_cases:
  assumes "Submit env mm t0 = (mm', res)"
  obtains (refused) e where "res = Inl e" "tickets mm' = tickets mm" "mm_config mm' = mm_config mm"
      "completions mm' = completions mm" "sessionTickets mm' = sessionTickets mm"
  | (full) t :: ticket where "res = Inl ErrTooManyTickets" "tickets mm' = tickets mm" "mm_config mm' = mm_config mm"
      "completions mm' = completions mm"
      "sessionTickets mm' = fmupd (TkSessionID t) (inner (sessionTickets mm) (TkSessionID t)) (sessionTickets mm)"
      "MaxTickets (mm_config mm) \<le> int (mlen (inner (sessionTickets mm) (TkSessionID t)))"
  | (accepted) t n q t1 where "res = Inr t" "complete_ticket env q (draws mm) t1 = (t, n)"
      "TkCount t1 = TkCount t0" "Presences t1 = Presences t0"
      "2 \<le> MinCount t" "MinCount t \<le> MaxCount t" "1 \<le> CountMultiple t" "TkCount t \<le> MaxCount t"
      "int (mlen (inner (sessionTickets mm) (TkSessionID t))) < MaxTickets (mm_config mm)"
      "tickets mm' = fmupd (TkID t) t (tickets mm)" "mm_config mm' = mm_config mm"
      "completions mm' = completions mm"
      "\<And>a b. nget (sessionTickets mm') a b =
         (if a = TkSessionID t \<and> b = TkID t then Some () else nget (sessionTickets mm) a b)"
proof -
  define t1 where "t1 = t0\<lparr>QueueName := (if QueueName t0 = [] then ''default'' else QueueName t0)\<rparr>"
  define q where "q = queueConfig mm (QueueName t1)"
  obtain t n where t: "complete_ticket env q (draws mm) t1 = (t, n)" by fastforce
  define mm0 where "mm0 = mm\<lparr>draws := n\<rparr>"
  obtain mm1 ok where rl: "checkRateLimit (env_now env) mm0 (TkUserID t) = (mm1, ok)" by fastforce
  have f: "tickets mm1 = tickets mm" "sessionTickets mm1 = sessionTickets mm" "mm_config mm1 = mm_config mm"
    "completions mm1 = completions mm"
    using checkRateLimit_fields [of "env_now env" mm0 "TkUserID t", unfolded rl fst_conv]
    by (simp_all add: mm0_def)
  let ?S = "inner (sessionTickets mm) (TkSessionID t)"
  have put: "nget (nput (fmupd s (inner m s) m) s i v) a b =
      (if a = s \<and> b = i then Some v else nget m a b)" for m :: "(string, string, unit) nmap" and s i v a b
    by (auto simp: nested_laws) (auto simp: nget_def inner_def split: option.splits)
  note step = assms [unfolded Submit_def Let_def, folded t1_def, folded q_def, unfolded t prod.case,
      folded mm0_def, unfolded rl prod.case f]
  consider (bad) "MinCount t < 2 \<or> MaxCount t < MinCount t \<or> CountMultiple t < 1 \<or> TkCount t > MaxCount t"
    | (limited) "\<not> (MinCount t < 2 \<or> MaxCount t < MinCount t \<or> CountMultiple t < 1)"
        "\<not> TkCount t > MaxCount t" "\<not> ok"
    | (toomany) "\<not> (MinCount t < 2 \<or> MaxCount t < MinCount t \<or> CountMultiple t < 1)"
        "\<not> TkCount t > MaxCount t" "ok" "int (mlen ?S) \<ge> MaxTickets (mm_config mm)"
    | (fine) "\<not> (MinCount t < 2 \<or> MaxCount t < MinCount t \<or> CountMultiple t < 1)"
        "\<not> TkCount t > MaxCount t" "ok" "\<not> int (mlen ?S) \<ge> MaxTickets (mm_config mm)"
    by blast
  then show thesis
  proof cases
    case bad
    with step have "mm' = mm0" "res = Inl ErrInvalidTicket" by (auto split: if_splits)
    then show thesis by (intro refused [of ErrInvalidTicket]) (simp_all add: mm0_def)
  next
    case limited
    with step have "mm' = mm1" "res = Inl ErrRateLimited" by simp_all
    then show thesis by (intro refused [of ErrRateLimited]) (simp_all add: f)
  next
    case toomany
    with step f have "res = Inl ErrTooManyTickets"
      "mm' = mm1\<lparr>sessionTickets := fmupd (TkSessionID t) ?S (sessionTickets mm)\<rparr>" by simp_all
    with toomany(4) show thesis by (intro full [of t]) (simp_all add: f)
  next
    case fine
    with step f have r: "res = Inr t"
      "mm' = mm1\<lparr>tickets := fmupd (TkID t) t (tickets mm), ticketStatus := fmupd (TkID t) t (ticketStatus mm1),
         sessionTickets := nput (fmupd (TkSessionID t) ?S (sessionTickets mm)) (TkSessionID t) (TkID t) ()\<rparr>"
      by simp_all
    show thesis
      by (rule accepted [OF r(1) t]) (use fine r(2) f put in \<open>simp_all add: t1_def\<close>)
  qed
qed

lemma Submit_inv:
  assumes inv: "mm_inv mm"
    and count: "TkCount t0 \<le> 0 \<or> TkCount t0 = int (length (Presences t0))"
    and step: "Submit env mm t0 = (mm', res)"
    and fresh: "\<And>t. res = Inr t \<Longrightarrow> fmlookup (tickets mm) (TkID t) = None"
  shows "mm_inv mm'"
  using step
proof (cases rule: Submit_cases)
  case (refused e)
  with inv show ?thesis by (simp add: mm_inv_def)
next
  case (full t)
  have same: "nget (sessionTickets mm') a b = nget (sessionTickets mm) a b" for a b
    by (auto simp: full(5) nget_def inner_def split: option.splits)
  have "sets_bounded (sessionTickets mm') (MaxTickets (mm_config mm))"
    by (rule sets_bounded_sub [of "sessionTickets mm"]) (use inv in \<open>simp_all add: same mm_inv_def\<close>)
  with inv full same show ?thesis by (simp add: mm_inv_def index_of_pool_def)
next
  case (accepted t n q t1)
  have ok: "ticket_ok t"
    using complete_ticket_count [OF _ accepted(2)] count accepted(3-8) by (simp add: ticket_ok_def)
  have none: "fmlookup (tickets mm) (TkID t) = None" by (rule fresh [OF accepted(1)])
  have "index_of_pool (nput (sessionTickets mm) (TkSessionID t) (TkID t) ()) (fmupd (TkID t) t (tickets mm))"
    by (rule index_put) (use inv none in \<open>simp_all add: mm_inv_def\<close>)
  then have "index_of_pool (sessionTickets mm') (tickets mm')"
    by (simp add: index_of_pool_def accepted(10,13) nested_laws)
  moreover have "pool_ok (tickets mm')"
    using inv ok by (simp add: accepted(10) mm_inv_def pool_ok_upd)
  moreover have "sets_bounded (sessionTickets mm') (MaxTickets (mm_config mm))"
  proof (rule sets_bounded_sub [of "nput (sessionTickets mm) (TkSessionID t) (TkID t) ()"])
    show "sets_bounded (nput (sessionTickets mm) (TkSessionID t) (TkID t) ()) (MaxTickets (mm_config mm))"
      unfolding sets_bounded_def
    proof
      fix sid
      have "int (mlen (inner (sessionTickets mm) sid)) \<le> MaxTickets (mm_config mm)"
        using inv by (simp add: mm_inv_def sets_bounded_def)
      with mlen_inner_nput [of "sessionTickets mm" "TkSessionID t" "TkID t" "()" sid] accepted(9)
      show "int (mlen (inner (nput (sessionTickets mm) (TkSessionID t) (TkID t) ()) sid))
          \<le> MaxTickets (mm_config mm)" by (auto split: if_splits)
    qed
  qed (simp add: accepted(13) nested_laws)
  ultimately show ?thesis using inv accepted(11,12) by (simp add: mm_inv_def)
qed

lemma SubmitParty_inv:
  assumes inv: "mm_inv mm" and step: "SubmitParty env mm leader members tk = (mm', res)"
    and fresh: "\<And>t. res = Inr t \<Longrightarrow> fmlookup (tickets mm) (TkID t) = None"
  shows "mm_inv mm'"
proof (cases leader)
  case None
  with inv step show ?thesis by (simp add: SubmitParty_def Let_def)
next
  case (Some l)
  define t where "t = (case tk of None \<Rightarrow> empty_ticket | Some t \<Rightarrow> t)"
  define pn where "pn = (if TkPartyID t = [] then (env_uuid env (draws mm), Suc (draws mm))
                         else (TkPartyID t, draws mm))"
  define pres where "pres = l # add_members {|PUserID l|} members"
  obtain n t0 where S: "Submit env (mm\<lparr>draws := n\<rparr>) t0 = (mm', res)"
    "TkCount t0 = int (length (Presences t0))"
  proof
    show "Submit env (mm\<lparr>draws := snd pn\<rparr>)
      (t\<lparr>TkUserID := PUserID l, TkUsername := PUsername l, TkSessionID := PSessionID l,
         Presences := pres, TkCount := int (length pres), TkPartyID := fst pn\<rparr>) = (mm', res)"
      using step unfolding SubmitParty_def Some option.case Let_def t_def [symmetric]
        pn_def [symmetric] pres_def [symmetric] by (simp only: case_prod_beta)
  qed simp
  have "mm_inv (mm\<lparr>draws := n\<rparr>)" using inv by (simp add: mm_inv_def)
  from Submit_inv [OF this _ S(1)] S(2) fresh show ?thesis by simp
qed

end
