(* ===== verification/Matchmaker_Tick.thy ===== *)
theory Matchmaker_Tick
  imports Matchmaker_Inv
begin

section \<open>Matchmaker: one tick\<close>

text \<open>
  What \<open>Tick\<close> does to the pool when no processor or override hook is installed: the invariant is kept,
  no ticket is lost, and every match formed consists of pooled tickets that accept its size.
\<close>

subsection \<open>Tickets are not lost\<close>

definition settled :: "mm_state \<Rightarrow> string \<Rightarrow> bool" where
  "settled mm i \<longleftrightarrow> (\<exists>t. fmlookup (ticketStatus mm) i = Some t \<and> (Status t = ''expired'' \<or> Status t = ''matched''))"

definition alive :: "mm_state \<Rightarrow> string \<Rightarrow> bool" where
  "alive mm i \<longleftrightarrow> i |\<in>| fmdom (tickets mm) \<or> settled mm i"

text \<open>The part of a tick's contract that composes: pool, configuration and fate of tickets.\<close>

definition tick_step :: "mm_state \<Rightarrow> mm_state \<Rightarrow> bool" where
  "tick_step mm mm' \<longleftrightarrow> mm_inv mm' \<and> mm_config mm' = mm_config mm \<and>
     (\<forall>i. alive mm i \<longrightarrow> alive mm' i) \<and> fmdom (tickets mm') |\<subseteq>| fmdom (tickets mm)"

lemma tick_step_refl: "mm_inv mm \<Longrightarrow> tick_step mm mm"
  by (simp add: tick_step_def)

lemma tick_step_trans: "tick_step a b \<Longrightarrow> tick_step b c \<Longrightarrow> tick_step a c"
  unfolding tick_step_def by auto

definition in_pool :: "mm_state \<Rightarrow> ticket list \<Rightarrow> bool" where
  "in_pool mm ts \<longleftrightarrow> distinct (map TkID ts) \<and> (\<forall>t \<in> set ts. fmlookup (tickets mm) (TkID t) = Some t)"

lemma in_pool_ok: "mm_inv mm \<Longrightarrow> in_pool mm ts \<Longrightarrow> t \<in> set ts \<Longrightarrow> ticket_ok t"
  by (auto simp: in_pool_def mm_inv_def dest: pool_okD)

lemma in_poolD: "in_pool mm ts \<Longrightarrow> t \<in> set ts \<Longrightarrow> fmlookup (tickets mm) (TkID t) = Some t"
  by (simp add: in_pool_def)

lemma in_pool_Cons:
  "in_pool mm (t # ts) \<longleftrightarrow>
     in_pool mm ts \<and> TkID t \<notin> TkID ` set ts \<and> fmlookup (tickets mm) (TkID t) = Some t"
  by (auto simp: in_pool_def)

lemma in_pool_tail:
  assumes "in_pool mm (t # ts)"
    and "\<And>j. j \<noteq> TkID t \<Longrightarrow> fmlookup (tickets mm') j = fmlookup (tickets mm) j"
  shows "in_pool mm' ts"
  unfolding in_pool_def
proof (intro conjI ballI)
  show "distinct (map TkID ts)" using assms(1) by (simp add: in_pool_def)
  fix u assume u: "u \<in> set ts"
  then have "TkID u \<noteq> TkID t" using assms(1) by (metis distinct.simps(2) image_eqI in_pool_def list.set_map list.simps(9))
  moreover have "fmlookup (tickets mm) (TkID u) = Some u" by (rule in_poolD [OF assms(1)]) (simp add: u)
  ultimately show "fmlookup (tickets mm') (TkID u) = Some u" using assms(2) by simp
qed

subsection \<open>Collecting and expiring\<close>

lemma expire_step:
  assumes inv: "mm_inv mm" and t: "fmlookup (tickets mm) i = Some t"
  shows "tick_step mm (expire_ticket i t mm)"
    and "fmlookup (tickets (expire_ticket i t mm)) j = (if j = i then None else fmlookup (tickets mm) j)"
    and "mm_matched (expire_ticket i t mm) = mm_matched mm"
proof -
  let ?e = "expire_ticket i t mm"
  have id: "TkID t = i" using inv t by (auto simp: mm_inv_def dest: pool_okD)
  have "mm_inv ?e"
  proof (rule inv_drop_ticket [OF inv t])
    show "nget (sessionTickets ?e) a b =
        (if a = TkSessionID t \<and> b = i then None else nget (sessionTickets mm) a b)" for a b
      by (auto simp: expire_ticket_def nget_def id split: option.split)
  qed (use inv in \<open>simp_all add: expire_ticket_def mm_inv_def\<close>)
  moreover have "alive ?e j" if "alive mm j" for j
    using that by (auto simp: alive_def settled_def expire_ticket_def id)
  ultimately show "tick_step mm ?e" by (auto simp: tick_step_def expire_ticket_def)
  show "fmlookup (tickets ?e) j = (if j = i then None else fmlookup (tickets mm) j)"
    "mm_matched ?e = mm_matched mm" by (simp_all add: expire_ticket_def)
qed

lemma load_loop_step:
  "mm_inv mm \<Longrightarrow> distinct ids \<Longrightarrow> load_loop now qn ids mm = (mm', ts) \<Longrightarrow>
   tick_step mm mm' \<and> mm_matched mm' = mm_matched mm \<and> in_pool mm' ts \<and> TkID ` set ts \<subseteq> set ids \<and>
   (\<forall>j. j \<notin> set ids \<longrightarrow> fmlookup (tickets mm') j = fmlookup (tickets mm) j)"
proof (induction ids arbitrary: mm ts)
  case Nil
  then show ?case by (simp add: tick_step_refl in_pool_def)
next
  case (Cons i ids)
  have d: "distinct ids" "i \<notin> set ids" using Cons.prems(2) by auto
  consider (skip) "load_loop now qn ids mm = (mm', ts)"
    | (expired) t where "fmlookup (tickets mm) i = Some t" "load_loop now qn ids (expire_ticket i t mm) = (mm', ts)"
    | (active) t us where "fmlookup (tickets mm) i = Some t" "load_loop now qn ids mm = (mm', us)" "ts = t # us"
  proof (cases "fmlookup (tickets mm) i")
    case None
    with Cons.prems(3) skip show thesis by simp
  next
    case (Some t)
    obtain m us where rest: "load_loop now qn ids mm = (m, us)" by fastforce
    show thesis
    proof (cases "QueueName t \<noteq> qn")
      case True
      with Some Cons.prems(3) skip show thesis by simp
    next
      case False
      show thesis
      proof (cases "now - CreatedAt t > TicketExpirySec (mm_config mm) * second")
        case True
        with False Some Cons.prems(3) expired [OF Some] show thesis by simp
      next
        case not_old: False
        with False Some Cons.prems(3) rest have "mm' = m" "ts = t # us" by simp_all
        with active [OF Some] rest show thesis by simp
      qed
    qed
  qed
  then show ?case
  proof cases
    case skip
    from Cons.IH [OF Cons.prems(1) d(1) skip] show ?thesis by auto
  next
    case (expired t)
    note e = expire_step [OF Cons.prems(1) expired(1)]
    have inv: "mm_inv (expire_ticket i t mm)" using e(1) by (simp add: tick_step_def)
    from Cons.IH [OF inv d(1) expired(2)] e show ?thesis
      by (auto intro: tick_step_trans)
  next
    case (active t us)
    have id: "TkID t = i" using Cons.prems(1) active(1) by (auto simp: mm_inv_def dest: pool_okD)
    note IH = Cons.IH [OF Cons.prems(1) d(1) active(2)]
    have "fmlookup (tickets mm') i = Some t" using IH d(2) active(1) by simp
    moreover have "i \<notin> TkID ` set us" using IH d(2) by auto
    ultimately have "in_pool mm' ts" using IH id by (simp add: in_pool_def active(3))
    with IH id active(3) show ?thesis by auto
  qed
qed

lemma bump_step:
  assumes inv: "mm_inv mm" and t: "fmlookup (tickets mm) (TkID t) = Some t"
    and b: "bump_interval t mm = (mm', t')"
  shows "tick_step mm mm'" and "mm_matched mm' = mm_matched mm" and "TkID t' = TkID t"
    and "fmlookup (tickets mm') j = (if j = TkID t then Some t' else fmlookup (tickets mm) j)"
proof -
  have m: "mm' = mm\<lparr>tickets := fmupd (TkID t) t' (tickets mm),
             ticketStatus := fmupd (TkID t) t' (ticketStatus mm)\<rparr>"
    and t': "t' = t\<lparr>Intervals := Intervals t + 1\<rparr>" using b by (auto simp: bump_interval_def Let_def)
  have "ticket_ok t" using inv t by (auto simp: mm_inv_def dest: pool_okD)
  then have "pool_ok (tickets mm')" using inv
    by (simp add: m t' mm_inv_def pool_ok_upd ticket_ok_def)
  moreover have "index_of_pool (sessionTickets mm) (fmupd (TkID t) t' (tickets mm))"
    by (rule index_same_sessions [OF _ t]) (use inv in \<open>simp_all add: mm_inv_def t'\<close>)
  moreover have "alive mm' j" if "alive mm j" for j
    using that by (auto simp: alive_def settled_def m)
  ultimately show "tick_step mm mm'"
    using inv fmdomI [OF t] by (auto simp: tick_step_def mm_inv_def m)
  show "mm_matched mm' = mm_matched mm" "TkID t' = TkID t"
    "fmlookup (tickets mm') j = (if j = TkID t then Some t' else fmlookup (tickets mm) j)"
    by (simp_all add: m t')
qed

lemma bump_all_step:
  "mm_inv mm \<Longrightarrow> in_pool mm ts \<Longrightarrow> bump_all ts mm = (mm', ts') \<Longrightarrow>
   tick_step mm mm' \<and> mm_matched mm' = mm_matched mm \<and> in_pool mm' ts' \<and> map TkID ts' = map TkID ts \<and>
   (\<forall>j. j \<notin> TkID ` set ts \<longrightarrow> fmlookup (tickets mm') j = fmlookup (tickets mm) j)"
proof (induction ts arbitrary: mm ts')
  case Nil
  then show ?case by (simp add: tick_step_refl in_pool_def)
next
  case (Cons t ts)
  obtain mm1 t' where b: "bump_interval t mm = (mm1, t')" by fastforce
  obtain us where us: "bump_all ts mm1 = (mm', us)" "ts' = t' # us"
    using Cons.prems(3) b by (auto split: prod.splits)
  have t: "fmlookup (tickets mm) (TkID t) = Some t" using Cons.prems(2) by (simp add: in_pool_def)
  note bs = bump_step [OF Cons.prems(1) t b]
  have inv1: "mm_inv mm1" using bs(1) by (simp add: tick_step_def)
  have new: "TkID t \<notin> TkID ` set ts" using Cons.prems(2) by (auto simp: in_pool_def)
  have pool1: "in_pool mm1 ts" by (rule in_pool_tail [OF Cons.prems(2)]) (simp add: bs(4))
  note IH = Cons.IH [OF inv1 pool1 us(1)]
  have "fmlookup (tickets mm') (TkID t') = Some t'" using IH new bs(3,4) by simp
  moreover have "TkID t' \<notin> TkID ` set us"
  proof -
    have "set (map TkID us) = set (map TkID ts)" using IH by simp
    then show ?thesis using new bs(3) by simp
  qed
  moreover have "in_pool mm' us" using IH by blast
  ultimately have "in_pool mm' ts'" by (simp add: us(2) in_pool_Cons)
  moreover have "tick_step mm mm'" using bs(1) IH tick_step_trans by blast
  moreover have "mm_matched mm' = mm_matched mm" "map TkID ts' = map TkID (t # ts)"
    using IH bs(2,3) by (simp_all add: us(2))
  moreover have "fmlookup (tickets mm') j = fmlookup (tickets mm) j" if "j \<notin> TkID ` set (t # ts)" for j
    using that IH bs(4) [of j] by simp
  ultimately show ?case by blast
qed

subsection \<open>Finalising\<close>

lemma remove_matched_step:
  "mm_inv mm \<Longrightarrow> in_pool mm g \<Longrightarrow>
   mm_inv (remove_matched g mm) \<and> mm_config (remove_matched g mm) = mm_config mm \<and>
   ticketStatus (remove_matched g mm) = ticketStatus mm \<and> mm_matched (remove_matched g mm) = mm_matched mm \<and>
   (\<forall>j. fmlookup (tickets (remove_matched g mm)) j =
        (if j \<in> TkID ` set g then None else fmlookup (tickets mm) j))"
proof (induction g arbitrary: mm)
  case Nil
  then show ?case by (simp add: remove_matched_def)
next
  case (Cons t g)
  let ?m = "mm\<lparr>tickets := fmdrop (TkID t) (tickets mm),
               sessionTickets := ndel (sessionTickets mm) (TkSessionID t) (TkID t)\<rparr>"
  have t: "fmlookup (tickets mm) (TkID t) = Some t" using Cons.prems(2) by (simp add: in_pool_def)
  have "mm_inv ?m"
    by (rule inv_drop_ticket [OF Cons.prems(1) t]) (use Cons.prems(1) in \<open>simp_all add: nested_laws mm_inv_def\<close>)
  moreover have "in_pool ?m g" by (rule in_pool_tail [OF Cons.prems(2)]) simp
  ultimately have IH: "mm_inv (remove_matched g ?m) \<and> mm_config (remove_matched g ?m) = mm_config ?m \<and>
   ticketStatus (remove_matched g ?m) = ticketStatus ?m \<and> mm_matched (remove_matched g ?m) = mm_matched ?m \<and>
   (\<forall>j. fmlookup (tickets (remove_matched g ?m)) j =
        (if j \<in> TkID ` set g then None else fmlookup (tickets ?m) j))" by (rule Cons.IH)
  have "remove_matched (t # g) mm = remove_matched g ?m" by (simp add: remove_matched_def)
  with IH show ?case by auto
qed

lemma add_completion_length: "length (add_completion c cs) \<le> 10"
  by (simp add: add_completion_def Let_def)

lemma status_fold:
  "fmlookup (fold (\<lambda>t m. fmupd (TkID t) (f t) m) ts m) i =
     (case find (\<lambda>t. TkID t = i) (rev ts) of Some t \<Rightarrow> Some (f t) | None \<Rightarrow> fmlookup m i)"
  by (induction ts arbitrary: m rule: rev_induct) auto

text \<open>The state after removal in which the match is recorded.\<close>

lemma finalizeMatch_fields:
  "tickets (finalizeMatch env hooks qn g mm) = tickets (remove_matched g mm)"
  "sessionTickets (finalizeMatch env hooks qn g mm) = sessionTickets (remove_matched g mm)"
  "mm_config (finalizeMatch env hooks qn g mm) = mm_config (remove_matched g mm)"
  "length (completions (finalizeMatch env hooks qn g mm)) \<le> 10"
  "\<exists>r. mm_matched (finalizeMatch env hooks qn g mm) = mm_matched (remove_matched g mm) @ [r] \<and>
       RUsers r = group_users g"
  "\<exists>mid tok. ticketStatus (finalizeMatch env hooks qn g mm) =
     fold (\<lambda>t m. fmupd (TkID t) (t\<lparr>Status := ''matched'', TkMatchID := mid, TkMatchToken := tok\<rparr>) m) g
       (ticketStatus (remove_matched g mm))"
  by (auto simp: finalizeMatch_def Let_def mintMatchToken_def add_completion_length)

lemma finalizeMatch_step:
  assumes inv: "mm_inv mm" and pool: "in_pool mm g"
  shows "tick_step mm (finalizeMatch env hooks qn g mm)"
    and "fmlookup (tickets (finalizeMatch env hooks qn g mm)) j =
           (if j \<in> TkID ` set g then None else fmlookup (tickets mm) j)"
    and "\<exists>r. mm_matched (finalizeMatch env hooks qn g mm) = mm_matched mm @ [r] \<and> RUsers r = group_users g"
proof -
  let ?f = "finalizeMatch env hooks qn g mm"
  note R = remove_matched_step [OF inv pool]
  show ts: "fmlookup (tickets ?f) j = (if j \<in> TkID ` set g then None else fmlookup (tickets mm) j)" for j
    using R by (simp add: finalizeMatch_fields(1))
  show "\<exists>r. mm_matched ?f = mm_matched mm @ [r] \<and> RUsers r = group_users g"
    using finalizeMatch_fields(5) [of env hooks qn g mm] R by simp
  obtain mid tok where st: "ticketStatus ?f =
     fold (\<lambda>t m. fmupd (TkID t) (t\<lparr>Status := ''matched'', TkMatchID := mid, TkMatchToken := tok\<rparr>) m) g
       (ticketStatus mm)" using finalizeMatch_fields(6) [of env hooks qn g mm] R by auto
  have "mm_inv (remove_matched g mm)" using R by blast
  then have "mm_inv ?f"
    using finalizeMatch_fields(4) [of env hooks qn g mm]
    by (simp add: mm_inv_def finalizeMatch_fields(1-3))
  moreover have "alive ?f i" if "alive mm i" for i
  proof (cases "i \<in> TkID ` set g")
    case True
    then obtain t where "find (\<lambda>t. TkID t = i) (rev g) = Some t"
      by (cases "find (\<lambda>t. TkID t = i) (rev g)") (auto simp: find_None_iff)
    then have "fmlookup (ticketStatus ?f) i =
        Some (t\<lparr>Status := ''matched'', TkMatchID := mid, TkMatchToken := tok\<rparr>)"
      unfolding st status_fold by simp
    then show ?thesis by (simp add: alive_def settled_def)
  next
    case False
    then have "find (\<lambda>t. TkID t = i) (rev g) = None" by (auto simp: find_None_iff)
    then have "fmlookup (ticketStatus ?f) i = fmlookup (ticketStatus mm) i"
      unfolding st status_fold by simp
    with that False ts [of i] show ?thesis by (auto simp: alive_def settled_def fmlookup_dom_iff)
  qed
  moreover have "fmdom (tickets ?f) |\<subseteq>| fmdom (tickets mm)"
    using ts by (auto simp: fmlookup_dom_iff split: if_splits)
  ultimately show "tick_step mm ?f"
    using R by (simp add: tick_step_def finalizeMatch_fields(3))
qed

end
