(* ===== verification/Matchmaker_Props.thy ===== *)
theory Matchmaker_Props
  imports Matchmaker_Tick
begin

section \<open>Matchmaker: properties\<close>

text \<open>
  Properties of reachable matchmaker states, of one tick, of the match tokens and of the submission
  rate limit.
\<close>

subsection \<open>The matches of a tick\<close>

text \<open>The tickets of \<open>g\<close> leave the pool between the two states, and each accepts the number of players.\<close>

definition fair_group :: "mm_state \<Rightarrow> mm_state \<Rightarrow> ticket list \<Rightarrow> bool" where
  "fair_group mm mm' g \<longleftrightarrow> g \<noteq> [] \<and> distinct (map TkID g) \<and> distinct (party_ids g) \<and>
     (\<forall>t \<in> set g. TkID t |\<in>| fmdom (tickets mm) \<and> TkID t |\<notin>| fmdom (tickets mm') \<and>
        MinCount t \<le> int (length (group_users g)) \<and> int (length (group_users g)) \<le> MaxCount t \<and>
        int (length (group_users g)) mod CountMultiple t = 0)"

text \<open>The results recorded between two states are the players of fair groups that share no ticket.\<close>

definition matches_fair :: "mm_state \<Rightarrow> mm_state \<Rightarrow> bool" where
  "matches_fair mm mm' \<longleftrightarrow>
     (\<exists>rs gs. mm_matched mm' = mm_matched mm @ rs \<and> map RUsers rs = map group_users gs \<and>
        distinct (concat (map (map TkID) gs)) \<and> (\<forall>g \<in> set gs. fair_group mm mm' g))"

lemma fair_group_mono:
  "fair_group a b g \<Longrightarrow> fmdom (tickets c) |\<subseteq>| fmdom (tickets b) \<Longrightarrow> fmdom (tickets a) |\<subseteq>| fmdom (tickets d) \<Longrightarrow>
   fair_group d c g"
  by (auto simp: fair_group_def)

lemma matches_fair_refl: "mm_matched mm' = mm_matched mm \<Longrightarrow> matches_fair mm mm'"
  unfolding matches_fair_def by (intro exI [of _ "[]"]) simp

lemma fair_ids:
  assumes "\<forall>g \<in> set gs. fair_group a b g" "i \<in> set (concat (map (map TkID) gs))"
  shows "i |\<in>| fmdom (tickets a) \<and> i |\<notin>| fmdom (tickets b)"
  using assms by (auto simp: fair_group_def)

lemma matches_fair_trans:
  assumes "matches_fair a b" "matches_fair b c" "tick_step a b" "tick_step b c"
  shows "matches_fair a c"
proof -
  from assms(1) obtain rs gs where 1: "mm_matched b = mm_matched a @ rs" "map RUsers rs = map group_users gs"
    "distinct (concat (map (map TkID) gs))" "\<forall>g \<in> set gs. fair_group a b g" unfolding matches_fair_def by blast
  from assms(2) obtain rs' gs' where 2: "mm_matched c = mm_matched b @ rs'" "map RUsers rs' = map group_users gs'"
    "distinct (concat (map (map TkID) gs'))" "\<forall>g \<in> set gs'. fair_group b c g" unfolding matches_fair_def by blast
  have sub: "fmdom (tickets b) |\<subseteq>| fmdom (tickets a)" "fmdom (tickets c) |\<subseteq>| fmdom (tickets b)"
    using assms(3,4) by (simp_all add: tick_step_def)
  have "\<forall>g \<in> set gs. fair_group a c g" using 1(4) fair_group_mono [OF _ sub(2) fsubset_refl] by blast
  moreover have "\<forall>g \<in> set gs'. fair_group a c g" using 2(4) fair_group_mono [OF _ fsubset_refl sub(1)] by blast
  moreover have "set (concat (map (map TkID) gs)) \<inter> set (concat (map (map TkID) gs')) = {}"
    using fair_ids [OF 1(4)] fair_ids [OF 2(4)] by blast
  then have "distinct (concat (map (map TkID) (gs @ gs')))" using 1(3) 2(3) by simp
  moreover have "mm_matched c = mm_matched a @ (rs @ rs')" "map RUsers (rs @ rs') = map group_users (gs @ gs')"
    using 1 2 by simp_all
  ultimately show ?thesis unfolding matches_fair_def by (metis UnE set_append)
qed

text \<open>With counts equal to the number of presences, the group size is the number of players.\<close>

lemma group_users_length:
  "\<forall>t \<in> set g. ticket_ok t \<Longrightarrow> int (length (group_users g)) = groupSize g"
proof (induction g)
  case (Cons t g)
  then have t: "1 \<le> TkCount t" "TkCount t = int (length (Presences t))" by (auto simp: ticket_ok_def)
  then have "Presences t \<noteq> []" by auto
  with t have "int (length (ticket_presences t)) = head_count t"
    by (simp add: ticket_presences_def head_count_def)
  with Cons show ?case by (simp add: group_users_def)
qed (simp add: group_users_def)

lemma accepts_mod:
  assumes "accepts t n" "ticket_ok t" "0 \<le> n"
  shows "n mod CountMultiple t = 0"
proof (cases "CountMultiple t > 1")
  case True
  with assms show ?thesis by (simp add: accepts_def go_rem_nonneg)
next
  case False
  with assms(2) have "CountMultiple t = 1" by (simp add: ticket_ok_def)
  then show ?thesis by simp
qed

lemma in_pool_subset:
  assumes "in_pool mm ts" "set g \<subseteq> set ts" "distinct (map TkID g)"
  shows "in_pool mm g"
  using assms in_poolD [OF assms(1)] by (auto simp: in_pool_def)

lemma finalize_group_step:
  assumes inv: "mm_inv mm" and pool: "in_pool mm g" and ok: "group_ok ts g"
  shows "matches_fair mm (finalizeMatch env hooks qn g mm)"
proof -
  let ?f = "finalizeMatch env hooks qn g mm"
  note F = finalizeMatch_step [OF inv pool, where env = env and hooks = hooks and qn = qn]
  have toks: "\<forall>t \<in> set g. ticket_ok t" using in_pool_ok [OF inv pool] by blast
  note len = group_users_length [OF toks]
  have "fair_group mm ?f g"
    unfolding fair_group_def len
  proof (intro conjI ballI)
    show "g \<noteq> []" "distinct (map TkID g)" "distinct (party_ids g)" using ok by (simp_all add: group_ok_def)
    fix t assume t: "t \<in> set g"
    show "TkID t |\<in>| fmdom (tickets mm)" by (rule fmdomI [OF in_poolD [OF pool t]])
    show "TkID t |\<notin>| fmdom (tickets ?f)" using F(2) t by (simp add: fmlookup_dom_iff)
    have acc: "accepts t (groupSize g)" using ok t by (simp add: group_ok_def)
    then show "MinCount t \<le> groupSize g" "groupSize g \<le> MaxCount t" by (simp_all add: accepts_def)
    show "groupSize g mod CountMultiple t = 0"
      using accepts_mod [OF acc _ groupSize_nonneg] toks t by simp
  qed
  moreover obtain r where "mm_matched ?f = mm_matched mm @ [r]" "RUsers r = group_users g" using F(3) by blast
  moreover have "distinct (map TkID g)" using ok by (simp add: group_ok_def)
  ultimately show ?thesis
    unfolding matches_fair_def by (intro exI [of _ "[r]"] exI [of _ "[g]"]) simp
qed

lemma finalize_groups_step:
  "mm_inv mm \<Longrightarrow> \<forall>g \<in> set gs. group_ok ts g \<and> in_pool mm g \<Longrightarrow> distinct (concat (map (map TkID) gs)) \<Longrightarrow>
   tick_step mm (finalize_groups env hooks qn matched gs mm) \<and>
   matches_fair mm (finalize_groups env hooks qn matched gs mm)"
proof (induction gs arbitrary: mm matched)
  case Nil
  then show ?case by (simp add: tick_step_refl matches_fair_refl)
next
  case (Cons g gs)
  show ?case
  proof (cases "g = [] \<or> (\<exists>t \<in> set g. TkID t \<in> set matched)")
    case True
    have "finalize_groups env hooks qn matched (g # gs) mm = finalize_groups env hooks qn matched gs mm"
      using True by (simp only: finalize_groups.simps if_True)
    with Cons show ?thesis by simp
  next
    case False
    let ?f = "finalizeMatch env hooks qn g mm"
    have g: "group_ok ts g" "in_pool mm g" using Cons.prems(2) by simp_all
    note F = finalizeMatch_step [OF Cons.prems(1) g(2), where env = env and hooks = hooks and qn = qn]
    have inv: "mm_inv ?f" using F(1) by (simp add: tick_step_def)
    have rest: "in_pool ?f h" if "h \<in> set gs" for h
      unfolding in_pool_def
    proof (intro conjI ballI)
      show "distinct (map TkID h)" using Cons.prems(2) that by (simp add: group_ok_def)
      fix t assume t: "t \<in> set h"
      then have "TkID t \<notin> TkID ` set g" using Cons.prems(3) that by auto
      moreover have "fmlookup (tickets mm) (TkID t) = Some t"
        by (rule in_poolD [OF _ t]) (use Cons.prems(2) that in simp)
      ultimately show "fmlookup (tickets ?f) (TkID t) = Some t" using F(2) by simp
    qed
    have IH: "tick_step ?f (finalize_groups env hooks qn (map TkID g @ matched) gs ?f) \<and>
        matches_fair ?f (finalize_groups env hooks qn (map TkID g @ matched) gs ?f)"
      by (rule Cons.IH [OF inv]) (use Cons.prems(2,3) rest in simp_all)
    have "finalize_groups env hooks qn matched (g # gs) mm =
        finalize_groups env hooks qn (map TkID g @ matched) gs ?f"
      using False by (simp only: finalize_groups.simps if_False)
    with IH F(1) finalize_group_step [OF Cons.prems(1) g(2,1), of env hooks qn] show ?thesis
      using tick_step_trans matches_fair_trans by metis
  qed
qed

definition plain_hooks :: "mm_hooks \<Rightarrow> bool" where
  "plain_hooks hooks \<longleftrightarrow> hk_processor hooks = None \<and> hk_override hooks = None"

lemma processQueue_step:
  assumes ord: "valid_order ord" and api: "hits_distinct api" and plain: "plain_hooks hooks"
    and inv: "mm_inv mm"
  shows "tick_step mm (processQueue ord api hooks env mm qn) \<and>
    matches_fair mm (processQueue ord api hooks env mm qn)"
proof -
  obtain mm1 act where l: "loadActiveTickets ord (env_now env) mm qn = (mm1, act)" by fastforce
  obtain mm2 ts where b: "bump_all (sort_key CreatedAt act) mm1 = (mm2, ts)" by fastforce
  define gs where "gs = matchDefault api (env_now env) (mm_config mm2) (queueConfig mm qn) ts"
  have "processQueue ord api hooks env mm qn =
      (if act = [] then mm1 else finalize_groups env hooks qn [] gs mm2)"
    using plain by (simp add: processQueue_def l b form_groups_def plain_hooks_def gs_def)
  moreover have L: "tick_step mm mm1" "mm_matched mm1 = mm_matched mm" "in_pool mm1 act"
    using load_loop_step [OF inv valid_order_distinct [OF ord] l [unfolded loadActiveTickets_def]] by simp_all
  moreover have inv1: "mm_inv mm1" using L(1) by (simp add: tick_step_def)
  have "distinct (map TkID (sort_key CreatedAt act))"
  proof -
    have "distinct (map TkID act)" using L(3) by (simp add: in_pool_def)
    then show ?thesis by (simp add: distinct_map)
  qed
  then have "in_pool mm1 (sort_key CreatedAt act)" using L(3) by (simp add: in_pool_def)
  note B = bump_all_step [OF inv1 this b]
  have inv2: "mm_inv mm2" using B by (simp add: tick_step_def)
  have pool2: "in_pool mm2 ts" using B by blast
  have M: "\<forall>g \<in> set gs. group_ok ts g" "distinct (concat (map (map TkID) gs))"
    using matchDefault_ok [OF api, of ts "env_now env" "mm_config mm2" "queueConfig mm qn"]
      in_pool_ok [OF inv2 pool2] pool2 by (auto simp: gs_def in_pool_def)
  have "\<forall>g \<in> set gs. group_ok ts g \<and> in_pool mm2 g"
    using M(1) in_pool_subset [OF pool2] by (auto simp: group_ok_def)
  note F = finalize_groups_step [OF inv2 this M(2), of env hooks qn "[]"]
  have "matches_fair mm mm2" using L(2) B by (simp add: matches_fair_refl)
  moreover have "tick_step mm mm2" using L(1) B tick_step_trans by blast
  ultimately show ?thesis
    using F tick_step_trans matches_fair_trans matches_fair_refl by (metis (no_types))
qed

lemma Tick_step:
  assumes "valid_order ord" "hits_distinct api" "plain_hooks hooks" "mm_inv mm"
  shows "tick_step mm (Tick ord api hooks env mm) \<and> matches_fair mm (Tick ord api hooks env mm)"
proof -
  have "mm_inv m \<Longrightarrow> tick_step m (fold (\<lambda>qn m. processQueue ord api hooks env m qn) qs m) \<and>
      matches_fair m (fold (\<lambda>qn m. processQueue ord api hooks env m qn) qs m)" for m qs
  proof (induction qs arbitrary: m)
    case Nil
    then show ?case by (simp add: tick_step_refl matches_fair_refl)
  next
    case (Cons qn qs)
    let ?m = "processQueue ord api hooks env m qn"
    note P = processQueue_step [OF assms(1-3) Cons.prems, of env qn]
    have "mm_inv ?m" using P by (simp add: tick_step_def)
    note IH = Cons.IH [OF this]
    from P IH show ?case using tick_step_trans matches_fair_trans by (simp, blast)
  qed
  from this [OF assms(4)] show ?thesis by (simp add: Tick_def)
qed


subsection \<open>Reachable matchmakers\<close>

text \<open>
  Any sequence of submissions (with unused ticket IDs, and counts as the callers set them), removals
  and ticks without processor or override hooks, from a matchmaker configured once.
\<close>

inductive mm_step :: "mm_state \<Rightarrow> mm_state \<Rightarrow> bool" where
  step_Submit: "TkCount t0 \<le> 0 \<or> TkCount t0 = int (length (Presences t0)) \<Longrightarrow>
     Submit env mm t0 = (mm', res) \<Longrightarrow> \<forall>t. res = Inr t \<longrightarrow> fmlookup (tickets mm) (TkID t) = None \<Longrightarrow>
     mm_step mm mm'"
| step_SubmitParty: "SubmitParty env mm leader members tk = (mm', res) \<Longrightarrow>
     \<forall>t. res = Inr t \<longrightarrow> fmlookup (tickets mm) (TkID t) = None \<Longrightarrow> mm_step mm mm'"
| step_Cancel: "mm_step mm (Cancel mm i)"
| step_RemovePartyAll: "valid_order ord \<Longrightarrow> mm_step mm (RemovePartyAll ord mm pid)"
| step_RemoveSessionAll: "valid_order ord \<Longrightarrow> mm_step mm (RemoveSessionAll ord mm sid)"
| step_Consume: "mm_step mm (fst (ConsumeMatchToken now mm tok))"
| step_Tick: "valid_order ord \<Longrightarrow> hits_distinct api \<Longrightarrow> plain_hooks hooks \<Longrightarrow>
     mm_step mm (Tick ord api hooks env mm)"

inductive mm_reach :: "mm_config option \<Rightarrow> mm_state \<Rightarrow> bool" for cfg :: "mm_config option" where
  mm_start: "mm_reach cfg (Configure cfg NewMatchmaker)"
| mm_more: "mm_reach cfg mm \<Longrightarrow> mm_step mm mm' \<Longrightarrow> mm_reach cfg mm'"

lemma mm_inv_start: "mm_inv (Configure cfg NewMatchmaker)"
  by (auto simp: mm_inv_def Configure_def NewMatchmaker_def pool_ok_def index_of_pool_def
      sets_bounded_def inner_def normalizeConfig_def DefaultConfig_def split: option.split)

lemma consume_inv: "mm_inv mm \<Longrightarrow> mm_inv (fst (ConsumeMatchToken now mm tok))"
  by (auto simp: ConsumeMatchToken_def mm_inv_def split: option.split)

lemma mm_step_inv: "mm_step mm mm' \<Longrightarrow> mm_inv mm \<Longrightarrow> mm_inv mm'"
proof (induction rule: mm_step.induct)
  case (step_Submit t0 env mm mm' res)
  show ?case by (rule Submit_inv [OF step_Submit(4,1,2)]) (use step_Submit(3) in blast)
next
  case (step_SubmitParty env mm leader members tk mm' res)
  show ?case by (rule SubmitParty_inv [OF step_SubmitParty(3,1)]) (use step_SubmitParty(2) in blast)
next
  case (step_Tick ord api hooks mm env)
  then show ?case using Tick_step [of ord api hooks mm env] by (simp add: tick_step_def)
qed (simp_all add: Cancel_inv RemovePartyAll_inv RemoveSessionAll_inv(1) consume_inv)

lemma mm_reach_inv: "mm_reach cfg mm \<Longrightarrow> mm_inv mm"
  by (induction rule: mm_reach.induct) (auto simp: mm_inv_start intro: mm_step_inv)

subsection \<open>Properties of the pool\<close>

text \<open>in every reachable state a session has at most \<open>MaxTickets\<close> tickets in the pool, the session index
  lists exactly those, and every pooled ticket has valid bounds.\<close>

lemma session_ticket_limit:
  assumes "mm_reach cfg mm"
  shows "int (card {i. \<exists>t. fmlookup (tickets mm) i = Some t \<and> TkSessionID t = sid})
           \<le> MaxTickets (mm_config mm) \<and>
         (nget (sessionTickets mm) sid i = Some () \<longleftrightarrow>
            (\<exists>t. fmlookup (tickets mm) i = Some t \<and> TkSessionID t = sid)) \<and>
         fmpred (\<lambda>i t. TkID t = i \<and> 2 \<le> MinCount t \<and> MinCount t \<le> MaxCount t \<and> TkCount t \<le> MaxCount t)
           (tickets mm)"
proof -
  note inv = mm_reach_inv [OF assms]
  have idx: "nget (sessionTickets mm) sid i \<noteq> None \<longleftrightarrow>
      (\<exists>t. fmlookup (tickets mm) i = Some t \<and> TkSessionID t = sid)" for i
    using inv by (simp add: mm_inv_def index_of_pool_def)
  have "{i. \<exists>t. fmlookup (tickets mm) i = Some t \<and> TkSessionID t = sid} =
      fset (fmdom (inner (sessionTickets mm) sid))"
    by (auto simp: idx [symmetric] fmlookup_dom_iff inner_lookup)
  then have "card {i. \<exists>t. fmlookup (tickets mm) i = Some t \<and> TkSessionID t = sid} =
      mlen (inner (sessionTickets mm) sid)" by (simp add: mlen_def fcard.rep_eq)
  moreover have "int (mlen (inner (sessionTickets mm) sid)) \<le> MaxTickets (mm_config mm)"
    using inv by (simp add: mm_inv_def sets_bounded_def)
  moreover have "fmpred (\<lambda>i t. TkID t = i \<and> 2 \<le> MinCount t \<and> MinCount t \<le> MaxCount t \<and> TkCount t \<le> MaxCount t)
           (tickets mm)"
    using inv by (auto simp: mm_inv_def pool_ok_def ticket_ok_def)
  moreover have "nget (sessionTickets mm) sid i = Some () \<longleftrightarrow> nget (sessionTickets mm) sid i \<noteq> None"
    by (cases "nget (sessionTickets mm) sid i") auto
  ultimately show ?thesis using idx [of i] by simp
qed

text \<open>default matching, whatever the search engine finds, returns groups of queued tickets that share no
  ticket and no party, and the size of each group lies within the minimum and maximum of every
  ticket in it and is a multiple of every ticket's count multiple.\<close>

lemma default_matching_sound:
  assumes "hits_distinct api" and "distinct (map TkID ts)" and "\<forall>t \<in> set ts. ticket_ok t"
    and "g \<in> set (matchDefault api now cfg q ts)"
  shows "g \<noteq> [] \<and> set g \<subseteq> set ts \<and> distinct (map TkID g) \<and> distinct (party_ids g) \<and>
    (\<forall>t \<in> set g. MinCount t \<le> groupSize g \<and> groupSize g \<le> MaxCount t \<and>
                 groupSize g mod CountMultiple t = 0) \<and>
    distinct (concat (map (map TkID) (matchDefault api now cfg q ts)))"
proof -
  note M = matchDefault_ok [OF assms(1-3), of now cfg q]
  then have ok: "group_ok ts g" using assms(4) by blast
  have "MinCount t \<le> groupSize g \<and> groupSize g \<le> MaxCount t \<and> groupSize g mod CountMultiple t = 0"
    if t: "t \<in> set g" for t
  proof -
    have acc: "accepts t (groupSize g)" using ok t by (simp add: group_ok_def)
    have "ticket_ok t" using ok t assms(3) by (auto simp: group_ok_def)
    from accepts_mod [OF acc this groupSize_nonneg] acc show ?thesis by (simp add: accepts_def)
  qed
  with ok M show ?thesis by (simp add: group_ok_def)
qed

text \<open>C4: one tick with the default matching, that is without a processor or override hook, over a reachable pool
  loses no ticket: every ticket is afterwards still queued, or its status says expired or matched; and the
  matches it records are fair groups: their tickets were queued and are gone, no ticket is in two matches, and
  every ticket accepts the number of players.  (A hook that forms the groups itself may do otherwise.  Minting
  a match token only fails when the source of randomness does, which is not modelled.)\<close>

theorem tick_is_fair:
  assumes "mm_reach cfg mm" and "valid_order ord" and "hits_distinct api" and "plain_hooks hooks"
    and "mm' = Tick ord api hooks env mm"
  shows "(i |\<in>| fmdom (tickets mm) \<longrightarrow> i |\<in>| fmdom (tickets mm') \<or>
            (\<exists>t. fmlookup (ticketStatus mm') i = Some t \<and> (Status t = ''expired'' \<or> Status t = ''matched''))) \<and>
         fmdom (tickets mm') |\<subseteq>| fmdom (tickets mm) \<and> matches_fair mm mm'"
proof -
  note T = Tick_step [OF assms(2-4) mm_reach_inv [OF assms(1)], of env, folded assms(5)]
  then have "alive mm i \<longrightarrow> alive mm' i" by (simp add: tick_step_def)
  then show ?thesis using T by (auto simp: alive_def settled_def tick_step_def)
qed

text \<open>When a session disconnects, none of its tickets stays in the pool and every other ticket does.\<close>

lemma session_removal_complete:
  assumes "mm_reach cfg mm" and "valid_order ord"
  shows "fmlookup (tickets (RemoveSessionAll ord mm sid)) i =
    (case fmlookup (tickets mm) i of
       Some t \<Rightarrow> if TkSessionID t = sid then None else Some t | None \<Rightarrow> None)"
  by (rule RemoveSessionAll_inv(2) [OF assms(2) mm_reach_inv [OF assms(1)]])

subsection \<open>Instances\<close>

definition demo_env :: "gotime \<Rightarrow> mm_env" where
  "demo_env t = \<lparr>env_now = t, env_uuid = (\<lambda>n. replicate n CHR ''u''), env_nonce = (\<lambda>n. replicate n CHR ''0''),
     env_hmac = (\<lambda>s m n. m @ ''-'')\<rparr>"

definition demo_api :: search_api where
  "demo_api = \<lparr>build_index = (\<lambda>_. True),
     search_sorted = (\<lambda>index q n. Some (take n (remdups (map TkID index)))),
     search_hits = (\<lambda>index q n. Some (map TkID index))\<rparr>"

definition demo_hooks :: mm_hooks where
  "demo_hooks = \<lparr>hk_processor = None, hk_override = None, hk_matched = None\<rparr>"

definition demo_ticket :: "string \<Rightarrow> string \<Rightarrow> string \<Rightarrow> ticket" where
  "demo_ticket i u s = empty_ticket\<lparr>TkID := i, TkUserID := u, TkSessionID := s, MinCount := 2, MaxCount := 2\<rparr>"

lemma demo_api_ok: "hits_distinct demo_api"
  by (simp add: hits_distinct_def demo_api_def)

lemma demo_hooks_plain: "plain_hooks demo_hooks"
  by (simp add: plain_hooks_def demo_hooks_def)

definition demo_full :: "string \<Rightarrow> string \<Rightarrow> string \<Rightarrow> ticket" where
  "demo_full i u s = (demo_ticket i u s)\<lparr>CreatedAt := 5, QueueName := ''default'', Query := ''*'',
     CountMultiple := 1, TkCount := 1,
     Presences := [\<lparr>PUserID = u, PUsername = [], PSessionID = s\<rparr>], Status := ''queued''\<rparr>"

lemma demo_queue: "queueConfig NewMatchmaker ''default'' = default_queue"
  by (simp add: queueConfig_def NewMatchmaker_def DefaultConfig_def)

definition demo_mm1 :: mm_state where
  "demo_mm1 = NewMatchmaker\<lparr>submitTimes := fmupd ''ann'' [5] fmempty,
     tickets := fmupd ''t1'' (demo_full ''t1'' ''ann'' ''s1'') fmempty,
     ticketStatus := fmupd ''t1'' (demo_full ''t1'' ''ann'' ''s1'') fmempty,
     sessionTickets := fmupd ''s1'' (fmupd ''t1'' () fmempty) fmempty\<rparr>"

lemma demo_submit1:
  "Submit (demo_env 5) NewMatchmaker (demo_ticket ''t1'' ''ann'' ''s1'') =
     (demo_mm1, Inr (demo_full ''t1'' ''ann'' ''s1''))"
proof -
  have c: "complete_ticket (demo_env 5) default_queue 0
      ((demo_ticket ''t1'' ''ann'' ''s1'')\<lparr>QueueName := ''default''\<rparr>) = (demo_full ''t1'' ''ann'' ''s1'', 0)"
    by (simp add: complete_ticket_def demo_ticket_def empty_ticket_def demo_full_def demo_env_def default_queue_def)
  show ?thesis
    using demo_queue
    by (simp add: Submit_def Let_def demo_ticket_def [of "''t1''"] empty_ticket_def)
       (use c in \<open>simp add: demo_ticket_def empty_ticket_def NewMatchmaker_def DefaultConfig_def
          checkRateLimit_def demo_full_def demo_env_def inner_def nput_def demo_mm1_def\<close>)
qed

lemma demo_reach: "mm_reach None demo_mm1"
proof (rule mm_more [OF mm_start step_Submit])
  show "Submit (demo_env 5) (Configure None NewMatchmaker) (demo_ticket ''t1'' ''ann'' ''s1'') =
      (demo_mm1, Inr (demo_full ''t1'' ''ann'' ''s1''))"
    by (simp add: Configure_def demo_submit1)
qed (simp_all add: Configure_def NewMatchmaker_def demo_ticket_def empty_ticket_def)

lemma session_ticket_limit_witness:
  "nget (sessionTickets demo_mm1) ''s1'' ''t1'' = Some ()"
  using session_ticket_limit [OF demo_reach, of "''s1''" "''t1''"]
  by (simp add: demo_mm1_def demo_full_def demo_ticket_def empty_ticket_def)

lemma session_removal_complete_witness:
  "fmlookup (tickets (RemoveSessionAll sorted_list_of_fset demo_mm1 ''s1'')) ''t1'' = None"
  using session_removal_complete [OF demo_reach valid_order_sorted, of "''s1''" "''t1''"]
  by (simp add: demo_mm1_def demo_full_def demo_ticket_def empty_ticket_def)

definition demo_mm2 :: mm_state where
  "demo_mm2 = fst (Submit (demo_env 6) demo_mm1 (demo_ticket ''t2'' ''bob'' ''s2''))"

lemma demo_submit2:
  "case snd (Submit (demo_env 6) demo_mm1 (demo_ticket ''t2'' ''bob'' ''s2'')) of Inl e \<Rightarrow> False | Inr t \<Rightarrow> TkID t = ''t2''"
  by code_simp

lemma demo_reach2: "mm_reach None demo_mm2"
proof (rule mm_more [OF demo_reach step_Submit])
  show "Submit (demo_env 6) demo_mm1 (demo_ticket ''t2'' ''bob'' ''s2'') =
      (demo_mm2, snd (Submit (demo_env 6) demo_mm1 (demo_ticket ''t2'' ''bob'' ''s2'')))"
    by (simp add: demo_mm2_def)
  show "\<forall>t. snd (Submit (demo_env 6) demo_mm1 (demo_ticket ''t2'' ''bob'' ''s2'')) = Inr t \<longrightarrow>
      fmlookup (tickets demo_mm1) (TkID t) = None"
    using demo_submit2 by (auto simp: demo_mm1_def)
qed (simp add: demo_ticket_def empty_ticket_def)

lemma demo_tick_matches:
  "map RUsernames (mm_matched (Tick sorted_list_of_fset demo_api demo_hooks (demo_env 9) demo_mm2)) = [[[], []]] \<and>
   map RPlayerIDs (mm_matched (Tick sorted_list_of_fset demo_api demo_hooks (demo_env 9) demo_mm2)) = [[''ann'', ''bob'']] \<and>
   mm_matched demo_mm2 = []"
  by code_simp

text \<open>The tick matches the two tickets with each other.\<close>

theorem tick_is_fair_witness:
  "matches_fair demo_mm2 (Tick sorted_list_of_fset demo_api demo_hooks (demo_env 9) demo_mm2) \<and>
   mm_matched demo_mm2 = [] \<and>
   map RPlayerIDs (mm_matched (Tick sorted_list_of_fset demo_api demo_hooks (demo_env 9) demo_mm2)) = [[''ann'', ''bob'']]"
  using tick_is_fair [OF demo_reach2 valid_order_sorted demo_api_ok demo_hooks_plain refl] demo_tick_matches by blast

lemma demo_match_default:
  "matchDefault demo_api 9 DefaultConfig default_queue
     [demo_full ''t1'' ''ann'' ''s1'', demo_full ''t2'' ''ann'' ''s1''] =
   [[demo_full ''t1'' ''ann'' ''s1'', demo_full ''t2'' ''ann'' ''s1'']]"
  by (simp add: matchDefault_def partyCount_def demo_full_def demo_ticket_def empty_ticket_def
      default_queue_def demo_api_def match_seed_def searchIndex_def compatibleRange_def
      evaluatePairing_def groupSize_def head_count_def lastInterval_def groupSatisfiesAll_def
      DefaultConfig_def Let_def mlen_fmupd)

lemma default_matching_sound_witness:
  "groupSize [demo_full ''t1'' ''ann'' ''s1'', demo_full ''t2'' ''ann'' ''s1''] \<le> 2"
proof -
  let ?ts = "[demo_full ''t1'' ''ann'' ''s1'', demo_full ''t2'' ''ann'' ''s1'']"
  have "distinct (map TkID ?ts)" "\<forall>t \<in> set ?ts. ticket_ok t"
    by (simp_all add: demo_full_def demo_ticket_def empty_ticket_def ticket_ok_def)
  from default_matching_sound [OF demo_api_ok this, of ?ts 9 DefaultConfig default_queue]
  have "groupSize ?ts \<le> MaxCount (demo_full ''t1'' ''ann'' ''s1'')" by (simp add: demo_match_default)
  then show ?thesis by (simp add: demo_full_def demo_ticket_def)
qed

text \<open>Nothing keeps a user out of a match with themselves: two tickets of one session in one queue are
  matched with each other, and the user is both players of the match.\<close>

lemma self_match_possible:
  "\<exists>g. g \<in> set (matchDefault demo_api 9 DefaultConfig default_queue
            [demo_full ''t1'' ''ann'' ''s1'', demo_full ''t2'' ''ann'' ''s1'']) \<and>
       map PUserID (group_users g) = [''ann'', ''ann''] \<and>
       map PSessionID (group_users g) = [''s1'', ''s1'']"
proof (rule exI [of _ "[demo_full ''t1'' ''ann'' ''s1'', demo_full ''t2'' ''ann'' ''s1'']"], intro conjI)
  let ?g = "[demo_full ''t1'' ''ann'' ''s1'', demo_full ''t2'' ''ann'' ''s1'']"
  show "?g \<in> set (matchDefault demo_api 9 DefaultConfig default_queue ?g)"
    by (simp add: demo_match_default)
  show "map PUserID (group_users ?g) = [''ann'', ''ann'']"
    by (simp add: group_users_def ticket_presences_def demo_full_def)
  show "map PSessionID (group_users ?g) = [''s1'', ''s1'']"
    by (simp add: group_users_def ticket_presences_def demo_full_def)
qed

end
