(* ===== verification/Matchmaker_Token.thy ===== *)
theory Matchmaker_Token
  imports Matchmaker_Props
begin

section \<open>Matchmaker: match tokens and the submission rate limit\<close>

text \<open>
  Two promises of \<open>matchmaker.go\<close> that concern sequences of calls: a match token admits its players
  once and only before it expires, and a user's accepted submissions stay under the configured rate in
  every window of time.
\<close>

subsection \<open>Match tokens\<close>

datatype token_event =
    EvConsume gotime string
  | EvMint mm_env string "mm_presence list" "(string, string) fmap"
  | EvSubmit mm_env ticket
  | EvCancel string

fun token_step :: "token_event \<Rightarrow> mm_state \<Rightarrow> mm_state" where
  "token_step (EvConsume now tok) mm = fst (ConsumeMatchToken now mm tok)"
| "token_step (EvMint env mid us ids) mm = fst (mintMatchToken env mm mid us ids)"
| "token_step (EvSubmit env t) mm = fst (Submit env mm t)"
| "token_step (EvCancel i) mm = Cancel mm i"

text \<open>No minting of the sequence yields the given token (tokens carry a random nonce).\<close>

fun never_mints :: "string \<Rightarrow> token_event list \<Rightarrow> mm_state \<Rightarrow> bool" where
  "never_mints tok [] mm = True"
| "never_mints tok (e # es) mm =
     ((case e of EvMint env mid us ids \<Rightarrow> snd (mintMatchToken env mm mid us ids) \<noteq> tok | _ \<Rightarrow> True) \<and>
      never_mints tok es (token_step e mm))"

definition token_spent :: "string \<Rightarrow> mm_state \<Rightarrow> bool" where
  "token_spent tok mm \<longleftrightarrow> (\<exists>r. fmlookup (matchTokens mm) tok = Some r \<and> TrConsumed r)"

lemma Submit_tokens: "matchTokens (fst (Submit env mm t)) = matchTokens mm"
proof -
  obtain t' n where c: "complete_ticket env
      (queueConfig mm (QueueName (t\<lparr>QueueName := if QueueName t = [] then ''default'' else QueueName t\<rparr>)))
      (draws mm) (t\<lparr>QueueName := if QueueName t = [] then ''default'' else QueueName t\<rparr>) = (t', n)"
    by (cases "complete_ticket env
      (queueConfig mm (QueueName (t\<lparr>QueueName := if QueueName t = [] then ''default'' else QueueName t\<rparr>)))
      (draws mm) (t\<lparr>QueueName := if QueueName t = [] then ''default'' else QueueName t\<rparr>)")
  obtain m1 a where r: "checkRateLimit (env_now env) (mm\<lparr>draws := n\<rparr>) (TkUserID t') = (m1, a)"
    by (cases "checkRateLimit (env_now env) (mm\<lparr>draws := n\<rparr>) (TkUserID t')")
  then have "matchTokens m1 = matchTokens mm"
    using checkRateLimit_fields(6) [of "env_now env" "mm\<lparr>draws := n\<rparr>" "TkUserID t'"] by simp
  then show ?thesis unfolding Submit_def Let_def c using r by simp
qed

lemma Cancel_tokens: "matchTokens (Cancel mm i) = matchTokens mm"
  by (simp add: Cancel_def split: option.splits)

lemma token_step_spent:
  assumes "token_spent tok mm"
    and "case e of EvMint env mid us ids \<Rightarrow> snd (mintMatchToken env mm mid us ids) \<noteq> tok | _ \<Rightarrow> True"
  shows "token_spent tok (token_step e mm)"
proof (cases e)
  case (EvConsume now tok')
  with assms(1) show ?thesis
    by (auto simp: token_spent_def ConsumeMatchToken_def split: option.splits)
next
  case (EvMint env mid us ids)
  with assms show ?thesis by (auto simp: token_spent_def mintMatchToken_def Let_def)
qed (use assms(1) in \<open>simp_all add: token_spent_def Submit_tokens Cancel_tokens\<close>)

lemma token_run_spent:
  "token_spent tok mm \<Longrightarrow> never_mints tok es mm \<Longrightarrow> token_spent tok (fold token_step es mm)"
proof (induction es arbitrary: mm)
  case (Cons e es)
  then have "token_spent tok (token_step e mm)" using token_step_spent [OF Cons.prems(1)] by simp
  with Cons show ?case by simp
qed simp

lemma spent_rejected:
  "token_spent tok mm \<Longrightarrow> ConsumeMatchToken now mm tok = (mm, Inl ErrTokenInvalid)"
  by (auto simp: token_spent_def ConsumeMatchToken_def)

lemma consume_cases:
  assumes "ConsumeMatchToken now mm tok = (mm1, Inr r)"
  shows "fmlookup (matchTokens mm) tok = Some r" "\<not> TrConsumed r" "now \<le> TrExpiresAt r" "token_spent tok mm1"
  using assms by (auto simp: ConsumeMatchToken_def token_spent_def split: if_splits option.splits)

text \<open>C21: a match token is good for one use, within its lifetime.  A successful ConsumeMatchToken returns
  the record the token was minted with, not yet used and not yet expired; and whatever consumptions,
  submissions, cancellations and mintings of other tokens follow, every later attempt to consume the
  token, at any time, is refused and changes nothing.\<close>

theorem match_token_single_use:
  assumes "ConsumeMatchToken now mm tok = (mm1, Inr r)" and "never_mints tok es mm1"
  shows "fmlookup (matchTokens mm) tok = Some r \<and> \<not> TrConsumed r \<and> now \<le> TrExpiresAt r \<and>
    ConsumeMatchToken now' (fold token_step es mm1) tok = (fold token_step es mm1, Inl ErrTokenInvalid)"
  using consume_cases [OF assms(1)] spent_rejected [OF token_run_spent [OF _ assms(2)]] by blast

definition demo_minted :: mm_state where
  "demo_minted = fst (mintMatchToken (demo_env 0) NewMatchmaker ''m'' [] fmempty)"

theorem match_token_single_use_witness:
  "ConsumeMatchToken 9 (fold token_step [EvCancel ''t'', EvConsume 8 ''m-'']
      (fst (ConsumeMatchToken 7 demo_minted ''m-''))) ''m-'' =
   (fold token_step [EvCancel ''t'', EvConsume 8 ''m-''] (fst (ConsumeMatchToken 7 demo_minted ''m-'')),
    Inl ErrTokenInvalid)"
proof -
  define r where "r = \<lparr>TrMatchID = ''m'', TrUsers = [], TrTicketIDs = fmempty,
    TrExpiresAt = 30 * second, TrConsumed = False\<rparr>"
  have l: "fmlookup (matchTokens demo_minted) ''m-'' = Some r"
    by (simp add: demo_minted_def mintMatchToken_def demo_env_def NewMatchmaker_def DefaultConfig_def r_def Let_def)
  have "ConsumeMatchToken 7 demo_minted ''m-'' = (fst (ConsumeMatchToken 7 demo_minted ''m-''), Inr r)"
    using l by (simp add: ConsumeMatchToken_def r_def second_def)
  moreover have "never_mints ''m-'' [EvCancel ''t'', EvConsume 8 ''m-''] (fst (ConsumeMatchToken 7 demo_minted ''m-''))"
    by simp
  ultimately show ?thesis using match_token_single_use by blast
qed

subsection \<open>The submission rate\<close>

text \<open>The times of a user's accepted submissions in a sequence of Submit calls.\<close>

fun accepted_at :: "string \<Rightarrow> mm_state \<Rightarrow> (mm_env \<times> ticket) list \<Rightarrow> gotime list" where
  "accepted_at u mm [] = []"
| "accepted_at u mm ((env, t) # cs) =
     (case Submit env mm t of
        (mm', Inr t') \<Rightarrow> (if TkUserID t' = u then [env_now env] else []) @ accepted_at u mm' cs
      | (mm', Inl _) \<Rightarrow> accepted_at u mm' cs)"

definition submit_times :: "mm_state \<Rightarrow> string \<Rightarrow> gotime list" where
  "submit_times mm u = (case fmlookup (submitTimes mm) u of None \<Rightarrow> [] | Some ts \<Rightarrow> ts)"

definition in_window :: "gotime \<Rightarrow> gotime \<Rightarrow> gotime list \<Rightarrow> nat" where
  "in_window W T ts = length (filter (\<lambda>a. T - W < a \<and> a \<le> T) ts)"

definition window_of :: "mm_config \<Rightarrow> gotime" where
  "window_of cfg = RateLimitWindowSec cfg * second"

text \<open>
  The invariant of a sequence of submissions up to time \<open>l\<close>: the times still kept for the user account
  for the accepted submissions \<open>A\<close> of every window that ends now or later.
\<close>

definition rate_inv :: "mm_config \<Rightarrow> string \<Rightarrow> mm_state \<Rightarrow> gotime list \<Rightarrow> gotime \<Rightarrow> bool" where
  "rate_inv cfg u mm A l \<longleftrightarrow> mm_config mm = cfg \<and> (\<forall>a \<in> set A. a \<le> l) \<and>
     (\<forall>T \<ge> l. length (filter (\<lambda>a. a > T - window_of cfg) A) \<le>
               length (filter (\<lambda>a. a > T - window_of cfg) (submit_times mm u))) \<and>
     (\<forall>T. int (in_window (window_of cfg) T A) \<le> RateLimitMax cfg)"

lemma check_rate_result:
  "checkRateLimit now mm v = (mm', ok) \<Longrightarrow>
   mm_config mm' = mm_config mm \<and>
   submit_times mm' u = (if u = v
     then filter (\<lambda>a. a > now - window_of (mm_config mm)) (submit_times mm u) @ (if ok then [now] else [])
     else submit_times mm u) \<and>
   (ok \<longleftrightarrow> int (length (filter (\<lambda>a. a > now - window_of (mm_config mm)) (submit_times mm v)))
             < RateLimitMax (mm_config mm))"
  by (auto simp: checkRateLimit_def Let_def submit_times_def window_of_def split: if_splits)

lemma complete_ticket_user: "TkUserID (fst (complete_ticket env q n t)) = TkUserID t"
  by (simp add: complete_ticket_def split_def Let_def)

lemma Submit_rate:
  assumes "Submit env mm t = (mm', res)"
  shows "mm_config mm' = mm_config mm \<and>
    ((submitTimes mm' = submitTimes mm \<and> (\<exists>e. res = Inl e)) \<or>
     (\<exists>mm0 mm1 ok. checkRateLimit (env_now env) mm0 (TkUserID t) = (mm1, ok) \<and>
        mm_config mm0 = mm_config mm \<and> submitTimes mm0 = submitTimes mm \<and>
        submitTimes mm' = submitTimes mm1 \<and>
        (\<forall>t'. res = Inr t' \<longrightarrow> ok \<and> TkUserID t' = TkUserID t)))"
proof -
  define t1 where "t1 = t\<lparr>QueueName := if QueueName t = [] then ''default'' else QueueName t\<rparr>"
  obtain t' n where c: "complete_ticket env (queueConfig mm (QueueName t1)) (draws mm) t1 = (t', n)"
    by (cases "complete_ticket env (queueConfig mm (QueueName t1)) (draws mm) t1")
  then have u: "TkUserID t' = TkUserID t"
    using complete_ticket_user [of env "queueConfig mm (QueueName t1)" "draws mm" t1] by (simp add: t1_def)
  obtain m1 a where r: "checkRateLimit (env_now env) (mm\<lparr>draws := n\<rparr>) (TkUserID t) = (m1, a)"
    by (cases "checkRateLimit (env_now env) (mm\<lparr>draws := n\<rparr>) (TkUserID t)")
  have cfg: "mm_config m1 = mm_config mm" using check_rate_result [OF r] by simp
  show ?thesis
  proof (cases "MinCount t' < 2 \<or> MaxCount t' < MinCount t' \<or> CountMultiple t' < 1 \<or> TkCount t' > MaxCount t'")
    case True
    with assms show ?thesis
      unfolding Submit_def Let_def t1_def [symmetric] c by (auto split: if_splits)
  next
    case False
    with assms have "mm_config mm' = mm_config m1 \<and> submitTimes mm' = submitTimes m1 \<and>
        (\<forall>x. res = Inr x \<longrightarrow> a \<and> TkUserID x = TkUserID t)"
      unfolding Submit_def Let_def t1_def [symmetric] c using r u by (auto split: if_splits)
    then show ?thesis using r cfg
      by (intro conjI disjI2 exI [of _ "mm\<lparr>draws := n\<rparr>"] exI [of _ m1] exI [of _ a]) auto
  qed
qed

lemma filter_window: "T \<ge> l \<Longrightarrow> filter (\<lambda>a. a > T - W) (filter (\<lambda>a. a > l - W) xs) = filter (\<lambda>a. a > T - (W :: int)) xs"
  by (simp add: filter_filter) (rule filter_cong, auto)

lemma rate_inv_step:
  assumes inv: "rate_inv cfg u mm A l" and l: "l \<le> env_now env" and S: "Submit env mm t = (mm', res)"
  shows "rate_inv cfg u mm'
    (A @ (case res of Inr t' \<Rightarrow> if TkUserID t' = u then [env_now env] else [] | Inl _ \<Rightarrow> [])) (env_now env)"
proof -
  let ?now = "env_now env" and ?W = "window_of cfg"
  let ?B = "case res of Inr t' \<Rightarrow> if TkUserID t' = u then [?now] else [] | Inl _ \<Rightarrow> []"
  have I: "mm_config mm = cfg" "\<forall>a \<in> set A. a \<le> l"
    "\<And>T. T \<ge> l \<Longrightarrow> length (filter (\<lambda>a. a > T - ?W) A) \<le> length (filter (\<lambda>a. a > T - ?W) (submit_times mm u))"
    "\<And>T. int (in_window ?W T A) \<le> RateLimitMax cfg"
    using inv by (auto simp: rate_inv_def)
  note R = Submit_rate [OF S]
  have cfg': "mm_config mm' = cfg" using R I(1) by simp
  have "\<forall>a \<in> set (A @ ?B). a \<le> ?now" using I(2) l by (auto split: sum.splits)
  moreover have kept: "length (filter (\<lambda>a. a > T - ?W) (A @ ?B)) \<le> length (filter (\<lambda>a. a > T - ?W) (submit_times mm' u))"
    and win: "?B = [] \<or> int (length (filter (\<lambda>a. a > ?now - ?W) (submit_times mm u))) < RateLimitMax cfg"
    if T: "T \<ge> ?now" for T
  proof -
    have "length (filter (\<lambda>a. a > T - ?W) (A @ ?B)) \<le> length (filter (\<lambda>a. a > T - ?W) (submit_times mm' u)) \<and>
       (?B = [] \<or> int (length (filter (\<lambda>a. a > ?now - ?W) (submit_times mm u))) < RateLimitMax cfg)"
      using conjunct2 [OF R]
    proof (elim disjE exE conjE)
      fix e assume "submitTimes mm' = submitTimes mm" "res = Inl e"
      then show ?thesis using I(3) T l by (simp add: submit_times_def)
    next
      fix mm0 mm1 ok
      assume c: "checkRateLimit ?now mm0 (TkUserID t) = (mm1, ok)" "mm_config mm0 = mm_config mm"
        "submitTimes mm0 = submitTimes mm" "submitTimes mm' = submitTimes mm1"
        "\<forall>t'. res = Inr t' \<longrightarrow> ok \<and> TkUserID t' = TkUserID t"
      note C = check_rate_result [OF c(1), of u]
      have eq: "submit_times mm0 u = submit_times mm u" "submit_times mm' u = submit_times mm1 u"
        using c(3,4) by (simp_all add: submit_times_def)
      have B: "?B = [] \<or> (?B = [?now] \<and> u = TkUserID t \<and> ok)" using c(5) by (cases res) auto
      have old: "length (filter (\<lambda>a. a > T - ?W) A) \<le> length (filter (\<lambda>a. a > T - ?W) (submit_times mm u))"
        using I(3) T l by simp
      have new: "filter (\<lambda>a. a > T - ?W) (submit_times mm' u) =
          (if u = TkUserID t then filter (\<lambda>a. a > T - ?W) (submit_times mm u) @
             filter (\<lambda>a. a > T - ?W) (if ok then [?now] else [])
           else filter (\<lambda>a. a > T - ?W) (submit_times mm u))"
      proof -
        have m0: "mm_config mm0 = cfg" using c(2) I(1) by simp
        show ?thesis
          unfolding eq(2) conjunct1 [OF conjunct2 [OF C], unfolded m0 eq(1)]
          by (cases "u = TkUserID t")
             (simp_all only: if_True if_False simp_thms filter_append filter_window [OF T])
      qed
      show ?thesis
        using B
      proof (elim disjE conjE)
        assume b: "?B = []"
        have "length (filter (\<lambda>a. a > T - ?W) (submit_times mm u))
            \<le> length (filter (\<lambda>a. a > T - ?W) (submit_times mm' u))"
          by (simp add: new)
        with old b show ?thesis by simp
      next
        assume b: "?B = [?now]" "u = TkUserID t" "ok"
        have "int (length (filter (\<lambda>a. a > ?now - ?W) (submit_times mm u))) < RateLimitMax cfg"
          using C b(2,3) c(2) I(1) eq(1) by simp
        with old new b show ?thesis by simp
      qed
    qed
    then show "length (filter (\<lambda>a. a > T - ?W) (A @ ?B)) \<le> length (filter (\<lambda>a. a > T - ?W) (submit_times mm' u))"
      "?B = [] \<or> int (length (filter (\<lambda>a. a > ?now - ?W) (submit_times mm u))) < RateLimitMax cfg" by auto
  qed
  moreover have "int (in_window ?W T (A @ ?B)) \<le> RateLimitMax cfg" for T
  proof (cases "?B = [] \<or> T < ?now")
    case True
    then have "in_window ?W T (A @ ?B) = in_window ?W T A" by (auto simp: in_window_def split: sum.splits)
    with I(4) show ?thesis by simp
  next
    case False
    then have b: "?B = [?now]" "T \<ge> ?now" by (auto split: sum.splits if_splits)
    have "length (filter (\<lambda>a. a > T - ?W \<and> a \<le> T) A) \<le> length (filter (\<lambda>a. a > ?now - ?W) A)"
    proof -
      have "filter (\<lambda>a. a > T - ?W \<and> a \<le> T) A = filter (\<lambda>a. a > T - ?W \<and> a \<le> T) (filter (\<lambda>a. a > ?now - ?W) A)"
        using b(2) by (simp add: filter_filter) (rule filter_cong, auto)
      then show ?thesis using length_filter_le by metis
    qed
    also have "\<dots> \<le> length (filter (\<lambda>a. a > ?now - ?W) (submit_times mm u))" using I(3) l by simp
    finally have "in_window ?W T (A @ ?B) \<le> Suc (length (filter (\<lambda>a. a > ?now - ?W) (submit_times mm u)))"
      using b(1) by (simp add: in_window_def)
    with win [OF b(2)] b(1) show ?thesis by simp
  qed
  ultimately show ?thesis using cfg' by (simp add: rate_inv_def)
qed

lemma rate_run:
  "rate_inv cfg u mm A l \<Longrightarrow> sorted (l # map (\<lambda>(env, t). env_now env) cs) \<Longrightarrow>
   int (in_window (window_of cfg) T (A @ accepted_at u mm cs)) \<le> RateLimitMax cfg"
proof (induction cs arbitrary: mm A l)
  case Nil
  then show ?case by (simp add: rate_inv_def)
next
  case (Cons c cs)
  obtain env t where c: "c = (env, t)" by (cases c)
  obtain mm' res where S: "Submit env mm t = (mm', res)" by (cases "Submit env mm t")
  have l: "l \<le> env_now env" using Cons.prems(2) c by simp
  note I = rate_inv_step [OF Cons.prems(1) l S]
  have s: "sorted (env_now env # map (\<lambda>(env, t). env_now env) cs)" using Cons.prems(2) c by simp
  from Cons.IH [OF I s] show ?case using c S by (cases res) auto
qed

text \<open>C22: however a user submits tickets, at most \<open>RateLimitMax\<close> of their submissions are accepted in any
  window of \<open>RateLimitWindowSec\<close> seconds: for every sequence of Submit calls in time order on a freshly
  configured matchmaker, the accepted submissions of a user in the window ending at any time \<open>T\<close> never
  exceed the configured maximum.\<close>

theorem submit_rate_limited:
  assumes "sorted (map (\<lambda>(env, t). env_now env) cs)"
  shows "int (in_window (window_of (mm_config (Configure cfg NewMatchmaker))) T
      (accepted_at u (Configure cfg NewMatchmaker) cs))
    \<le> RateLimitMax (mm_config (Configure cfg NewMatchmaker))"
proof (cases cs)
  case Nil
  then show ?thesis
    by (simp add: in_window_def Configure_def normalizeConfig_def NewMatchmaker_def DefaultConfig_def
        split: option.split)
next
  case (Cons c cs')
  define l where "l = (case c of (env, t) \<Rightarrow> env_now env)"
  have "rate_inv (mm_config (Configure cfg NewMatchmaker)) u (Configure cfg NewMatchmaker) [] l"
    by (simp add: rate_inv_def in_window_def Configure_def normalizeConfig_def NewMatchmaker_def
        DefaultConfig_def split: option.split)
  moreover have "sorted (l # map (\<lambda>(env, t). env_now env) cs)" using assms Cons by (auto simp: l_def)
  ultimately show ?thesis using rate_run [where A = "[]"] by simp
qed

theorem submit_rate_limited_witness:
  "int (in_window (window_of (mm_config (Configure None NewMatchmaker))) 7
      (accepted_at ''ann'' (Configure None NewMatchmaker) [(demo_env 5, demo_ticket ''t1'' ''ann'' ''s1'')]))
    \<le> RateLimitMax (mm_config (Configure None NewMatchmaker)) \<and>
   accepted_at ''ann'' (Configure None NewMatchmaker) [(demo_env 5, demo_ticket ''t1'' ''ann'' ''s1'')] = [5]"
proof
  show "accepted_at ''ann'' (Configure None NewMatchmaker)
      [(demo_env 5, demo_ticket ''t1'' ''ann'' ''s1'')] = [5]"
    by (simp add: Configure_def demo_submit1) (simp add: demo_full_def demo_ticket_def demo_env_def)
qed (rule submit_rate_limited, simp)

end
