(* ===== verification/ACL.thy ===== *)
theory ACL
  imports Base64
begin

section \<open>Console permissions\<close>

text \<open>
  Models \<open>internal/console/acl/acl.go\<close> and the checks of \<open>internal/console/console.go\<close> built on it: a
  permission is a bitmap of 30 resources with three bits each (read, write, delete), most significant
  bit first, kept as 12 bytes.  The text form is unpadded URL-safe base64.  A console user's \<open>acl\<close>
  column is JSON; \<open>acl_column\<close> is what Go's decoder makes of it: no bytes, no JSON, a text, an object,
  or any other value.  A bitmap is not always 12 bytes long (Go's zero value is empty), so the
  operations are defined for every length.
\<close>

unbundle bit_operations_syntax

subsection \<open>Data\<close>

datatype resource =
    ResourceAccount | ResourceAccountWallet | ResourceAccountExport | ResourceAccountFriends
  | ResourceAccountGroups | ResourceAccountNotes | ResourceACLTemplate | ResourceAllAccounts
  | ResourceAllData | ResourceAllStorage | ResourceAPIExplorer | ResourceAuditLog
  | ResourceConfiguration | ResourceChannelMessage | ResourceUser | ResourceGroup
  | ResourceInAppPurchase | ResourceLeaderboard | ResourceLeaderboardRecord | ResourceMatch
  | ResourceNotification | ResourceSatoriMessage | ResourceSettings | ResourceStorageData
  | ResourceStorageDataImport | ResourceHiroInventory | ResourceHiroProgression
  | ResourceHiroEconomy | ResourceHiroStats | ResourceHiroEnergy

primrec resource_id :: "resource \<Rightarrow> nat" where
  "resource_id ResourceAccount = 0" | "resource_id ResourceAccountWallet = 1"
| "resource_id ResourceAccountExport = 2" | "resource_id ResourceAccountFriends = 3"
| "resource_id ResourceAccountGroups = 4" | "resource_id ResourceAccountNotes = 5"
| "resource_id ResourceACLTemplate = 6" | "resource_id ResourceAllAccounts = 7"
| "resource_id ResourceAllData = 8" | "resource_id ResourceAllStorage = 9"
| "resource_id ResourceAPIExplorer = 10" | "resource_id ResourceAuditLog = 11"
| "resource_id ResourceConfiguration = 12" | "resource_id ResourceChannelMessage = 13"
| "resource_id ResourceUser = 14" | "resource_id ResourceGroup = 15"
| "resource_id ResourceInAppPurchase = 16" | "resource_id ResourceLeaderboard = 17"
| "resource_id ResourceLeaderboardRecord = 18" | "resource_id ResourceMatch = 19"
| "resource_id ResourceNotification = 20" | "resource_id ResourceSatoriMessage = 21"
| "resource_id ResourceSettings = 22" | "resource_id ResourceStorageData = 23"
| "resource_id ResourceStorageDataImport = 24" | "resource_id ResourceHiroInventory = 25"
| "resource_id ResourceHiroProgression = 26" | "resource_id ResourceHiroEconomy = 27"
| "resource_id ResourceHiroStats = 28" | "resource_id ResourceHiroEnergy = 29"

definition resourceCount :: nat where "resourceCount = 30"

datatype permission_level = PermissionRead | PermissionWrite | PermissionDelete

primrec level_id :: "permission_level \<Rightarrow> nat" where
  "level_id PermissionRead = 0" | "level_id PermissionWrite = 1" | "level_id PermissionDelete = 2"

text \<open>\<open>int(math.Ceil(float64(resourceCount * 3) / 8.0))\<close>.\<close>

definition byteCount :: nat where "byteCount = (resourceCount * 3 + 7) div 8"

record permission =
  Bitmap :: "8 word list"

lemma byteCount_12: "byteCount = 12"
  by (simp add: byteCount_def resourceCount_def)

subsection \<open>Operations\<close>

definition NonePermission :: permission where
  "NonePermission = \<lparr>Bitmap = replicate byteCount 0\<rparr>"

definition Admin :: permission where
  "Admin = \<lparr>Bitmap = replicate byteCount 0xFF\<rparr>"

definition IsAdmin :: "permission \<Rightarrow> bool" where
  "IsAdmin p \<longleftrightarrow> Bitmap p \<noteq> [] \<and> list_all (\<lambda>b. b = 0xFF) (Bitmap p)"

definition IsNone :: "permission \<Rightarrow> bool" where
  "IsNone p \<longleftrightarrow> list_all (\<lambda>b. b = 0) (Bitmap p)"

definition HasAccess :: "permission \<Rightarrow> permission \<Rightarrow> bool" where
  "HasAccess p required \<longleftrightarrow>
     IsNone required \<or> IsAdmin p \<or> list_all (\<lambda>(a, b). a AND b = b) (zip (Bitmap p) (Bitmap required))"

text \<open>\<open>copy(out.Bitmap, b)\<close> into a fresh bitmap: truncated or padded with zero bytes.\<close>

definition copy_bitmap :: "8 word list \<Rightarrow> 8 word list" where
  "copy_bitmap bs = take byteCount bs @ replicate (byteCount - length bs) 0"

definition Compose :: "permission \<Rightarrow> permission \<Rightarrow> permission" where
  "Compose p other =
     \<lparr>Bitmap = map (\<lambda>(i, b). if i < length (Bitmap other) then b OR Bitmap other ! i else b)
        (enumerate 0 (copy_bitmap (Bitmap p)))\<rparr>"

definition PermissionString :: "permission \<Rightarrow> string" where
  "PermissionString p = raw_url_encode (map unat (Bitmap (if IsAdmin p then Admin else p)))"

datatype acl_error = ErrBadBase64

definition ParsePermission :: "string \<Rightarrow> acl_error + permission" where
  "ParsePermission s =
     (if s = [] then Inr NonePermission
      else case (case raw_url_decode s of Some b \<Rightarrow> Some b | None \<Rightarrow> url_decode s) of
             None \<Rightarrow> Inl ErrBadBase64
           | Some b \<Rightarrow> Inr \<lparr>Bitmap = copy_bitmap (map word_of_nat b)\<rparr>)"

text \<open>The two loops of \<open>NewPermission\<close>: byte \<open>i\<close> of the bitmap, its bits from the most significant.\<close>

definition permission_byte :: "nat \<Rightarrow> nat \<Rightarrow> 8 word" where
  "permission_byte target i =
     fold (\<lambda>j b. if 8 * i + j = target then b OR push_bit (7 - j) 1 else b) [0..<8] 0"

definition NewPermission :: "resource \<Rightarrow> permission_level \<Rightarrow> permission" where
  "NewPermission r l =
     \<lparr>Bitmap = map (permission_byte (resource_id r * 3 + level_id l)) [0..<byteCount]\<rparr>"

subsection \<open>The stored form\<close>

datatype acl_value = AclText string | AclBool bool | AclOther

datatype acl_column =
    AclEmpty | AclInvalid | AclString string | AclObject "(string, acl_value) fmap" | AclScalar

definition acl_flag :: "(string, acl_value) fmap \<Rightarrow> string \<Rightarrow> bool" where
  "acl_flag m k \<longleftrightarrow> fmlookup m k = Some (AclBool True)"

definition grant_all :: "(resource \<times> permission_level) list \<Rightarrow> permission \<Rightarrow> permission" where
  "grant_all rls p = fold (\<lambda>(r, l) p. Compose p (NewPermission r l)) rls p"

definition write_players_grants :: "(resource \<times> permission_level) list" where
  "write_players_grants =
     [(ResourceAccount, PermissionWrite), (ResourceAccount, PermissionRead),
      (ResourceAccount, PermissionDelete), (ResourceAccountNotes, PermissionWrite),
      (ResourceAccountWallet, PermissionWrite), (ResourceStorageData, PermissionWrite),
      (ResourceGroup, PermissionWrite), (ResourceNotification, PermissionWrite),
      (ResourceChannelMessage, PermissionWrite)]"

definition read_players_grants :: "(resource \<times> permission_level) list" where
  "read_players_grants =
     [(ResourceAccount, PermissionRead), (ResourceAccountNotes, PermissionRead),
      (ResourceAccountWallet, PermissionRead), (ResourceGroup, PermissionRead),
      (ResourceNotification, PermissionRead), (ResourceChannelMessage, PermissionRead),
      (ResourceMatch, PermissionRead), (ResourceStorageData, PermissionRead),
      (ResourceInAppPurchase, PermissionRead)]"

definition legacy_flags :: "(string, acl_value) fmap \<Rightarrow> permission" where
  "legacy_flags m =
     (if acl_flag m ''admin'' then Admin
      else let p1 = (if acl_flag m ''write_players'' then grant_all write_players_grants NonePermission
                     else NonePermission)
           in if acl_flag m ''read_players'' then grant_all read_players_grants p1 else p1)"

definition FromDBACL :: "acl_column \<Rightarrow> permission" where
  "FromDBACL raw =
     (case raw of
        AclString s \<Rightarrow>
          if s \<noteq> [] then (case ParsePermission s of Inr p \<Rightarrow> p | Inl _ \<Rightarrow> NonePermission)
          else NonePermission
      | AclObject m \<Rightarrow>
          (case fmlookup m ''bitmap'' of
             Some (AclText v) \<Rightarrow>
               if v \<noteq> [] then (case ParsePermission v of Inr p \<Rightarrow> p | Inl _ \<Rightarrow> legacy_flags m)
               else legacy_flags m
           | _ \<Rightarrow> legacy_flags m)
      | _ \<Rightarrow> NonePermission)"

definition LegacyFlagAccess :: "permission \<Rightarrow> string \<Rightarrow> bool" where
  "LegacyFlagAccess p flag =
     (if IsAdmin p then True
      else if flag = ''admin'' then IsAdmin p
      else if flag = ''write_players'' then HasAccess p (NewPermission ResourceAccount PermissionWrite)
      else if flag = ''read_players'' then HasAccess p (NewPermission ResourceAccount PermissionRead)
      else False)"

subsection \<open>Checks of the console\<close>

record console_claims =
  ClaimACL :: "(string, acl_value) fmap"
  ACLBitmap :: string

definition ClaimsPermission :: "console_claims option \<Rightarrow> permission" where
  "ClaimsPermission c =
     (case c of
        None \<Rightarrow> NonePermission
      | Some cl \<Rightarrow>
          if ACLBitmap cl \<noteq> []
          then (case ParsePermission (ACLBitmap cl) of
                  Inr p \<Rightarrow> p | Inl _ \<Rightarrow> FromDBACL (AclObject (ClaimACL cl)))
          else FromDBACL (AclObject (ClaimACL cl)))"

definition hasACL :: "console_claims option \<Rightarrow> string \<Rightarrow> bool" where
  "hasACL c flag = (if c = None then False else LegacyFlagAccess (ClaimsPermission c) flag)"

definition requirePerm :: "console_claims option \<Rightarrow> resource \<Rightarrow> permission_level \<Rightarrow> bool" where
  "requirePerm c r l \<longleftrightarrow> c \<noteq> None \<and> HasAccess (ClaimsPermission c) (NewPermission r l)"

subsection \<open>Bits\<close>

definition sized :: "permission \<Rightarrow> bool" where
  "sized p \<longleftrightarrow> length (Bitmap p) = byteCount"

definition slot :: "resource \<Rightarrow> permission_level \<Rightarrow> nat" where
  "slot r l = resource_id r * 3 + level_id l"

definition granted :: "permission \<Rightarrow> nat \<Rightarrow> bool" where
  "granted p t \<longleftrightarrow> bit (Bitmap p ! (t div 8)) (7 - t mod 8)"

lemma resource_id_bound: "resource_id r < 30"
  by (cases r) simp_all

lemma level_id_bound: "level_id l < 3"
  by (cases l) simp_all

lemma resource_id_inj: "resource_id r = resource_id r' \<Longrightarrow> r = r'"
  by (cases r; cases r'; simp)

lemma level_id_inj: "level_id l = level_id l' \<Longrightarrow> l = l'"
  by (cases l; cases l'; simp)

lemma slot_bound: "slot r l < 90" "slot r l div 8 < byteCount"
  using resource_id_bound [of r] level_id_bound [of l] by (auto simp: slot_def byteCount_12)

lemma slot_inj: "slot r l = slot r' l' \<longleftrightarrow> r = r' \<and> l = l'"
proof
  assume eq: "slot r l = slot r' l'"
  have "resource_id r = slot r l div 3" "resource_id r' = slot r' l' div 3"
    "level_id l = slot r l mod 3" "level_id l' = slot r' l' mod 3"
    using level_id_bound [of l] level_id_bound [of l'] by (simp_all add: slot_def)
  with eq show "r = r' \<and> l = l'" by (metis resource_id_inj level_id_inj)
qed simp

lemma slot_in: "(\<exists>(r', l') \<in> gs. slot r l = slot r' l') \<longleftrightarrow> (r, l) \<in> gs"
  by (auto simp: slot_inj)

lemma permission_byte_eq:
  "permission_byte t i = (if t div 8 = i then push_bit (7 - t mod 8) 1 else 0)"
proof (cases "t div 8 = i")
  case True
  then have t: "t = 8 * i + t mod 8" by (metis div_mult_mod_eq mult.commute)
  have "t mod 8 < 8" by simp
  then have "t mod 8 \<in> {0, 1, 2, 3, 4, 5, 6, 7}" by auto
  moreover have "permission_byte (8 * i + d) i = push_bit (7 - d) 1" if "d \<in> {0, 1, 2, 3, 4, 5, 6, 7}" for d
    using that by (elim insertE) (simp_all add: permission_byte_def upt_rec)
  ultimately show ?thesis using True t by metis
next
  case False
  then have "8 * i + j \<noteq> t" if "j \<in> set [0..<8]" for j using that by auto
  then have "permission_byte t i = fold (\<lambda>j b. b) [0..<8] 0"
    unfolding permission_byte_def by (intro fold_cong) auto
  moreover have "fold (\<lambda>j b. b) xs z = z" for xs :: "nat list" and z :: "8 word"
    by (induction xs) simp_all
  ultimately show ?thesis using False by simp
qed

lemma bit_word_exp: "bit (2 ^ n :: 8 word) k \<longleftrightarrow> k < 8 \<and> k = n"
  by (auto simp: bit_exp_iff)

lemma and_exp_eq: "n < 8 \<Longrightarrow> (w :: 8 word) AND 2 ^ n = 2 ^ n \<longleftrightarrow> bit w n"
  by (auto simp: bit_eq_iff [of "w AND 2 ^ n"] bit_and_iff bit_word_exp)

lemma Bitmap_NewPermission:
  "Bitmap (NewPermission r l) = map (permission_byte (slot r l)) [0..<byteCount]"
  by (simp add: NewPermission_def slot_def)

lemma byte_NewPermission:
  "i < byteCount \<Longrightarrow> Bitmap (NewPermission r l) ! i =
     (if slot r l div 8 = i then push_bit (7 - slot r l mod 8) 1 else 0)"
  by (simp add: Bitmap_NewPermission permission_byte_eq)

lemma sized_NewPermission [simp]: "sized (NewPermission r l)"
  by (simp add: sized_def Bitmap_NewPermission)

lemma push_bit_neq_0: "n < 8 \<Longrightarrow> push_bit n (1 :: 8 word) \<noteq> 0"
  by (auto simp: bit_eq_iff bit_simps)

lemma not_IsNone_NewPermission: "\<not> IsNone (NewPermission r l)"
proof -
  have "Bitmap (NewPermission r l) ! (slot r l div 8) \<noteq> 0"
    by (simp add: byte_NewPermission slot_bound push_bit_neq_0)
  moreover have "slot r l div 8 < length (Bitmap (NewPermission r l))"
    using slot_bound(2) by (simp add: Bitmap_NewPermission)
  ultimately show ?thesis by (auto simp: IsNone_def list_all_length)
qed

lemma granted_admin: "IsAdmin p \<Longrightarrow> sized p \<Longrightarrow> t < 90 \<Longrightarrow> granted p t"
proof -
  assume a: "IsAdmin p" "sized p" "t < 90"
  then have "t div 8 < length (Bitmap p)" by (auto simp: sized_def byteCount_12)
  with a(1) have "Bitmap p ! (t div 8) = 0xFF" by (simp add: IsAdmin_def list_all_length)
  moreover have "0xFF = (mask 8 :: 8 word)" by (simp add: mask_eq_exp_minus_1)
  ultimately have "Bitmap p ! (t div 8) = mask 8" by simp
  then show ?thesis unfolding granted_def by (simp only: bit_mask_iff) simp
qed

text \<open>For a full bitmap a check is a bit test; the administrator case adds nothing.\<close>

lemma HasAccess_iff_granted:
  assumes "sized p"
  shows "HasAccess p (NewPermission r l) \<longleftrightarrow> granted p (slot r l)"
proof -
  have len: "length (Bitmap p) = byteCount" "length (Bitmap (NewPermission r l)) = byteCount"
    using assms by (simp_all add: sized_def Bitmap_NewPermission)
  have "list_all (\<lambda>(a, b). a AND b = b) (zip (Bitmap p) (Bitmap (NewPermission r l))) \<longleftrightarrow>
      (\<forall>i < byteCount. Bitmap p ! i AND Bitmap (NewPermission r l) ! i = Bitmap (NewPermission r l) ! i)"
    using len by (simp add: list_all_length)
  also have "\<dots> \<longleftrightarrow> granted p (slot r l)"
    using slot_bound(2) [of r l] by (auto simp: byte_NewPermission granted_def and_exp_eq)
  finally show ?thesis
    using granted_admin [OF _ assms slot_bound(1)] not_IsNone_NewPermission
    by (auto simp: HasAccess_def)
qed

lemma copy_bitmap_length [simp]: "length (copy_bitmap bs) = byteCount"
  by (simp add: copy_bitmap_def)

lemma copy_bitmap_id: "length bs = byteCount \<Longrightarrow> copy_bitmap bs = bs"
  by (simp add: copy_bitmap_def)

lemma sized_Compose [simp]: "sized (Compose p q)"
  by (simp add: sized_def Compose_def)

lemma sized_None [simp]: "sized NonePermission" and sized_Admin [simp]: "sized Admin"
  by (simp_all add: sized_def NonePermission_def Admin_def)

lemma granted_Compose:
  assumes "sized p" "sized q" "t < 90"
  shows "granted (Compose p q) t \<longleftrightarrow> granted p t \<or> granted q t"
proof -
  have i: "t div 8 < byteCount" using assms(3) by (simp add: byteCount_12)
  have len: "length (Bitmap p) = byteCount" "length (Bitmap q) = byteCount"
    using assms(1,2) by (simp_all add: sized_def)
  have "Bitmap (Compose p q) ! (t div 8) = Bitmap p ! (t div 8) OR Bitmap q ! (t div 8)"
    using i len by (simp add: Compose_def copy_bitmap_id nth_enumerate_eq)
  then show ?thesis by (simp add: granted_def bit_or_iff)
qed

lemma granted_NewPermission: "t < 90 \<Longrightarrow> granted (NewPermission r l) t \<longleftrightarrow> t = slot r l"
proof -
  assume t: "t < 90"
  then have i: "t div 8 < byteCount" by (simp add: byteCount_12)
  have "t = slot r l \<longleftrightarrow> t div 8 = slot r l div 8 \<and> 7 - t mod 8 = 7 - slot r l mod 8"
  proof
    assume "t div 8 = slot r l div 8 \<and> 7 - t mod 8 = 7 - slot r l mod 8"
    moreover have "t mod 8 < 8" "slot r l mod 8 < 8" by simp_all
    ultimately have "t div 8 = slot r l div 8" "t mod 8 = slot r l mod 8" by linarith+
    then show "t = slot r l" by (metis div_mult_mod_eq)
  qed simp
  moreover have "7 - t mod 8 < 8" by simp
  ultimately show ?thesis
    using i by (simp add: granted_def byte_NewPermission bit_word_exp)
qed

lemma granted_None: "t < 90 \<Longrightarrow> \<not> granted NonePermission t"
  by (auto simp: granted_def NonePermission_def byteCount_12)

lemma granted_grant_all:
  "sized p \<Longrightarrow> t < 90 \<Longrightarrow>
   sized (grant_all rls p) \<and>
   (granted (grant_all rls p) t \<longleftrightarrow> granted p t \<or> (\<exists>(r, l) \<in> set rls. t = slot r l))"
proof (induction rls arbitrary: p)
  case (Cons rl rls)
  obtain r l where rl: "rl = (r, l)" by (cases rl)
  have "grant_all (rl # rls) p = grant_all rls (Compose p (NewPermission r l))"
    by (simp add: grant_all_def rl)
  with Cons.IH [of "Compose p (NewPermission r l)"] Cons.prems show ?case
    by (auto simp: rl granted_Compose granted_NewPermission)
qed (simp add: grant_all_def)

lemma sized_Parse: "ParsePermission s = Inr p \<Longrightarrow> sized p"
  by (auto simp: ParsePermission_def sized_def split: if_splits option.splits)
     (simp_all add: NonePermission_def)

lemma sized_legacy: "sized (legacy_flags m)"
  using granted_grant_all [of _ 0] by (simp add: legacy_flags_def Let_def)

lemma sized_FromDBACL: "sized (FromDBACL raw)"
  by (auto simp: FromDBACL_def sized_Parse sized_legacy split: acl_column.splits acl_value.splits
      option.splits sum.splits)

lemma sized_Claims: "sized (ClaimsPermission c)"
  by (auto simp: ClaimsPermission_def sized_Parse sized_FromDBACL split: option.splits sum.splits)

subsection \<open>Properties\<close>

text \<open>the bits of the bitmap are independent and a union grants exactly what its parts grant.  For full
  bitmaps, the composition of two permissions gives access to a resource at a level exactly when one of
  the two does, and the permission made for one resource and level gives access to no other.\<close>

lemma compose_grants_union:
  assumes "sized p" and "sized q"
  shows "(HasAccess (Compose p q) (NewPermission r l) \<longleftrightarrow>
      HasAccess p (NewPermission r l) \<or> HasAccess q (NewPermission r l)) \<and>
    (HasAccess (NewPermission r' l') (NewPermission r l) \<longleftrightarrow> r = r' \<and> l = l')"
  using assms slot_bound(1) [of r l]
  by (auto simp: HasAccess_iff_granted granted_Compose granted_NewPermission slot_inj)

lemma compose_grants_union_witness:
  "\<not> HasAccess (Compose (NewPermission ResourceMatch PermissionRead) (NewPermission ResourceGroup PermissionWrite))
     (NewPermission ResourceGroup PermissionDelete)"
  using compose_grants_union [OF sized_NewPermission sized_NewPermission,
      of ResourceMatch PermissionRead ResourceGroup PermissionWrite ResourceGroup PermissionDelete]
    compose_grants_union [OF sized_None sized_None, of ResourceGroup PermissionDelete ResourceGroup PermissionWrite]
    compose_grants_union [OF sized_None sized_None, of ResourceGroup PermissionDelete ResourceMatch PermissionRead]
  by simp

text \<open>C31: the text form of a permission loses nothing.  A full bitmap printed with String and read back
  with Parse is the same permission, and a console token that carries the text gives its bearer exactly
  the access of the permission.\<close>

theorem permission_text_roundtrip:
  assumes "sized p"
  shows "ParsePermission (PermissionString p) = Inr p \<and>
    (requirePerm (Some \<lparr>ClaimACL = m, ACLBitmap = PermissionString p\<rparr>) r l \<longleftrightarrow> HasAccess p (NewPermission r l))"
proof -
  have "Bitmap (if IsAdmin p then Admin else p) = Bitmap p"
    using assms by (auto simp: IsAdmin_def Admin_def sized_def list_all_length intro: nth_equalityI)
  then have s: "PermissionString p = raw_url_encode (map unat (Bitmap p))"
    by (simp add: PermissionString_def)
  have ne: "PermissionString p \<noteq> []"
    using assms by (auto simp: s raw_url_encode_nonempty sized_def byteCount_12)
  have "\<forall>b \<in> set (map unat (Bitmap p)). b < 256" by (auto intro: less_le_trans [OF unsigned_less])
  from raw_url_roundtrip [OF this] have "raw_url_decode (PermissionString p) = Some (map unat (Bitmap p))"
    by (simp add: s)
  moreover have "map word_of_nat (map unat (Bitmap p)) = Bitmap p" by (simp add: comp_def)
  ultimately have "ParsePermission (PermissionString p) = Inr p"
    using ne assms by (simp add: ParsePermission_def copy_bitmap_id sized_def)
  then show ?thesis using ne by (simp add: requirePerm_def ClaimsPermission_def)
qed

theorem permission_text_roundtrip_witness:
  "ParsePermission (PermissionString Admin) = Inr Admin"
  using permission_text_roundtrip [OF sized_Admin] by blast

text \<open>the migration of the old flags grants exactly the documented resources.  A console user whose token
  carries no bitmap and whose \<open>acl\<close> object has no \<open>bitmap\<close> passes a check exactly when the object has
  \<open>admin\<close> true, or \<open>write_players\<close> or \<open>read_players\<close> true and the resource and level are among the grants
  listed for that flag.\<close>

lemma legacy_flags_grant_exactly:
  assumes "ACLBitmap c = []" and "fmlookup (ClaimACL c) ''bitmap'' = None"
  shows "requirePerm (Some c) r l \<longleftrightarrow>
    acl_flag (ClaimACL c) ''admin'' \<or>
    acl_flag (ClaimACL c) ''write_players'' \<and> (r, l) \<in> set write_players_grants \<or>
    acl_flag (ClaimACL c) ''read_players'' \<and> (r, l) \<in> set read_players_grants"
proof -
  have "requirePerm (Some c) r l \<longleftrightarrow> granted (legacy_flags (ClaimACL c)) (slot r l)"
    using assms by (simp add: requirePerm_def ClaimsPermission_def FromDBACL_def HasAccess_iff_granted sized_legacy)
  also have "\<dots> \<longleftrightarrow> acl_flag (ClaimACL c) ''admin'' \<or>
      acl_flag (ClaimACL c) ''write_players'' \<and> (\<exists>(r', l') \<in> set write_players_grants. slot r l = slot r' l') \<or>
      acl_flag (ClaimACL c) ''read_players'' \<and> (\<exists>(r', l') \<in> set read_players_grants. slot r l = slot r' l')"
  proof -
    have a: "granted Admin (slot r l)"
      by (rule granted_admin) (simp_all add: slot_bound IsAdmin_def list_all_length, simp_all add: Admin_def byteCount_12)
    note g = granted_grant_all [OF _ slot_bound(1) [of r l]]
    show ?thesis
      using a g [of NonePermission] g [of "grant_all write_players_grants NonePermission"]
        granted_None [OF slot_bound(1), of r l]
      by (auto simp: legacy_flags_def Let_def)
  qed
  finally show ?thesis by (simp add: slot_in)
qed

lemma legacy_flags_grant_exactly_witness:
  "requirePerm (Some \<lparr>ClaimACL = fmupd ''read_players'' (AclBool True) fmempty, ACLBitmap = []\<rparr>)
     ResourceMatch PermissionRead"
  using legacy_flags_grant_exactly
    [of "\<lparr>ClaimACL = fmupd ''read_players'' (AclBool True) fmempty, ACLBitmap = []\<rparr>" ResourceMatch PermissionRead]
  by (simp add: acl_flag_def read_players_grants_def)

text \<open>
  Go's zero value is an empty bitmap: it counts as no permission at all and yet passes every check,
  because the check only compares the bytes both bitmaps have.
\<close>

lemma empty_bitmap_passes:
  "IsNone \<lparr>Bitmap = []\<rparr> \<and> HasAccess \<lparr>Bitmap = []\<rparr> (NewPermission r l)"
  by (simp add: IsNone_def HasAccess_def)

end
