(* ===== verification/Lockout.thy ===== *)
theory Lockout
  imports Prelude
begin

section \<open>Login lockout\<close>

text \<open>
  Models \<open>LoginLockout\<close> of \<open>internal/auth/security.go\<close> and the login path of \<open>handleAuthenticateEmail\<close>
  (\<open>internal/api/server.go\<close>) that uses it.  Failed attempts are counted per account and per address in
  fixed windows; reaching the limit locks the key for one window from that failure.  Each method holds
  the tracker's mutex and is one atomic step; time is an argument, Go's zero time is 0.  A login is two
  steps, as the handler verifies the password between its two calls of the tracker: any number of logins
  can be under way at once.  Whether the credentials are right is an input of the second step.  The policy checks on e-mail addresses and
  passwords of the same file are not modelled: they rest on Go's Unicode tables and mail parser.
\<close>

record fail_bucket =
  fails :: int
  reset_at :: gotime
  locked_until :: gotime

record login_lockout =
  account :: "(string, fail_bucket) fmap"
  ip_fails :: "(string, fail_bucket) fmap"

definition minute :: gotime where "minute = 60000000000"
definition accountFailLimit :: int where "accountFailLimit = 5"
definition accountWindow :: gotime where "accountWindow = 15 * minute"
definition ipFailLimit :: int where "ipFailLimit = 20"
definition ipWindow :: gotime where "ipWindow = 10 * minute"

datatype lockout_error = AccountLocked | AddressLocked

definition NewLoginLockout :: login_lockout where
  "NewLoginLockout = \<lparr>account = fmempty, ip_fails = fmempty\<rparr>"

text \<open>The two halves of \<open>Check\<close>: is the key locked, and its map without a bucket whose window has passed.\<close>

definition locked_now :: "gotime \<Rightarrow> (string, fail_bucket) fmap \<Rightarrow> string \<Rightarrow> bool" where
  "locked_now now m key = (case fmlookup m key of None \<Rightarrow> False | Some b \<Rightarrow> now < locked_until b)"

definition purge :: "gotime \<Rightarrow> (string, fail_bucket) fmap \<Rightarrow> string \<Rightarrow> (string, fail_bucket) fmap" where
  "purge now m key =
     (case fmlookup m key of None \<Rightarrow> m | Some b \<Rightarrow> if now > reset_at b then fmdrop key m else m)"

definition Check ::
  "gotime \<Rightarrow> login_lockout \<Rightarrow> string \<Rightarrow> string \<Rightarrow> login_lockout \<times> lockout_error option" where
  "Check now l identityKey ip =
     (if locked_now now (account l) identityKey then (l, Some AccountLocked)
      else let l1 = l\<lparr>account := purge now (account l) identityKey\<rparr>
           in if locked_now now (ip_fails l1) ip then (l1, Some AddressLocked)
              else (l1\<lparr>ip_fails := purge now (ip_fails l1) ip\<rparr>, None))"

definition bump ::
  "(string, fail_bucket) fmap \<Rightarrow> string \<Rightarrow> gotime \<Rightarrow> int \<Rightarrow> gotime \<Rightarrow> (string, fail_bucket) fmap" where
  "bump m key now limit window =
     (if key = [] then m
      else let b = (case fmlookup m key of
                      Some b \<Rightarrow> if now > reset_at b then \<lparr>fails = 0, reset_at = now + window, locked_until = 0\<rparr> else b
                    | None \<Rightarrow> \<lparr>fails = 0, reset_at = now + window, locked_until = 0\<rparr>);
               b1 = b\<lparr>fails := fails b + 1\<rparr>
           in fmupd key (if fails b1 \<ge> limit then b1\<lparr>locked_until := now + window\<rparr> else b1) m)"

definition RecordFailure :: "gotime \<Rightarrow> login_lockout \<Rightarrow> string \<Rightarrow> string \<Rightarrow> login_lockout" where
  "RecordFailure now l identityKey ip =
     l\<lparr>account := bump (account l) identityKey now accountFailLimit accountWindow,
       ip_fails := bump (ip_fails l) ip now ipFailLimit ipWindow\<rparr>"

definition ClearSuccess :: "login_lockout \<Rightarrow> string \<Rightarrow> string \<Rightarrow> login_lockout" where
  "ClearSuccess l identityKey ip = l\<lparr>account := fmdrop identityKey (account l)\<rparr>"

text \<open>
  A login (no registration): the handler checks the tracker and goes on to verify the password; when it is
  verified, the tracker hears of it.  A login under way has an identifier, its e-mail and its address.
\<close>

record login_state =
  tracker :: login_lockout
  under_way :: "(nat \<times> string \<times> string) list"

datatype login_event =
    LoginStart gotime nat string string
  | LoginEnd gotime nat bool

datatype login_result = LockedOut lockout_error | Verifying | BadCredentials string string | LoggedIn string | NoLogin

definition login_start :: "gotime \<Rightarrow> nat \<Rightarrow> string \<Rightarrow> string \<Rightarrow> login_state \<Rightarrow> login_state \<times> login_result" where
  "login_start now i email ip st =
     (case Check now (tracker st) email ip of
        (l, Some e) \<Rightarrow> (st\<lparr>tracker := l\<rparr>, LockedOut e)
      | (l, None) \<Rightarrow> (st\<lparr>tracker := l, under_way := under_way st @ [(i, email, ip)]\<rparr>, Verifying))"

definition login_end :: "gotime \<Rightarrow> nat \<Rightarrow> bool \<Rightarrow> login_state \<Rightarrow> login_state \<times> login_result" where
  "login_end now i ok st =
     (case List.find (\<lambda>u. fst u = i) (under_way st) of
        None \<Rightarrow> (st, NoLogin)
      | Some (_, email, ip) \<Rightarrow>
          let rest = filter (\<lambda>u. fst u \<noteq> i) (under_way st) in
          if ok then (st\<lparr>tracker := ClearSuccess (tracker st) email ip, under_way := rest\<rparr>, LoggedIn email)
          else (st\<lparr>tracker := RecordFailure now (tracker st) email ip, under_way := rest\<rparr>, BadCredentials email ip))"

fun login_step :: "login_event \<Rightarrow> login_state \<Rightarrow> login_state \<times> login_result" where
  "login_step (LoginStart now i email ip) st = login_start now i email ip st"
| "login_step (LoginEnd now i ok) st = login_end now i ok st"

fun event_time :: "login_event \<Rightarrow> gotime" where
  "event_time (LoginStart now i email ip) = now"
| "event_time (LoginEnd now i ok) = now"

definition no_logins :: login_state where
  "no_logins = \<lparr>tracker = NewLoginLockout, under_way = []\<rparr>"

subsection \<open>Failures in a span of time\<close>

definition in_span :: "gotime \<Rightarrow> gotime \<Rightarrow> gotime list \<Rightarrow> nat" where
  "in_span W T A = length (filter (\<lambda>a. T \<le> a \<and> a < T + W) A)"

lemma in_span_append: "in_span W T (A @ B) = in_span W T A + in_span W T B"
  by (simp add: in_span_def)

lemma in_span_le: "in_span W T A \<le> length A"
  by (simp add: in_span_def)

lemma in_span_0: "\<forall>a \<in> set A. a + W \<le> now \<Longrightarrow> now < T + W \<Longrightarrow> in_span W T A = 0"
  by (force simp: in_span_def filter_empty_conv)

text \<open>
  \<open>A\<close> are the times of the failures counted for a key so far, all at most \<open>t\<close>, the time of the last event.
  They split into older windows, the previous window and the current one; no window holds more than \<open>M\<close>, and
  what is older than the previous window is a full window away from the current one.
\<close>

definition windows_ok :: "nat \<Rightarrow> gotime \<Rightarrow> gotime list \<Rightarrow> gotime list \<Rightarrow> gotime list \<Rightarrow> bool" where
  "windows_ok M W older prev cur \<longleftrightarrow>
     length prev \<le> M \<and> length cur \<le> M \<and> sorted cur \<and> (older @ prev \<noteq> [] \<longrightarrow> cur \<noteq> []) \<and>
     (\<forall>a \<in> set older. a + W \<le> hd cur) \<and> (\<forall>a \<in> set prev. a \<le> hd cur)"

text \<open>
  The bucket of the key describes the current window; \<open>f\<close> is the number of logins of the key under way.  Below
  the limit \<open>n\<close> it counts exactly.  At the limit the key is locked for a window from the last failure, and
  until then only the logins under way can fail.  The previous window is a full window away when the bucket
  expires.
\<close>

definition bucket_matches ::
  "nat \<Rightarrow> nat \<Rightarrow> gotime \<Rightarrow> fail_bucket option \<Rightarrow> gotime list \<Rightarrow> gotime list \<Rightarrow> nat \<Rightarrow> gotime \<Rightarrow> bool" where
  "bucket_matches n M W b prev cur f t \<longleftrightarrow>
     (case b of
        None \<Rightarrow> cur = [] \<or> (\<forall>a \<in> set prev. a + W \<le> t)
      | Some fb \<Rightarrow> cur \<noteq> [] \<and> (\<forall>a \<in> set prev. a + W \<le> max t (reset_at fb)) \<and>
          (if fails fb < int n then fails fb = int (length cur)
           else locked_until fb = last cur + W \<and> (t < last cur + W \<longrightarrow> length cur + f \<le> M)))"

definition key_inv :: "nat \<Rightarrow> nat \<Rightarrow> gotime \<Rightarrow> fail_bucket option \<Rightarrow> gotime list \<Rightarrow> nat \<Rightarrow> gotime \<Rightarrow> bool" where
  "key_inv n M W b A f t \<longleftrightarrow> (\<forall>a \<in> set A. a \<le> t) \<and> (\<forall>T. in_span W T A \<le> 2 * M) \<and>
     (\<exists>older prev cur. A = older @ prev @ cur \<and> windows_ok M W older prev cur \<and> bucket_matches n M W b prev cur f t)"

lemma key_invI:
  assumes "A = older @ prev @ cur" "windows_ok M W older prev cur" "bucket_matches n M W b prev cur f t"
    "\<forall>a \<in> set A. a \<le> t" "\<forall>T. in_span W T A \<le> 2 * M"
  shows "key_inv n M W b A f t"
  using assms unfolding key_inv_def by blast

lemma key_invE:
  assumes "key_inv n M W b A f t"
  obtains older prev cur where "A = older @ prev @ cur" "windows_ok M W older prev cur"
    "bucket_matches n M W b prev cur f t" "\<forall>a \<in> set A. a \<le> t" "\<forall>T. in_span W T A \<le> 2 * M"
  using assms unfolding key_inv_def by blast

lemma key_inv_new: "key_inv n M W None [] f t"
  by (simp add: key_inv_def in_span_def windows_ok_def bucket_matches_def)

lemma sorted_hd_last: "sorted xs \<Longrightarrow> x \<in> set xs \<Longrightarrow> hd xs \<le> x \<and> x \<le> last xs"
  by (induction xs) (auto split: if_splits)

text \<open>One more failure, in the current window or a new one, keeps every span within the bound.\<close>

lemma span_step:
  assumes old: "\<forall>T. in_span W T A \<le> 2 * M" and A: "A @ [now] = older @ prev @ cur @ [now]"
    and w: "windows_ok M W older prev (cur @ [now])" and last: "\<forall>a \<in> set A. a \<le> now"
  shows "in_span W T (A @ [now]) \<le> 2 * M"
proof (cases "T \<le> now \<and> now < T + W")
  case False
  then have "in_span W T [now] = 0" by (auto simp: in_span_def)
  with old show ?thesis by (simp add: in_span_append)
next
  case True
  have hd: "hd (cur @ [now]) \<le> now"
    using w sorted_hd_last [of "cur @ [now]" now] by (simp add: windows_ok_def)
  have "in_span W T older = 0"
    using w hd True by (intro in_span_0 [of _ _ now]) (auto simp: windows_ok_def)
  moreover have "in_span W T prev \<le> M" "in_span W T (cur @ [now]) \<le> M"
    using in_span_le [of W T prev] in_span_le [of W T "cur @ [now]"] w by (simp_all add: windows_ok_def)
  moreover have "in_span W T (A @ [now]) =
      in_span W T older + in_span W T prev + in_span W T (cur @ [now])"
    by (simp only: A in_span_append)
  ultimately show ?thesis by linarith
qed

lemma open_window:
  assumes inv: "\<forall>a \<in> set A. a \<le> now" "\<forall>T. in_span W T A \<le> 2 * M"
    and A: "A = older @ prev @ cur" "windows_ok M W older prev cur"
    and past: "cur \<noteq> [] \<longrightarrow> (\<forall>a \<in> set prev. a + W \<le> now)" and M: "1 \<le> M"
    and b: "bucket_matches n M W b cur [now] f now"
  shows "key_inv n M W b (A @ [now]) f now"
proof -
  have older: "a + W \<le> now" if "a \<in> set older" for a
  proof -
    have "cur \<noteq> []" "a + W \<le> hd cur" using that A(2) by (auto simp: windows_ok_def)
    moreover have "hd cur \<le> now" using inv(1) A(1) \<open>cur \<noteq> []\<close> by simp
    ultimately show ?thesis by linarith
  qed
  have w: "windows_ok M W (older @ prev) cur ([] @ [now])"
    using A past inv(1) older M by (auto simp: windows_ok_def)
  have eq: "A @ [now] = (older @ prev) @ cur @ [] @ [now]" using A(1) by simp
  have "\<forall>a \<in> set (A @ [now]). a \<le> now" using inv(1) by auto
  moreover have "\<forall>T. in_span W T (A @ [now]) \<le> 2 * M" using span_step [OF inv(2) eq w inv(1)] by blast
  ultimately show ?thesis using key_invI [OF eq] w b by (metis append_Nil)
qed

lemma join_window:
  assumes inv: "\<forall>a \<in> set A. a \<le> now" "\<forall>T. in_span W T A \<le> 2 * M"
    and A: "A = older @ prev @ cur" "windows_ok M W older prev cur"
    and cur: "cur \<noteq> []" "length cur < M" and b: "bucket_matches n M W b prev (cur @ [now]) f now"
  shows "key_inv n M W b (A @ [now]) f now"
proof -
  have "sorted (cur @ [now])" using A inv(1) by (auto simp: windows_ok_def sorted_append)
  then have w: "windows_ok M W older prev (cur @ [now])" using A(2) cur by (simp add: windows_ok_def)
  have eq: "A @ [now] = older @ prev @ cur @ [now]" using A(1) by simp
  have "\<forall>a \<in> set (A @ [now]). a \<le> now" using inv(1) by auto
  moreover have "\<forall>T. in_span W T (A @ [now]) \<le> 2 * M" using span_step [OF inv(2) eq w inv(1)] by blast
  ultimately show ?thesis by (rule key_invI [OF eq w b])
qed

text \<open>Time passes and logins end without a failure.\<close>

lemma key_inv_later:
  assumes inv: "key_inv n M W b A f t" and "t \<le> t'" and "f' \<le> f"
  shows "key_inv n M W b A f' t'"
proof -
  obtain older prev cur where A: "A = older @ prev @ cur" "windows_ok M W older prev cur"
    and b: "bucket_matches n M W b prev cur f t" and a: "\<forall>a \<in> set A. a \<le> t" "\<forall>T. in_span W T A \<le> 2 * M"
    by (rule key_invE [OF inv])
  have "bucket_matches n M W b prev cur f' t'"
    using b assms(2,3) unfolding bucket_matches_def by (cases b) (force split: if_splits)+
  moreover have "\<forall>a \<in> set A. a \<le> t'" using a(1) assms(2) by force
  ultimately show ?thesis using key_invI [OF A _ _ a(2)] by blast
qed

text \<open>A check that passes.\<close>

lemma key_inv_purge:
  assumes inv: "key_inv n M W (fmlookup m key) A f t" and t: "t \<le> now" and free: "\<not> locked_now now m key"
  shows "key_inv n M W (fmlookup (purge now m key) key) A f' now"
proof -
  obtain older prev cur where A: "A = older @ prev @ cur" "windows_ok M W older prev cur"
    and b: "bucket_matches n M W (fmlookup m key) prev cur f t"
    and a: "\<forall>a \<in> set A. a \<le> t" "\<forall>T. in_span W T A \<le> 2 * M"
    by (rule key_invE [OF inv])
  have "bucket_matches n M W (fmlookup (purge now m key) key) prev cur f' now"
  proof (cases "fmlookup m key")
    case None
    with b t show ?thesis by (auto simp: purge_def bucket_matches_def)
  next
    case (Some fb)
    have "locked_until fb \<le> now" using free Some by (simp add: locked_now_def)
    with Some b t show ?thesis
      by (auto simp: purge_def bucket_matches_def max_def split: if_splits)
  qed
  moreover have "\<forall>a \<in> set A. a \<le> now" using a(1) t by force
  ultimately show ?thesis using key_invI [OF A _ _ a(2)] by blast
qed

text \<open>A failure of a login under way.\<close>

lemma key_inv_bump:
  assumes inv: "key_inv n M W (fmlookup m key) A f t" and t: "t \<le> now" and n: "2 \<le> n" "0 \<le> W" "key \<noteq> []"
    and f: "f' < f" "f \<le> k" and M: "M = n - 1 + k"
  shows "key_inv n M W (fmlookup (bump m key now (int n) W) key) (A @ [now]) f' now"
proof -
  obtain older prev cur where A: "A = older @ prev @ cur" "windows_ok M W older prev cur"
    and b: "bucket_matches n M W (fmlookup m key) prev cur f t"
    and at: "\<forall>a \<in> set A. a \<le> t" and span: "\<forall>T. in_span W T A \<le> 2 * M"
    by (rule key_invE [OF inv])
  have a: "\<forall>a \<in> set A. a \<le> now" using at t by force
  have M1: "1 \<le> M" "1 + f' \<le> M" "n + f' \<le> M" using M n f by linarith+
  note new = open_window [OF a span A _ M1(1)] and join = join_window [OF a span A]
  have cur: "\<forall>a \<in> set cur. a \<le> now" using a A(1) by simp
  have fresh: "bucket_matches n M W (Some \<lparr>fails = 1, reset_at = now + W, locked_until = 0\<rparr>) cur [now] f' now"
    using n cur by (auto simp: bucket_matches_def)
  show ?thesis
  proof (cases "fmlookup m key")
    case None
    then have "cur \<noteq> [] \<longrightarrow> (\<forall>a \<in> set prev. a + W \<le> now)" using b t by (auto simp: bucket_matches_def)
    from new [OF this fresh] None n show ?thesis by (simp add: bump_def Let_def)
  next
    case (Some fb)
    have c: "cur \<noteq> []" and pr: "\<forall>a \<in> set prev. a + W \<le> max t (reset_at fb)"
      using b Some by (simp_all add: bucket_matches_def)
    show ?thesis
    proof (cases "now > reset_at fb")
      case True
      then have "cur \<noteq> [] \<longrightarrow> (\<forall>a \<in> set prev. a + W \<le> now)" using pr t by fastforce
      from new [OF this fresh] True Some n show ?thesis by (simp add: bump_def Let_def)
    next
      case keep: False
      have pr': "\<forall>a \<in> set prev. a + W \<le> max now (reset_at fb)" using pr t by fastforce
      show ?thesis
      proof (cases "fails fb < int n")
        case less: True
        then have l: "fails fb = int (length cur)" using b Some by (simp add: bucket_matches_def)
        have "bucket_matches n M W (Some (let b1 = fb\<lparr>fails := fails fb + 1\<rparr> in
            if fails b1 \<ge> int n then b1\<lparr>locked_until := now + W\<rparr> else b1)) prev (cur @ [now]) f' now"
          using l less pr' M1 by (auto simp: bucket_matches_def Let_def)
        moreover have "length cur < M" using l less M1(3) by linarith
        ultimately show ?thesis using join [OF c] l less keep Some n by (simp add: bump_def Let_def split: if_splits)
      next
        case full: False
        then have lk: "locked_until fb = last cur + W" "t < last cur + W \<longrightarrow> length cur + f \<le> M"
          using b Some by (simp_all add: bucket_matches_def)
        show ?thesis
        proof (cases "now < last cur + W")
          case True
          then have len: "length cur + f \<le> M" using lk t by linarith
          have "bucket_matches n M W (Some (fb\<lparr>fails := fails fb + 1, locked_until := now + W\<rparr>)) prev (cur @ [now]) f' now"
            using full pr' len f by (auto simp: bucket_matches_def)
          moreover have "length cur < M" using len f(1) by linarith
          ultimately show ?thesis using join [OF c] keep full Some n by (simp add: bump_def Let_def)
        next
          case False
          have last: "a \<le> last cur" if "a \<in> set cur" for a
            using that A(2) sorted_hd_last by (auto simp: windows_ok_def)
          have hl: "hd cur \<le> last cur" using c by (intro last) simp
          have "a + W \<le> now" if "a \<in> set prev" for a
          proof -
            have "a \<le> hd cur" using that A(2) by (auto simp: windows_ok_def)
            with hl False show ?thesis by linarith
          qed
          then have past: "cur \<noteq> [] \<longrightarrow> (\<forall>a \<in> set prev. a + W \<le> now)" by blast
          have "\<forall>a \<in> set cur. a + W \<le> now" using last False by fastforce
          then have "bucket_matches n M W (Some (fb\<lparr>fails := fails fb + 1, locked_until := now + W\<rparr>)) cur [now] f' now"
            using full M1 by (auto simp: bucket_matches_def)
          from new [OF past this] keep full Some n show ?thesis by (simp add: bump_def Let_def)
        qed
      qed
    qed
  qed
qed

subsection \<open>Sequences of logins\<close>

text \<open>The failures of the logins of a key, the logins of a key under way, and a bound on them throughout.\<close>

fun failed_at :: "(string \<Rightarrow> string \<Rightarrow> bool) \<Rightarrow> login_state \<Rightarrow> login_event list \<Rightarrow> gotime list" where
  "failed_at P st [] = []"
| "failed_at P st (e # es) =
     (case login_step e st of
        (st', r) \<Rightarrow>
          (case r of BadCredentials email ip \<Rightarrow> if P email ip then [event_time e] else [] | _ \<Rightarrow> []) @ failed_at P st' es)"

fun login_results :: "login_state \<Rightarrow> login_event list \<Rightarrow> login_result list" where
  "login_results st [] = []"
| "login_results st (e # es) = (case login_step e st of (st', r) \<Rightarrow> r # login_results st' es)"

definition in_flight :: "(string \<Rightarrow> string \<Rightarrow> bool) \<Rightarrow> login_state \<Rightarrow> nat" where
  "in_flight P st = length (filter (\<lambda>u. P (fst (snd u)) (snd (snd u))) (under_way st))"

fun overlap_within :: "nat \<Rightarrow> (string \<Rightarrow> string \<Rightarrow> bool) \<Rightarrow> login_state \<Rightarrow> login_event list \<Rightarrow> bool" where
  "overlap_within k P st [] = (in_flight P st \<le> k)"
| "overlap_within k P st (e # es) = (in_flight P st \<le> k \<and> overlap_within k P (fst (login_step e st)) es)"

lemma purge_other: "k \<noteq> key \<Longrightarrow> fmlookup (purge now m key) k = fmlookup m k"
  by (simp add: purge_def split: option.split)

lemma bump_other: "k \<noteq> key \<Longrightarrow> fmlookup (bump m key now n W) k = fmlookup m k"
  by (simp add: bump_def Let_def)

lemma limits: "accountFailLimit = int 5" "ipFailLimit = int 20" "0 \<le> accountWindow" "0 \<le> ipWindow"
  by (simp_all add: accountFailLimit_def ipFailLimit_def accountWindow_def ipWindow_def minute_def)

lemma filter_shrinks: "length (filter P (filter Q xs)) \<le> length (filter P xs)"
  by (induction xs) auto

lemma filter_drops: "x \<in> set xs \<Longrightarrow> P x \<Longrightarrow> \<not> Q x \<Longrightarrow> length (filter P (filter Q xs)) < length (filter P xs)"
  using filter_shrinks [of P Q] by (induction xs) (auto simp: le_imp_less_Suc)

lemma start_cases:
  assumes "login_start now i email ip st = (st', r)"
  obtains (account_locked) "st' = st" "r = LockedOut AccountLocked"
  | (address_locked) "r = LockedOut AddressLocked" "\<not> locked_now now (account (tracker st)) email"
      "account (tracker st') = purge now (account (tracker st)) email" "ip_fails (tracker st') = ip_fails (tracker st)"
      "under_way st' = under_way st"
  | (admitted) "r = Verifying" "\<not> locked_now now (account (tracker st)) email" "\<not> locked_now now (ip_fails (tracker st)) ip"
      "account (tracker st') = purge now (account (tracker st)) email"
      "ip_fails (tracker st') = purge now (ip_fails (tracker st)) ip" "under_way st' = under_way st @ [(i, email, ip)]"
  using assms by (auto simp: login_start_def Check_def Let_def split: if_splits)

lemma end_cases:
  assumes "login_end now i ok st = (st', r)"
  obtains (none) "st' = st" "r = NoLogin"
  | (success) j email ip where "(j, email, ip) \<in> set (under_way st)" "j = i" "r = LoggedIn email"
      "account (tracker st') = fmdrop email (account (tracker st))" "ip_fails (tracker st') = ip_fails (tracker st)"
      "under_way st' = filter (\<lambda>u. fst u \<noteq> i) (under_way st)"
  | (failure) j email ip where "(j, email, ip) \<in> set (under_way st)" "j = i" "r = BadCredentials email ip"
      "account (tracker st') = bump (account (tracker st)) email now accountFailLimit accountWindow"
      "ip_fails (tracker st') = bump (ip_fails (tracker st)) ip now ipFailLimit ipWindow"
      "under_way st' = filter (\<lambda>u. fst u \<noteq> i) (under_way st)"
proof (cases "List.find (\<lambda>u. fst u = i) (under_way st)")
  case None
  then show ?thesis using assms none by (simp add: login_end_def)
next
  case (Some u)
  obtain j email ip where u: "u = (j, email, ip)" by (cases u) auto
  have "u \<in> set (under_way st) \<and> fst u = i" using Some by (auto simp: find_Some_iff in_set_conv_nth)
  then have "(j, email, ip) \<in> set (under_way st)" "j = i" using u by auto
  then show ?thesis using assms Some u success failure
    by (cases ok) (auto simp: login_end_def Let_def ClearSuccess_def RecordFailure_def)
qed

lemma key_start:
  assumes inv: "key_inv n M W (fmlookup m key) A f t" and "t \<le> now"
    and "\<not> locked_now now m email"
  shows "email = key \<Longrightarrow> key_inv n M W (fmlookup (purge now m email) key) A f' now"
    and "email \<noteq> key \<Longrightarrow> key_inv n M W (fmlookup (purge now m email) key) A f now"
  using key_inv_purge [OF assms(1,2), of f'] key_inv_later [OF assms(1,2) order_refl] assms(3) by (auto simp: purge_other)

lemma account_step:
  assumes inv: "key_inv 5 (4 + k) accountWindow (fmlookup (account (tracker st)) e) A (in_flight (\<lambda>email ip. email = e) st) t"
    and t: "t \<le> event_time ev" and e: "e \<noteq> []" and k: "in_flight (\<lambda>email ip. email = e) st \<le> k"
    and S: "login_step ev st = (st', r)" and ok: "r \<noteq> LoggedIn e"
  shows "key_inv 5 (4 + k) accountWindow (fmlookup (account (tracker st')) e)
    (A @ (case r of BadCredentials email ip \<Rightarrow> if email = e then [event_time ev] else [] | _ \<Rightarrow> []))
    (in_flight (\<lambda>email ip. email = e) st') (event_time ev)"
proof (cases ev)
  case (LoginStart now i email ip)
  with S t have S': "login_start now i email ip st = (st', r)" and t': "t \<le> now" by simp_all
  from S' show ?thesis
  proof (cases rule: start_cases)
    case account_locked
    then show ?thesis using key_inv_later [OF inv t' order_refl] LoginStart by simp
  next
    case address_locked
    then show ?thesis using key_start [OF inv t' address_locked(2)] LoginStart
      by (cases "email = e") (simp_all add: in_flight_def)
  next
    case admitted
    then show ?thesis using key_start [OF inv t' admitted(2)] LoginStart
      by (cases "email = e") (simp_all add: in_flight_def)
  qed
next
  case (LoginEnd now i b)
  with S t have S': "login_end now i b st = (st', r)" and t': "t \<le> now" by simp_all
  from S' show ?thesis
  proof (cases rule: end_cases)
    case none
    then show ?thesis using key_inv_later [OF inv t' order_refl] LoginEnd by simp
  next
    case (success j email ip)
    have "in_flight (\<lambda>email ip. email = e) st' \<le> in_flight (\<lambda>email ip. email = e) st"
      using filter_shrinks by (simp add: in_flight_def success)
    then show ?thesis using key_inv_later [OF inv t'] success ok LoginEnd by simp
  next
    case (failure j email ip)
    show ?thesis
    proof (cases "email = e")
      case False
      have "in_flight (\<lambda>email ip. email = e) st' \<le> in_flight (\<lambda>email ip. email = e) st"
        using filter_shrinks by (simp add: in_flight_def failure)
      then show ?thesis using key_inv_later [OF inv t'] failure False LoginEnd by (simp add: bump_other)
    next
      case True
      have less: "in_flight (\<lambda>email ip. email = e) st' < in_flight (\<lambda>email ip. email = e) st"
        unfolding in_flight_def failure(6) by (rule filter_drops [OF failure(1)]) (use True failure(2) in simp_all)
      have "key_inv 5 (4 + k) accountWindow (fmlookup (bump (account (tracker st)) e now (int 5) accountWindow) e) (A @ [now])
          (in_flight (\<lambda>email ip. email = e) st') now"
        by (rule key_inv_bump [OF inv t' _ limits(3) e less k]) simp_all
      then show ?thesis using failure True LoginEnd limits(1) by simp
    qed
  qed
qed

lemma address_step:
  assumes inv: "key_inv 20 (19 + k) ipWindow (fmlookup (ip_fails (tracker st)) a) A (in_flight (\<lambda>email ip. ip = a) st) t"
    and t: "t \<le> event_time ev" and a: "a \<noteq> []" and k: "in_flight (\<lambda>email ip. ip = a) st \<le> k"
    and S: "login_step ev st = (st', r)"
  shows "key_inv 20 (19 + k) ipWindow (fmlookup (ip_fails (tracker st')) a)
    (A @ (case r of BadCredentials email ip \<Rightarrow> if ip = a then [event_time ev] else [] | _ \<Rightarrow> []))
    (in_flight (\<lambda>email ip. ip = a) st') (event_time ev)"
proof (cases ev)
  case (LoginStart now i email ip)
  with S t have S': "login_start now i email ip st = (st', r)" and t': "t \<le> now" by simp_all
  from S' show ?thesis
  proof (cases rule: start_cases)
    case account_locked
    then show ?thesis using key_inv_later [OF inv t' order_refl] LoginStart by simp
  next
    case address_locked
    then show ?thesis using key_inv_later [OF inv t' order_refl] LoginStart by (simp add: in_flight_def)
  next
    case admitted
    then show ?thesis using key_start [OF inv t' admitted(3)] LoginStart
      by (cases "ip = a") (simp_all add: in_flight_def)
  qed
next
  case (LoginEnd now i b)
  with S t have S': "login_end now i b st = (st', r)" and t': "t \<le> now" by simp_all
  from S' show ?thesis
  proof (cases rule: end_cases)
    case none
    then show ?thesis using key_inv_later [OF inv t' order_refl] LoginEnd by simp
  next
    case (success j email ip)
    have "in_flight (\<lambda>email ip. ip = a) st' \<le> in_flight (\<lambda>email ip. ip = a) st"
      using filter_shrinks by (simp add: in_flight_def success)
    then show ?thesis using key_inv_later [OF inv t'] success LoginEnd by simp
  next
    case (failure j email ip)
    show ?thesis
    proof (cases "ip = a")
      case False
      have "in_flight (\<lambda>email ip. ip = a) st' \<le> in_flight (\<lambda>email ip. ip = a) st"
        using filter_shrinks by (simp add: in_flight_def failure)
      then show ?thesis using key_inv_later [OF inv t'] failure False LoginEnd by (simp add: bump_other)
    next
      case True
      have less: "in_flight (\<lambda>email ip. ip = a) st' < in_flight (\<lambda>email ip. ip = a) st"
        unfolding in_flight_def failure(6) by (rule filter_drops [OF failure(1)]) (use True failure(2) in simp_all)
      have "key_inv 20 (19 + k) ipWindow (fmlookup (bump (ip_fails (tracker st)) a now (int 20) ipWindow) a) (A @ [now])
          (in_flight (\<lambda>email ip. ip = a) st') now"
        by (rule key_inv_bump [OF inv t' _ limits(4) a less k]) simp_all
      then show ?thesis using failure True LoginEnd limits(2) by simp
    qed
  qed
qed

lemma account_run:
  "key_inv 5 (4 + k) accountWindow (fmlookup (account (tracker st)) e) A (in_flight (\<lambda>email ip. email = e) st) t \<Longrightarrow>
   sorted (t # map event_time es) \<Longrightarrow> e \<noteq> [] \<Longrightarrow> overlap_within k (\<lambda>email ip. email = e) st es \<Longrightarrow>
   LoggedIn e \<notin> set (login_results st es) \<Longrightarrow>
   in_span accountWindow T (A @ failed_at (\<lambda>email ip. email = e) st es) \<le> 2 * (4 + k)"
proof (induction es arbitrary: st A t)
  case Nil
  then show ?case by (simp add: key_inv_def)
next
  case (Cons ev es)
  obtain st' r where S: "login_step ev st = (st', r)" by fastforce
  have t: "t \<le> event_time ev" and k: "in_flight (\<lambda>email ip. email = e) st \<le> k" and r: "r \<noteq> LoggedIn e"
    and rest: "sorted (event_time ev # map event_time es)" "overlap_within k (\<lambda>email ip. email = e) st' es"
      "LoggedIn e \<notin> set (login_results st' es)"
    using Cons.prems S by auto
  from Cons.IH [OF account_step [OF Cons.prems(1) t Cons.prems(3) k S r] rest(1) Cons.prems(3) rest(2,3)]
  show ?case using S by simp
qed

lemma address_run:
  "key_inv 20 (19 + k) ipWindow (fmlookup (ip_fails (tracker st)) a) A (in_flight (\<lambda>email ip. ip = a) st) t \<Longrightarrow>
   sorted (t # map event_time es) \<Longrightarrow> a \<noteq> [] \<Longrightarrow> overlap_within k (\<lambda>email ip. ip = a) st es \<Longrightarrow>
   in_span ipWindow T (A @ failed_at (\<lambda>email ip. ip = a) st es) \<le> 2 * (19 + k)"
proof (induction es arbitrary: st A t)
  case Nil
  then show ?case by (simp add: key_inv_def)
next
  case (Cons ev es)
  obtain st' r where S: "login_step ev st = (st', r)" by fastforce
  have t: "t \<le> event_time ev" and k: "in_flight (\<lambda>email ip. ip = a) st \<le> k"
    and rest: "sorted (event_time ev # map event_time es)" "overlap_within k (\<lambda>email ip. ip = a) st' es"
    using Cons.prems S by auto
  from Cons.IH [OF address_step [OF Cons.prems(1) t Cons.prems(3) k S] rest(1) Cons.prems(3) rest(2)]
  show ?case using S by simp
qed

text \<open>
  An overlapping login can lift a lock: a failure after the window of the bucket has passed replaces the
  bucket, and with it a lock that still runs.  The fifth failure comes late in the window of the first; a
  login begun before it fails after the window, and the account is open again.
\<close>

lemma late_failure_lifts_lock:
  "let fail = (\<lambda>t i st. fst (login_end (t + 1) i False (fst (login_start t i ''e'' ''a'' st))));
       late = fst (login_start (14 * minute) 9 ''e'' ''b'' (fail (4 * minute) 4 (fail (3 * minute) 3
         (fail (2 * minute) 2 (fail minute 1 no_logins)))));
       locked = fail (15 * minute) 5 late;
       lifted = fst (login_end (16 * minute + 2) 9 False locked) in
   snd (login_start (16 * minute + 1) 6 ''e'' ''c'' locked) = LockedOut AccountLocked \<and>
   snd (login_start (16 * minute + 3) 6 ''e'' ''c'' lifted) = Verifying"
  by code_simp

text \<open>C7: password guessing through the REST handler is bounded, also by logins that overlap.  In every sequence
  of starts and ends of logins in time order, an address with at most \<open>k\<close> logins under way at once gets at most
  \<open>2 (19 + k)\<close> wrong guesses answered in any ten minutes, whatever accounts it tries; and an account that nobody
  logs in to meanwhile, with at most \<open>k\<close> logins under way at once, gets at most \<open>2 (4 + k)\<close> in any fifteen
  minutes, whatever addresses they come from.  (A login that succeeds sets the counter of its account back.)\<close>

theorem guessing_is_bounded:
  assumes "sorted (map event_time es)" and "a \<noteq> []" and "e \<noteq> []"
  shows "(overlap_within k (\<lambda>email ip. ip = a) no_logins es \<longrightarrow>
      in_span ipWindow T (failed_at (\<lambda>email ip. ip = a) no_logins es) \<le> 2 * (19 + k)) \<and>
    (overlap_within k (\<lambda>email ip. email = e) no_logins es \<and> LoggedIn e \<notin> set (login_results no_logins es) \<longrightarrow>
      in_span accountWindow T (failed_at (\<lambda>email ip. email = e) no_logins es) \<le> 2 * (4 + k))"
proof (cases es)
  case Nil
  then show ?thesis by (simp add: in_span_def)
next
  case (Cons x es')
  then have s: "sorted (event_time x # map event_time es)" using assms(1) by auto
  have a: "fmlookup (account (tracker no_logins)) e = None" "fmlookup (ip_fails (tracker no_logins)) a = None"
    by (simp_all add: no_logins_def NewLoginLockout_def)
  show ?thesis
    using address_run [where A = "[]", OF _ s assms(2), of k no_logins T]
      account_run [where A = "[]", OF _ s assms(3), of k no_logins T] key_inv_new a by auto
qed

definition demo_logins :: "login_event list" where
  "demo_logins = [LoginStart 1 1 ''e'' ''a'', LoginStart 2 2 ''e'' ''b'', LoginEnd 3 2 False, LoginEnd 4 1 False]"

lemma demo_logins_run:
  "failed_at (\<lambda>email ip. email = ''e'') no_logins demo_logins = [3, 4] \<and>
   overlap_within 2 (\<lambda>email ip. email = ''e'') no_logins demo_logins \<and>
   list_all (\<lambda>r. r \<noteq> LoggedIn ''e'') (login_results no_logins demo_logins)"
  by code_simp

theorem guessing_is_bounded_witness:
  "in_span accountWindow 0 (failed_at (\<lambda>email ip. email = ''e'') no_logins demo_logins) \<le> 12 \<and>
   failed_at (\<lambda>email ip. email = ''e'') no_logins demo_logins = [3, 4]"
proof -
  have "LoggedIn ''e'' \<notin> set (login_results no_logins demo_logins)"
    using demo_logins_run by (auto simp: list_all_iff)
  moreover have "sorted (map event_time demo_logins)" by (simp add: demo_logins_def)
  ultimately show ?thesis
    using guessing_is_bounded [of demo_logins "''a''" "''e''" 2 0] demo_logins_run by simp
qed

end
