(* ===== verification/Storage.thy ===== *)
theory Storage
  imports Paging Base64 "HOL-Library.Product_Lexorder"
begin

section \<open>The storage engine\<close>

text \<open>
  Models \<open>internal/storage/storage.go\<close> and \<open>internal/storage/storage_tx.go\<close>: objects keyed by collection,
  key and owner, written under optimistic version checks and permission checks, in one transaction per
  call.  The \<open>storage\<close> table is a finite map from its primary key to the row.  A call that fails rolls
  back, so it returns the table it was given.

  Parameters, gathered in \<open>storage_env\<close>: \<open>se_uuid\<close> is the database's reading of a text as a UUID (its
  canonical text), \<open>se_json\<close> its rendering of a text as JSON (\<open>None\<close> for a text that is not JSON),
  \<open>se_fits\<close> whether a new row meets the table's other constraints (column lengths, existing user),
  \<open>se_md5\<close> the hexadecimal MD5 of a text, \<open>se_now\<close> the transaction's time; \<open>genc\<close> and \<open>gdec\<close> are the gob
  encoding of a cursor.  Texts are compared bytewise (C collation).  The Bleve search index, which the
  code keeps for tests, and connection failures are not modelled.
\<close>

subsection \<open>Data\<close>

datatype storage_error =
    ErrStorageRejectedVersion | ErrStorageRejectedPermission | ErrStorageWriteExhaustedRetries
  | ErrListCursorInvalid | ErrStorageDatabase | ErrUpdateFn

record storage_object =
  SCollection :: string
  SKey :: string
  SUserID :: string
  SValue :: string
  SVersion :: string
  SRead :: int
  SWrite :: int
  SCreateTime :: gotime
  SUpdateTime :: gotime

record storage_ack =
  AckCollection :: string
  AckKey :: string
  AckUserID :: string
  AckVersion :: string
  AckCreateTime :: gotime
  AckUpdateTime :: gotime

record read_request =
  RqCollection :: string
  RqKey :: string
  RqUserID :: string

record delete_request =
  DqCollection :: string
  DqKey :: string
  DqUserID :: string
  DqVersion :: string

record storage_cursor =
  ScKey :: string
  ScUserID :: string
  ScRead :: int

type_synonym storage_key = "string \<times> string \<times> string"
type_synonym storage_table = "(storage_key, storage_object) fmap"

record storage_env =
  se_uuid :: "string \<Rightarrow> string option"
  se_json :: "string \<Rightarrow> string option"
  se_fits :: "storage_key \<Rightarrow> bool"
  se_md5 :: "string \<Rightarrow> string"
  se_now :: gotime

definition nil_uuid :: string where
  "nil_uuid = ''00000000-0000-0000-0000-000000000000''"

definition user_or_nil :: "string \<Rightarrow> string" where
  "user_or_nil u = (if u = [] then nil_uuid else u)"

definition CalculateVersion :: "storage_env \<Rightarrow> string \<Rightarrow> string" where
  "CalculateVersion env v = se_md5 env v"

subsection \<open>Writing\<close>

definition ack_of :: "storage_object \<Rightarrow> storage_object \<Rightarrow> storage_ack" where
  "ack_of obj row = \<lparr>AckCollection = SCollection obj, AckKey = SKey obj, AckUserID = SUserID obj,
     AckVersion = SVersion row, AckCreateTime = SCreateTime row, AckUpdateTime = SUpdateTime row\<rparr>"

text \<open>\<open>SET value = $4, version = $5, read = $6, write = $7, update_time = now()\<close>, and the inserted row.\<close>

definition updated_row :: "storage_env \<Rightarrow> storage_object \<Rightarrow> string \<Rightarrow> string \<Rightarrow> storage_object \<Rightarrow> storage_object" where
  "updated_row env obj val newVersion row =
     row\<lparr>SValue := val, SVersion := newVersion, SRead := SRead obj, SWrite := SWrite obj,
         SUpdateTime := se_now env\<rparr>"

definition inserted_row :: "storage_env \<Rightarrow> storage_object \<Rightarrow> string \<Rightarrow> string \<Rightarrow> string \<Rightarrow> storage_object" where
  "inserted_row env obj uid val newVersion =
     \<lparr>SCollection = SCollection obj, SKey = SKey obj, SUserID = uid, SValue = val, SVersion = newVersion,
      SRead = SRead obj, SWrite = SWrite obj, SCreateTime = se_now env, SUpdateTime = se_now env\<rparr>"

definition writeOne ::
  "storage_env \<Rightarrow> bool \<Rightarrow> storage_table \<Rightarrow> storage_object \<Rightarrow> string
   \<Rightarrow> storage_error + storage_table \<times> storage_ack" where
  "writeOne env authoritative tbl obj newVersion =
     (case (se_uuid env (SUserID obj), se_json env (SValue obj)) of
        (Some uid, Some val) \<Rightarrow>
          (let k = (SCollection obj, SKey obj, uid);
               store = (\<lambda>row. Inr (fmupd k row tbl, ack_of obj row));
               insert = (let row = inserted_row env obj uid val newVersion
                         in if se_fits env k then store row else Inl ErrStorageDatabase)
           in if SVersion obj \<noteq> [] \<and> SVersion obj \<noteq> ''*''
              then (case fmlookup tbl k of
                      None \<Rightarrow> Inl ErrStorageRejectedVersion
                    | Some row \<Rightarrow>
                        if SVersion row = SVersion obj \<and> (authoritative \<or> SWrite row = 1)
                        then store (updated_row env obj val newVersion row)
                        else if \<not> authoritative \<and> SWrite row \<noteq> 1 then Inl ErrStorageRejectedPermission
                        else Inl ErrStorageRejectedVersion)
              else if SVersion obj = ''*''
              then (case fmlookup tbl k of
                      None \<Rightarrow> insert
                    | Some _ \<Rightarrow> Inl ErrStorageRejectedVersion)
              else (case fmlookup tbl k of
                      None \<Rightarrow> insert
                    | Some row \<Rightarrow>
                        if (authoritative \<or> SWrite row = 1) \<and>
                           \<not> (SVersion row = newVersion \<and> SRead row = SRead obj \<and> SWrite row = SWrite obj)
                        then store (updated_row env obj val newVersion row)
                        else if \<not> authoritative \<and> SWrite row \<noteq> 1 then Inl ErrStorageRejectedPermission
                        else Inr (tbl, ack_of obj row)))
      | _ \<Rightarrow> Inl ErrStorageDatabase)"

definition normalize_object :: "storage_object \<Rightarrow> storage_object" where
  "normalize_object obj =
     obj\<lparr>SUserID := user_or_nil (SUserID obj), SRead := (if SRead obj < 0 then 1 else SRead obj),
         SWrite := (if SWrite obj < 0 then 1 else SWrite obj)\<rparr>"

definition object_order :: "storage_object \<Rightarrow> storage_key" where
  "object_order obj = (SCollection obj, SKey obj, SUserID obj)"

fun write_ops ::
  "storage_env \<Rightarrow> bool \<Rightarrow> storage_table \<Rightarrow> (nat \<times> storage_object) list
   \<Rightarrow> storage_error + storage_table \<times> (nat \<times> storage_ack) list" where
  "write_ops env authoritative tbl [] = Inr (tbl, [])"
| "write_ops env authoritative tbl ((i, o0) # ops) =
     (let obj = normalize_object o0
      in case writeOne env authoritative tbl obj (CalculateVersion env (SValue obj)) of
           Inl e \<Rightarrow> Inl e
         | Inr (tbl', ack) \<Rightarrow>
             (case write_ops env authoritative tbl' ops of
                Inl e \<Rightarrow> Inl e
              | Inr (tbl'', acks) \<Rightarrow> Inr (tbl'', (i, ack) # acks)))"

definition sorted_ops :: "storage_object list \<Rightarrow> (nat \<times> storage_object) list" where
  "sorted_ops objects = sort_key (object_order \<circ> snd) (enumerate 0 objects)"

definition WriteStorageObjectsTx ::
  "storage_env \<Rightarrow> bool \<Rightarrow> storage_table \<Rightarrow> storage_object list
   \<Rightarrow> storage_error + storage_table \<times> storage_ack list" where
  "WriteStorageObjectsTx env authoritative tbl objects =
     (if objects = [] then Inr (tbl, [])
      else case write_ops env authoritative tbl (sorted_ops objects) of
             Inl e \<Rightarrow> Inl e
           | Inr (tbl', acks) \<Rightarrow> Inr (tbl', map snd (sort_key fst acks)))"

definition WriteStorageObjects ::
  "storage_env \<Rightarrow> bool \<Rightarrow> storage_table \<Rightarrow> storage_object list
   \<Rightarrow> storage_table \<times> (storage_error + storage_ack list)" where
  "WriteStorageObjects env authoritative tbl objects =
     (if objects = [] then (tbl, Inr [])
      else case write_ops env authoritative tbl (sorted_ops objects) of
             Inl e \<Rightarrow> (tbl, Inl e)
           | Inr (tbl', acks) \<Rightarrow> (tbl', Inr (map snd (sort_key fst acks))))"

subsection \<open>Reading\<close>

text \<open>\<open>caller = None\<close> is the nil UUID: the server itself, which is not filtered.\<close>

definition readable :: "string option \<Rightarrow> storage_object \<Rightarrow> bool" where
  "readable caller row \<longleftrightarrow>
     (case caller of None \<Rightarrow> True | Some c \<Rightarrow> SRead row = 2 \<or> SRead row = 1 \<and> SUserID row = c)"

fun ReadStorageObjects ::
  "storage_env \<Rightarrow> string option \<Rightarrow> storage_table \<Rightarrow> read_request list
   \<Rightarrow> storage_error + storage_object list" where
  "ReadStorageObjects env caller tbl [] = Inr []"
| "ReadStorageObjects env caller tbl (req # reqs) =
     (case se_uuid env (user_or_nil (RqUserID req)) of
        None \<Rightarrow> Inl ErrStorageDatabase
      | Some uid \<Rightarrow>
          (case ReadStorageObjects env caller tbl reqs of
             Inl e \<Rightarrow> Inl e
           | Inr objs \<Rightarrow>
               (case fmlookup tbl (RqCollection req, RqKey req, uid) of
                  Some row \<Rightarrow> if readable caller row then Inr (row # objs) else Inr objs
                | None \<Rightarrow> Inr objs)))"

subsection \<open>Deleting\<close>

definition request_order :: "delete_request \<Rightarrow> storage_key" where
  "request_order req = (DqCollection req, DqKey req, DqUserID req)"

definition deletable :: "bool \<Rightarrow> delete_request \<Rightarrow> storage_object \<Rightarrow> bool" where
  "deletable authoritative req row \<longleftrightarrow>
     (authoritative \<or> SWrite row > 0) \<and> (DqVersion req \<noteq> [] \<longrightarrow> SVersion row = DqVersion req)"

fun delete_ops ::
  "storage_env \<Rightarrow> bool \<Rightarrow> storage_table \<Rightarrow> delete_request list \<Rightarrow> storage_error + storage_table" where
  "delete_ops env authoritative tbl [] = Inr tbl"
| "delete_ops env authoritative tbl (req # reqs) =
     (case se_uuid env (user_or_nil (DqUserID req)) of
        None \<Rightarrow> Inl ErrStorageDatabase
      | Some uid \<Rightarrow>
          (let k = (DqCollection req, DqKey req, uid);
               missed = (if authoritative \<and> DqVersion req = []
                         then delete_ops env authoritative tbl reqs else Inl ErrStorageRejectedVersion)
           in case fmlookup tbl k of
                None \<Rightarrow> missed
              | Some row \<Rightarrow>
                  if deletable authoritative req row then delete_ops env authoritative (fmdrop k tbl) reqs
                  else missed))"

definition DeleteStorageObjectsTx ::
  "storage_env \<Rightarrow> bool \<Rightarrow> storage_table \<Rightarrow> delete_request list \<Rightarrow> storage_error + storage_table" where
  "DeleteStorageObjectsTx env authoritative tbl reqs =
     (if reqs = [] then Inr tbl else delete_ops env authoritative tbl (sort_key request_order reqs))"

definition DeleteStorageObjects ::
  "storage_env \<Rightarrow> bool \<Rightarrow> storage_table \<Rightarrow> delete_request list \<Rightarrow> storage_table \<times> (storage_error + unit)" where
  "DeleteStorageObjects env authoritative tbl reqs =
     (if reqs = [] then (tbl, Inr ())
      else case delete_ops env authoritative tbl (sort_key request_order reqs) of
             Inl e \<Rightarrow> (tbl, Inl e)
           | Inr tbl' \<Rightarrow> (tbl', Inr ()))"

subsection \<open>Listing\<close>

definition encodeStorageCursor :: "(storage_cursor \<Rightarrow> nat list) \<Rightarrow> storage_cursor option \<Rightarrow> string" where
  "encodeStorageCursor genc c = (case c of None \<Rightarrow> [] | Some sc \<Rightarrow> raw_url_encode (genc sc))"

definition decodeStorageCursor ::
  "(nat list \<Rightarrow> storage_cursor option) \<Rightarrow> string \<Rightarrow> storage_error + storage_cursor option" where
  "decodeStorageCursor gdec cursor =
     (if cursor = [] then Inr None
      else case (case raw_url_decode cursor of Some b \<Rightarrow> Some b | None \<Rightarrow> url_decode cursor) of
             None \<Rightarrow> Inl ErrListCursorInvalid
           | Some b \<Rightarrow> (case gdec b of None \<Rightarrow> Inl ErrListCursorInvalid | Some sc \<Rightarrow> Inr (Some sc)))"

definition table_rows :: "storage_table \<Rightarrow> storage_object list" where
  "table_rows tbl = map (\<lambda>k. the (fmlookup tbl k)) (sorted_list_of_fset (fmdom tbl))"

definition listAll ::
  "storage_table \<Rightarrow> bool \<Rightarrow> string \<Rightarrow> nat \<Rightarrow> storage_cursor option \<Rightarrow> storage_object list" where
  "listAll tbl authoritative collection n sc =
     (let rows = filter (\<lambda>r. SCollection r = collection) (table_rows tbl)
      in if authoritative
         then (let key = (\<lambda>r. (SRead r, SKey r, SUserID r));
                   hits = (case sc of None \<Rightarrow> rows
                           | Some c \<Rightarrow> filter (\<lambda>r. (ScRead c, ScKey c, ScUserID c) < key r) rows)
               in take n (sort_key key hits))
         else (let key = (\<lambda>r. (SKey r, SUserID r));
                   public = filter (\<lambda>r. SRead r = 2) rows;
                   hits = (case sc of None \<Rightarrow> public
                           | Some c \<Rightarrow> filter (\<lambda>r. (ScKey c, ScUserID c) < key r) public)
               in take n (sort_key key hits)))"

definition listUser ::
  "storage_table \<Rightarrow> bool \<Rightarrow> string \<Rightarrow> string \<Rightarrow> nat \<Rightarrow> storage_cursor option \<Rightarrow> storage_object list" where
  "listUser tbl authoritative owner collection n sc =
     (let rows = filter (\<lambda>r. SCollection r = collection \<and> SUserID r = owner) (table_rows tbl);
          mine = (if authoritative then rows else filter (\<lambda>r. SRead r \<ge> 1) rows);
          key = (\<lambda>r. (SRead r, SKey r));
          hits = (case sc of None \<Rightarrow> mine | Some c \<Rightarrow> filter (\<lambda>r. (ScRead c, ScKey c) < key r) mine)
      in take n (sort_key key hits))"

definition listPublicUser ::
  "storage_table \<Rightarrow> string \<Rightarrow> string \<Rightarrow> nat \<Rightarrow> storage_cursor option \<Rightarrow> storage_object list" where
  "listPublicUser tbl owner collection n sc =
     (let rows = filter (\<lambda>r. SCollection r = collection \<and> SUserID r = owner \<and> SRead r = 2) (table_rows tbl);
          hits = (case sc of None \<Rightarrow> rows | Some c \<Rightarrow> filter (\<lambda>r. ScKey c < SKey r) rows)
      in take n (sort_key SKey hits))"

definition list_limit :: "int \<Rightarrow> nat" where
  "list_limit limit = nat (let l = (if limit \<le> 0 then 1 else limit) in if l > 100 then 100 else l)"

definition row_cursor :: "storage_env \<Rightarrow> storage_object \<Rightarrow> storage_cursor" where
  "row_cursor env r = \<lparr>ScKey = SKey r,
     ScUserID = (case se_uuid env (SUserID r) of None \<Rightarrow> nil_uuid | Some u \<Rightarrow> u), ScRead = SRead r\<rparr>"

definition list_rows ::
  "storage_table \<Rightarrow> string option \<Rightarrow> string option \<Rightarrow> string \<Rightarrow> nat \<Rightarrow> storage_cursor option
   \<Rightarrow> storage_object list" where
  "list_rows tbl caller owner collection n sc =
     (case (caller, owner) of
        (None, None) \<Rightarrow> listAll tbl True collection n sc
      | (None, Some o1) \<Rightarrow> listUser tbl True o1 collection n sc
      | (Some c, None) \<Rightarrow> listAll tbl False collection n sc
      | (Some c, Some o1) \<Rightarrow>
          if o1 = c then listUser tbl False o1 collection n sc
          else listPublicUser tbl o1 collection n sc)"

definition ListStorageObjects ::
  "storage_env \<Rightarrow> (storage_cursor \<Rightarrow> nat list) \<Rightarrow> (nat list \<Rightarrow> storage_cursor option) \<Rightarrow> storage_table
   \<Rightarrow> string option \<Rightarrow> string option \<Rightarrow> string \<Rightarrow> int \<Rightarrow> string
   \<Rightarrow> storage_error + storage_object list \<times> string" where
  "ListStorageObjects env genc gdec tbl caller owner collection limit cursor =
     (let n = list_limit limit
      in case decodeStorageCursor gdec cursor of
           Inl e \<Rightarrow> Inl e
         | Inr sc \<Rightarrow>
             (let objects = list_rows tbl caller owner collection (n + 1) sc
              in if length objects > n
                 then (let page = take n objects
                       in Inr (page, encodeStorageCursor genc (Some (row_cursor env (last page)))))
                 else Inr (objects, [])))"

subsection \<open>Read, modify, write\<close>

text \<open>
  \<open>WriteStorageObjectsRetry\<close>: what other sessions commit between the read and the write of attempt \<open>i\<close> is
  the function \<open>others i\<close> on the table.
\<close>

fun retry_loop ::
  "storage_env \<Rightarrow> read_request list \<Rightarrow> (storage_object list \<Rightarrow> storage_object list option)
   \<Rightarrow> (nat \<Rightarrow> storage_table \<Rightarrow> storage_table) \<Rightarrow> nat \<Rightarrow> nat \<Rightarrow> storage_table
   \<Rightarrow> storage_table \<times> (storage_error + storage_ack list)" where
  "retry_loop env reqs updateFn others attempt left tbl =
     (case ReadStorageObjects env None tbl reqs of
        Inl e \<Rightarrow> (tbl, Inl e)
      | Inr objs \<Rightarrow>
          (case updateFn objs of
             None \<Rightarrow> (tbl, Inl ErrUpdateFn)
           | Some writes \<Rightarrow>
               (case WriteStorageObjects env True (others attempt tbl) writes of
                  (tbl', Inr acks) \<Rightarrow> (tbl', Inr acks)
                | (tbl', Inl e) \<Rightarrow>
                    (case left of
                       0 \<Rightarrow> (tbl', Inl e)
                     | Suc left' \<Rightarrow>
                         if e = ErrStorageRejectedVersion
                         then retry_loop env reqs updateFn others (Suc attempt) left' tbl'
                         else (tbl', Inl e)))))"

definition WriteStorageObjectsRetry ::
  "storage_env \<Rightarrow> read_request list \<Rightarrow> (storage_object list \<Rightarrow> storage_object list option)
   \<Rightarrow> (nat \<Rightarrow> storage_table \<Rightarrow> storage_table) \<Rightarrow> int \<Rightarrow> storage_table
   \<Rightarrow> storage_table \<times> (storage_error + storage_ack list)" where
  "WriteStorageObjectsRetry env reqs updateFn others maxRetries tbl =
     (let m = (if maxRetries < 0 then 0 else maxRetries);
          m' = (if m > 10 then 10 else m)
      in retry_loop env reqs updateFn others 0 (nat m') tbl)"

end
