(* ===== verification/Storage_Props.thy ===== *)
theory Storage_Props
  imports Storage "HOL-Library.Multiset"
begin

section \<open>Storage: properties\<close>

text \<open>
  A batch of writes acts on each object as if it were alone, all or nothing; clients cannot change
  protected rows; following list cursors returns exactly the rows the caller may see.
\<close>

subsection \<open>One write, row by row\<close>

text \<open>What a write makes of the row at its key: the specification the SQL of each branch meets.\<close>

definition row_outcome ::
  "storage_env \<Rightarrow> bool \<Rightarrow> storage_object \<Rightarrow> string \<Rightarrow> string \<Rightarrow> storage_object option
   \<Rightarrow> storage_error + storage_object" where
  "row_outcome env auth obj uid val old =
     (let nv = CalculateVersion env (SValue obj);
          refused = (\<lambda>row. \<not> auth \<and> SWrite row \<noteq> 1)
      in case old of
           None \<Rightarrow>
             if SVersion obj \<noteq> [] \<and> SVersion obj \<noteq> ''*'' then Inl ErrStorageRejectedVersion
             else if se_fits env (SCollection obj, SKey obj, uid) then Inr (inserted_row env obj uid val nv)
             else Inl ErrStorageDatabase
         | Some row \<Rightarrow>
             if SVersion obj = ''*'' then Inl ErrStorageRejectedVersion
             else if refused row then Inl ErrStorageRejectedPermission
             else if SVersion obj \<noteq> [] \<and> SVersion obj \<noteq> SVersion row then Inl ErrStorageRejectedVersion
             else if SVersion obj = [] \<and> SVersion row = nv \<and> SRead row = SRead obj \<and> SWrite row = SWrite obj
             then Inr row
             else Inr (updated_row env obj val nv row))"

definition obj_key :: "storage_env \<Rightarrow> storage_object \<Rightarrow> storage_key option" where
  "obj_key env obj = map_option (\<lambda>uid. (SCollection obj, SKey obj, uid)) (se_uuid env (SUserID obj))"

definition write_outcome ::
  "storage_env \<Rightarrow> bool \<Rightarrow> storage_table \<Rightarrow> storage_object \<Rightarrow> storage_error + storage_key \<times> storage_object" where
  "write_outcome env auth tbl obj =
     (case (se_uuid env (SUserID obj), se_json env (SValue obj)) of
        (Some uid, Some val) \<Rightarrow>
          (let k = (SCollection obj, SKey obj, uid)
           in case row_outcome env auth obj uid val (fmlookup tbl k) of
                Inl e \<Rightarrow> Inl e | Inr row \<Rightarrow> Inr (k, row))
      | _ \<Rightarrow> Inl ErrStorageDatabase)"

lemma fmupd_same: "fmlookup m k = Some v \<Longrightarrow> fmupd k v m = m"
  by (rule fmap_ext) auto

lemma writeOne_outcome:
  "writeOne env auth tbl obj (CalculateVersion env (SValue obj)) =
     (case write_outcome env auth tbl obj of
        Inl e \<Rightarrow> Inl e | Inr (k, row) \<Rightarrow> Inr (fmupd k row tbl, ack_of obj row))"
proof (cases "se_uuid env (SUserID obj)")
  case None
  then show ?thesis by (simp add: writeOne_def write_outcome_def)
next
  case (Some uid)
  note uid = this
  show ?thesis
  proof (cases "se_json env (SValue obj)")
    case None
    then show ?thesis by (simp add: writeOne_def write_outcome_def uid)
  next
    case (Some val)
    let ?k = "(SCollection obj, SKey obj, uid)"
    show ?thesis
    proof (cases "fmlookup tbl ?k")
      case None
      with uid Some show ?thesis
        by (auto simp: writeOne_def write_outcome_def row_outcome_def Let_def)
    next
      case row: (Some row)
      with uid Some show ?thesis
        by (auto simp: writeOne_def write_outcome_def row_outcome_def Let_def fmupd_same)
    qed
  qed
qed

lemma write_outcome_key: "write_outcome env auth tbl obj = Inr (k, row) \<Longrightarrow> obj_key env obj = Some k"
  by (auto simp: write_outcome_def obj_key_def Let_def split: option.splits sum.splits)

lemma write_outcome_cong:
  assumes "\<And>k. obj_key env obj = Some k \<Longrightarrow> fmlookup tbl k = fmlookup tbl' k"
  shows "write_outcome env auth tbl obj = write_outcome env auth tbl' obj"
proof (cases "se_uuid env (SUserID obj)")
  case (Some uid)
  then have "fmlookup tbl (SCollection obj, SKey obj, uid) = fmlookup tbl' (SCollection obj, SKey obj, uid)"
    using assms by (simp add: obj_key_def)
  with Some show ?thesis by (simp add: write_outcome_def Let_def split: option.split)
qed (simp add: write_outcome_def)

lemma write_ops_Cons:
  "write_ops env auth tbl ((i, o0) # ops) =
     (case write_outcome env auth tbl (normalize_object o0) of
        Inl e \<Rightarrow> Inl e
      | Inr (k, row) \<Rightarrow>
          (case write_ops env auth (fmupd k row tbl) ops of
             Inl e \<Rightarrow> Inl e
           | Inr (tbl', acks) \<Rightarrow> Inr (tbl', (i, ack_of (normalize_object o0) row) # acks)))"
  by (simp add: Let_def writeOne_outcome split: sum.split prod.split)

declare write_ops.simps(2) [simp del]

subsection \<open>A batch of writes\<close>

text \<open>The row of the object has the outcome it has alone, and it is acknowledged.\<close>

definition op_done ::
  "storage_env \<Rightarrow> bool \<Rightarrow> storage_table \<Rightarrow> storage_table \<Rightarrow> (nat \<times> storage_ack) list \<Rightarrow> nat \<Rightarrow> storage_object \<Rightarrow> bool" where
  "op_done env auth tbl tbl' acks i obj \<longleftrightarrow>
     (\<exists>k row. write_outcome env auth tbl obj = Inr (k, row) \<and> fmlookup tbl' k = Some row \<and>
        (i, ack_of obj row) \<in> set acks)"

lemma write_ops_outcome:
  assumes "distinct (map (\<lambda>(i, o0). obj_key env (normalize_object o0)) ops)"
  shows "case write_ops env auth tbl ops of
      Inl e \<Rightarrow> \<exists>(i, o0) \<in> set ops. write_outcome env auth tbl (normalize_object o0) = Inl e
    | Inr (tbl', acks) \<Rightarrow>
        map fst acks = map fst ops \<and>
        (\<forall>(i, o0) \<in> set ops. op_done env auth tbl tbl' acks i (normalize_object o0)) \<and>
        (\<forall>k. Some k \<notin> (\<lambda>(i, o0). obj_key env (normalize_object o0)) ` set ops \<longrightarrow>
           fmlookup tbl' k = fmlookup tbl k)"
  using assms
proof (induction ops arbitrary: tbl)
  case (Cons x ops)
  obtain i o0 where x: "x = (i, o0)" by (cases x)
  show ?case
  proof (cases "write_outcome env auth tbl (normalize_object o0)")
    case (Inl e)
    then show ?thesis by (simp add: x write_ops_Cons)
  next
    case (Inr kr)
    then obtain k row where o: "write_outcome env auth tbl (normalize_object o0) = Inr (k, row)" by (cases kr) auto
    note key = write_outcome_key [OF o]
    let ?t = "fmupd k row tbl"
    have same: "write_outcome env auth ?t (normalize_object o1) = write_outcome env auth tbl (normalize_object o1)"
      if "(j, o1) \<in> set ops" for j o1
    proof (rule write_outcome_cong)
      fix k' assume "obj_key env (normalize_object o1) = Some k'"
      moreover have "obj_key env (normalize_object o1) \<noteq> obj_key env (normalize_object o0)"
        using Cons.prems that by (force simp: x)
      ultimately show "fmlookup ?t k' = fmlookup tbl k'" using key by auto
    qed
    have notin: "Some k \<notin> (\<lambda>(i, o0). obj_key env (normalize_object o0)) ` set ops"
      using Cons.prems key by (auto simp: x)
    have IH: "case write_ops env auth ?t ops of
      Inl e \<Rightarrow> \<exists>(i, o0) \<in> set ops. write_outcome env auth ?t (normalize_object o0) = Inl e
    | Inr (tbl', acks) \<Rightarrow>
        map fst acks = map fst ops \<and>
        (\<forall>(i, o0) \<in> set ops. op_done env auth ?t tbl' acks i (normalize_object o0)) \<and>
        (\<forall>k. Some k \<notin> (\<lambda>(i, o0). obj_key env (normalize_object o0)) ` set ops \<longrightarrow>
           fmlookup tbl' k = fmlookup ?t k)"
      by (rule Cons.IH) (use Cons.prems in simp)
    show ?thesis
    proof (cases "write_ops env auth ?t ops")
      case (Inl e)
      with IH obtain j o1 where j: "(j, o1) \<in> set ops" "write_outcome env auth ?t (normalize_object o1) = Inl e"
        by auto
      then have "write_outcome env auth tbl (normalize_object o1) = Inl e" using same by simp
      with j(1) show ?thesis using Inl o by (auto simp: x write_ops_Cons)
    next
      case (Inr r)
      obtain tbl' acks where r: "r = (tbl', acks)" by (cases r)
      have I: "map fst acks = map fst ops"
        "\<And>i o0. (i, o0) \<in> set ops \<Longrightarrow> op_done env auth ?t tbl' acks i (normalize_object o0)"
        "\<And>k. Some k \<notin> (\<lambda>(i, o0). obj_key env (normalize_object o0)) ` set ops \<Longrightarrow>
           fmlookup tbl' k = fmlookup ?t k"
        using IH Inr r by auto
      let ?acks = "(i, ack_of (normalize_object o0) row) # acks"
      have rest: "op_done env auth tbl tbl' ?acks j (normalize_object o1)" if "(j, o1) \<in> set ops" for j o1
        using I(2) [OF that] unfolding op_done_def same [OF that] list.set by blast
      have "fmlookup tbl' k = Some row" using I(3) [OF notin] by simp
      then have here: "op_done env auth tbl tbl' ?acks i (normalize_object o0)"
        using o by (auto simp: op_done_def)
      have other: "fmlookup tbl' k' = fmlookup tbl k'"
        if "Some k' \<notin> (\<lambda>(i, o0). obj_key env (normalize_object o0)) ` set (x # ops)" for k'
        using I(3) [of k'] that key by (auto simp: x)
      have "write_ops env auth tbl (x # ops) = Inr (tbl', ?acks)"
        using o Inr r by (simp add: x write_ops_Cons)
      then show ?thesis using I(1) rest here other by (auto simp: x)
    qed
  qed
qed simp

text \<open>The acknowledgements come back in the order of the request.\<close>

lemma sort_indices:
  assumes "distinct (map fst acks)" "set (map fst acks) = {0..<n}" "i < n" "(i, a) \<in> set acks"
  shows "length acks = n \<and> map snd (sort_key fst acks) ! i = a"
proof -
  let ?s = "sort_key fst acks"
  have "sorted (map fst ?s)" "distinct (map fst ?s)" "set (map fst ?s) = {0..<n}"
    using assms(1,2) by (simp_all add: distinct_map)
  then have idx: "map fst ?s = [0..<n]"
    using sorted_distinct_set_unique [of "map fst ?s" "[0..<n]"] by simp
  then have len: "length ?s = n" by (metis length_map length_upt diff_zero)
  then have "fst (?s ! i) = i" using idx assms(3) by (metis add_0 length_map nth_map nth_upt)
  moreover have "?s ! i \<in> set acks" using len assms(3) nth_mem [of i ?s] by simp
  moreover have "inj_on fst (set acks)" using assms(1) by (simp add: distinct_map)
  ultimately have "?s ! i = (i, a)" using assms(4) by (metis fst_conv inj_onD)
  then show ?thesis using len assms(3) by simp
qed

lemma sorted_ops_props:
  "set (sorted_ops objects) = set (enumerate 0 objects)"
  "set (map fst (sorted_ops objects)) = {0..<length objects}"
  "distinct (map fst (sorted_ops objects))"
  "distinct (map f objects) \<Longrightarrow> distinct (map (\<lambda>(i, o0). f o0) (sorted_ops objects))"
proof -
  have m: "mset (sorted_ops objects) = mset (enumerate 0 objects)" by (simp add: sorted_ops_def)
  show s: "set (sorted_ops objects) = set (enumerate 0 objects)" by (simp add: sorted_ops_def)
  have "set (map fst (sorted_ops objects)) = set (map fst (enumerate 0 objects))" by (simp only: set_map s)
  also have "\<dots> = {0..<length objects}" by (simp only: map_fst_enumerate) simp
  finally show "set (map fst (sorted_ops objects)) = {0..<length objects}" .
  have "mset (map fst (sorted_ops objects)) = mset (map fst (enumerate 0 objects))" by (simp only: mset_map m)
  then show "distinct (map fst (sorted_ops objects))"
    by (metis distinct_upt map_fst_enumerate mset_eq_imp_distinct_iff)
  assume d: "distinct (map f objects)"
  have "map (\<lambda>(i, o0). f o0) (enumerate 0 objects) = map f (map snd (enumerate 0 objects))"
    unfolding map_map by (rule map_cong) auto
  also have "\<dots> = map f objects" by simp
  finally have "mset (map (\<lambda>(i, o0). f o0) (sorted_ops objects)) = mset (map f objects)"
    using m by (metis mset_map)
  with d show "distinct (map (\<lambda>(i, o0). f o0) (sorted_ops objects))" by (metis mset_eq_imp_distinct_iff)
qed

text \<open>C3: a batch of storage writes acts on each object as if it were the only one, and on all or none.  When
  the objects have distinct keys, WriteStorageObjects either leaves the table as it was, and one object
  fails on its own with the reported error; or it succeeds, and then the row of every object is what a
  write of that object alone makes of it (version check, client permission, unchanged rows left alone),
  the acknowledgements come in request order with the version now stored, and no other row changes.\<close>

theorem batch_write_exact:
  assumes "distinct (map (\<lambda>o0. obj_key env (normalize_object o0)) objects)"
    and "WriteStorageObjects env auth tbl objects = (tbl', res)"
  shows "case res of
      Inl e \<Rightarrow> tbl' = tbl \<and> (\<exists>o0 \<in> set objects. write_outcome env auth tbl (normalize_object o0) = Inl e)
    | Inr acks \<Rightarrow> length acks = length objects \<and>
        (\<forall>i < length objects. \<exists>k row.
           write_outcome env auth tbl (normalize_object (objects ! i)) = Inr (k, row) \<and>
           fmlookup tbl' k = Some row \<and> acks ! i = ack_of (normalize_object (objects ! i)) row) \<and>
        (\<forall>k. Some k \<notin> (\<lambda>o0. obj_key env (normalize_object o0)) ` set objects \<longrightarrow>
           fmlookup tbl' k = fmlookup tbl k)"
proof (cases "objects = []")
  case True
  with assms(2) show ?thesis by (auto simp: WriteStorageObjects_def)
next
  case False
  let ?ops = "sorted_ops objects"
  have set_ops: "(\<lambda>(i, o0). f o0) ` set ?ops = f ` set objects" for f :: "storage_object \<Rightarrow> 'b"
  proof -
    have "(\<lambda>(i, o0). f o0) ` set ?ops = f ` snd ` set (enumerate 0 objects)"
      unfolding sorted_ops_props(1) image_image by (rule image_cong) auto
    also have "snd ` set (enumerate 0 objects) = set objects" by (metis map_snd_enumerate set_map)
    finally show ?thesis .
  qed
  note W = write_ops_outcome [OF sorted_ops_props(4) [OF assms(1)], where auth = auth and tbl = tbl]
  show ?thesis
  proof (cases "write_ops env auth tbl ?ops")
    case (Inl e)
    then obtain i o0 where "(i, o0) \<in> set ?ops" "write_outcome env auth tbl (normalize_object o0) = Inl e"
      using W by auto
    moreover from this have "o0 \<in> set objects" using set_ops [of "\<lambda>x. x"] by force
    ultimately show ?thesis using assms(2) False Inl by (auto simp: WriteStorageObjects_def)
  next
    case (Inr r)
    obtain t acks where r: "r = (t, acks)" by (cases r)
    have R: "tbl' = t" "res = Inr (map snd (sort_key fst acks))"
      using assms(2) False Inr r by (simp_all add: WriteStorageObjects_def)
    have fst: "map fst acks = map fst ?ops" and keep: "\<And>k. Some k \<notin> (\<lambda>o0. obj_key env (normalize_object o0)) ` set objects \<Longrightarrow> fmlookup t k = fmlookup tbl k"
      using W Inr r by (auto simp: set_ops)
    have d: "distinct (map fst acks)" "set (map fst acks) = {0..<length objects}"
      unfolding fst by (rule sorted_ops_props)+
    have "\<exists>k row. write_outcome env auth tbl (normalize_object (objects ! i)) = Inr (k, row) \<and>
           fmlookup t k = Some row \<and>
           map snd (sort_key fst acks) ! i = ack_of (normalize_object (objects ! i)) row"
      if i: "i < length objects" for i
    proof -
      have "(i, objects ! i) \<in> set ?ops"
        using i by (simp add: sorted_ops_props(1) in_set_enumerate_eq)
      then have "op_done env auth tbl t acks i (normalize_object (objects ! i))"
        using W Inr r by auto
      then obtain k row where "write_outcome env auth tbl (normalize_object (objects ! i)) = Inr (k, row)"
        "fmlookup t k = Some row" "(i, ack_of (normalize_object (objects ! i)) row) \<in> set acks"
        unfolding op_done_def by blast
      with sort_indices [OF d i] show ?thesis by blast
    qed
    moreover have "length acks = length objects"
      using d(1) d(2) by (metis card_atLeastLessThan diff_zero distinct_card length_map)
    ultimately show ?thesis using R keep by simp
  qed
qed

definition one_env :: storage_env where
  "one_env = \<lparr>se_uuid = Some, se_json = Some, se_fits = (\<lambda>_. True), se_md5 = (\<lambda>v. CHR ''h'' # v), se_now = 7\<rparr>"

definition one_obj :: "string \<Rightarrow> int \<Rightarrow> storage_object" where
  "one_obj ver wr = \<lparr>SCollection = ''c'', SKey = ''k'', SUserID = ''u'', SValue = ''1'', SVersion = ver,
     SRead = 1, SWrite = wr, SCreateTime = 0, SUpdateTime = 0\<rparr>"

theorem batch_write_exact_witness:
  "fmlookup (fst (WriteStorageObjects one_env False (fmupd (''c'', ''k'', ''u'') (one_obj ''v'' 1) fmempty)
      [one_obj ''v'' 1])) (''c'', ''k'', ''u'') = Some ((one_obj ''h1'' 1)\<lparr>SUpdateTime := 7\<rparr>)"
proof -
  let ?t = "fmupd (''c'', ''k'', ''u'') (one_obj ''v'' 1) fmempty"
  obtain t' res where W: "WriteStorageObjects one_env False ?t [one_obj ''v'' 1] = (t', res)" by fastforce
  have o: "write_outcome one_env False ?t (normalize_object (one_obj ''v'' 1)) =
      Inr ((''c'', ''k'', ''u''), (one_obj ''h1'' 1)\<lparr>SUpdateTime := 7\<rparr>)"
    by (simp add: write_outcome_def row_outcome_def one_env_def one_obj_def normalize_object_def user_or_nil_def
        CalculateVersion_def updated_row_def Let_def)
  have "distinct (map (\<lambda>o0. obj_key one_env (normalize_object o0)) [one_obj ''v'' 1])" by simp
  from batch_write_exact [OF this W] o W show ?thesis by (cases res) auto
qed

subsection \<open>Protected rows\<close>

lemma outcome_protected:
  assumes "fmlookup tbl k = Some row" "SWrite row \<noteq> 1" "write_outcome env False tbl obj = Inr (k', row')"
  shows "k' \<noteq> k"
  using assms by (auto simp: write_outcome_def row_outcome_def Let_def split: option.splits if_splits sum.splits)

lemma write_ops_protected:
  "fmlookup tbl k = Some row \<Longrightarrow> SWrite row \<noteq> 1 \<Longrightarrow> write_ops env False tbl ops = Inr (tbl', acks) \<Longrightarrow>
   fmlookup tbl' k = Some row"
proof (induction ops arbitrary: tbl acks)
  case (Cons x ops)
  obtain i o0 where x: "x = (i, o0)" by (cases x)
  obtain k' row' acks' where o: "write_outcome env False tbl (normalize_object o0) = Inr (k', row')"
    and rest: "write_ops env False (fmupd k' row' tbl) ops = Inr (tbl', acks')"
    using Cons.prems(3) by (auto simp: x write_ops_Cons split: sum.splits prod.splits)
  have "fmlookup (fmupd k' row' tbl) k = Some row"
    using outcome_protected [OF Cons.prems(1,2) o] Cons.prems(1) by simp
  from Cons.IH [OF this Cons.prems(2) rest] show ?case .
qed simp

lemma delete_ops_protected:
  "fmlookup tbl k = Some row \<Longrightarrow> SWrite row \<le> 0 \<Longrightarrow> delete_ops env False tbl reqs = Inr tbl' \<Longrightarrow>
   fmlookup tbl' k = Some row"
proof (induction reqs arbitrary: tbl)
  case (Cons req reqs)
  obtain uid row' where u: "se_uuid env (user_or_nil (DqUserID req)) = Some uid"
    and l: "fmlookup tbl (DqCollection req, DqKey req, uid) = Some row'" "deletable False req row'"
    and rest: "delete_ops env False (fmdrop (DqCollection req, DqKey req, uid) tbl) reqs = Inr tbl'"
    using Cons.prems(3) by (auto simp: Let_def split: option.splits if_splits)
  have "k \<noteq> (DqCollection req, DqKey req, uid)"
    using l Cons.prems(1,2) by (auto simp: deletable_def)
  then have "fmlookup (fmdrop (DqCollection req, DqKey req, uid) tbl) k = Some row"
    using Cons.prems(1) by simp
  from Cons.IH [OF this Cons.prems(2) rest] show ?case .
qed simp

text \<open>C19: clients cannot touch protected objects.  No batch of client writes, whatever its versions, keys and
  order, changes a row whose write permission is not 1, and no batch of client deletes removes a row whose
  write permission is 0: the row is still there as it was, also when the batch succeeds on others.\<close>

theorem clients_cannot_touch_protected:
  assumes "fmlookup tbl k = Some row"
  shows "(SWrite row \<noteq> 1 \<longrightarrow> fmlookup (fst (WriteStorageObjects env False tbl objects)) k = Some row) \<and>
    (SWrite row \<le> 0 \<longrightarrow> fmlookup (fst (DeleteStorageObjects env False tbl reqs)) k = Some row)"
  using assms write_ops_protected [OF assms] delete_ops_protected [OF assms]
  by (auto simp: WriteStorageObjects_def DeleteStorageObjects_def split: sum.split)

theorem clients_cannot_touch_protected_witness:
  "fmlookup (fst (WriteStorageObjects one_env False (fmupd (''c'', ''k'', ''u'') (one_obj ''v'' 0) fmempty)
      [one_obj ''v'' 1])) (''c'', ''k'', ''u'') = Some (one_obj ''v'' 0)"
  using clients_cannot_touch_protected
    [of "fmupd (''c'', ''k'', ''u'') (one_obj ''v'' 0) fmempty" "(''c'', ''k'', ''u'')" "one_obj ''v'' 0"
      one_env "[one_obj ''v'' 1]" "[]"]
  by (simp add: one_obj_def)

subsection \<open>Retries\<close>

lemma Read_error: "ReadStorageObjects env caller tbl reqs = Inl e \<Longrightarrow> e = ErrStorageDatabase"
  by (induction reqs) (auto split: option.splits sum.splits if_splits)

lemma write_error:
  "write_ops env auth tbl ops = Inl e \<Longrightarrow>
   e \<in> {ErrStorageDatabase, ErrStorageRejectedVersion, ErrStorageRejectedPermission}"
proof (induction ops arbitrary: tbl)
  case (Cons x ops)
  obtain i o0 where x: "x = (i, o0)" by (cases x)
  from Cons.prems show ?case
  proof (cases "write_outcome env auth tbl (normalize_object o0)")
    case (Inl e')
    with Cons.prems show ?thesis
      by (auto simp: x write_ops_Cons write_outcome_def row_outcome_def Let_def
          split: option.splits if_splits sum.splits)
  next
    case (Inr r)
    with Cons.prems Cons.IH show ?thesis
      by (auto simp: x write_ops_Cons split: sum.splits prod.splits)
  qed
qed simp

declare retry_loop.simps [simp del]

lemma retry_errors:
  "snd (retry_loop env reqs f others attempt left tbl) \<noteq> Inl ErrStorageWriteExhaustedRetries"
proof (induction left arbitrary: attempt tbl)
  case 0
  show ?case
    using Read_error [of env None tbl reqs] write_error
    by (subst retry_loop.simps)
       (fastforce simp: WriteStorageObjects_def split: sum.splits option.splits prod.splits if_splits)
next
  case (Suc left)
  then show ?case
    using Read_error [of env None tbl reqs] write_error
    by (subst retry_loop.simps)
       (fastforce simp: WriteStorageObjects_def split: sum.splits option.splits prod.splits if_splits)
qed

text \<open>WriteStorageObjectsRetry never returns the error documented for it: whatever the reads, the update
  function and the other writers do, \<open>ErrStorageWriteExhaustedRetries\<close> is not among its results.\<close>

lemma retry_never_reports_exhaustion:
  "snd (WriteStorageObjectsRetry env reqs updateFn others maxRetries tbl) \<noteq>
     Inl ErrStorageWriteExhaustedRetries"
  unfolding WriteStorageObjectsRetry_def Let_def by (rule retry_errors)

end
