(* ===== verification/Storage_List.thy ===== *)
theory Storage_List
  imports Storage_Props
begin

section \<open>Storage: listing\<close>

text \<open>
  Following the cursors of ListStorageObjects, in each of its five modes, returns exactly the rows the
  caller may see, each once.  The contract of a cursor is the locale \<open>cursor_pager\<close>.
\<close>

subsection \<open>The rows of a listing, in one order\<close>

text \<open>The five modes order their rows by a part of (read, key, owner); the other parts are constant.\<close>

definition list_key :: "string option \<Rightarrow> string option \<Rightarrow> storage_object \<Rightarrow> int \<times> string \<times> string" where
  "list_key caller owner r =
     (case (caller, owner) of
        (None, None) \<Rightarrow> (SRead r, SKey r, SUserID r)
      | (Some c, None) \<Rightarrow> (0, SKey r, SUserID r)
      | (None, Some _) \<Rightarrow> (SRead r, SKey r, [])
      | (Some c, Some o1) \<Rightarrow> if o1 = c then (SRead r, SKey r, []) else (0, SKey r, []))"

lemma list_keys:
  "list_key None None = (\<lambda>r. (SRead r, SKey r, SUserID r))"
  "list_key (Some c) None = (\<lambda>r. (0, SKey r, SUserID r))"
  "list_key None (Some o1) = (\<lambda>r. (SRead r, SKey r, []))"
  "list_key (Some c) (Some o1) = (if o1 = c then (\<lambda>r. (SRead r, SKey r, [])) else (\<lambda>r. (0, SKey r, [])))"
  by (auto simp: list_key_def fun_eq_iff)

text \<open>What a caller may see of a collection: everything the server itself; its own rows with read at least
  1 when it asks for its own; rows readable by everyone otherwise.\<close>

definition visible :: "string option \<Rightarrow> string option \<Rightarrow> string \<Rightarrow> storage_object \<Rightarrow> bool" where
  "visible caller owner collection r \<longleftrightarrow> SCollection r = collection \<and>
     (case owner of None \<Rightarrow> True | Some o1 \<Rightarrow> SUserID r = o1) \<and>
     (case caller of None \<Rightarrow> True | Some c \<Rightarrow> if owner = Some c then SRead r \<ge> 1 else SRead r = 2)"

lemma insort_key_cong:
  assumes "\<And>a b. f a \<le> f b \<longleftrightarrow> g a \<le> g b"
  shows "insort_key f x xs = insort_key g x xs"
  using assms by (induction xs) auto

lemma sort_key_order_cong:
  assumes "\<And>a b. f a \<le> f b \<longleftrightarrow> g a \<le> g b"
  shows "sort_key f xs = sort_key g xs"
  by (induction xs) (simp_all add: insort_key_cong [of f g, OF assms])

lemma sort_list_keys:
  "sort_key (\<lambda>r. (SRead r, SKey r, [] :: string)) rs = sort_key (\<lambda>r. (SRead r, SKey r)) rs"
  "sort_key (\<lambda>r. (0 :: int, SKey r, SUserID r)) rs = sort_key (\<lambda>r. (SKey r, SUserID r)) rs"
  "sort_key (\<lambda>r. (0 :: int, SKey r, [] :: string)) rs = sort_key SKey rs"
  by (rule sort_key_order_cong, auto)+

definition list_items :: "storage_table \<Rightarrow> string option \<Rightarrow> string option \<Rightarrow> string \<Rightarrow> storage_object list" where
  "list_items tbl caller owner collection =
     sort_key (list_key caller owner) (filter (visible caller owner collection) (table_rows tbl))"

definition after_cursor ::
  "string option \<Rightarrow> string option \<Rightarrow> storage_cursor option \<Rightarrow> storage_object \<Rightarrow> bool" where
  "after_cursor caller owner sc r =
     (case sc of
        None \<Rightarrow> True
      | Some c \<Rightarrow> list_key caller owner \<lparr>SCollection = [], SKey = ScKey c, SUserID = ScUserID c, SValue = [],
          SVersion = [], SRead = ScRead c, SWrite = 0, SCreateTime = 0, SUpdateTime = 0\<rparr> < list_key caller owner r)"

lemma list_rows_eq:
  "list_rows tbl caller owner collection n sc =
     take n (filter (after_cursor caller owner sc) (list_items tbl caller owner collection))"
proof -
  have eq: "filter (after_cursor caller owner sc) (list_items tbl caller owner collection) =
      sort_key (list_key caller owner)
        (filter (\<lambda>r. visible caller owner collection r \<and> after_cursor caller owner sc r) (table_rows tbl))"
    by (simp add: list_items_def filter_sort filter_filter conj_commute)
  have f: "filter P (table_rows tbl) = filter Q (table_rows tbl)" if "\<And>r. P r = Q r" for P Q
    using that by (metis filter_cong)
  show ?thesis
    unfolding eq
  proof (cases caller; cases owner)
    assume "caller = None" "owner = None"
    then show "list_rows tbl caller owner collection n sc = take n (sort_key (list_key caller owner)
        (filter (\<lambda>r. visible caller owner collection r \<and> after_cursor caller owner sc r) (table_rows tbl)))"
      by (cases sc) (auto simp: list_rows_def listAll_def Let_def list_keys visible_def after_cursor_def
          filter_filter intro!: arg_cong [where f = "\<lambda>xs. take n (sort_key _ xs)"] f)
  next
    fix o1 assume "caller = None" "owner = Some o1"
    then show "list_rows tbl caller owner collection n sc = take n (sort_key (list_key caller owner)
        (filter (\<lambda>r. visible caller owner collection r \<and> after_cursor caller owner sc r) (table_rows tbl)))"
      by (cases sc) (auto simp: list_rows_def listUser_def Let_def visible_def after_cursor_def list_keys
          filter_filter
          sort_list_keys
          intro!: arg_cong [where f = "\<lambda>xs. take n (sort_key _ xs)"] f)
  next
    fix c assume "caller = Some c" "owner = None"
    then show "list_rows tbl caller owner collection n sc = take n (sort_key (list_key caller owner)
        (filter (\<lambda>r. visible caller owner collection r \<and> after_cursor caller owner sc r) (table_rows tbl)))"
      by (cases sc) (auto simp: list_rows_def listAll_def Let_def visible_def after_cursor_def list_keys
          filter_filter
          sort_list_keys
          intro!: arg_cong [where f = "\<lambda>xs. take n (sort_key _ xs)"] f)
  next
    fix c o1 assume "caller = Some c" "owner = Some o1"
    then show "list_rows tbl caller owner collection n sc = take n (sort_key (list_key caller owner)
        (filter (\<lambda>r. visible caller owner collection r \<and> after_cursor caller owner sc r) (table_rows tbl)))"
      by (cases sc; cases "o1 = c") (auto simp: list_rows_def listUser_def listPublicUser_def Let_def visible_def
          after_cursor_def list_keys filter_filter
          sort_list_keys
          intro!: arg_cong [where f = "\<lambda>xs. take n (sort_key _ xs)"] f)
  qed
qed

subsection \<open>Well-formed tables\<close>

definition table_ok :: "storage_env \<Rightarrow> storage_table \<Rightarrow> bool" where
  "table_ok env tbl \<longleftrightarrow> (\<forall>k r. fmlookup tbl k = Some r \<longrightarrow>
     k = (SCollection r, SKey r, SUserID r) \<and> se_uuid env (SUserID r) = Some (SUserID r))"

lemma table_okD:
  "table_ok env tbl \<Longrightarrow> fmlookup tbl k = Some r \<Longrightarrow>
   k = (SCollection r, SKey r, SUserID r) \<and> se_uuid env (SUserID r) = Some (SUserID r)"
  unfolding table_ok_def by blast

lemma table_ok_fmupd:
  assumes "table_ok env tbl" "k = (SCollection r, SKey r, SUserID r) \<and> se_uuid env (SUserID r) = Some (SUserID r)"
  shows "table_ok env (fmupd k r tbl)"
  unfolding table_ok_def
proof (intro allI impI)
  fix k' r' assume l: "fmlookup (fmupd k r tbl) k' = Some r'"
  show "k' = (SCollection r', SKey r', SUserID r') \<and> se_uuid env (SUserID r') = Some (SUserID r')"
  proof (cases "k' = k")
    case True
    with l have "r' = r" by simp
    with assms(2) True show ?thesis by simp
  next
    case False
    with l table_okD [OF assms(1)] show ?thesis by simp
  qed
qed

text \<open>Writes keep the table well-formed when reading a canonical UUID gives it back.\<close>

definition uuid_canonical :: "storage_env \<Rightarrow> bool" where
  "uuid_canonical env \<longleftrightarrow> (\<forall>u v. se_uuid env u = Some v \<longrightarrow> se_uuid env v = Some v)"

lemma outcome_ok:
  assumes "table_ok env tbl" "uuid_canonical env" "write_outcome env auth tbl obj = Inr (k, row)"
  shows "k = (SCollection row, SKey row, SUserID row) \<and> se_uuid env (SUserID row) = Some (SUserID row)"
  using assms
  by (fastforce simp: write_outcome_def row_outcome_def Let_def table_ok_def uuid_canonical_def
      inserted_row_def updated_row_def split: option.splits if_splits sum.splits)

lemma write_ops_ok:
  "table_ok env tbl \<Longrightarrow> uuid_canonical env \<Longrightarrow> write_ops env auth tbl ops = Inr (tbl', acks) \<Longrightarrow> table_ok env tbl'"
proof (induction ops arbitrary: tbl acks)
  case (Cons x ops)
  obtain i o0 where x: "x = (i, o0)" by (cases x)
  obtain k row acks' where o: "write_outcome env auth tbl (normalize_object o0) = Inr (k, row)"
    and rest: "write_ops env auth (fmupd k row tbl) ops = Inr (tbl', acks')"
    using Cons.prems(3) by (auto simp: x write_ops_Cons split: sum.splits prod.splits)
  have "table_ok env (fmupd k row tbl)"
    by (rule table_ok_fmupd [OF Cons.prems(1) outcome_ok [OF Cons.prems(1,2) o]])
  from Cons.IH [OF this Cons.prems(2) rest] show ?case .
qed simp

lemma Write_table_ok:
  "table_ok env tbl \<Longrightarrow> uuid_canonical env \<Longrightarrow> table_ok env (fst (WriteStorageObjects env auth tbl objects))"
  using write_ops_ok by (auto simp: WriteStorageObjects_def split: sum.split)

lemma table_rows_set: "set (table_rows tbl) = {r. \<exists>k. fmlookup tbl k = Some r}"
  by (force simp: table_rows_def fmlookup_dom_iff)

lemma table_rows_distinct:
  assumes "table_ok env tbl"
  shows "distinct (table_rows tbl)"
proof -
  have "inj_on (\<lambda>k. the (fmlookup tbl k)) (fset (fmdom tbl))"
  proof (rule inj_onI)
    fix x y assume x: "x |\<in>| fmdom tbl" and y: "y |\<in>| fmdom tbl" and eq: "the (fmlookup tbl x) = the (fmlookup tbl y)"
    obtain a where a: "fmlookup tbl x = Some a" using x by (auto simp: fmlookup_dom_iff)
    obtain b where b: "fmlookup tbl y = Some b" using y by (auto simp: fmlookup_dom_iff)
    have "a = b" using a b eq by simp
    then show "x = y" using table_okD [OF assms a] table_okD [OF assms b] by simp
  qed
  then show ?thesis by (simp add: table_rows_def distinct_map sorted_list_of_fset.rep_eq)
qed

lemma list_items_set:
  "set (list_items tbl caller owner collection) = {r \<in> set (table_rows tbl). visible caller owner collection r}"
  by (auto simp: list_items_def)

lemma list_items_sorted:
  assumes "table_ok env tbl"
  shows "distinct (list_items tbl caller owner collection)"
    and "sorted_wrt (\<lambda>a b. list_key caller owner a < list_key caller owner b) (list_items tbl caller owner collection)"
proof -
  let ?xs = "list_items tbl caller owner collection"
  show d: "distinct ?xs" using table_rows_distinct [OF assms] by (simp add: list_items_def)
  have "inj_on (list_key caller owner) (set ?xs)"
  proof (rule inj_onI)
    fix a b assume a: "a \<in> set ?xs" and b: "b \<in> set ?xs" and eq: "list_key caller owner a = list_key caller owner b"
    have "(SCollection a, SKey a, SUserID a) = (SCollection b, SKey b, SUserID b)"
      using a b eq by (cases caller; cases owner) (auto simp: list_items_set visible_def list_keys split: if_splits)
    moreover obtain k where k: "fmlookup tbl k = Some a" using a by (auto simp: list_items_set table_rows_set)
    moreover obtain k' where k': "fmlookup tbl k' = Some b" using b by (auto simp: list_items_set table_rows_set)
    ultimately show "a = b" using table_okD [OF assms k] table_okD [OF assms k'] by auto
  qed
  with d have "distinct (map (list_key caller owner) ?xs)" by (simp add: distinct_map)
  moreover have "sorted (map (list_key caller owner) ?xs)" by (simp add: list_items_def)
  ultimately have "sorted_wrt (<) (map (list_key caller owner) ?xs)" by (simp add: strict_sorted_iff)
  then show "sorted_wrt (\<lambda>a b. list_key caller owner a < list_key caller owner b) ?xs"
    by (simp add: sorted_wrt_map)
qed

subsection \<open>Pages\<close>

record storage_query =
  sq_env :: storage_env
  sq_genc :: "storage_cursor \<Rightarrow> nat list"
  sq_gdec :: "nat list \<Rightarrow> storage_cursor option"
  sq_tbl :: storage_table
  sq_caller :: "string option"
  sq_owner :: "string option"
  sq_collection :: string
  sq_limit :: int

text \<open>The encoder has to be invertible and the table well-formed.\<close>

definition storage_query_ok :: "storage_query \<Rightarrow> bool" where
  "storage_query_ok q \<longleftrightarrow> table_ok (sq_env q) (sq_tbl q) \<and>
     (\<forall>c. sq_gdec q (sq_genc q c) = Some c \<and> sq_genc q c \<noteq> [] \<and> (\<forall>b \<in> set (sq_genc q c). b < 256))"

definition storage_page :: "storage_query \<Rightarrow> string \<Rightarrow> storage_object list \<times> string" where
  "storage_page q c =
     (case ListStorageObjects (sq_env q) (sq_genc q) (sq_gdec q) (sq_tbl q) (sq_caller q) (sq_owner q)
             (sq_collection q) (sq_limit q) c of
        Inl _ \<Rightarrow> ([], []) | Inr p \<Rightarrow> p)"

definition storage_items :: "storage_query \<Rightarrow> storage_object list" where
  "storage_items q = list_items (sq_tbl q) (sq_caller q) (sq_owner q) (sq_collection q)"

definition storage_at :: "storage_query \<Rightarrow> string \<Rightarrow> nat \<Rightarrow> bool" where
  "storage_at q c i \<longleftrightarrow> i = 0 \<and> c = [] \<or>
     0 < i \<and> i \<le> length (storage_items q) \<and>
     c = encodeStorageCursor (sq_genc q) (Some (row_cursor (sq_env q) (storage_items q ! (i - 1))))"

lemma list_limit_pos: "0 < list_limit limit"
  by (simp add: list_limit_def Let_def)

lemma storage_items_uuid:
  "storage_query_ok q \<Longrightarrow> r \<in> set (storage_items q) \<Longrightarrow> se_uuid (sq_env q) (SUserID r) = Some (SUserID r)"
  using table_okD [of "sq_env q" "sq_tbl q"]
  by (auto simp: storage_query_ok_def storage_items_def list_items_set table_rows_set)

text \<open>Beyond the cursor of the \<open>i\<close>-th row lie the rows after it.\<close>

lemma after_row:
  assumes ok: "storage_query_ok q" and i: "i < length (storage_items q)"
  shows "filter (after_cursor (sq_caller q) (sq_owner q) (Some (row_cursor (sq_env q) (storage_items q ! i))))
    (storage_items q) = drop (Suc i) (storage_items q)"
proof -
  let ?r = "storage_items q ! i" and ?key = "list_key (sq_caller q) (sq_owner q)"
  have u: "se_uuid (sq_env q) (SUserID ?r) = Some (SUserID ?r)"
    using storage_items_uuid [OF ok] i by simp
  have "after_cursor (sq_caller q) (sq_owner q) (Some (row_cursor (sq_env q) ?r)) = (\<lambda>r. ?key ?r < ?key r)"
    by (rule ext, cases "sq_caller q"; cases "sq_owner q")
       (simp_all add: after_cursor_def list_keys row_cursor_def u)
  moreover have "filter (\<lambda>r. ?key ?r < ?key r) (storage_items q) = drop (Suc i) (storage_items q)"
    by (rule filter_beyond [of "(<)" ?key, OF _ i])
       (use ok list_items_sorted(2) in \<open>auto simp: storage_query_ok_def storage_items_def\<close>)
  ultimately show ?thesis by simp
qed

lemma storage_page_at:
  assumes ok: "storage_query_ok q" and pos: "storage_at q c i"
  defines "k \<equiv> list_limit (sq_limit q)" and "items \<equiv> storage_items q"
  shows "storage_page q c = (take k (drop i items),
    if i + k < length items
    then encodeStorageCursor (sq_genc q) (Some (row_cursor (sq_env q) (last (take k (drop i items))))) else [])"
proof -
  let ?sc = "if i = 0 then None else Some (row_cursor (sq_env q) (items ! (i - 1)))"
  have dec: "decodeStorageCursor (sq_gdec q) c = Inr ?sc"
    using pos ok
    by (auto simp: storage_at_def decodeStorageCursor_def encodeStorageCursor_def storage_query_ok_def
        raw_url_encode_nonempty raw_url_roundtrip items_def)
  have rows: "filter (after_cursor (sq_caller q) (sq_owner q) ?sc) items = drop i items"
  proof (cases "i = 0")
    case True
    then show ?thesis by (simp add: after_cursor_def filter_id_conv)
  next
    case False
    with pos have "i - 1 < length items" by (auto simp: storage_at_def items_def)
    from after_row [OF ok this [unfolded items_def]] False show ?thesis by (simp add: items_def)
  qed
  have "list_rows (sq_tbl q) (sq_caller q) (sq_owner q) (sq_collection q) (k + 1) ?sc = take (k + 1) (drop i items)"
    unfolding list_rows_eq using rows by (simp add: items_def storage_items_def)
  then have L: "storage_page q c = (if min (length (drop i items)) (k + 1) > k
      then (take k (take (k + 1) (drop i items)),
        encodeStorageCursor (sq_genc q) (Some (row_cursor (sq_env q) (last (take k (take (k + 1) (drop i items)))))))
      else (take (k + 1) (drop i items), []))"
    unfolding storage_page_def ListStorageObjects_def Let_def dec sum.case k_def [symmetric]
    by (simp add: Let_def del: take_take take_all_iff)
  have "min (length (drop i items)) (k + 1) > k \<longleftrightarrow> i + k < length items" by auto
  moreover have "take k (take (k + 1) (drop i items)) = take k (drop i items)" by simp
  moreover have "\<not> i + k < length items \<Longrightarrow> take (k + 1) (drop i items) = take k (drop i items)" by simp
  ultimately show ?thesis unfolding L by (simp del: take_take take_all_iff)
qed

interpretation storage_pager: cursor_pager storage_query_ok storage_page "\<lambda>c. c = []" storage_items
  "\<lambda>q. list_limit (sq_limit q)" storage_at
proof unfold_locales
  show "0 < list_limit (sq_limit q)" for q :: storage_query by (rule list_limit_pos)
next
  fix q c i assume ok: "storage_query_ok q" and pos: "storage_at q c i"
  define k where "k = list_limit (sq_limit q)"
  define items where "items = storage_items q"
  note page = storage_page_at [OF ok pos, folded k_def items_def]
  show "\<exists>c'. storage_page q c = (drop i (storage_items q), c') \<and> c' = []"
    if "length (storage_items q) \<le> i + list_limit (sq_limit q)"
    using that by (simp add: page) (simp add: items_def k_def)
  assume "i + list_limit (sq_limit q) < length (storage_items q)"
  then have lt: "i + k < length items" by (simp add: k_def items_def)
  have k: "0 < k" by (simp add: k_def list_limit_pos)
  let ?c = "encodeStorageCursor (sq_genc q) (Some (row_cursor (sq_env q) (items ! (i + k - 1))))"
  have last: "last (take k (drop i items)) = items ! (i + k - 1)"
    using lt k by (simp add: last_conv_nth min_def)
  have "?c \<noteq> []"
    using ok by (simp add: encodeStorageCursor_def raw_url_encode_nonempty storage_query_ok_def)
  moreover have "storage_at q ?c (i + k)" using lt k by (simp add: storage_at_def items_def)
  ultimately show "\<exists>c'. storage_page q c = (take (list_limit (sq_limit q)) (drop i (storage_items q)), c') \<and>
      c' \<noteq> [] \<and> storage_at q c' (i + list_limit (sq_limit q))"
    using lt last by (simp add: page) (simp add: items_def k_def)
qed

text \<open>C20: listing storage shows a caller exactly what it may see.  Following the cursors of ListStorageObjects
  from the start, for the server or a user, with or without an owner and for every page size, returns each
  row of the collection that is visible in that mode exactly once and no other row, when cursors can be
  decoded again and the table is well-formed.\<close>

theorem storage_pages_complete:
  assumes "storage_query_ok q" and "mlen (sq_tbl q) \<le> n"
  shows "distinct (follow (storage_page q) (\<lambda>c. c = []) (Suc n) []) \<and>
    set (follow (storage_page q) (\<lambda>c. c = []) (Suc n) []) =
      {r. (\<exists>k. fmlookup (sq_tbl q) k = Some r) \<and> visible (sq_caller q) (sq_owner q) (sq_collection q) r}"
proof -
  have "length (storage_items q) \<le> length (table_rows (sq_tbl q))"
    by (simp add: storage_items_def list_items_def)
  also have "\<dots> = mlen (sq_tbl q)"
    by (simp add: table_rows_def mlen_def fcard.rep_eq sorted_list_of_fset.rep_eq)
  finally have "length (storage_items q) \<le> n" using assms(2) by simp
  from storage_pager.follow_from_start [OF assms(1) _ this, of "[]"]
  have "follow (storage_page q) (\<lambda>c. c = []) (Suc n) [] = storage_items q" by (simp add: storage_at_def)
  moreover have "distinct (storage_items q)"
    using list_items_sorted(1) assms(1) by (auto simp: storage_query_ok_def storage_items_def)
  ultimately show ?thesis by (auto simp: storage_items_def list_items_set table_rows_set)
qed

subsection \<open>Instances\<close>

definition demo_obj :: "string \<Rightarrow> string \<Rightarrow> string \<Rightarrow> int \<Rightarrow> int \<Rightarrow> storage_object" where
  "demo_obj k u ver rd wr = \<lparr>SCollection = ''c'', SKey = k, SUserID = u, SValue = ''1'', SVersion = ver,
     SRead = rd, SWrite = wr, SCreateTime = 0, SUpdateTime = 0\<rparr>"

definition demo_table :: storage_table where
  "demo_table = fmupd (''c'', ''b'', ''u2'') (demo_obj ''b'' ''u2'' ''v'' 1 0)
     (fmupd (''c'', ''a'', ''u1'') (demo_obj ''a'' ''u1'' ''v'' 2 1) fmempty)"

definition demo_sgenc :: "storage_cursor \<Rightarrow> nat list" where
  "demo_sgenc c = (if ScRead c < 0 then 1 else 0) #
     replicate (nat \<bar>ScRead c\<bar>) 1 @ 0 #
     replicate (length (ScKey c)) 1 @ 0 # string_bytes (ScKey c) @ string_bytes (ScUserID c)"

fun demo_sgdec :: "nat list \<Rightarrow> storage_cursor option" where
  "demo_sgdec [] = None"
| "demo_sgdec (s # bs) =
     (let (t, bs1) = unary_take bs; (n, bs2) = unary_take bs1
      in Some \<lparr>ScKey = bytes_string (take n bs2), ScUserID = bytes_string (drop n bs2),
               ScRead = (if s = 1 then - int t else int t)\<rparr>)"

lemma demo_sgob: "demo_sgdec (demo_sgenc c) = Some c \<and> demo_sgenc c \<noteq> [] \<and> (\<forall>b \<in> set (demo_sgenc c). b < 256)"
proof (intro conjI)
  have "length (ScKey c) = length (string_bytes (ScKey c))" by (simp add: string_bytes_def)
  then show "demo_sgdec (demo_sgenc c) = Some c"
    unfolding demo_sgenc_def demo_sgdec.simps unary_take_replicate Let_def prod.case
    by (simp add: bytes_string_bytes)
  show "\<forall>b \<in> set (demo_sgenc c). b < 256"
    using string_bytes_bound [of "ScKey c"] string_bytes_bound [of "ScUserID c"] by (auto simp: demo_sgenc_def)
qed (simp add: demo_sgenc_def)

definition demo_squery :: storage_query where
  "demo_squery = \<lparr>sq_env = one_env, sq_genc = demo_sgenc, sq_gdec = demo_sgdec, sq_tbl = demo_table,
     sq_caller = Some ''u2'', sq_owner = None, sq_collection = ''c'', sq_limit = 1\<rparr>"

theorem storage_pages_complete_witness:
  "set (follow (storage_page demo_squery) (\<lambda>c. c = []) 3 []) = {demo_obj ''a'' ''u1'' ''v'' 2 1}"
proof -
  have "storage_query_ok demo_squery"
    using demo_sgob unfolding storage_query_ok_def
    by (auto simp: demo_squery_def table_ok_def demo_table_def demo_obj_def one_env_def split: if_splits)
  moreover have "mlen (sq_tbl demo_squery) \<le> 2"
    by (simp add: demo_squery_def demo_table_def mlen_fmupd)
  ultimately have "set (follow (storage_page demo_squery) (\<lambda>c. c = []) (Suc 2) []) =
      {r. (\<exists>k. fmlookup (sq_tbl demo_squery) k = Some r) \<and>
          visible (sq_caller demo_squery) (sq_owner demo_squery) (sq_collection demo_squery) r}"
    using storage_pages_complete by blast
  also have "\<dots> = {demo_obj ''a'' ''u1'' ''v'' 2 1}"
    by (auto simp: demo_squery_def demo_table_def visible_def demo_obj_def split: if_splits)
  finally show ?thesis by (simp add: eval_nat_numeral)
qed

end
