(* ===== verification/Civil_Time.thy ===== *)
theory Civil_Time
  imports Prelude
begin

section \<open>Calendar time\<close>

text \<open>
  The part of Go's \<open>time\<close> package that the schedules use.  An instant (\<open>time.Time\<close>) is the
  number of whole seconds since 1970-01-01 00:00:00 UTC, an unbounded integer; the fraction of a
  second is dropped, as every schedule computation ignores it, and the location is UTC.  The
  calendar is the proleptic Gregorian one, as in Go, and \<open>go_date\<close> normalises months and days out
  of range as \<open>time.Date\<close> does.  Nothing here comes from the repository; the lemmas show that
  the calendar fields and the number of seconds determine each other.
\<close>

named_theorems civil_simps \<open>calendar fields of a date\<close>

type_synonym instant = int

definition zero_time :: instant where
  "zero_time = - 62135596800"

definition leap :: "int \<Rightarrow> bool" where
  "leap y \<longleftrightarrow> y mod 4 = 0 \<and> (y mod 100 \<noteq> 0 \<or> y mod 400 = 0)"

definition days_in_month :: "int \<Rightarrow> int \<Rightarrow> int" where
  "days_in_month y m =
     (if m = 2 then (if leap y then 29 else 28)
      else if m = 4 \<or> m = 6 \<or> m = 9 \<or> m = 11 then 30 else 31)"

definition days_before_year :: "int \<Rightarrow> int" where
  "days_before_year y = 365 * (y - 1) + (y - 1) div 4 - (y - 1) div 100 + (y - 1) div 400"

definition days_before_month :: "int \<Rightarrow> int \<Rightarrow> int" where
  "days_before_month y m = sum_list (map (days_in_month y) [1..m - 1])"

text \<open>Months are counted through: month \<open>m\<close> of year \<open>y\<close> has the index \<open>12 y + m - 1\<close>.\<close>

definition month_start :: "int \<Rightarrow> int" where
  "month_start k = days_before_year (k div 12) + days_before_month (k div 12) (k mod 12 + 1)"

definition month_length :: "int \<Rightarrow> int" where
  "month_length k = days_in_month (k div 12) (k mod 12 + 1)"

definition day_number :: "int \<Rightarrow> int \<Rightarrow> int \<Rightarrow> int" where
  "day_number y m d = month_start (12 * y + m - 1) + d - 1"

subsection \<open>Successive months\<close>

lemma div_pred:
  assumes "0 < (c::int)"
  shows "(y - 1) div c = y div c - (if y mod c = 0 then 1 else 0)"
proof (cases "y mod c = 0")
  case True
  then have "y - 1 = c * (y div c - 1) + (c - 1)"
    by (metis add.commute add_diff_eq diff_add_cancel mult.commute mult_div_mod_eq
        add.right_neutral mult.right_neutral right_diff_distrib)
  then show ?thesis using assms True int_div_pos_eq [of "y - 1" c "y div c - 1" "c - 1"] by simp
next
  case False
  then have "0 < y mod c" using assms by (simp add: order_less_le)
  moreover have "y - 1 = c * (y div c) + (y mod c - 1)" by (simp add: mult_div_mod_eq)
  ultimately show ?thesis
    using False int_div_pos_eq [of "y - 1" c "y div c" "y mod c - 1"] pos_mod_bound [OF assms, of y]
    by simp
qed

lemma days_before_year_step:
  "days_before_year (y + 1) = days_before_year y + (if leap y then 366 else 365)"
proof -
  have "y mod 400 = 0 \<Longrightarrow> y mod 100 = 0" "y mod 100 = 0 \<Longrightarrow> y mod 4 = 0"
    by (auto simp: mod_eq_0_iff_dvd elim: dvd_trans [rotated])
  then show ?thesis by (auto simp: days_before_year_def div_pred leap_def)
qed

lemma days_before_month_step:
  "1 \<le> m \<Longrightarrow> days_before_month y (m + 1) = days_before_month y m + days_in_month y m"
  by (simp add: days_before_month_def upto_rec2)

lemma days_before_month_1: "days_before_month y 1 = 0"
  by (simp add: days_before_month_def)

lemma days_before_month_year: "days_before_month y 13 = (if leap y then 366 else 365)"
  by (simp add: days_before_month_def upto_rec1 days_in_month_def)

lemma days_in_month_bounds: "28 \<le> days_in_month y m" "days_in_month y m \<le> 31"
  by (auto simp: days_in_month_def)

lemma month_length_bounds: "28 \<le> month_length k" "month_length k \<le> 31"
  by (simp_all add: month_length_def days_in_month_bounds)

lemma month_start_step: "month_start (k + 1) = month_start k + month_length k"
proof (cases "(k + 1) mod 12 = 0")
  case True
  moreover from this have "(k + 1) div 12 = k div 12 + 1" using div_pred [of 12 "k + 1"] by simp
  ultimately have "(k + 1) div 12 = k div 12 + 1" "k mod 12 = 11"
    using mult_div_mod_eq [of 12 "k + 1"] mult_div_mod_eq [of 12 k] by linarith+
  then show ?thesis
    using True days_before_month_step [of 12 "k div 12"]
    by (simp add: month_start_def month_length_def days_before_year_step days_before_month_1
        days_before_month_year)
next
  case False
  then have "(k + 1) div 12 = k div 12" using div_pred [of 12 "k + 1"] by simp
  then have "(k + 1) div 12 = k div 12" "(k + 1) mod 12 = k mod 12 + 1"
    using mult_div_mod_eq [of 12 "k + 1"] mult_div_mod_eq [of 12 k] by linarith+
  then show ?thesis
    using days_before_month_step [of "k mod 12 + 1" "k div 12"]
    by (simp add: month_start_def month_length_def)
qed

lemma month_start_add: "month_start k + 28 * int n \<le> month_start (k + int n)"
proof (induction n)
  case (Suc n)
  then show ?case
    using month_start_step [of "k + int n"] month_length_bounds(1) [of "k + int n"]
    by (simp add: algebra_simps)
qed simp

lemma month_start_mono: "k \<le> l \<Longrightarrow> month_start k + 28 * (l - k) \<le> month_start l"
  using month_start_add [of k "nat (l - k)"] by simp

lemma month_start_less: "k < l \<Longrightarrow> month_start k + month_length k \<le> month_start l"
  using month_start_mono [of "k + 1" l] by (simp add: month_start_step)

subsection \<open>The month of a day\<close>

text \<open>The search starts at an estimate and moves month by month.\<close>

function month_down :: "int \<Rightarrow> int \<Rightarrow> int" where
  "month_down n k = (if month_start k \<le> n then k else month_down n (k - 1))"
  by pat_completeness auto
termination
proof (relation "measure (\<lambda>(n, k). nat (month_start k - n))", goal_cases)
  case (2 n k)
  then show ?case using month_start_mono [of "k - 1" k] by simp
qed simp

function month_up :: "int \<Rightarrow> int \<Rightarrow> int" where
  "month_up n k = (if n < month_start (k + 1) then k else month_up n (k + 1))"
  by pat_completeness auto
termination
proof (relation "measure (\<lambda>(n, k). nat (n + 1 - month_start k))", goal_cases)
  case (2 n k)
  then show ?case using month_start_mono [of k "k + 1"] by simp
qed simp

declare month_down.simps [simp del] month_up.simps [simp del]

definition month_of :: "int \<Rightarrow> int" where
  "month_of n = month_up n (month_down n (n * 4800 div 146097 + 12))"

lemma month_down_le: "month_start (month_down n k) \<le> n"
  by (induction n k rule: month_down.induct) (subst month_down.simps, simp)

lemma month_up_bounds:
  "month_start k \<le> n \<Longrightarrow> month_start (month_up n k) \<le> n \<and> n < month_start (month_up n k + 1)"
proof (induction n k rule: month_up.induct)
  case (1 n k)
  then show ?case by (subst (1 2) month_up.simps) (simp add: not_less)
qed

lemma month_of_bounds:
  "month_start (month_of n) \<le> n" "n < month_start (month_of n) + month_length (month_of n)"
  using month_up_bounds [OF month_down_le, of n] by (auto simp: month_of_def month_start_step)

lemma month_of_eqI:
  assumes "month_start k \<le> n" and "n < month_start k + month_length k"
  shows "month_of n = k"
proof (rule antisym)
  show "month_of n \<le> k"
    using assms(2) month_of_bounds(1) [of n] month_start_less [of k "month_of n"] by force
  show "k \<le> month_of n"
    using assms(1) month_of_bounds(2) [of n] month_start_less [of "month_of n" k] by force
qed

lemma month_of_mono: "n \<le> n' \<Longrightarrow> month_of n \<le> month_of n'"
  using month_start_less [of "month_of n'" "month_of n"] month_of_bounds [of n]
    month_of_bounds [of n'] by force

subsection \<open>Calendar fields of an instant\<close>

definition day_of :: "instant \<Rightarrow> int" where
  "day_of t = t div 86400 + 719162"

definition ym_of :: "instant \<Rightarrow> int" where
  "ym_of t = month_of (day_of t)"

definition Year :: "instant \<Rightarrow> int" where
  "Year t = ym_of t div 12"

definition Month :: "instant \<Rightarrow> int" where
  "Month t = ym_of t mod 12 + 1"

definition Day :: "instant \<Rightarrow> int" where
  "Day t = day_of t - month_start (ym_of t) + 1"

definition Hour :: "instant \<Rightarrow> int" where
  "Hour t = t mod 86400 div 3600"

definition Minute :: "instant \<Rightarrow> int" where
  "Minute t = t mod 3600 div 60"

definition Second :: "instant \<Rightarrow> int" where
  "Second t = t mod 60"

definition Weekday :: "instant \<Rightarrow> int" where
  "Weekday t = (day_of t + 1) mod 7"

definition go_date :: "int \<Rightarrow> int \<Rightarrow> int \<Rightarrow> int \<Rightarrow> int \<Rightarrow> int \<Rightarrow> instant" where
  "go_date y mo d h mi s = (day_number y mo d - 719162) * 86400 + h * 3600 + mi * 60 + s"

definition AddDate :: "instant \<Rightarrow> int \<Rightarrow> int \<Rightarrow> int \<Rightarrow> instant" where
  "AddDate t y m d =
     go_date (Year t + y) (Month t + m) (Day t + d) (Hour t) (Minute t) (Second t)"

definition valid_date :: "int \<Rightarrow> int \<Rightarrow> int \<Rightarrow> bool" where
  "valid_date y m d \<longleftrightarrow> 1 \<le> m \<and> m \<le> 12 \<and> 1 \<le> d \<and> d \<le> days_in_month y m"

definition valid_clock :: "int \<Rightarrow> int \<Rightarrow> int \<Rightarrow> bool" where
  "valid_clock h mi s \<longleftrightarrow> 0 \<le> h \<and> h < 24 \<and> 0 \<le> mi \<and> mi < 60 \<and> 0 \<le> s \<and> s < 60"

subsection \<open>Fields and instants determine each other\<close>

lemma month_index: "1 \<le> m \<Longrightarrow> m \<le> 12 \<Longrightarrow> (12 * y + m - 1) div 12 = (y::int)"
  "1 \<le> m \<Longrightarrow> m \<le> 12 \<Longrightarrow> (12 * y + m - 1) mod 12 = m - (1::int)"
  using int_div_pos_eq [of "12 * y + m - 1" 12 y "m - 1"] int_mod_pos_eq [of "12 * y + m - 1" 12 y "m - 1"]
  by simp_all

lemma month_length_index:
  "1 \<le> m \<Longrightarrow> m \<le> 12 \<Longrightarrow> month_length (12 * y + m - 1) = days_in_month y m"
  by (simp add: month_length_def month_index)

lemma clock_div_mod:
  assumes "valid_clock h mi s"
  shows "(n * 86400 + h * 3600 + mi * 60 + s) div 86400 = n"
    and "(n * 86400 + h * 3600 + mi * 60 + s) mod 86400 div 3600 = h"
    and "(n * 86400 + h * 3600 + mi * 60 + s) mod 3600 div 60 = mi"
    and "(n * 86400 + h * 3600 + mi * 60 + s) mod 60 = s"
proof -
  let ?t = "n * 86400 + h * 3600 + mi * 60 + s"
  have b: "0 \<le> h" "h < 24" "0 \<le> mi" "mi < 60" "0 \<le> s" "s < 60"
    using assms by (simp_all add: valid_clock_def)
  then have u: "h * 3600 + mi * 60 + s < 86400" "0 \<le> h * 3600 + mi * 60 + s"
    "0 \<le> mi * 60 + s" "mi * 60 + s < 3600" by simp_all
  show "?t div 86400 = n"
    using u int_div_pos_eq [of ?t 86400 n "h * 3600 + mi * 60 + s"] by simp
  have "?t mod 86400 = h * 3600 + mi * 60 + s"
    using u int_mod_pos_eq [of ?t 86400 n "h * 3600 + mi * 60 + s"] by simp
  then show "?t mod 86400 div 3600 = h"
    using u int_div_pos_eq [of "h * 3600 + mi * 60 + s" 3600 h "mi * 60 + s"] by simp
  have "?t mod 3600 = mi * 60 + s"
    using u int_mod_pos_eq [of ?t 3600 "n * 24 + h" "mi * 60 + s"] by simp
  then show "?t mod 3600 div 60 = mi"
    using b int_div_pos_eq [of "mi * 60 + s" 60 mi s] by simp
  show "?t mod 60 = s"
    using b int_mod_pos_eq [of ?t 60 "n * 1440 + h * 60 + mi" s] by simp
qed

lemma day_of_go_date:
  "valid_clock h mi s \<Longrightarrow> day_of (go_date y m d h mi s) = day_number y m d"
  using clock_div_mod(1) [of h mi s "day_number y m d - 719162"] by (simp add: day_of_def go_date_def)

lemma clock_go_date [civil_simps]:
  assumes "valid_clock h mi s"
  shows "Hour (go_date y m d h mi s) = h" "Minute (go_date y m d h mi s) = mi"
    "Second (go_date y m d h mi s) = s"
  unfolding Hour_def Minute_def Second_def go_date_def by (rule clock_div_mod [OF assms])+

lemma ym_of_go_date:
  assumes "valid_clock h mi s" and "1 \<le> d" and "d \<le> month_length (12 * y + m - 1)"
  shows "ym_of (go_date y m d h mi s) = 12 * y + m - 1"
  unfolding ym_of_def day_of_go_date [OF assms(1)]
  by (rule month_of_eqI) (use assms in \<open>simp_all add: day_number_def\<close>)

lemma date_go_date [civil_simps]:
  assumes "valid_date y m d" and "valid_clock h mi s"
  shows "Year (go_date y m d h mi s) = y" "Month (go_date y m d h mi s) = m"
    "Day (go_date y m d h mi s) = d"
proof -
  have m: "1 \<le> m" "m \<le> 12" "1 \<le> d" "d \<le> month_length (12 * y + m - 1)"
    using assms(1) by (simp_all add: valid_date_def month_length_index)
  note k = ym_of_go_date [OF assms(2) m(3,4)]
  show "Year (go_date y m d h mi s) = y" "Month (go_date y m d h mi s) = m"
    using m(1,2) by (simp_all add: Year_def Month_def k month_index)
  show "Day (go_date y m d h mi s) = d"
    unfolding Day_def k day_of_go_date [OF assms(2)] by (simp add: day_number_def)
qed

lemma valid_clock_fields [simp, intro]: "valid_clock (Hour t) (Minute t) (Second t)"
proof -
  have "t mod 86400 < 86400" "t mod 3600 < 3600" by simp_all
  then show ?thesis
    by (auto simp: valid_clock_def Hour_def Minute_def Second_def div_less_iff_less_mult
        pos_imp_zdiv_nonneg_iff intro: zdiv_mono1 [THEN le_less_trans])
qed

lemma ym_of_fields: "ym_of t = 12 * Year t + Month t - 1"
  by (simp add: Year_def Month_def)

lemma valid_date_fields [simp, intro]: "valid_date (Year t) (Month t) (Day t)"
proof -
  have "month_length (ym_of t) = days_in_month (Year t) (Month t)"
    by (simp add: month_length_def Year_def Month_def)
  then show ?thesis
    using month_of_bounds [of "day_of t"] by (auto simp: valid_date_def Month_def Day_def ym_of_def)
qed

lemma day_of_fields: "day_of t = day_number (Year t) (Month t) (Day t)"
  by (simp add: day_number_def Day_def ym_of_fields)

lemma clock_of_fields:
  "t = (day_of t - 719162) * 86400 + Hour t * 3600 + Minute t * 60 + Second t"
proof -
  have "t mod 86400 mod 3600 = t mod 3600" "t mod 3600 mod 60 = t mod 60"
    by (simp_all add: mod_mod_cancel)
  then have "t mod 86400 = Hour t * 3600 + t mod 3600" "t mod 3600 = Minute t * 60 + Second t"
    using div_mult_mod_eq [of "t mod 86400" 3600] div_mult_mod_eq [of "t mod 3600" 60]
    unfolding Hour_def Minute_def Second_def by (simp_all only:)
  then have "t = t div 86400 * 86400 + (Hour t * 3600 + (Minute t * 60 + Second t))"
    using div_mult_mod_eq [of t 86400] by (simp only:)
  then show ?thesis by (simp only: day_of_def add_diff_cancel_right' add.assoc)
qed

lemma go_date_fields: "go_date (Year t) (Month t) (Day t) (Hour t) (Minute t) (Second t) = t"
  using clock_of_fields [of t] by (simp add: go_date_def day_of_fields)

subsection \<open>Order of instants\<close>

text \<open>Instants are ordered as their fields are, lexicographically.\<close>

definition time_fields :: "instant \<Rightarrow> int list" where
  "time_fields t = [Year t, Month t, Day t, Hour t, Minute t, Second t]"

lemma month_less_day:
  assumes "valid_date y m d" and "valid_date y' m' d'" and "y < y' \<or> y = y' \<and> m < m'"
  shows "day_number y m d < day_number y' m' d'"
proof -
  have "12 * y + m - 1 < 12 * y' + m' - 1" using assms by (auto simp: valid_date_def)
  from month_start_less [OF this] show ?thesis
    using assms by (auto simp: valid_date_def day_number_def month_length_index)
qed

lemma fields_less_imp:
  assumes "time_fields t < time_fields u"
  shows "t < u"
proof -
  have d: "day_of t < day_of u \<Longrightarrow> t < u"
    using clock_of_fields [of t] clock_of_fields [of u] valid_clock_fields [of t]
      valid_clock_fields [of u] by (simp add: valid_clock_def)
  consider "Year t < Year u \<or> Year t = Year u \<and> Month t < Month u"
    | "Year t = Year u" "Month t = Month u" "Day t < Day u"
    | "day_of t = day_of u" "Hour t < Hour u"
    | "day_of t = day_of u" "Hour t = Hour u" "Minute t < Minute u"
    | "day_of t = day_of u" "Hour t = Hour u" "Minute t = Minute u" "Second t < Second u"
    using assms by (auto simp: time_fields_def day_of_fields)
  then show ?thesis
  proof cases
    case 1
    then show ?thesis using d month_less_day [OF valid_date_fields valid_date_fields, of t u]
      by (simp add: day_of_fields)
  next
    case 2
    then show ?thesis using d by (simp add: day_of_fields day_number_def)
  qed (use clock_of_fields [of t] clock_of_fields [of u] valid_clock_fields [of t]
      valid_clock_fields [of u] in \<open>simp_all add: valid_clock_def\<close>)
qed

lemma fields_inj:
  assumes "time_fields t = time_fields u"
  shows "t = u"
proof -
  have "go_date (Year t) (Month t) (Day t) (Hour t) (Minute t) (Second t) =
    go_date (Year u) (Month u) (Day u) (Hour u) (Minute u) (Second u)"
    using assms by (simp add: time_fields_def)
  then show ?thesis by (simp only: go_date_fields)
qed

lemma less_fields: "t < u \<longleftrightarrow> time_fields t < time_fields u"
  using fields_less_imp [of t u] fields_less_imp [of u t] fields_inj [of t u]
  by (cases "time_fields t" "time_fields u" rule: linorder_cases) auto

lemma le_fields: "t \<le> u \<longleftrightarrow> time_fields t \<le> time_fields u"
  using less_fields [of u t] by (simp add: not_less [symmetric])

lemma time_fields_go_date:
  "valid_date y m d \<Longrightarrow> valid_clock h mi s \<Longrightarrow> time_fields (go_date y m d h mi s) = [y, m, d, h, mi, s]"
  by (simp add: time_fields_def civil_simps)

end
