(* ===== verification/Cron.thy ===== *)
theory Cron
  imports Civil_Time
begin

section \<open>Cron expressions: the next and the last matching instant\<close>

text \<open>
  \<open>internal/cronexpr/cronexpr.go\<close> and \<open>cronexpr_next.go\<close>: the parsed expression, the days of a
  month it selects, and the search for the matching instant after (\<open>Next\<close>, \<open>NextN\<close>) or before
  (\<open>Last\<close>) a given one.  A \<open>map[int]bool\<close> is the set of its keys; \<open>sort.SearchInts\<close> on the sorted
  lists of the expression is \<open>search_ints\<close>.  Indexing an empty list is the value
  \<open>Inl IndexOutOfRange\<close>.  \<open>nextYear\<close> and \<open>nextMonth\<close> call each other, and so do \<open>lastYear\<close> and
  \<open>lastMonth\<close>; whether they return depends on the expression, so they are defined by
  \<open>partial_function\<close> and \<open>None\<close> is an endless recursion.  The field \<open>actualDaysOfMonthList\<close>
  of the source is a scratch variable that every call writes before it reads it; here the list
  is passed along.
\<close>

subsection \<open>Expressions\<close>

record expression =
  secondList :: "int list"
  minuteList :: "int list"
  hourList :: "int list"
  daysOfMonth :: "int set"
  workdaysOfMonth :: "int set"
  lastDayOfMonth :: bool
  lastWorkdayOfMonth :: bool
  daysOfMonthRestricted :: bool
  monthList :: "int list"
  daysOfWeek :: "int set"
  specificWeekDaysOfWeek :: "int set"
  lastWeekDaysOfWeek :: "int set"
  daysOfWeekRestricted :: bool
  yearList :: "int list"

datatype cron_panic = IndexOutOfRange

type_synonym 'a cron_result = "(cron_panic + 'a) option"

abbreviation panics :: "'a cron_result" where
  "panics \<equiv> Some (Inl IndexOutOfRange)"

abbreviation returns :: "'a \<Rightarrow> 'a cron_result" where
  "returns x \<equiv> Some (Inr x)"

definition and_then :: "'a cron_result \<Rightarrow> ('a \<Rightarrow> 'b cron_result) \<Rightarrow> 'b cron_result" where
  "and_then r f =
     (case r of None \<Rightarrow> None | Some (Inl p) \<Rightarrow> Some (Inl p) | Some (Inr x) \<Rightarrow> f x)"

definition search_ints :: "int list \<Rightarrow> int \<Rightarrow> nat" where
  "search_ints xs v = length (takeWhile (\<lambda>x. x < v) xs)"

subsection \<open>The days of a month\<close>

definition dowNormalizedOffsets :: "int list list" where
  "dowNormalizedOffsets =
     [[1, 8, 15, 22, 29], [2, 9, 16, 23, 30], [3, 10, 17, 24, 31], [4, 11, 18, 25],
      [5, 12, 19, 26], [6, 13, 20, 27], [7, 14, 21, 28]]"

definition workdayOfMonth :: "instant \<Rightarrow> instant \<Rightarrow> int" where
  "workdayOfMonth targetDom lastDom =
     (let dom = Day targetDom; dow = Weekday targetDom in
      if dow = 6 then (if dom > 1 then dom - 1 else dom + 2)
      else if dow = 0 then (if dom < Day lastDom then dom + 1 else dom - 2)
      else dom)"

definition month_days :: "expression \<Rightarrow> instant \<Rightarrow> instant \<Rightarrow> int set" where
  "month_days e firstDay lastDay =
     (if lastDayOfMonth e then {Day lastDay} else {}) \<union>
     (if lastWorkdayOfMonth e then {workdayOfMonth lastDay lastDay} else {}) \<union>
     Set.filter (\<lambda>v. v \<le> Day lastDay) (daysOfMonth e) \<union>
     (\<lambda>v. workdayOfMonth (AddDate firstDay 0 0 (v - 1)) lastDay) `
       Set.filter (\<lambda>v. v \<le> Day lastDay) (workdaysOfMonth e)"

definition week_days :: "instant \<Rightarrow> int \<Rightarrow> int \<Rightarrow> int set" where
  "week_days lastDay offset v =
     (let w = dowNormalizedOffsets ! nat ((offset + v) mod 7) in
      {w ! 0, w ! 1, w ! 2, w ! 3} \<union>
      (if length w > 4 \<and> w ! 4 \<le> Day lastDay then {w ! 4} else {}))"

definition weekly_days :: "expression \<Rightarrow> instant \<Rightarrow> instant \<Rightarrow> int set" where
  "weekly_days e firstDay lastDay =
     (let offset = 7 - Weekday firstDay;
          lastWeekOrigin = AddDate firstDay 0 1 (- 7);
          lastOffset = 7 - Weekday lastWeekOrigin in
      \<Union> (week_days lastDay offset ` daysOfWeek e) \<union>
      Set.filter (\<lambda>v. v \<le> Day lastDay)
        ((\<lambda>v. 1 + 7 * (v div 7) + (offset + v) mod 7) ` specificWeekDaysOfWeek e) \<union>
      Set.filter (\<lambda>v. v \<le> Day lastDay)
        ((\<lambda>v. Day lastWeekOrigin + (lastOffset + v) mod 7) ` lastWeekDaysOfWeek e))"

definition calculateActualDaysOfMonth :: "expression \<Rightarrow> int \<Rightarrow> int \<Rightarrow> int list" where
  "calculateActualDaysOfMonth e year month =
     (let firstDay = go_date year month 1 0 0 0; lastDay = AddDate firstDay 0 1 (- 1) in
      if \<not> daysOfMonthRestricted e \<and> \<not> daysOfWeekRestricted e then [1..Day lastDay]
      else sorted_list_of_set
        ((if daysOfMonthRestricted e then month_days e firstDay lastDay else {}) \<union>
         (if daysOfWeekRestricted e then weekly_days e firstDay lastDay else {})))"

subsection \<open>The next matching instant\<close>

text \<open>The dates \<open>nextYear\<close> to \<open>nextSecond\<close> build: the given day at the first time of day.\<close>

definition date_first :: "expression \<Rightarrow> int \<Rightarrow> int \<Rightarrow> int \<Rightarrow> cron_panic + instant" where
  "date_first e y m d =
     (if hourList e = [] \<or> minuteList e = [] \<or> secondList e = [] then Inl IndexOutOfRange
      else Inr (go_date y m d (hourList e ! 0) (minuteList e ! 0) (secondList e ! 0)))"

datatype level = ByYear | ByMonth

partial_function (option) nextYM :: "expression \<Rightarrow> level \<Rightarrow> instant \<Rightarrow> instant cron_result" where
  "nextYM e l t =
     (case l of
        ByYear \<Rightarrow>
          (let i = search_ints (yearList e) (Year t + 1) in
           if i = length (yearList e) then returns zero_time
           else if monthList e = [] then panics
           else
             let year = yearList e ! i; month = monthList e ! 0;
                 days = calculateActualDaysOfMonth e year month in
             if days = [] then
               (case date_first e year month 1 of
                  Inl p \<Rightarrow> Some (Inl p)
                | Inr t' \<Rightarrow> nextYM e ByMonth t')
             else Some (date_first e year month (days ! 0)))
      | ByMonth \<Rightarrow>
          (let i = search_ints (monthList e) (Month t + 1) in
           if i = length (monthList e) then nextYM e ByYear t
           else
             let month = monthList e ! i;
                 days = calculateActualDaysOfMonth e (Year t) month in
             if days = [] then
               (case date_first e (Year t) month 1 of
                  Inl p \<Rightarrow> Some (Inl p)
                | Inr t' \<Rightarrow> nextYM e ByMonth t')
             else Some (date_first e (Year t) month (days ! 0))))"

declare nextYM.simps [code]

definition nextYear :: "expression \<Rightarrow> instant \<Rightarrow> instant cron_result" where
  "nextYear e t = nextYM e ByYear t"

definition nextMonth :: "expression \<Rightarrow> instant \<Rightarrow> instant cron_result" where
  "nextMonth e t = nextYM e ByMonth t"

definition nextDayOfMonth :: "expression \<Rightarrow> instant \<Rightarrow> int list \<Rightarrow> instant cron_result" where
  "nextDayOfMonth e t days =
     (let i = search_ints days (Day t + 1) in
      if i = length days then nextMonth e t
      else Some (date_first e (Year t) (Month t) (days ! i)))"

definition nextHour :: "expression \<Rightarrow> instant \<Rightarrow> int list \<Rightarrow> instant cron_result" where
  "nextHour e t days =
     (let i = search_ints (hourList e) (Hour t + 1) in
      if i = length (hourList e) then nextDayOfMonth e t days
      else if minuteList e = [] \<or> secondList e = [] then panics
      else returns (go_date (Year t) (Month t) (Day t) (hourList e ! i)
        (minuteList e ! 0) (secondList e ! 0)))"

definition nextMinute :: "expression \<Rightarrow> instant \<Rightarrow> int list \<Rightarrow> instant cron_result" where
  "nextMinute e t days =
     (let i = search_ints (minuteList e) (Minute t + 1) in
      if i = length (minuteList e) then nextHour e t days
      else if secondList e = [] then panics
      else returns (go_date (Year t) (Month t) (Day t) (Hour t)
        (minuteList e ! i) (secondList e ! 0)))"

definition nextSecond :: "expression \<Rightarrow> instant \<Rightarrow> int list \<Rightarrow> instant cron_result" where
  "nextSecond e t days =
     (let i = search_ints (secondList e) (Second t + 1) in
      if i = length (secondList e) then nextMinute e t days
      else returns (go_date (Year t) (Month t) (Day t) (Hour t) (Minute t) (secondList e ! i)))"

text \<open>\<open>Next\<close> once the year and the month match; \<open>days\<close> are the days of that month.\<close>

definition Next_in_month :: "expression \<Rightarrow> instant \<Rightarrow> int list \<Rightarrow> instant cron_result" where
  "Next_in_month e t days =
     (if days = [] then nextMonth e t
      else
        let i = search_ints days (Day t) in
        if i = length days then nextMonth e t
        else if Day t \<noteq> days ! i then nextDayOfMonth e t days
        else
        let i = search_ints (hourList e) (Hour t) in
        if i = length (hourList e) then nextDayOfMonth e t days
        else if Hour t \<noteq> hourList e ! i then nextHour e t days
        else
        let i = search_ints (minuteList e) (Minute t) in
        if i = length (minuteList e) then nextHour e t days
        else if Minute t \<noteq> minuteList e ! i then nextMinute e t days
        else
        let i = search_ints (secondList e) (Second t) in
        if i = length (secondList e) then nextMinute e t days
        else nextSecond e t days)"

definition Next :: "expression \<Rightarrow> instant \<Rightarrow> instant cron_result" where
  "Next e t =
     (if t = zero_time then returns t
      else
        let i = search_ints (yearList e) (Year t) in
        if i = length (yearList e) then returns zero_time
        else if Year t \<noteq> yearList e ! i then nextYear e t
        else
        let i = search_ints (monthList e) (Month t) in
        if i = length (monthList e) then nextYear e t
        else if Month t \<noteq> monthList e ! i then nextMonth e t
        else Next_in_month e t (calculateActualDaysOfMonth e (Year t) (Month t)))"

fun nextN_loop :: "expression \<Rightarrow> instant \<Rightarrow> nat \<Rightarrow> instant list cron_result" where
  "nextN_loop e t 0 = returns []"
| "nextN_loop e t (Suc n) =
     (if t = zero_time then returns []
      else if n = 0 then returns [t]
      else and_then (nextSecond e t (calculateActualDaysOfMonth e (Year t) (Month t)))
             (\<lambda>t'. and_then (nextN_loop e t' n) (\<lambda>ts. returns (t # ts))))"

definition NextN :: "expression \<Rightarrow> instant \<Rightarrow> nat \<Rightarrow> instant list cron_result" where
  "NextN e t n =
     (if n = 0 then returns [] else and_then (Next e t) (\<lambda>t'. nextN_loop e t' n))"

subsection \<open>The last matching instant\<close>

definition last_of :: "int list \<Rightarrow> int" where
  "last_of xs = xs ! (length xs - 1)"

definition date_last :: "expression \<Rightarrow> int \<Rightarrow> int \<Rightarrow> int \<Rightarrow> cron_panic + instant" where
  "date_last e y m d =
     (if hourList e = [] \<or> minuteList e = [] \<or> secondList e = [] then Inl IndexOutOfRange
      else Inr (go_date y m d (last_of (hourList e)) (last_of (minuteList e))
        (last_of (secondList e))))"

text \<open>The entry the \<open>last\<close> functions pick: the candidate itself, or the entry before it.\<close>

definition candidate :: "int list \<Rightarrow> int \<Rightarrow> int option" where
  "candidate xs v =
     (let i = search_ints xs v in
      if i < length xs \<and> v = xs ! i then Some (xs ! i)
      else if i = 0 then None
      else Some (xs ! (i - 1)))"

definition step_back :: "bool \<Rightarrow> int \<Rightarrow> int" where
  "step_back acc v = (if acc then v - 1 else v)"

partial_function (option) lastYM ::
  "expression \<Rightarrow> level \<Rightarrow> instant \<Rightarrow> bool \<Rightarrow> instant cron_result" where
  "lastYM e l t acc =
     (case l of
        ByYear \<Rightarrow>
          (case candidate (yearList e) (step_back acc (Year t)) of
             None \<Rightarrow> returns zero_time
           | Some year \<Rightarrow>
               if monthList e = [] then panics
               else
                 let month = last_of (monthList e);
                     days = calculateActualDaysOfMonth e year month in
                 if days = [] then
                   (case date_last e year month 1 of
                      Inl p \<Rightarrow> Some (Inl p)
                    | Inr t' \<Rightarrow> lastYM e ByMonth t' True)
                 else Some (date_last e year month (last_of days)))
      | ByMonth \<Rightarrow>
          (case candidate (monthList e) (step_back acc (Month t)) of
             None \<Rightarrow> lastYM e ByYear t True
           | Some month \<Rightarrow>
               let days = calculateActualDaysOfMonth e (Year t) month in
               if days = [] then
                 (case date_last e (Year t) month 1 of
                    Inl p \<Rightarrow> Some (Inl p)
                  | Inr t' \<Rightarrow> lastYM e ByMonth t' True)
               else Some (date_last e (Year t) month (last_of days))))"

declare lastYM.simps [code]

definition lastYear :: "expression \<Rightarrow> instant \<Rightarrow> bool \<Rightarrow> instant cron_result" where
  "lastYear e t acc = lastYM e ByYear t acc"

definition lastMonth :: "expression \<Rightarrow> instant \<Rightarrow> bool \<Rightarrow> instant cron_result" where
  "lastMonth e t acc = lastYM e ByMonth t acc"

definition lastActualDayOfMonth ::
  "expression \<Rightarrow> instant \<Rightarrow> int list \<Rightarrow> bool \<Rightarrow> instant cron_result" where
  "lastActualDayOfMonth e t days acc =
     (case candidate days (step_back acc (Day t)) of
        None \<Rightarrow> lastMonth e t True
      | Some day \<Rightarrow> Some (date_last e (Year t) (Month t) day))"

definition lastHour :: "expression \<Rightarrow> instant \<Rightarrow> int list \<Rightarrow> bool \<Rightarrow> instant cron_result" where
  "lastHour e t days acc =
     (case candidate (hourList e) (step_back acc (Hour t)) of
        None \<Rightarrow> lastActualDayOfMonth e t days True
      | Some hour \<Rightarrow>
          if minuteList e = [] \<or> secondList e = [] then panics
          else returns (go_date (Year t) (Month t) (Day t) hour
            (last_of (minuteList e)) (last_of (secondList e))))"

text \<open>Here the source steps back when \<open>acc\<close> does not hold.\<close>

definition lastMinute :: "expression \<Rightarrow> instant \<Rightarrow> int list \<Rightarrow> bool \<Rightarrow> instant cron_result" where
  "lastMinute e t days acc =
     (case candidate (minuteList e) (step_back (\<not> acc) (Minute t)) of
        None \<Rightarrow> lastHour e t days True
      | Some minute \<Rightarrow>
          if secondList e = [] then panics
          else returns (go_date (Year t) (Month t) (Day t) (Hour t) minute
            (last_of (secondList e))))"

definition lastSecond :: "expression \<Rightarrow> instant \<Rightarrow> int list \<Rightarrow> instant cron_result" where
  "lastSecond e t days =
     (let v = Second t - 1; i = search_ints (secondList e) v in
      if i = length (secondList e) \<or> secondList e ! i \<noteq> v then lastMinute e t days False
      else returns (go_date (Year t) (Month t) (Day t) (Hour t) (Minute t) (secondList e ! i)))"

text \<open>
  How \<open>Last\<close> reads each list: it looks at the entry at the found index first when that index
  is 0, which panics on an empty list.
\<close>

datatype probed = NoEntry | Before | Between | Exact

definition probe :: "int list \<Rightarrow> int \<Rightarrow> probed" where
  "probe xs v =
     (let i = search_ints xs v in
      if i = 0 \<and> xs = [] then NoEntry
      else if i = 0 \<and> v \<noteq> xs ! i then Before
      else if i = length xs \<or> v \<noteq> xs ! i then Between
      else Exact)"

definition Last_in_month :: "expression \<Rightarrow> instant \<Rightarrow> int list \<Rightarrow> instant cron_result" where
  "Last_in_month e t days =
     (case probe days (Day t) of
        NoEntry \<Rightarrow> lastMonth e t True | Before \<Rightarrow> lastMonth e t True
      | Between \<Rightarrow> lastActualDayOfMonth e t days False
      | Exact \<Rightarrow>
      (case probe (hourList e) (Hour t) of
        NoEntry \<Rightarrow> panics | Before \<Rightarrow> lastActualDayOfMonth e t days True
      | Between \<Rightarrow> lastHour e t days False
      | Exact \<Rightarrow>
      (case probe (minuteList e) (Minute t) of
        NoEntry \<Rightarrow> panics | Before \<Rightarrow> lastHour e t days True
      | Between \<Rightarrow> lastMinute e t days False
      | Exact \<Rightarrow>
         if search_ints (secondList e) (Second t) = length (secondList e)
         then lastMinute e t days True
         else lastSecond e t days)))"

definition Last :: "expression \<Rightarrow> instant \<Rightarrow> instant cron_result" where
  "Last e t =
     (if t = zero_time then returns t
      else case probe (yearList e) (Year t) of
        NoEntry \<Rightarrow> panics | Before \<Rightarrow> returns zero_time | Between \<Rightarrow> lastYear e t False
      | Exact \<Rightarrow>
      (case probe (monthList e) (Month t) of
        NoEntry \<Rightarrow> panics | Before \<Rightarrow> lastYear e t True | Between \<Rightarrow> lastMonth e t False
      | Exact \<Rightarrow> Last_in_month e t (calculateActualDaysOfMonth e (Year t) (Month t))))"

end
