(* ===== verification/Cron_Days.thy ===== *)
theory Cron_Days
  imports Cron
begin

section \<open>The days a cron expression selects\<close>

text \<open>
  The offset arithmetic of \<open>calculateActualDaysOfMonth\<close> against a reference definition on the
  calendar: which days of a month match the two day fields, stated with weekdays only.
\<close>

subsection \<open>Reference definition\<close>

definition weekday_of :: "int \<Rightarrow> int \<Rightarrow> int \<Rightarrow> int" where
  "weekday_of y m d = (day_number y m d + 1) mod 7"

text \<open>The weekday nearest to a day within its month, Saturday and Sunday being no work days.\<close>

definition nearest_workday :: "int \<Rightarrow> int \<Rightarrow> int \<Rightarrow> int" where
  "nearest_workday y m d =
     (if weekday_of y m d = 6 then (if d = 1 then 3 else d - 1)
      else if weekday_of y m d = 0 then (if d = days_in_month y m then d - 2 else d + 1)
      else d)"

definition dom_matches :: "expression \<Rightarrow> int \<Rightarrow> int \<Rightarrow> int \<Rightarrow> bool" where
  "dom_matches e y m d \<longleftrightarrow>
     d \<in> daysOfMonth e \<or> lastDayOfMonth e \<and> d = days_in_month y m \<or>
     lastWorkdayOfMonth e \<and> d = nearest_workday y m (days_in_month y m) \<or>
     (\<exists>v\<in>workdaysOfMonth e. v \<le> days_in_month y m \<and> d = nearest_workday y m v)"

text \<open>\<open>5#3\<close> is stored as \<open>7 * 2 + 5\<close>: the third Friday; \<open>5L\<close> is the last Friday.\<close>

definition dow_matches :: "expression \<Rightarrow> int \<Rightarrow> int \<Rightarrow> int \<Rightarrow> bool" where
  "dow_matches e y m d \<longleftrightarrow>
     weekday_of y m d \<in> daysOfWeek e \<or>
     7 * ((d - 1) div 7) + weekday_of y m d \<in> specificWeekDaysOfWeek e \<or>
     weekday_of y m d \<in> lastWeekDaysOfWeek e \<and> days_in_month y m - 7 < d"

definition day_matches :: "expression \<Rightarrow> int \<Rightarrow> int \<Rightarrow> int \<Rightarrow> bool" where
  "day_matches e y m d \<longleftrightarrow>
     (\<not> daysOfMonthRestricted e \<and> \<not> daysOfWeekRestricted e \<or>
      daysOfMonthRestricted e \<and> dom_matches e y m d \<or>
      daysOfWeekRestricted e \<and> dow_matches e y m d)"

text \<open>What the parser guarantees of the sets of the two day fields.\<close>

definition wf_days :: "expression \<Rightarrow> bool" where
  "wf_days e \<longleftrightarrow>
     daysOfMonth e \<subseteq> {1..31} \<and> workdaysOfMonth e \<subseteq> {1..31} \<and> daysOfWeek e \<subseteq> {0..6} \<and>
     specificWeekDaysOfWeek e \<subseteq> {0..34} \<and> lastWeekDaysOfWeek e \<subseteq> {0..6}"

subsection \<open>Dates of one month\<close>

lemma date_in_month:
  assumes "1 \<le> m" "m \<le> 12" "1 \<le> d" "d \<le> days_in_month y m"
  shows "Day (go_date y m d 0 0 0) = d" "Weekday (go_date y m d 0 0 0) = weekday_of y m d"
    "Year (go_date y m d 0 0 0) = y" "Month (go_date y m d 0 0 0) = m"
proof -
  have "valid_date y m d" "valid_clock 0 0 0" using assms by (simp_all add: valid_date_def valid_clock_def)
  then show "Day (go_date y m d 0 0 0) = d" "Weekday (go_date y m d 0 0 0) = weekday_of y m d"
    "Year (go_date y m d 0 0 0) = y" "Month (go_date y m d 0 0 0) = m"
    by (simp_all add: civil_simps Weekday_def weekday_of_def day_of_go_date)
qed

lemma go_date_next_month:
  assumes "1 \<le> m" "m \<le> 12"
  shows "go_date y (m + 1) d 0 0 0 = go_date y m (days_in_month y m + d) 0 0 0"
  using month_start_step [of "12 * y + m - 1"] month_length_index [OF assms]
  by (simp add: go_date_def day_number_def algebra_simps)

lemma AddDate_first:
  assumes "1 \<le> m" "m \<le> 12"
  shows "AddDate (go_date y m 1 0 0 0) 0 1 (- 1) = go_date y m (days_in_month y m) 0 0 0"
    and "AddDate (go_date y m 1 0 0 0) 0 1 (- 7) = go_date y m (days_in_month y m - 6) 0 0 0"
    and "AddDate (go_date y m 1 0 0 0) 0 0 (v - 1) = go_date y m v 0 0 0"
proof -
  have "1 \<le> days_in_month y m" using days_in_month_bounds [of y m] by simp
  note f = date_in_month [OF assms order_refl this]
  have c: "Hour (go_date y m 1 0 0 0) = 0" "Minute (go_date y m 1 0 0 0) = 0"
    "Second (go_date y m 1 0 0 0) = 0" by (simp_all add: clock_go_date valid_clock_def)
  show "AddDate (go_date y m 1 0 0 0) 0 1 (- 1) = go_date y m (days_in_month y m) 0 0 0"
    "AddDate (go_date y m 1 0 0 0) 0 1 (- 7) = go_date y m (days_in_month y m - 6) 0 0 0"
    "AddDate (go_date y m 1 0 0 0) 0 0 (v - 1) = go_date y m v 0 0 0"
    using go_date_next_month [OF assms, of y 0] go_date_next_month [OF assms, of y "- 6"]
    by (simp_all add: AddDate_def f c)
qed

text \<open>Weekdays along a month.\<close>

lemma weekday_shift: "weekday_of y m d = (weekday_of y m c + (d - c)) mod 7"
proof -
  have "day_number y m d + 1 = (day_number y m c + 1) + (d - c)" by (simp add: day_number_def)
  then show ?thesis unfolding weekday_of_def by (simp only: mod_add_left_eq)
qed

lemma weekday_range: "0 \<le> weekday_of y m d" "weekday_of y m d < 7"
  by (simp_all add: weekday_of_def)

text \<open>The day with weekday \<open>v\<close> among the seven from day \<open>c\<close> on.\<close>

lemma mod_shift_iff:
  assumes "0 \<le> v" "v < (n::int)"
  shows "(a + x) mod n = v \<longleftrightarrow> x mod n = (n - a + v) mod n"
proof -
  have "(a + x) mod n = v \<longleftrightarrow> (a + x) mod n = v mod n" using assms by simp
  also have "\<dots> \<longleftrightarrow> n dvd (a + x - v)" by (rule mod_eq_dvd_iff)
  also have "\<dots> \<longleftrightarrow> n dvd (x - (n - a + v))"
    using dvd_add_left_iff [of n n "x - (n - a + v)"] by (simp add: algebra_simps)
  finally show ?thesis by (simp add: mod_eq_dvd_iff)
qed

lemma div_mod_iff: "0 \<le> r \<Longrightarrow> r < n \<Longrightarrow> x = n * k + r \<longleftrightarrow> x div n = k \<and> x mod n = (r::int)"
  using int_div_pos_eq [of x n k r] int_mod_pos_eq [of x n k r] mult_div_mod_eq [of n x]
  by metis

lemma offset_weekday:
  assumes "0 \<le> v" "v < 7"
  shows "d = c + (7 - weekday_of y m c + v) mod 7 + 7 * k \<longleftrightarrow>
    weekday_of y m d = v \<and> (d - c) div 7 = k"
proof -
  let ?r = "(7 - weekday_of y m c + v) mod 7"
  have "d = c + ?r + 7 * k \<longleftrightarrow> d - c = 7 * k + ?r" by linarith
  also have "\<dots> \<longleftrightarrow> (d - c) div 7 = k \<and> (d - c) mod 7 = ?r"
    by (rule div_mod_iff) simp_all
  also have "\<dots> \<longleftrightarrow> weekday_of y m d = v \<and> (d - c) div 7 = k"
    using mod_shift_iff [OF assms, of "weekday_of y m c" "d - c"] weekday_shift [of y m d c] by auto
  finally show ?thesis .
qed

text \<open>Rows of the table, and the other two formulas.\<close>

lemma dow_row:
  assumes "0 \<le> r" "r < 7" "28 \<le> Day l" "Day l \<le> 31"
  shows "(let w = dowNormalizedOffsets ! nat r in
      {w ! 0, w ! 1, w ! 2, w ! 3} \<union> (if length w > 4 \<and> w ! 4 \<le> Day l then {w ! 4} else {})) =
    {d. 1 \<le> d \<and> d \<le> Day l \<and> (d - 1) mod 7 = r}"
proof -
  have s: "{d. 1 \<le> d \<and> d \<le> u \<and> P d} = set (filter P [1..u])" for u :: int and P
    by auto
  have "r = 0 \<or> r = 1 \<or> r = 2 \<or> r = 3 \<or> r = 4 \<or> r = 5 \<or> r = 6"
    "Day l = 28 \<or> Day l = 29 \<or> Day l = 30 \<or> Day l = 31" using assms by linarith+
  then show ?thesis
    unfolding s by (elim disjE) (simp_all add: dowNormalizedOffsets_def upto_rec1 Let_def)
qed

lemma week_days_exact:
  assumes m: "1 \<le> m" "m \<le> 12" and v: "0 \<le> v" "v < 7" and l: "Day l = days_in_month y m"
  shows "week_days l (7 - weekday_of y m 1) v =
    {d. 1 \<le> d \<and> d \<le> days_in_month y m \<and> weekday_of y m d = v}"
proof -
  have "(d - 1) mod 7 = (7 - weekday_of y m 1 + v) mod 7 \<longleftrightarrow> weekday_of y m d = v" for d
    using mod_shift_iff [OF v, of "weekday_of y m 1" "d - 1"] weekday_shift [of y m d 1] by auto
  then show ?thesis
    using dow_row [of "(7 - weekday_of y m 1 + v) mod 7" l] l days_in_month_bounds [of y m]
    by (simp add: week_days_def)
qed

lemma specific_day:
  assumes "0 \<le> v"
  shows "1 + 7 * (v div 7) + (7 - weekday_of y m 1 + v) mod 7 = d \<longleftrightarrow>
    v = 7 * ((d - 1) div 7) + weekday_of y m d"
proof -
  have r: "(7 - weekday_of y m 1 + v) mod 7 = (7 - weekday_of y m 1 + v mod 7) mod 7"
    by (rule mod_add_right_eq [symmetric])
  have "1 + 7 * (v div 7) + (7 - weekday_of y m 1 + v) mod 7 = d \<longleftrightarrow>
      d = 1 + (7 - weekday_of y m 1 + v mod 7) mod 7 + 7 * (v div 7)"
    unfolding r by linarith
  also have "\<dots> \<longleftrightarrow> weekday_of y m d = v mod 7 \<and> (d - 1) div 7 = v div 7"
    by (rule offset_weekday) simp_all
  also have "\<dots> \<longleftrightarrow> v = 7 * ((d - 1) div 7) + weekday_of y m d"
    using div_mod_iff [of "weekday_of y m d" 7 v "(d - 1) div 7"] weekday_range [of y m d] by auto
  finally show ?thesis .
qed

lemma last_week_day:
  assumes "0 \<le> v" "v < 7"
  shows "n - 6 + (7 - weekday_of y m (n - 6) + v) mod 7 = d \<longleftrightarrow>
    weekday_of y m d = v \<and> n - 7 < d \<and> d \<le> n"
proof -
  have "(d - (n - 6)) div 7 = 0 \<longleftrightarrow> n - 7 < d \<and> d \<le> n"
    by presburger
  then show ?thesis using offset_weekday [OF assms, of d "n - 6" y m 0] by auto
qed

subsection \<open>The two day fields\<close>

lemma workdayOfMonth_eq:
  assumes "1 \<le> m" "m \<le> 12" "1 \<le> d" "d \<le> days_in_month y m"
  shows "workdayOfMonth (go_date y m d 0 0 0) (go_date y m (days_in_month y m) 0 0 0) =
    nearest_workday y m d"
proof -
  have "1 \<le> days_in_month y m" using days_in_month_bounds [of y m] by simp
  note f = date_in_month [OF assms] date_in_month [OF assms(1,2) this order_refl]
  show ?thesis using assms by (simp add: workdayOfMonth_def nearest_workday_def f)
qed

lemma nearest_workday_range:
  "1 \<le> d \<Longrightarrow> d \<le> days_in_month y m \<Longrightarrow>
     1 \<le> nearest_workday y m d \<and> nearest_workday y m d \<le> days_in_month y m"
  using days_in_month_bounds [of y m] by (auto simp: nearest_workday_def)

lemma month_days_exact:
  assumes m: "1 \<le> m" "m \<le> 12" and wf: "wf_days e"
  shows "month_days e (go_date y m 1 0 0 0) (go_date y m (days_in_month y m) 0 0 0) =
    {d. 1 \<le> d \<and> d \<le> days_in_month y m \<and> dom_matches e y m d}"
proof -
  define n where "n = days_in_month y m"
  have n: "1 \<le> n" "n \<le> days_in_month y m" using days_in_month_bounds [of y m] by (simp_all add: n_def)
  let ?l = "go_date y m n 0 0 0"
  have l: "Day ?l = n" by (rule date_in_month(1) [OF m n])
  have w: "workdayOfMonth (AddDate (go_date y m 1 0 0 0) 0 0 (v - 1)) ?l = nearest_workday y m v"
    if "v \<in> workdaysOfMonth e" "v \<le> n" for v
    using that wf AddDate_first(3) [OF m, of y v] workdayOfMonth_eq [OF m, of v y]
    by (auto simp: wf_days_def n_def)
  have "(\<lambda>v. workdayOfMonth (AddDate (go_date y m 1 0 0 0) 0 0 (v - 1)) ?l) `
      Set.filter (\<lambda>v. v \<le> n) (workdaysOfMonth e) =
    nearest_workday y m ` Set.filter (\<lambda>v. v \<le> n) (workdaysOfMonth e)"
    by (rule image_cong) (auto simp: w)
  moreover have "workdayOfMonth ?l ?l = nearest_workday y m n"
    using workdayOfMonth_eq [OF m n] by (simp add: n_def)
  moreover have "1 \<le> v" "v \<in> workdaysOfMonth e \<Longrightarrow> 1 \<le> v"
    if "v \<in> daysOfMonth e \<or> v \<in> workdaysOfMonth e" for v
    using that wf by (auto simp: wf_days_def)
  ultimately show ?thesis
    using nearest_workday_range [of _ y m] n wf
    by (auto simp: month_days_def dom_matches_def n_def [symmetric] l wf_days_def)
qed

lemma weekly_days_exact:
  assumes m: "1 \<le> m" "m \<le> 12" and wf: "wf_days e"
  shows "weekly_days e (go_date y m 1 0 0 0) (go_date y m (days_in_month y m) 0 0 0) =
    {d. 1 \<le> d \<and> d \<le> days_in_month y m \<and> dow_matches e y m d}"
proof -
  define n where "n = days_in_month y m"
  have n: "7 \<le> n" "1 \<le> n" "n \<le> days_in_month y m" "1 \<le> n - 6" "n - 6 \<le> days_in_month y m"
      "1 \<le> days_in_month y m"
    using days_in_month_bounds [of y m] by (simp_all add: n_def)
  let ?l = "go_date y m n 0 0 0" and ?f = "go_date y m 1 0 0 0"
  have l: "Day ?l = n" by (rule date_in_month(1) [OF m n(2,3)])
  have wd: "Weekday ?f = weekday_of y m 1" by (rule date_in_month(2) [OF m order_refl n(6)])
  have o: "AddDate ?f 0 1 (- 7) = go_date y m (n - 6) 0 0 0"
    using AddDate_first(2) [OF m, of y] by (simp add: n_def)
  have od: "Day (go_date y m (n - 6) 0 0 0) = n - 6"
    "Weekday (go_date y m (n - 6) 0 0 0) = weekday_of y m (n - 6)"
    by (rule date_in_month [OF m n(4,5)])+
  have a: "week_days ?l (7 - weekday_of y m 1) v = {d. 1 \<le> d \<and> d \<le> n \<and> weekday_of y m d = v}"
    if "v \<in> daysOfWeek e" for v
    using that wf week_days_exact [OF m, of v ?l y] l by (auto simp: wf_days_def n_def)
  have b: "d = 1 + 7 * (v div 7) + (7 - weekday_of y m 1 + v) mod 7 \<longleftrightarrow>
      v = 7 * ((d - 1) div 7) + weekday_of y m d" if "v \<in> specificWeekDaysOfWeek e" for v d
    using specific_day [of v y m d] that wf by (auto simp: wf_days_def)
  have c: "d = n - 6 + (7 - weekday_of y m (n - 6) + v) mod 7 \<longleftrightarrow>
      weekday_of y m d = v \<and> n - 7 < d \<and> d \<le> n" if "v \<in> lastWeekDaysOfWeek e" for v d
    using last_week_day [of v n y m d] that wf by (auto simp: wf_days_def)
  have b1: "1 \<le> 1 + 7 * (v div 7) + (7 - weekday_of y m 1 + v) mod 7"
    if "v \<in> specificWeekDaysOfWeek e" for v
    using that wf by (auto simp: wf_days_def pos_imp_zdiv_nonneg_iff)
  have b2: "1 \<le> d" if "7 * ((d - 1) div 7) + weekday_of y m d \<in> specificWeekDaysOfWeek e" for d
    using b [OF that, of d] b1 [OF that] by simp
  have "(\<lambda>v. week_days ?l (7 - weekday_of y m 1) v) ` daysOfWeek e =
      (\<lambda>v. {d. 1 \<le> d \<and> d \<le> n \<and> weekday_of y m d = v}) ` daysOfWeek e"
    by (rule image_cong) (simp_all add: a)
  then have A: "\<Union> (week_days ?l (7 - weekday_of y m 1) ` daysOfWeek e) =
      {d. 1 \<le> d \<and> d \<le> n \<and> weekday_of y m d \<in> daysOfWeek e}" by auto
  have B: "Set.filter (\<lambda>v. v \<le> n)
        ((\<lambda>v. 1 + 7 * (v div 7) + (7 - weekday_of y m 1 + v) mod 7) ` specificWeekDaysOfWeek e) =
      {d. 1 \<le> d \<and> d \<le> n \<and> 7 * ((d - 1) div 7) + weekday_of y m d \<in> specificWeekDaysOfWeek e}"
    using b b2 by (auto simp: image_iff)
  have C: "Set.filter (\<lambda>v. v \<le> n)
        ((\<lambda>v. n - 6 + (7 - weekday_of y m (n - 6) + v) mod 7) ` lastWeekDaysOfWeek e) =
      {d. 1 \<le> d \<and> d \<le> n \<and> weekday_of y m d \<in> lastWeekDaysOfWeek e \<and> n - 7 < d}"
    using c n(1) by (auto simp: image_iff)
  show ?thesis
    unfolding weekly_days_def Let_def wd n_def [symmetric] l o od A B C
    by (auto simp: dow_matches_def n_def)
qed

lemma sorted_filter_upto:
  "sorted_list_of_set {d. 1 \<le> d \<and> d \<le> n \<and> P d} = filter P [1..n]"
proof -
  have "{d. 1 \<le> d \<and> d \<le> n \<and> P d} = set (filter P [1..n])" by auto
  then show ?thesis
    by (simp only: sorted_list_of_set.idem_if_sorted_distinct sorted_wrt_filter sorted_upto
        distinct_filter distinct_upto)
qed

lemma actual_days:
  assumes m: "1 \<le> m" "m \<le> 12" and wf: "wf_days e"
  shows "calculateActualDaysOfMonth e y m = filter (day_matches e y m) [1..days_in_month y m]"
proof -
  define n where "n = days_in_month y m"
  have n: "1 \<le> n" "n \<le> days_in_month y m" using days_in_month_bounds [of y m] by (simp_all add: n_def)
  let ?l = "go_date y m n 0 0 0" and ?f = "go_date y m 1 0 0 0"
  have l: "Day ?l = n" by (rule date_in_month(1) [OF m n])
  have "{d. 1 \<le> d \<and> d \<le> n \<and> day_matches e y m d} =
      (if daysOfMonthRestricted e then month_days e ?f ?l else {}) \<union>
      (if daysOfWeekRestricted e then weekly_days e ?f ?l else {})"
    if "daysOfMonthRestricted e \<or> daysOfWeekRestricted e"
    using that month_days_exact [OF m wf, of y] weekly_days_exact [OF m wf, of y]
    by (auto simp: day_matches_def n_def)
  note S = this [symmetric]
  show ?thesis
  proof (cases "daysOfMonthRestricted e \<or> daysOfWeekRestricted e")
    case True
    then show ?thesis
      unfolding calculateActualDaysOfMonth_def Let_def AddDate_first(1) [OF m] n_def [symmetric]
      by (auto simp: S sorted_filter_upto)
  next
    case False
    then show ?thesis
      unfolding calculateActualDaysOfMonth_def Let_def AddDate_first(1) [OF m] n_def [symmetric]
      by (simp add: l day_matches_def)
  qed
qed

end
