(* ===== verification/Cron_Next.thy ===== *)
theory Cron_Next
  imports Cron_Days
begin

section \<open>The search for the next match\<close>

text \<open>
  For a well-formed expression \<open>Next\<close> returns, and returns the least matching instant after the
  given one, or the zero time when there is none.  Each function of the source skips a level of
  the calendar: \<open>nextHour\<close> finds the least match in a later hour, \<open>nextMonth\<close> in a later month, and
  so on; \<open>later k\<close> compares the first \<open>k\<close> fields.
\<close>

named_theorems cron_found \<open>entries found by a search\<close>

definition wf_list :: "int \<Rightarrow> int \<Rightarrow> int list \<Rightarrow> bool" where
  "wf_list lo hi xs \<longleftrightarrow> xs \<noteq> [] \<and> sorted xs \<and> set xs \<subseteq> {lo..hi}"

definition wf_expression :: "expression \<Rightarrow> bool" where
  "wf_expression e \<longleftrightarrow>
     wf_list 0 59 (secondList e) \<and> wf_list 0 59 (minuteList e) \<and> wf_list 0 23 (hourList e) \<and>
     wf_list 1 12 (monthList e) \<and> wf_list 1970 2099 (yearList e) \<and> wf_days e"

definition matches :: "expression \<Rightarrow> instant \<Rightarrow> bool" where
  "matches e t \<longleftrightarrow>
     Year t \<in> set (yearList e) \<and> Month t \<in> set (monthList e) \<and>
     day_matches e (Year t) (Month t) (Day t) \<and> Hour t \<in> set (hourList e) \<and>
     Minute t \<in> set (minuteList e) \<and> Second t \<in> set (secondList e)"

definition later :: "nat \<Rightarrow> instant \<Rightarrow> instant \<Rightarrow> bool" where
  "later k t u \<longleftrightarrow> take k (time_fields t) < take k (time_fields u)"

definition least_match :: "expression \<Rightarrow> (instant \<Rightarrow> bool) \<Rightarrow> instant \<Rightarrow> bool" where
  "least_match e P r \<longleftrightarrow>
     (P r \<and> matches e r \<and> (\<forall>u. P u \<and> matches e u \<longrightarrow> r \<le> u)) \<or>
     (\<nexists>u. P u \<and> matches e u) \<and> r = zero_time"

lemma least_match_cong:
  "(\<And>u. matches e u \<Longrightarrow> P u \<longleftrightarrow> Q u) \<Longrightarrow> least_match e P r \<longleftrightarrow> least_match e Q r"
  unfolding least_match_def by blast

lemma least_matchI:
  "P r \<Longrightarrow> matches e r \<Longrightarrow> (\<And>u. P u \<Longrightarrow> matches e u \<Longrightarrow> r \<le> u) \<Longrightarrow> least_match e P r"
  unfolding least_match_def by blast

lemma least_match_none: "(\<And>u. matches e u \<Longrightarrow> \<not> P u) \<Longrightarrow> least_match e P zero_time"
  unfolding least_match_def by blast

subsection \<open>Searching a list\<close>

lemma search_none: "search_ints xs v = length xs \<Longrightarrow> x \<in> set xs \<Longrightarrow> x < v"
  unfolding search_ints_def by (metis set_takeWhileD takeWhile_eq_all_conv takeWhile_eq_take take_all order_refl)

lemma search_found:
  assumes "sorted xs" and "search_ints xs v \<noteq> length xs"
  shows "xs ! search_ints xs v \<in> set xs" "v \<le> xs ! search_ints xs v"
    "x \<in> set xs \<Longrightarrow> v \<le> x \<Longrightarrow> xs ! search_ints xs v \<le> x"
proof -
  let ?i = "search_ints xs v"
  have i: "?i < length xs"
    using assms(2) length_takeWhile_le [of "\<lambda>x. x < v" xs] by (simp add: search_ints_def)
  then show "xs ! ?i \<in> set xs" by simp
  show "v \<le> xs ! ?i"
    using nth_length_takeWhile [of "\<lambda>x. x < v" xs] i by (simp add: search_ints_def)
  assume "x \<in> set xs" "v \<le> x"
  then obtain j where j: "j < length xs" "xs ! j = x" by (metis in_set_conv_nth)
  have "\<not> j < ?i"
  proof
    assume "j < ?i"
    then have "xs ! j < v"
      unfolding search_ints_def by (metis nth_mem set_takeWhileD takeWhile_nth)
    with j \<open>v \<le> x\<close> show False by simp
  qed
  then show "xs ! ?i \<le> x" using assms(1) j sorted_nth_mono [of xs ?i j] by simp
qed

lemma wf_listD:
  assumes "wf_list lo hi xs"
  shows "xs \<noteq> []" "sorted xs" "x \<in> set xs \<Longrightarrow> lo \<le> x" "x \<in> set xs \<Longrightarrow> x \<le> hi"
    "xs ! 0 \<in> set xs" "x \<in> set xs \<Longrightarrow> xs ! 0 \<le> x"
proof -
  show "xs \<noteq> []" "sorted xs" "x \<in> set xs \<Longrightarrow> lo \<le> x" "x \<in> set xs \<Longrightarrow> x \<le> hi"
    using assms by (auto simp: wf_list_def)
  then show "xs ! 0 \<in> set xs" "x \<in> set xs \<Longrightarrow> xs ! 0 \<le> x"
    by (cases xs; auto)+
qed

lemma wf_expressionD:
  assumes "wf_expression e"
  shows "wf_list 0 59 (secondList e)" "wf_list 0 59 (minuteList e)" "wf_list 0 23 (hourList e)"
    "wf_list 1 12 (monthList e)" "wf_list 1970 2099 (yearList e)" "wf_days e"
  using assms by (simp_all add: wf_expression_def)

subsection \<open>Later fields\<close>

lemma later_unfold:
  "later 1 t u \<longleftrightarrow> Year t < Year u"
  "later 2 t u \<longleftrightarrow> later 1 t u \<or> Year t = Year u \<and> Month t < Month u"
  "later 3 t u \<longleftrightarrow> later 2 t u \<or> Year t = Year u \<and> Month t = Month u \<and> Day t < Day u"
  "later 4 t u \<longleftrightarrow> later 3 t u \<or> Year t = Year u \<and> Month t = Month u \<and> Day t = Day u \<and> Hour t < Hour u"
  "later 5 t u \<longleftrightarrow> later 4 t u \<or> Year t = Year u \<and> Month t = Month u \<and> Day t = Day u \<and>
     Hour t = Hour u \<and> Minute t < Minute u"
  "later 6 t u \<longleftrightarrow> later 5 t u \<or> Year t = Year u \<and> Month t = Month u \<and> Day t = Day u \<and>
     Hour t = Hour u \<and> Minute t = Minute u \<and> Second t < Second u"
  by (auto simp: later_def time_fields_def)

lemma later_year [simp]: "later (Suc 0) t u \<longleftrightarrow> Year t < Year u"
  by (simp add: later_def time_fields_def)

lemma later_all: "later 6 t = (<) t"
  by (rule ext) (simp add: less_fields [of t] later_def time_fields_def)

lemma later_le:
  "later 1 t u \<Longrightarrow> [Year t, m, d, h, mi, s] \<le> time_fields u"
  "later 2 t u \<Longrightarrow> [Year t, Month t, d, h, mi, s] \<le> time_fields u"
  "later 3 t u \<Longrightarrow> [Year t, Month t, Day t, h, mi, s] \<le> time_fields u"
  "later 4 t u \<Longrightarrow> [Year t, Month t, Day t, Hour t, mi, s] \<le> time_fields u"
  "later 5 t u \<Longrightarrow> [Year t, Month t, Day t, Hour t, Minute t, s] \<le> time_fields u"
  by (auto simp: later_def time_fields_def)

lemma lex_leI: "a \<le> b \<Longrightarrow> xs \<le> ys \<Longrightarrow> a # xs \<le> b # ys" for a b :: int
  by (auto simp: order_le_less)

subsection \<open>From the hour down\<close>

lemma clock_in_range:
  assumes "wf_expression e" and "h \<in> set (hourList e)" "mi \<in> set (minuteList e)" "s \<in> set (secondList e)"
  shows "valid_clock h mi s"
  using wf_expressionD [OF assms(1)] assms(2-4) wf_listD(3,4) unfolding valid_clock_def by fastforce

lemma matches_go_date:
  assumes "valid_date y m d" "valid_clock h mi s"
  shows "matches e (go_date y m d h mi s) \<longleftrightarrow>
    y \<in> set (yearList e) \<and> m \<in> set (monthList e) \<and> day_matches e y m d \<and>
    h \<in> set (hourList e) \<and> mi \<in> set (minuteList e) \<and> s \<in> set (secondList e)"
  using assms by (simp add: matches_def civil_simps)

definition at_day :: "expression \<Rightarrow> instant \<Rightarrow> bool" where
  "at_day e t \<longleftrightarrow> Year t \<in> set (yearList e) \<and> Month t \<in> set (monthList e) \<and>
     day_matches e (Year t) (Month t) (Day t)"

text \<open>The date a search builds is the least match among the instants it looks for.\<close>

lemma built_date:
  assumes wf: "wf_expression e" and d: "valid_date y m d"
    and c: "h \<in> set (hourList e)" "mi \<in> set (minuteList e)" "s \<in> set (secondList e)"
    and M: "y \<in> set (yearList e)" "m \<in> set (monthList e)" "day_matches e y m d"
    and P: "P (go_date y m d h mi s)"
    and least: "\<And>u. P u \<Longrightarrow> matches e u \<Longrightarrow> [y, m, d, h, mi, s] \<le> time_fields u"
  shows "least_match e P (go_date y m d h mi s)"
  using P least M c matches_go_date [OF d clock_in_range [OF wf c]]
  by (intro least_matchI) (simp_all add: le_fields time_fields_go_date [OF d clock_in_range [OF wf c]])

lemma firsts:
  assumes "wf_expression e"
  shows "hourList e \<noteq> []" "minuteList e \<noteq> []" "secondList e \<noteq> []" "monthList e \<noteq> []"
    "hourList e ! 0 \<in> set (hourList e)" "minuteList e ! 0 \<in> set (minuteList e)"
    "secondList e ! 0 \<in> set (secondList e)" "monthList e ! 0 \<in> set (monthList e)"
    "matches e u \<Longrightarrow> hourList e ! 0 \<le> Hour u" "matches e u \<Longrightarrow> minuteList e ! 0 \<le> Minute u"
    "matches e u \<Longrightarrow> secondList e ! 0 \<le> Second u" "matches e u \<Longrightarrow> monthList e ! 0 \<le> Month u"
proof -
  note L = wf_expressionD [OF assms]
  show "hourList e \<noteq> []" "minuteList e \<noteq> []" "secondList e \<noteq> []" "monthList e \<noteq> []"
    by (rule wf_listD(1) [OF L(3)] wf_listD(1) [OF L(2)] wf_listD(1) [OF L(1)] wf_listD(1) [OF L(4)])+
  show "hourList e ! 0 \<in> set (hourList e)" "minuteList e ! 0 \<in> set (minuteList e)"
    "secondList e ! 0 \<in> set (secondList e)" "monthList e ! 0 \<in> set (monthList e)"
    by (rule wf_listD(5) [OF L(3)] wf_listD(5) [OF L(2)] wf_listD(5) [OF L(1)] wf_listD(5) [OF L(4)])+
  assume "matches e u"
  then have M: "Hour u \<in> set (hourList e)" "Minute u \<in> set (minuteList e)"
    "Second u \<in> set (secondList e)" "Month u \<in> set (monthList e)" by (simp_all add: matches_def)
  show "hourList e ! 0 \<le> Hour u" "minuteList e ! 0 \<le> Minute u"
    "secondList e ! 0 \<le> Second u" "monthList e ! 0 \<le> Month u"
    by (rule wf_listD(6) [OF L(3) M(1)] wf_listD(6) [OF L(2) M(2)] wf_listD(6) [OF L(1) M(3)]
      wf_listD(6) [OF L(4) M(4)])+
qed

lemma date_first_wf:
  "wf_expression e \<Longrightarrow>
     date_first e y m d = Inr (go_date y m d (hourList e ! 0) (minuteList e ! 0) (secondList e ! 0))"
  by (simp add: date_first_def firsts)

lemma nextSecond_least:
  assumes wf: "wf_expression e" and at: "at_day e t" "Hour t \<in> set (hourList e)"
      "Minute t \<in> set (minuteList e)"
    and up: "\<exists>r. nextMinute e t days = returns r \<and> least_match e (later 5 t) r"
  shows "\<exists>r. nextSecond e t days = returns r \<and> least_match e (later 6 t) r"
proof (cases "search_ints (secondList e) (Second t + 1) = length (secondList e)")
  case True
  then have "least_match e (later 5 t) r \<longleftrightarrow> least_match e (later 6 t) r" for r
    by (intro least_match_cong) (auto simp: later_unfold(6) matches_def dest!: search_none)
  with up True show ?thesis by (simp add: nextSecond_def)
next
  case False
  note f = search_found [OF wf_listD(2) [OF wf_expressionD(1) [OF wf]] False]
  let ?s = "secondList e ! search_ints (secondList e) (Second t + 1)"
  have c: "valid_clock (Hour t) (Minute t) ?s" by (rule clock_in_range [OF wf at(2,3) f(1)])
  have "[Year t, Month t, Day t, Hour t, Minute t, ?s] \<le> time_fields u" if "later 6 t u" "matches e u" for u
    using that(1) unfolding later_unfold(6)
  proof
    assume "Year t = Year u \<and> Month t = Month u \<and> Day t = Day u \<and> Hour t = Hour u \<and>
      Minute t = Minute u \<and> Second t < Second u"
    with that(2) f(3) [of "Second u"] show ?thesis
      by (auto simp: time_fields_def matches_def intro!: lex_leI simp del: Cons_le_Cons)
  qed (rule later_le)
  then have "least_match e (later 6 t) (go_date (Year t) (Month t) (Day t) (Hour t) (Minute t) ?s)"
    using at f(1,2) c
    by (intro built_date [OF wf]) (simp_all add: at_day_def later_unfold(6) civil_simps)
  with False show ?thesis by (simp add: nextSecond_def Let_def)
qed

lemma nextMinute_least:
  assumes wf: "wf_expression e" and at: "at_day e t" "Hour t \<in> set (hourList e)"
    and up: "\<exists>r. nextHour e t days = returns r \<and> least_match e (later 4 t) r"
  shows "\<exists>r. nextMinute e t days = returns r \<and> least_match e (later 5 t) r"
proof (cases "search_ints (minuteList e) (Minute t + 1) = length (minuteList e)")
  case True
  then have "least_match e (later 4 t) r \<longleftrightarrow> least_match e (later 5 t) r" for r
    by (intro least_match_cong) (auto simp: later_unfold(5) matches_def dest!: search_none)
  with up True show ?thesis by (simp add: nextMinute_def)
next
  case False
  note f = search_found [OF wf_listD(2) [OF wf_expressionD(2) [OF wf]] False]
  let ?mi = "minuteList e ! search_ints (minuteList e) (Minute t + 1)" and ?s = "secondList e ! 0"
  have c: "valid_clock (Hour t) ?mi ?s" by (rule clock_in_range [OF wf at(2) f(1) firsts(7) [OF wf]])
  have "[Year t, Month t, Day t, Hour t, ?mi, ?s] \<le> time_fields u"
    if "later 5 t u" "matches e u" for u
    using that(1) unfolding later_unfold(5)
  proof
    assume "Year t = Year u \<and> Month t = Month u \<and> Day t = Day u \<and> Hour t = Hour u \<and>
      Minute t < Minute u"
    with that(2) f(3) [of "Minute u"] firsts(11) [OF wf that(2)] show ?thesis
      by (auto simp: time_fields_def matches_def intro!: lex_leI simp del: Cons_le_Cons)
  qed (rule later_le)
  then have "least_match e (later 5 t) (go_date (Year t) (Month t) (Day t) (Hour t) ?mi ?s)"
    using at f(1,2) c firsts(7) [OF wf]
    by (intro built_date [OF wf]) (simp_all add: at_day_def later_unfold(5) civil_simps)
  with False show ?thesis by (simp add: nextMinute_def Let_def firsts [OF wf])
qed

lemma nextHour_least:
  assumes wf: "wf_expression e" and at: "at_day e t"
    and up: "\<exists>r. nextDayOfMonth e t days = returns r \<and> least_match e (later 3 t) r"
  shows "\<exists>r. nextHour e t days = returns r \<and> least_match e (later 4 t) r"
proof (cases "search_ints (hourList e) (Hour t + 1) = length (hourList e)")
  case True
  then have "least_match e (later 3 t) r \<longleftrightarrow> least_match e (later 4 t) r" for r
    by (intro least_match_cong) (auto simp: later_unfold(4) matches_def dest!: search_none)
  with up True show ?thesis by (simp add: nextHour_def)
next
  case False
  note f = search_found [OF wf_listD(2) [OF wf_expressionD(3) [OF wf]] False]
  let ?h = "hourList e ! search_ints (hourList e) (Hour t + 1)" and ?mi = "minuteList e ! 0"
    and ?s = "secondList e ! 0"
  have c: "valid_clock ?h ?mi ?s" by (rule clock_in_range [OF wf f(1) firsts(6,7) [OF wf]])
  have "[Year t, Month t, Day t, ?h, ?mi, ?s] \<le> time_fields u" if "later 4 t u" "matches e u" for u
    using that(1) unfolding later_unfold(4)
  proof
    assume "Year t = Year u \<and> Month t = Month u \<and> Day t = Day u \<and> Hour t < Hour u"
    with that(2) f(3) [of "Hour u"] firsts(10,11) [OF wf that(2)] show ?thesis
      by (auto simp: time_fields_def matches_def intro!: lex_leI simp del: Cons_le_Cons)
  qed (rule later_le)
  then have "least_match e (later 4 t) (go_date (Year t) (Month t) (Day t) ?h ?mi ?s)"
    using at f(1,2) c firsts(6,7) [OF wf]
    by (intro built_date [OF wf]) (simp_all add: at_day_def later_unfold(4) civil_simps)
  with False show ?thesis by (simp add: nextHour_def Let_def firsts [OF wf])
qed

subsection \<open>Days\<close>

lemma month_in_range: "wf_expression e \<Longrightarrow> m \<in> set (monthList e) \<Longrightarrow> 1 \<le> m \<and> m \<le> 12"
  using wf_listD(3,4) [OF wf_expressionD(4)] by blast

lemma days_list:
  assumes "wf_expression e" and "m \<in> set (monthList e)"
  shows "sorted (calculateActualDaysOfMonth e y m)"
    and "d \<in> set (calculateActualDaysOfMonth e y m) \<longleftrightarrow> valid_date y m d \<and> day_matches e y m d"
  using actual_days [OF _ _ wf_expressionD(6) [OF assms(1)], of m y] month_in_range [OF assms]
  by (auto simp: valid_date_def sorted_wrt_filter)

lemma matches_day:
  "matches e u \<Longrightarrow> wf_expression e \<Longrightarrow>
     Day u \<in> set (calculateActualDaysOfMonth e (Year u) (Month u))"
  using days_list(2) [of e "Month u" "Day u" "Year u"] by (auto simp: matches_def)

text \<open>The first selected day of a month, at the first time of day.\<close>

lemma date_first_least:
  assumes wf: "wf_expression e" and y: "y \<in> set (yearList e)" and m: "m \<in> set (monthList e)"
    and d: "valid_date y m d" "day_matches e y m d"
    and P: "P (go_date y m d (hourList e ! 0) (minuteList e ! 0) (secondList e ! 0))"
    and least: "\<And>u. P u \<Longrightarrow> matches e u \<Longrightarrow>
      Year u = y \<and> Month u = m \<and> d \<le> Day u \<or> (\<forall>h mi s. [y, m, d, h, mi, s] \<le> time_fields u)"
  shows "\<exists>r. Some (date_first e y m d) = returns r \<and> least_match e P r"
proof -
  let ?h = "hourList e ! 0" and ?mi = "minuteList e ! 0" and ?s = "secondList e ! 0"
  note F = firsts [OF wf]
  have "[y, m, d, ?h, ?mi, ?s] \<le> time_fields u" if "P u" "matches e u" for u
    using least [OF that]
  proof
    assume "Year u = y \<and> Month u = m \<and> d \<le> Day u"
    with F(9,10,11) [OF that(2)] show ?thesis
      by (auto simp: time_fields_def intro!: lex_leI simp del: Cons_le_Cons)
  qed simp
  then have "least_match e P (go_date y m d ?h ?mi ?s)"
    using assms F(5-7) by (intro built_date [OF wf]) simp_all
  then show ?thesis by (simp add: date_first_wf [OF wf])
qed

lemma nextDayOfMonth_least:
  assumes wf: "wf_expression e" and y: "Year t \<in> set (yearList e)" and m: "Month t \<in> set (monthList e)"
    and up: "\<exists>r. nextMonth e t = returns r \<and> least_match e (later 2 t) r"
    and days: "days = calculateActualDaysOfMonth e (Year t) (Month t)"
  shows "\<exists>r. nextDayOfMonth e t days = returns r \<and> least_match e (later 3 t) r"
proof (cases "search_ints days (Day t + 1) = length days")
  case True
  have "\<not> Day t < Day u" if "matches e u" "Year t = Year u" "Month t = Month u" for u
    using search_none [OF True, of "Day u"] matches_day [OF that(1) wf] that(2,3) days by auto
  then have "least_match e (later 2 t) r \<longleftrightarrow> least_match e (later 3 t) r" for r
    by (intro least_match_cong) (auto simp: later_unfold(3))
  with up True show ?thesis by (simp add: nextDayOfMonth_def)
next
  case False
  have "sorted days" unfolding days by (rule days_list(1) [OF wf m])
  note f = search_found [OF this False]
  let ?d = "days ! search_ints days (Day t + 1)"
  have d: "valid_date (Year t) (Month t) ?d" "day_matches e (Year t) (Month t) ?d"
    using f(1) days_list(2) [OF wf m, of ?d "Year t"] unfolding days by simp_all
  have c: "valid_clock (hourList e ! 0) (minuteList e ! 0) (secondList e ! 0)"
    by (rule clock_in_range [OF wf firsts(5-7) [OF wf]])
  have "\<exists>r. Some (date_first e (Year t) (Month t) ?d) = returns r \<and> least_match e (later 3 t) r"
  proof (rule date_first_least [OF wf y m d])
    show "later 3 t (go_date (Year t) (Month t) ?d (hourList e ! 0) (minuteList e ! 0) (secondList e ! 0))"
      using f(2) by (simp add: later_unfold(3) civil_simps d c)
    fix u assume u: "later 3 t u" "matches e u"
    from u(1) show "Year u = Year t \<and> Month u = Month t \<and> ?d \<le> Day u \<or>
        (\<forall>h mi s. [Year t, Month t, ?d, h, mi, s] \<le> time_fields u)"
      unfolding later_unfold(3)
    proof
      assume "Year t = Year u \<and> Month t = Month u \<and> Day t < Day u"
      then show ?thesis using f(3) [of "Day u"] matches_day [OF u(2) wf] days by simp
    qed (auto intro: later_le)
  qed
  with False show ?thesis by (simp add: nextDayOfMonth_def Let_def)
qed

subsection \<open>Months and years\<close>

lemma first_day:
  assumes wf: "wf_expression e" and y: "y \<in> set (yearList e)" and m: "m \<in> set (monthList e)"
    and days: "calculateActualDaysOfMonth e y m \<noteq> []"
    and P: "\<And>u. Year u = y \<Longrightarrow> Month u = m \<Longrightarrow> P u"
    and least: "\<And>u. P u \<Longrightarrow> matches e u \<Longrightarrow>
      Year u = y \<and> Month u = m \<or> (\<forall>d h mi s. [y, m, d, h, mi, s] \<le> time_fields u)"
  shows "\<exists>r. Some (date_first e y m (calculateActualDaysOfMonth e y m ! 0)) = returns r \<and>
    least_match e P r"
proof -
  let ?days = "calculateActualDaysOfMonth e y m"
  have s: "?days ! 0 \<in> set ?days" "\<And>d. d \<in> set ?days \<Longrightarrow> ?days ! 0 \<le> d"
    using days days_list(1) [OF wf m, of y] by (cases ?days; auto)+
  then have d: "valid_date y m (?days ! 0)" "day_matches e y m (?days ! 0)"
    using days_list(2) [OF wf m, of "?days ! 0" y] by simp_all
  have c: "valid_clock (hourList e ! 0) (minuteList e ! 0) (secondList e ! 0)"
    by (rule clock_in_range [OF wf firsts(5-7) [OF wf]])
  show ?thesis
  proof (rule date_first_least [OF wf y m d])
    show "P (go_date y m (?days ! 0) (hourList e ! 0) (minuteList e ! 0) (secondList e ! 0))"
      using d(1) c by (intro P) (simp_all add: civil_simps)
    fix u assume u: "P u" "matches e u"
    show "Year u = y \<and> Month u = m \<and> ?days ! 0 \<le> Day u \<or>
        (\<forall>h mi s. [y, m, ?days ! 0, h, mi, s] \<le> time_fields u)"
      using least [OF u] s(2) matches_day [OF u(2) wf] by auto
  qed
qed

definition level_fields :: "level \<Rightarrow> nat" where
  "level_fields l = (case l of ByYear \<Rightarrow> 1 | ByMonth \<Rightarrow> 2)"

text \<open>Each step of the search moves to a later month, and 2099 is the last year.\<close>

definition months_left :: "level \<Rightarrow> instant \<Rightarrow> nat" where
  "months_left l t = 2 * nat (25200 - (12 * Year t + Month t)) + level_fields l"

definition month_first :: "expression \<Rightarrow> int \<Rightarrow> int \<Rightarrow> instant" where
  "month_first e y m = go_date y m 1 (hourList e ! 0) (minuteList e ! 0) (secondList e ! 0)"

definition searches_on :: "expression \<Rightarrow> int \<Rightarrow> bool" where
  "searches_on e k \<longleftrightarrow> (\<forall>y\<in>set (yearList e). \<forall>m\<in>set (monthList e). k < 12 * y + m \<longrightarrow>
     (\<exists>r. nextYM e ByMonth (month_first e y m) = returns r \<and>
       least_match e (later 2 (month_first e y m)) r))"

lemma month_first_fields:
  assumes wf: "wf_expression e" and m: "m \<in> set (monthList e)"
  shows "Year (month_first e y m) = y" "Month (month_first e y m) = m"
proof -
  have "valid_date y m 1" "valid_clock (hourList e ! 0) (minuteList e ! 0) (secondList e ! 0)"
    using month_in_range [OF wf m] days_in_month_bounds [of y m]
      clock_in_range [OF wf firsts(5-7) [OF wf]] by (simp_all add: valid_date_def)
  then show "Year (month_first e y m) = y" "Month (month_first e y m) = m"
    by (simp_all add: month_first_def civil_simps)
qed

lemma skip_month:
  assumes wf: "wf_expression e" and ym: "y \<in> set (yearList e)" "m \<in> set (monthList e)" "k < 12 * y + m"
    and on: "searches_on e k"
    and P: "\<And>u. matches e u \<Longrightarrow> P u \<longleftrightarrow> y < Year u \<or> y = Year u \<and> m < Month u"
  shows "\<exists>r. (case date_first e y m 1 of Inl p \<Rightarrow> Some (Inl p) | Inr t' \<Rightarrow> nextYM e ByMonth t') =
    returns r \<and> least_match e P r"
proof -
  obtain r where r: "nextYM e ByMonth (month_first e y m) = returns r"
      "least_match e (later 2 (month_first e y m)) r"
    using on ym by (auto simp: searches_on_def)
  have "least_match e (later 2 (month_first e y m)) r \<longleftrightarrow> least_match e P r"
    by (rule least_match_cong) (auto simp: P later_unfold(1,2) month_first_fields [OF wf ym(2)])
  with r show ?thesis by (simp add: date_first_wf [OF wf] month_first_def)
qed

lemma no_empty_month:
  "matches e u \<Longrightarrow> wf_expression e \<Longrightarrow> calculateActualDaysOfMonth e (Year u) (Month u) \<noteq> []"
  using matches_day [of e u] by auto

lemma nextYear_step:
  assumes wf: "wf_expression e" and on: "searches_on e (12 * Year t + Month t)"
  shows "\<exists>r. nextYM e ByYear t = returns r \<and> least_match e (later 1 t) r"
proof (cases "search_ints (yearList e) (Year t + 1) = length (yearList e)")
  case True
  have "\<not> later 1 t u" if "matches e u" for u
    using search_none [OF True, of "Year u"] that by (auto simp: matches_def later_unfold(1))
  then show ?thesis using True by (simp add: nextYM.simps least_match_none)
next
  case False
  note f = search_found [OF wf_listD(2) [OF wf_expressionD(5) [OF wf]] False]
  let ?y = "yearList e ! search_ints (yearList e) (Year t + 1)" and ?m = "monthList e ! 0"
  have m: "?m \<in> set (monthList e)" by (rule firsts(8) [OF wf])
  have u: "Year t < Year u \<longleftrightarrow> ?y \<le> Year u" "?m \<le> Month u" if "matches e u" for u
    using f(2) f(3) [of "Year u"] firsts(12) [OF wf that] that by (auto simp: matches_def)
  show ?thesis
  proof (cases "calculateActualDaysOfMonth e ?y ?m = []")
    case True
    have "later 1 t u \<longleftrightarrow> ?y < Year u \<or> ?y = Year u \<and> ?m < Month u" if "matches e u" for u
      using u [OF that] no_empty_month [OF that wf] True by (auto simp: later_unfold(1) order_le_less)
    moreover have "12 * Year t + Month t < 12 * ?y + ?m"
      using f(2) month_in_range [OF wf m] valid_date_fields [of t] by (simp add: valid_date_def)
    ultimately show ?thesis
      using skip_month [OF wf f(1) m _ on] False True
      by (simp add: nextYM.simps [of e ByYear] Let_def firsts(4) [OF wf])
  next
    case nonempty: False
    have "\<exists>r. Some (date_first e ?y ?m (calculateActualDaysOfMonth e ?y ?m ! 0)) = returns r \<and>
        least_match e (later 1 t) r"
    proof (rule first_day [OF wf f(1) m nonempty])
      fix v assume v: "later 1 t v" "matches e v"
      then have "?y \<le> Year v" "?m \<le> Month v" using u by (auto simp: later_unfold)
      then show "Year v = ?y \<and> Month v = ?m \<or> (\<forall>d h mi s. [?y, ?m, d, h, mi, s] \<le> time_fields v)"
        by (auto simp: time_fields_def)
    qed (use f(2) in \<open>simp add: later_unfold(1)\<close>)
    then show ?thesis using False nonempty by (simp add: nextYM.simps Let_def firsts(4) [OF wf])
  qed
qed

lemma nextMonth_step:
  assumes wf: "wf_expression e" and y: "Year t \<in> set (yearList e)"
    and on: "searches_on e (12 * Year t + Month t)"
  shows "\<exists>r. nextYM e ByMonth t = returns r \<and> least_match e (later 2 t) r"
proof (cases "search_ints (monthList e) (Month t + 1) = length (monthList e)")
  case True
  have "later 1 t u \<longleftrightarrow> later 2 t u" if "matches e u" for u
    using search_none [OF True, of "Month u"] that by (auto simp: later_unfold(2) matches_def)
  then have "least_match e (later 1 t) r \<longleftrightarrow> least_match e (later 2 t) r" for r
    by (rule least_match_cong)
  with nextYear_step [OF wf on] True show ?thesis by (simp add: nextYM.simps [of e ByMonth])
next
  case False
  note f = search_found [OF wf_listD(2) [OF wf_expressionD(4) [OF wf]] False]
  let ?m = "monthList e ! search_ints (monthList e) (Month t + 1)"
  have u: "later 2 t u \<longleftrightarrow> Year t < Year u \<or> Year t = Year u \<and> ?m \<le> Month u" if "matches e u" for u
    using f(2) f(3) [of "Month u"] that by (auto simp: matches_def later_unfold(1,2))
  show ?thesis
  proof (cases "calculateActualDaysOfMonth e (Year t) ?m = []")
    case True
    have "later 2 t u \<longleftrightarrow> Year t < Year u \<or> Year t = Year u \<and> ?m < Month u" if "matches e u" for u
      using u [OF that] no_empty_month [OF that wf] True by (auto simp: order_le_less)
    then show ?thesis
      using skip_month [OF wf y f(1) _ on] f(2) False True
      by (simp add: nextYM.simps [of e ByMonth t] Let_def)
  next
    case nonempty: False
    have "\<exists>r. Some (date_first e (Year t) ?m (calculateActualDaysOfMonth e (Year t) ?m ! 0)) =
        returns r \<and> least_match e (later 2 t) r"
    proof (rule first_day [OF wf y f(1) nonempty])
      fix v assume v: "later 2 t v" "matches e v"
      then show "Year v = Year t \<and> Month v = ?m \<or>
          (\<forall>d h mi s. [Year t, ?m, d, h, mi, s] \<le> time_fields v)"
        using u by (auto simp: time_fields_def)
    qed (use f(2) in \<open>simp add: later_unfold(1,2)\<close>)
    then show ?thesis using False nonempty by (simp add: nextYM.simps Let_def)
  qed
qed

text \<open>Each step of the search moves to a later month, and 2099 is the last year.\<close>

lemma searches_on:
  assumes wf: "wf_expression e"
  shows "searches_on e k"
proof (induction "nat (25200 - k)" arbitrary: k rule: less_induct)
  case less
  show ?case
    unfolding searches_on_def
  proof (intro ballI impI)
    fix y m assume ym: "y \<in> set (yearList e)" "m \<in> set (monthList e)" "k < 12 * y + m"
    note F = month_first_fields [OF wf ym(2), of y]
    have "nat (25200 - (12 * y + m)) < nat (25200 - k)"
      using ym(3) wf_listD(4) [OF wf_expressionD(5) [OF wf] ym(1)] month_in_range [OF wf ym(2)]
      by simp
    from less.hyps [OF this] show "\<exists>r. nextYM e ByMonth (month_first e y m) = returns r \<and>
        least_match e (later 2 (month_first e y m)) r"
      using F ym by (intro nextMonth_step [OF wf]) simp_all
  qed
qed

subsection \<open>Next\<close>

text \<open>A search that meets the exact entry leaves the field in the list.\<close>

lemma search_exact:
  "search_ints xs v \<noteq> length xs \<Longrightarrow> sorted xs \<Longrightarrow> v = xs ! search_ints xs v \<Longrightarrow> v \<in> set xs"
  by (metis search_found(1))

lemma search_gap:
  "search_ints xs v \<noteq> length xs \<Longrightarrow> sorted xs \<Longrightarrow> v \<noteq> xs ! search_ints xs v \<Longrightarrow> v \<notin> set xs"
  by (metis order.antisym order_refl search_found(2,3))

lemma search_past: "search_ints xs v = length xs \<Longrightarrow> v \<notin> set xs"
  using search_none by blast

lemma probe_days:
  assumes wf: "wf_expression e" and m: "Month t \<in> set (monthList e)"
    and days: "days = calculateActualDaysOfMonth e (Year t) (Month t)"
  shows "sorted days" and "Day t \<in> set days \<longleftrightarrow> day_matches e (Year t) (Month t) (Day t)"
  using days_list [OF wf m, where y = "Year t"] days by auto

text \<open>One level of \<open>Next\<close>: the field is past the list, between two entries, or an entry.\<close>

definition finds :: "expression \<Rightarrow> nat \<Rightarrow> instant \<Rightarrow> instant cron_result \<Rightarrow> bool" where
  "finds e k t f \<longleftrightarrow> (\<exists>r. f = returns r \<and> least_match e (later k t) r)"

lemma level_choice:
  assumes "sorted xs"
    and "(\<And>x. x \<in> set xs \<Longrightarrow> x < v) \<Longrightarrow> finds e 6 t a"
    and "v \<notin> set xs \<Longrightarrow> finds e 6 t b" and "v \<in> set xs \<Longrightarrow> finds e 6 t c"
  shows "finds e 6 t (let i = search_ints xs v in
    if i = length xs then a else if v \<noteq> xs ! i then b else c)"
  using assms search_none [of xs v] search_gap [of xs v] search_exact [of xs v]
  by (simp add: Let_def)

lemma later_mono: "later k t u \<Longrightarrow> k \<in> {1, 2, 3, 4, 5, 6} \<Longrightarrow> later 6 t u"
  by (auto simp: later_def time_fields_def)

lemma finds_lift:
  assumes "finds e k t f" "k \<in> {1, 2, 3, 4, 5, 6}" and "\<And>u. matches e u \<Longrightarrow> later 6 t u \<Longrightarrow> later k t u"
  shows "finds e 6 t f"
proof -
  have "least_match e (later k t) r \<longleftrightarrow> least_match e (later 6 t) r" for r
    by (rule least_match_cong) (use assms(2,3) later_mono in blast)
  with assms(1) show ?thesis by (simp add: finds_def)
qed

lemma next_levels:
  assumes wf: "wf_expression e" and days: "days = calculateActualDaysOfMonth e (Year t) (Month t)"
  shows "finds e 1 t (nextYear e t)"
    and "Year t \<in> set (yearList e) \<Longrightarrow> finds e 2 t (nextMonth e t)"
    and "Year t \<in> set (yearList e) \<Longrightarrow> Month t \<in> set (monthList e) \<Longrightarrow>
      finds e 3 t (nextDayOfMonth e t days)"
    and "at_day e t \<Longrightarrow> finds e 4 t (nextHour e t days)"
    and "at_day e t \<Longrightarrow> Hour t \<in> set (hourList e) \<Longrightarrow> finds e 5 t (nextMinute e t days)"
    and "at_day e t \<Longrightarrow> Hour t \<in> set (hourList e) \<Longrightarrow> Minute t \<in> set (minuteList e) \<Longrightarrow>
      finds e 6 t (nextSecond e t days)"
proof -
  note on = searches_on [OF wf, of "12 * Year t + Month t"]
  show Y: "finds e 1 t (nextYear e t)"
    unfolding finds_def nextYear_def by (rule nextYear_step [OF wf on])
  show M: "finds e 2 t (nextMonth e t)" if "Year t \<in> set (yearList e)"
    unfolding finds_def nextMonth_def by (rule nextMonth_step [OF wf that on])
  show D: "finds e 3 t (nextDayOfMonth e t days)"
    if "Year t \<in> set (yearList e)" "Month t \<in> set (monthList e)"
    using nextDayOfMonth_least [OF wf that M [OF that(1), unfolded finds_def] days]
    by (simp add: finds_def)
  show H: "finds e 4 t (nextHour e t days)" if "at_day e t"
    using nextHour_least [OF wf that D [unfolded finds_def]] that by (simp add: at_day_def finds_def)
  show MI: "finds e 5 t (nextMinute e t days)" if "at_day e t" "Hour t \<in> set (hourList e)"
    using nextMinute_least [OF wf that H [OF that(1), unfolded finds_def]] by (simp add: finds_def)
  show "finds e 6 t (nextSecond e t days)"
    if "at_day e t" "Hour t \<in> set (hourList e)" "Minute t \<in> set (minuteList e)"
    using nextSecond_least [OF wf that MI [OF that(1,2), unfolded finds_def]] by (simp add: finds_def)
qed

text \<open>Where a field is not an entry, the next level up already skips nothing.\<close>

lemma lifted_levels:
  assumes wf: "wf_expression e" and days: "days = calculateActualDaysOfMonth e (Year t) (Month t)"
  shows "(\<And>x. x \<in> set (yearList e) \<Longrightarrow> x < Year t) \<Longrightarrow> finds e 6 t (returns zero_time)"
    and "Year t \<notin> set (yearList e) \<or> (\<forall>x\<in>set (monthList e). x < Month t) \<Longrightarrow> finds e 6 t (nextYear e t)"
    and "Year t \<in> set (yearList e) \<Longrightarrow>
      Month t \<notin> set (monthList e) \<or> (\<forall>x\<in>set days. x < Day t) \<Longrightarrow> finds e 6 t (nextMonth e t)"
    and "Year t \<in> set (yearList e) \<Longrightarrow> Month t \<in> set (monthList e) \<Longrightarrow>
      Day t \<notin> set days \<or> (\<forall>x\<in>set (hourList e). x < Hour t) \<Longrightarrow>
      finds e 6 t (nextDayOfMonth e t days)"
    and "at_day e t \<Longrightarrow> Hour t \<notin> set (hourList e) \<or> (\<forall>x\<in>set (minuteList e). x < Minute t) \<Longrightarrow>
      finds e 6 t (nextHour e t days)"
    and "at_day e t \<Longrightarrow> Hour t \<in> set (hourList e) \<Longrightarrow>
      Minute t \<notin> set (minuteList e) \<or> (\<forall>x\<in>set (secondList e). x < Second t) \<Longrightarrow>
      finds e 6 t (nextMinute e t days)"
proof -
  note N = next_levels [OF wf days] and U = later_unfold matches_def
  have day: "matches e u \<Longrightarrow> Year t = Year u \<Longrightarrow> Month t = Month u \<Longrightarrow> Day u \<in> set days" for u
    using matches_day [OF _ wf] by (simp add: days)
  show "finds e 6 t (returns zero_time)" if h: "\<And>x. x \<in> set (yearList e) \<Longrightarrow> x < Year t"
  proof -
    have "\<not> later 6 t u" if "matches e u" for u
      using h [of "Year u"] that by (auto simp: U)
    then show ?thesis by (simp add: finds_def least_match_none)
  qed
  show "finds e 6 t (nextYear e t)"
    if "Year t \<notin> set (yearList e) \<or> (\<forall>x\<in>set (monthList e). x < Month t)"
    by (rule finds_lift [OF N(1)]) (use that in \<open>fastforce simp: U\<close>)+
  show "finds e 6 t (nextMonth e t)"
    if "Year t \<in> set (yearList e)" "Month t \<notin> set (monthList e) \<or> (\<forall>x\<in>set days. x < Day t)"
    by (rule finds_lift [OF N(2) [OF that(1)]]) (use that day in \<open>fastforce simp: U\<close>)+
  show "finds e 6 t (nextDayOfMonth e t days)"
    if "Year t \<in> set (yearList e)" "Month t \<in> set (monthList e)"
      "Day t \<notin> set days \<or> (\<forall>x\<in>set (hourList e). x < Hour t)"
    by (rule finds_lift [OF N(3) [OF that(1,2)]]) (use that day in \<open>fastforce simp: U\<close>)+
  show "finds e 6 t (nextHour e t days)"
    if "at_day e t" "Hour t \<notin> set (hourList e) \<or> (\<forall>x\<in>set (minuteList e). x < Minute t)"
    by (rule finds_lift [OF N(4) [OF that(1)]]) (use that in \<open>fastforce simp: U\<close>)+
  show "finds e 6 t (nextMinute e t days)"
    if "at_day e t" "Hour t \<in> set (hourList e)"
      "Minute t \<notin> set (minuteList e) \<or> (\<forall>x\<in>set (secondList e). x < Second t)"
    by (rule finds_lift [OF N(5) [OF that(1,2)]]) (use that in \<open>fastforce simp: U\<close>)+
qed

lemma Next_in_month_finds:
  assumes wf: "wf_expression e" and days: "days = calculateActualDaysOfMonth e (Year t) (Month t)"
    and m: "Year t \<in> set (yearList e)" "Month t \<in> set (monthList e)"
  shows "finds e 6 t (Next_in_month e t days)"
proof (cases "days = []")
  case True
  then show ?thesis using lifted_levels(3) [OF wf days m(1)] by (simp add: Next_in_month_def)
next
  case False
  note S = wf_listD(2) [OF wf_expressionD(3) [OF wf]] wf_listD(2) [OF wf_expressionD(2) [OF wf]]
  note P = probe_days [OF wf m(2) days]
  note N = next_levels [OF wf days] and L = lifted_levels [OF wf days]
  show ?thesis
    unfolding Next_in_month_def if_not_P [OF False]
  proof (intro level_choice S P(1))
    assume "Day t \<in> set days"
    then have at: "at_day e t" using P(2) m by (simp add: at_day_def)
    assume h: "Hour t \<in> set (hourList e)" "Minute t \<in> set (minuteList e)"
    show "finds e 6 t (let i = search_ints (secondList e) (Second t) in
        if i = length (secondList e) then nextMinute e t days else nextSecond e t days)"
      using L(6) [OF at h(1)] N(6) [OF at h] search_none [of "secondList e" "Second t"]
      by (simp add: Let_def)
  qed (use L m P(2) in \<open>auto simp: at_day_def\<close>)
qed

lemma Next_finds:
  assumes wf: "wf_expression e" and t: "t \<noteq> zero_time"
  shows "finds e 6 t (Next e t)"
proof -
  note S = wf_listD(2) [OF wf_expressionD(5) [OF wf]] wf_listD(2) [OF wf_expressionD(4) [OF wf]]
  show ?thesis
    unfolding Next_def if_not_P [OF t]
    by (intro level_choice S Next_in_month_finds [OF wf refl]) (use lifted_levels [OF wf refl] in auto)
qed

lemma Next_least: "wf_expression e \<Longrightarrow> t \<noteq> zero_time \<Longrightarrow>
    \<exists>r. Next e t = returns r \<and> least_match e ((<) t) r"
  using Next_finds [of e t] by (simp add: finds_def later_all)

lemma nextSecond_next:
  "wf_expression e \<Longrightarrow> matches e t \<Longrightarrow>
     \<exists>r. nextSecond e t (calculateActualDaysOfMonth e (Year t) (Month t)) = returns r \<and>
       least_match e ((<) t) r"
  using next_levels(6) [of e _ t] by (simp add: finds_def later_all at_day_def matches_def)

end
