(* ===== verification/Cron_Last.thy ===== *)
theory Cron_Last
  imports Cron_Next
begin

section \<open>The search for the last match\<close>

text \<open>
  \<open>Last\<close> and the functions it calls, in the order of the calendar again: each finds the greatest
  match in an earlier hour, day, month and so on.  The exception is \<open>lastSecond\<close>: unless the
  second before is an entry, it leaves the minute.
\<close>

definition greatest_match :: "expression \<Rightarrow> (instant \<Rightarrow> bool) \<Rightarrow> instant \<Rightarrow> bool" where
  "greatest_match e P r \<longleftrightarrow>
     (P r \<and> matches e r \<and> (\<forall>u. P u \<and> matches e u \<longrightarrow> u \<le> r)) \<or>
     (\<nexists>u. P u \<and> matches e u) \<and> r = zero_time"

definition earlier :: "nat \<Rightarrow> instant \<Rightarrow> instant \<Rightarrow> bool" where
  "earlier k t u \<longleftrightarrow> later k u t"

definition finds_last :: "expression \<Rightarrow> (instant \<Rightarrow> bool) \<Rightarrow> instant cron_result \<Rightarrow> bool" where
  "finds_last e P f \<longleftrightarrow> (\<exists>r. f = returns r \<and> greatest_match e P r)"

lemma finds_last_lift:
  assumes "finds_last e P f" and "\<And>u. matches e u \<Longrightarrow> P u \<longleftrightarrow> Q u"
  shows "finds_last e Q f"
proof -
  have "greatest_match e P r \<longleftrightarrow> greatest_match e Q r" for r
    unfolding greatest_match_def using assms(2) by blast
  with assms(1) show ?thesis by (simp add: finds_last_def)
qed

lemma finds_last_none: "(\<And>u. matches e u \<Longrightarrow> \<not> P u) \<Longrightarrow> finds_last e P (returns zero_time)"
  unfolding finds_last_def greatest_match_def by blast

lemma earlier_unfold:
  "earlier 1 t u \<longleftrightarrow> Year u < Year t"
  "earlier 2 t u \<longleftrightarrow> earlier 1 t u \<or> Year u = Year t \<and> Month u < Month t"
  "earlier 3 t u \<longleftrightarrow> earlier 2 t u \<or> Year u = Year t \<and> Month u = Month t \<and> Day u < Day t"
  "earlier 4 t u \<longleftrightarrow> earlier 3 t u \<or> Year u = Year t \<and> Month u = Month t \<and> Day u = Day t \<and> Hour u < Hour t"
  "earlier 5 t u \<longleftrightarrow> earlier 4 t u \<or> Year u = Year t \<and> Month u = Month t \<and> Day u = Day t \<and>
     Hour u = Hour t \<and> Minute u < Minute t"
  "earlier 6 t u \<longleftrightarrow> earlier 5 t u \<or> Year u = Year t \<and> Month u = Month t \<and> Day u = Day t \<and>
     Hour u = Hour t \<and> Minute u = Minute t \<and> Second u < Second t"
  by (simp_all only: earlier_def later_unfold [of u t])

lemma earlier_year [simp]: "earlier (Suc 0) t u \<longleftrightarrow> Year u < Year t"
  by (simp add: earlier_def)

lemma earlier_all: "earlier 6 t u \<longleftrightarrow> u < t"
  by (simp add: earlier_def later_all)

lemma earlier_le:
  "earlier 1 t u \<Longrightarrow> time_fields u \<le> [Year t, m, d, h, mi, s]"
  "earlier 2 t u \<Longrightarrow> time_fields u \<le> [Year t, Month t, d, h, mi, s]"
  "earlier 3 t u \<Longrightarrow> time_fields u \<le> [Year t, Month t, Day t, h, mi, s]"
  "earlier 4 t u \<Longrightarrow> time_fields u \<le> [Year t, Month t, Day t, Hour t, mi, s]"
  "earlier 5 t u \<Longrightarrow> time_fields u \<le> [Year t, Month t, Day t, Hour t, Minute t, s]"
  by (auto simp: earlier_def later_def time_fields_def)

subsection \<open>Candidates\<close>

lemma search_0: "search_ints xs v = 0 \<Longrightarrow> sorted xs \<Longrightarrow> x \<in> set xs \<Longrightarrow> v \<le> x"
  by (cases xs) (auto simp: search_ints_def split: if_splits)

lemma search_before:
  assumes "sorted xs" "i < search_ints xs v"
  shows "i < length xs" "xs ! i < v"
proof -
  show "i < length xs"
    using assms(2) length_takeWhile_le [of "\<lambda>x. x < v" xs] by (simp add: search_ints_def)
  show "xs ! i < v"
    using assms(2) unfolding search_ints_def by (metis nth_mem set_takeWhileD takeWhile_nth)
qed

lemma search_split:
  assumes "sorted xs" "x \<in> set xs" "x < v" "0 < search_ints xs v"
  shows "x \<le> xs ! (search_ints xs v - 1)"
proof -
  from assms(2) obtain j where j: "j < length xs" "xs ! j = x" by (metis in_set_conv_nth)
  have "j < search_ints xs v"
  proof (rule ccontr)
    assume n: "\<not> j < search_ints xs v"
    then have "search_ints xs v \<noteq> length xs" using j by simp
    with search_found(2) [OF assms(1)] have "v \<le> xs ! search_ints xs v" .
    also have "\<dots> \<le> xs ! j" using n j(1) by (intro sorted_nth_mono [OF assms(1)]) simp_all
    finally show False using j assms(3) by simp
  qed
  then show ?thesis
    using search_before [OF assms(1), of "search_ints xs v - 1" v] assms(1,4) j
      sorted_nth_mono [of xs j "search_ints xs v - 1"] by simp
qed

lemma candidate_none:
  assumes "sorted xs" "candidate xs v = None" "x \<in> set xs"
  shows "v < x"
proof -
  have i: "search_ints xs v = 0" "\<not> (0 < length xs \<and> v = xs ! 0)"
    using assms(2) by (auto simp: candidate_def Let_def split: if_splits)
  then have "v \<noteq> xs ! 0" using assms(3) by (cases xs) auto
  moreover have "xs ! 0 \<in> set xs" "xs ! 0 \<le> x" using assms by (cases xs; auto)+
  ultimately show ?thesis using search_0 [OF i(1) assms(1), of "xs ! 0"] by simp
qed

lemma candidate_some:
  assumes "sorted xs" "candidate xs v = Some x"
  shows "x \<in> set xs" "x \<le> v" "z \<in> set xs \<Longrightarrow> z \<le> v \<Longrightarrow> z \<le> x"
proof -
  let ?i = "search_ints xs v"
  consider (exact) "?i < length xs" "v = xs ! ?i" "x = v"
    | (below) "0 < ?i" "?i = length xs \<or> v \<noteq> xs ! ?i" "x = xs ! (?i - 1)"
    using assms(2) length_takeWhile_le [of "\<lambda>x. x < v" xs]
    by (auto simp: candidate_def Let_def search_ints_def split: if_splits)
  then have "x \<in> set xs \<and> x \<le> v \<and> (z \<in> set xs \<longrightarrow> z \<le> v \<longrightarrow> z \<le> x)"
  proof cases
    case exact
    then show ?thesis using nth_mem [of ?i xs] by simp
  next
    case below
    note b = search_before [OF assms(1), of "?i - 1" v]
    have "v \<notin> set xs"
      using below(2) search_past [of xs v] search_gap [of xs v] assms(1) by auto
    then show ?thesis
      using b below search_split [OF assms(1), of z v] by (auto simp: order_le_less)
  qed
  then show "x \<in> set xs" "x \<le> v" "z \<in> set xs \<Longrightarrow> z \<le> v \<Longrightarrow> z \<le> x" by auto
qed

text \<open>The functions look for the entry before the field, or at it when it is no entry.\<close>

lemma candidate_back_none:
  assumes "sorted xs" "acc \<or> v \<notin> set xs" "candidate xs (step_back acc v) = None" "x \<in> set xs"
  shows "\<not> x < v"
  using candidate_none [OF assms(1,3,4)] assms(2,4) by (auto simp: step_back_def split: if_splits)

lemma candidate_back_some:
  assumes "sorted xs" "acc \<or> v \<notin> set xs" "candidate xs (step_back acc v) = Some x"
  shows "x \<in> set xs" "x < v" "z \<in> set xs \<Longrightarrow> z < v \<Longrightarrow> z \<le> x"
proof -
  note c = candidate_some [OF assms(1,3)]
  show "x \<in> set xs" by (rule c(1))
  show "x < v" using c(1,2) assms(2) by (auto simp: step_back_def order_le_less split: if_splits)
  assume "z \<in> set xs" "z < v"
  then show "z \<le> x" using c(3) [of z] by (simp add: step_back_def split: if_splits)
qed

lemma last_of: "xs \<noteq> [] \<Longrightarrow> last_of xs \<in> set xs"
  "sorted xs \<Longrightarrow> x \<in> set xs \<Longrightarrow> x \<le> last_of xs"
proof -
  show "xs \<noteq> [] \<Longrightarrow> last_of xs \<in> set xs" by (simp add: last_of_def)
  assume s: "sorted xs" "x \<in> set xs"
  then obtain j where "j < length xs" "xs ! j = x" by (metis in_set_conv_nth)
  then show "x \<le> last_of xs" using s sorted_nth_mono [of xs j "length xs - 1"] by (simp add: last_of_def)
qed

lemma lasts:
  assumes "wf_expression e"
  shows "last_of (hourList e) \<in> set (hourList e)" "last_of (minuteList e) \<in> set (minuteList e)"
    "last_of (secondList e) \<in> set (secondList e)" "last_of (monthList e) \<in> set (monthList e)"
    "matches e u \<Longrightarrow> Hour u \<le> last_of (hourList e)" "matches e u \<Longrightarrow> Minute u \<le> last_of (minuteList e)"
    "matches e u \<Longrightarrow> Second u \<le> last_of (secondList e)" "matches e u \<Longrightarrow> Month u \<le> last_of (monthList e)"
proof -
  note L = wf_expressionD [OF assms]
  show "last_of (hourList e) \<in> set (hourList e)" "last_of (minuteList e) \<in> set (minuteList e)"
    "last_of (secondList e) \<in> set (secondList e)" "last_of (monthList e) \<in> set (monthList e)"
    using last_of(1) wf_listD(1) [OF L(1)] wf_listD(1) [OF L(2)] wf_listD(1) [OF L(3)]
      wf_listD(1) [OF L(4)] by blast+
  assume "matches e u"
  then show "Hour u \<le> last_of (hourList e)" "Minute u \<le> last_of (minuteList e)"
    "Second u \<le> last_of (secondList e)" "Month u \<le> last_of (monthList e)"
    using last_of(2) wf_listD(2) [OF L(1)] wf_listD(2) [OF L(2)] wf_listD(2) [OF L(3)]
      wf_listD(2) [OF L(4)] unfolding matches_def by blast+
qed

subsection \<open>From the second up\<close>

lemma built_last:
  assumes wf: "wf_expression e" and d: "valid_date y m d"
    and c: "h \<in> set (hourList e)" "mi \<in> set (minuteList e)" "s \<in> set (secondList e)"
    and M: "y \<in> set (yearList e)" "m \<in> set (monthList e)" "day_matches e y m d"
    and P: "P (go_date y m d h mi s)"
    and greatest: "\<And>u. P u \<Longrightarrow> matches e u \<Longrightarrow> time_fields u \<le> [y, m, d, h, mi, s]"
  shows "finds_last e P (returns (go_date y m d h mi s))"
  using P greatest M c matches_go_date [OF d clock_in_range [OF wf c]]
  unfolding finds_last_def greatest_match_def
  by (simp add: le_fields time_fields_go_date [OF d clock_in_range [OF wf c]])

lemma earlier_in:
  assumes "wf_expression e" "h \<in> set (hourList e)" "mi \<in> set (minuteList e)" "s \<in> set (secondList e)"
    and "valid_date y m d"
  shows "earlier 6 t (go_date y m d h mi s) \<longleftrightarrow> [y, m, d, h, mi, s] < time_fields t"
    "earlier 5 t (go_date y m d h mi s) \<longleftrightarrow> [y, m, d, h, mi] < take 5 (time_fields t)"
    "earlier 4 t (go_date y m d h mi s) \<longleftrightarrow> [y, m, d, h] < take 4 (time_fields t)"
    "earlier 3 t (go_date y m d h mi s) \<longleftrightarrow> [y, m, d] < take 3 (time_fields t)"
  using time_fields_go_date [OF assms(5) clock_in_range [OF assms(1-4)]]
  by (simp_all add: earlier_def later_def) (simp add: time_fields_def)

lemma lastHour_finds:
  assumes wf: "wf_expression e" and at: "at_day e t" and acc: "acc \<or> Hour t \<notin> set (hourList e)"
    and up: "finds_last e (earlier 3 t) (lastActualDayOfMonth e t days True)"
  shows "finds_last e (earlier 4 t) (lastHour e t days acc)"
proof (cases "candidate (hourList e) (step_back acc (Hour t))")
  case None
  note n = candidate_back_none [OF wf_listD(2) [OF wf_expressionD(3) [OF wf]] acc None]
  have "finds_last e (earlier 4 t) (lastActualDayOfMonth e t days True)"
    by (rule finds_last_lift [OF up]) (use n in \<open>auto simp: earlier_unfold(4) matches_def\<close>)
  with None show ?thesis by (simp add: lastHour_def)
next
  case (Some h)
  note f = candidate_back_some [OF wf_listD(2) [OF wf_expressionD(3) [OF wf]] acc Some]
  let ?mi = "last_of (minuteList e)" and ?s = "last_of (secondList e)"
  note in_range = earlier_in [OF wf f(1) lasts(2,3) [OF wf] valid_date_fields]
  have "time_fields u \<le> [Year t, Month t, Day t, h, ?mi, ?s]" if "earlier 4 t u" "matches e u" for u
    using that(1) unfolding earlier_unfold(4)
  proof
    assume "Year u = Year t \<and> Month u = Month t \<and> Day u = Day t \<and> Hour u < Hour t"
    with that(2) f(3) [of "Hour u"] lasts(6,7) [OF wf that(2)] show ?thesis
      by (auto simp: time_fields_def matches_def intro!: lex_leI simp del: Cons_le_Cons)
  qed (rule earlier_le)
  then have "finds_last e (earlier 4 t) (returns (go_date (Year t) (Month t) (Day t) h ?mi ?s))"
    using at f(1,2) lasts(2,3) [OF wf] in_range
    by (intro built_last [OF wf]) (simp_all add: at_day_def time_fields_def)
  with Some show ?thesis by (simp add: lastHour_def firsts [OF wf])
qed

lemma lastMinute_finds:
  assumes wf: "wf_expression e" and at: "at_day e t" "Hour t \<in> set (hourList e)"
    and acc: "\<not> acc \<or> Minute t \<notin> set (minuteList e)"
    and up: "finds_last e (earlier 4 t) (lastHour e t days True)"
  shows "finds_last e (earlier 5 t) (lastMinute e t days acc)"
proof (cases "candidate (minuteList e) (step_back (\<not> acc) (Minute t))")
  case None
  note n = candidate_back_none [OF wf_listD(2) [OF wf_expressionD(2) [OF wf]] acc None]
  have "finds_last e (earlier 5 t) (lastHour e t days True)"
    by (rule finds_last_lift [OF up]) (use n in \<open>auto simp: earlier_unfold(5) matches_def\<close>)
  with None show ?thesis by (simp add: lastMinute_def)
next
  case (Some mi)
  note f = candidate_back_some [OF wf_listD(2) [OF wf_expressionD(2) [OF wf]] acc Some]
  let ?s = "last_of (secondList e)"
  note in_range = earlier_in [OF wf at(2) f(1) lasts(3) [OF wf] valid_date_fields]
  have "time_fields u \<le> [Year t, Month t, Day t, Hour t, mi, ?s]" if "earlier 5 t u" "matches e u" for u
    using that(1) unfolding earlier_unfold(5)
  proof
    assume "Year u = Year t \<and> Month u = Month t \<and> Day u = Day t \<and> Hour u = Hour t \<and> Minute u < Minute t"
    with that(2) f(3) [of "Minute u"] lasts(7) [OF wf that(2)] show ?thesis
      by (auto simp: time_fields_def matches_def intro!: lex_leI simp del: Cons_le_Cons)
  qed (rule earlier_le)
  then have "finds_last e (earlier 5 t) (returns (go_date (Year t) (Month t) (Day t) (Hour t) mi ?s))"
    using at f(1,2) lasts(3) [OF wf] in_range
    by (intro built_last [OF wf]) (simp_all add: at_day_def time_fields_def)
  with Some show ?thesis by (simp add: lastMinute_def firsts [OF wf])
qed

text \<open>Past the last second of a matching minute, the search stays in that minute.\<close>

lemma lastMinute_same:
  assumes wf: "wf_expression e" and at: "at_day e t" "Hour t \<in> set (hourList e)"
      "Minute t \<in> set (minuteList e)"
    and past: "\<And>x. x \<in> set (secondList e) \<Longrightarrow> x < Second t"
  shows "finds_last e (earlier 6 t) (lastMinute e t days True)"
proof -
  let ?s = "last_of (secondList e)"
  note S = wf_listD(2) [OF wf_expressionD(2) [OF wf]] and s = lasts(3) [OF wf]
  note in_range = earlier_in [OF wf at(2,3) s valid_date_fields]
  obtain mi where c: "candidate (minuteList e) (Minute t) = Some mi"
    using candidate_none [OF S _ at(3), of "Minute t"] by (cases "candidate (minuteList e) (Minute t)") auto
  from candidate_some [OF S c] at(3) have mi: "mi = Minute t" by (meson order.antisym order.refl)
  have "time_fields u \<le> [Year t, Month t, Day t, Hour t, Minute t, ?s]"
    if "earlier 6 t u" "matches e u" for u
    using that(1) unfolding earlier_unfold(6)
  proof
    assume "Year u = Year t \<and> Month u = Month t \<and> Day u = Day t \<and> Hour u = Hour t \<and>
      Minute u = Minute t \<and> Second u < Second t"
    with lasts(7) [OF wf that(2)] show ?thesis
      by (auto simp: time_fields_def intro!: lex_leI simp del: Cons_le_Cons)
  qed (rule earlier_le)
  then have "finds_last e (earlier 6 t)
      (returns (go_date (Year t) (Month t) (Day t) (Hour t) (Minute t) ?s))"
    using at s in_range past [OF s]
    by (intro built_last [OF wf]) (simp_all add: at_day_def time_fields_def)
  then show ?thesis by (simp add: lastMinute_def step_back_def c mi firsts [OF wf])
qed

lemma lastSecond_finds:
  assumes wf: "wf_expression e" and at: "at_day e t" "Hour t \<in> set (hourList e)"
      "Minute t \<in> set (minuteList e)"
    and up: "finds_last e (earlier 5 t) (lastMinute e t days False)"
  shows "Second t - 1 \<in> set (secondList e) \<Longrightarrow> finds_last e (earlier 6 t) (lastSecond e t days)"
    and "Second t - 1 \<notin> set (secondList e) \<Longrightarrow> finds_last e (earlier 5 t) (lastSecond e t days)"
proof -
  note S = wf_listD(2) [OF wf_expressionD(1) [OF wf]]
  let ?i = "search_ints (secondList e) (Second t - 1)"
  show "finds_last e (earlier 6 t) (lastSecond e t days)" if s: "Second t - 1 \<in> set (secondList e)"
  proof -
    have i: "?i \<noteq> length (secondList e)" using s search_past by blast
    have j: "secondList e ! ?i = Second t - 1" using s search_gap [OF i S] by metis
    note in_range = earlier_in [OF wf at(2,3) s valid_date_fields]
    have "time_fields u \<le> [Year t, Month t, Day t, Hour t, Minute t, Second t - 1]"
      if "earlier 6 t u" "matches e u" for u
      using that(1) unfolding earlier_unfold(6)
    proof
      assume "Year u = Year t \<and> Month u = Month t \<and> Day u = Day t \<and> Hour u = Hour t \<and>
        Minute u = Minute t \<and> Second u < Second t"
      then show ?thesis by (auto simp: time_fields_def intro!: lex_leI simp del: Cons_le_Cons)
    qed (rule earlier_le)
    then have "finds_last e (earlier 6 t)
        (returns (go_date (Year t) (Month t) (Day t) (Hour t) (Minute t) (Second t - 1)))"
      using at s in_range by (intro built_last [OF wf]) (simp_all add: at_day_def time_fields_def)
    then show ?thesis using i j by (simp add: lastSecond_def Let_def)
  qed
  show "finds_last e (earlier 5 t) (lastSecond e t days)" if s: "Second t - 1 \<notin> set (secondList e)"
  proof -
    have "?i = length (secondList e) \<or> secondList e ! ?i \<noteq> Second t - 1"
      using s search_found(1) [OF S, of "Second t - 1"] by auto
    with up show ?thesis by (simp add: lastSecond_def Let_def)
  qed
qed

subsection \<open>Days, months and years\<close>

lemma date_last_wf:
  "wf_expression e \<Longrightarrow> date_last e y m d = Inr (go_date y m d (last_of (hourList e))
     (last_of (minuteList e)) (last_of (secondList e)))"
  by (simp add: date_last_def firsts)

lemma date_last_finds:
  assumes wf: "wf_expression e" and y: "y \<in> set (yearList e)" and m: "m \<in> set (monthList e)"
    and d: "valid_date y m d" "day_matches e y m d"
    and P: "\<And>u. Year u = y \<Longrightarrow> Month u = m \<Longrightarrow> Day u = d \<Longrightarrow> P u"
    and greatest: "\<And>u. P u \<Longrightarrow> matches e u \<Longrightarrow>
      Year u = y \<and> Month u = m \<and> Day u \<le> d \<or> (\<forall>h mi s. time_fields u \<le> [y, m, d, h, mi, s])"
  shows "finds_last e P (Some (date_last e y m d))"
proof -
  let ?h = "last_of (hourList e)" and ?mi = "last_of (minuteList e)" and ?s = "last_of (secondList e)"
  note F = lasts [OF wf]
  have "P (go_date y m d ?h ?mi ?s)"
    using d(1) clock_in_range [OF wf F(1-3)] by (intro P) (simp_all add: civil_simps)
  moreover have "time_fields u \<le> [y, m, d, ?h, ?mi, ?s]" if "P u" "matches e u" for u
    using greatest [OF that]
  proof
    assume "Year u = y \<and> Month u = m \<and> Day u \<le> d"
    with F(5-7) [OF that(2)] show ?thesis
      by (auto simp: time_fields_def intro!: lex_leI simp del: Cons_le_Cons)
  qed simp
  ultimately show ?thesis
    unfolding date_last_wf [OF wf] using assms F(1-3) by (intro built_last [OF wf]) simp_all
qed

lemma lastActualDayOfMonth_finds:
  assumes wf: "wf_expression e" and y: "Year t \<in> set (yearList e)" and m: "Month t \<in> set (monthList e)"
    and days: "days = calculateActualDaysOfMonth e (Year t) (Month t)"
    and acc: "acc \<or> Day t \<notin> set days"
    and up: "finds_last e (earlier 2 t) (lastMonth e t True)"
  shows "finds_last e (earlier 3 t) (lastActualDayOfMonth e t days acc)"
proof (cases "candidate days (step_back acc (Day t))")
  case None
  note n = candidate_back_none [OF probe_days(1) [OF wf m days] acc None]
  have "\<not> Day u < Day t" if "matches e u" "Year u = Year t" "Month u = Month t" for u
    using n [of "Day u"] matches_day [OF that(1) wf] that(2,3) days by simp
  then have "finds_last e (earlier 3 t) (lastMonth e t True)"
    by (intro finds_last_lift [OF up]) (auto simp: earlier_unfold(3))
  with None show ?thesis by (simp add: lastActualDayOfMonth_def)
next
  case (Some d)
  note f = candidate_back_some [OF probe_days(1) [OF wf m days] acc Some]
  have d: "valid_date (Year t) (Month t) d" "day_matches e (Year t) (Month t) d"
    using f(1) days_list(2) [OF wf m, of d "Year t"] unfolding days by simp_all
  have "finds_last e (earlier 3 t) (Some (date_last e (Year t) (Month t) d))"
  proof (rule date_last_finds [OF wf y m d])
    fix u assume u: "earlier 3 t u" "matches e u"
    from u(1) show "Year u = Year t \<and> Month u = Month t \<and> Day u \<le> d \<or>
        (\<forall>h mi s. time_fields u \<le> [Year t, Month t, d, h, mi, s])"
      unfolding earlier_unfold(3)
    proof
      assume "Year u = Year t \<and> Month u = Month t \<and> Day u < Day t"
      then show ?thesis using f(3) [of "Day u"] matches_day [OF u(2) wf] days by simp
    qed (auto intro: earlier_le)
  qed (use f(2) in \<open>simp add: earlier_unfold(3)\<close>)
  with Some show ?thesis by (simp add: lastActualDayOfMonth_def)
qed

lemma last_day:
  assumes wf: "wf_expression e" and y: "y \<in> set (yearList e)" and m: "m \<in> set (monthList e)"
    and days: "calculateActualDaysOfMonth e y m \<noteq> []"
    and P: "\<And>u. Year u = y \<Longrightarrow> Month u = m \<Longrightarrow> P u"
    and greatest: "\<And>u. P u \<Longrightarrow> matches e u \<Longrightarrow>
      Year u = y \<and> Month u = m \<or> (\<forall>d h mi s. time_fields u \<le> [y, m, d, h, mi, s])"
  shows "finds_last e P (Some (date_last e y m (last_of (calculateActualDaysOfMonth e y m))))"
proof -
  let ?days = "calculateActualDaysOfMonth e y m"
  have s: "last_of ?days \<in> set ?days" "\<And>d. d \<in> set ?days \<Longrightarrow> d \<le> last_of ?days"
    using last_of [of ?days] days days_list(1) [OF wf m, of y] by auto
  then have d: "valid_date y m (last_of ?days)" "day_matches e y m (last_of ?days)"
    using days_list(2) [OF wf m, of "last_of ?days" y] by simp_all
  show ?thesis
  proof (rule date_last_finds [OF wf y m d P])
    fix u assume u: "P u" "matches e u"
    show "Year u = y \<and> Month u = m \<and> Day u \<le> last_of ?days \<or>
        (\<forall>h mi s. time_fields u \<le> [y, m, last_of ?days, h, mi, s])"
      using greatest [OF u] s(2) matches_day [OF u(2) wf] by auto
  qed
qed

definition month_last :: "expression \<Rightarrow> int \<Rightarrow> int \<Rightarrow> instant" where
  "month_last e y m =
     go_date y m 1 (last_of (hourList e)) (last_of (minuteList e)) (last_of (secondList e))"

definition searches_back :: "expression \<Rightarrow> int \<Rightarrow> bool" where
  "searches_back e k \<longleftrightarrow> (\<forall>y\<in>set (yearList e). \<forall>m\<in>set (monthList e). 12 * y + m < k \<longrightarrow>
     finds_last e (earlier 2 (month_last e y m)) (lastYM e ByMonth (month_last e y m) True))"

lemma month_last_fields:
  assumes wf: "wf_expression e" and m: "m \<in> set (monthList e)"
  shows "Year (month_last e y m) = y" "Month (month_last e y m) = m"
proof -
  have "valid_date y m 1" "valid_clock (last_of (hourList e)) (last_of (minuteList e)) (last_of (secondList e))"
    using month_in_range [OF wf m] days_in_month_bounds [of y m]
      clock_in_range [OF wf lasts(1-3) [OF wf]] by (simp_all add: valid_date_def)
  then show "Year (month_last e y m) = y" "Month (month_last e y m) = m"
    by (simp_all add: month_last_def civil_simps)
qed

lemma skip_month_back:
  assumes wf: "wf_expression e" and ym: "y \<in> set (yearList e)" "m \<in> set (monthList e)" "12 * y + m < k"
    and on: "searches_back e k"
    and P: "\<And>u. matches e u \<Longrightarrow> P u \<longleftrightarrow> Year u < y \<or> Year u = y \<and> Month u < m"
  shows "finds_last e P
    (case date_last e y m 1 of Inl p \<Rightarrow> Some (Inl p) | Inr t' \<Rightarrow> lastYM e ByMonth t' True)"
proof -
  have "finds_last e (earlier 2 (month_last e y m)) (lastYM e ByMonth (month_last e y m) True)"
    using on ym by (auto simp: searches_back_def)
  then have "finds_last e P (lastYM e ByMonth (month_last e y m) True)"
    by (rule finds_last_lift)
      (auto simp: P earlier_unfold(1,2) month_last_fields [OF wf ym(2)])
  then show ?thesis by (simp add: date_last_wf [OF wf] month_last_def)
qed

lemma lastYear_step:
  assumes wf: "wf_expression e" and on: "searches_back e (12 * Year t + Month t)"
    and acc: "acc \<or> Year t \<notin> set (yearList e)"
  shows "finds_last e (earlier 1 t) (lastYM e ByYear t acc)"
proof (cases "candidate (yearList e) (step_back acc (Year t))")
  case None
  note n = candidate_back_none [OF wf_listD(2) [OF wf_expressionD(5) [OF wf]] acc None]
  have "finds_last e (earlier 1 t) (returns zero_time)"
    by (rule finds_last_none) (use n in \<open>auto simp: matches_def\<close>)
  with None show ?thesis by (simp add: lastYM.simps)
next
  case (Some y)
  note f = candidate_back_some [OF wf_listD(2) [OF wf_expressionD(5) [OF wf]] acc Some]
  let ?m = "last_of (monthList e)"
  have m: "?m \<in> set (monthList e)" by (rule lasts(4) [OF wf])
  have u: "earlier 1 t u \<longleftrightarrow> Year u \<le> y" "Month u \<le> ?m" if "matches e u" for u
    using f(2) f(3) [of "Year u"] lasts(8) [OF wf that] that by (auto simp: matches_def)
  show ?thesis
  proof (cases "calculateActualDaysOfMonth e y ?m = []")
    case True
    have "earlier 1 t u \<longleftrightarrow> Year u < y \<or> Year u = y \<and> Month u < ?m" if "matches e u" for u
      using u [OF that] no_empty_month [OF that wf] True by (auto simp: order_le_less)
    moreover have "12 * y + ?m < 12 * Year t + Month t"
      using f(2) month_in_range [OF wf m] valid_date_fields [of t] by (simp add: valid_date_def)
    ultimately show ?thesis
      using skip_month_back [OF wf f(1) m _ on] Some True
      by (simp add: lastYM.simps [of e ByYear] Let_def firsts(4) [OF wf])
  next
    case nonempty: False
    have "finds_last e (earlier 1 t) (Some (date_last e y ?m (last_of (calculateActualDaysOfMonth e y ?m))))"
    proof (rule last_day [OF wf f(1) m nonempty])
      fix v assume v: "earlier 1 t v" "matches e v"
      then have "Year v \<le> y" "Month v \<le> ?m" using u by auto
      then show "Year v = y \<and> Month v = ?m \<or> (\<forall>d h mi s. time_fields v \<le> [y, ?m, d, h, mi, s])"
        by (auto simp: time_fields_def)
    qed (use f(2) in simp)
    then show ?thesis using Some nonempty by (simp add: lastYM.simps Let_def firsts(4) [OF wf])
  qed
qed

lemma lastMonth_step:
  assumes wf: "wf_expression e" and y: "Year t \<in> set (yearList e)"
    and on: "searches_back e (12 * Year t + Month t)"
    and acc: "acc \<or> Month t \<notin> set (monthList e)"
  shows "finds_last e (earlier 2 t) (lastYM e ByMonth t acc)"
proof (cases "candidate (monthList e) (step_back acc (Month t))")
  case None
  note n = candidate_back_none [OF wf_listD(2) [OF wf_expressionD(4) [OF wf]] acc None]
  have "finds_last e (earlier 2 t) (lastYM e ByYear t True)"
    by (rule finds_last_lift [OF lastYear_step [OF wf on]])
      (use n in \<open>auto simp: earlier_unfold(2) matches_def\<close>)
  with None show ?thesis by (simp add: lastYM.simps [of e ByMonth])
next
  case (Some m)
  note f = candidate_back_some [OF wf_listD(2) [OF wf_expressionD(4) [OF wf]] acc Some]
  have u: "earlier 2 t u \<longleftrightarrow> Year u < Year t \<or> Year u = Year t \<and> Month u \<le> m" if "matches e u" for u
    using f(2) f(3) [of "Month u"] that by (auto simp: matches_def earlier_unfold(1,2))
  show ?thesis
  proof (cases "calculateActualDaysOfMonth e (Year t) m = []")
    case True
    have "earlier 2 t u \<longleftrightarrow> Year u < Year t \<or> Year u = Year t \<and> Month u < m" if "matches e u" for u
      using u [OF that] no_empty_month [OF that wf] True by (auto simp: order_le_less)
    then show ?thesis
      using skip_month_back [OF wf y f(1) _ on] f(2) Some True
      by (simp add: lastYM.simps [of e ByMonth t] Let_def)
  next
    case nonempty: False
    have "finds_last e (earlier 2 t)
        (Some (date_last e (Year t) m (last_of (calculateActualDaysOfMonth e (Year t) m))))"
    proof (rule last_day [OF wf y f(1) nonempty])
      fix v assume v: "earlier 2 t v" "matches e v"
      then show "Year v = Year t \<and> Month v = m \<or> (\<forall>d h mi s. time_fields v \<le> [Year t, m, d, h, mi, s])"
        using u by (auto simp: time_fields_def)
    qed (use f(2) in \<open>simp add: earlier_unfold(1,2)\<close>)
    then show ?thesis using Some nonempty by (simp add: lastYM.simps Let_def)
  qed
qed

text \<open>Each step moves to an earlier month, and 1970 is the first year.\<close>

lemma searches_back:
  assumes wf: "wf_expression e"
  shows "searches_back e k"
proof (induction "nat (k - 23640)" arbitrary: k rule: less_induct)
  case less
  show ?case
    unfolding searches_back_def
  proof (intro ballI impI)
    fix y m assume ym: "y \<in> set (yearList e)" "m \<in> set (monthList e)" "12 * y + m < k"
    note F = month_last_fields [OF wf ym(2), of y]
    have "nat (12 * y + m - 23640) < nat (k - 23640)"
      using ym(3) wf_listD(3) [OF wf_expressionD(5) [OF wf] ym(1)] month_in_range [OF wf ym(2)]
      by simp
    from less.hyps [OF this]
    show "finds_last e (earlier 2 (month_last e y m)) (lastYM e ByMonth (month_last e y m) True)"
      using F ym by (intro lastMonth_step [OF wf]) simp_all
  qed
qed

subsection \<open>Last\<close>

lemma probe_cases:
  assumes "sorted xs"
  shows "probe xs v = NoEntry \<Longrightarrow> xs = []" "probe xs v = Before \<Longrightarrow> x \<in> set xs \<Longrightarrow> v < x"
    "probe xs v = Between \<Longrightarrow> v \<notin> set xs" "probe xs v = Exact \<Longrightarrow> v \<in> set xs"
proof -
  let ?i = "search_ints xs v"
  show "probe xs v = NoEntry \<Longrightarrow> xs = []"
    by (auto simp: probe_def Let_def split: if_splits)
  show "v < x" if p: "probe xs v = Before" and x: "x \<in> set xs"
  proof -
    from p have "?i = 0" "v \<noteq> xs ! 0" by (auto simp: probe_def Let_def split: if_splits)
    then have "candidate xs v = None" by (simp add: candidate_def)
    then show ?thesis by (rule candidate_none [OF assms _ x])
  qed
  show "v \<notin> set xs" if "probe xs v = Between"
    using that search_past [of xs v] search_gap [of xs v] assms
    by (auto simp: probe_def Let_def split: if_splits)
  show "v \<in> set xs" if "probe xs v = Exact"
    using that search_exact [of xs v] assms by (auto simp: probe_def Let_def split: if_splits)
qed

lemma last_levels:
  assumes wf: "wf_expression e" and days: "days = calculateActualDaysOfMonth e (Year t) (Month t)"
  shows "acc \<or> Year t \<notin> set (yearList e) \<Longrightarrow> finds_last e (earlier 1 t) (lastYear e t acc)"
    and "Year t \<in> set (yearList e) \<Longrightarrow> acc \<or> Month t \<notin> set (monthList e) \<Longrightarrow>
      finds_last e (earlier 2 t) (lastMonth e t acc)"
    and "Year t \<in> set (yearList e) \<Longrightarrow> Month t \<in> set (monthList e) \<Longrightarrow> acc \<or> Day t \<notin> set days \<Longrightarrow>
      finds_last e (earlier 3 t) (lastActualDayOfMonth e t days acc)"
    and "at_day e t \<Longrightarrow> acc \<or> Hour t \<notin> set (hourList e) \<Longrightarrow>
      finds_last e (earlier 4 t) (lastHour e t days acc)"
    and "at_day e t \<Longrightarrow> Hour t \<in> set (hourList e) \<Longrightarrow> \<not> acc \<or> Minute t \<notin> set (minuteList e) \<Longrightarrow>
      finds_last e (earlier 5 t) (lastMinute e t days acc)"
proof -
  note on = searches_back [OF wf, of "12 * Year t + Month t"]
  show "acc \<or> Year t \<notin> set (yearList e) \<Longrightarrow> finds_last e (earlier 1 t) (lastYear e t acc)"
    unfolding lastYear_def by (rule lastYear_step [OF wf on])
  show M: "finds_last e (earlier 2 t) (lastMonth e t acc)"
    if "Year t \<in> set (yearList e)" "acc \<or> Month t \<notin> set (monthList e)" for acc
    unfolding lastMonth_def by (rule lastMonth_step [OF wf that(1) on that(2)])
  show D: "finds_last e (earlier 3 t) (lastActualDayOfMonth e t days acc)"
    if "Year t \<in> set (yearList e)" "Month t \<in> set (monthList e)" "acc \<or> Day t \<notin> set days" for acc
    by (rule lastActualDayOfMonth_finds [OF wf that(1,2) days that(3) M [OF that(1)]]) simp
  show H: "finds_last e (earlier 4 t) (lastHour e t days acc)"
    if "at_day e t" "acc \<or> Hour t \<notin> set (hourList e)" for acc
    using that(1) by (intro lastHour_finds [OF wf that] D) (simp_all add: at_day_def)
  show "finds_last e (earlier 5 t) (lastMinute e t days acc)"
    if "at_day e t" "Hour t \<in> set (hourList e)" "\<not> acc \<or> Minute t \<notin> set (minuteList e)"
    by (rule lastMinute_finds [OF wf that H [OF that(1)]]) simp
qed

text \<open>What \<open>Last\<close> finds: the last match in an earlier second, or only in an earlier minute.\<close>

definition second_reached :: "expression \<Rightarrow> instant \<Rightarrow> bool" where
  "second_reached e t \<longleftrightarrow> Second t - 1 \<in> set (secondList e) \<or>
     (\<forall>x\<in>set (secondList e). Second t \<le> x) \<or> (\<forall>x\<in>set (secondList e). x < Second t)"

lemma minute_cut:
  assumes "finds_last e (earlier k t) f" "k \<in> {1, 2, 3, 4, 5}"
    and "\<And>u. matches e u \<Longrightarrow> earlier 6 t u \<Longrightarrow> earlier k t u"
  shows "finds_last e (earlier 6 t) f"
proof (rule finds_last_lift [OF assms(1)])
  fix u assume u: "matches e u"
  have "earlier k t u \<Longrightarrow> earlier 6 t u"
    using later_mono [of k u t] assms(2) by (simp add: earlier_def) blast
  with assms(3) [OF u] show "earlier k t u \<longleftrightarrow> earlier 6 t u" by blast
qed

lemma lifted_last:
  assumes wf: "wf_expression e" and days: "days = calculateActualDaysOfMonth e (Year t) (Month t)"
    and m: "Year t \<in> set (yearList e)" "Month t \<in> set (monthList e)"
  shows "(\<And>x. x \<in> set days \<Longrightarrow> Day t < x) \<Longrightarrow> finds_last e (earlier 6 t) (lastMonth e t True)"
    and "acc \<or> Day t \<notin> set days \<Longrightarrow> Day t \<notin> set days \<or> (\<forall>x\<in>set (hourList e). Hour t < x) \<Longrightarrow>
      finds_last e (earlier 6 t) (lastActualDayOfMonth e t days acc)"
    and "at_day e t \<Longrightarrow> acc \<or> Hour t \<notin> set (hourList e) \<Longrightarrow>
      Hour t \<notin> set (hourList e) \<or> (\<forall>x\<in>set (minuteList e). Minute t < x) \<Longrightarrow>
      finds_last e (earlier 6 t) (lastHour e t days acc)"
    and "at_day e t \<Longrightarrow> Hour t \<in> set (hourList e) \<Longrightarrow> Minute t \<notin> set (minuteList e) \<Longrightarrow>
      finds_last e (earlier 6 t) (lastMinute e t days False)"
    and "at_day e t \<Longrightarrow> Hour t \<in> set (hourList e) \<Longrightarrow> \<forall>x\<in>set (secondList e). Second t \<le> x \<Longrightarrow>
      finds_last e (earlier 6 t) (lastMinute e t days False)"
proof -
  note N = last_levels [OF wf days] and U = earlier_unfold matches_def
  have day: "matches e u \<Longrightarrow> Year u = Year t \<Longrightarrow> Month u = Month t \<Longrightarrow> Day u \<in> set days" for u
    using matches_day [OF _ wf, of u] by (simp add: days)
  show "finds_last e (earlier 6 t) (lastMonth e t True)" if "\<And>x. x \<in> set days \<Longrightarrow> Day t < x"
    by (rule minute_cut [OF N(2) [OF m(1)]])
      (use that day in \<open>fastforce simp: earlier_unfold(3-6)\<close>)+
  show "finds_last e (earlier 6 t) (lastActualDayOfMonth e t days acc)"
    if "acc \<or> Day t \<notin> set days" "Day t \<notin> set days \<or> (\<forall>x\<in>set (hourList e). Hour t < x)"
    by (rule minute_cut [OF N(3) [OF m that(1)]])
      (use that day in \<open>fastforce simp: earlier_unfold(4-6) matches_def\<close>)+
  show "finds_last e (earlier 6 t) (lastHour e t days acc)"
    if "at_day e t" "acc \<or> Hour t \<notin> set (hourList e)"
      "Hour t \<notin> set (hourList e) \<or> (\<forall>x\<in>set (minuteList e). Minute t < x)"
    by (rule minute_cut [OF N(4) [OF that(1,2)]])
      (use that in \<open>fastforce simp: earlier_unfold(5,6) matches_def\<close>)+
  show "finds_last e (earlier 6 t) (lastMinute e t days False)"
    if "at_day e t" "Hour t \<in> set (hourList e)" "Minute t \<notin> set (minuteList e)"
    by (rule minute_cut [OF N(5) [OF that(1,2)]])
      (use that in \<open>fastforce simp: earlier_unfold(6) matches_def\<close>)+
  show "finds_last e (earlier 6 t) (lastMinute e t days False)"
    if "at_day e t" "Hour t \<in> set (hourList e)" "\<forall>x\<in>set (secondList e). Second t \<le> x"
    by (rule minute_cut [OF N(5) [OF that(1,2)]])
      (use that in \<open>fastforce simp: earlier_unfold(6) matches_def\<close>)+
qed

lemma Last_minute_finds:
  assumes wf: "wf_expression e" and days: "days = calculateActualDaysOfMonth e (Year t) (Month t)"
    and at: "at_day e t" "Hour t \<in> set (hourList e)" "Minute t \<in> set (minuteList e)"
  shows "second_reached e t \<Longrightarrow> finds_last e (earlier 6 t)
      (if search_ints (secondList e) (Second t) = length (secondList e)
       then lastMinute e t days True else lastSecond e t days)"
    and "\<not> second_reached e t \<Longrightarrow> finds_last e (earlier 5 t)
      (if search_ints (secondList e) (Second t) = length (secondList e)
       then lastMinute e t days True else lastSecond e t days)"
proof -
  note S = wf_listD(2) [OF wf_expressionD(1) [OF wf]]
  have m: "Year t \<in> set (yearList e)" "Month t \<in> set (monthList e)" using at by (simp_all add: at_day_def)
  have up: "finds_last e (earlier 5 t) (lastMinute e t days False)"
    by (rule last_levels(5) [OF wf days at(1,2)]) simp
  note B = lifted_last(5) [OF wf days m at(1,2)] and L = lastSecond_finds [OF wf at up]
  have e: "lastSecond e t days = lastMinute e t days False" if "Second t - 1 \<notin> set (secondList e)"
    using that search_found(1) [OF S, of "Second t - 1"] by (auto simp: lastSecond_def Let_def)
  have past: "search_ints (secondList e) (Second t) = length (secondList e) \<longleftrightarrow>
      (\<forall>x\<in>set (secondList e). x < Second t)"
    using search_none [of "secondList e" "Second t"] search_found(1,2) [OF S, of "Second t"] by fastforce
  show "finds_last e (earlier 6 t)
      (if search_ints (secondList e) (Second t) = length (secondList e)
       then lastMinute e t days True else lastSecond e t days)" if r: "second_reached e t"
    using lastMinute_same [OF wf at] past r L(1) B e
    by (cases "Second t - 1 \<in> set (secondList e)") (auto simp: second_reached_def)
  show "finds_last e (earlier 5 t)
      (if search_ints (secondList e) (Second t) = length (secondList e)
       then lastMinute e t days True else lastSecond e t days)" if "\<not> second_reached e t"
    using that past L(2) by (auto simp: second_reached_def)
qed

lemma Last_in_month_finds:
  assumes wf: "wf_expression e" and days: "days = calculateActualDaysOfMonth e (Year t) (Month t)"
    and m: "Year t \<in> set (yearList e)" "Month t \<in> set (monthList e)" and s: "second_reached e t"
  shows "finds_last e (earlier 6 t) (Last_in_month e t days)"
proof -
  note P = probe_days [OF wf m(2) days] and L = lifted_last [OF wf days m]
  note C = probe_cases [OF P(1), of "Day t"]
    probe_cases [OF wf_listD(2) [OF wf_expressionD(3) [OF wf]], of "Hour t"]
    probe_cases [OF wf_listD(2) [OF wf_expressionD(2) [OF wf]], of "Minute t"]
  have at: "at_day e t" if "probe days (Day t) = Exact"
    using C(4) that P(2) m by (simp add: at_day_def)
  have MI: "finds_last e (earlier 6 t) (case probe (minuteList e) (Minute t) of
        NoEntry \<Rightarrow> panics | Before \<Rightarrow> lastHour e t days True | Between \<Rightarrow> lastMinute e t days False
      | Exact \<Rightarrow> if search_ints (secondList e) (Second t) = length (secondList e)
         then lastMinute e t days True else lastSecond e t days)"
    if "at_day e t" "Hour t \<in> set (hourList e)"
    using C(9-12) firsts(2) [OF wf] L(3) [OF that(1), of True] L(4) [OF that]
      Last_minute_finds(1) [OF wf days that _ s]
    by (cases "probe (minuteList e) (Minute t)") simp_all
  have H: "finds_last e (earlier 6 t) (case probe (hourList e) (Hour t) of
        NoEntry \<Rightarrow> panics | Before \<Rightarrow> lastActualDayOfMonth e t days True
      | Between \<Rightarrow> lastHour e t days False
      | Exact \<Rightarrow> (case probe (minuteList e) (Minute t) of
        NoEntry \<Rightarrow> panics | Before \<Rightarrow> lastHour e t days True | Between \<Rightarrow> lastMinute e t days False
      | Exact \<Rightarrow> if search_ints (secondList e) (Second t) = length (secondList e)
         then lastMinute e t days True else lastSecond e t days))"
    if "at_day e t"
    using C(5-8) firsts(1) [OF wf] L(2) [of True] L(3) [OF that, of False] MI [OF that]
    by (cases "probe (hourList e) (Hour t)") simp_all
  show ?thesis
    unfolding Last_in_month_def using C(1-4) L(1) L(2) [of False] H at
    by (cases "probe days (Day t)") simp_all
qed

lemma Last_finds:
  assumes wf: "wf_expression e" and t: "t \<noteq> zero_time" and s: "second_reached e t"
  shows "finds_last e (earlier 6 t) (Last e t)"
proof -
  note N = last_levels [OF wf refl, where t = t]
  note C = probe_cases [OF wf_listD(2) [OF wf_expressionD(5) [OF wf]], of "Year t"]
    probe_cases [OF wf_listD(2) [OF wf_expressionD(4) [OF wf]], of "Month t"]
  note M = Last_in_month_finds [OF wf refl _ _ s]
  have Y: "finds_last e (earlier 6 t) (lastYear e t acc)"
    if "acc \<or> Year t \<notin> set (yearList e)"
      "Year t \<notin> set (yearList e) \<or> (\<forall>x\<in>set (monthList e). Month t < x)" for acc
    by (rule minute_cut [OF N(1) [OF that(1)]])
      (use that in \<open>fastforce simp: earlier_unfold(2-6) matches_def\<close>)+
  have MM: "finds_last e (earlier 6 t) (lastMonth e t False)"
    if "Year t \<in> set (yearList e)" "Month t \<notin> set (monthList e)"
    by (rule minute_cut [OF N(2) [OF that(1)]])
      (use that in \<open>fastforce simp: earlier_unfold(3-6) matches_def\<close>)+
  have Z: "finds_last e (earlier 6 t) (returns zero_time)"
    if "\<And>x. x \<in> set (yearList e) \<Longrightarrow> Year t < x"
    by (rule finds_last_none) (use that in \<open>fastforce simp: earlier_unfold(2-6) matches_def\<close>)
  have "probe (yearList e) (Year t) \<noteq> NoEntry" "probe (monthList e) (Month t) \<noteq> NoEntry"
    using C(1,5) wf_listD(1) [OF wf_expressionD(5) [OF wf]] firsts(4) [OF wf] by auto
  then show ?thesis
    using C(2-4,6-8) M Y MM Z t unfolding Last_def by (auto split: probed.split)
qed

end
