(* ===== verification/Cron_Parse.thy ===== *)
theory Cron_Parse
  imports Cron
begin

section \<open>Parsing cron expressions\<close>

text \<open>
  \<open>internal/cronexpr/cronexpr_parse.go\<close> and \<open>Parse\<close> of \<open>cronexpr.go\<close>.  The source matches every
  entry against anchored regular expressions; the value patterns are finite languages, given here
  as predicates, and the separators \<open>-\<close>, \<open>/\<close>, \<open>#\<close> and the suffixes \<open>w\<close>, \<open>l\<close> occur in none of
  them, so the submatches are found by splitting at the first separator.  Strings are ASCII
  (\<open>strings.ToLower\<close> also folds other letters).  A failed lookup in a token map is 0, as in Go.
\<close>

datatype cron_error =
    MissingFields
  | MissingDirective string
  | InvalidInterval string
  | SyntaxError string string

subsection \<open>Characters and tokens\<close>

definition is_digit :: "char \<Rightarrow> bool" where
  "is_digit c \<longleftrightarrow> 48 \<le> (of_char c :: nat) \<and> (of_char c :: nat) \<le> 57"

definition digit :: "char \<Rightarrow> int" where
  "digit c = int (of_char c) - 48"

definition digit_in :: "int \<Rightarrow> int \<Rightarrow> char \<Rightarrow> bool" where
  "digit_in lo hi c \<longleftrightarrow> is_digit c \<and> lo \<le> digit c \<and> digit c \<le> hi"

definition lower_char :: "char \<Rightarrow> char" where
  "lower_char c =
     (if 65 \<le> (of_char c :: nat) \<and> (of_char c :: nat) \<le> 90 then char_of ((of_char c :: nat) + 32)
      else c)"

definition ToLower :: "string \<Rightarrow> string" where
  "ToLower s = map lower_char s"

definition is_space :: "char \<Rightarrow> bool" where
  "is_space c \<longleftrightarrow> c \<in> {CHR '' '', CHR 0x09, CHR 0x0A, CHR 0x0C, CHR 0x0D}"

text \<open>\<open>FindAllStringIndex\<close> with \<open>\S+\<close> or \<open>[^,]+\<close>: the maximal runs.\<close>

lemma length_dropWhile_less [termination_simp]: "length (dropWhile P s) < Suc (length s)"
  by (simp add: length_dropWhile_le less_Suc_eq_le)

fun tokens :: "(char \<Rightarrow> bool) \<Rightarrow> string \<Rightarrow> string list" where
  "tokens P [] = []"
| "tokens P (c # s) =
     (if P c then (c # takeWhile P s) # tokens P (dropWhile P s) else tokens P s)"

definition fieldFinder :: "string \<Rightarrow> string list" where
  "fieldFinder s = tokens (\<lambda>c. \<not> is_space c) s"

definition entryFinder :: "string \<Rightarrow> string list" where
  "entryFinder s = tokens (\<lambda>c. c \<noteq> CHR '','') s"

text \<open>The pieces around the first occurrence of a separator.\<close>

definition split_once :: "char \<Rightarrow> string \<Rightarrow> (string \<times> string) option" where
  "split_once c s =
     (if c \<in> set s then Some (takeWhile (\<lambda>x. x \<noteq> c) s, tl (dropWhile (\<lambda>x. x \<noteq> c) s)) else None)"

definition strip_suffix :: "char \<Rightarrow> string \<Rightarrow> string option" where
  "strip_suffix c s = (if s \<noteq> [] \<and> last s = c then Some (butlast s) else None)"

subsection \<open>Token maps\<close>

definition numberTokens :: "string \<Rightarrow> int option" where
  "numberTokens s =
     (if \<not> list_all is_digit s then None
      else case s of
        [a] \<Rightarrow> Some (digit a)
      | [a, b] \<Rightarrow> (let v = 10 * digit a + digit b in if v \<le> 59 then Some v else None)
      | [a, b, c, d] \<Rightarrow>
          (let v = 1000 * digit a + 100 * digit b + 10 * digit c + digit d in
           if 1970 \<le> v \<and> v \<le> 2099 then Some v else None)
      | _ \<Rightarrow> None)"

definition monthTokens :: "(string \<times> int) list" where
  "monthTokens =
     [(''1'', 1), (''jan'', 1), (''january'', 1), (''2'', 2), (''feb'', 2), (''february'', 2),
      (''3'', 3), (''mar'', 3), (''march'', 3), (''4'', 4), (''apr'', 4), (''april'', 4),
      (''5'', 5), (''may'', 5), (''6'', 6), (''jun'', 6), (''june'', 6), (''7'', 7), (''jul'', 7),
      (''july'', 7), (''8'', 8), (''aug'', 8), (''august'', 8), (''9'', 9), (''sep'', 9),
      (''september'', 9), (''10'', 10), (''oct'', 10), (''october'', 10), (''11'', 11),
      (''nov'', 11), (''november'', 11), (''12'', 12), (''dec'', 12), (''december'', 12)]"

definition dowTokens :: "(string \<times> int) list" where
  "dowTokens =
     [(''0'', 0), (''sun'', 0), (''sunday'', 0), (''1'', 1), (''mon'', 1), (''monday'', 1),
      (''2'', 2), (''tue'', 2), (''tuesday'', 2), (''3'', 3), (''wed'', 3), (''wednesday'', 3),
      (''4'', 4), (''thu'', 4), (''thursday'', 4), (''5'', 5), (''fri'', 5), (''friday'', 5),
      (''6'', 6), (''sat'', 6), (''saturday'', 6), (''7'', 0)]"

definition or_zero :: "int option \<Rightarrow> int" where
  "or_zero v = (case v of None \<Rightarrow> 0 | Some n \<Rightarrow> n)"

definition atoi :: "string \<Rightarrow> int" where
  "atoi s = or_zero (numberTokens s)"

subsection \<open>Field descriptors\<close>

record field_descriptor =
  desc_name :: string
  desc_min :: int
  desc_max :: int
  defaultList :: "int list"
  valuePattern :: "string \<Rightarrow> bool"
  desc_atoi :: "string \<Rightarrow> int"

text \<open>\<open>two_digits a lo hi\<close>: a first digit \<open>a\<close> and a second between \<open>lo\<close> and \<open>hi\<close>.\<close>

definition two_digits :: "int \<Rightarrow> int \<Rightarrow> int \<Rightarrow> int \<Rightarrow> string \<Rightarrow> bool" where
  "two_digits alo ahi lo hi s \<longleftrightarrow>
     (case s of [a, b] \<Rightarrow> digit_in alo ahi a \<and> digit_in lo hi b | _ \<Rightarrow> False)"

definition one_digit :: "int \<Rightarrow> int \<Rightarrow> string \<Rightarrow> bool" where
  "one_digit lo hi s \<longleftrightarrow>
     (case s of [a] \<Rightarrow> digit_in lo hi a | [a, b] \<Rightarrow> a = CHR ''0'' \<and> digit_in lo hi b | _ \<Rightarrow> False)"

definition secondDescriptor :: field_descriptor where
  "secondDescriptor = \<lparr>desc_name = ''second'', desc_min = 0, desc_max = 59, defaultList = [0..59],
     valuePattern = (\<lambda>s. one_digit 0 9 s \<or> two_digits 1 5 0 9 s), desc_atoi = atoi\<rparr>"

definition minuteDescriptor :: field_descriptor where
  "minuteDescriptor = \<lparr>desc_name = ''minute'', desc_min = 0, desc_max = 59, defaultList = [0..59],
     valuePattern = (\<lambda>s. one_digit 0 9 s \<or> two_digits 1 5 0 9 s), desc_atoi = atoi\<rparr>"

definition hourDescriptor :: field_descriptor where
  "hourDescriptor = \<lparr>desc_name = ''hour'', desc_min = 0, desc_max = 23, defaultList = [0..23],
     valuePattern = (\<lambda>s. one_digit 0 9 s \<or> two_digits 1 1 0 9 s \<or> two_digits 2 2 0 3 s),
     desc_atoi = atoi\<rparr>"

definition domDescriptor :: field_descriptor where
  "domDescriptor = \<lparr>desc_name = ''day-of-month'', desc_min = 1, desc_max = 31, defaultList = [1..31],
     valuePattern = (\<lambda>s. one_digit 1 9 s \<or> two_digits 1 2 0 9 s \<or> two_digits 3 3 0 1 s),
     desc_atoi = atoi\<rparr>"

definition monthDescriptor :: field_descriptor where
  "monthDescriptor = \<lparr>desc_name = ''month'', desc_min = 1, desc_max = 12, defaultList = [1..12],
     valuePattern = (\<lambda>s. one_digit 1 9 s \<or> two_digits 1 1 0 2 s \<or>
       s \<in> {''jan'', ''feb'', ''mar'', ''apr'', ''may'', ''jun'', ''jul'', ''aug'', ''sep'', ''oct'',
         ''nov'', ''dec'', ''january'', ''february'', ''march'', ''april'', ''june'', ''july'',
         ''august'', ''september'', ''october'', ''november'', ''december''}),
     desc_atoi = (\<lambda>s. or_zero (map_of monthTokens s))\<rparr>"

definition dowDescriptor :: field_descriptor where
  "dowDescriptor = \<lparr>desc_name = ''day-of-week'', desc_min = 0, desc_max = 6, defaultList = [0..6],
     valuePattern = (\<lambda>s. one_digit 0 7 s \<or>
       s \<in> {''sun'', ''mon'', ''tue'', ''wed'', ''thu'', ''fri'', ''sat'', ''sunday'', ''monday'',
         ''tuesday'', ''wednesday'', ''thursday'', ''friday'', ''saturday''}),
     desc_atoi = (\<lambda>s. or_zero (map_of dowTokens s))\<rparr>"

definition yearDescriptor :: field_descriptor where
  "yearDescriptor = \<lparr>desc_name = ''year'', desc_min = 1970, desc_max = 2099,
     defaultList = [1970..2099],
     valuePattern = (\<lambda>s. case s of
         [a, b, c, d] \<Rightarrow>
           a = CHR ''1'' \<and> b = CHR ''9'' \<and> digit_in 7 9 c \<and> digit_in 0 9 d \<or>
           a = CHR ''2'' \<and> b = CHR ''0'' \<and> digit_in 0 9 c \<and> digit_in 0 9 d
       | _ \<Rightarrow> False),
     desc_atoi = atoi\<rparr>"

subsection \<open>Directives\<close>

datatype directive_kind = KNone | KOne | KSpan | KAll

record cron_directive =
  kind :: directive_kind
  dir_first :: int
  dir_last :: int
  dir_step :: int
  dir_text :: string

definition directive :: "directive_kind \<Rightarrow> int \<Rightarrow> int \<Rightarrow> int \<Rightarrow> string \<Rightarrow> cron_directive" where
  "directive k a b st s = \<lparr>kind = k, dir_first = a, dir_last = b, dir_step = st, dir_text = s\<rparr>"

definition range_of :: "field_descriptor \<Rightarrow> string \<Rightarrow> (int \<times> int) option" where
  "range_of desc s =
     (case split_once CHR ''-'' s of
        None \<Rightarrow> None
      | Some (a, b) \<Rightarrow>
          if valuePattern desc a \<and> valuePattern desc b
          then Some (desc_atoi desc a, desc_atoi desc b) else None)"

definition interval_of :: "string \<Rightarrow> (string \<times> int) option" where
  "interval_of s =
     (case split_once CHR ''/'' s of
        None \<Rightarrow> None
      | Some (l, d) \<Rightarrow> if d \<noteq> [] \<and> list_all is_digit d then Some (l, atoi d) else None)"

definition checked_span ::
  "field_descriptor \<Rightarrow> string \<Rightarrow> string \<Rightarrow> int \<Rightarrow> int \<Rightarrow> int \<Rightarrow> cron_error + cron_directive" where
  "checked_span desc entry snormal a b st =
     (if st < 1 \<or> st > desc_max desc then Inl (InvalidInterval snormal)
      else Inr (directive KSpan a b st entry))"

definition parse_entry :: "field_descriptor \<Rightarrow> string \<Rightarrow> cron_error + cron_directive" where
  "parse_entry desc entry =
     (let snormal = ToLower entry in
      if snormal = ''*'' \<or> snormal = ''?'' then
        Inr (directive KAll (desc_min desc) (desc_max desc) 1 entry)
      else if valuePattern desc snormal then
        Inr (directive KOne (desc_atoi desc snormal) 0 0 entry)
      else case range_of desc snormal of
        Some (a, b) \<Rightarrow> Inr (directive KSpan a b 1 entry)
      | None \<Rightarrow>
          (case interval_of snormal of
             None \<Rightarrow> Inr (directive KNone 0 0 0 entry)
           | Some (l, st) \<Rightarrow>
               if l = ''*'' then checked_span desc entry snormal (desc_min desc) (desc_max desc) st
               else if valuePattern desc l then
                 checked_span desc entry snormal (desc_atoi desc l) (desc_max desc) st
               else
                 (case range_of desc l of
                    Some (a, b) \<Rightarrow> checked_span desc entry snormal a b st
                  | None \<Rightarrow> Inr (directive KNone 0 0 0 entry))))"

fun parse_entries :: "field_descriptor \<Rightarrow> string list \<Rightarrow> cron_error + cron_directive list" where
  "parse_entries desc [] = Inr []"
| "parse_entries desc (x # xs) =
     (case parse_entry desc x of
        Inl err \<Rightarrow> Inl err
      | Inr d \<Rightarrow> (case parse_entries desc xs of Inl err \<Rightarrow> Inl err | Inr ds \<Rightarrow> Inr (d # ds)))"

definition genericFieldParse :: "string \<Rightarrow> field_descriptor \<Rightarrow> cron_error + cron_directive list" where
  "genericFieldParse s desc =
     (let entries = entryFinder s in
      if entries = [] then Inl (MissingDirective (desc_name desc)) else parse_entries desc entries)"

subsection \<open>Field handlers\<close>

definition populateOne :: "int set \<Rightarrow> int \<Rightarrow> int set" where
  "populateOne values v = insert v values"

text \<open>
  \<open>for i := min; i <= max; i += step\<close>.  The parser only makes steps of at least 1 (lemma
  \<open>parse_entry_step\<close>); with a smaller one the source would not return.
\<close>

function populateMany :: "int set \<Rightarrow> int \<Rightarrow> int \<Rightarrow> int \<Rightarrow> int set" where
  "populateMany values i hi st =
     (if i \<le> hi \<and> 1 \<le> st then populateMany (insert i values) (i + st) hi st else values)"
  by pat_completeness auto
termination
  by (relation "measure (\<lambda>(values, i, hi, st). nat (hi + 1 - i))") auto

declare populateMany.simps [simp del]

definition toList :: "int set \<Rightarrow> int list" where
  "toList values = sorted_list_of_set values"

fun generic_directives ::
  "field_descriptor \<Rightarrow> int set \<Rightarrow> cron_directive list \<Rightarrow> cron_error + int list" where
  "generic_directives desc values [] = Inr (toList values)"
| "generic_directives desc values (d # ds) =
     (case kind d of
        KNone \<Rightarrow> Inl (SyntaxError (desc_name desc) (dir_text d))
      | KOne \<Rightarrow> generic_directives desc (populateOne values (dir_first d)) ds
      | KSpan \<Rightarrow> generic_directives desc
          (populateMany values (dir_first d) (dir_last d) (dir_step d)) ds
      | KAll \<Rightarrow> Inr (defaultList desc))"

definition genericFieldHandler :: "string \<Rightarrow> field_descriptor \<Rightarrow> cron_error + int list" where
  "genericFieldHandler s desc =
     (case genericFieldParse s desc of
        Inl err \<Rightarrow> Inl err
      | Inr ds \<Rightarrow> generic_directives desc {} ds)"

definition update_list ::
  "(int list \<Rightarrow> expression \<Rightarrow> expression) \<Rightarrow> expression \<Rightarrow> cron_error + int list \<Rightarrow>
   cron_error + expression" where
  "update_list upd e r = (case r of Inl err \<Rightarrow> Inl err | Inr xs \<Rightarrow> Inr (upd xs e))"

definition secondFieldHandler :: "string \<Rightarrow> expression \<Rightarrow> cron_error + expression" where
  "secondFieldHandler s e =
     update_list (\<lambda>xs e. e\<lparr>secondList := xs\<rparr>) e (genericFieldHandler s secondDescriptor)"

definition minuteFieldHandler :: "string \<Rightarrow> expression \<Rightarrow> cron_error + expression" where
  "minuteFieldHandler s e =
     update_list (\<lambda>xs e. e\<lparr>minuteList := xs\<rparr>) e (genericFieldHandler s minuteDescriptor)"

definition hourFieldHandler :: "string \<Rightarrow> expression \<Rightarrow> cron_error + expression" where
  "hourFieldHandler s e =
     update_list (\<lambda>xs e. e\<lparr>hourList := xs\<rparr>) e (genericFieldHandler s hourDescriptor)"

definition monthFieldHandler :: "string \<Rightarrow> expression \<Rightarrow> cron_error + expression" where
  "monthFieldHandler s e =
     update_list (\<lambda>xs e. e\<lparr>monthList := xs\<rparr>) e (genericFieldHandler s monthDescriptor)"

definition yearFieldHandler :: "string \<Rightarrow> expression \<Rightarrow> cron_error + expression" where
  "yearFieldHandler s e =
     update_list (\<lambda>xs e. e\<lparr>yearList := xs\<rparr>) e (genericFieldHandler s yearDescriptor)"

text \<open>\<open>5L\<close> and \<open>5#3\<close>.\<close>

definition dow_special :: "cron_directive \<Rightarrow> expression \<Rightarrow> cron_error + expression" where
  "dow_special d e =
     (let s = ToLower (dir_text d); bad = Inl (SyntaxError ''day-of-week'' (dir_text d)) in
      case strip_suffix CHR ''l'' s of
        Some v \<Rightarrow>
          if valuePattern dowDescriptor v
          then Inr (e\<lparr>lastWeekDaysOfWeek := populateOne (lastWeekDaysOfWeek e) (desc_atoi dowDescriptor v)\<rparr>)
          else bad
      | None \<Rightarrow>
          (case split_once CHR ''#'' s of
             Some (v, n) \<Rightarrow>
               if valuePattern dowDescriptor v \<and> n \<in> {''1'', ''2'', ''3'', ''4'', ''5''}
               then Inr (e\<lparr>specificWeekDaysOfWeek := populateOne (specificWeekDaysOfWeek e)
                 ((desc_atoi dowDescriptor n - 1) * 7 + desc_atoi dowDescriptor v mod 7)\<rparr>)
               else bad
           | None \<Rightarrow> bad))"

fun dow_directives :: "cron_directive list \<Rightarrow> expression \<Rightarrow> cron_error + expression" where
  "dow_directives [] e = Inr e"
| "dow_directives (d # ds) e =
     (case kind d of
        KNone \<Rightarrow> (case dow_special d e of Inl err \<Rightarrow> Inl err | Inr e' \<Rightarrow> dow_directives ds e')
      | KOne \<Rightarrow> dow_directives ds (e\<lparr>daysOfWeek := populateOne (daysOfWeek e) (dir_first d)\<rparr>)
      | KSpan \<Rightarrow> dow_directives ds
          (e\<lparr>daysOfWeek := populateMany (daysOfWeek e) (dir_first d) (dir_last d) (dir_step d)\<rparr>)
      | KAll \<Rightarrow> dow_directives ds
          (e\<lparr>daysOfWeek := populateMany (daysOfWeek e) (dir_first d) (dir_last d) (dir_step d),
             daysOfWeekRestricted := False\<rparr>))"

definition dowFieldHandler :: "string \<Rightarrow> expression \<Rightarrow> cron_error + expression" where
  "dowFieldHandler s e =
     (let e = e\<lparr>daysOfWeek := {}, specificWeekDaysOfWeek := {}, lastWeekDaysOfWeek := {},
        daysOfWeekRestricted := True\<rparr> in
      case genericFieldParse s dowDescriptor of
        Inl err \<Rightarrow> Inl err
      | Inr ds \<Rightarrow> dow_directives ds e)"

text \<open>\<open>L\<close>, \<open>LW\<close> and \<open>15W\<close>.\<close>

definition dom_special :: "cron_directive \<Rightarrow> expression \<Rightarrow> cron_error + expression" where
  "dom_special d e =
     (let s = ToLower (dir_text d); bad = Inl (SyntaxError ''day-of-month'' (dir_text d)) in
      if s = ''l'' then Inr (e\<lparr>lastDayOfMonth := True\<rparr>)
      else if s = ''lw'' then Inr (e\<lparr>lastWorkdayOfMonth := True\<rparr>)
      else case strip_suffix CHR ''w'' s of
        Some v \<Rightarrow>
          if valuePattern domDescriptor v
          then Inr (e\<lparr>workdaysOfMonth := populateOne (workdaysOfMonth e) (desc_atoi domDescriptor v)\<rparr>)
          else bad
      | None \<Rightarrow> bad)"

fun dom_directives :: "cron_directive list \<Rightarrow> expression \<Rightarrow> cron_error + expression" where
  "dom_directives [] e = Inr e"
| "dom_directives (d # ds) e =
     (case kind d of
        KNone \<Rightarrow> (case dom_special d e of Inl err \<Rightarrow> Inl err | Inr e' \<Rightarrow> dom_directives ds e')
      | KOne \<Rightarrow> dom_directives ds (e\<lparr>daysOfMonth := populateOne (daysOfMonth e) (dir_first d)\<rparr>)
      | KSpan \<Rightarrow> dom_directives ds
          (e\<lparr>daysOfMonth := populateMany (daysOfMonth e) (dir_first d) (dir_last d) (dir_step d)\<rparr>)
      | KAll \<Rightarrow> dom_directives ds
          (e\<lparr>daysOfMonth := populateMany (daysOfMonth e) (dir_first d) (dir_last d) (dir_step d),
             daysOfMonthRestricted := False\<rparr>))"

definition domFieldHandler :: "string \<Rightarrow> expression \<Rightarrow> cron_error + expression" where
  "domFieldHandler s e =
     (let e = e\<lparr>daysOfMonth := {}, workdaysOfMonth := {}, lastDayOfMonth := False,
        lastWorkdayOfMonth := False, daysOfMonthRestricted := True\<rparr> in
      case genericFieldParse s domDescriptor of
        Inl err \<Rightarrow> Inl err
      | Inr ds \<Rightarrow> dom_directives ds e)"

subsection \<open>Parse\<close>

definition aliases :: "(string \<times> string) list" where
  "aliases =
     [(''@yearly'', ''0 0 0 1 1 * *''), (''@annually'', ''0 0 0 1 1 * *''),
      (''@monthly'', ''0 0 0 1 * * *''), (''@weekly'', ''0 0 0 * * 0 *''),
      (''@daily'', ''0 0 0 * * * *''), (''@hourly'', ''0 0 * * * * *'')]"

definition is_prefix :: "string \<Rightarrow> string \<Rightarrow> bool" where
  "is_prefix p s \<longleftrightarrow> take (length p) s = p"

text \<open>\<open>strings.NewReplacer\<close>: at each position the first alias that fits is replaced.\<close>

fun cronNormalizer :: "string \<Rightarrow> string" where
  "cronNormalizer [] = []"
| "cronNormalizer (c # s) =
     (case List.find (\<lambda>(p, r). is_prefix p (c # s)) aliases of
        Some (p, r) \<Rightarrow> r @ cronNormalizer (drop (length p - 1) s)
      | None \<Rightarrow> c # cronNormalizer s)"

definition empty_expression :: expression where
  "empty_expression = \<lparr>secondList = [], minuteList = [], hourList = [], daysOfMonth = {},
     workdaysOfMonth = {}, lastDayOfMonth = False, lastWorkdayOfMonth = False,
     daysOfMonthRestricted = False, monthList = [], daysOfWeek = {}, specificWeekDaysOfWeek = {},
     lastWeekDaysOfWeek = {}, daysOfWeekRestricted = False, yearList = []\<rparr>"

fun run_handlers ::
  "(string \<Rightarrow> expression \<Rightarrow> cron_error + expression) list \<Rightarrow> string list \<Rightarrow> expression \<Rightarrow>
   cron_error + expression" where
  "run_handlers (h # hs) (f # fs) e =
     (case h f e of Inl err \<Rightarrow> Inl err | Inr e' \<Rightarrow> run_handlers hs fs e')"
| "run_handlers _ _ e = Inr e"

definition Parse :: "string \<Rightarrow> cron_error + expression" where
  "Parse cronLine =
     (let fields = fieldFinder (cronNormalizer cronLine);
          common = [minuteFieldHandler, hourFieldHandler, domFieldHandler, monthFieldHandler,
            dowFieldHandler, yearFieldHandler] in
      if length fields < 5 then Inl MissingFields
      else if length fields \<ge> 7 then
        run_handlers (secondFieldHandler # common) (take 7 fields) empty_expression
      else
        (case run_handlers common fields (empty_expression\<lparr>secondList := [0]\<rparr>) of
           Inl err \<Rightarrow> Inl err
         | Inr e \<Rightarrow> Inr (if length fields = 5 then e\<lparr>yearList := defaultList yearDescriptor\<rparr> else e)))"

end
