(* ===== verification/Cron_Props.thy ===== *)
theory Cron_Props
  imports Cron_Last Cron_Parse
begin

section \<open>Properties of cron schedules\<close>

text \<open>
  What the parser guarantees of an expression, and what \<open>Next\<close>, \<open>NextN\<close> and \<open>Last\<close> return for an
  expression it produced.  Two kinds of text are accepted without giving a usable expression: an
  empty range (\<open>30-10\<close>) leaves a list empty, and a month with a leading zero (\<open>01\<close>) is read as
  month 0; \<open>complete\<close> excludes both, and the last theorem shows what they lead to.
\<close>

subsection \<open>Values\<close>

definition in_range :: "int \<Rightarrow> int \<Rightarrow> int list \<Rightarrow> bool" where
  "in_range lo hi xs \<longleftrightarrow> sorted xs \<and> set xs \<subseteq> {lo..hi}"

definition desc_ok :: "int \<Rightarrow> field_descriptor \<Rightarrow> bool" where
  "desc_ok lo desc \<longleftrightarrow> lo \<le> desc_min desc \<and> in_range lo (desc_max desc) (defaultList desc) \<and>
     (\<forall>s. valuePattern desc s \<longrightarrow> lo \<le> desc_atoi desc s \<and> desc_atoi desc s \<le> desc_max desc)"

lemma digit_range: "is_digit c \<Longrightarrow> 0 \<le> digit c \<and> digit c \<le> 9"
  by (auto simp: is_digit_def digit_def)

lemma digit_0 [simp]: "digit CHR ''0'' = 0" "is_digit CHR ''0''"
  by (simp_all add: digit_def is_digit_def)

lemma atoi_one_digit: "one_digit lo hi s \<Longrightarrow> lo \<le> atoi s \<and> atoi s \<le> hi"
  by (auto simp: one_digit_def digit_in_def atoi_def numberTokens_def or_zero_def
      dest: digit_range split: list.splits)

lemma atoi_two_digits:
  assumes "two_digits alo ahi lo hi s" "10 * ahi + hi \<le> 59"
  shows "10 * alo + lo \<le> atoi s" "atoi s \<le> 10 * ahi + hi"
proof -
  obtain a b where s: "s = [a, b]" "digit_in alo ahi a" "digit_in lo hi b"
    using assms(1) by (auto simp: two_digits_def split: list.splits)
  then have "atoi s = 10 * digit a + digit b"
    using assms(2) by (auto simp: digit_in_def atoi_def numberTokens_def or_zero_def Let_def)
  with s show "10 * alo + lo \<le> atoi s" "atoi s \<le> 10 * ahi + hi" by (auto simp: digit_in_def)
qed

lemma month_value: "0 \<le> or_zero (map_of monthTokens s) \<and> or_zero (map_of monthTokens s) \<le> 12"
  by (auto simp: or_zero_def monthTokens_def dest!: map_of_SomeD split: option.split)

lemma dow_value: "0 \<le> or_zero (map_of dowTokens s) \<and> or_zero (map_of dowTokens s) \<le> 6"
  by (auto simp: or_zero_def dowTokens_def dest!: map_of_SomeD split: option.split)

lemma desc_ok_all:
  "desc_ok 0 secondDescriptor" "desc_ok 0 minuteDescriptor" "desc_ok 0 hourDescriptor"
  "desc_ok 1 domDescriptor" "desc_ok 0 monthDescriptor" "desc_ok 0 dowDescriptor"
  "desc_ok 1970 yearDescriptor"
proof -
  note A = atoi_one_digit [of 0 9] atoi_two_digits [of 1 5 0 9] atoi_two_digits [of 1 1 0 9]
    atoi_two_digits [of 2 2 0 3] atoi_one_digit [of 1 9] atoi_two_digits [of 1 2 0 9]
    atoi_two_digits [of 3 3 0 1]
  show "desc_ok 0 secondDescriptor" "desc_ok 0 minuteDescriptor" "desc_ok 0 hourDescriptor"
    "desc_ok 1 domDescriptor"
    by (force simp: desc_ok_def in_range_def secondDescriptor_def minuteDescriptor_def
        hourDescriptor_def domDescriptor_def dest: A)+
  show "desc_ok 0 monthDescriptor" "desc_ok 0 dowDescriptor"
    using month_value dow_value
    by (simp_all add: desc_ok_def in_range_def monthDescriptor_def dowDescriptor_def)
  have "1970 \<le> atoi s \<and> atoi s \<le> 2099" if "valuePattern yearDescriptor s" for s
  proof -
    have D: "digit CHR ''1'' = 1" "digit CHR ''9'' = 9" "digit CHR ''2'' = 2" "is_digit CHR ''1''"
      "is_digit CHR ''9''" "is_digit CHR ''2''" by (simp_all add: digit_def is_digit_def)
    from that obtain a b c d where s: "s = [a, b, c, d]"
      and ab: "a = CHR ''1'' \<and> b = CHR ''9'' \<and> 7 \<le> digit c \<or> a = CHR ''2'' \<and> b = CHR ''0''"
      and cd: "is_digit c" "is_digit d"
      by (auto simp: yearDescriptor_def digit_in_def split: list.splits)
    have r: "0 \<le> digit c" "digit c \<le> 9" "0 \<le> digit d" "digit d \<le> 9"
      using digit_range cd by auto
    from ab have ab': "is_digit a" "is_digit b" by (auto simp: D)
    define v where "v = 1000 * digit a + 100 * digit b + 10 * digit c + digit d"
    have "1970 \<le> v" "v \<le> 2099" using ab r unfolding v_def by (elim disjE conjE; simp add: D)+
    moreover have "numberTokens s = (if 1970 \<le> v \<and> v \<le> 2099 then Some v else None)"
      using cd ab' unfolding s numberTokens_def v_def Let_def by simp
    ultimately show ?thesis by (simp add: atoi_def or_zero_def)
  qed
  moreover have "desc_atoi yearDescriptor = atoi" "desc_min yearDescriptor = 1970"
    "desc_max yearDescriptor = 2099" "defaultList yearDescriptor = [1970..2099]"
    by (simp_all add: yearDescriptor_def)
  ultimately show "desc_ok 1970 yearDescriptor"
    unfolding desc_ok_def in_range_def by (metis order_refl set_upto sorted_upto subset_refl)
qed

subsection \<open>Directives\<close>

definition directive_ok :: "int \<Rightarrow> int \<Rightarrow> cron_directive \<Rightarrow> bool" where
  "directive_ok lo hi d \<longleftrightarrow>
     (case kind d of
        KNone \<Rightarrow> True
      | KOne \<Rightarrow> lo \<le> dir_first d \<and> dir_first d \<le> hi
      | _ \<Rightarrow> lo \<le> dir_first d \<and> dir_last d \<le> hi \<and> 1 \<le> dir_step d)"

lemma range_of_ok:
  "desc_ok lo desc \<Longrightarrow> range_of desc s = Some (a, b) \<Longrightarrow> lo \<le> a \<and> b \<le> desc_max desc"
  by (auto simp: range_of_def desc_ok_def split: option.splits if_splits)

lemma parse_entry_ok:
  assumes ok: "desc_ok lo desc" and p: "parse_entry desc s = Inr d"
  shows "directive_ok lo (desc_max desc) d"
proof -
  have v: "valuePattern desc v \<Longrightarrow> lo \<le> desc_atoi desc v \<and> desc_atoi desc v \<le> desc_max desc"
    "lo \<le> desc_min desc" for v
    using ok by (auto simp: desc_ok_def)
  show ?thesis
    using p v(2)
    by (auto simp: parse_entry_def Let_def directive_ok_def directive_def checked_span_def
        dest: v(1) range_of_ok [OF ok] split: option.splits prod.splits if_splits)
qed

lemma parse_entry_step:
  "parse_entry desc s = Inr d \<Longrightarrow> kind d = KSpan \<or> kind d = KAll \<Longrightarrow> 1 \<le> dir_step d"
  by (auto simp: parse_entry_def Let_def directive_def checked_span_def
      split: option.splits prod.splits if_splits)

lemma parse_entries_ok:
  "desc_ok lo desc \<Longrightarrow> parse_entries desc xs = Inr ds \<Longrightarrow> d \<in> set ds \<Longrightarrow>
     directive_ok lo (desc_max desc) d"
  by (induction xs arbitrary: ds) (auto split: sum.splits dest: parse_entry_ok)

lemma genericFieldParse_ok:
  "desc_ok lo desc \<Longrightarrow> genericFieldParse s desc = Inr ds \<Longrightarrow> d \<in> set ds \<Longrightarrow>
     directive_ok lo (desc_max desc) d"
  by (auto simp: genericFieldParse_def Let_def split: if_splits dest: parse_entries_ok)

lemma populateMany_set:
  "1 \<le> st \<Longrightarrow> populateMany vs i hi st = vs \<union> {v. i \<le> v \<and> v \<le> hi \<and> st dvd v - i}"
proof (induction vs i hi st rule: populateMany.induct)
  case (1 vs i hi st)
  show ?case
  proof (cases "i \<le> hi")
    case True
    have "{v. i \<le> v \<and> v \<le> hi \<and> st dvd v - i} =
        insert i {v. i + st \<le> v \<and> v \<le> hi \<and> st dvd v - (i + st)}" (is "?A = ?B")
    proof
      show "?A \<subseteq> ?B"
      proof
        fix v assume v: "v \<in> ?A"
        then obtain q where q: "v - i = st * q" by auto
        show "v \<in> ?B"
        proof (cases "v = i")
          case False
          with v have "0 < v - i" by simp
          then have "1 \<le> q" using q "1.prems" by (simp add: zero_less_mult_iff)
          then have "st * 1 \<le> st * q" using "1.prems" by (intro mult_left_mono) simp_all
          then have "i + st \<le> v" using q by linarith
          moreover have "v - (i + st) = st * (q - 1)" using q by (simp add: right_diff_distrib)
          then have "st dvd v - (i + st)" by (rule dvdI)
          ultimately show ?thesis using v by blast
        qed simp
      qed
      show "?B \<subseteq> ?A"
      proof
        fix v assume "v \<in> ?B"
        then consider "v = i" | "i + st \<le> v" "v \<le> hi" "st dvd v - (i + st)" by auto
        then show "v \<in> ?A"
        proof cases
          case 2
          then have "st dvd (v - (i + st)) + st" by (intro dvd_add) simp_all
          with 2 "1.prems" show ?thesis by simp
        qed (use True in simp)
      qed
    qed
    then show ?thesis using "1.IH" True "1.prems" by (subst populateMany.simps) simp
  next
    case False
    then show ?thesis by (subst populateMany.simps) auto
  qed
qed

lemma populateMany_range:
  "vs \<subseteq> {lo..hi} \<Longrightarrow> lo \<le> a \<Longrightarrow> b \<le> hi \<Longrightarrow> 1 \<le> st \<Longrightarrow> populateMany vs a b st \<subseteq> {lo..hi}"
  by (auto simp: populateMany_set)

lemma toList_range: "vs \<subseteq> {lo..hi} \<Longrightarrow> in_range lo hi (toList vs)"
  using finite_subset [of vs "{lo..hi}"] by (simp add: toList_def in_range_def)

lemma generic_directives_range:
  assumes "in_range lo hi (defaultList desc)"
  shows "\<forall>d\<in>set ds. directive_ok lo hi d \<Longrightarrow> vs \<subseteq> {lo..hi} \<Longrightarrow>
    generic_directives desc vs ds = Inr xs \<Longrightarrow> in_range lo hi xs"
proof (induction ds arbitrary: vs)
  case Nil
  then show ?case by (auto intro: toList_range)
next
  case (Cons d ds)
  show ?case
  proof (cases "kind d")
    case KSpan
    then have "populateMany vs (dir_first d) (dir_last d) (dir_step d) \<subseteq> {lo..hi}"
      using Cons.prems(1,2) by (intro populateMany_range) (auto simp: directive_ok_def)
    with KSpan Cons show ?thesis by simp
  next
    case KOne
    with Cons.IH [of "insert (dir_first d) vs"] Cons.prems show ?thesis
      by (simp add: directive_ok_def populateOne_def)
  qed (use Cons.prems assms in auto)
qed

lemma genericFieldHandler_range:
  assumes "desc_ok lo desc" "genericFieldHandler s desc = Inr xs"
  shows "in_range lo (desc_max desc) xs"
  using assms(2) generic_directives_range [of lo "desc_max desc" desc _ "{}" xs] assms(1)
    genericFieldParse_ok [OF assms(1)]
  by (auto simp: genericFieldHandler_def desc_ok_def split: sum.splits)

text \<open>The day fields.\<close>

definition dom_ok :: "expression \<Rightarrow> bool" where
  "dom_ok e \<longleftrightarrow> daysOfMonth e \<subseteq> {1..31} \<and> workdaysOfMonth e \<subseteq> {1..31}"

definition dow_ok :: "expression \<Rightarrow> bool" where
  "dow_ok e \<longleftrightarrow> daysOfWeek e \<subseteq> {0..6} \<and> specificWeekDaysOfWeek e \<subseteq> {0..34} \<and>
     lastWeekDaysOfWeek e \<subseteq> {0..6}"

text \<open>The handlers of one field leave the others alone.\<close>

definition same_lists :: "expression \<Rightarrow> expression \<Rightarrow> bool" where
  "same_lists e e' \<longleftrightarrow> secondList e' = secondList e \<and> minuteList e' = minuteList e \<and>
     hourList e' = hourList e \<and> monthList e' = monthList e \<and> yearList e' = yearList e"

lemma dom_max: "desc_max domDescriptor = 31" "desc_max dowDescriptor = 6"
  by (simp_all add: domDescriptor_def dowDescriptor_def)

lemma dom_special_ok:
  "dom_special d e = Inr e' \<Longrightarrow> same_lists e e' \<and> dow_ok e' = dow_ok e \<and> (dom_ok e \<longrightarrow> dom_ok e')"
  using desc_ok_all(4) dom_max
  by (auto simp: dom_special_def Let_def same_lists_def dom_ok_def dow_ok_def populateOne_def desc_ok_def
      subset_iff split: if_splits option.splits)

lemma dom_directives_ok:
  "\<forall>d\<in>set ds. directive_ok 1 31 d \<Longrightarrow> dom_directives ds e = Inr e' \<Longrightarrow> dom_ok e \<Longrightarrow>
     same_lists e e' \<and> dow_ok e' = dow_ok e \<and> dom_ok e'"
proof (induction ds arbitrary: e)
  case Nil
  then show ?case by (simp add: same_lists_def)
next
  case (Cons d ds)
  have m: "kind d = KSpan \<or> kind d = KAll \<Longrightarrow>
      populateMany (daysOfMonth e) (dir_first d) (dir_last d) (dir_step d) \<subseteq> {1..31}"
    using Cons.prems(1,3) by (intro populateMany_range) (auto simp: directive_ok_def dom_ok_def)
  show ?case
  proof (cases "kind d")
    case KNone
    with Cons.prems obtain e1 where e1: "dom_special d e = Inr e1" "dom_directives ds e1 = Inr e'"
      by (auto split: sum.splits)
    with Cons.IH [of e1] Cons.prems dom_special_ok [OF e1(1)] show ?thesis by (simp add: same_lists_def)
  next
    case KOne
    then have "dom_ok (e\<lparr>daysOfMonth := populateOne (daysOfMonth e) (dir_first d)\<rparr>)"
      using Cons.prems by (auto simp: dom_ok_def populateOne_def directive_ok_def)
    with Cons.IH [OF _ _ this] Cons.prems KOne show ?thesis by (simp add: same_lists_def dow_ok_def)
  next
    case KSpan
    then have "dom_ok (e\<lparr>daysOfMonth := populateMany (daysOfMonth e) (dir_first d) (dir_last d) (dir_step d)\<rparr>)"
      using Cons.prems m by (simp add: dom_ok_def)
    with Cons.IH [OF _ _ this] Cons.prems KSpan show ?thesis by (simp add: same_lists_def dow_ok_def)
  next
    case KAll
    then have "dom_ok (e\<lparr>daysOfMonth := populateMany (daysOfMonth e) (dir_first d) (dir_last d) (dir_step d),
        daysOfMonthRestricted := False\<rparr>)"
      using Cons.prems m by (simp add: dom_ok_def)
    with Cons.IH [OF _ _ this] Cons.prems KAll show ?thesis by (simp add: same_lists_def dow_ok_def)
  qed
qed

lemma dow_special_ok:
  assumes "dow_special d e = Inr e'"
  shows "same_lists e e' \<and> dom_ok e' = dom_ok e \<and> (dow_ok e \<longrightarrow> dow_ok e')"
proof -
  have v: "0 \<le> desc_atoi dowDescriptor s" "desc_atoi dowDescriptor s \<le> 6" for s
    using dow_value [of s] by (simp_all add: dowDescriptor_def)
  have n: "desc_atoi dowDescriptor s \<in> {1..5}" if "s \<in> {''1'', ''2'', ''3'', ''4'', ''5''}" for s
    using that by (auto simp: dowDescriptor_def dowTokens_def or_zero_def)
  have w: "0 \<le> (desc_atoi dowDescriptor s - 1) * 7 + desc_atoi dowDescriptor u mod 7 \<and>
      (desc_atoi dowDescriptor s - 1) * 7 + desc_atoi dowDescriptor u mod 7 \<le> 34"
    if "s \<in> {''1'', ''2'', ''3'', ''4'', ''5''}" for s u
  proof -
    have "desc_atoi dowDescriptor u mod 7 < 7" "0 \<le> desc_atoi dowDescriptor u mod 7" by simp_all
    moreover from n [OF that] have "1 \<le> desc_atoi dowDescriptor s" "desc_atoi dowDescriptor s \<le> 5" by simp_all
    moreover have "1 \<le> a \<Longrightarrow> a \<le> 5 \<Longrightarrow> 0 \<le> b \<Longrightarrow> b < 7 \<Longrightarrow> 0 \<le> (a - 1) * 7 + b \<and> (a - 1) * 7 + b \<le> 34"
      for a b :: int by simp
    ultimately show ?thesis by blast
  qed
  consider u where "e' = e\<lparr>lastWeekDaysOfWeek := insert (desc_atoi dowDescriptor u) (lastWeekDaysOfWeek e)\<rparr>"
    | s u where "s \<in> {''1'', ''2'', ''3'', ''4'', ''5''}"
      "e' = e\<lparr>specificWeekDaysOfWeek := insert ((desc_atoi dowDescriptor s - 1) * 7 +
         desc_atoi dowDescriptor u mod 7) (specificWeekDaysOfWeek e)\<rparr>"
    using assms unfolding dow_special_def Let_def populateOne_def
    by (simp del: insert_iff split: option.split_asm prod.split_asm if_split_asm; blast)
  then show ?thesis
  proof cases
    case 1
    then show ?thesis using v by (simp add: same_lists_def dom_ok_def dow_ok_def)
  next
    case 2
    then show ?thesis using w [OF 2(1)] by (simp add: same_lists_def dom_ok_def dow_ok_def)
  qed
qed

lemma dow_directives_ok:
  "\<forall>d\<in>set ds. directive_ok 0 6 d \<Longrightarrow> dow_directives ds e = Inr e' \<Longrightarrow> dow_ok e \<Longrightarrow>
     same_lists e e' \<and> dom_ok e' = dom_ok e \<and> dow_ok e'"
proof (induction ds arbitrary: e)
  case Nil
  then show ?case by (simp add: same_lists_def)
next
  case (Cons d ds)
  have m: "kind d = KSpan \<or> kind d = KAll \<Longrightarrow>
      populateMany (daysOfWeek e) (dir_first d) (dir_last d) (dir_step d) \<subseteq> {0..6}"
    using Cons.prems(1,3) by (intro populateMany_range) (auto simp: directive_ok_def dow_ok_def)
  show ?case
  proof (cases "kind d")
    case KNone
    with Cons.prems obtain e1 where e1: "dow_special d e = Inr e1" "dow_directives ds e1 = Inr e'"
      by (auto split: sum.splits)
    with Cons.IH [of e1] Cons.prems dow_special_ok [OF e1(1)] show ?thesis by (simp add: same_lists_def)
  next
    case KOne
    then have "dow_ok (e\<lparr>daysOfWeek := populateOne (daysOfWeek e) (dir_first d)\<rparr>)"
      using Cons.prems by (auto simp: dow_ok_def populateOne_def directive_ok_def)
    with Cons.IH [OF _ _ this] Cons.prems KOne show ?thesis by (simp add: same_lists_def dom_ok_def)
  next
    case KSpan
    then have "dow_ok (e\<lparr>daysOfWeek := populateMany (daysOfWeek e) (dir_first d) (dir_last d) (dir_step d)\<rparr>)"
      using Cons.prems m by (simp add: dow_ok_def)
    with Cons.IH [OF _ _ this] Cons.prems KSpan show ?thesis by (simp add: same_lists_def dom_ok_def)
  next
    case KAll
    then have "dow_ok (e\<lparr>daysOfWeek := populateMany (daysOfWeek e) (dir_first d) (dir_last d) (dir_step d),
        daysOfWeekRestricted := False\<rparr>)"
      using Cons.prems m by (simp add: dow_ok_def)
    with Cons.IH [OF _ _ this] Cons.prems KAll show ?thesis by (simp add: same_lists_def dom_ok_def)
  qed
qed

lemma domFieldHandler_ok:
  assumes "domFieldHandler s e = Inr e'"
  shows "same_lists e e' \<and> dow_ok e' = dow_ok e \<and> dom_ok e'"
proof -
  let ?e = "e\<lparr>daysOfMonth := {}, workdaysOfMonth := {}, lastDayOfMonth := False,
    lastWorkdayOfMonth := False, daysOfMonthRestricted := True\<rparr>"
  obtain ds where ds: "genericFieldParse s domDescriptor = Inr ds" "dom_directives ds ?e = Inr e'"
    using assms by (auto simp: domFieldHandler_def Let_def split: sum.splits)
  have "dom_ok ?e" by (simp add: dom_ok_def)
  from dom_directives_ok [OF _ ds(2) this] genericFieldParse_ok [OF desc_ok_all(4) ds(1)] dom_max
  show ?thesis by (simp add: same_lists_def dow_ok_def)
qed

lemma dowFieldHandler_ok:
  assumes "dowFieldHandler s e = Inr e'"
  shows "same_lists e e' \<and> dom_ok e' = dom_ok e \<and> dow_ok e'"
proof -
  let ?e = "e\<lparr>daysOfWeek := {}, specificWeekDaysOfWeek := {}, lastWeekDaysOfWeek := {},
    daysOfWeekRestricted := True\<rparr>"
  obtain ds where ds: "genericFieldParse s dowDescriptor = Inr ds" "dow_directives ds ?e = Inr e'"
    using assms by (auto simp: dowFieldHandler_def Let_def split: sum.splits)
  have "dow_ok ?e" by (simp add: dow_ok_def)
  from dow_directives_ok [OF _ ds(2) this] genericFieldParse_ok [OF desc_ok_all(6) ds(1)] dom_max
  show ?thesis by (simp add: same_lists_def dom_ok_def)
qed

subsection \<open>Parsed expressions\<close>

text \<open>Months may be 0, although the field is declared as 1 to 12: the texts 01 to 09 are accepted and read as 0
  (see the end of the theory).\<close>

definition parsed_range :: "expression \<Rightarrow> bool" where
  "parsed_range e \<longleftrightarrow>
     in_range 0 59 (secondList e) \<and> in_range 0 59 (minuteList e) \<and> in_range 0 23 (hourList e) \<and>
     in_range 0 12 (monthList e) \<and> in_range 1970 2099 (yearList e) \<and> dom_ok e \<and> dow_ok e"

lemma desc_maxs:
  "desc_max secondDescriptor = 59" "desc_max minuteDescriptor = 59" "desc_max hourDescriptor = 23"
  "desc_max monthDescriptor = 12" "desc_max yearDescriptor = 2099"
  by (simp_all add: secondDescriptor_def minuteDescriptor_def hourDescriptor_def
      monthDescriptor_def yearDescriptor_def)

lemma update_list_range:
  assumes "update_list upd e (genericFieldHandler s desc) = Inr e'" "desc_ok lo desc"
    and "\<And>xs. in_range lo (desc_max desc) xs \<Longrightarrow> parsed_range (upd xs e)"
  shows "parsed_range e'"
  using assms(1,3) genericFieldHandler_range [OF assms(2), of s]
  by (auto simp: update_list_def split: sum.splits)

lemma list_handlers_range:
  assumes "parsed_range e"
  shows "secondFieldHandler s e = Inr e' \<Longrightarrow> parsed_range e'"
    and "minuteFieldHandler s e = Inr e' \<Longrightarrow> parsed_range e'"
    and "hourFieldHandler s e = Inr e' \<Longrightarrow> parsed_range e'"
    and "monthFieldHandler s e = Inr e' \<Longrightarrow> parsed_range e'"
    and "yearFieldHandler s e = Inr e' \<Longrightarrow> parsed_range e'"
proof -
  note P = assms [unfolded parsed_range_def dom_ok_def dow_ok_def]
  note D = parsed_range_def dom_ok_def dow_ok_def desc_maxs
  show "secondFieldHandler s e = Inr e' \<Longrightarrow> parsed_range e'"
    unfolding secondFieldHandler_def
    by (erule update_list_range [OF _ desc_ok_all(1)]) (use P in \<open>simp add: D\<close>)
  show "minuteFieldHandler s e = Inr e' \<Longrightarrow> parsed_range e'"
    unfolding minuteFieldHandler_def
    by (erule update_list_range [OF _ desc_ok_all(2)]) (use P in \<open>simp add: D\<close>)
  show "hourFieldHandler s e = Inr e' \<Longrightarrow> parsed_range e'"
    unfolding hourFieldHandler_def
    by (erule update_list_range [OF _ desc_ok_all(3)]) (use P in \<open>simp add: D\<close>)
  show "monthFieldHandler s e = Inr e' \<Longrightarrow> parsed_range e'"
    unfolding monthFieldHandler_def
    by (erule update_list_range [OF _ desc_ok_all(5)]) (use P in \<open>simp add: D\<close>)
  show "yearFieldHandler s e = Inr e' \<Longrightarrow> parsed_range e'"
    unfolding yearFieldHandler_def
    by (erule update_list_range [OF _ desc_ok_all(7)]) (use P in \<open>simp add: D\<close>)
qed

text \<open>A handler that keeps the ranges.\<close>

definition keeps_range :: "(string \<Rightarrow> expression \<Rightarrow> cron_error + expression) \<Rightarrow> bool" where
  "keeps_range h \<longleftrightarrow> (\<forall>s e e'. h s e = Inr e' \<longrightarrow> parsed_range e \<longrightarrow> parsed_range e')"

lemma keeps_range_all:
  "keeps_range secondFieldHandler" "keeps_range minuteFieldHandler" "keeps_range hourFieldHandler"
  "keeps_range domFieldHandler" "keeps_range monthFieldHandler" "keeps_range dowFieldHandler"
  "keeps_range yearFieldHandler"
proof -
  show "keeps_range secondFieldHandler"
    unfolding keeps_range_def by (intro allI impI) (rule list_handlers_range(1))
  show "keeps_range minuteFieldHandler"
    unfolding keeps_range_def by (intro allI impI) (rule list_handlers_range(2))
  show "keeps_range hourFieldHandler"
    unfolding keeps_range_def by (intro allI impI) (rule list_handlers_range(3))
  show "keeps_range monthFieldHandler"
    unfolding keeps_range_def by (intro allI impI) (rule list_handlers_range(4))
  show "keeps_range yearFieldHandler"
    unfolding keeps_range_def by (intro allI impI) (rule list_handlers_range(5))
  show "keeps_range domFieldHandler" "keeps_range dowFieldHandler"
    unfolding keeps_range_def
    by (auto simp: parsed_range_def same_lists_def dest!: domFieldHandler_ok dowFieldHandler_ok)
qed

lemma run_handlers_range:
  "\<forall>h\<in>set hs. keeps_range h \<Longrightarrow> run_handlers hs fs e = Inr e' \<Longrightarrow> parsed_range e \<Longrightarrow> parsed_range e'"
proof (induction hs fs e rule: run_handlers.induct)
  case (1 h hs f fs e)
  obtain e1 where e1: "h f e = Inr e1" using "1.prems"(2) by (auto split: sum.splits)
  with "1.prems" have "parsed_range e1" by (auto simp: keeps_range_def)
  with 1 e1 show ?case by auto
qed auto

lemma Parse_ranges:
  assumes "Parse s = Inr e"
  shows "parsed_range e"
proof -
  define fs where "fs = fieldFinder (cronNormalizer s)"
  define hs where "hs = [minuteFieldHandler, hourFieldHandler, domFieldHandler, monthFieldHandler,
    dowFieldHandler, yearFieldHandler]"
  note D = Parse_def [of s, unfolded Let_def, folded fs_def hs_def]
  have e0: "parsed_range empty_expression" "parsed_range (empty_expression\<lparr>secondList := [0]\<rparr>)"
    by (simp_all add: parsed_range_def empty_expression_def in_range_def dom_ok_def dow_ok_def)
  have y: "parsed_range e1 \<Longrightarrow> parsed_range (e1\<lparr>yearList := defaultList yearDescriptor\<rparr>)" for e1
    using desc_ok_all(7) by (simp add: parsed_range_def dom_ok_def dow_ok_def desc_ok_def desc_maxs)
  have h: "\<forall>h\<in>set hs. keeps_range h" "\<forall>h\<in>set (secondFieldHandler # hs). keeps_range h"
    by (simp_all add: hs_def keeps_range_all)
  show ?thesis
  proof (cases "7 \<le> length fs")
    case True
    then have five: "\<not> length fs < 5" by simp
    have "run_handlers (secondFieldHandler # hs) (take 7 fs) empty_expression = Inr e"
      using assms unfolding D if_not_P [OF five] if_P [OF True] .
    then show ?thesis by (rule run_handlers_range [OF h(2) _ e0(1)])
  next
    case False
    then obtain e1 where e1: "run_handlers hs fs (empty_expression\<lparr>secondList := [0]\<rparr>) = Inr e1"
      and e: "e = (if length fs = 5 then e1\<lparr>yearList := defaultList yearDescriptor\<rparr> else e1)"
      using assms unfolding D if_not_P [OF False] by (auto split: if_split_asm sum.split_asm)
    from run_handlers_range [OF h(1) e1 e0(2)] y e show ?thesis by simp
  qed
qed

subsection \<open>Schedules\<close>

definition complete :: "expression \<Rightarrow> bool" where
  "complete e \<longleftrightarrow> secondList e \<noteq> [] \<and> minuteList e \<noteq> [] \<and> hourList e \<noteq> [] \<and> monthList e \<noteq> [] \<and>
     yearList e \<noteq> [] \<and> 0 \<notin> set (monthList e)"

lemma parsed_wf: "parsed_range e \<Longrightarrow> complete e \<Longrightarrow> wf_expression e"
proof -
  assume p: "parsed_range e" and c: "complete e"
  then have "set (monthList e) \<subseteq> {1..12}"
    by (auto simp: parsed_range_def in_range_def complete_def subset_iff) (metis linorder_not_less
        order_antisym_conv int_one_le_iff_zero_less not_le_imp_less)
  with p c show "wf_expression e"
    by (simp add: parsed_range_def in_range_def complete_def wf_expression_def wf_list_def wf_days_def
        dom_ok_def dow_ok_def)
qed

lemma zero_year: "Year zero_time = 1"
proof -
  have "zero_time = go_date 1 1 1 0 0 0"
    by (simp add: zero_time_def go_date_def day_number_def month_start_def days_before_year_def
        days_before_month_def)
  moreover have "valid_date 1 1 1" "valid_clock 0 0 0"
    by (simp_all add: valid_date_def valid_clock_def days_in_month_def)
  ultimately show ?thesis by (metis date_go_date(1))
qed

lemma no_match_zero: "wf_expression e \<Longrightarrow> \<not> matches e zero_time"
  using wf_listD(3) [OF wf_expressionD(5), of e 1] by (auto simp: matches_def zero_year)

definition upcoming :: "expression \<Rightarrow> instant \<Rightarrow> nat \<Rightarrow> instant list \<Rightarrow> bool" where
  "upcoming e t n ts \<longleftrightarrow>
     sorted_wrt (<) ts \<and> length ts \<le> n \<and> (\<forall>u\<in>set ts. t < u \<and> matches e u) \<and>
     (\<forall>u. t < u \<and> matches e u \<longrightarrow> u \<in> set ts \<or> length ts = n \<and> (\<forall>x\<in>set ts. x < u))"

lemma upcoming_Cons:
  assumes "t < r" "matches e r" "\<And>u. t < u \<Longrightarrow> matches e u \<Longrightarrow> r \<le> u" "upcoming e r n ts"
  shows "upcoming e t (Suc n) (r # ts)"
  using assms unfolding upcoming_def by (auto simp: order_le_less)

lemma nextN_loop_upcoming:
  assumes wf: "wf_expression e"
  shows "least_match e ((<) t) r \<Longrightarrow> \<exists>ts. nextN_loop e r n = returns ts \<and> upcoming e t n ts"
proof (induction n arbitrary: t r)
  case 0
  then show ?case by (simp add: upcoming_def)
next
  case (Suc n)
  show ?case
  proof (cases "r = zero_time")
    case True
    then have "\<And>u. t < u \<Longrightarrow> \<not> matches e u"
      using Suc.prems no_match_zero [OF wf] by (auto simp: least_match_def)
    with True show ?thesis by (simp add: upcoming_def)
  next
    case False
    then have r: "t < r" "matches e r" "\<And>u. t < u \<Longrightarrow> matches e u \<Longrightarrow> r \<le> u"
      using Suc.prems by (auto simp: least_match_def)
    obtain r' where r': "nextSecond e r (calculateActualDaysOfMonth e (Year r) (Month r)) = returns r'"
      "least_match e ((<) r) r'" using nextSecond_next [OF wf r(2)] by blast
    from Suc.IH [OF r'(2)] obtain ts where ts: "nextN_loop e r' n = returns ts" "upcoming e r n ts"
      by blast
    have "nextN_loop e r (Suc n) = returns (r # ts)"
      using False r'(1) ts by (cases "n = 0") (auto simp: and_then_def upcoming_def)
    with upcoming_Cons [OF r ts(2)] show ?thesis by blast
  qed
qed

lemma Parse_wf: "Parse s = Inr e \<Longrightarrow> complete e \<Longrightarrow> wf_expression e"
  by (rule parsed_wf [OF Parse_ranges])

text \<open>Evaluation of a parsed text.\<close>

definition parsed_with :: "string \<Rightarrow> (expression \<Rightarrow> bool) \<Rightarrow> bool" where
  "parsed_with s Q = (case Parse s of Inl err \<Rightarrow> False | Inr e \<Rightarrow> Q e)"

lemma parsed_withE: "parsed_with s Q \<Longrightarrow> (\<And>e. Parse s = Inr e \<Longrightarrow> Q e \<Longrightarrow> R) \<Longrightarrow> R"
  by (auto simp: parsed_with_def split: sum.splits)

subsection \<open>Endless recursion\<close>

text \<open>
  With month 0 as the only month, \<open>nextYear\<close> moves to year \<open>y\<close> but builds a date in December of
  the year before; when no day matches there, \<open>nextMonth\<close> goes back to \<open>nextYear\<close> from that date.
\<close>

definition stuck :: "expression \<Rightarrow> instant \<Rightarrow> bool" where
  "stuck e t \<longleftrightarrow>
     (let i = search_ints (yearList e) (Year t + 1) in
      monthList e = [0] \<and> 0 \<le> Month t \<and> i < length (yearList e) \<and>
      calculateActualDaysOfMonth e (yearList e ! i) 0 = [] \<and>
      date_first e (yearList e ! i) 0 1 = Inr t)"

lemma search_single: "x < v \<Longrightarrow> search_ints [x] v = Suc 0"
  by (simp add: search_ints_def)

lemma stuck_no_result: "nextYM e l t = Some y \<Longrightarrow> \<not> stuck e t"
proof (rule nextYM.raw_induct [where P = "\<lambda>e l t y. \<not> stuck e t"])
  fix f :: "expression \<Rightarrow> level \<Rightarrow> instant \<Rightarrow> instant cron_result" and e l t y
  assume IH: "\<And>e l t y. f e l t = Some y \<Longrightarrow> \<not> stuck e t"
    and body: "(case l of
        ByYear \<Rightarrow>
          (let i = search_ints (yearList e) (Year t + 1) in
           if i = length (yearList e) then returns zero_time
           else if monthList e = [] then panics
           else
             let year = yearList e ! i; month = monthList e ! 0;
                 days = calculateActualDaysOfMonth e year month in
             if days = [] then
               (case date_first e year month 1 of
                  Inl p \<Rightarrow> Some (Inl p)
                | Inr t' \<Rightarrow> f e ByMonth t')
             else Some (date_first e year month (days ! 0)))
      | ByMonth \<Rightarrow>
          (let i = search_ints (monthList e) (Month t + 1) in
           if i = length (monthList e) then f e ByYear t
           else
             let month = monthList e ! i;
                 days = calculateActualDaysOfMonth e (Year t) month in
             if days = [] then
               (case date_first e (Year t) month 1 of
                  Inl p \<Rightarrow> Some (Inl p)
                | Inr t' \<Rightarrow> f e ByMonth t')
             else Some (date_first e (Year t) month (days ! 0)))) = Some y"
  show "\<not> stuck e t"
  proof
    assume s: "stuck e t"
    show False
      using body IH [of e _ t y] s
      by (cases l) (auto simp: stuck_def Let_def search_single)
  qed
qed

lemma stuck_None: "stuck e t \<Longrightarrow> nextYM e l t = None"
  using stuck_no_result [of e l t] by (cases "nextYM e l t") auto

definition leads_to_stuck :: "expression \<Rightarrow> instant \<Rightarrow> instant \<Rightarrow> bool" where
  "leads_to_stuck e t t' \<longleftrightarrow>
     t \<noteq> zero_time \<and> Year t = Year t' \<and> 0 < Month t \<and> stuck e t' \<and>
     (let i = search_ints (yearList e) (Year t) in i < length (yearList e) \<and> yearList e ! i = Year t)"

lemma leads_to_stuck_None: "leads_to_stuck e t t' \<Longrightarrow> Next e t = None"
proof -
  assume l: "leads_to_stuck e t t'"
  then have s: "stuck e t'" "Year t = Year t'" by (simp_all add: leads_to_stuck_def)
  have "nextYM e ByYear t = nextYM e ByMonth t'"
    using s by (simp add: stuck_def Let_def nextYM.simps [of e ByYear t])
  then have "nextYear e t = None" using stuck_None [OF s(1)] by (simp add: nextYear_def)
  then show ?thesis
    using l by (auto simp: leads_to_stuck_def Next_def Let_def stuck_def search_single)
qed

subsection \<open>Properties\<close>

text \<open>C38: the fields of a parsed expression are sorted lists of values in these ranges: seconds and minutes 0 to 59,
  hours 0 to 23, months 0 to 12, years 1970 to 2099; the sets of the day fields hold days 1 to 31, days of the
  week 0 to 6, and for the first to fifth such day of a month the numbers 0 to 34.  The month 0 is no month: it comes from the texts 01 to 09, as C40 shows.\<close>

theorem Parse_in_range:
  assumes "Parse s = Inr e"
  shows "parsed_range e"
  by (rule Parse_ranges [OF assms])

theorem Parse_in_range_witness:
  "\<exists>e. Parse ''*/15 1-5,7 L,15W Jan Fri#5,3L 2020/2'' = Inr e \<and> parsed_range e"
proof -
  have "parsed_with ''*/15 1-5,7 L,15W Jan Fri#5,3L 2020/2'' (\<lambda>e. True)" by code_simp
  then show ?thesis by (rule parsed_withE) (use Parse_in_range in blast)
qed

text \<open>C37: the days a parsed expression selects in a month, computed by offsets from the first day,
  are exactly the days that match its two day fields by the calendar.\<close>

theorem selected_days_exact:
  assumes "Parse s = Inr e" and "1 \<le> m" "m \<le> 12"
  shows "calculateActualDaysOfMonth e y m = filter (day_matches e y m) [1..days_in_month y m]"
  using actual_days [OF assms(2,3)] Parse_ranges [OF assms(1)]
  by (simp add: parsed_range_def wf_days_def dom_ok_def dow_ok_def)

theorem selected_days_exact_witness:
  "\<exists>e. Parse ''0 0 LW * 5#3'' = Inr e \<and> calculateActualDaysOfMonth e 2024 2 = [16, 29] \<and>
     filter (day_matches e 2024 2) [1..days_in_month 2024 2] = [16, 29]"
proof -
  have "parsed_with ''0 0 LW * 5#3'' (\<lambda>e. calculateActualDaysOfMonth e 2024 2 = [16, 29])"
    by code_simp
  then show ?thesis by (rule parsed_withE) (use selected_days_exact [of _ _ 2 2024] in auto)
qed

text \<open>C36: for a parsed expression without empty list and without month 0, \<open>Next\<close> returns: the least
  matching instant after the given one, or the zero time when none is left.\<close>

theorem Next_is_least_match:
  assumes "Parse s = Inr e" and "complete e" and "t \<noteq> zero_time"
  shows "\<exists>r. Next e t = returns r \<and>
    ((t < r \<and> matches e r \<and> (\<forall>u. t < u \<and> matches e u \<longrightarrow> r \<le> u)) \<or>
     (\<nexists>u. t < u \<and> matches e u) \<and> r = zero_time)"
  using Next_least [OF Parse_wf [OF assms(1,2)] assms(3)] by (simp add: least_match_def)

theorem Next_is_least_match_witness:
  "\<exists>e r. Parse ''30 9 * * 1-5'' = Inr e \<and> Next e 1700300000 = returns 1700472600 \<and>
     matches e 1700472600 \<and> \<not> (\<exists>u<1700472600. 1700300000 < u \<and> matches e u)"
proof -
  have "parsed_with ''30 9 * * 1-5'' (\<lambda>e. complete e \<and> Next e 1700300000 = returns 1700472600)"
    by code_simp
  then show ?thesis
  proof (rule parsed_withE)
    fix e
    assume e: "Parse ''30 9 * * 1-5'' = Inr e"
      "complete e \<and> Next e 1700300000 = returns 1700472600"
    have "(1700300000::int) \<noteq> zero_time" by (simp add: zero_time_def)
    from Next_is_least_match [OF e(1) _ this] e show ?thesis by (auto simp: zero_time_def not_le)
  qed
qed

text \<open>\<open>NextN\<close> lists the next \<open>n\<close> matching instants in ascending order, all of them when
  fewer are left.\<close>

lemma NextN_upcoming:
  assumes "Parse s = Inr e" and "complete e" and "t \<noteq> zero_time"
  shows "\<exists>ts. NextN e t n = returns ts \<and> sorted_wrt (<) ts \<and> length ts \<le> n \<and>
    (\<forall>u\<in>set ts. t < u \<and> matches e u) \<and>
    (\<forall>u. t < u \<and> matches e u \<longrightarrow> u \<in> set ts \<or> length ts = n \<and> (\<forall>x\<in>set ts. x < u))"
proof -
  note wf = Parse_wf [OF assms(1,2)]
  obtain r where r: "Next e t = returns r" "least_match e ((<) t) r"
    using Next_least [OF wf assms(3)] by blast
  from nextN_loop_upcoming [OF wf r(2), of n] r(1) show ?thesis
    by (cases "n = 0") (auto simp: NextN_def and_then_def upcoming_def)
qed

lemma NextN_upcoming_witness:
  "\<exists>e. Parse ''0 0 1 1 *'' = Inr e \<and> complete e \<and>
     (\<exists>ts. NextN e 4070908800 2 = returns ts \<and> length ts \<le> 2 \<and> (\<forall>u\<in>set ts. matches e u))"
proof -
  have "parsed_with ''0 0 1 1 *'' complete" by code_simp
  then show ?thesis
  proof (rule parsed_withE)
    fix e assume e: "Parse ''0 0 1 1 *'' = Inr e" "complete e"
    have "(4070908800::int) \<noteq> zero_time" by (simp add: zero_time_def)
    from NextN_upcoming [OF e this, of 2] e show ?thesis by blast
  qed
qed



text \<open>C40: texts the parser accepts although no schedule can be made of them: a month \<open>01\<close> is month 0,
  with which \<open>Next\<close> returns an instant that does not match or recurses for ever; an empty range
  panics; and \<open>Last\<close> misses a match earlier in the same minute.\<close>

theorem accepted_but_unusable:
  "(\<exists>e. Parse ''0 0 * 01 5#5'' = Inr e \<and> Next e 991440000 = None) \<and>
   (\<exists>e r. Parse ''0 0 1 01 *'' = Inr e \<and> Next e 1686787200 = returns r \<and> \<not> matches e r) \<and>
   (\<exists>e. Parse ''30-10 * * * *'' = Inr e \<and> Next e 1686787200 = panics) \<and>
   (\<exists>e r. Parse ''0,20,40 * * * * * *'' = Inr e \<and> Last e 1700000015 = returns r \<and>
      r < 1700000000 \<and> matches e 1700000000)"
proof (intro conjI)
  have "parsed_with ''0 0 * 01 5#5'' (\<lambda>e. leads_to_stuck e 991440000 1007164800)" by code_simp
  then show "\<exists>e. Parse ''0 0 * 01 5#5'' = Inr e \<and> Next e 991440000 = None"
    by (rule parsed_withE) (use leads_to_stuck_None in blast)
  have "parsed_with ''0 0 1 01 *'' (\<lambda>e. Next e 1686787200 = returns 1701388800 \<and> \<not> matches e 1701388800)"
    by code_simp
  then show "\<exists>e r. Parse ''0 0 1 01 *'' = Inr e \<and> Next e 1686787200 = returns r \<and> \<not> matches e r"
    by (rule parsed_withE) blast
  have "parsed_with ''30-10 * * * *'' (\<lambda>e. Next e 1686787200 = panics)" by code_simp
  then show "\<exists>e. Parse ''30-10 * * * *'' = Inr e \<and> Next e 1686787200 = panics"
    by (rule parsed_withE) blast
  have "parsed_with ''0,20,40 * * * * * *'' (\<lambda>e. Last e 1700000015 = returns 1699999960 \<and>
      matches e 1700000000)"
    by code_simp
  then show "\<exists>e r. Parse ''0,20,40 * * * * * *'' = Inr e \<and> Last e 1700000015 = returns r \<and>
      r < 1700000000 \<and> matches e 1700000000"
    by (rule parsed_withE) fastforce
qed

end
