(* ===== verification/Skip_Rep.thy ===== *)
theory Skip_Rep
  imports Skip_List
begin

section \<open>The list a skip list represents\<close>

text \<open>
  \<open>rep s L\<close>: the addresses \<open>L\<close> are the nodes of the structure in order; level \<open>i\<close> links those
  of them that are higher than \<open>i\<close>.  A search computes the last node below the entry on each level;
  linking and unlinking at these nodes keeps every level a path.
\<close>

subsection \<open>Order of entries\<close>

lemma entry_less_irrefl: "\<not> entry_less asc a a"
  by (simp add: entry_less_def)

lemma entry_less_trans: "entry_less asc a b \<Longrightarrow> entry_less asc b c \<Longrightarrow> entry_less asc a c"
  by (auto simp: entry_less_def split: if_splits)

lemma entry_less_total:
  "REOwnerID a \<noteq> REOwnerID b \<Longrightarrow> entry_less asc a b \<or> entry_less asc b a"
proof -
  have "x \<noteq> y \<Longrightarrow> sint x < sint y \<or> sint y < sint x" for x y :: "64 word"
    by (meson linorder_less_linear signed_word_eqI)
  then show "REOwnerID a \<noteq> REOwnerID b \<Longrightarrow> ?thesis"
    by (auto simp: entry_less_def neq_iff)
qed

lemma entry_less_asym: "entry_less asc a b \<Longrightarrow> \<not> entry_less asc b a"
  using entry_less_trans entry_less_irrefl by blast

subsection \<open>Paths\<close>

fun path :: "(addr \<Rightarrow> addr option) \<Rightarrow> addr \<Rightarrow> addr list \<Rightarrow> bool" where
  "path nx x [] \<longleftrightarrow> nx x = None"
| "path nx x (y # ys) \<longleftrightarrow> nx x = Some y \<and> path nx y ys"

lemma path_append: "path nx x (A @ B) \<Longrightarrow> path nx (last (x # A)) B"
  by (induction A arbitrary: x) auto

lemma path_cong: "(\<And>y. y \<in> set (x # xs) \<Longrightarrow> nx y = nx' y) \<Longrightarrow> path nx x xs \<longleftrightarrow> path nx' x xs"
  by (induction xs arbitrary: x) auto

lemma path_insert:
  "path nx x (P @ Q) \<Longrightarrow> distinct (x # P @ Q) \<Longrightarrow> a \<notin> set (x # P @ Q) \<Longrightarrow>
     path (nx(a := nx (last (x # P)), last (x # P) := Some a)) x (P @ a # Q)"
proof (induction P arbitrary: x)
  case Nil
  then show ?case
  proof (cases Q)
    case (Cons y ys)
    with Nil have "path nx y ys" "nx x = Some y" by simp_all
    moreover have "path nx y ys \<longleftrightarrow> path (nx(a := Some y, x := Some a)) y ys"
      using Nil Cons by (intro path_cong) auto
    ultimately show ?thesis using Nil Cons by (simp add: fun_upd_def)
  qed simp
next
  case (Cons y P)
  then have "path (nx(a := nx (last (y # P)), last (y # P) := Some a)) y (P @ a # Q)"
    by (intro Cons.IH) auto
  moreover have "last (y # P) \<in> set (y # P)" by (rule last_in_set) simp
  ultimately show ?case using Cons.prems by (auto simp: fun_upd_def)
qed

lemma path_delete:
  "path nx x (P @ a # Q) \<Longrightarrow> distinct (x # P @ a # Q) \<Longrightarrow>
     path (nx(last (x # P) := nx a)) x (P @ Q)"
proof (induction P arbitrary: x)
  case Nil
  then show ?case
  proof (cases Q)
    case (Cons y ys)
    with Nil have "path nx y ys" "nx a = Some y" by simp_all
    moreover have "path nx y ys \<longleftrightarrow> path (nx(x := Some y)) y ys"
      using Nil Cons by (intro path_cong) auto
    ultimately show ?thesis using Nil Cons by (simp add: fun_upd_def)
  qed simp
next
  case (Cons y P)
  then have "path (nx(last (y # P) := nx a)) y (P @ Q)" by (intro Cons.IH) auto
  moreover have "last (y # P) \<in> set (y # P)" by (rule last_in_set) simp
  ultimately show ?case using Cons.prems by (auto simp: fun_upd_def)
qed

subsection \<open>Pointer updates\<close>

abbreviation height :: "skip_heap \<Rightarrow> addr \<Rightarrow> nat" where
  "height h x \<equiv> length (nexts (h x))"

lemma set_next_simps [simp]:
  "entry (set_next h x i p y) = entry (h y)" "height (set_next h x i p) y = height h y"
  "i < height h x \<Longrightarrow> nxt (set_next h x i p) j y = (if y = x \<and> j = i then p else nxt h j y)"
  by (auto simp: set_next_def nxt_def)

lemma link_levels_simps:
  assumes "n \<le> height h a" "\<And>j. j < n \<Longrightarrow> j < height h (upd j)" "\<And>j. j < n \<Longrightarrow> upd j \<noteq> a"
  shows "entry (link_levels h upd a n y) = entry (h y)"
    and "height (link_levels h upd a n) y = height h y"
    and "nxt (link_levels h upd a n) j y =
      (if j < n \<and> y = upd j then Some a else if j < n \<and> y = a then nxt h j (upd j) else nxt h j y)"
  using assms
proof (induction n arbitrary: j y)
  case (Suc n)
  let ?h = "link_levels h upd a n"
  { case 1
    then show ?case using Suc.IH(1) by (simp add: Let_def)
  next
    case 2
    then show ?case using Suc.IH(2) by (simp add: Let_def)
  next
    case 3
    have len: "n < height ?h (upd n)" "n < height ?h a" "upd n \<noteq> a"
      using Suc.IH(2) 3 by (simp_all add: Suc_le_eq)
    have IH: "nxt ?h k z = (if k < n \<and> z = upd k then Some a
        else if k < n \<and> z = a then nxt h k (upd k) else nxt h k z)" for k z
      by (rule Suc.IH(3)) (use 3 in simp_all)
    have "nxt (link_levels h upd a (Suc n)) k z = (if z = upd n \<and> k = n then Some a
        else if z = a \<and> k = n then nxt ?h n (upd n) else nxt ?h k z)" for k z
      using len by (simp add: Let_def)
    then show ?case by (auto simp only: IH less_Suc_eq split: if_split)
  }
qed simp_all

lemma unlink_levels_simps:
  assumes "\<And>j. j < n \<Longrightarrow> j < height h (upd j)" "\<And>j. j < n \<Longrightarrow> nxt h j (upd j) = Some a"
    "\<And>j. j < n \<Longrightarrow> upd j \<noteq> a"
  shows "entry (unlink_levels h upd a n y) = entry (h y)"
    and "height (unlink_levels h upd a n) y = height h y"
    and "nxt (unlink_levels h upd a n) j y = (if j < n \<and> y = upd j then nxt h j a else nxt h j y)"
  using assms
proof (induction n arbitrary: j y)
  case (Suc n)
  let ?h = "unlink_levels h upd a n"
  { case 1
    then show ?case using Suc.IH(1) by (simp add: Let_def)
  next
    case 2
    then show ?case using Suc.IH(2) by (simp add: Let_def)
  next
    case 3
    have len: "n < height ?h (upd n)" "nxt h n (upd n) = Some a" using Suc.IH(2) 3 by simp_all
    have IH: "nxt ?h k z = (if k < n \<and> z = upd k then nxt h k a else nxt h k z)" for k z
      by (rule Suc.IH(3)) (use 3 in simp_all)
    have "nxt (unlink_levels h upd a (Suc n)) k z =
        (if z = upd n \<and> k = n then nxt ?h n a else nxt ?h k z)" for k z
      using len by (simp add: Let_def IH)
    then show ?case by (auto simp only: IH less_Suc_eq split: if_split)
  }
qed simp_all

subsection \<open>Representation\<close>

definition lane :: "skip_heap \<Rightarrow> nat \<Rightarrow> addr list \<Rightarrow> addr list" where
  "lane h i L = filter (\<lambda>n. i < height h n) L"

definition ordered :: "bool \<Rightarrow> skip_heap \<Rightarrow> addr list \<Rightarrow> bool" where
  "ordered asc h L \<longleftrightarrow> sorted_wrt (\<lambda>a b. entry_less asc (entry (h a)) (entry (h b))) L"

definition linked :: "skip_heap \<Rightarrow> nat \<Rightarrow> addr list \<Rightarrow> bool" where
  "linked h lev L \<longleftrightarrow>
     distinct (0 # L) \<and> (\<forall>i < skiplistMaxLevel. path (nxt h i) 0 (lane h i L)) \<and>
     height h 0 = skiplistMaxLevel \<and> (\<forall>n\<in>set L. 1 \<le> height h n \<and> height h n \<le> lev) \<and>
     1 \<le> lev \<and> lev \<le> skiplistMaxLevel"

definition rep :: "skip_list \<Rightarrow> addr list \<Rightarrow> bool" where
  "rep s L \<longleftrightarrow>
     linked (heap s) (sl_level s) L \<and> ordered (sortAsc s) (heap s) L \<and>
     (\<forall>n\<in>set (0 # L). n < next_addr s) \<and>
     (\<forall>w a. fmlookup (ownerIdx s) w = Some a \<longleftrightarrow> a \<in> set L \<and> REOwnerID (entry (heap s a)) = w) \<and>
     sl_size s = int (length L)"

lemma lane_append: "lane h i (A @ B) = lane h i A @ lane h i B"
  by (simp add: lane_def)

lemma lane_Cons: "lane h i (a # L) = (if i < height h a then a # lane h i L else lane h i L)"
  by (simp add: lane_def)

lemma lane_subset: "set (lane h i L) \<subseteq> set L"
  by (auto simp: lane_def)

lemma lane_lane: "i \<le> j \<Longrightarrow> lane h j (lane h i L) = lane h j L"
  by (auto simp: lane_def intro: filter_cong)

lemma lane_0: "\<forall>n\<in>set L. 1 \<le> height h n \<Longrightarrow> lane h 0 L = L"
  by (auto simp: lane_def filter_id_conv)

lemma linkedD:
  assumes "linked h lev L"
  shows "distinct L" "0 \<notin> set L" "i < skiplistMaxLevel \<Longrightarrow> path (nxt h i) 0 (lane h i L)"
    "height h 0 = skiplistMaxLevel" "n \<in> set L \<Longrightarrow> 1 \<le> height h n" "n \<in> set L \<Longrightarrow> height h n \<le> lev"
    "1 \<le> lev" "lev \<le> skiplistMaxLevel" "path (nxt h 0) 0 L"
proof -
  show "distinct L" "0 \<notin> set L" "i < skiplistMaxLevel \<Longrightarrow> path (nxt h i) 0 (lane h i L)"
    "height h 0 = skiplistMaxLevel" "n \<in> set L \<Longrightarrow> 1 \<le> height h n" "n \<in> set L \<Longrightarrow> height h n \<le> lev"
    "1 \<le> lev" "lev \<le> skiplistMaxLevel"
    using assms by (auto simp: linked_def)
  have "0 < skiplistMaxLevel" "lane h 0 L = L"
    using assms by (auto simp: linked_def skiplistMaxLevel_def intro: lane_0)
  moreover have "path (nxt h 0) 0 (lane h 0 L)"
    using assms \<open>0 < skiplistMaxLevel\<close> by (auto simp: linked_def)
  ultimately show "path (nxt h 0) 0 L" by simp
qed

subsection \<open>Searching\<close>

definition splits :: "bool \<Rightarrow> skip_heap \<Rightarrow> rank_entry \<Rightarrow> addr list \<Rightarrow> addr list \<Rightarrow> bool" where
  "splits asc h e P Q \<longleftrightarrow>
     (\<forall>n\<in>set P. entry_less asc (entry (h n)) e) \<and> (\<forall>n\<in>set Q. \<not> entry_less asc (entry (h n)) e)"

definition pred_at :: "skip_heap \<Rightarrow> nat \<Rightarrow> addr list \<Rightarrow> addr" where
  "pred_at h i P = last (0 # lane h i P)"

lemma advance_path:
  "path (nxt h i) x (A @ B) \<Longrightarrow> splits asc h e A B \<Longrightarrow> advance asc h e i x = Some (last (x # A))"
proof (induction A arbitrary: x)
  case Nil
  then show ?case
    by (cases B) (auto simp: advance.simps [of asc h e i x] splits_def)
next
  case (Cons y A)
  then have "advance asc h e i y = Some (last (y # A))" by (auto simp: splits_def)
  with Cons.prems show ?case by (simp add: advance.simps [of asc h e i x] splits_def)
qed

text \<open>From the node where the level above ended, the level below goes on to its own last node.\<close>

lemma resume:
  assumes "path nx 0 (lane h i P @ R)"
  obtains A where "path nx (pred_at h (Suc i) P) (A @ R)"
    "last (pred_at h (Suc i) P # A) = pred_at h i P" "set A \<subseteq> set P"
proof -
  obtain C A where CA: "lane h i P = C @ A" "last (0 # C) = pred_at h (Suc i) P"
  proof (cases "lane h (Suc i) P = []")
    case True
    then show ?thesis using that [of "[]" "lane h i P"] by (simp add: pred_at_def)
  next
    case False
    then have "last (lane h (Suc i) P) \<in> set (lane h i P)"
      using last_in_set [OF False] by (auto simp: lane_def)
    then obtain C A where "lane h i P = C @ last (lane h (Suc i) P) # A" by (meson split_list)
    with False show ?thesis using that [of "C @ [last (lane h (Suc i) P)]" A] by (simp add: pred_at_def)
  qed
  have "path nx (last (0 # C)) (A @ R)" using path_append [of nx 0 C "A @ R"] assms CA by simp
  moreover have "last (last (0 # C) # A) = last (0 # lane h i P)" using CA(1) by (cases A) auto
  moreover have "set A \<subseteq> set P" using CA(1) lane_subset [of h i P] by auto
  ultimately show ?thesis
    using that [of A] CA(2) by (simp only: pred_at_def [of h i, symmetric])
qed

lemma find_update_below:
  assumes "linked h lev (P @ Q)" "splits asc h e P Q" "i \<le> skiplistMaxLevel"
  shows "find_update asc h e i (pred_at h i P) upd =
    Some (\<lambda>j. if j < i then pred_at h j P else upd j)"
  using assms(3)
proof (induction i arbitrary: upd)
  case (Suc i)
  have p: "path (nxt h i) 0 (lane h i P @ lane h i Q)"
    using linkedD(3) [OF assms(1), of i] Suc.prems by (simp add: lane_append)
  obtain A where A: "path (nxt h i) (pred_at h (Suc i) P) (A @ lane h i Q)"
    "last (pred_at h (Suc i) P # A) = pred_at h i P" "set A \<subseteq> set P"
    by (rule resume [OF p])
  have "splits asc h e A (lane h i Q)"
    using assms(2) A(3) lane_subset [of h i Q] by (auto simp: splits_def)
  from advance_path [OF A(1) this] A(2)
  have "advance asc h e i (pred_at h (Suc i) P) = Some (pred_at h i P)" by simp
  moreover have "find_update asc h e i (pred_at h i P) (upd(i := pred_at h i P)) =
      Some (\<lambda>j. if j < i then pred_at h j P else (upd(i := pred_at h i P)) j)"
    using Suc by simp
  moreover have "(\<lambda>j. if j < i then pred_at h j P else (upd(i := pred_at h i P)) j) =
      (\<lambda>j. if j < Suc i then pred_at h j P else upd j)"
    by (auto simp: less_Suc_eq)
  ultimately show ?case by (simp only: find_update.simps option.case)
qed simp

lemma find_update_all:
  assumes "linked h lev (P @ Q)" "splits asc h e P Q"
  shows "find_update asc h e lev 0 upd = Some (\<lambda>j. if j < lev then pred_at h j P else upd j)"
proof -
  have "lane h lev P = []"
    using linkedD(6) [OF assms(1)] by (auto simp: lane_def filter_empty_conv not_less)
  then have "pred_at h lev P = 0" by (simp add: pred_at_def)
  with find_update_below [OF assms linkedD(8) [OF assms(1)], of upd] show ?thesis by simp
qed

lemma splits_takeWhile:
  fixes e :: rank_entry
  assumes "ordered asc h L"
  defines "p \<equiv> \<lambda>n. entry_less asc (entry (h n)) e"
  shows "splits asc h e (takeWhile p L) (dropWhile p L)"
proof -
  have "sorted_wrt (\<lambda>a b. p b \<longrightarrow> p a) L"
    using assms(1) unfolding ordered_def p_def
    by (rule sorted_wrt_mono_rel [rotated]) (use entry_less_trans in blast)
  then have "\<not> p n" if "n \<in> set (dropWhile p L)" for n
    using that by (induction L) (auto split: if_splits)
  moreover have "p n" if "n \<in> set (takeWhile p L)" for n
    using set_takeWhileD [OF that] by (rule conjunct2)
  ultimately show ?thesis unfolding splits_def p_def by blast
qed

lemma pred_at_height:
  assumes "linked h lev (P @ Q)" "i < skiplistMaxLevel"
  shows "i < height h (pred_at h i P)" "pred_at h i P \<in> set (0 # P)"
proof -
  have "pred_at h i P \<in> set (0 # lane h i P)"
    unfolding pred_at_def by (rule last_in_set) simp
  then show "i < height h (pred_at h i P)" "pred_at h i P \<in> set (0 # P)"
    using linkedD(4) [OF assms(1)] assms(2) by (auto simp: lane_def)
qed

lemma pred_at_top: "linked h lev (P @ Q) \<Longrightarrow> lev \<le> i \<Longrightarrow> pred_at h i P = 0"
proof -
  assume "linked h lev (P @ Q)" "lev \<le> i"
  then have "\<not> i < height h n" if "n \<in> set P" for n
    using linkedD(6) [of h lev "P @ Q" n] that by simp
  then have "lane h i P = []" by (auto simp: lane_def filter_empty_conv)
  then show ?thesis by (simp add: pred_at_def)
qed

lemma count_path:
  "path (nxt h 0) x (P @ a # Q) \<Longrightarrow> a \<notin> set P \<Longrightarrow>
     count_to h a (nxt h 0 x) r = Some (r + int (length P))"
proof (induction P arbitrary: x r)
  case Nil
  then show ?case by (simp add: count_to.simps [of h a "Some a"])
next
  case (Cons y P)
  then show ?case by (simp add: count_to.simps [of h a "Some y"])
qed

lemma walk_path: "path (nxt h 0) x L \<Longrightarrow> walk h n (nxt h 0 x) = (if n < length L then Some (L ! n) else None)"
proof (induction L arbitrary: x n)
  case (Cons y L)
  then show ?case by (cases n) simp_all
qed simp

subsection \<open>Linking and unlinking a node\<close>

lemma insert_linked:
  fixes e :: rank_entry
  assumes l: "linked h lev (P @ Q)" and a: "a \<notin> set (0 # P @ Q)" and lvl: "1 \<le> lvl" "lvl \<le> skiplistMaxLevel"
    and upd: "\<And>j. j < lvl \<Longrightarrow> upd j = pred_at h j P"
  defines "h' \<equiv> link_levels (h(a := \<lparr>entry = e, nexts = replicate lvl None\<rparr>)) upd a lvl"
  shows "linked h' (max lev lvl) (P @ a # Q)" "entry (h' y) = (if y = a then e else entry (h y))"
proof -
  let ?h = "h(a := \<lparr>entry = e, nexts = replicate lvl None\<rparr>)"
  have up: "j < height h (upd j)" "upd j \<in> set (0 # P)" if "j < lvl" for j
    using pred_at_height [OF l, of j] upd [OF that] that lvl(2) by simp_all
  have ne: "upd j \<noteq> a" if "j < lvl" for j using up(2) [OF that] a by auto
  have uph: "j < height ?h (upd j)" if "j < lvl" for j using up(1) [OF that] ne [OF that] by simp
  have "lvl \<le> height ?h a" by simp
  note L = link_levels_simps [of lvl ?h a upd, folded h'_def, OF this uph ne]
  show ent: "entry (h' y) = (if y = a then e else entry (h y))" by (simp add: L(1))
  have nxt_new: "z \<noteq> a \<Longrightarrow> nxt ?h i z = nxt h i z" for i z by (simp add: nxt_def)
  have ht: "height h' y = (if y = a then lvl else height h y)" for y by (simp add: L(2))
  have lanes: "lane h' i P = lane h i P" "lane h' i Q = lane h i Q" for i
    using a unfolding lane_def by (auto intro!: filter_cong simp: ht)
  have p: "path (nxt h' i) 0 (lane h' i (P @ a # Q))" if "i < skiplistMaxLevel" for i
  proof (cases "i < lvl")
    case True
    have "nxt h' i = (nxt h i)(a := nxt h i (pred_at h i P), pred_at h i P := Some a)"
      using True ne [OF True]
      by (auto simp only: L(3) fun_eq_iff upd fun_upd_apply nxt_new split: if_split)
    moreover have "path (nxt h i) 0 (lane h i P @ lane h i Q)"
      using linkedD(3) [OF l that] by (simp add: lane_append)
    moreover have "distinct (0 # lane h i P @ lane h i Q)" "a \<notin> set (0 # lane h i P @ lane h i Q)"
      using linkedD(1,2) [OF l] a lane_subset [of h i] by (auto simp: lane_def)
    ultimately have "path (nxt h' i) 0 (lane h i P @ a # lane h i Q)"
      using path_insert unfolding pred_at_def by simp
    then show ?thesis using True by (simp add: lane_append lane_Cons lanes ht)
  next
    case False
    have "path (nxt h i) 0 (lane h i P @ lane h i Q)"
      using linkedD(3) [OF l that] by (simp add: lane_append)
    moreover have "path (nxt h' i) 0 (lane h i P @ lane h i Q) \<longleftrightarrow>
        path (nxt h i) 0 (lane h i P @ lane h i Q)"
      using False a lane_subset [of h i P] lane_subset [of h i Q]
      by (intro path_cong) (auto simp: L(3) intro!: nxt_new)
    ultimately show ?thesis using False by (simp add: lane_append lane_Cons lanes ht)
  qed
  show "linked h' (max lev lvl) (P @ a # Q)"
    using l a lvl p unfolding linked_def by (auto simp: ht le_max_iff_disj)
qed

lemma delete_linked:
  assumes l: "linked h lev (P @ a # Q)" and upd: "\<And>j. j < lev \<Longrightarrow> upd j = pred_at h j P"
  defines "h' \<equiv> unlink_levels h upd a (height h a)"
  shows "linked h' lev (P @ Q)" "entry (h' y) = entry (h y)"
proof -
  have lev: "height h a \<le> lev" "lev \<le> skiplistMaxLevel"
    using linkedD(6) [OF l, of a] linkedD(8) [OF l] by simp_all
  have a: "a \<notin> set (0 # P @ Q)" using linkedD(1,2) [OF l] by auto
  have up: "j < height h (upd j)" "upd j \<in> set (0 # P)" if "j < height h a" for j
    using pred_at_height [OF l, of j] upd [of j] that lev by simp_all
  have ne: "upd j \<noteq> a" if "j < height h a" for j using up(2) [OF that] a by auto
  have pj: "path (nxt h j) 0 (lane h j P @ a # lane h j Q)" if "j < height h a" for j
    using linkedD(3) [OF l, of j] that lev by (simp add: lane_append lane_Cons)
  have "nxt h j (upd j) = Some a" if "j < height h a" for j
    using path_append [OF pj [OF that]] upd [of j] that lev by (simp add: pred_at_def)
  note L = unlink_levels_simps [of "height h a" h upd a, folded h'_def, OF up(1) this ne]
  show "entry (h' y) = entry (h y)" by (simp add: L(1))
  have ht: "height h' y = height h y" for y by (simp add: L(2))
  have lanes: "lane h' i M = lane h i M" for i M by (simp add: lane_def ht)
  have p: "path (nxt h' i) 0 (lane h' i (P @ Q))" if "i < skiplistMaxLevel" for i
  proof (cases "i < height h a")
    case True
    have "nxt h' i = (nxt h i)(pred_at h i P := nxt h i a)"
      using True lev by (auto simp: L(3) fun_eq_iff upd)
    moreover have "distinct (0 # lane h i P @ a # lane h i Q)"
      using linkedD(1,2) [OF l] lane_subset [of h i] by (auto simp: lane_def)
    ultimately show ?thesis
      using path_delete [OF pj [OF True]] by (simp only: lanes lane_append pred_at_def)
  next
    case False
    then have "nxt h' i = nxt h i" by (simp add: L(3) fun_eq_iff)
    with False linkedD(3) [OF l that] show ?thesis by (simp add: lanes lane_append lane_Cons)
  qed
  show "linked h' lev (P @ Q)"
    using l p unfolding linked_def by (auto simp: ht)
qed

end
