(* ===== verification/Skip_Props.thy ===== *)
theory Skip_Props
  imports Skip_Rep
begin

section \<open>The rank cache refines a sorted list\<close>

text \<open>
  The abstract rank cache is the list of entries in the order of the board, with one entry per owner.
  Each operation of the skip list acts on this list as the specification \<open>spec_delete\<close> and
  \<open>spec_insert\<close> say, always returns, and does not depend on the coins of \<open>randomLevel\<close>.
\<close>

subsection \<open>Specification\<close>

definition spec_delete :: "string \<Rightarrow> rank_entry list \<Rightarrow> rank_entry list" where
  "spec_delete w es = filter (\<lambda>e. REOwnerID e \<noteq> w) es"

definition spec_insert :: "bool \<Rightarrow> rank_entry \<Rightarrow> rank_entry list \<Rightarrow> rank_entry list" where
  "spec_insert asc e es =
     (let rest = spec_delete (REOwnerID e) es in
      filter (\<lambda>d. entry_less asc d e) rest @ e # filter (\<lambda>d. \<not> entry_less asc d e) rest)"

definition spec_rank :: "string \<Rightarrow> rank_entry list \<Rightarrow> int" where
  "spec_rank w es =
     (if w \<in> REOwnerID ` set es then 1 + int (length (takeWhile (\<lambda>e. REOwnerID e \<noteq> w) es)) else 0)"

definition entries_of :: "skip_list \<Rightarrow> addr list \<Rightarrow> rank_entry list" where
  "entries_of s L = map (\<lambda>n. entry (heap s n)) L"

definition holds_entries :: "skip_list \<Rightarrow> rank_entry list \<Rightarrow> bool" where
  "holds_entries s es \<longleftrightarrow> (\<exists>L. rep s L \<and> es = entries_of s L)"

subsection \<open>Entries and addresses\<close>

lemma repD:
  assumes "rep s L"
  shows "linked (heap s) (sl_level s) L" "ordered (sortAsc s) (heap s) L"
    "n \<in> set (0 # L) \<Longrightarrow> n < next_addr s"
    "fmlookup (ownerIdx s) w = Some a \<longleftrightarrow> a \<in> set L \<and> REOwnerID (entry (heap s a)) = w"
    "sl_size s = int (length L)"
  using assms by (auto simp: rep_def)

lemma rep_owners_distinct: "rep s L \<Longrightarrow> distinct (map REOwnerID (entries_of s L))"
proof -
  assume r: "rep s L"
  have "inj_on (\<lambda>n. REOwnerID (entry (heap s n))) (set L)"
    by (rule inj_onI) (metis repD(4) [OF r] option.inject)
  with linkedD(1) [OF repD(1) [OF r]] show ?thesis by (simp add: entries_of_def distinct_map comp_def)
qed

lemma rep_absent: "rep s L \<Longrightarrow> fmlookup (ownerIdx s) w = None \<longleftrightarrow> w \<notin> REOwnerID ` set (entries_of s L)"
proof -
  assume r: "rep s L"
  have "fmlookup (ownerIdx s) w = None \<longleftrightarrow> (\<forall>a. fmlookup (ownerIdx s) w \<noteq> Some a)" by (simp add: not_Some_eq)
  with repD(4) [OF r, of w] show ?thesis by (auto simp: entries_of_def)
qed

lemma rep_ordered: "rep s L \<Longrightarrow> sorted_wrt (entry_less (sortAsc s)) (entries_of s L)"
  by (auto simp: rep_def ordered_def entries_of_def sorted_wrt_map)

lemma spec_delete_map:
  assumes "distinct (map REOwnerID (es @ e # fs))"
  shows "spec_delete (REOwnerID e) (es @ e # fs) = es @ fs"
proof -
  have "REOwnerID e \<notin> REOwnerID ` set (es @ fs)" using assms by auto
  then have "\<forall>d\<in>set (es @ fs). REOwnerID d \<noteq> REOwnerID e" by (metis image_eqI)
  then show ?thesis by (simp add: spec_delete_def)
qed

lemma spec_delete_absent: "w \<notin> REOwnerID ` set es \<Longrightarrow> spec_delete w es = es"
  by (auto simp: spec_delete_def filter_id_conv)

lemma filter_splits:
  assumes "\<forall>d\<in>set P. p d" "\<forall>d\<in>set Q. \<not> p d"
  shows "filter p (P @ Q) = P" "filter (\<lambda>d. \<not> p d) (P @ Q) = Q"
  using assms by (simp_all add: filter_id_conv)

lemma spec_rank_split:
  assumes "distinct (map REOwnerID (es @ e # fs))"
  shows "spec_rank (REOwnerID e) (es @ e # fs) = 1 + int (length es)"
proof -
  have "REOwnerID e \<notin> REOwnerID ` set es" using assms by auto
  then have "\<forall>d\<in>set es. REOwnerID d \<noteq> REOwnerID e" by (metis image_eqI)
  then have "takeWhile (\<lambda>d. REOwnerID d \<noteq> REOwnerID e) (es @ e # fs) = es" by simp
  then show ?thesis by (simp add: spec_rank_def)
qed

subsection \<open>Operations\<close>

lemma new_rep: "rep (newSkipListRankCache asc en) []"
  by (simp add: rep_def newSkipListRankCache_def linked_def ordered_def lane_def nxt_def
      skiplistMaxLevel_def)

lemma randomLevel_bounds:
  "1 \<le> lvl \<Longrightarrow> lvl \<le> skiplistMaxLevel \<Longrightarrow>
     1 \<le> randomLevel coins lvl \<and> randomLevel coins lvl \<le> skiplistMaxLevel"
proof (induction coins lvl rule: randomLevel.induct)
  case (1 coins lvl)
  then show ?case by (simp add: randomLevel.simps [of coins lvl])
qed

lemma rankOf_rep: "rep s L \<Longrightarrow> rankOfLocked s w = Some (spec_rank w (entries_of s L))"
proof (cases "fmlookup (ownerIdx s) w")
  case None
  assume "rep s L"
  with None have "w \<notin> REOwnerID ` set (entries_of s L)" by (simp add: rep_absent)
  with None show ?thesis by (simp add: rankOfLocked_def spec_rank_def)
next
  case (Some a)
  assume r: "rep s L"
  with Some have a: "a \<in> set L" "REOwnerID (entry (heap s a)) = w" using repD(4) by blast+
  obtain P Q where L: "L = P @ a # Q" using a(1) by (meson split_list)
  have "rankOfLocked s w = Some (1 + int (length P))"
    using count_path [of "heap s" 0 P a Q 1] linkedD(1,9) [OF repD(1) [OF r]] Some
    by (simp add: rankOfLocked_def L)
  moreover have "spec_rank w (entries_of s L) = 1 + int (length P)"
    using spec_rank_split [of "entries_of s P" "entry (heap s a)" "entries_of s Q"]
      rep_owners_distinct [OF r] a(2) by (simp add: entries_of_def L)
  ultimately show ?thesis by simp
qed

lemma delete_rep:
  assumes r: "rep s L"
  obtains s' L' where "deleteLocked s w = Some s'" "rep s' L'"
    "entries_of s' L' = spec_delete w (entries_of s L)" "sortAsc s' = sortAsc s" "enabled s' = enabled s"
proof (cases "fmlookup (ownerIdx s) w")
  case None
  with r have "spec_delete w (entries_of s L) = entries_of s L"
    using rep_absent spec_delete_absent by blast
  with None r show thesis using that [of s L] by (simp add: deleteLocked_def)
next
  case (Some a)
  have a: "a \<in> set L" "REOwnerID (entry (heap s a)) = w" using repD(4) [OF r] Some by blast+
  obtain P Q where L: "L = P @ a # Q" using a(1) by (meson split_list)
  let ?e = "entry (heap s a)" and ?upd = "\<lambda>j. if j < sl_level s then pred_at (heap s) j P else 0"
  have l: "linked (heap s) (sl_level s) (P @ a # Q)" using repD(1) [OF r] L by simp
  have "splits (sortAsc s) (heap s) ?e P (a # Q)"
    using repD(2) [OF r] entry_less_irrefl entry_less_asym
    by (auto simp: splits_def ordered_def L sorted_wrt_append)
  from find_update_all [OF l this]
  have u: "find_update (sortAsc s) (heap s) ?e (sl_level s) 0 (\<lambda>_. 0) = Some ?upd" .
  define s' where "s' = s\<lparr>heap := unlink_levels (heap s) ?upd a (length (nexts (heap s a))),
      sl_size := sl_size s - 1, ownerIdx := fmdrop w (ownerIdx s)\<rparr>"
  have d: "deleteLocked s w = Some s'" by (simp add: deleteLocked_def Some u s'_def)
  have h: "linked (heap s') (sl_level s') (P @ Q)" "entry (heap s' y) = entry (heap s y)" for y
    using delete_linked [OF l, of ?upd] by (simp_all add: s'_def)
  have f: "sortAsc s' = sortAsc s" "enabled s' = enabled s" "next_addr s' = next_addr s"
    "sl_size s' = sl_size s - 1" by (simp_all add: s'_def)
  have "a \<notin> set (P @ Q)" using linkedD(1) [OF l] by simp
  then have idx: "fmlookup (ownerIdx s') v = Some b \<longleftrightarrow>
      b \<in> set (P @ Q) \<and> REOwnerID (entry (heap s' b)) = v" for v b
    using repD(4) [OF r, of v b] repD(4) [OF r, of w b] Some a(2) h(2) by (auto simp: s'_def L)
  have "rep s' (P @ Q)"
    using h(1) idx repD(2,3,5) [OF r]
    by (auto simp: rep_def h(2) ordered_def f L sorted_wrt_append)
  moreover have "entries_of s' (P @ Q) = spec_delete w (entries_of s L)"
    using spec_delete_map [of "entries_of s P" ?e "entries_of s Q"] rep_owners_distinct [OF r] a(2)
    by (simp add: entries_of_def L h(2))
  ultimately show thesis using that [OF d] f by simp
qed

lemma insert_node_rep:
  assumes r: "rep s L" and new: "REOwnerID e \<notin> REOwnerID ` set (entries_of s L)"
  obtains s' L' where "insert_node coins s e = Some s'" "rep s' L'"
    "entries_of s' L' = spec_insert (sortAsc s) e (entries_of s L)"
    "sortAsc s' = sortAsc s" "enabled s' = enabled s"
proof -
  let ?p = "\<lambda>n. entry_less (sortAsc s) (entry (heap s n)) e"
  define P Q where "P = takeWhile ?p L" "Q = dropWhile ?p L"
  then have L: "L = P @ Q" by simp
  have sp: "splits (sortAsc s) (heap s) e P Q"
    unfolding P_Q_def by (rule splits_takeWhile [OF repD(2) [OF r]])
  have l: "linked (heap s) (sl_level s) (P @ Q)" using repD(1) [OF r] L by simp
  define lvl where "lvl = randomLevel coins 1"
  have lvl: "1 \<le> lvl" "lvl \<le> skiplistMaxLevel"
    using randomLevel_bounds [of 1 coins] by (simp_all add: lvl_def skiplistMaxLevel_def)
  define a where "a = next_addr s"
  have a: "a \<notin> set (0 # P @ Q)" using repD(3) [OF r, of a] L a_def by (metis less_irrefl)
  define upd where "upd = (\<lambda>i. if sl_level s \<le> i \<and> i < lvl then 0
      else if i < sl_level s then pred_at (heap s) i P else 0)"
  have upd: "upd j = pred_at (heap s) j P" if "j < lvl" for j
    using that pred_at_top [OF l, of j] by (simp add: upd_def)
  define h where "h = link_levels ((heap s)(a := \<lparr>entry = e, nexts = replicate lvl None\<rparr>)) upd a lvl"
  define s' where "s' = s\<lparr>sl_level := max (sl_level s) lvl, heap := h, next_addr := a + 1,
      sl_size := sl_size s + 1, ownerIdx := fmupd (REOwnerID e) a (ownerIdx s)\<rparr>"
  have i: "insert_node coins s e = Some s'"
    by (simp add: insert_node_def find_update_all [OF l sp] s'_def h_def upd_def a_def lvl_def Let_def)
  have h: "linked (heap s') (sl_level s') (P @ a # Q)"
    "entry (heap s' y) = (if y = a then e else entry (heap s y))" for y
    using insert_linked [OF l a lvl upd, of e] by (simp_all add: s'_def h_def)
  have f: "sortAsc s' = sortAsc s" "enabled s' = enabled s" "next_addr s' = a + 1"
    "sl_size s' = sl_size s + 1" "ownerIdx s' = fmupd (REOwnerID e) a (ownerIdx s)"
    by (simp_all add: s'_def)
  have own: "REOwnerID (entry (heap s n)) \<noteq> REOwnerID e" if "n \<in> set (P @ Q)" for n
  proof -
    have "entry (heap s n) \<in> set (entries_of s L)" using that L by (auto simp: entries_of_def)
    with new show ?thesis by (metis image_eqI)
  qed
  have na: "n \<noteq> a" if "n \<in> set (P @ Q)" for n using that a by auto
  have "entry_less (sortAsc s) e (entry (heap s n))" if "n \<in> set Q" for n
    using entry_less_total [of "entry (heap s n)" e] own [of n] sp that by (auto simp: splits_def)
  moreover have "entry_less (sortAsc s) (entry (heap s n)) e" if "n \<in> set P" for n
    using sp that by (simp add: splits_def)
  moreover have "sorted_wrt (\<lambda>x y. entry_less (sortAsc s) (entry (heap s' x)) (entry (heap s' y))) (P @ Q)"
    using repD(2) [OF r] unfolding ordered_def L
    by (rule sorted_wrt_mono_rel [rotated]) (use na in \<open>auto simp: h(2)\<close>)
  ultimately have ord: "ordered (sortAsc s') (heap s') (P @ a # Q)"
    using na by (auto simp: ordered_def f sorted_wrt_append h(2))
  have idx: "fmlookup (ownerIdx s') v = Some b \<longleftrightarrow>
      b \<in> set (P @ a # Q) \<and> REOwnerID (entry (heap s' b)) = v" for v b
    using repD(4) [OF r, of v b] own [of b] na [of b] by (auto simp: f h(2) L)
  have "n < next_addr s'" if "n \<in> set (0 # P @ a # Q)" for n
    using repD(3) [OF r, of n] that by (auto simp: f L a_def)
  with h(1) ord idx repD(5) [OF r] have "rep s' (P @ a # Q)"
    unfolding rep_def by (simp add: f L)
  moreover have "entries_of s' (P @ a # Q) = spec_insert (sortAsc s) e (entries_of s L)"
  proof -
    have "entries_of s' (P @ a # Q) = entries_of s P @ e # entries_of s Q"
      using a by (auto simp: entries_of_def h(2))
    moreover have "spec_delete (REOwnerID e) (entries_of s L) = entries_of s P @ entries_of s Q"
      using spec_delete_absent [OF new] by (simp add: L entries_of_def)
    moreover have "\<forall>d\<in>set (entries_of s P). entry_less (sortAsc s) d e"
      "\<forall>d\<in>set (entries_of s Q). \<not> entry_less (sortAsc s) d e"
      using sp by (auto simp: splits_def entries_of_def)
    note filter_splits [OF this]
    ultimately show ?thesis by (simp only: spec_insert_def Let_def)
  qed
  ultimately show thesis using that [OF i] f by simp
qed

lemma insert_rep:
  assumes r: "rep s L" and en: "enabled s"
  obtains s' L' where
    "sl_Insert coins s e = Some (s', spec_rank (REOwnerID e) (entries_of s' L'))" "rep s' L'"
    "entries_of s' L' = spec_insert (sortAsc s) e (entries_of s L)"
    "sortAsc s' = sortAsc s" "enabled s' = enabled s"
proof -
  obtain s1 L1 where d: "deleteLocked s (REOwnerID e) = Some s1" "rep s1 L1"
    "entries_of s1 L1 = spec_delete (REOwnerID e) (entries_of s L)" "sortAsc s1 = sortAsc s"
    "enabled s1 = enabled s"
    by (rule delete_rep [OF r])
  have new: "REOwnerID e \<notin> REOwnerID ` set (entries_of s1 L1)" by (auto simp: d(3) spec_delete_def)
  obtain s2 L2 where i: "insert_node coins s1 e = Some s2" "rep s2 L2"
    "entries_of s2 L2 = spec_insert (sortAsc s1) e (entries_of s1 L1)" "sortAsc s2 = sortAsc s1"
    "enabled s2 = enabled s1"
    by (rule insert_node_rep [OF d(2) new])
  have "(case fmlookup (ownerIdx s) (REOwnerID e) of None \<Rightarrow> Some s
      | Some old \<Rightarrow> deleteLocked s (REOwnerID (entry (heap s old)))) = Some s1"
  proof (cases "fmlookup (ownerIdx s) (REOwnerID e)")
    case None
    with d(1) show ?thesis by (simp add: deleteLocked_def)
  next
    case (Some a)
    then have "REOwnerID (entry (heap s a)) = REOwnerID e" using repD(4) [OF r] by blast
    with d(1) Some show ?thesis by simp
  qed
  then have "sl_Insert coins s e = Some (s2, spec_rank (REOwnerID e) (entries_of s2 L2))"
    using en i(1) rankOf_rep [OF i(2)] by (simp add: sl_Insert_def)
  moreover have "spec_insert (sortAsc s1) e (entries_of s1 L1) = spec_insert (sortAsc s) e (entries_of s L)"
    by (simp add: spec_insert_def d spec_delete_def Let_def)
  ultimately show thesis using that i d by simp
qed

lemma data_rep:
  assumes "rep s L" "enabled s"
  shows "sl_GetDataByRank s k =
    (if 1 \<le> k \<and> k \<le> int (length L) then Some (entries_of s L ! nat (k - 1)) else None)"
proof (cases "1 \<le> k \<and> k \<le> int (length L)")
  case True
  then have "nat (k - 1) < length L" by linarith
  with True show ?thesis
    using assms(2) repD(5) [OF assms(1)] walk_path [OF linkedD(9) [OF repD(1) [OF assms(1)]]]
    by (simp add: sl_GetDataByRank_def entries_of_def)
next
  case False
  then show ?thesis using assms(2) repD(5) [OF assms(1)] by (auto simp: sl_GetDataByRank_def)
qed

subsection \<open>Runs\<close>

datatype rank_op = Put rank_entry | Remove string

fun run_ops :: "(nat \<Rightarrow> bool) list \<Rightarrow> rank_op list \<Rightarrow> skip_list \<Rightarrow> skip_list option" where
  "run_ops css [] s = Some s"
| "run_ops css (Put e # ops) s =
     (case sl_Insert (case css of [] \<Rightarrow> \<lambda>_. False | cs # _ \<Rightarrow> cs) s e of
        None \<Rightarrow> None
      | Some (s', r) \<Rightarrow> run_ops (drop 1 css) ops s')"
| "run_ops css (Remove w # ops) s =
     (case sl_Delete s w of None \<Rightarrow> None | Some s' \<Rightarrow> run_ops css ops s')"

fun spec_step :: "bool \<Rightarrow> rank_op \<Rightarrow> rank_entry list \<Rightarrow> rank_entry list" where
  "spec_step asc (Put e) es = spec_insert asc e es"
| "spec_step asc (Remove w) es = spec_delete w es"

fun latest :: "rank_op list \<Rightarrow> (string \<rightharpoonup> rank_entry) \<Rightarrow> string \<rightharpoonup> rank_entry" where
  "latest [] m = m"
| "latest (Put e # ops) m = latest ops (m(REOwnerID e \<mapsto> e))"
| "latest (Remove w # ops) m = latest ops (m(w := None))"

definition table_of :: "rank_entry list \<Rightarrow> string \<rightharpoonup> rank_entry" where
  "table_of es = map_of (map (\<lambda>e. (REOwnerID e, e)) es)"

definition ranked :: "bool \<Rightarrow> rank_entry list \<Rightarrow> bool" where
  "ranked asc es \<longleftrightarrow> sorted_wrt (entry_less asc) es \<and> distinct (map REOwnerID es)"

lemma rep_ranked: "rep s L \<Longrightarrow> ranked (sortAsc s) (entries_of s L)"
  by (simp add: ranked_def rep_ordered rep_owners_distinct)

lemma table_of_Some:
  "distinct (map REOwnerID es) \<Longrightarrow> table_of es w = Some e \<longleftrightarrow> e \<in> set es \<and> REOwnerID e = w"
  by (auto simp: table_of_def comp_def)

lemma table_of_eqI:
  assumes "distinct (map REOwnerID es)" "\<And>w e. m w = Some e \<longleftrightarrow> e \<in> set es \<and> REOwnerID e = w"
  shows "table_of es = m"
proof
  fix w
  show "table_of es w = m w"
    using assms(2) [of w] table_of_Some [OF assms(1), of w] by (metis option.exhaust)
qed

lemma run_rep:
  assumes "rep s L" "enabled s"
  obtains s' L' where "run_ops css ops s = Some s'" "rep s' L'" "enabled s'" "sortAsc s' = sortAsc s"
    "entries_of s' L' = fold (spec_step (sortAsc s)) ops (entries_of s L)"
  using assms
proof (induction ops arbitrary: css s L thesis)
  case (Cons op ops)
  show ?case
  proof (cases op)
    case (Put e)
    obtain s1 L1 where i: "sl_Insert (case css of [] \<Rightarrow> \<lambda>_. False | cs # _ \<Rightarrow> cs) s e =
        Some (s1, spec_rank (REOwnerID e) (entries_of s1 L1))" "rep s1 L1"
      "entries_of s1 L1 = spec_insert (sortAsc s) e (entries_of s L)" "sortAsc s1 = sortAsc s"
      "enabled s1 = enabled s"
      by (rule insert_rep [OF Cons.prems(2,3)])
    have en: "enabled s1" using i(5) Cons.prems(3) by simp
    obtain s' L' where "run_ops (drop 1 css) ops s1 = Some s'" "rep s' L'" "enabled s'"
      "sortAsc s' = sortAsc s1" "entries_of s' L' = fold (spec_step (sortAsc s1)) ops (entries_of s1 L1)"
      by (rule Cons.IH [OF _ i(2) en])
    then show ?thesis using Cons.prems(1) [of s' L'] by (simp add: Put i)
  next
    case (Remove w)
    obtain s1 L1 where d: "deleteLocked s w = Some s1" "rep s1 L1"
      "entries_of s1 L1 = spec_delete w (entries_of s L)" "sortAsc s1 = sortAsc s"
      "enabled s1 = enabled s"
      by (rule delete_rep [OF Cons.prems(2)])
    have en: "enabled s1" using d(5) Cons.prems(3) by simp
    obtain s' L' where "run_ops css ops s1 = Some s'" "rep s' L'" "enabled s'"
      "sortAsc s' = sortAsc s1" "entries_of s' L' = fold (spec_step (sortAsc s1)) ops (entries_of s1 L1)"
      by (rule Cons.IH [OF _ d(2) en])
    then show ?thesis using Cons.prems(1) [of s' L'] by (simp add: Remove d sl_Delete_def)
  qed
qed simp

lemma sorted_wrt_between:
  "sorted_wrt R A \<Longrightarrow> sorted_wrt R B \<Longrightarrow> \<forall>a\<in>set A. R a e \<Longrightarrow> \<forall>b\<in>set B. R e b \<Longrightarrow>
     \<forall>a\<in>set A. \<forall>b\<in>set B. R a b \<Longrightarrow> sorted_wrt R (A @ e # B)"
  by (simp add: sorted_wrt_append)

lemma spec_step_ranked: "ranked asc es \<Longrightarrow> ranked asc (spec_step asc op es)"
proof (cases op)
  case (Put e)
  assume r: "ranked asc es"
  let ?r = "spec_delete (REOwnerID e) es"
  let ?A = "filter (\<lambda>d. entry_less asc d e) ?r" and ?B = "filter (\<lambda>d. \<not> entry_less asc d e) ?r"
  have rest: "sorted_wrt (entry_less asc) ?r" "distinct (map REOwnerID ?r)"
    "\<forall>d\<in>set ?r. REOwnerID d \<noteq> REOwnerID e"
    using r by (auto simp: ranked_def spec_delete_def sorted_wrt_filter distinct_map_filter)
  have A: "\<forall>a\<in>set ?A. entry_less asc a e" by simp
  have B: "\<forall>b\<in>set ?B. entry_less asc e b"
  proof
    fix b
    assume "b \<in> set ?B"
    then show "entry_less asc e b" using rest(3) entry_less_total [of b e asc] by auto
  qed
  have "\<forall>a\<in>set ?A. \<forall>b\<in>set ?B. entry_less asc a b"
    by (intro ballI) (rule entry_less_trans [OF bspec [OF A] bspec [OF B]])
  then have "sorted_wrt (entry_less asc) (?A @ e # ?B)"
    by (intro sorted_wrt_between A B sorted_wrt_filter rest(1))
  moreover have "distinct (map REOwnerID (?A @ e # ?B))"
    using rest(2,3) by (auto simp: distinct_map inj_on_def)
  ultimately show ?thesis by (simp add: Put ranked_def spec_insert_def Let_def)
next
  case (Remove w)
  assume "ranked asc es"
  then show ?thesis
    by (simp add: Remove ranked_def spec_delete_def sorted_wrt_filter distinct_map_filter)
qed

lemma spec_step_table:
  assumes "ranked asc es"
  shows "latest [op] (table_of es) = table_of (spec_step asc op es)"
proof -
  have d: "distinct (map REOwnerID es)" "distinct (map REOwnerID (spec_step asc op es))"
    using assms spec_step_ranked [OF assms] by (simp_all add: ranked_def)
  have "latest [op] (table_of es) w = Some e \<longleftrightarrow> e \<in> set (spec_step asc op es) \<and> REOwnerID e = w" for w e
    using table_of_Some [OF d(1), of w e]
    by (cases op) (auto simp: spec_insert_def spec_delete_def Let_def)
  from table_of_eqI [OF d(2) this] show ?thesis by simp
qed

lemma fold_spec_table:
  "ranked asc es \<Longrightarrow>
     ranked asc (fold (spec_step asc) ops es) \<and>
     table_of (fold (spec_step asc) ops es) = latest ops (table_of es)"
proof (induction ops arbitrary: es)
  case (Cons op ops)
  have "latest (op # ops) (table_of es) = latest ops (latest [op] (table_of es))" by (cases op) simp_all
  with Cons show ?case using spec_step_ranked spec_step_table by simp
qed simp

text \<open>The rank of an entry in a ranked list is one more than the number of better entries.\<close>

lemma spec_rank_counts:
  assumes "ranked asc es"
  shows "spec_rank w es =
    (case table_of es w of None \<Rightarrow> 0 | Some e \<Rightarrow> 1 + int (length (filter (\<lambda>d. entry_less asc d e) es)))"
proof (cases "table_of es w")
  case None
  then have "w \<notin> REOwnerID ` set es" by (force simp: table_of_def map_of_eq_None_iff)
  with None show ?thesis by (simp add: spec_rank_def)
next
  case (Some e)
  then have e: "e \<in> set es" "REOwnerID e = w" using assms by (simp_all add: table_of_Some ranked_def)
  then obtain A B where es: "es = A @ e # B" by (meson split_list)
  have "\<forall>d\<in>set A. entry_less asc d e" "\<forall>d\<in>set (e # B). \<not> entry_less asc d e"
    using assms entry_less_asym entry_less_irrefl by (auto simp: ranked_def es sorted_wrt_append)
  from filter_splits(1) [OF this] have "filter (\<lambda>d. entry_less asc d e) es = A" by (simp add: es)
  moreover have "spec_rank w es = 1 + int (length A)"
    using spec_rank_split [of A e B] assms e(2) by (simp add: ranked_def es)
  ultimately show ?thesis by (simp add: Some)
qed

lemma card_table:
  assumes "ranked asc es"
  shows "card {v. \<exists>d. table_of es v = Some d \<and> p d} = length (filter p es)"
proof -
  have d: "distinct (map REOwnerID es)" using assms by (simp add: ranked_def)
  then have "{v. \<exists>d. table_of es v = Some d \<and> p d} = set (map REOwnerID (filter p es))"
    by (auto simp: table_of_Some)
  moreover have "distinct (map REOwnerID (filter p es))" using d by (rule distinct_map_filter)
  ultimately show ?thesis by (simp only: distinct_card length_map)
qed

lemma nth_rank:
  assumes "ranked asc es"
  shows "1 \<le> k \<and> k \<le> int (length es) \<and> es ! nat (k - 1) = e \<longleftrightarrow>
    e \<in> set es \<and> spec_rank (REOwnerID e) es = k"
proof
  assume l: "1 \<le> k \<and> k \<le> int (length es) \<and> es ! nat (k - 1) = e"
  define n where "n = nat (k - 1)"
  have n: "n < length es" "es ! n = e" "k = 1 + int n" using l by (auto simp: n_def)
  have "es = take n es @ e # drop (Suc n) es" using id_take_nth_drop [OF n(1)] n(2) by simp
  with spec_rank_split [of "take n es" e "drop (Suc n) es"] assms n
  show "e \<in> set es \<and> spec_rank (REOwnerID e) es = k" by (auto simp: ranked_def)
next
  assume r: "e \<in> set es \<and> spec_rank (REOwnerID e) es = k"
  then obtain A B where es: "es = A @ e # B" by (meson split_list)
  with r spec_rank_split [of A e B] assms have "k = 1 + int (length A)" by (simp add: ranked_def)
  then show "1 \<le> k \<and> k \<le> int (length es) \<and> es ! nat (k - 1) = e" by (simp add: es)
qed

lemma run_new:
  obtains s' L' where "run_ops css ops (newSkipListRankCache asc True) = Some s'" "rep s' L'"
    "enabled s'" "entries_of s' L' = fold (spec_step asc) ops []"
    "ranked asc (entries_of s' L')" "table_of (entries_of s' L') = latest ops Map.empty"
proof -
  obtain s' L' where r: "run_ops css ops (newSkipListRankCache asc True) = Some s'" "rep s' L'"
    "enabled s'" "entries_of s' L' = fold (spec_step asc) ops []"
    using run_rep [OF new_rep [of asc True]]
    by (simp add: newSkipListRankCache_def entries_of_def) metis
  have "table_of [] = Map.empty" by (simp add: table_of_def)
  with fold_spec_table [of asc "[]" ops] that [OF r] r(4) show thesis by (simp add: ranked_def)
qed

lemma GetRank_rep: "rep s L \<Longrightarrow> enabled s \<Longrightarrow> sl_GetRank s w = Some (spec_rank w (entries_of s L))"
  by (simp add: sl_GetRank_def rankOf_rep)

subsection \<open>Properties\<close>

text \<open>C8: The skip list refines the sorted list: after any sequence of inserts and deletes, whatever the
  coins of \<open>randomLevel\<close>, every operation has returned, the linked structure holds exactly the
  entries of the specification in its order, and size and ranks are read from it.\<close>

theorem rank_cache_refines:
  "\<exists>s. run_ops css ops (newSkipListRankCache asc True) = Some s \<and>
     holds_entries s (fold (spec_step asc) ops []) \<and>
     sl_Size s = int (length (fold (spec_step asc) ops [])) \<and>
     (\<forall>w. sl_GetRank s w = Some (spec_rank w (fold (spec_step asc) ops [])))"
proof -
  obtain s L where r: "run_ops css ops (newSkipListRankCache asc True) = Some s" "rep s L" "enabled s"
    "entries_of s L = fold (spec_step asc) ops []"
    by (rule run_new)
  have "sl_Size s = int (length (entries_of s L))"
    using repD(5) [OF r(2)] by (simp add: sl_Size_def entries_of_def)
  with r GetRank_rep [OF r(2,3)] show ?thesis by (auto simp: holds_entries_def)
qed

text \<open>The rank of an owner is one more than the number of owners whose latest entry is better, and
  0 for an owner without an entry: inserting again replaces the old entry, deleting forgets it.\<close>

lemma GetRank_counts_better:
  "\<exists>s. run_ops css ops (newSkipListRankCache asc True) = Some s \<and>
     (\<forall>w. sl_GetRank s w = Some (case latest ops Map.empty w of None \<Rightarrow> 0
       | Some e \<Rightarrow> 1 + int (card {v. \<exists>d. latest ops Map.empty v = Some d \<and> entry_less asc d e})))"
proof -
  obtain s L where r: "run_ops css ops (newSkipListRankCache asc True) = Some s" "rep s L" "enabled s"
    "ranked asc (entries_of s L)" "table_of (entries_of s L) = latest ops Map.empty"
    by (rule run_new)
  have "sl_GetRank s w = Some (case latest ops Map.empty w of None \<Rightarrow> 0
      | Some e \<Rightarrow> 1 + int (card {v. \<exists>d. latest ops Map.empty v = Some d \<and> entry_less asc d e}))" for w
    unfolding GetRank_rep [OF r(2,3)] spec_rank_counts [OF r(4)] card_table [OF r(4), symmetric] r(5) ..
  with r(1) show ?thesis by blast
qed

text \<open>\<open>GetDataByRank\<close> is the inverse of \<open>GetRank\<close>: it returns an entry exactly when this is the
  latest entry of its owner and the rank is the owner's rank.\<close>

lemma GetDataByRank_inverse:
  "\<exists>s. run_ops css ops (newSkipListRankCache asc True) = Some s \<and>
     (\<forall>k e. sl_GetDataByRank s k = Some e \<longleftrightarrow>
       latest ops Map.empty (REOwnerID e) = Some e \<and> sl_GetRank s (REOwnerID e) = Some k)"
proof -
  obtain s L where r: "run_ops css ops (newSkipListRankCache asc True) = Some s" "rep s L" "enabled s"
    "ranked asc (entries_of s L)" "table_of (entries_of s L) = latest ops Map.empty"
    by (rule run_new)
  have len: "length L = length (entries_of s L)" by (simp add: entries_of_def)
  have "sl_GetDataByRank s k = Some e \<longleftrightarrow>
      latest ops Map.empty (REOwnerID e) = Some e \<and> sl_GetRank s (REOwnerID e) = Some k" for k e
    using nth_rank [OF r(4), of k e] table_of_Some [of "entries_of s L" "REOwnerID e" e] r(4)
    unfolding data_rep [OF r(2,3)] GetRank_rep [OF r(2,3)] r(5) [symmetric] len
    by (auto simp: ranked_def)
  with r(1) show ?thesis by blast
qed

end
