(* ===== verification/Rank_Cache.thy ===== *)
theory Rank_Cache
  imports Skip_Props Base64
begin

section \<open>The rank cache of all leaderboards\<close>

text \<open>
  \<open>internal/leaderboard/rank_cache.go\<close> and \<open>rank_blacklist.go\<close>: one skip list per leaderboard and
  expiry, filled as scores are submitted and evicted by partition, by board or when expired.  The
  coins of the skip lists are an argument of every operation that inserts.  \<open>None\<close> as the result of
  an operation would be a cycle in a skip list; the lemmas show that it does not occur.
\<close>

record lb_record =
  RLeaderboardID :: string
  ROwnerID :: string
  RUsername :: string
  RScore :: "64 word"
  RSubscore :: "64 word"
  RNumScore :: int
  RMaxNumScore :: int
  RMetadata :: string
  RCreateTime :: gotime
  RUpdateTime :: gotime
  RExpiryTime :: int
  RRank :: int

record rank_cache =
  rcSortAsc :: bool
  rcEnabled :: bool
  rcSl :: skip_list

type_synonym partition = "string \<times> int"
type_synonym global_rank_cache = "(partition, rank_cache) fmap"
type_synonym coins = "nat \<Rightarrow> bool"

definition SortOrderAscending :: int where
  "SortOrderAscending = 0"

definition SortOrderDescending :: int where
  "SortOrderDescending = 1"

subsection \<open>The blacklist\<close>

record rank_blacklist =
  blIDs :: "string goset"
  blAll :: bool

text \<open>White space is that of ASCII text.\<close>

definition white :: "char \<Rightarrow> bool" where
  "white c \<longleftrightarrow> c \<in> {CHR 0x20, CHR 0x09, CHR 0x0A, CHR 0x0B, CHR 0x0C, CHR 0x0D}"

definition TrimSpace :: "string \<Rightarrow> string" where
  "TrimSpace s = rev (dropWhile white (rev (dropWhile white s)))"

fun SplitOn :: "char \<Rightarrow> string \<Rightarrow> string list" where
  "SplitOn sep [] = [[]]"
| "SplitOn sep (c # cs) =
     (if c = sep then [] # SplitOn sep cs
      else (case SplitOn sep cs of [] \<Rightarrow> [[c]] | p # ps \<Rightarrow> (c # p) # ps))"

definition blacklist_part :: "string \<Rightarrow> rank_blacklist \<Rightarrow> rank_blacklist" where
  "blacklist_part part bl =
     (let i = TrimSpace part in
      if i = [] then bl
      else if i = ''*'' then bl\<lparr>blAll := True\<rparr>
      else bl\<lparr>blIDs := fmupd i () (blIDs bl)\<rparr>)"

definition ConfigureRankCacheBlacklist :: "string \<Rightarrow> rank_blacklist" where
  "ConfigureRankCacheBlacklist csv =
     (let s = TrimSpace csv; none = \<lparr>blIDs = fmempty, blAll = False\<rparr> in
      if s = [] then none else fold blacklist_part (SplitOn CHR '','' s) none)"

definition IsRankCacheBlacklisted :: "rank_blacklist \<Rightarrow> string \<Rightarrow> bool" where
  "IsRankCacheBlacklisted bl i = (if blAll bl then True else fmlookup (blIDs bl) i \<noteq> None)"

subsection \<open>Partitions\<close>

definition getOrCreate :: "global_rank_cache \<Rightarrow> string \<Rightarrow> int \<Rightarrow> int \<Rightarrow> bool \<Rightarrow> global_rank_cache \<times> rank_cache" where
  "getOrCreate g i expiry sortOrder en =
     (case fmlookup g (i, expiry) of
        Some rc \<Rightarrow> (g, rc)
      | None \<Rightarrow>
          let rc = \<lparr>rcSortAsc = (sortOrder = SortOrderAscending), rcEnabled = en,
                rcSl = newSkipListRankCache (sortOrder = SortOrderAscending) en\<rparr> in
          (fmupd (i, expiry) rc g, rc))"

definition gc_Insert ::
  "coins \<Rightarrow> rank_blacklist \<Rightarrow> global_rank_cache \<Rightarrow> string \<Rightarrow> int \<Rightarrow> 64 word \<Rightarrow> 64 word \<Rightarrow> int
   \<Rightarrow> string \<Rightarrow> bool \<Rightarrow> (global_rank_cache \<times> int) option" where
  "gc_Insert coins bl g i sortOrder score subscore expiry owner en =
     (if IsRankCacheBlacklisted bl i then Some (g, 0)
      else
        let (g1, rc) = getOrCreate g i expiry sortOrder en in
        if \<not> en then
          Some (fmupd (i, expiry) (rc\<lparr>rcEnabled := False, rcSl := (rcSl rc)\<lparr>enabled := False\<rparr>\<rparr>) g1, 0)
        else
          (case sl_Insert coins ((rcSl rc)\<lparr>enabled := True\<rparr>)
                  \<lparr>REOwnerID = owner, REScore = score, RESubscore = subscore\<rparr> of
             None \<Rightarrow> None
           | Some (sl', r) \<Rightarrow>
               Some (fmupd (i, expiry) (rc\<lparr>rcEnabled := True, rcSl := sl'\<rparr>) g1, r)))"

definition gc_GetRank :: "rank_blacklist \<Rightarrow> global_rank_cache \<Rightarrow> string \<Rightarrow> int \<Rightarrow> string \<Rightarrow> int option" where
  "gc_GetRank bl g i expiry owner =
     (if IsRankCacheBlacklisted bl i then Some 0
      else (case fmlookup g (i, expiry) of
          None \<Rightarrow> Some 0
        | Some rc \<Rightarrow> if \<not> rcEnabled rc then Some 0 else sl_GetRank (rcSl rc) owner))"

definition gc_Delete :: "global_rank_cache \<Rightarrow> string \<Rightarrow> int \<Rightarrow> string \<Rightarrow> global_rank_cache option" where
  "gc_Delete g i expiry owner =
     (case fmlookup g (i, expiry) of
        None \<Rightarrow> Some g
      | Some rc \<Rightarrow>
          (case sl_Delete (rcSl rc) owner of
             None \<Rightarrow> None
           | Some sl' \<Rightarrow> Some (fmupd (i, expiry) (rc\<lparr>rcSl := sl'\<rparr>) g)))"

definition gc_DeleteLeaderboard :: "global_rank_cache \<Rightarrow> string \<Rightarrow> global_rank_cache" where
  "gc_DeleteLeaderboard g i = fmfilter (\<lambda>k. fst k \<noteq> i) g"

definition EvictPartition :: "global_rank_cache \<Rightarrow> string \<Rightarrow> int \<Rightarrow> global_rank_cache" where
  "EvictPartition g i expiry = fmdrop (i, expiry) g"

definition TrimExpired :: "global_rank_cache \<Rightarrow> int \<Rightarrow> global_rank_cache" where
  "TrimExpired g nowUnix = fmfilter (\<lambda>k. \<not> (snd k > 0 \<and> snd k \<le> nowUnix)) g"

fun fill_from :: "skip_list \<Rightarrow> lb_record list \<Rightarrow> lb_record list option" where
  "fill_from sl [] = Some []"
| "fill_from sl (r # rs) =
     (case (sl_GetRank sl (ROwnerID r), fill_from sl rs) of
        (Some k, Some rs') \<Rightarrow> Some (r\<lparr>RRank := k\<rparr> # rs')
      | _ \<Rightarrow> None)"

definition FillRanks ::
  "global_rank_cache \<Rightarrow> string \<Rightarrow> int \<Rightarrow> lb_record list \<Rightarrow> bool \<Rightarrow> lb_record list option" where
  "FillRanks g i expiry records en =
     (if \<not> en then Some (map (\<lambda>r. r\<lparr>RRank := 0\<rparr>) records)
      else (case fmlookup g (i, expiry) of
          None \<Rightarrow> Some records
        | Some rc \<Rightarrow> fill_from (rcSl rc) records))"

definition entry_of :: "lb_record \<Rightarrow> rank_entry" where
  "entry_of r = \<lparr>REOwnerID = ROwnerID r, REScore = RScore r, RESubscore = RSubscore r\<rparr>"

fun load_entries :: "(nat \<Rightarrow> coins) \<Rightarrow> nat \<Rightarrow> lb_record list \<Rightarrow> skip_list \<Rightarrow> skip_list option" where
  "load_entries flips i [] sl = Some sl"
| "load_entries flips i (r # rs) sl =
     (case sl_Insert (flips i) sl (entry_of r) of
        None \<Rightarrow> None
      | Some (sl', _) \<Rightarrow> load_entries flips (i + 1) rs sl')"

text \<open>The records of the caller get their position as rank when ranks are enabled.\<close>

definition LoadFromRecords ::
  "(nat \<Rightarrow> coins) \<Rightarrow> global_rank_cache \<Rightarrow> string \<Rightarrow> int \<Rightarrow> int \<Rightarrow> bool \<Rightarrow> lb_record list
   \<Rightarrow> (global_rank_cache \<times> lb_record list) option" where
  "LoadFromRecords flips g i expiry sortOrder en records =
     (let (g1, rc) = getOrCreate g i expiry sortOrder en in
      case load_entries flips 0 records (newSkipListRankCache (sortOrder = SortOrderAscending) en) of
        None \<Rightarrow> None
      | Some sl \<Rightarrow>
          Some (fmupd (i, expiry) (rc\<lparr>rcSl := sl, rcEnabled := en\<rparr>) g1,
            if en then map (\<lambda>(n, r). r\<lparr>RRank := int (n + 1)\<rparr>) (enumerate 0 records) else records))"

definition gc_GetDataByRank :: "global_rank_cache \<Rightarrow> string \<Rightarrow> int \<Rightarrow> int \<Rightarrow> rank_entry option" where
  "gc_GetDataByRank g i expiry rank =
     (case fmlookup g (i, expiry) of
        None \<Rightarrow> None
      | Some rc \<Rightarrow> if \<not> rcEnabled rc then None else sl_GetDataByRank (rcSl rc) rank)"

subsection \<open>Cursors\<close>

record record_cursor =
  CIsNext :: bool
  CLeaderboardID :: string
  CExpiryUnix :: int
  CScore :: "64 word"
  CSubscore :: "64 word"
  COwnerID :: string
  CRank :: int

definition EncodeCursor :: "(record_cursor \<Rightarrow> nat list) \<Rightarrow> record_cursor option \<Rightarrow> string" where
  "EncodeCursor genc c = (case c of None \<Rightarrow> [] | Some rc \<Rightarrow> url_encode (genc rc))"

text \<open>\<open>Some None\<close> is the nil cursor of an empty string, \<open>None\<close> an undecodable one.\<close>

definition DecodeCursor :: "(nat list \<Rightarrow> record_cursor option) \<Rightarrow> string \<Rightarrow> record_cursor option option" where
  "DecodeCursor gdec s =
     (if s = [] then Some None
      else (case url_decode s of
          None \<Rightarrow> None
        | Some b \<Rightarrow> (case gdec b of None \<Rightarrow> None | Some c \<Rightarrow> Some (Some c))))"

end
