(* ===== verification/Rank_Index.thy ===== *)
theory Rank_Index
  imports Rank_Cache
begin

section \<open>What the rank cache promises\<close>

text \<open>
  The contract of a rank index: a table of entries by owner, changed by insert and delete, and a rank
  that counts the better entries.  Everything a client of the cache needs follows from it; the skip
  list is its interpretation.
\<close>

locale rank_index =
  fixes ok :: "'s \<Rightarrow> bool"
    and tab :: "'s \<Rightarrow> string \<rightharpoonup> rank_entry"
    and asc :: "'s \<Rightarrow> bool"
    and rank :: "'s \<Rightarrow> string \<Rightarrow> int option"
  assumes finite_tab: "ok s \<Longrightarrow> finite (dom (tab s))"
    and owner_tab: "ok s \<Longrightarrow> tab s w = Some e \<Longrightarrow> REOwnerID e = w"
    and rank_tab: "ok s \<Longrightarrow> rank s w = Some (case tab s w of None \<Rightarrow> 0
      | Some e \<Rightarrow> 1 + int (card {v. \<exists>d. tab s v = Some d \<and> entry_less (asc s) d e}))"
begin

lemma rank_zero: "ok s \<Longrightarrow> rank s w = Some 0 \<longleftrightarrow> tab s w = None"
  by (auto simp: rank_tab split: option.split)

lemma better_finite: "ok s \<Longrightarrow> finite {v. \<exists>d. tab s v = Some d \<and> entry_less (asc s) d e}"
  by (rule finite_subset [OF _ finite_tab]) auto

lemma rank_better:
  assumes "ok s" "tab s v = Some d" "tab s w = Some e" "entry_less (asc s) d e"
    "rank s v = Some k" "rank s w = Some l"
  shows "k < l"
proof -
  let ?B = "\<lambda>e. {v. \<exists>d. tab s v = Some d \<and> entry_less (asc s) d e}"
  have "?B d \<subseteq> ?B e" using entry_less_trans [OF _ assms(4)] by blast
  moreover have "v \<in> ?B e" "v \<notin> ?B d" using assms(2,4) by (auto simp: entry_less_irrefl)
  ultimately have "?B d \<subset> ?B e" by blast
  then have "card (?B d) < card (?B e)" by (rule psubset_card_mono [OF better_finite [OF assms(1)]])
  with assms show ?thesis by (simp add: rank_tab)
qed

lemma rank_injective:
  assumes "ok s" "rank s v = Some k" "rank s w = Some k" "k \<noteq> 0"
  shows "v = w"
proof (rule ccontr)
  assume "v \<noteq> w"
  obtain d e where de: "tab s v = Some d" "tab s w = Some e"
    using assms rank_zero by (metis option.exhaust option.inject)
  then have "REOwnerID d \<noteq> REOwnerID e" using \<open>v \<noteq> w\<close> owner_tab [OF assms(1)] by blast
  then consider "entry_less (asc s) d e" | "entry_less (asc s) e d"
    using entry_less_total by blast
  then show False
    using rank_better [OF assms(1) de _ assms(2,3)] rank_better [OF assms(1) de(2,1) _ assms(3,2)] by cases auto
qed

lemma rank_bounds: "ok s \<Longrightarrow> tab s w = Some e \<Longrightarrow> rank s w = Some k \<Longrightarrow> 1 \<le> k \<and> k \<le> int (card (dom (tab s)))"
proof -
  assume a: "ok s" "tab s w = Some e" "rank s w = Some k"
  have "{v. \<exists>d. tab s v = Some d \<and> entry_less (asc s) d e} \<subset> dom (tab s)"
  proof
    show "{v. \<exists>d. tab s v = Some d \<and> entry_less (asc s) d e} \<subseteq> dom (tab s)" by auto
    have "w \<in> dom (tab s)" "w \<notin> {v. \<exists>d. tab s v = Some d \<and> entry_less (asc s) d e}"
      using a(2) by (auto simp: entry_less_irrefl)
    then show "{v. \<exists>d. tab s v = Some d \<and> entry_less (asc s) d e} \<noteq> dom (tab s)" by blast
  qed
  from psubset_card_mono [OF finite_tab [OF a(1)] this] a show ?thesis by (simp add: rank_tab)
qed

end

subsection \<open>The skip list\<close>

definition sl_ok :: "skip_list \<Rightarrow> bool" where
  "sl_ok s \<longleftrightarrow> (\<exists>L. rep s L)"

definition sl_table :: "skip_list \<Rightarrow> string \<rightharpoonup> rank_entry" where
  "sl_table s w = map_option (\<lambda>a. entry (heap s a)) (fmlookup (ownerIdx s) w)"

lemma rep_enabled [simp]: "rep (s\<lparr>enabled := b\<rparr>) L \<longleftrightarrow> rep s L"
  by (simp add: rep_def)

lemma sl_ok_enabled [simp]: "sl_ok (s\<lparr>enabled := b\<rparr>) \<longleftrightarrow> sl_ok s"
  by (simp add: sl_ok_def)

lemma sl_table_enabled [simp]: "sl_table (s\<lparr>enabled := b\<rparr>) = sl_table s"
  by (simp add: sl_table_def fun_eq_iff)

lemma rep_table: "rep s L \<Longrightarrow> table_of (entries_of s L) = sl_table s"
proof (rule table_of_eqI)
  assume r: "rep s L"
  then show "distinct (map REOwnerID (entries_of s L))" by (rule rep_owners_distinct)
  fix w e
  show "sl_table s w = Some e \<longleftrightarrow> e \<in> set (entries_of s L) \<and> REOwnerID e = w"
    using repD(4) [OF r, of w] by (auto simp: sl_table_def entries_of_def)
qed

lemma new_ok: "sl_ok (newSkipListRankCache asc en)"
  using new_rep by (auto simp: sl_ok_def)

lemma new_table: "sl_table (newSkipListRankCache asc en) = Map.empty"
  by (simp add: sl_table_def newSkipListRankCache_def fun_eq_iff)

lemma spec_insert_table:
  assumes "ranked asc es"
  shows "table_of (spec_insert asc e es) = (table_of es)(REOwnerID e \<mapsto> e)"
  using spec_step_table [OF assms, of "Put e"] by simp

lemma spec_delete_table:
  assumes "ranked asc es"
  shows "table_of (spec_delete w es) = (table_of es)(w := None)"
  using spec_step_table [OF assms, of "Remove w"] by simp

lemma rank_of_table:
  assumes r: "rep s L" and en: "enabled s"
  shows "sl_GetRank s w = Some (case sl_table s w of None \<Rightarrow> 0
    | Some e \<Rightarrow> 1 + int (card {v. \<exists>d. sl_table s v = Some d \<and> entry_less (sortAsc s) d e}))"
  unfolding GetRank_rep [OF r en] spec_rank_counts [OF rep_ranked [OF r]]
    card_table [OF rep_ranked [OF r], symmetric] rep_table [OF r] ..

lemma insert_ok:
  assumes "sl_ok s" "enabled s"
  obtains s' r where "sl_Insert coins s e = Some (s', r)" "sl_ok s'" "enabled s'" "sortAsc s' = sortAsc s"
    "sl_table s' = (sl_table s)(REOwnerID e \<mapsto> e)" "sl_GetRank s' (REOwnerID e) = Some r"
proof -
  obtain L where L: "rep s L" using assms(1) by (auto simp: sl_ok_def)
  obtain s' L' where i: "sl_Insert coins s e = Some (s', spec_rank (REOwnerID e) (entries_of s' L'))"
    "rep s' L'" "entries_of s' L' = spec_insert (sortAsc s) e (entries_of s L)"
    "sortAsc s' = sortAsc s" "enabled s' = enabled s"
    by (rule insert_rep [OF L assms(2)])
  have "sl_table s' = (sl_table s)(REOwnerID e \<mapsto> e)"
    using spec_insert_table [OF rep_ranked [OF L], of e] i(3) by (simp add: rep_table [OF L] rep_table [OF i(2), symmetric])
  with i assms(2) GetRank_rep [OF i(2)] that show thesis by (auto simp: sl_ok_def)
qed

lemma delete_ok:
  assumes "sl_ok s"
  obtains s' where "sl_Delete s w = Some s'" "sl_ok s'" "enabled s' = enabled s" "sortAsc s' = sortAsc s"
    "sl_table s' = (sl_table s)(w := None)"
proof -
  obtain L where L: "rep s L" using assms(1) by (auto simp: sl_ok_def)
  obtain s' L' where d: "deleteLocked s w = Some s'" "rep s' L'"
    "entries_of s' L' = spec_delete w (entries_of s L)" "sortAsc s' = sortAsc s" "enabled s' = enabled s"
    by (rule delete_rep [OF L])
  have "sl_table s' = (sl_table s)(w := None)"
    using spec_delete_table [OF rep_ranked [OF L], of w] d(3) by (simp add: rep_table [OF L] rep_table [OF d(2), symmetric])
  with d that show thesis by (auto simp: sl_ok_def sl_Delete_def)
qed

interpretation skip_rank: rank_index "\<lambda>s. sl_ok s \<and> enabled s" sl_table sortAsc sl_GetRank
proof unfold_locales
  fix s :: skip_list
  have "dom (sl_table s) = dom (fmlookup (ownerIdx s))" by (auto simp: sl_table_def dom_def)
  then show "finite (dom (sl_table s))" by simp
next
  fix s :: skip_list and w e
  assume "sl_ok s \<and> enabled s" "sl_table s w = Some e"
  then show "REOwnerID e = w" by (auto simp: sl_ok_def sl_table_def dest: repD(4))
next
  fix s :: skip_list and w
  assume "sl_ok s \<and> enabled s"
  then show "sl_GetRank s w = Some (case sl_table s w of None \<Rightarrow> 0
      | Some e \<Rightarrow> 1 + int (card {v. \<exists>d. sl_table s v = Some d \<and> entry_less (sortAsc s) d e}))"
    using rank_of_table by (auto simp: sl_ok_def)
qed

subsection \<open>The global cache\<close>

text \<open>What is cached for a partition, and the invariant: sound skip lists, enabled as their partition is.\<close>

definition cached :: "global_rank_cache \<Rightarrow> partition \<Rightarrow> string \<rightharpoonup> rank_entry" where
  "cached g k = (case fmlookup g k of None \<Rightarrow> Map.empty | Some rc \<Rightarrow> sl_table (rcSl rc))"

definition gc_ok :: "global_rank_cache \<Rightarrow> bool" where
  "gc_ok g \<longleftrightarrow> (\<forall>k rc. fmlookup g k = Some rc \<longrightarrow> sl_ok (rcSl rc) \<and> enabled (rcSl rc) = rcEnabled rc)"

lemma gc_okD: "gc_ok g \<Longrightarrow> fmlookup g k = Some rc \<Longrightarrow> sl_ok (rcSl rc) \<and> enabled (rcSl rc) = rcEnabled rc"
  unfolding gc_ok_def by blast

lemma gc_ok_upd:
  "gc_ok g \<Longrightarrow> sl_ok (rcSl rc) \<Longrightarrow> enabled (rcSl rc) = rcEnabled rc \<Longrightarrow> gc_ok (fmupd k rc g)"
  by (simp add: gc_ok_def)

lemma gc_ok_empty: "gc_ok fmempty"
  by (simp add: gc_ok_def)

lemma cached_upd: "cached (fmupd k rc g) = (cached g)(k := sl_table (rcSl rc))"
  by (auto simp: cached_def fun_eq_iff)

text \<open>The order in which a partition ranks.\<close>

definition gc_order :: "global_rank_cache \<Rightarrow> partition \<Rightarrow> bool option" where
  "gc_order g k = map_option (\<lambda>rc. sortAsc (rcSl rc)) (fmlookup g k)"

lemma gc_order_upd: "gc_order (fmupd k rc g) = (gc_order g)(k \<mapsto> sortAsc (rcSl rc))"
  by (auto simp: gc_order_def fun_eq_iff)

lemma getOrCreate_order:
  "getOrCreate g i expiry so en = (g1, rc) \<Longrightarrow>
     gc_order g1 = (gc_order g)((i, expiry) \<mapsto> sortAsc (rcSl rc)) \<and>
     sortAsc (rcSl rc) = (case gc_order g (i, expiry) of None \<Rightarrow> so = SortOrderAscending | Some b \<Rightarrow> b)"
  by (auto simp: getOrCreate_def gc_order_def Let_def newSkipListRankCache_def fun_eq_iff split: option.splits)

lemma gc_rank:
  assumes "gc_ok g" "fmlookup g (i, expiry) = Some rc" "rcEnabled rc" "\<not> IsRankCacheBlacklisted bl i"
  shows "gc_GetRank bl g i expiry w = Some (case cached g (i, expiry) w of None \<Rightarrow> 0
    | Some e \<Rightarrow> 1 + int (card {v. \<exists>d. cached g (i, expiry) v = Some d \<and> entry_less (sortAsc (rcSl rc)) d e}))"
proof -
  have c: "cached g (i, expiry) = sl_table (rcSl rc)" by (simp add: cached_def assms(2))
  show ?thesis unfolding c
    using assms skip_rank.rank_tab [of "rcSl rc" w] gc_okD [OF assms(1,2)] by (simp add: gc_GetRank_def)
qed

lemma getOrCreate_ok:
  assumes "gc_ok g" "getOrCreate g i expiry so en = (g1, rc)"
  shows "gc_ok g1" "sl_ok (rcSl rc)" "enabled (rcSl rc) = rcEnabled rc" "cached g1 = cached g"
    "sl_table (rcSl rc) = cached g (i, expiry)" "fmlookup g1 (i, expiry) = Some rc"
proof -
  have en: "enabled (newSkipListRankCache b en) = en" for b by (simp add: newSkipListRankCache_def)
  have "gc_ok g1 \<and> sl_ok (rcSl rc) \<and> enabled (rcSl rc) = rcEnabled rc \<and> cached g1 = cached g \<and>
    sl_table (rcSl rc) = cached g (i, expiry) \<and> fmlookup g1 (i, expiry) = Some rc"
  proof (cases "fmlookup g (i, expiry)")
    case None
    then have "cached (fmupd (i, expiry) r g) = cached g" if "sl_table (rcSl r) = Map.empty" for r
      using that by (auto simp: cached_upd fun_eq_iff) (simp add: cached_def)
    moreover have "cached g (i, expiry) = Map.empty" using None by (simp add: cached_def)
    ultimately show ?thesis
      using None assms new_ok new_table en by (auto simp: getOrCreate_def Let_def intro!: gc_ok_upd)
  next
    case (Some r)
    with assms gc_okD [OF assms(1) Some] show ?thesis by (simp add: getOrCreate_def cached_def)
  qed
  then show "gc_ok g1" "sl_ok (rcSl rc)" "enabled (rcSl rc) = rcEnabled rc" "cached g1 = cached g"
    "sl_table (rcSl rc) = cached g (i, expiry)" "fmlookup g1 (i, expiry) = Some rc"
    by blast+
qed

lemma gc_Insert_ok:
  assumes "gc_ok g"
  obtains g' r where "gc_Insert coins bl g i so s ss expiry w en = Some (g', r)" "gc_ok g'"
    "cached g' = (if IsRankCacheBlacklisted bl i \<or> \<not> en then cached g
       else (cached g)((i, expiry) := (cached g (i, expiry))(w \<mapsto>
         \<lparr>REOwnerID = w, REScore = s, RESubscore = ss\<rparr>)))"
    "gc_GetRank bl g' i expiry w = Some r"
    "gc_order g' = (if IsRankCacheBlacklisted bl i then gc_order g
       else (gc_order g)((i, expiry) \<mapsto>
         (case gc_order g (i, expiry) of None \<Rightarrow> so = SortOrderAscending | Some b \<Rightarrow> b)))"
    "\<not> IsRankCacheBlacklisted bl i \<and> en \<longrightarrow> (\<exists>rc. fmlookup g' (i, expiry) = Some rc \<and> rcEnabled rc)"
proof -
  let ?e = "\<lparr>REOwnerID = w, REScore = s, RESubscore = ss\<rparr>"
  obtain g1 rc where c: "getOrCreate g i expiry so en = (g1, rc)" by fastforce
  note ok = getOrCreate_ok [OF assms c] and ord = getOrCreate_order [OF c]
  show thesis
  proof (cases "IsRankCacheBlacklisted bl i")
    case True
    with assms that show thesis by (simp add: gc_Insert_def gc_GetRank_def)
  next
    case bl: False
    show thesis
    proof (cases en)
      case False
      have "cached (fmupd (i, expiry) (rc\<lparr>rcEnabled := False, rcSl := (rcSl rc)\<lparr>enabled := False\<rparr>\<rparr>) g1) = cached g"
        by (simp add: cached_upd ok(4,5))
      moreover have "gc_ok (fmupd (i, expiry) (rc\<lparr>rcEnabled := False, rcSl := (rcSl rc)\<lparr>enabled := False\<rparr>\<rparr>) g1)"
        using ok by (intro gc_ok_upd) simp_all
      ultimately show thesis using bl False c that ord by (simp add: gc_Insert_def gc_GetRank_def gc_order_upd)
    next
      case True
      have "sl_ok ((rcSl rc)\<lparr>enabled := True\<rparr>)" "enabled ((rcSl rc)\<lparr>enabled := True\<rparr>)" using ok(2) by simp_all
      then obtain s' r where i: "sl_Insert coins ((rcSl rc)\<lparr>enabled := True\<rparr>) ?e = Some (s', r)" "sl_ok s'"
        "enabled s'" "sl_table s' = (sl_table (rcSl rc))(w \<mapsto> ?e)" "sl_GetRank s' w = Some r"
        "sortAsc s' = sortAsc (rcSl rc)"
        by (rule insert_ok [of _ coins ?e]) simp
      let ?g = "fmupd (i, expiry) (rc\<lparr>rcEnabled := True, rcSl := s'\<rparr>) g1"
      have "gc_ok ?g" using ok(1) i by (intro gc_ok_upd) simp_all
      moreover have "cached ?g = (cached g)((i, expiry) := (cached g (i, expiry))(w \<mapsto> ?e))"
        by (simp add: cached_upd ok(4,5) i(4))
      ultimately show thesis
        using bl True c i(1,5,6) that ord by (simp add: gc_Insert_def gc_GetRank_def gc_order_upd)
    qed
  qed
qed

lemma gc_Delete_ok:
  assumes "gc_ok g"
  obtains g' where "gc_Delete g i expiry w = Some g'" "gc_ok g'"
    "cached g' = (cached g)((i, expiry) := (cached g (i, expiry))(w := None))" "gc_order g' = gc_order g"
proof (cases "fmlookup g (i, expiry)")
  case None
  then have "(cached g)((i, expiry) := (cached g (i, expiry))(w := None)) = cached g"
    by (auto simp: cached_def fun_eq_iff)
  with None assms that show thesis by (simp add: gc_Delete_def)
next
  case (Some rc)
  note ok = gc_okD [OF assms Some]
  obtain s' where d: "sl_Delete (rcSl rc) w = Some s'" "sl_ok s'" "enabled s' = enabled (rcSl rc)"
    "sl_table s' = (sl_table (rcSl rc))(w := None)" "sortAsc s' = sortAsc (rcSl rc)"
    by (rule delete_ok [OF conjunct1 [OF ok]])
  have "gc_ok (fmupd (i, expiry) (rc\<lparr>rcSl := s'\<rparr>) g)"
    using assms ok d by (intro gc_ok_upd) simp_all
  moreover have "cached (fmupd (i, expiry) (rc\<lparr>rcSl := s'\<rparr>) g) =
      (cached g)((i, expiry) := (cached g (i, expiry))(w := None))"
    by (simp add: cached_upd d(4)) (simp add: cached_def Some)
  moreover have "gc_order (fmupd (i, expiry) (rc\<lparr>rcSl := s'\<rparr>) g) = gc_order g"
    using Some d(5) by (auto simp: gc_order_def fun_eq_iff)
  ultimately show thesis using Some d(1) that by (simp add: gc_Delete_def)
qed

lemma gc_filter_ok:
  "gc_ok g \<Longrightarrow> gc_ok (fmfilter p g)" "gc_order (fmfilter p g) k = (if p k then gc_order g k else None)"
  "cached (fmfilter p g) k = (if p k then cached g k else Map.empty)"
  by (auto simp: gc_ok_def cached_def gc_order_def split: if_splits)

lemma fmdrop_is_filter: "fmdrop k g = fmfilter (\<lambda>l. l \<noteq> k) g"
  by (rule fmap_ext) simp

subsection \<open>Loading\<close>

definition put_entry :: "lb_record \<Rightarrow> (string \<rightharpoonup> rank_entry) \<Rightarrow> string \<rightharpoonup> rank_entry" where
  "put_entry r t = t(ROwnerID r \<mapsto> entry_of r)"

lemma load_entries_ok:
  assumes "sl_ok s" "enabled s"
  obtains s' where "load_entries flips n rs s = Some s'" "sl_ok s'" "enabled s'" "sortAsc s' = sortAsc s"
    "sl_table s' = fold put_entry rs (sl_table s)"
  using assms
proof (induction rs arbitrary: n s thesis)
  case (Cons r rs)
  obtain s1 k where i: "sl_Insert (flips n) s (entry_of r) = Some (s1, k)" "sl_ok s1" "enabled s1"
    "sortAsc s1 = sortAsc s" "sl_table s1 = (sl_table s)(ROwnerID r \<mapsto> entry_of r)"
    by (rule insert_ok [OF Cons.prems(2,3), of "flips n" "entry_of r"]) (simp add: entry_of_def)
  obtain s' where "load_entries flips (n + 1) rs s1 = Some s'" "sl_ok s'" "enabled s'" "sortAsc s' = sortAsc s1"
    "sl_table s' = fold put_entry rs (sl_table s1)"
    by (rule Cons.IH [OF _ i(2,3)])
  moreover have "sl_table s1 = put_entry r (sl_table s)" by (simp add: put_entry_def i(5))
  ultimately show ?case using Cons.prems(1) i(1,4) by simp
qed simp

lemma load_disabled: "\<not> enabled s \<Longrightarrow> load_entries flips n rs s = Some s"
  by (induction rs arbitrary: n) (simp_all add: sl_Insert_def)

lemma fold_entries: "fold put_entry rs t w = Some e \<Longrightarrow>
    t w = Some e \<or> (\<exists>r\<in>set rs. entry_of r = e \<and> ROwnerID r = w)"
  by (induction rs arbitrary: t) (force simp: put_entry_def split: if_splits)+

lemma LoadFromRecords_ok:
  assumes "gc_ok g"
  obtains g' out where "LoadFromRecords flips g i expiry so en records = Some (g', out)" "gc_ok g'"
    "\<forall>k. k \<noteq> (i, expiry) \<longrightarrow> cached g' k = cached g k"
    "\<forall>w e. cached g' (i, expiry) w = Some e \<longrightarrow> (\<exists>r\<in>set records. entry_of r = e \<and> ROwnerID r = w)"
    "gc_order g' = (gc_order g)((i, expiry) \<mapsto> so = SortOrderAscending)"
    "\<not> en \<longrightarrow> cached g' (i, expiry) = Map.empty"
proof -
  obtain g1 rc where c: "getOrCreate g i expiry so en = (g1, rc)" by fastforce
  note ok = getOrCreate_ok [OF assms c] and ord = getOrCreate_order [OF c]
  let ?new = "newSkipListRankCache (so = SortOrderAscending) en"
  obtain sl where l: "load_entries flips 0 records ?new = Some sl" "sl_ok sl" "enabled sl = en"
    "sortAsc sl = (so = SortOrderAscending)"
    "\<And>w e. sl_table sl w = Some e \<Longrightarrow> \<exists>r\<in>set records. entry_of r = e \<and> ROwnerID r = w"
    "\<not> en \<Longrightarrow> sl_table sl = Map.empty"
  proof (cases en)
    case True
    have "sl_ok ?new" "enabled ?new" using new_ok True by (simp_all add: newSkipListRankCache_def)
    then obtain s' where "load_entries flips 0 records ?new = Some s'" "sl_ok s'" "enabled s'"
      "sortAsc s' = sortAsc ?new" "sl_table s' = fold put_entry records (sl_table ?new)"
      by (rule load_entries_ok)
    moreover have "sortAsc ?new = (so = SortOrderAscending)" by (simp add: newSkipListRankCache_def)
    ultimately show thesis
      using that [of s'] True fold_entries [of records "sl_table ?new"] by (auto simp: new_table)
  next
    case False
    have "load_entries flips 0 records ?new = Some ?new"
      using False by (intro load_disabled) (simp add: newSkipListRankCache_def)
    then show thesis
      using that [of ?new] False new_ok by (simp add: new_table) (simp add: newSkipListRankCache_def)
  qed
  define g' where "g' = fmupd (i, expiry) (rc\<lparr>rcSl := sl, rcEnabled := en\<rparr>) g1"
  have "gc_ok g'" using ok(1) l(2,3) unfolding g'_def by (intro gc_ok_upd) simp_all
  moreover have "cached g' k = cached g k" if "k \<noteq> (i, expiry)" for k
    using that by (simp add: g'_def cached_upd ok(4))
  moreover have cur: "cached g' (i, expiry) = sl_table sl" by (simp add: g'_def cached_upd)
  moreover have "gc_order g' = (gc_order g)((i, expiry) \<mapsto> so = SortOrderAscending)"
    using ord l(4) by (simp add: g'_def gc_order_upd)
  moreover obtain out where "LoadFromRecords flips g i expiry so en records = Some (g', out)"
    using l(1) c by (simp add: LoadFromRecords_def g'_def)
  ultimately show thesis by (intro that [of g' out]) (use l(5,6) in \<open>simp_all\<close>)
qed

end
