(* ===== verification/Deadlines.thy ===== *)
theory Deadlines
  imports Cron_Props
begin

section \<open>Occurrences of leaderboards and tournaments\<close>

text \<open>
  \<open>internal/leaderboard/deadlines.go\<close>: which occurrence of a leaderboard or tournament an instant
  belongs to.  Instants are whole seconds since the epoch, as in the cron component; what the
  source computes from a \<open>time.Time\<close> is its \<open>Unix\<close> value.  An expression of the source may be nil,
  which is \<open>None\<close>.  Indexing the result of \<open>NextN\<close> panics when fewer instants are left.
\<close>

record board =
  BID :: string
  Authoritative :: bool
  SortOrder :: int
  Operator :: int
  ResetSchedule :: string
  BMetadata :: string
  BCreateTime :: int
  Category :: int
  Description :: string
  Duration :: int
  EndTime :: instant
  JoinRequired :: bool
  MaxSize :: int
  MaxNumScore :: int
  Title :: string
  Size :: int
  StartTime :: instant
  EnableRanks :: bool

definition ParseResetSchedule :: "string \<Rightarrow> cron_error + expression option" where
  "ParseResetSchedule s =
     (if s = [] then Inr None
      else (case Parse s of Inl err \<Rightarrow> Inl err | Inr e \<Rightarrow> Inr (Some e)))"

definition MustParseResetSchedule :: "string \<Rightarrow> expression option" where
  "MustParseResetSchedule s = (case ParseResetSchedule s of Inl _ \<Rightarrow> None | Inr e \<Rightarrow> e)"

definition IsTournament :: "board \<Rightarrow> bool" where
  "IsTournament lb \<longleftrightarrow> Duration lb > 0"

text \<open>The start of the occurrence before the checks against the start and the end time.\<close>

definition occurrence_start :: "expression \<Rightarrow> instant \<Rightarrow> instant \<Rightarrow> instant cron_result" where
  "occurrence_start e startTime t =
     (if t < startTime then Next e startTime
      else and_then (Next e (t - 1)) (\<lambda>n. if n = t then returns t else Last e t))"

definition index_at :: "instant list \<Rightarrow> nat \<Rightarrow> instant cron_result" where
  "index_at ts i = (if i < length ts then returns (ts ! i) else panics)"

definition CalculateTournamentDeadlines ::
  "instant \<Rightarrow> instant \<Rightarrow> int \<Rightarrow> expression option \<Rightarrow> instant \<Rightarrow>
     (instant \<times> instant \<times> instant) cron_result" where
  "CalculateTournamentDeadlines startTime endTime dur sched t =
     (case sched of
        None \<Rightarrow>
          (let ea = startTime + dur in
           returns (startTime, if endTime > 0 \<and> ea > endTime then endTime else ea, endTime))
      | Some e \<Rightarrow>
          and_then (occurrence_start e startTime t) (\<lambda>sa.
          and_then (Next e sa) (\<lambda>ex.
          let ea = min (sa + dur) ex in
          and_then
            (if startTime > ea then
               and_then (NextN e startTime 2) (\<lambda>ts.
               and_then (index_at ts 0) (\<lambda>sa'.
               and_then (index_at ts 1) (\<lambda>ex'. returns (sa', min (sa' + dur) ex', ex'))))
             else returns (max startTime sa, ea, ex))
            (\<lambda>(sa, ea, ex).
               if endTime > 0 \<and> ex > endTime then returns (sa, min ea endTime, endTime)
               else returns (sa, ea, ex)))))"

definition CalculatePrevReset :: "instant \<Rightarrow> instant \<Rightarrow> expression option \<Rightarrow> instant cron_result" where
  "CalculatePrevReset now startTime sched =
     (case sched of None \<Rightarrow> returns 0
      | Some e \<Rightarrow> if startTime > now then returns 0 else Last e now)"

definition end_unix :: "board \<Rightarrow> instant" where
  "end_unix lb = (if EndTime lb \<noteq> zero_time \<and> EndTime lb > 0 then EndTime lb else 0)"

text \<open>\<open>None\<close> stands for the result \<open>(0, false)\<close>: no records are possible any more.\<close>

definition CalculateExpiry :: "board \<Rightarrow> instant \<Rightarrow> instant \<Rightarrow> instant option cron_result" where
  "CalculateExpiry lb override now =
     (if override \<noteq> 0 then returns (Some override)
      else let sched = MustParseResetSchedule (ResetSchedule lb) in
        if IsTournament lb then
          and_then (CalculateTournamentDeadlines (StartTime lb) (end_unix lb) (Duration lb) sched now)
            (\<lambda>(_, _, ex). if ex \<noteq> 0 \<and> ex \<le> now then returns None else returns (Some ex))
        else (case sched of
            None \<Rightarrow> returns (Some 0)
          | Some e \<Rightarrow> and_then (Next e now) (\<lambda>ex. returns (Some ex))))"

definition ActiveDeadlines :: "board \<Rightarrow> instant \<Rightarrow> (instant \<times> instant \<times> instant) cron_result" where
  "ActiveDeadlines lb now =
     (let sched = MustParseResetSchedule (ResetSchedule lb) in
      if IsTournament lb then
        CalculateTournamentDeadlines (StartTime lb) (end_unix lb) (Duration lb) sched now
      else (case sched of
          None \<Rightarrow> returns (StartTime lb, 0, 0)
        | Some e \<Rightarrow>
            and_then (Next e now) (\<lambda>next.
            and_then (CalculatePrevReset now (StartTime lb) sched) (\<lambda>prev. returns (prev, next, next)))))"

subsection \<open>Occurrences of a schedule\<close>

text \<open>\<open>current_period e p t x\<close>: the period of the schedule around \<open>t\<close> starts at \<open>p\<close> and ends at \<open>x\<close>.\<close>

definition current_period :: "expression \<Rightarrow> instant \<Rightarrow> instant \<Rightarrow> instant \<Rightarrow> bool" where
  "current_period e p t x \<longleftrightarrow>
     p \<le> t \<and> t < x \<and> matches e p \<and> matches e x \<and> (\<forall>u. p < u \<and> u < x \<longrightarrow> \<not> matches e u)"

lemma and_then_returns [simp]: "and_then (returns x) f = f x"
  by (simp add: and_then_def)

lemma and_then_panics [simp]: "and_then panics f = panics"
  by (simp add: and_then_def)

lemma not_zero_if_match: "wf_expression e \<Longrightarrow> matches e x \<Longrightarrow> x \<noteq> zero_time"
  using no_match_zero by blast

lemma Next_is:
  assumes "wf_expression e" "t \<noteq> zero_time" "t < x" "matches e x" "\<And>u. t < u \<Longrightarrow> u < x \<Longrightarrow> \<not> matches e u"
  shows "Next e t = returns x"
proof -
  obtain r where r: "Next e t = returns r" "least_match e ((<) t) r"
    using Next_least [OF assms(1,2)] by blast
  then have "t < r \<and> matches e r \<and> (\<forall>u. t < u \<and> matches e u \<longrightarrow> r \<le> u)"
    using assms(3,4) by (auto simp: least_match_def)
  with assms(3-5) have "r = x" by (meson linorder_less_linear not_le)
  with r(1) show ?thesis by simp
qed

lemma Last_is:
  assumes "wf_expression e" "t \<noteq> zero_time" "second_reached e t" "p < t" "matches e p"
    "\<And>u. p < u \<Longrightarrow> u < t \<Longrightarrow> \<not> matches e u"
  shows "Last e t = returns p"
proof -
  obtain r where r: "Last e t = returns r" "greatest_match e (\<lambda>u. u < t) r"
    using Last_finds [OF assms(1-3)] by (auto simp: finds_last_def greatest_match_def earlier_all)
  then have "r < t \<and> matches e r \<and> (\<forall>u. u < t \<and> matches e u \<longrightarrow> u \<le> r)"
    using assms(4,5) by (auto simp: greatest_match_def)
  with assms(4-6) have "r = p" by (meson linorder_less_linear not_le)
  with r(1) show ?thesis by simp
qed

definition cut_end :: "instant \<Rightarrow> instant \<times> instant \<times> instant \<Rightarrow> instant \<times> instant \<times> instant" where
  "cut_end endTime d =
     (case d of (sa, ea, ex) \<Rightarrow>
        if endTime > 0 \<and> ex > endTime then (sa, min ea endTime, endTime) else (sa, ea, ex))"

lemma current_periodD:
  "current_period e p t x \<Longrightarrow> p \<le> t" "current_period e p t x \<Longrightarrow> t < x"
  "current_period e p t x \<Longrightarrow> matches e p" "current_period e p t x \<Longrightarrow> matches e x"
  "current_period e p t x \<Longrightarrow> p < u \<Longrightarrow> u < x \<Longrightarrow> \<not> matches e u"
  by (auto simp: current_period_def)

lemma not_zero: "zero_time < t \<Longrightarrow> t \<noteq> zero_time"
  by simp

lemma occurrence_start_current:
  assumes wf: "wf_expression e" and c: "current_period e p t x" and s: "startTime \<le> t" "0 \<le> t"
    "second_reached e t"
  shows "occurrence_start e startTime t = returns p"
proof -
  have z: "t - 1 \<noteq> zero_time" "t \<noteq> zero_time" using s(2) by (auto simp: zero_time_def)
  show ?thesis
  proof (cases "p = t")
    case True
    then have "Next e (t - 1) = returns t"
      using c by (intro Next_is [OF wf z(1)]) (auto simp: current_period_def)
    with True s(1) show ?thesis by (simp add: occurrence_start_def)
  next
    case False
    then have p: "p < t" using current_periodD(1) [OF c] by simp
    have "\<not> matches e u" if "t - 1 < u" "u < x" for u
      using current_periodD(5) [OF c, of u] that p by simp
    then have "Next e (t - 1) = returns x"
      using current_periodD(2,4) [OF c] by (intro Next_is [OF wf z(1)]) auto
    moreover have "Last e t = returns p"
      using c p by (intro Last_is [OF wf z(2) s(3) p]) (auto simp: current_period_def)
    ultimately show ?thesis
      using s(1) current_periodD(2) [OF c] by (simp add: occurrence_start_def)
  qed
qed

lemma Next_current:
  assumes "wf_expression e" "current_period e p t x"
  shows "Next e p = returns x"
  using assms not_zero_if_match [OF assms(1), of p]
  by (intro Next_is) (auto simp: current_period_def)

lemma NextN_two:
  assumes wf: "wf_expression e" and t: "t \<noteq> zero_time" and n: "Next e t = returns x" "matches e x"
  shows "current_period e x x y \<Longrightarrow> NextN e t 2 = returns [x, y]"
    and "(\<And>u. x < u \<Longrightarrow> \<not> matches e u) \<Longrightarrow> NextN e t 2 = returns [x]"
proof -
  have x: "least_match e ((<) t) x" using Next_least [OF wf t] n(1) by auto
  have z: "x \<noteq> zero_time" using not_zero_if_match [OF wf n(2)] .
  obtain ts where ts: "NextN e t 2 = returns ts" "upcoming e t 2 ts"
    using nextN_loop_upcoming [OF wf x, of 2] n(1) by (auto simp: NextN_def)
  have lt: "t < x" and least: "\<And>u. t < u \<Longrightarrow> matches e u \<Longrightarrow> x \<le> u"
    using x z by (auto simp: least_match_def)
  obtain ts' where ts': "ts = x # ts'" 
  proof (cases ts)
    case Nil
    then show ?thesis using ts(2) lt n(2) by (auto simp: upcoming_def)
  next
    case (Cons a r)
    have "x \<in> set ts \<or> (\<forall>u\<in>set ts. u < x)" using ts(2) lt n(2) by (auto simp: upcoming_def)
    moreover have "t < a \<and> matches e a" "sorted_wrt (<) (a # r)" using ts(2) Cons by (auto simp: upcoming_def)
    ultimately have "a = x" using least [of a] Cons by auto
    with Cons that show ?thesis by simp
  qed
  { assume c: "current_period e x x y"
    have y: "x < y" "matches e y" "\<And>u. x < u \<Longrightarrow> u < y \<Longrightarrow> \<not> matches e u" using c by (auto simp: current_period_def)
    have "y \<in> set ts \<or> length ts = 2 \<and> (\<forall>u\<in>set ts. u < y)" using ts(2) lt y by (auto simp: upcoming_def)
    then have "y \<in> set ts" using ts(2) y(3) ts' by (cases ts') (auto simp: upcoming_def)
    moreover have "length ts' \<le> 1" using ts(2) ts' by (simp add: upcoming_def)
    ultimately have "ts' = [y]" using ts' y(1) by (cases ts') auto
    with ts(1) ts' show "NextN e t 2 = returns [x, y]" by simp }
  { assume none: "\<And>u. x < u \<Longrightarrow> \<not> matches e u"
    have "\<forall>u\<in>set ts'. x < u \<and> matches e u" using ts(2) ts' by (auto simp: upcoming_def)
    with none have "ts' = []" by (cases ts') auto
    with ts(1) ts' show "NextN e t 2 = returns [x]" by simp }
qed

text \<open>From the start time on: the current period, cut at the start and the end time; the next one when the
  start time lies after the active part of the current one.\<close>

lemma deadlines_current:
  fixes endTime dur :: int
  assumes wf: "wf_expression e" and c: "current_period e p t x"
    and s: "0 \<le> startTime" "startTime \<le> t" "second_reached e t"
  defines "d \<equiv> CalculateTournamentDeadlines startTime endTime dur (Some e) t"
  shows "startTime \<le> min (p + dur) x \<Longrightarrow>
      d = returns (cut_end endTime (max startTime p, min (p + dur) x, x))"
    and "min (p + dur) x < startTime \<Longrightarrow> p < startTime \<Longrightarrow> current_period e x x y \<Longrightarrow>
      d = returns (cut_end endTime (x, min (x + dur) y, y))"
    and "min (p + dur) x < startTime \<Longrightarrow> p < startTime \<Longrightarrow> (\<And>u. x < u \<Longrightarrow> \<not> matches e u) \<Longrightarrow> d = panics"
proof -
  have o: "occurrence_start e startTime t = returns p"
    using occurrence_start_current [OF wf c s(2) _ s(3)] s by simp
  note n = Next_current [OF wf c]
  have st: "Next e startTime = returns x" "startTime \<noteq> zero_time" if "p < startTime"
  proof -
    show z: "startTime \<noteq> zero_time" using s(1) by (auto simp: zero_time_def)
    show "Next e startTime = returns x"
      using that s(2) c by (intro Next_is [OF wf z]) (auto simp: current_period_def)
  qed
  show "d = returns (cut_end endTime (max startTime p, min (p + dur) x, x))"
    if "startTime \<le> min (p + dur) x"
  proof -
    have "\<not> min (p + dur) x < startTime" using that by (simp only: not_less)
    then show ?thesis
      unfolding d_def CalculateTournamentDeadlines_def option.case o n and_then_returns Let_def
      by (simp only: if_False and_then_returns cut_end_def split: prod.split) simp
  qed
  show "d = returns (cut_end endTime (x, min (x + dur) y, y))"
    if "min (p + dur) x < startTime" "p < startTime" "current_period e x x y"
    using that(1) NextN_two(1) [OF wf st(2,1) current_periodD(4) [OF c] that(3)] that(2)
    by (simp add: Let_def d_def CalculateTournamentDeadlines_def o n cut_end_def index_at_def)
  show "d = panics" if "min (p + dur) x < startTime" "p < startTime" "\<And>u. x < u \<Longrightarrow> \<not> matches e u"
    using that(1) NextN_two(2) [OF wf st(2,1) current_periodD(4) [OF c] that(3)] that(2)
    by (simp add: Let_def d_def CalculateTournamentDeadlines_def o n index_at_def)
qed

lemma least_match_unique:
  assumes "least_match e P r" "least_match e P s"
  shows "r = s"
proof (cases "\<exists>u. P u \<and> matches e u")
  case True
  with assms have "r \<le> s" "s \<le> r" by (auto simp: least_match_def)
  then show ?thesis by (rule antisym)
next
  case False
  with assms show ?thesis by (auto simp: least_match_def)
qed

lemma Schedule_parsed:
  "s \<noteq> [] \<Longrightarrow> Parse s = Inr e \<Longrightarrow> MustParseResetSchedule s = Some e"
  by (simp add: MustParseResetSchedule_def ParseResetSchedule_def)

subsection \<open>Properties\<close>

text \<open>C25: Take a schedule that parses, with no empty field and no month 0, a start time that is not negative, a
  duration that is not negative, and an instant \<open>t\<close> from the start time on, in a period of the schedule from \<open>p\<close> to \<open>x\<close>.
  Let the seconds of the schedule be such that \<open>Last\<close> finds the match before \<open>t\<close> (\<open>second_reached\<close>: the second
  before that of \<open>t\<close> is one of them, or none of them is smaller than that of \<open>t\<close>, or all are; always so with a single second, as
  without a seconds field).  Then the active part starts at the later of \<open>p\<close> and the start time and lasts at most the
  duration, the expiry is \<open>x\<close>, and both ends are cut at the end time.  When the start time lies behind the active
  part of that period, the following period counts; if the schedule has no later match, the lookup panics.\<close>

theorem deadlines_of_period:
  assumes "Parse s = Inr e" and "complete e" and "current_period e p t x" and "0 \<le> startTime"
    and "startTime \<le> t" and "second_reached e t" and "0 \<le> dur"
    and "d = CalculateTournamentDeadlines startTime endTime dur (Some e) t"
  shows "(startTime \<le> min (p + dur) x \<longrightarrow>
       d = returns (cut_end endTime (max startTime p, min (p + dur) x, x))) \<and>
     (min (p + dur) x < startTime \<longrightarrow>
       (\<forall>y. current_period e x x y \<longrightarrow> d = returns (cut_end endTime (x, min (x + dur) y, y))) \<and>
       ((\<nexists>u. x < u \<and> matches e u) \<longrightarrow> d = panics))"
proof -
  note D = deadlines_current [OF Parse_wf [OF assms(1,2)] assms(3-6), where dur = dur and endTime = endTime]
  have "min (p + dur) x < startTime \<Longrightarrow> p < startTime"
    using assms(5,7) current_periodD(2) [OF assms(3)] by auto
  with D show ?thesis unfolding assms(8) by blast
qed

definition daily :: string where
  "daily = ''0 0 * * *''"

lemma daily_parsed: "parsed_with daily (\<lambda>e. complete e \<and> second_reached e 1700000000 \<and>
    matches e 1699920000 \<and> matches e 1700006400 \<and> Next e 1699920000 = returns 1700006400)"
  by code_simp

lemma daily_period:
  assumes "Parse daily = Inr e" "complete e \<and> second_reached e 1700000000 \<and>
    matches e 1699920000 \<and> matches e 1700006400 \<and> Next e 1699920000 = returns 1700006400"
  shows "current_period e 1699920000 1700000000 1700006400"
proof -
  have z: "(1699920000::int) \<noteq> zero_time" by (simp add: zero_time_def)
  obtain r where r: "Next e 1699920000 = returns r" "least_match e ((<) 1699920000) r"
    using Next_least [OF Parse_wf [OF assms(1)] z] assms(2) by blast
  then have "r = 1700006400" using assms(2) by simp
  with r(2) have "\<not> matches e u" if "1699920000 < u" "u < 1700006400" for u
    using that by (auto simp: least_match_def zero_time_def)
  then show ?thesis using assms(2) by (simp add: current_period_def)
qed

theorem deadlines_of_period_witness:
  "\<exists>e. Parse daily = Inr e \<and>
     CalculateTournamentDeadlines 1699000000 0 3600 (Some e) 1700000000 =
       returns (1699920000, 1699923600, 1700006400)"
proof (rule parsed_withE [OF daily_parsed])
  fix e
  assume e: "Parse daily = Inr e" "complete e \<and> second_reached e 1700000000 \<and>
    matches e 1699920000 \<and> matches e 1700006400 \<and> Next e 1699920000 = returns 1700006400"
  note c = daily_period [OF e]
  from deadlines_of_period [OF e(1) _ c, of 1699000000 3600 _ 0] e(2)
  have "CalculateTournamentDeadlines 1699000000 0 3600 (Some e) 1700000000 =
      returns (1699920000, 1699923600, 1700006400)"
    by (simp add: cut_end_def)
  with e(1) show ?thesis by blast
qed


definition daily_board :: board where
  "daily_board = \<lparr>BID = ''daily'', Authoritative = False, SortOrder = 1, Operator = 0, ResetSchedule = daily,
     BMetadata = ''{}'', BCreateTime = 0, Category = 0, Description = [], Duration = 0, EndTime = 0,
     JoinRequired = False, MaxSize = 100, MaxNumScore = 10, Title = [], Size = 0,
     StartTime = 1699000000, EnableRanks = True\<rparr>"


text \<open>A tournament whose start time is on its schedule is announced one period late until it has started:
  before the start time the first match after it counts.\<close>

lemma start_on_schedule_skipped:
  "\<exists>e. Parse daily = Inr e \<and>
     CalculateTournamentDeadlines 1700006400 0 3600 (Some e) 1700006399 =
       returns (1700092800, 1700096400, 1700179200) \<and>
     CalculateTournamentDeadlines 1700006400 0 3600 (Some e) 1700006400 =
       returns (1700006400, 1700010000, 1700092800)"
proof -
  have "parsed_with daily (\<lambda>e.
     CalculateTournamentDeadlines 1700006400 0 3600 (Some e) 1700006399 =
       returns (1700092800, 1700096400, 1700179200) \<and>
     CalculateTournamentDeadlines 1700006400 0 3600 (Some e) 1700006400 =
       returns (1700006400, 1700010000, 1700092800))"
    by code_simp
  then show ?thesis by (rule parsed_withE) blast
qed

text \<open>A schedule with a year field has a last match; a tournament whose schedule has only one match
  after its start time panics as soon as that match has passed.\<close>

lemma exhausted_schedule_panics:
  "\<exists>e. Parse ''0 0 0 1 1 * 2024'' = Inr e \<and>
     CalculateTournamentDeadlines 1700000000 0 3600 (Some e) 1704067200 = panics"
proof -
  have "parsed_with ''0 0 0 1 1 * 2024'' (\<lambda>e.
     CalculateTournamentDeadlines 1700000000 0 3600 (Some e) 1704067200 = panics)"
    by code_simp
  then show ?thesis by (rule parsed_withE) blast
qed

end
