(* ===== verification/Leaderboard.thy ===== *)
theory Leaderboard
  imports Rank_Index Deadlines
begin

section \<open>Leaderboards\<close>

text \<open>
  \<open>internal/leaderboard/leaderboard.go\<close>, \<open>cache.go\<close>, \<open>admin.go\<close> and \<open>archive.go\<close>: the tables of
  boards, records, audit entries, archived records and season statistics, the configuration cache, the
  rank cache, the cache of sorted record lists, and the operations on them.

  Records are keyed by board, expiry and owner, which the table declares unique; its checks on the
  columns (non-negative scores, positive limits) make a statement fail with \<open>LbErrDatabase\<close>.  The
  environment holds what is outside: the canonical form of a UUID as the database reads it, and of a
  JSON text.  Expiries and the times of boards are whole seconds; \<open>now\<close> is the clock of the server
  and \<open>dbnow\<close> that of the database, in nanoseconds.  Results have the three outcomes of the cron
  component, because every lookup of the current expiry goes through it: no return, a panic, or a
  value.  Redis is not configured; what its listener does to the caches is \<open>evict\<close>.
\<close>

datatype lb_error = ErrLeaderboardNotFound | ErrAuthoritative | ErrMaxAttemptsReached
  | ErrInvalidOperator | ErrJoinRequired | ErrInvalidLeaderboardID | ErrMetadataTooLarge
  | ErrRateLimited | ErrInvalidCursor | ErrNoRecordsPossible | ErrNegativeScore
  | ErrInvalidSchedule | ErrInvalidRank | ErrRankNotFound int | LbErrDatabase

definition OperatorBest :: int where "OperatorBest = 0"
definition OperatorSet :: int where "OperatorSet = 1"
definition OperatorIncrement :: int where "OperatorIncrement = 2"
definition OperatorDecrement :: int where "OperatorDecrement = 3"
definition MaxMetadataBytes :: int where "MaxMetadataBytes = 2 * 1024"
definition MaxPageSize :: int where "MaxPageSize = 1000"
definition ScoreSubmissionsPerMin :: int where "ScoreSubmissionsPerMin = 10"
definition OperatorNoOverride :: int where "OperatorNoOverride = - 1"

record lb_audit =
  AuBoard :: string
  AuOwner :: string
  AuOldScore :: "64 word"
  AuNewScore :: "64 word"
  AuOldSubscore :: "64 word"
  AuNewSubscore :: "64 word"
  AuOperator :: int

record season_stat =
  SeasonParticipations :: int
  SeasonBestScore :: "64 word"
  SeasonBestSubscore :: "64 word"
  SeasonRewards :: int
  SeasonUpdateTime :: gotime

type_synonym record_key = "string \<times> int \<times> string"

record lb_state =
  lbBoards :: "(string, board) fmap"
  lbRecords :: "(record_key, lb_record) fmap"
  lbAudit :: "lb_audit list"
  lbArchive :: "(lb_record \<times> string) list"
  lbSeason :: "(string \<times> string \<times> string, season_stat) fmap"
  lbConfig :: "(string, board) fmap"
  lbRank :: global_rank_cache
  lbLocal :: "(string, lb_record list) fmap"
  lbHits :: "(string, gotime list) fmap"
  lbBlacklist :: rank_blacklist

record lb_env =
  le_uuid :: "string \<Rightarrow> string option"
  le_json :: "string \<Rightarrow> string option"

subsection \<open>The score limiter and validation\<close>

definition minute_ns :: gotime where
  "minute_ns = 60 * 10 ^ 9"

definition allow :: "gotime \<Rightarrow> (string, gotime list) fmap \<Rightarrow> string \<Rightarrow> string \<Rightarrow> (string, gotime list) fmap \<times> bool" where
  "allow now hits i owner =
     (let key = i @ '':'' @ owner;
          times = (case fmlookup hits key of None \<Rightarrow> [] | Some ts \<Rightarrow> ts);
          filtered = filter (\<lambda>t. t > now - minute_ns) times in
      if int (length filtered) \<ge> ScoreSubmissionsPerMin then (fmupd key filtered hits, False)
      else (fmupd key (filtered @ [now]) hits, True))"

definition id_char :: "char \<Rightarrow> bool" where
  "id_char c \<longleftrightarrow> (CHR ''a'' \<le> c \<and> c \<le> CHR ''z'') \<or> (CHR ''A'' \<le> c \<and> c \<le> CHR ''Z'') \<or>
     (CHR ''0'' \<le> c \<and> c \<le> CHR ''9'') \<or> c = CHR ''_'' \<or> c = CHR ''-''"

definition leaderboardIDPattern :: "string \<Rightarrow> bool" where
  "leaderboardIDPattern s \<longleftrightarrow> 1 \<le> length s \<and> length s \<le> 128 \<and> list_all id_char s"

definition ValidateLeaderboardID :: "string \<Rightarrow> lb_error + unit" where
  "ValidateLeaderboardID i = (if \<not> leaderboardIDPattern i then Inl ErrInvalidLeaderboardID else Inr ())"

definition ValidateMetadata :: "string \<Rightarrow> lb_error + unit" where
  "ValidateMetadata m = (if int (length m) > MaxMetadataBytes then Inl ErrMetadataTooLarge else Inr ())"

subsection \<open>Keys of the list cache\<close>

fun decimal_nat :: "nat \<Rightarrow> string" where
  "decimal_nat n =
     (if n < 10 then [char_of (48 + n)] else decimal_nat (n div 10) @ [char_of (48 + n mod 10)])"

declare decimal_nat.simps [simp del]

definition decimal :: "int \<Rightarrow> string" where
  "decimal i = (if i < 0 then CHR ''-'' # decimal_nat (nat (- i)) else decimal_nat (nat i))"

definition list_key :: "string \<Rightarrow> int \<Rightarrow> string" where
  "list_key i expiry = i @ '':'' @ decimal expiry"

definition of_board :: "string \<Rightarrow> string \<Rightarrow> bool" where
  "of_board i k \<longleftrightarrow> length k \<ge> length i + 1 \<and> take (length i + 1) k = i @ '':''"

definition publishInvalidation :: "lb_state \<Rightarrow> string \<Rightarrow> int \<Rightarrow> lb_state" where
  "publishInvalidation st i expiry = st\<lparr>lbLocal := fmdrop (list_key i expiry) (lbLocal st)\<rparr>"

definition evict :: "lb_state \<Rightarrow> string \<Rightarrow> int \<Rightarrow> lb_state" where
  "evict st i expiry =
     st\<lparr>lbLocal := fmdrop (list_key i expiry) (lbLocal st), lbRank := EvictPartition (lbRank st) i expiry\<rparr>"

subsection \<open>The configuration cache\<close>

definition cc_Get :: "(string, board) fmap \<Rightarrow> string \<Rightarrow> board option" where
  "cc_Get c i = fmlookup c i"

definition cc_Put :: "board \<Rightarrow> (string, board) fmap \<Rightarrow> (string, board) fmap" where
  "cc_Put lb c = fmupd (BID lb) lb c"

definition cc_Delete :: "string \<Rightarrow> (string, board) fmap \<Rightarrow> (string, board) fmap" where
  "cc_Delete i c = fmdrop i c"

text \<open>The lists visit the map in some order of its keys.\<close>

definition cc_ListAll :: "(string fset \<Rightarrow> string list) \<Rightarrow> (string, board) fmap \<Rightarrow> board list" where
  "cc_ListAll ord c = List.map_filter (fmlookup c) (ord (fmdom c))"

definition ListLeaderboardsCached :: "(string fset \<Rightarrow> string list) \<Rightarrow> (string, board) fmap \<Rightarrow> board list" where
  "ListLeaderboardsCached ord c = filter (\<lambda>lb. \<not> IsTournament lb) (cc_ListAll ord c)"

definition ListTournamentsCached :: "(string fset \<Rightarrow> string list) \<Rightarrow> (string, board) fmap \<Rightarrow> board list" where
  "ListTournamentsCached ord c = filter IsTournament (cc_ListAll ord c)"

definition cc_LoadAll :: "board list \<Rightarrow> (string, board) fmap" where
  "cc_LoadAll lbs = fold cc_Put lbs fmempty"

subsection \<open>Boards\<close>

definition unix :: "gotime \<Rightarrow> int" where
  "unix t = t div 10 ^ 9"

text \<open>
  What the columns of the table accept, and the row that is stored.  \<open>VARCHAR(n)\<close> counts characters, which in
  UTF-8 are the bytes that do not continue one; \<open>SMALLINT\<close> has 16 bits and \<open>INT\<close> 32.
\<close>

definition varchar :: "nat \<Rightarrow> string \<Rightarrow> bool" where
  "varchar n s \<longleftrightarrow> length (filter (\<lambda>c. \<not> (128 \<le> (of_char c :: nat) \<and> (of_char c :: nat) < 192)) s) \<le> n"

definition smallint :: "int \<Rightarrow> bool" where
  "smallint k \<longleftrightarrow> - (2 ^ 15) \<le> k \<and> k < 2 ^ 15"

definition integer4 :: "int \<Rightarrow> bool" where
  "integer4 k \<longleftrightarrow> - (2 ^ 31) \<le> k \<and> k < 2 ^ 31"

definition board_fits :: "board \<Rightarrow> bool" where
  "board_fits lb \<longleftrightarrow>
     varchar 128 (BID lb) \<and> smallint (SortOrder lb) \<and> smallint (Operator lb) \<and> varchar 64 (ResetSchedule lb) \<and>
     smallint (Category lb) \<and> varchar 255 (Description lb) \<and> integer4 (Duration lb) \<and> integer4 (MaxSize lb) \<and>
     integer4 (MaxNumScore lb) \<and> varchar 255 (Title lb) \<and> integer4 (Size lb)"

definition board_row :: "lb_env \<Rightarrow> board \<Rightarrow> board option" where
  "board_row env lb =
     (case le_json env (BMetadata lb) of
        None \<Rightarrow> None
      | Some m \<Rightarrow>
          if board_fits lb \<and> Category lb \<ge> 0 \<and> Duration lb \<ge> 0 \<and> MaxSize lb > 0 \<and> MaxNumScore lb > 0
          then Some (lb\<lparr>BMetadata := m\<rparr>) else None)"

definition board_defaults :: "gotime \<Rightarrow> board \<Rightarrow> board" where
  "board_defaults now lb =
     lb\<lparr>BCreateTime := if BCreateTime lb = zero_time then unix now else BCreateTime lb,
        StartTime := if StartTime lb = zero_time then unix now else StartTime lb,
        EndTime := if EndTime lb = zero_time then 0 else EndTime lb,
        BMetadata := if BMetadata lb = [] then ''{}'' else BMetadata lb,
        MaxSize := if MaxSize lb = 0 then 100000000 else MaxSize lb,
        MaxNumScore := if MaxNumScore lb = 0 then 1000000 else MaxNumScore lb\<rparr>"

definition CreateLeaderboard :: "lb_env \<Rightarrow> gotime \<Rightarrow> lb_state \<Rightarrow> board \<Rightarrow> lb_state \<times> (lb_error + unit)" where
  "CreateLeaderboard env now st lb =
     (case ValidateLeaderboardID (BID lb) of
        Inl err \<Rightarrow> (st, Inl err)
      | Inr _ \<Rightarrow>
          if ResetSchedule lb \<noteq> [] \<and> \<not> is_ok (ParseResetSchedule (ResetSchedule lb))
          then (st, Inl ErrInvalidSchedule)
          else (case ValidateMetadata (BMetadata lb) of
              Inl err \<Rightarrow> (st, Inl err)
            | Inr _ \<Rightarrow>
                let lb' = board_defaults now lb in
                (case board_row env lb' of
                   None \<Rightarrow> (st, Inl LbErrDatabase)
                 | Some row \<Rightarrow>
                     if fmlookup (lbBoards st) (BID lb) \<noteq> None then (st, Inl LbErrDatabase)
                     else (st\<lparr>lbBoards := fmupd (BID lb) row (lbBoards st),
                              lbConfig := cc_Put lb' (lbConfig st)\<rparr>, Inr ()))))"

definition GetLeaderboard :: "lb_state \<Rightarrow> string \<Rightarrow> lb_error + board" where
  "GetLeaderboard st i =
     (case fmlookup (lbBoards st) i of None \<Rightarrow> Inl ErrLeaderboardNotFound | Some lb \<Rightarrow> Inr lb)"

definition board_rows :: "lb_state \<Rightarrow> board list" where
  "board_rows st = List.map_filter (fmlookup (lbBoards st)) (sorted_list_of_fset (fmdom (lbBoards st)))"

definition board_limit :: "int \<Rightarrow> nat" where
  "board_limit limit =
     nat (let l = (if limit \<le> 0 then 10 else limit) in if l > MaxPageSize then MaxPageSize else l)"

definition ListLeaderboards :: "lb_state \<Rightarrow> int \<Rightarrow> string \<Rightarrow> board list \<times> string" where
  "ListLeaderboards st limit cursor =
     (let n = board_limit limit;
          rows = filter (\<lambda>lb. Duration lb = 0 \<and> (cursor = [] \<or> cursor < BID lb)) (board_rows st);
          page = take (n + 1) rows in
      if length page > n then (take n page, BID (page ! (n - 1))) else (page, []))"

definition LoadAllLeaderboards :: "lb_state \<Rightarrow> board list" where
  "LoadAllLeaderboards st = board_rows st"

definition ResolveCurrentExpiry ::
  "gotime \<Rightarrow> lb_state \<Rightarrow> string \<Rightarrow> int \<Rightarrow> (lb_error + int \<times> board) cron_result" where
  "ResolveCurrentExpiry now st i override =
     (case GetLeaderboard st i of
        Inl err \<Rightarrow> returns (Inl err)
      | Inr lb \<Rightarrow>
          and_then (CalculateExpiry lb override (unix now)) (\<lambda>ex.
          returns (case ex of None \<Rightarrow> Inl ErrNoRecordsPossible | Some x \<Rightarrow> Inr (x, lb))))"

end
