(* ===== verification/Leaderboard_Records.thy ===== *)
theory Leaderboard_Records
  imports Leaderboard "HOL-Library.Product_Lexorder"
begin

section \<open>Score submission and record lists\<close>

text \<open>
  The operations of \<open>leaderboard.go\<close>, \<open>admin.go\<close> and \<open>archive.go\<close> on the record table.  Each
  database transaction is one atomic step, followed by the updates of the caches.
\<close>

subsection \<open>Submitting a score\<close>

definition apply_operator ::
  "int \<Rightarrow> int \<Rightarrow> 64 word \<times> 64 word \<Rightarrow> 64 word \<Rightarrow> 64 word \<Rightarrow> (64 word \<times> 64 word) option" where
  "apply_operator operator sortOrder old score subscore =
     (let (oldScore, oldSubscore) = old in
      if operator = OperatorBest then
        if sortOrder = SortOrderDescending then
          if sint oldScore > sint score then Some (oldScore, oldSubscore)
          else if oldScore = score \<and> sint oldSubscore > sint subscore then Some (score, oldSubscore)
          else Some (score, subscore)
        else
          if sint oldScore < sint score then Some (oldScore, oldSubscore)
          else if oldScore = score \<and> sint oldSubscore < sint subscore then Some (score, oldSubscore)
          else Some (score, subscore)
      else if operator = OperatorSet then Some (score, subscore)
      else if operator = OperatorIncrement then Some (oldScore + score, oldSubscore + subscore)
      else if operator = OperatorDecrement then
        (let s = oldScore - score; ss = oldSubscore - subscore in
         Some (if sint s < 0 then 0 else s, if sint ss < 0 then 0 else ss))
      else None)"

definition record_count :: "(record_key, lb_record) fmap \<Rightarrow> string \<Rightarrow> int \<Rightarrow> int" where
  "record_count recs i expiry = int (mlen (fmfilter (\<lambda>(b, x, w). b = i \<and> x = expiry) recs))"

definition nonneg :: "64 word \<Rightarrow> 64 word \<Rightarrow> bool" where
  "nonneg s ss \<longleftrightarrow> 0 \<le> sint s \<and> 0 \<le> sint ss"

definition effective_operator :: "board \<Rightarrow> int \<Rightarrow> int" where
  "effective_operator lb override =
     (if 0 \<le> override \<and> override \<le> OperatorDecrement then override else Operator lb)"

definition new_record ::
  "gotime \<Rightarrow> string \<Rightarrow> board \<Rightarrow> int \<Rightarrow> string \<Rightarrow> string \<Rightarrow> 64 word \<Rightarrow> 64 word \<Rightarrow> string \<Rightarrow> lb_record" where
  "new_record dbnow i lb expiry uid username score subscore m =
     \<lparr>RLeaderboardID = i, ROwnerID = uid, RUsername = username, RScore = score, RSubscore = subscore,
      RNumScore = 1, RMaxNumScore = MaxNumScore lb, RMetadata = m, RCreateTime = dbnow,
      RUpdateTime = dbnow, RExpiryTime = expiry, RRank = 0\<rparr>"

definition updated_record ::
  "gotime \<Rightarrow> lb_record \<Rightarrow> string \<Rightarrow> 64 word \<times> 64 word \<Rightarrow> string \<Rightarrow> lb_record" where
  "updated_record dbnow old username scores m =
     old\<lparr>RScore := fst scores, RSubscore := snd scores, RNumScore := RNumScore old + 1, RMetadata := m,
        RUpdateTime := dbnow, RUsername := username\<rparr>"

text \<open>Store the record, recount the board, write the audit entry.\<close>

definition store_record ::
  "lb_state \<Rightarrow> string \<Rightarrow> board \<Rightarrow> int \<Rightarrow> string \<Rightarrow> int \<Rightarrow> lb_record \<Rightarrow> 64 word \<times> 64 word \<Rightarrow> lb_state" where
  "store_record st i lb expiry uid operator rec old =
     (let recs = fmupd (i, expiry, uid) rec (lbRecords st) in
      st\<lparr>lbRecords := recs,
         lbBoards := fmupd i (lb\<lparr>Size := record_count recs i expiry\<rparr>) (lbBoards st),
         lbAudit := lbAudit st @ [\<lparr>AuBoard = i, AuOwner = uid, AuOldScore = fst old,
           AuNewScore = RScore rec, AuOldSubscore = snd old, AuNewSubscore = RSubscore rec,
           AuOperator = operator\<rparr>]\<rparr>)"

text \<open>The statements of the transaction: the new tables and the record as stored.\<close>

definition write_score ::
  "lb_env \<Rightarrow> gotime \<Rightarrow> lb_state \<Rightarrow> string \<Rightarrow> board \<Rightarrow> int \<Rightarrow> string \<Rightarrow> string \<Rightarrow> 64 word \<Rightarrow> 64 word \<Rightarrow> string
   \<Rightarrow> int \<Rightarrow> lb_error + lb_state \<times> lb_record" where
  "write_score env dbnow st i lb expiry uid username score subscore metadata override =
     (let operator = effective_operator lb override in
      case fmlookup (lbRecords st) (i, expiry, uid) of
        Some old \<Rightarrow>
          if RNumScore old \<ge> MaxNumScore lb then Inl ErrMaxAttemptsReached
          else
            (case apply_operator operator (SortOrder lb) (RScore old, RSubscore old) score subscore of
               None \<Rightarrow> Inl ErrInvalidOperator
             | Some new \<Rightarrow>
                 (case le_json env metadata of
                    None \<Rightarrow> Inl LbErrDatabase
                  | Some m \<Rightarrow>
                      if \<not> (nonneg (fst new) (snd new) \<and> varchar 128 username) then Inl LbErrDatabase
                      else let rec = updated_record dbnow old username new m in
                        Inr (store_record st i lb expiry uid operator rec (RScore old, RSubscore old), rec)))
      | None \<Rightarrow>
          (case le_json env metadata of
             None \<Rightarrow> Inl LbErrDatabase
           | Some m \<Rightarrow>
               if \<not> (nonneg score subscore \<and> varchar 128 username) then Inl LbErrDatabase
               else let rec = new_record dbnow i lb expiry uid username score subscore m in
                 Inr (store_record st i lb expiry uid operator rec (0, 0), rec)))"

text \<open>
  A submission is a transaction followed by the insertion into the rank cache, outside the transaction: other
  requests can come between the two.  The first part returns the state and either an error or the board, its
  current partition, the record as stored and the metadata.
\<close>

definition submit_commit ::
  "lb_env \<Rightarrow> gotime \<Rightarrow> gotime \<Rightarrow> lb_state \<Rightarrow> string \<Rightarrow> string \<Rightarrow> string \<Rightarrow> 64 word \<Rightarrow> 64 word
   \<Rightarrow> string \<Rightarrow> bool \<Rightarrow> int \<Rightarrow> (lb_state \<times> (lb_error + board \<times> int \<times> lb_record \<times> string)) cron_result" where
  "submit_commit env now dbnow st i owner username score subscore metadata byPlayer override =
     (if sint score < 0 \<or> sint subscore < 0 then returns (st, Inl ErrNegativeScore)
      else
        let (hits, allowed) = (if byPlayer then allow now (lbHits st) i owner else (lbHits st, True));
            st1 = st\<lparr>lbHits := hits\<rparr>; md = (if metadata = [] then ''{}'' else metadata) in
        if \<not> allowed then returns (st1, Inl ErrRateLimited)
        else if \<not> is_ok (ValidateMetadata md) then returns (st1, Inl ErrMetadataTooLarge)
        else (case fmlookup (lbBoards st1) i of
            None \<Rightarrow> returns (st1, Inl ErrLeaderboardNotFound)
          | Some lb \<Rightarrow>
              if byPlayer \<and> Authoritative lb then returns (st1, Inl ErrAuthoritative)
              else and_then (CalculateExpiry lb 0 (unix now)) (\<lambda>ex.
                case ex of
                  None \<Rightarrow> returns (st1, Inl ErrNoRecordsPossible)
                | Some expiry \<Rightarrow>
                    (case le_uuid env owner of
                       None \<Rightarrow> returns (st1, Inl LbErrDatabase)
                     | Some uid \<Rightarrow>
                         if JoinRequired lb \<and> fmlookup (lbRecords st1) (i, expiry, uid) = None
                         then returns (st1, Inl ErrJoinRequired)
                         else (case write_score env dbnow st1 i lb expiry uid username score subscore md
                                      override of
                             Inl err \<Rightarrow> returns (st1, Inl err)
                           | Inr (st2, rec) \<Rightarrow> returns (st2, Inr (lb, expiry, rec, md)))))))"

definition submit_rank ::
  "coins \<Rightarrow> gotime \<Rightarrow> lb_state \<Rightarrow> string \<Rightarrow> board \<Rightarrow> int \<Rightarrow> string \<Rightarrow> string \<Rightarrow> lb_record \<Rightarrow> string
   \<Rightarrow> (lb_state \<times> (lb_error + lb_record)) cron_result" where
  "submit_rank coins now st i lb expiry owner username rec md =
     (case gc_Insert coins (lbBlacklist st) (lbRank st) i (SortOrder lb)
             (RScore rec) (RSubscore rec) expiry owner (EnableRanks lb) of
        None \<Rightarrow> None
      | Some (g, rank) \<Rightarrow>
          returns (publishInvalidation (st\<lparr>lbRank := g\<rparr>) i expiry,
            Inr \<lparr>RLeaderboardID = i, ROwnerID = owner, RUsername = username,
              RScore = RScore rec, RSubscore = RSubscore rec, RNumScore = RNumScore rec,
              RMaxNumScore = MaxNumScore lb, RMetadata = md, RCreateTime = now,
              RUpdateTime = now, RExpiryTime = expiry, RRank = rank\<rparr>))"

definition SubmitScore ::
  "lb_env \<Rightarrow> coins \<Rightarrow> gotime \<Rightarrow> gotime \<Rightarrow> lb_state \<Rightarrow> string \<Rightarrow> string \<Rightarrow> string \<Rightarrow> 64 word \<Rightarrow> 64 word
   \<Rightarrow> string \<Rightarrow> bool \<Rightarrow> int \<Rightarrow> (lb_state \<times> (lb_error + lb_record)) cron_result" where
  "SubmitScore env coins now dbnow st i owner username score subscore metadata byPlayer override =
     and_then (submit_commit env now dbnow st i owner username score subscore metadata byPlayer override)
       (\<lambda>(st2, res). case res of
          Inl err \<Rightarrow> returns (st2, Inl err)
        | Inr (lb, expiry, rec, md) \<Rightarrow> submit_rank coins now st2 i lb expiry owner username rec md)"

text \<open>The two parts in one.\<close>

lemma and_then_distrib:
  "and_then (if b then p else q) f = (if b then and_then p f else and_then q f)"
  "and_then (case x of None \<Rightarrow> p | Some y \<Rightarrow> g y) f = (case x of None \<Rightarrow> and_then p f | Some y \<Rightarrow> and_then (g y) f)"
  "and_then (case z of Inl y \<Rightarrow> h y | Inr w \<Rightarrow> k w) f = (case z of Inl y \<Rightarrow> and_then (h y) f | Inr w \<Rightarrow> and_then (k w) f)"
  "and_then (and_then r l) f = and_then r (\<lambda>u. and_then (l u) f)"
  by (simp_all add: and_then_def split: option.split sum.split)

lemma and_then_pair: "and_then (case p of (a, b) \<Rightarrow> g a b) f = (case p of (a, b) \<Rightarrow> and_then (g a b) f)"
  by (simp split: prod.split)

lemma SubmitScore_eq:
  "SubmitScore env coins now dbnow st i owner username score subscore metadata byPlayer override =
     (if sint score < 0 \<or> sint subscore < 0 then returns (st, Inl ErrNegativeScore)
      else
        let (hits, allowed) = (if byPlayer then allow now (lbHits st) i owner else (lbHits st, True));
            st1 = st\<lparr>lbHits := hits\<rparr>; md = (if metadata = [] then ''{}'' else metadata) in
        if \<not> allowed then returns (st1, Inl ErrRateLimited)
        else if \<not> is_ok (ValidateMetadata md) then returns (st1, Inl ErrMetadataTooLarge)
        else (case fmlookup (lbBoards st1) i of
            None \<Rightarrow> returns (st1, Inl ErrLeaderboardNotFound)
          | Some lb \<Rightarrow>
              if byPlayer \<and> Authoritative lb then returns (st1, Inl ErrAuthoritative)
              else and_then (CalculateExpiry lb 0 (unix now)) (\<lambda>ex.
                case ex of
                  None \<Rightarrow> returns (st1, Inl ErrNoRecordsPossible)
                | Some expiry \<Rightarrow>
                    (case le_uuid env owner of
                       None \<Rightarrow> returns (st1, Inl LbErrDatabase)
                     | Some uid \<Rightarrow>
                         if JoinRequired lb \<and> fmlookup (lbRecords st1) (i, expiry, uid) = None
                         then returns (st1, Inl ErrJoinRequired)
                         else (case write_score env dbnow st1 i lb expiry uid username score subscore md
                                      override of
                             Inl err \<Rightarrow> returns (st1, Inl err)
                           | Inr (st2, rec) \<Rightarrow>
                               (case gc_Insert coins (lbBlacklist st2) (lbRank st2) i (SortOrder lb)
                                       (RScore rec) (RSubscore rec) expiry owner (EnableRanks lb) of
                                  None \<Rightarrow> None
                                | Some (g, rank) \<Rightarrow>
                                    returns (publishInvalidation (st2\<lparr>lbRank := g\<rparr>) i expiry,
                                      Inr \<lparr>RLeaderboardID = i, ROwnerID = owner, RUsername = username,
                                        RScore = RScore rec, RSubscore = RSubscore rec, RNumScore = RNumScore rec,
                                        RMaxNumScore = MaxNumScore lb, RMetadata = md, RCreateTime = now,
                                        RUpdateTime = now, RExpiryTime = expiry, RRank = rank\<rparr>)))))))"
  by (simp only: SubmitScore_def submit_commit_def submit_rank_def Let_def and_then_distrib and_then_pair
      and_then_returns prod.case sum.case)

subsection \<open>Reading records\<close>

definition record_rows :: "lb_state \<Rightarrow> string \<Rightarrow> int \<Rightarrow> lb_record list" where
  "record_rows st i expiry =
     List.map_filter (fmlookup (lbRecords st))
       (filter (\<lambda>(b, x, w). b = i \<and> x = expiry) (sorted_list_of_fset (fmdom (lbRecords st))))"

definition score_key :: "lb_record \<Rightarrow> int \<times> int \<times> string" where
  "score_key r = (sint (RScore r), sint (RSubscore r), ROwnerID r)"

definition cursor_key :: "string \<Rightarrow> record_cursor \<Rightarrow> int \<times> int \<times> string" where
  "cursor_key uid c = (sint (CScore c), sint (CSubscore c), uid)"

text \<open>The rows of a page in the order of the query; \<open>None\<close> when the owner of the cursor is not a UUID.\<close>

definition query_rows ::
  "lb_env \<Rightarrow> lb_state \<Rightarrow> string \<Rightarrow> int \<Rightarrow> bool \<Rightarrow> record_cursor option \<Rightarrow> lb_record list option" where
  "query_rows env st i expiry orderAsc incoming =
     (let rows = sort_key score_key (record_rows st i expiry) in
      case incoming of
        None \<Rightarrow> Some (if orderAsc then rows else rev rows)
      | Some c \<Rightarrow>
          (case le_uuid env (COwnerID c) of
             None \<Rightarrow> None
           | Some uid \<Rightarrow>
               Some (if orderAsc \<and> CIsNext c \<or> \<not> orderAsc \<and> \<not> CIsNext c
                     then filter (\<lambda>r. cursor_key uid c < score_key r) rows
                     else rev (filter (\<lambda>r. score_key r < cursor_key uid c) rows))))"

definition record_cursor_of :: "bool \<Rightarrow> string \<Rightarrow> int \<Rightarrow> lb_record \<Rightarrow> record_cursor" where
  "record_cursor_of isNext i expiry r =
     \<lparr>CIsNext = isNext, CLeaderboardID = i, CExpiryUnix = expiry, CScore = RScore r,
      CSubscore = RSubscore r, COwnerID = ROwnerID r, CRank = 0\<rparr>"

definition fallback_ranks :: "record_cursor option \<Rightarrow> lb_record list \<Rightarrow> lb_record list" where
  "fallback_ranks incoming records =
     map (\<lambda>(n, r). if RRank r = 0
         then r\<lparr>RRank := (case incoming of Some c \<Rightarrow> if CIsNext c then CRank c else 0 | None \<Rightarrow> 0) + int n + 1\<rparr>
         else r) (enumerate 0 records)"

definition page_expiry ::
  "gotime \<Rightarrow> lb_state \<Rightarrow> board \<Rightarrow> string \<Rightarrow> int \<Rightarrow> int \<Rightarrow> (lb_error + int) cron_result" where
  "page_expiry now st lb i expiryTime override =
     (if expiryTime = zero_time \<or>
         (expiryTime = 0 \<and> override = 0 \<and> (IsTournament lb \<or> ResetSchedule lb \<noteq> [])) then
        and_then (ResolveCurrentExpiry now st i override)
          (\<lambda>r. returns (case r of Inl err \<Rightarrow> Inl err | Inr (x, _) \<Rightarrow> Inr x))
      else returns (Inr (if override \<noteq> 0 then override else expiryTime)))"

type_synonym record_page = "lb_record list \<times> string \<times> string"

text \<open>The codec of cursors, \<open>genc\<close> and \<open>gdec\<close>, is Go's gob encoding.\<close>

definition GetLeaderboardRecordsPaged ::
  "lb_env \<Rightarrow> (record_cursor \<Rightarrow> nat list) \<Rightarrow> (nat list \<Rightarrow> record_cursor option) \<Rightarrow> gotime \<Rightarrow> lb_state
   \<Rightarrow> string \<Rightarrow> int \<Rightarrow> string \<Rightarrow> int \<Rightarrow> int \<Rightarrow> (lb_error + record_page) cron_result" where
  "GetLeaderboardRecordsPaged env genc gdec now st i limit cursor expiryTime override =
     (let n = board_limit limit in
      case GetLeaderboard st i of
        Inl err \<Rightarrow> returns (Inl err)
      | Inr lb \<Rightarrow>
          and_then (page_expiry now st lb i expiryTime override) (\<lambda>px.
            case px of
              Inl err \<Rightarrow> returns (if err = ErrNoRecordsPossible then Inr ([], [], []) else Inl err)
            | Inr expiry \<Rightarrow>
                (case DecodeCursor gdec cursor of
                   None \<Rightarrow> returns (Inl ErrInvalidCursor)
                 | Some incoming \<Rightarrow>
                     (case query_rows env st i expiry (SortOrder lb = SortOrderAscending) incoming of
                        None \<Rightarrow> returns (Inl LbErrDatabase)
                      | Some rows \<Rightarrow>
                          let got = take (n + 1) rows;
                              back = (case incoming of None \<Rightarrow> False | Some c \<Rightarrow> \<not> CIsNext c);
                              shown = (if back then rev got else got);
                              records = (if length shown > n then take n shown else shown);
                              next = (if length shown > n
                                then EncodeCursor genc (Some (record_cursor_of True i expiry (last records)))
                                else []);
                              prev = (if records \<noteq> [] \<and> incoming \<noteq> None
                                then EncodeCursor genc (Some (record_cursor_of False i expiry (hd records)))
                                else []) in
                          (case FillRanks (lbRank st) i expiry records (EnableRanks lb) of
                             None \<Rightarrow> None
                           | Some filled \<Rightarrow>
                               returns (Inr (if EnableRanks lb then fallback_ranks incoming filled else filled,
                                 next, prev)))))))"

definition GetLeaderboardRecords ::
  "lb_env \<Rightarrow> (record_cursor \<Rightarrow> nat list) \<Rightarrow> (nat list \<Rightarrow> record_cursor option) \<Rightarrow> gotime \<Rightarrow> lb_state
   \<Rightarrow> string \<Rightarrow> int \<Rightarrow> string \<Rightarrow> int \<Rightarrow> (lb_error + lb_record list \<times> string) cron_result" where
  "GetLeaderboardRecords env genc gdec now st i limit cursor expiryTime =
     and_then (GetLeaderboardRecordsPaged env genc gdec now st i limit cursor expiryTime 0)
       (\<lambda>r. returns (case r of Inl err \<Rightarrow> Inl err | Inr (rs, next, _) \<Rightarrow> Inr (rs, next)))"

definition owner_rows :: "lb_env \<Rightarrow> lb_state \<Rightarrow> string \<Rightarrow> int \<Rightarrow> string list \<Rightarrow> lb_record list option" where
  "owner_rows env st i expiry owners =
     (case those (map (le_uuid env) owners) of
        None \<Rightarrow> None
      | Some uids \<Rightarrow> Some (filter (\<lambda>r. ROwnerID r \<in> set uids) (record_rows st i expiry)))"

fun lookup_ranks :: "rank_blacklist \<Rightarrow> global_rank_cache \<Rightarrow> string \<Rightarrow> int \<Rightarrow> lb_record list \<Rightarrow> lb_record list option" where
  "lookup_ranks bl g i expiry [] = Some []"
| "lookup_ranks bl g i expiry (r # rs) =
     (case (if RRank r = 0 then gc_GetRank bl g i expiry (ROwnerID r) else Some (RRank r),
            lookup_ranks bl g i expiry rs) of
        (Some k, Some rs') \<Rightarrow> Some (r\<lparr>RRank := k\<rparr> # rs')
      | _ \<Rightarrow> None)"

definition GetOwnerRecords ::
  "lb_env \<Rightarrow> gotime \<Rightarrow> lb_state \<Rightarrow> string \<Rightarrow> string list \<Rightarrow> int \<Rightarrow> (lb_error + lb_record list) cron_result" where
  "GetOwnerRecords env now st i owners expiryTime =
     (if owners = [] then returns (Inr [])
      else case GetLeaderboard st i of
        Inl err \<Rightarrow> returns (Inl err)
      | Inr lb \<Rightarrow>
          and_then (if expiryTime = zero_time then ResolveCurrentExpiry now st i 0
                    else returns (Inr (expiryTime, lb))) (\<lambda>ex.
            case ex of
              Inl err \<Rightarrow> returns (if err = ErrNoRecordsPossible then Inr [] else Inl err)
            | Inr (expiry, _) \<Rightarrow>
                (case owner_rows env st i expiry owners of
                   None \<Rightarrow> returns (Inl LbErrDatabase)
                 | Some rows \<Rightarrow>
                     (case FillRanks (lbRank st) i expiry rows (EnableRanks lb) of
                        None \<Rightarrow> None
                      | Some filled \<Rightarrow>
                          if EnableRanks lb then
                            (case lookup_ranks (lbBlacklist st) (lbRank st) i expiry filled of
                               None \<Rightarrow> None | Some rs \<Rightarrow> returns (Inr rs))
                          else returns (Inr filled)))))"

end
