(* ===== verification/Leaderboard_Admin.thy ===== *)
theory Leaderboard_Admin
  imports Leaderboard_Records
begin

section \<open>List cache, deletion and administration of leaderboards\<close>

text \<open>
  The cache of sorted record lists and the lookups around a player (\<open>leaderboard.go\<close>, \<open>admin.go\<close>),
  deletion and pruning, and the archive (\<open>archive.go\<close>).  Where a query has no order, or ties, the rows
  come in the order of their keys.
\<close>

subsection \<open>Sorted record lists\<close>

definition record_less :: "int \<Rightarrow> lb_record \<Rightarrow> lb_record \<Rightarrow> bool" where
  "record_less sortOrder r1 r2 =
     (if RScore r1 \<noteq> RScore r2 then
        (if sortOrder = SortOrderDescending then sint (RScore r1) > sint (RScore r2)
         else sint (RScore r1) < sint (RScore r2))
      else if RSubscore r1 \<noteq> RSubscore r2 then
        (if sortOrder = SortOrderDescending then sint (RSubscore r1) > sint (RSubscore r2)
         else sint (RSubscore r1) < sint (RSubscore r2))
      else if RUpdateTime r1 \<noteq> RUpdateTime r2 then RUpdateTime r1 < RUpdateTime r2
      else ROwnerID r1 < ROwnerID r2)"

fun place :: "('a \<Rightarrow> 'a \<Rightarrow> bool) \<Rightarrow> 'a \<Rightarrow> 'a list \<Rightarrow> 'a list" where
  "place lt x [] = [x]"
| "place lt x (y # ys) = (if lt y x then y # place lt x ys else x # y # ys)"

definition sort_slice :: "('a \<Rightarrow> 'a \<Rightarrow> bool) \<Rightarrow> 'a list \<Rightarrow> 'a list" where
  "sort_slice lt xs = foldr (place lt) xs []"

definition sortRecords :: "lb_record list \<Rightarrow> int \<Rightarrow> lb_record list" where
  "sortRecords records sortOrder = sort_slice (record_less sortOrder) records"

definition getOrBuildRankCache ::
  "(nat \<Rightarrow> coins) \<Rightarrow> lb_state \<Rightarrow> string \<Rightarrow> int \<Rightarrow> board \<Rightarrow> (lb_state \<times> lb_record list) option" where
  "getOrBuildRankCache flips st i expiry lb =
     (case fmlookup (lbLocal st) (list_key i expiry) of
        Some records \<Rightarrow> Some (st, records)
      | None \<Rightarrow>
          let sorted = sortRecords (record_rows st i expiry) (SortOrder lb) in
          (case LoadFromRecords flips (lbRank st) i expiry (SortOrder lb) (EnableRanks lb) sorted of
             None \<Rightarrow> None
           | Some (g, loaded) \<Rightarrow>
               let records = (if \<not> EnableRanks lb then map (\<lambda>r. r\<lparr>RRank := 0\<rparr>) loaded
                 else map (\<lambda>(n, r). r\<lparr>RRank := int (n + 1)\<rparr>) (enumerate 0 loaded)) in
               Some (st\<lparr>lbRank := g, lbLocal := fmupd (list_key i expiry) records (lbLocal st)\<rparr>, records)))"

definition window :: "nat \<Rightarrow> int \<Rightarrow> 'a list \<Rightarrow> 'a list" where
  "window idx limit records =
     (let start = max 0 (int idx - limit); stop = min (int idx + limit + 1) (int (length records)) in
      take (nat (stop - start)) (drop (nat start) records))"

definition GetLeaderboardRecordsAroundPlayer ::
  "(nat \<Rightarrow> coins) \<Rightarrow> gotime \<Rightarrow> lb_state \<Rightarrow> string \<Rightarrow> string \<Rightarrow> int \<Rightarrow> int
   \<Rightarrow> (lb_state \<times> (lb_error + lb_record list)) cron_result" where
  "GetLeaderboardRecordsAroundPlayer flips now st i owner limit expiryTime =
     (let n = (if limit \<le> 0 then 5 else limit) in
      case GetLeaderboard st i of
        Inl err \<Rightarrow> returns (st, Inl err)
      | Inr lb \<Rightarrow>
          and_then (page_expiry now st lb i expiryTime 0) (\<lambda>px.
            case px of
              Inl err \<Rightarrow> returns (st, if err = ErrNoRecordsPossible then Inr [] else Inl err)
            | Inr expiry \<Rightarrow>
                (case getOrBuildRankCache flips st i expiry lb of
                   None \<Rightarrow> None
                 | Some (st', records) \<Rightarrow>
                     (case index_of owner (map ROwnerID records) of
                        None \<Rightarrow> returns (st', Inr [])
                      | Some idx \<Rightarrow> returns (st', Inr (window idx n records))))))"

subsection \<open>Deletion\<close>

definition drop_lists :: "string \<Rightarrow> lb_state \<Rightarrow> lb_state" where
  "drop_lists i st = st\<lparr>lbLocal := fmfilter (\<lambda>k. \<not> of_board i k) (lbLocal st)\<rparr>"

definition DeleteLeaderboard :: "lb_state \<Rightarrow> string \<Rightarrow> lb_state" where
  "DeleteLeaderboard st i =
     drop_lists i (st\<lparr>lbRecords := fmfilter (\<lambda>(b, _). b \<noteq> i) (lbRecords st),
       lbBoards := fmdrop i (lbBoards st), lbConfig := cc_Delete i (lbConfig st),
       lbRank := gc_DeleteLeaderboard (lbRank st) i\<rparr>)"

definition DeleteRecord :: "lb_env \<Rightarrow> lb_state \<Rightarrow> string \<Rightarrow> string \<Rightarrow> lb_state \<times> (lb_error + unit)" where
  "DeleteRecord env st i owner =
     (case le_uuid env owner of
        None \<Rightarrow> (st, Inl LbErrDatabase)
      | Some uid \<Rightarrow>
          (drop_lists i (st\<lparr>lbRecords := fmfilter (\<lambda>(b, _, w). \<not> (b = i \<and> w = uid)) (lbRecords st),
             lbRank := gc_DeleteLeaderboard (lbRank st) i\<rparr>), Inr ()))"

definition DeleteRecordForExpiry ::
  "lb_env \<Rightarrow> lb_state \<Rightarrow> string \<Rightarrow> string \<Rightarrow> int \<Rightarrow> (lb_state \<times> (lb_error + unit)) option" where
  "DeleteRecordForExpiry env st i owner expiry =
     (case le_uuid env owner of
        None \<Rightarrow> Some (st, Inl LbErrDatabase)
      | Some uid \<Rightarrow>
          (case gc_Delete (lbRank st) i expiry owner of
             None \<Rightarrow> None
           | Some g \<Rightarrow>
               Some (publishInvalidation
                 (st\<lparr>lbRecords := fmdrop (i, expiry, uid) (lbRecords st), lbRank := g\<rparr>) i expiry, Inr ())))"

definition PruneExpiredRecords :: "gotime \<Rightarrow> lb_state \<Rightarrow> lb_state \<times> int" where
  "PruneExpiredRecords now st =
     (let keep = fmfilter (\<lambda>(b, x, w). \<not> (x > 0 \<and> x * 10 ^ 9 < now)) (lbRecords st) in
      (st\<lparr>lbRecords := keep, lbRank := TrimExpired (lbRank st) (unix now)\<rparr>,
       int (mlen (lbRecords st)) - int (mlen keep)))"

definition owner_keys :: "lb_state \<Rightarrow> string \<Rightarrow> record_key list" where
  "owner_keys st uid = filter (\<lambda>(b, x, w). w = uid) (sorted_list_of_fset (fmdom (lbRecords st)))"

fun drop_ranks :: "int \<Rightarrow> string \<Rightarrow> record_key list \<Rightarrow> global_rank_cache \<Rightarrow> global_rank_cache option" where
  "drop_ranks nowUnix owner [] g = Some g"
| "drop_ranks nowUnix owner ((i, expiry, w) # ks) g =
     (if expiry > 0 \<and> expiry \<le> nowUnix then drop_ranks nowUnix owner ks g
      else (case gc_Delete g i expiry owner of
          None \<Rightarrow> None
        | Some g' \<Rightarrow> drop_ranks nowUnix owner ks g'))"

definition RecordsDeleteAll ::
  "lb_env \<Rightarrow> gotime \<Rightarrow> lb_state \<Rightarrow> string \<Rightarrow> (lb_state \<times> (lb_error + unit)) option" where
  "RecordsDeleteAll env now st owner =
     (case le_uuid env owner of
        None \<Rightarrow> Some (st, Inl LbErrDatabase)
      | Some uid \<Rightarrow>
          (case drop_ranks (unix now) owner (owner_keys st uid) (lbRank st) of
             None \<Rightarrow> None
           | Some g \<Rightarrow>
               Some (st\<lparr>lbRecords := fmfilter (\<lambda>(_, _, w). w \<noteq> uid) (lbRecords st), lbRank := g\<rparr>,
                 Inr ())))"

definition RecordsReadAll :: "lb_env \<Rightarrow> lb_state \<Rightarrow> string \<Rightarrow> lb_error + lb_record list" where
  "RecordsReadAll env st owner =
     (case le_uuid env owner of
        None \<Rightarrow> Inl LbErrDatabase
      | Some uid \<Rightarrow> Inr (List.map_filter (fmlookup (lbRecords st)) (owner_keys st uid)))"

subsection \<open>Administration\<close>

fun LeaderboardsGetId :: "lb_state \<Rightarrow> string list \<Rightarrow> lb_state \<times> board list" where
  "LeaderboardsGetId st [] = (st, [])"
| "LeaderboardsGetId st (i # is) =
     (case cc_Get (lbConfig st) i of
        Some lb \<Rightarrow>
          (let (st', out) = LeaderboardsGetId st is in (st', if IsTournament lb then out else lb # out))
      | None \<Rightarrow>
          (case GetLeaderboard st i of
             Inl _ \<Rightarrow> LeaderboardsGetId st is
           | Inr lb \<Rightarrow>
               (let (st', out) = LeaderboardsGetId (st\<lparr>lbConfig := cc_Put lb (lbConfig st)\<rparr>) is in
                (st', if IsTournament lb then out else lb # out))))"

fun TournamentsGetId :: "lb_state \<Rightarrow> string list \<Rightarrow> board list" where
  "TournamentsGetId st [] = []"
| "TournamentsGetId st (i # is) =
     (case GetLeaderboard st i of
        Inl _ \<Rightarrow> TournamentsGetId st is
      | Inr lb \<Rightarrow> if IsTournament lb then lb # TournamentsGetId st is else TournamentsGetId st is)"

definition DisableRanks :: "lb_state \<Rightarrow> string \<Rightarrow> bool \<Rightarrow> lb_state \<times> (lb_error + unit)" where
  "DisableRanks st i tournament =
     (case GetLeaderboard st i of
        Inl err \<Rightarrow> (st, Inl err)
      | Inr lb \<Rightarrow>
          if tournament \<and> \<not> IsTournament lb \<or> \<not> tournament \<and> IsTournament lb
          then (st, Inl ErrLeaderboardNotFound)
          else
            let lb' = lb\<lparr>EnableRanks := False\<rparr> in
            (st\<lparr>lbBoards := fmupd i lb' (lbBoards st), lbConfig := cc_Put lb' (lbConfig st),
               lbRank := gc_DeleteLeaderboard (lbRank st) i\<rparr>, Inr ()))"

definition RecordsListCursorFromRank ::
  "(record_cursor \<Rightarrow> nat list) \<Rightarrow> (nat \<Rightarrow> coins) \<Rightarrow> gotime \<Rightarrow> lb_state \<Rightarrow> string \<Rightarrow> int \<Rightarrow> int
   \<Rightarrow> (lb_state \<times> (lb_error + string)) cron_result" where
  "RecordsListCursorFromRank genc flips now st i rank override =
     (if rank < 1 then returns (st, Inl ErrInvalidRank)
      else and_then (ResolveCurrentExpiry now st i override) (\<lambda>ex.
        case ex of
          Inl err \<Rightarrow> returns (st, Inl err)
        | Inr (expiry, lb) \<Rightarrow>
            let k = rank - 1;
                cursor = (\<lambda>e. EncodeCursor genc (Some \<lparr>CIsNext = True, CLeaderboardID = i,
                  CExpiryUnix = expiry, CScore = REScore e, CSubscore = RESubscore e,
                  COwnerID = REOwnerID e, CRank = k\<rparr>)) in
            if k = 0 then returns (st, Inr [])
            else (case gc_GetDataByRank (lbRank st) i expiry k of
                Some e \<Rightarrow> returns (st, Inr (cursor e))
              | None \<Rightarrow>
                  (case getOrBuildRankCache flips st i expiry lb of
                     None \<Rightarrow> None
                   | Some (st', _) \<Rightarrow>
                       (case gc_GetDataByRank (lbRank st') i expiry k of
                          Some e \<Rightarrow> returns (st', Inr (cursor e))
                        | None \<Rightarrow> returns (st', Inl (ErrRankNotFound rank)))))))"

text \<open>The records around an owner: at most \<open>half + 1\<close> on each side, cut to the limit around the owner.\<close>

definition around :: "bool \<Rightarrow> nat \<Rightarrow> int \<times> int \<times> string \<Rightarrow> lb_record list \<Rightarrow> lb_record list \<times> lb_record list" where
  "around orderAsc half k rows =
     (let below = rev (filter (\<lambda>r. score_key r < k) rows); above = filter (\<lambda>r. k < score_key r) rows in
      if orderAsc then (rev (take (half + 1) below), take (half + 1) above)
      else (rev (take (half + 1) above), take (half + 1) below))"

definition centre :: "nat \<Rightarrow> nat \<Rightarrow> nat \<Rightarrow> 'a list \<Rightarrow> 'a list" where
  "centre limit half oi combined =
     (if length combined > limit then
        (let start = oi - half; stop = start + limit in
         if stop > length combined then drop (length combined - limit) combined
         else take limit (drop start combined))
      else combined)"

definition RecordsHaystack ::
  "lb_env \<Rightarrow> (record_cursor \<Rightarrow> nat list) \<Rightarrow> (nat list \<Rightarrow> record_cursor option) \<Rightarrow> gotime \<Rightarrow> lb_state
   \<Rightarrow> string \<Rightarrow> string \<Rightarrow> int \<Rightarrow> string \<Rightarrow> int \<Rightarrow> (lb_error + record_page) cron_result" where
  "RecordsHaystack env genc gdec now st i owner limit cursor override =
     (if cursor \<noteq> [] then
        GetLeaderboardRecordsPaged env genc gdec now st i limit cursor
          (if override \<noteq> 0 then override else zero_time) override
      else
        and_then (ResolveCurrentExpiry now st i override) (\<lambda>ex.
          case ex of
            Inl err \<Rightarrow> returns (if err = ErrNoRecordsPossible then Inr ([], [], []) else Inl err)
          | Inr (expiry, lb) \<Rightarrow>
              (case le_uuid env owner of
                 None \<Rightarrow> returns (Inl LbErrDatabase)
               | Some uid \<Rightarrow>
                   (case fmlookup (lbRecords st) (i, expiry, uid) of
                      None \<Rightarrow> returns (Inr ([], [], []))
                    | Some r \<Rightarrow>
                        let n = board_limit limit; half = max 1 (n div 2);
                            (first, second) = around (SortOrder lb = SortOrderAscending) half
                              (sint (RScore r), sint (RSubscore r), uid)
                              (sort_key score_key (record_rows st i expiry)) in
                        and_then (GetOwnerRecords env now st i [owner] expiry) (\<lambda>own.
                          case own of
                            Inl err \<Rightarrow> returns (Inl err)
                          | Inr owners \<Rightarrow>
                              let shown = centre n half (length first) (first @ take 1 owners @ second);
                                  cursor_of = (\<lambda>nx q. EncodeCursor genc (Some (record_cursor_of nx i expiry q))) in
                              (case FillRanks (lbRank st) i expiry shown (EnableRanks lb) of
                                 None \<Rightarrow> None
                               | Some filled \<Rightarrow>
                                   returns (Inr (filled,
                                     if filled = [] then [] else cursor_of True (last filled),
                                     if filled = [] then [] else cursor_of False (hd filled)))))))))"

subsection \<open>Archive and seasons\<close>

definition ArchiveRecordsForExpiry :: "lb_state \<Rightarrow> string \<Rightarrow> int \<Rightarrow> string \<Rightarrow> lb_state \<times> int" where
  "ArchiveRecordsForExpiry st i expiry seasonKey =
     (let season = (if seasonKey = [] then decimal expiry else seasonKey);
          rows = record_rows st i expiry in
      (st\<lparr>lbArchive := lbArchive st @ map (\<lambda>r. (r, season)) rows\<rparr>, int (length rows)))"

definition roll_season ::
  "gotime \<Rightarrow> string \<Rightarrow> string \<Rightarrow> lb_record \<Rightarrow> (string \<times> string \<times> string, season_stat) fmap
   \<Rightarrow> (string \<times> string \<times> string, season_stat) fmap" where
  "roll_season dbnow i season r stats =
     (let k = (i, season, ROwnerID r) in
      case fmlookup stats k of
        None \<Rightarrow> fmupd k \<lparr>SeasonParticipations = 1, SeasonBestScore = RScore r,
          SeasonBestSubscore = RSubscore r, SeasonRewards = 0, SeasonUpdateTime = dbnow\<rparr> stats
      | Some s \<Rightarrow>
          let better = sint (RScore r) > sint (SeasonBestScore s) in
          fmupd k (s\<lparr>SeasonParticipations := SeasonParticipations s + 1,
            SeasonBestScore := if better then RScore r else SeasonBestScore s,
            SeasonBestSubscore := if better then RSubscore r else SeasonBestSubscore s,
            SeasonUpdateTime := dbnow\<rparr>) stats)"

definition ManualReset ::
  "gotime \<Rightarrow> gotime \<Rightarrow> lb_state \<Rightarrow> string \<Rightarrow> bool \<Rightarrow> (lb_state \<times> (lb_error + int)) cron_result" where
  "ManualReset now dbnow st i archive =
     (case GetLeaderboard st i of
        Inl err \<Rightarrow> returns (st, Inl err)
      | Inr lb \<Rightarrow>
          and_then (CalculateExpiry lb 0 (unix now)) (\<lambda>ex.
            case ex of
              None \<Rightarrow> returns (st, Inl ErrNoRecordsPossible)
            | Some expiry \<Rightarrow>
                let season = decimal expiry;
                    (st1, archived) = (if archive then ArchiveRecordsForExpiry st i expiry season else (st, 0));
                    st2 = (if IsTournament lb then
                        st1\<lparr>lbSeason := fold (roll_season dbnow i season) (record_rows st1 i expiry) (lbSeason st1),
                          lbBoards := fmupd i (lb\<lparr>Size := 0\<rparr>) (lbBoards st1)\<rparr>
                      else st1);
                    st3 = st2\<lparr>lbRecords := fmfilter (\<lambda>(b, x, _). \<not> (b = i \<and> x = expiry)) (lbRecords st2)\<rparr> in
                returns (evict st3 i expiry, Inr archived)))"

definition archive_limit :: "int \<Rightarrow> nat" where
  "archive_limit limit =
     nat (let l = (if limit \<le> 0 then 100 else limit) in if l > MaxPageSize then MaxPageSize else l)"

definition ListArchivedRecords :: "lb_state \<Rightarrow> string \<Rightarrow> string \<Rightarrow> int \<Rightarrow> lb_record list" where
  "ListArchivedRecords st i season limit =
     take (archive_limit limit)
       (sort_key (\<lambda>r. (- sint (RScore r), - sint (RSubscore r)))
         (map fst (filter (\<lambda>(r, s). RLeaderboardID r = i \<and> (season = [] \<or> s = season)) (lbArchive st))))"

definition ListSeasonStats ::
  "lb_state \<Rightarrow> string \<Rightarrow> string \<Rightarrow> int \<Rightarrow> ((string \<times> string \<times> string) \<times> season_stat) list" where
  "ListSeasonStats st i season limit =
     take (nat (if limit \<le> 0 then 100 else limit))
       (sort_key (\<lambda>(_, s). - sint (SeasonBestScore s))
         (List.map_filter (\<lambda>k. map_option (Pair k) (fmlookup (lbSeason st) k))
           (filter (\<lambda>(t, s, _). t = i \<and> (season = [] \<or> s = season)) (sorted_list_of_fset (fmdom (lbSeason st))))))"

end
