(* ===== verification/Tournament.thy ===== *)
theory Tournament
  imports Leaderboard_Admin
begin

section \<open>Tournaments\<close>

text \<open>
  \<open>internal/tournament/tournament.go\<close>: joining and extra attempts, the views with their active window, and
  the scheduler: \<open>Update\<close> computes from the boards which callbacks are due and when to look again, the
  workers run the queued callbacks, each at most once by its key.  Without Redis the keys are local
  sets; with Redis they are kept there for 24 hours, and all nodes share them.  The hooks are recorded as a
  list of calls; a timer is the instant it is set to.
\<close>

datatype tournament_error = ErrTournamentNotFound | ErrTournamentMaxSizeReached
  | ErrTournamentOutsideDuration | ErrTournamentEnded | TournamentLeaderboard lb_error

datatype callback_kind = TournamentEnd | TournamentReset | LeaderboardReset

record scheduler_callback =
  CbKind :: callback_kind
  CbId :: string
  CbEndActive :: int
  CbExpiry :: int

datatype hook_call =
    RewardCall string int "lb_record list"
  | ResetCall string int int
  | LeaderboardResetCall string int

record scheduler =
  tsRewarded :: "string goset"
  tsReset :: "string goset"
  tsQueue :: "scheduler_callback list"
  tsLastEndActive :: int
  tsLastExpiry :: int
  tsEndTimer :: "int option"
  tsExpiryTimer :: "int option"
  tsRedis :: "(string, gotime) fmap option"

text \<open>\<open>rdb\<close> is the Redis database, if there is one: its keys with the instants they expire at.\<close>

definition NewTournamentScheduler :: "(string, gotime) fmap option \<Rightarrow> scheduler" where
  "NewTournamentScheduler rdb =
     \<lparr>tsRewarded = fmempty, tsReset = fmempty, tsQueue = [], tsLastEndActive = 0, tsLastExpiry = 0,
      tsEndTimer = None, tsExpiryTimer = None, tsRedis = rdb\<rparr>"

definition queue_capacity :: nat where
  "queue_capacity = 1024"

definition tickWindowSeconds :: int where
  "tickWindowSeconds = 120"

subsection \<open>Due callbacks\<close>

record due_state =
  dueEnd :: int
  dueExpiry :: int
  dueNow :: "scheduler_callback list"

definition sooner :: "int \<Rightarrow> int \<Rightarrow> int" where
  "sooner x nearest = (if nearest = 0 \<or> x < nearest then x else nearest)"

definition tournament_due :: "int \<Rightarrow> string \<Rightarrow> int \<Rightarrow> int \<Rightarrow> due_state \<Rightarrow> due_state" where
  "tournament_due nowUnix i ea ex d =
     (let cb = (\<lambda>kind. \<lparr>CbKind = kind, CbId = i, CbEndActive = ea, CbExpiry = ex\<rparr>);
          d1 = (if ea > nowUnix then d\<lparr>dueEnd := sooner ea (dueEnd d)\<rparr>
                else if ea > 0 then d\<lparr>dueNow := dueNow d @ [cb TournamentEnd]\<rparr> else d) in
      if ex > nowUnix then d1\<lparr>dueExpiry := sooner ex (dueExpiry d1)\<rparr>
      else if ex > 0 then d1\<lparr>dueNow := dueNow d1 @ [cb TournamentReset]\<rparr> else d1)"

definition leaderboard_due :: "int \<Rightarrow> string \<Rightarrow> int \<Rightarrow> int \<Rightarrow> due_state \<Rightarrow> due_state" where
  "leaderboard_due nowUnix i next prev d =
     (let d1 = d\<lparr>dueExpiry := sooner next (dueExpiry d)\<rparr> in
      if prev > 0 \<and> nowUnix - prev \<le> tickWindowSeconds then
        d1\<lparr>dueNow := dueNow d1 @ [\<lparr>CbKind = LeaderboardReset, CbId = i, CbEndActive = 0, CbExpiry = prev\<rparr>]\<rparr>
      else d1)"

definition board_due :: "bool \<Rightarrow> bool \<Rightarrow> int \<Rightarrow> board \<Rightarrow> due_state \<Rightarrow> due_state cron_result" where
  "board_due runT runL nowUnix lb d =
     (if IsTournament lb then
        (if \<not> runT then returns d
         else and_then (ActiveDeadlines lb nowUnix)
                (\<lambda>(_, ea, ex). returns (tournament_due nowUnix (BID lb) ea ex d)))
      else if runL \<and> ResetSchedule lb \<noteq> [] then
        (case MustParseResetSchedule (ResetSchedule lb) of
           None \<Rightarrow> returns d
         | Some e \<Rightarrow>
             and_then (Next e nowUnix) (\<lambda>next.
             and_then (CalculatePrevReset nowUnix (StartTime lb) (Some e)) (\<lambda>prev.
             returns (leaderboard_due nowUnix (BID lb) next prev d))))
      else returns d)"

fun boards_due :: "bool \<Rightarrow> bool \<Rightarrow> int \<Rightarrow> board list \<Rightarrow> due_state \<Rightarrow> due_state cron_result" where
  "boards_due runT runL nowUnix [] d = returns d"
| "boards_due runT runL nowUnix (lb # lbs) d =
     and_then (board_due runT runL nowUnix lb d) (\<lambda>d'. boards_due runT runL nowUnix lbs d')"

definition enqueue :: "scheduler_callback \<Rightarrow> scheduler \<Rightarrow> scheduler" where
  "enqueue cb ts =
     (if length (tsQueue ts) < queue_capacity then ts\<lparr>tsQueue := tsQueue ts @ [cb]\<rparr> else ts)"

definition set_timers :: "int \<Rightarrow> int \<Rightarrow> scheduler \<Rightarrow> scheduler" where
  "set_timers nearestEnd nearestExpiry ts =
     (let ts1 = (if nearestEnd > 0 \<and> nearestEnd \<noteq> tsLastEndActive ts
            then ts\<lparr>tsLastEndActive := nearestEnd, tsEndTimer := Some nearestEnd\<rparr> else ts) in
      if nearestExpiry > 0 \<and> nearestExpiry \<noteq> tsLastExpiry ts1
      then ts1\<lparr>tsLastExpiry := nearestExpiry, tsExpiryTimer := Some nearestExpiry\<rparr> else ts1)"

definition Update_due :: "bool \<Rightarrow> bool \<Rightarrow> gotime \<Rightarrow> lb_state \<Rightarrow> due_state cron_result" where
  "Update_due runT runL now st =
     boards_due runT runL (unix now) (LoadAllLeaderboards st) \<lparr>dueEnd = 0, dueExpiry = 0, dueNow = []\<rparr>"

definition TUpdate ::
  "bool \<Rightarrow> bool \<Rightarrow> gotime \<Rightarrow> lb_state \<Rightarrow> scheduler \<Rightarrow> (lb_state \<times> scheduler) cron_result" where
  "TUpdate runT runL now st ts =
     (if \<not> runT \<and> \<not> runL then returns (st, ts)
      else
        and_then (Update_due runT runL now st) (\<lambda>d.
        returns (st\<lparr>lbConfig := cc_LoadAll (LoadAllLeaderboards st)\<rparr>,
          set_timers (dueEnd d) (dueExpiry d) (fold enqueue (dueNow d) ts))))"

subsection \<open>Running callbacks\<close>

definition reward_key :: "string \<Rightarrow> int \<Rightarrow> string" where
  "reward_key i ea = ''tournament:end:'' @ list_key i ea"

definition reset_key :: "string \<Rightarrow> int \<Rightarrow> string" where
  "reset_key i ex = ''tournament:reset:'' @ list_key i ex"

definition lb_reset_key :: "string \<Rightarrow> int \<Rightarrow> string" where
  "lb_reset_key i ex = ''leaderboard:reset:'' @ list_key i ex"

text \<open>
  A command to Redis is answered, or it is not: then it did not reach the server, or it was carried out and the
  answer was lost.  \<open>SET NX\<close> with 24 hours to live sets a key that is not there.
\<close>

datatype redis_reply = Answered | NotReached | AnswerLost

definition lock_ttl :: gotime where
  "lock_ttl = 24 * 3600 * 10 ^ 9"

definition redis_has :: "gotime \<Rightarrow> (string, gotime) fmap \<Rightarrow> string \<Rightarrow> bool" where
  "redis_has now db key = (case fmlookup db key of None \<Rightarrow> False | Some until \<Rightarrow> now < until)"

definition redis_setnx ::
  "gotime \<Rightarrow> redis_reply \<Rightarrow> (string, gotime) fmap \<Rightarrow> string \<Rightarrow> (string, gotime) fmap \<times> bool" where
  "redis_setnx now reply db key =
     (if reply = NotReached \<or> redis_has now db key then (db, False)
      else (fmupd key (now + lock_ttl) db, reply = Answered))"

definition isAlreadyRewarded :: "gotime \<Rightarrow> redis_reply \<Rightarrow> scheduler \<Rightarrow> string \<Rightarrow> bool" where
  "isAlreadyRewarded now reply ts key =
     ((case tsRedis ts of None \<Rightarrow> False | Some db \<Rightarrow> reply = Answered \<and> redis_has now db key) \<or>
      fmlookup (tsRewarded ts) key \<noteq> None)"

definition tryAcquireRewardLock :: "gotime \<Rightarrow> redis_reply \<Rightarrow> scheduler \<Rightarrow> string \<Rightarrow> scheduler \<times> bool" where
  "tryAcquireRewardLock now reply ts key =
     (case tsRedis ts of
        Some db \<Rightarrow> (let (db', won) = redis_setnx now reply db key in (ts\<lparr>tsRedis := Some db'\<rparr>, won))
      | None \<Rightarrow>
          if fmlookup (tsRewarded ts) key \<noteq> None then (ts, False)
          else (ts\<lparr>tsRewarded := fmupd key () (tsRewarded ts)\<rparr>, True))"

definition isAlreadyReset :: "gotime \<Rightarrow> redis_reply \<Rightarrow> scheduler \<Rightarrow> string \<Rightarrow> bool" where
  "isAlreadyReset now reply ts key =
     ((case tsRedis ts of None \<Rightarrow> False | Some db \<Rightarrow> reply = Answered \<and> redis_has now db key) \<or>
      fmlookup (tsReset ts) key \<noteq> None)"

definition tryAcquireResetLock :: "gotime \<Rightarrow> redis_reply \<Rightarrow> scheduler \<Rightarrow> string \<Rightarrow> scheduler \<times> bool" where
  "tryAcquireResetLock now reply ts key =
     (case tsRedis ts of
        Some db \<Rightarrow> (let (db', won) = redis_setnx now reply db key in (ts\<lparr>tsRedis := Some db'\<rparr>, won))
      | None \<Rightarrow>
          if fmlookup (tsReset ts) key \<noteq> None then (ts, False)
          else (ts\<lparr>tsReset := fmupd key () (tsReset ts)\<rparr>, True))"

definition zero_size :: "string \<Rightarrow> lb_state \<Rightarrow> lb_state" where
  "zero_size i st =
     (case fmlookup (lbBoards st) i of
        None \<Rightarrow> st | Some lb \<Rightarrow> st\<lparr>lbBoards := fmupd i (lb\<lparr>Size := 0\<rparr>) (lbBoards st)\<rparr>)"

text \<open>The replies are those to \<open>EXISTS\<close> and \<open>SET NX\<close>.\<close>

definition invokeCallback ::
  "lb_env \<Rightarrow> (record_cursor \<Rightarrow> nat list) \<Rightarrow> (nat list \<Rightarrow> record_cursor option) \<Rightarrow> gotime
   \<Rightarrow> redis_reply \<times> redis_reply \<Rightarrow> lb_state \<times> scheduler \<Rightarrow> scheduler_callback \<Rightarrow> ((lb_state \<times> scheduler) \<times> hook_call list) cron_result" where
  "invokeCallback env genc gdec now replies s cb =
     (let (st, ts) = s; i = CbId cb in
      case CbKind cb of
        TournamentEnd \<Rightarrow>
          (let key = reward_key i (CbEndActive cb) in
           if isAlreadyRewarded now (fst replies) ts key then returns (s, [])
           else
             let (ts', won) = tryAcquireRewardLock now (snd replies) ts key in
             if \<not> won then returns ((st, ts'), [])
             else
               let expiry = (if CbExpiry cb = zero_time \<or> CbExpiry cb = 0 then CbEndActive cb else CbExpiry cb) in
               and_then (GetLeaderboardRecords env genc gdec now st i 100 [] expiry) (\<lambda>r.
               returns ((st, ts'), case r of Inl _ \<Rightarrow> [] | Inr (best, _) \<Rightarrow> [RewardCall i expiry best])))
      | TournamentReset \<Rightarrow>
          (let key = reset_key i (CbExpiry cb) in
           if isAlreadyReset now (fst replies) ts key then returns (s, [])
           else
             let (ts', won) = tryAcquireResetLock now (snd replies) ts key in
             if \<not> won then returns ((st, ts'), [])
             else
               let st1 = fst (ArchiveRecordsForExpiry st i (CbExpiry cb) (decimal (CbExpiry cb)));
                   st2 = zero_size i st1;
                   st3 = st2\<lparr>lbRank := EvictPartition (lbRank st2) i (CbExpiry cb)\<rparr> in
               returns ((st3, ts'), [ResetCall i (CbEndActive cb) (CbExpiry cb)]))
      | LeaderboardReset \<Rightarrow>
          (let key = lb_reset_key i (CbExpiry cb) in
           if isAlreadyReset now (fst replies) ts key then returns (s, [])
           else
             let (ts', won) = tryAcquireResetLock now (snd replies) ts key in
             if \<not> won then returns ((st, ts'), [])
             else returns ((fst (ArchiveRecordsForExpiry st i (CbExpiry cb) (decimal (CbExpiry cb))), ts'),
               [LeaderboardResetCall i (CbExpiry cb)])))"

text \<open>A worker takes the oldest callback of the queue; the replies of Redis to its commands are inputs.\<close>

fun callbackWorker ::
  "lb_env \<Rightarrow> (record_cursor \<Rightarrow> nat list) \<Rightarrow> (nat list \<Rightarrow> record_cursor option) \<Rightarrow> gotime
   \<Rightarrow> (redis_reply \<times> redis_reply) list \<Rightarrow> lb_state \<times> scheduler \<Rightarrow> ((lb_state \<times> scheduler) \<times> hook_call list) cron_result" where
  "callbackWorker env genc gdec now [] s = returns (s, [])"
| "callbackWorker env genc gdec now (replies # rs) (st, ts) =
     (case tsQueue ts of
        [] \<Rightarrow> returns ((st, ts), [])
      | cb # q \<Rightarrow>
          and_then (invokeCallback env genc gdec now replies (st, ts\<lparr>tsQueue := q\<rparr>) cb) (\<lambda>(s', calls).
          and_then (callbackWorker env genc gdec now rs s') (\<lambda>(s'', calls'). returns (s'', calls @ calls'))))"

subsection \<open>Taking part\<close>

definition in_window :: "int \<Rightarrow> int \<Rightarrow> int \<Rightarrow> bool" where
  "in_window sa ea nowUnix \<longleftrightarrow> \<not> (sa > nowUnix \<or> ea \<noteq> 0 \<and> ea < nowUnix)"

text \<open>The insert does nothing when the record exists; only a new record counts against the size.\<close>

definition join_tables :: "gotime \<Rightarrow> lb_state \<Rightarrow> string \<Rightarrow> board \<Rightarrow> int \<Rightarrow> string \<Rightarrow> string \<Rightarrow> tournament_error + lb_state" where
  "join_tables dbnow st i lb expiry uid username =
     (if fmlookup (lbRecords st) (i, expiry, uid) \<noteq> None then Inr st
      else
        let rec = \<lparr>RLeaderboardID = i, ROwnerID = uid, RUsername = username, RScore = 0, RSubscore = 0,
              RNumScore = 0, RMaxNumScore = (if MaxNumScore lb \<le> 0 then 1000000 else MaxNumScore lb),
              RMetadata = ''{}'', RCreateTime = dbnow, RUpdateTime = dbnow, RExpiryTime = expiry, RRank = 0\<rparr>;
            st' = st\<lparr>lbRecords := fmupd (i, expiry, uid) rec (lbRecords st),
              lbBoards := fmupd i (lb\<lparr>Size := Size lb + 1\<rparr>) (lbBoards st)\<rparr> in
        if MaxSize lb > 0 \<and> MaxSize lb < 100000000 \<and> \<not> Size lb < MaxSize lb
        then Inl ErrTournamentMaxSizeReached else Inr st')"

definition JoinTournament ::
  "lb_env \<Rightarrow> coins \<Rightarrow> gotime \<Rightarrow> gotime \<Rightarrow> lb_state \<Rightarrow> string \<Rightarrow> string \<Rightarrow> string
   \<Rightarrow> (lb_state \<times> (tournament_error + unit)) cron_result" where
  "JoinTournament env coins now dbnow st i owner username =
     (case fmlookup (lbBoards st) i of
        None \<Rightarrow> returns (st, Inl ErrTournamentNotFound)
      | Some lb \<Rightarrow>
          if \<not> IsTournament lb then returns (st, Inl ErrTournamentNotFound)
          else if EndTime lb \<noteq> zero_time \<and> EndTime lb > 0 \<and> now > EndTime lb * 10 ^ 9
          then returns (st, Inl ErrTournamentEnded)
          else and_then (ActiveDeadlines lb (unix now)) (\<lambda>(sa, ea, expiry).
            if \<not> in_window sa ea (unix now) then returns (st, Inl ErrTournamentOutsideDuration)
            else (case le_uuid env owner of
                None \<Rightarrow> returns (st, Inl (TournamentLeaderboard LbErrDatabase))
              | Some uid \<Rightarrow>
                  (case join_tables dbnow st i lb expiry uid username of
                     Inl err \<Rightarrow> returns (st, Inl err)
                   | Inr st' \<Rightarrow>
                       (case gc_Insert coins (lbBlacklist st') (lbRank st') i (SortOrder lb) 0 0 expiry owner
                               (EnableRanks lb) of
                          None \<Rightarrow> None
                        | Some (g, _) \<Rightarrow> returns (st'\<lparr>lbRank := g\<rparr>, Inr ()))))))"

definition AddAttempt ::
  "lb_env \<Rightarrow> gotime \<Rightarrow> lb_state \<Rightarrow> string \<Rightarrow> string \<Rightarrow> int \<Rightarrow> (lb_state \<times> (tournament_error + unit)) cron_result" where
  "AddAttempt env now st i owner count =
     (if count = 0 then returns (st, Inr ())
      else case GetLeaderboard st i of
        Inl _ \<Rightarrow> returns (st, Inl ErrTournamentNotFound)
      | Inr lb \<Rightarrow>
          if \<not> IsTournament lb then returns (st, Inl ErrTournamentNotFound)
          else and_then (ActiveDeadlines lb (unix now)) (\<lambda>(_, ea, expiry).
            if ea \<le> unix now then returns (st, Inl ErrTournamentOutsideDuration)
            else (case le_uuid env owner of
                None \<Rightarrow> returns (st, Inl (TournamentLeaderboard LbErrDatabase))
              | Some uid \<Rightarrow>
                  (case fmlookup (lbRecords st) (i, expiry, uid) of
                     None \<Rightarrow> returns (st, Inr ())
                   | Some r \<Rightarrow>
                       if RMaxNumScore r + count \<le> 0
                       then returns (st, Inl (TournamentLeaderboard LbErrDatabase))
                       else returns (st\<lparr>lbRecords := fmupd (i, expiry, uid)
                              (r\<lparr>RMaxNumScore := RMaxNumScore r + count\<rparr>) (lbRecords st)\<rparr>, Inr ())))))"

subsection \<open>Views\<close>

record tournament_view =
  TvBoard :: board
  TvCanEnter :: bool
  TvStartActive :: int
  TvEndActive :: int
  TvPrevReset :: int
  TvNextReset :: int

definition ToView :: "board \<Rightarrow> int \<Rightarrow> tournament_view cron_result" where
  "ToView lb nowUnix =
     and_then (ActiveDeadlines lb nowUnix) (\<lambda>(sa, ea, expiry).
     and_then (CalculatePrevReset nowUnix (StartTime lb) (MustParseResetSchedule (ResetSchedule lb))) (\<lambda>prev.
     returns \<lparr>TvBoard = lb, TvCanEnter = in_window sa ea nowUnix, TvStartActive = sa, TvEndActive = ea,
       TvPrevReset = prev, TvNextReset = expiry\<rparr>))"

fun views :: "int \<Rightarrow> board list \<Rightarrow> tournament_view list cron_result" where
  "views nowUnix [] = returns []"
| "views nowUnix (lb # lbs) =
     and_then (ToView lb nowUnix) (\<lambda>v. and_then (views nowUnix lbs) (\<lambda>vs. returns (v # vs)))"

definition ListTournaments ::
  "gotime \<Rightarrow> lb_state \<Rightarrow> int \<Rightarrow> int \<Rightarrow> instant \<Rightarrow> instant \<Rightarrow> int \<Rightarrow> string \<Rightarrow> bool
   \<Rightarrow> (tournament_view list \<times> string) cron_result" where
  "ListTournaments now st categoryStart categoryEnd startTime endTime limit cursor activeOnly =
     (let n = nat (let l = (if limit \<le> 0 then 10 else limit) in if l > 100 then 100 else l);
          ce = (if categoryEnd = 0 then 2 ^ 31 - 1 else categoryEnd);
          rows = filter (\<lambda>lb. Duration lb > 0 \<and> categoryStart \<le> Category lb \<and> Category lb \<le> ce \<and>
              (startTime = zero_time \<or> startTime \<le> StartTime lb) \<and>
              (endTime = zero_time \<or> EndTime lb \<le> endTime) \<and> (cursor = [] \<or> cursor < BID lb)) (board_rows st) in
      and_then (views (unix now) rows) (\<lambda>vs.
        let shown = filter (\<lambda>v. \<not> activeOnly \<or> TvCanEnter v) vs in
        returns (if length shown > n then (take n shown, BID (TvBoard (shown ! (n - 1)))) else (shown, []))))"

definition GetTournaments :: "gotime \<Rightarrow> lb_state \<Rightarrow> string list \<Rightarrow> tournament_view list cron_result" where
  "GetTournaments now st is =
     (if is = [] then returns []
      else views (unix now) (filter (\<lambda>lb. BID lb \<in> set is \<and> Duration lb > 0) (board_rows st)))"

end
