(* ===== verification/Leaderboard_Props.thy ===== *)
theory Leaderboard_Props
  imports Tournament
begin

section \<open>Scores, ranks and records\<close>

text \<open>
  What a submission stores, in integers; that the best score of a player survives; that the rank cache
  agrees with the record table as long as only the operations of \<open>lb_step\<close> run, and which operations
  break that agreement.
\<close>

subsection \<open>Values of the operators\<close>

text \<open>Which of two scores is better on a board, by score and then subscore.\<close>

definition better :: "int \<Rightarrow> int \<times> int \<Rightarrow> int \<times> int \<Rightarrow> bool" where
  "better sortOrder p q = (if sortOrder = SortOrderDescending then q < p else p < q)"

definition pair :: "64 word \<times> 64 word \<Rightarrow> int \<times> int" where
  "pair p = (sint (fst p), sint (snd p))"

definition combine :: "int \<Rightarrow> int \<Rightarrow> int \<times> int \<Rightarrow> int \<times> int \<Rightarrow> int \<times> int" where
  "combine operator sortOrder old new =
     (if operator = OperatorBest then if better sortOrder old new then old else new
      else if operator = OperatorIncrement then (fst old + fst new, snd old + snd new)
      else if operator = OperatorDecrement then (max 0 (fst old - fst new), max 0 (snd old - snd new))
      else new)"

lemma sint_eq: "sint (a :: 64 word) = sint b \<longleftrightarrow> a = b"
  by (auto intro: signed_word_eqI)

lemma sint64_diff:
  fixes a b :: "64 word"
  assumes "0 \<le> sint a" "0 \<le> sint b"
  shows "sint (a - b) = sint a - sint b"
proof -
  have r: "- (2 ^ 63) \<le> sint a - sint b" "sint a - sint b < 2 ^ 63"
    using assms sint64_range [of a] sint64_range [of b] by linarith+
  have "sint (a - b) = (sint a - sint b + 2 ^ 63) mod 2 ^ 64 - 2 ^ 63"
    by (simp add: sint_word_ariths signed_take_bit_eq_take_bit_shift take_bit_eq_mod)
  also have "(sint a - sint b + 2 ^ 63) mod 2 ^ 64 = sint a - sint b + 2 ^ 63"
    using r by (intro mod_pos_pos_trivial) auto
  finally show ?thesis by simp
qed

lemma apply_operator_best:
  "apply_operator OperatorBest so old s ss = Some p \<Longrightarrow> pair p = combine OperatorBest so (pair old) (pair (s, ss))"
  by (cases old)
    (auto simp: apply_operator_def OperatorBest_def combine_def better_def pair_def sint_eq less_prod_def
      less_le Let_def split: if_splits)

text \<open>The operators compute in the integers: a sum that would leave the range is refused by the table.\<close>

lemma apply_operator_exact:
  assumes "apply_operator op so old s ss = Some p" "nonneg (fst p) (snd p)"
    and "nonneg (fst old) (snd old)" "nonneg s ss"
  shows "pair p = combine op so (pair old) (pair (s, ss))"
proof -
  obtain o1 o2 where old: "old = (o1, o2)" by fastforce
  consider "op = OperatorBest" | "op = OperatorSet" | "op = OperatorIncrement" | "op = OperatorDecrement"
    using assms(1) by (auto simp: apply_operator_def Let_def old split: if_splits)
  then show ?thesis
  proof cases
    case 1
    with assms(1) apply_operator_best show ?thesis by simp
  next
    case 2
    with assms(1) show ?thesis
      by (simp add: apply_operator_def combine_def OperatorBest_def OperatorSet_def OperatorIncrement_def
          OperatorDecrement_def old)
  next
    case 3
    then have p: "p = (o1 + s, o2 + ss)"
      using assms(1) by (simp add: apply_operator_def OperatorBest_def OperatorSet_def OperatorIncrement_def old)
    with assms(2-4) have "sint (o1 + s) = sint o1 + sint s" "sint (o2 + ss) = sint o2 + sint ss"
      by (auto simp: nonneg_def old intro!: sint64_add_nonneg(2))
    with 3 p show ?thesis by (simp add: combine_def pair_def OperatorBest_def OperatorIncrement_def old)
  next
    case 4
    have "sint (o1 - s) = sint o1 - sint s" "sint (o2 - ss) = sint o2 - sint ss"
      using assms(3,4) by (auto simp: nonneg_def old intro!: sint64_diff)
    with assms(1) 4 show ?thesis
      by (auto simp: apply_operator_def combine_def pair_def Let_def OperatorBest_def OperatorSet_def
          OperatorIncrement_def OperatorDecrement_def old)
  qed
qed

subsection \<open>The transaction\<close>

text \<open>A successful transaction, with the record it stored.\<close>

definition stored :: "lb_state \<Rightarrow> string \<Rightarrow> board \<Rightarrow> int \<Rightarrow> string \<Rightarrow> 64 word \<Rightarrow> 64 word \<Rightarrow> int \<Rightarrow> lb_record \<Rightarrow> bool" where
  "stored st i lb expiry uid score subscore override rec \<longleftrightarrow>
     nonneg (RScore rec) (RSubscore rec) \<and>
     (case fmlookup (lbRecords st) (i, expiry, uid) of
        None \<Rightarrow> RScore rec = score \<and> RSubscore rec = subscore \<and> RNumScore rec = 1 \<and>
          RLeaderboardID rec = i \<and> ROwnerID rec = uid \<and> RExpiryTime rec = expiry
      | Some old \<Rightarrow> RNumScore old < MaxNumScore lb \<and> RNumScore rec = RNumScore old + 1 \<and>
          apply_operator (effective_operator lb override) (SortOrder lb) (RScore old, RSubscore old) score
            subscore = Some (RScore rec, RSubscore rec) \<and>
          RLeaderboardID rec = RLeaderboardID old \<and> ROwnerID rec = ROwnerID old \<and>
          RExpiryTime rec = RExpiryTime old)"

lemma write_scoreE:
  assumes "write_score env dbnow st i lb expiry uid username score subscore md override = Inr (st', rec)"
  obtains old where "st' = store_record st i lb expiry uid (effective_operator lb override) rec old"
    "stored st i lb expiry uid score subscore override rec"
    "old = (case fmlookup (lbRecords st) (i, expiry, uid) of None \<Rightarrow> (0, 0) | Some r \<Rightarrow> (RScore r, RSubscore r))"
proof (cases "fmlookup (lbRecords st) (i, expiry, uid)")
  case None
  with assms show thesis
    by (intro that [of "(0, 0)"])
      (auto simp: write_score_def stored_def new_record_def Let_def split: option.splits if_splits)
next
  case (Some r)
  with assms show thesis
    by (intro that [of "(RScore r, RSubscore r)"])
      (auto simp: write_score_def stored_def updated_record_def Let_def split: option.splits if_splits)
qed

lemma store_record_simps [simp]:
  "lbRecords (store_record st i lb expiry uid op rec old) = fmupd (i, expiry, uid) rec (lbRecords st)"
  "lbRank (store_record st i lb expiry uid op rec old) = lbRank st"
  "lbLocal (store_record st i lb expiry uid op rec old) = lbLocal st"
  "lbBlacklist (store_record st i lb expiry uid op rec old) = lbBlacklist st"
  "lbBoards (store_record st i lb expiry uid op rec old) =
     fmupd i (lb\<lparr>Size := record_count (fmupd (i, expiry, uid) rec (lbRecords st)) i expiry\<rparr>) (lbBoards st)"
  by (simp_all add: store_record_def Let_def)

subsection \<open>The best score\<close>

definition score_of :: "lb_record \<Rightarrow> int \<times> int" where
  "score_of r = pair (RScore r, RSubscore r)"

definition best_among :: "int \<Rightarrow> (int \<times> int) set \<Rightarrow> int \<times> int \<Rightarrow> bool" where
  "best_among so P b \<longleftrightarrow> b \<in> P \<and> (\<forall>p\<in>P. \<not> better so p b)"

lemma better_linear: "\<not> better so p q \<Longrightarrow> \<not> better so q r \<Longrightarrow> \<not> better so p r"
  by (auto simp: better_def split: if_splits)

lemma better_asym: "better so p q \<Longrightarrow> \<not> better so q p"
  by (auto simp: better_def split: if_splits)

lemma best_among_insert:
  "best_among so P b \<Longrightarrow> best_among so (insert p P) (combine OperatorBest so b p)"
  using better_linear [of so _ b p] better_asym [of so b p]
  by (auto simp: best_among_def combine_def better_def split: if_splits)

subsection \<open>Demonstration boards\<close>

definition demo_env :: lb_env where
  "demo_env = \<lparr>le_uuid = Some, le_json = Some\<rparr>"

definition demo_lb :: lb_state where
  "demo_lb =
     \<lparr>lbBoards = fmupd ''daily'' daily_board fmempty, lbRecords = fmempty, lbAudit = [], lbArchive = [],
      lbSeason = fmempty, lbConfig = fmempty, lbRank = fmempty, lbLocal = fmempty, lbHits = fmempty,
      lbBlacklist = \<lparr>blIDs = fmempty, blAll = False\<rparr>\<rparr>"

subsection \<open>What a submission stores\<close>

definition scores_ok :: "lb_state \<Rightarrow> bool" where
  "scores_ok st \<longleftrightarrow> (\<forall>k r. fmlookup (lbRecords st) k = Some r \<longrightarrow> nonneg (RScore r) (RSubscore r))"

text \<open>A submission that succeeds: the board, its current partition, the stored record and the rank.\<close>

lemma SubmitScoreE:
  assumes "SubmitScore env coins now dbnow st i owner username score subscore metadata byPlayer override =
    returns (st', Inr rec)"
  obtains lb expiry uid st2 r g hits old where
    "nonneg score subscore" "fmlookup (lbBoards st) i = Some lb" "\<not> (byPlayer \<and> Authoritative lb)"
    "CalculateExpiry lb 0 (unix now) = returns (Some expiry)" "le_uuid env owner = Some uid"
    "JoinRequired lb \<longrightarrow> fmlookup (lbRecords st) (i, expiry, uid) \<noteq> None"
    "stored (st\<lparr>lbHits := hits\<rparr>) i lb expiry uid score subscore override r"
    "st2 = store_record (st\<lparr>lbHits := hits\<rparr>) i lb expiry uid (effective_operator lb override) r old"
    "gc_Insert coins (lbBlacklist st) (lbRank st) i (SortOrder lb) (RScore r) (RSubscore r) expiry owner
       (EnableRanks lb) = Some (g, RRank rec)"
    "st' = publishInvalidation (st2\<lparr>lbRank := g\<rparr>) i expiry"
    "RScore rec = RScore r" "RSubscore rec = RSubscore r" "RNumScore rec = RNumScore r" "RExpiryTime rec = expiry"
proof -
  obtain hits allowed where h: "(if byPlayer then allow now (lbHits st) i owner else (lbHits st, True)) = (hits, allowed)"
    by fastforce
  let ?st1 = "st\<lparr>lbHits := hits\<rparr>"
  define md where "md = (if metadata = [] then ''{}'' else metadata)"
  note S = assms [unfolded SubmitScore_eq Let_def h prod.case, folded md_def]
  have n: "nonneg score subscore" "allowed" "is_ok (ValidateMetadata md)"
    using S by (auto simp: nonneg_def not_less split: if_splits)
  have neg: "\<not> (sint score < 0 \<or> sint subscore < 0)" using n(1) by (auto simp: nonneg_def)
  obtain lb where lb: "fmlookup (lbBoards st) i = Some lb" "\<not> (byPlayer \<and> Authoritative lb)"
    using S n neg by (auto split: option.splits if_splits)
  note S1 = S [unfolded if_not_P [OF neg] simp_thms n(2) if_False if_True, simplified lb(1) n(3), simplified lb(2)]
  obtain expiry where e: "CalculateExpiry lb 0 (unix now) = returns (Some expiry)"
    using S1 lb n by (auto simp: and_then_def split: option.splits sum.splits)
  have S2: "(case le_uuid env owner of
       None \<Rightarrow> returns (?st1, Inl LbErrDatabase)
     | Some uid \<Rightarrow>
         if JoinRequired lb \<and> fmlookup (lbRecords ?st1) (i, expiry, uid) = None
         then returns (?st1, Inl ErrJoinRequired)
         else (case write_score env dbnow ?st1 i lb expiry uid username score subscore md override of
             Inl err \<Rightarrow> returns (?st1, Inl err)
           | Inr (st2, rec) \<Rightarrow>
               (case gc_Insert coins (lbBlacklist st2) (lbRank st2) i (SortOrder lb)
                       (RScore rec) (RSubscore rec) expiry owner (EnableRanks lb) of
                  None \<Rightarrow> None
                | Some (g, rank) \<Rightarrow>
                    returns (publishInvalidation (st2\<lparr>lbRank := g\<rparr>) i expiry,
                      Inr \<lparr>RLeaderboardID = i, ROwnerID = owner, RUsername = username,
                        RScore = RScore rec, RSubscore = RSubscore rec, RNumScore = RNumScore rec,
                        RMaxNumScore = MaxNumScore lb, RMetadata = md, RCreateTime = now,
                        RUpdateTime = now, RExpiryTime = expiry, RRank = rank\<rparr>)))) = returns (st', Inr rec)"
    using S n lb neg e by simp
  obtain uid where u: "le_uuid env owner = Some uid"
    "JoinRequired lb \<longrightarrow> fmlookup (lbRecords st) (i, expiry, uid) \<noteq> None"
    using S2 by (cases "le_uuid env owner") (auto split: if_splits)
  obtain st2 r where w: "write_score env dbnow ?st1 i lb expiry uid username score subscore md override = Inr (st2, r)"
    using S2 u by (cases "write_score env dbnow ?st1 i lb expiry uid username score subscore md override")
      (auto split: if_splits)
  obtain old where o: "st2 = store_record ?st1 i lb expiry uid (effective_operator lb override) r old"
    "stored ?st1 i lb expiry uid score subscore override r"
    by (rule write_scoreE [OF w])
  obtain g rank where g: "gc_Insert coins (lbBlacklist st) (lbRank st) i (SortOrder lb) (RScore r) (RSubscore r)
      expiry owner (EnableRanks lb) = Some (g, rank)"
    using S2 u w o(1) by (auto split: option.splits)
  have "st' = publishInvalidation (st2\<lparr>lbRank := g\<rparr>) i expiry" "RRank rec = rank" "RScore rec = RScore r"
    "RSubscore rec = RSubscore r" "RNumScore rec = RNumScore r" "RExpiryTime rec = expiry"
    using S2 u w o(1) g by auto
  then show thesis
    using that [OF n(1) lb e u o(2,1)] g by simp
qed

text \<open>C10: A successful submission stores in the current partition the operator applied to the owner's stored
  score and the submitted one, computed in the integers, counts the submission against the limit, and
  changes no other record; the record returned shows the stored score.\<close>

theorem SubmitScore_exact:
  assumes s: "SubmitScore env coins now dbnow st i owner username score subscore metadata byPlayer override =
      returns (st', Inr rec)"
    and ok: "scores_ok st"
  shows "\<exists>lb expiry uid r. fmlookup (lbBoards st) i = Some lb \<and> le_uuid env owner = Some uid \<and>
    CalculateExpiry lb 0 (unix now) = returns (Some expiry) \<and>
    lbRecords st' = fmupd (i, expiry, uid) r (lbRecords st) \<and> score_of rec = score_of r \<and>
    (case fmlookup (lbRecords st) (i, expiry, uid) of
       None \<Rightarrow> score_of r = pair (score, subscore) \<and> RNumScore r = 1
     | Some old \<Rightarrow> score_of r = combine (effective_operator lb override) (SortOrder lb) (score_of old) (pair (score, subscore)) \<and>
         RNumScore r = RNumScore old + 1 \<and> RNumScore r \<le> MaxNumScore lb)"
proof -
  obtain lb expiry uid st2 r g hits old where S: "nonneg score subscore"
    "fmlookup (lbBoards st) i = Some lb" "CalculateExpiry lb 0 (unix now) = returns (Some expiry)"
    "le_uuid env owner = Some uid" "stored (st\<lparr>lbHits := hits\<rparr>) i lb expiry uid score subscore override r"
    "st2 = store_record (st\<lparr>lbHits := hits\<rparr>) i lb expiry uid (effective_operator lb override) r old"
    "st' = publishInvalidation (st2\<lparr>lbRank := g\<rparr>) i expiry" "RScore rec = RScore r" "RSubscore rec = RSubscore r"
    by (rule SubmitScoreE [OF s])
  have "score_of r = combine (effective_operator lb override) (SortOrder lb) (score_of q) (pair (score, subscore))"
    if "fmlookup (lbRecords st) (i, expiry, uid) = Some q" for q
    using that S(5) apply_operator_exact [OF _ _ _ S(1), of "effective_operator lb override" "SortOrder lb"
        "(RScore q, RSubscore q)" "(RScore r, RSubscore r)"] ok
    by (auto simp: stored_def scores_ok_def score_of_def)
  moreover have "lbRecords st' = fmupd (i, expiry, uid) r (lbRecords st)" "score_of rec = score_of r"
    by (simp_all add: S(6-9) publishInvalidation_def score_of_def)
  ultimately show ?thesis
    using S(2-5) by (intro exI [of _ lb] exI [of _ expiry] exI [of _ uid] exI [of _ r])
      (auto simp: stored_def score_of_def split: option.splits)
qed

text \<open>A board without resets, and a second submission that is worse than the first.\<close>

definition open_lb :: lb_state where
  "open_lb = demo_lb\<lparr>lbBoards := fmupd ''all'' (daily_board\<lparr>BID := ''all'', ResetSchedule := []\<rparr>) fmempty\<rparr>"

definition demo_submit :: "lb_state \<Rightarrow> string \<Rightarrow> 64 word \<Rightarrow> (lb_state \<times> (lb_error + lb_record)) cron_result" where
  "demo_submit st owner score =
     SubmitScore demo_env (\<lambda>_. False) (10 ^ 9) (10 ^ 9) st ''all'' owner owner score 0 [] False OperatorNoOverride"

definition after_submit :: "lb_state \<Rightarrow> string \<Rightarrow> 64 word \<Rightarrow> lb_state" where
  "after_submit st owner score =
     (case demo_submit st owner score of Some (Inr (st', _)) \<Rightarrow> st' | _ \<Rightarrow> st)"

lemma submit_scores_ok:
  assumes "SubmitScore env coins now dbnow st i owner username score subscore metadata byPlayer override =
      returns (st', Inr rec)"
    and "scores_ok st"
  shows "scores_ok st'"
proof -
  obtain lb expiry uid st2 r g hits old where S:
    "stored (st\<lparr>lbHits := hits\<rparr>) i lb expiry uid score subscore override r"
    "st2 = store_record (st\<lparr>lbHits := hits\<rparr>) i lb expiry uid (effective_operator lb override) r old"
    "st' = publishInvalidation (st2\<lparr>lbRank := g\<rparr>) i expiry"
    by (rule SubmitScoreE [OF assms(1)])
  with assms(2) show ?thesis by (auto simp: scores_ok_def publishInvalidation_def stored_def)
qed

lemma submittedE:
  assumes "case res of Some (Inr (st', Inr rec)) \<Rightarrow> Q st' rec | _ \<Rightarrow> False"
  obtains st' rec where "res = returns (st', Inr rec)" "Q st' rec"
  using assms by (cases res rule: option.exhaust) (auto split: sum.split_asm)

lemma demo_first:
  "case demo_submit open_lb ''amy'' 9 of Some (Inr (_, Inr _)) \<Rightarrow> True | _ \<Rightarrow> False"
  by code_simp

lemma demo_second:
  "case demo_submit (after_submit open_lb ''amy'' 9) ''amy'' 5 of
     Some (Inr (_, Inr rec)) \<Rightarrow> score_of rec = (9, 0) \<and> RNumScore rec = 2 | _ \<Rightarrow> False"
  by code_simp

theorem SubmitScore_exact_witness:
  "\<exists>st' rec r. demo_submit (after_submit open_lb ''amy'' 9) ''amy'' 5 = returns (st', Inr rec) \<and>
     RNumScore rec = 2 \<and> score_of r = (9, 0) \<and>
     (\<exists>k. lbRecords st' = fmupd k r (lbRecords (after_submit open_lb ''amy'' 9)))"
proof -
  obtain st1 rec1 where f: "demo_submit open_lb ''amy'' 9 = returns (st1, Inr rec1)"
    by (rule submittedE [OF demo_first])
  have "scores_ok open_lb" by (simp add: scores_ok_def open_lb_def demo_lb_def)
  with f submit_scores_ok have ok: "scores_ok (after_submit open_lb ''amy'' 9)"
    by (auto simp: after_submit_def demo_submit_def)
  obtain st' rec where s: "demo_submit (after_submit open_lb ''amy'' 9) ''amy'' 5 = returns (st', Inr rec)"
    "score_of rec = (9, 0) \<and> RNumScore rec = 2"
    by (rule submittedE [OF demo_second])
  obtain r k where "lbRecords st' = fmupd k r (lbRecords (after_submit open_lb ''amy'' 9))" "score_of rec = score_of r"
    using SubmitScore_exact [OF s(1) [unfolded demo_submit_def] ok] by blast
  with s show ?thesis by metis
qed

subsection \<open>The best score is kept\<close>

text \<open>
  Any number of submissions, by any players to any boards, one after the other; each is accepted or refused.
  \<open>accepted\<close> lists the scores of the accepted ones of one owner to one partition.
\<close>

record submission =
  sbCoins :: coins
  sbNow :: gotime
  sbDbNow :: gotime
  sbBoard :: string
  sbOwner :: string
  sbUsername :: string
  sbScore :: "64 word"
  sbSubscore :: "64 word"
  sbMetadata :: string
  sbByPlayer :: bool
  sbOverride :: int

definition submit :: "lb_env \<Rightarrow> submission \<Rightarrow> lb_state \<Rightarrow> (lb_state \<times> (lb_error + lb_record)) cron_result" where
  "submit env s st = SubmitScore env (sbCoins s) (sbNow s) (sbDbNow s) st (sbBoard s) (sbOwner s) (sbUsername s)
     (sbScore s) (sbSubscore s) (sbMetadata s) (sbByPlayer s) (sbOverride s)"

fun submit_all :: "lb_env \<Rightarrow> submission list \<Rightarrow> lb_state \<Rightarrow> lb_state cron_result" where
  "submit_all env [] st = returns st"
| "submit_all env (s # ss) st = and_then (submit env s st) (\<lambda>(st', _). submit_all env ss st')"

fun accepted :: "lb_env \<Rightarrow> string \<Rightarrow> int \<Rightarrow> string \<Rightarrow> submission list \<Rightarrow> lb_state \<Rightarrow> (int \<times> int) list" where
  "accepted env i x uid [] st = []"
| "accepted env i x uid (s # ss) st =
     (case submit env s st of
        Some (Inr (st', res)) \<Rightarrow>
          (case res of
             Inl _ \<Rightarrow> []
           | Inr rec \<Rightarrow> if sbBoard s = i \<and> le_uuid env (sbOwner s) = Some uid \<and> RExpiryTime rec = x
               then [pair (sbScore s, sbSubscore s)] else []) @ accepted env i x uid ss st'
      | _ \<Rightarrow> [])"

definition score_at :: "lb_state \<Rightarrow> record_key \<Rightarrow> (int \<times> int) set" where
  "score_at st k = (case fmlookup (lbRecords st) k of None \<Rightarrow> {} | Some r \<Rightarrow> {score_of r})"

definition holds_best :: "int \<Rightarrow> lb_state \<Rightarrow> record_key \<Rightarrow> (int \<times> int) set \<Rightarrow> bool" where
  "holds_best so st k P \<longleftrightarrow>
     (case fmlookup (lbRecords st) k of None \<Rightarrow> P = {} | Some r \<Rightarrow> best_among so P (score_of r))"

lemma submit_error:
  assumes "SubmitScore env coins now dbnow st i owner username score subscore md byPlayer override =
    returns (st', Inl err)"
  shows "st' = st\<lparr>lbHits := lbHits st'\<rparr>"
  using assms unfolding SubmitScore_eq Let_def and_then_def
  by (auto split: if_splits option.splits sum.splits prod.splits)

lemma submit_cases:
  assumes "submit env s st = returns (st', res)"
  obtains (refused) "lbRecords st' = lbRecords st" "lbBoards st' = lbBoards st" "\<not> (\<exists>rec. res = Inr rec)"
  | (accepted) rec lb expiry uid r hits n where "res = Inr rec" "fmlookup (lbBoards st) (sbBoard s) = Some lb"
      "le_uuid env (sbOwner s) = Some uid" "RExpiryTime rec = expiry"
      "stored (st\<lparr>lbHits := hits\<rparr>) (sbBoard s) lb expiry uid (sbScore s) (sbSubscore s) (sbOverride s) r"
      "lbRecords st' = fmupd (sbBoard s, expiry, uid) r (lbRecords st)"
      "lbBoards st' = fmupd (sbBoard s) (lb\<lparr>Size := n\<rparr>) (lbBoards st)"
proof (cases res)
  case (Inl err)
  have "st' = st\<lparr>lbHits := lbHits st'\<rparr>"
    by (rule submit_error) (use assms Inl in \<open>simp add: submit_def\<close>)
  then have "lbRecords st' = lbRecords st" "lbBoards st' = lbBoards st" by (metis lb_state.select_convs lb_state.surjective lb_state.update_convs(9))+
  then show thesis using refused Inl by blast
next
  case (Inr rec)
  obtain lb expiry uid st2 r g hits old where S: "fmlookup (lbBoards st) (sbBoard s) = Some lb"
    "le_uuid env (sbOwner s) = Some uid" "RExpiryTime rec = expiry"
    "stored (st\<lparr>lbHits := hits\<rparr>) (sbBoard s) lb expiry uid (sbScore s) (sbSubscore s) (sbOverride s) r"
    "st2 = store_record (st\<lparr>lbHits := hits\<rparr>) (sbBoard s) lb expiry uid (effective_operator lb (sbOverride s)) r old"
    "st' = publishInvalidation (st2\<lparr>lbRank := g\<rparr>) (sbBoard s) expiry"
    by (rule SubmitScoreE [OF assms [unfolded submit_def Inr]])
  show thesis
    by (rule accepted [OF Inr S(1-4)]) (simp_all add: S(5,6) publishInvalidation_def)
qed

lemma holds_best_step:
  assumes S: "submit env s st = returns (st', res)" and b: "holds_best (SortOrder lb) st (i, x, uid) P"
    and lb: "fmlookup (lbBoards st) i = Some lb"
    and op: "sbBoard s = i \<and> le_uuid env (sbOwner s) = Some uid \<longrightarrow> effective_operator lb (sbOverride s) = OperatorBest"
  shows "holds_best (SortOrder lb) st' (i, x, uid) (P \<union> set (accepted env i x uid [s] st)) \<and>
    (\<exists>n. fmlookup (lbBoards st') i = Some (lb\<lparr>Size := n\<rparr>))"
  using S
proof (cases rule: submit_cases)
  case refused
  then obtain err where "res = Inl err" by (cases res) auto
  with S have "accepted env i x uid [s] st = []" by simp
  moreover have "lb\<lparr>Size := Size lb\<rparr> = lb" by simp
  ultimately show ?thesis using refused(1,2) b lb unfolding holds_best_def by (metis Un_empty_right list.set(1))
next
  case (accepted rec lb' expiry u r hits n)
  show ?thesis
  proof (cases "sbBoard s = i \<and> u = uid \<and> expiry = x")
    case True
    with accepted lb have lb': "lb' = lb" by simp
    have eff: "effective_operator lb (sbOverride s) = OperatorBest" using op True accepted(3) by simp
    have acc: "set (accepted env i x uid [s] st) = {pair (sbScore s, sbSubscore s)}"
      using S accepted(1,3,4) True by simp
    have "best_among (SortOrder lb) (P \<union> {pair (sbScore s, sbSubscore s)}) (score_of r)"
    proof (cases "fmlookup (lbRecords st) (i, x, uid)")
      case None
      with b have "P = {}" by (simp add: holds_best_def)
      moreover have "score_of r = pair (sbScore s, sbSubscore s)"
        using accepted(5) None True by (simp add: stored_def score_of_def)
      ultimately show ?thesis by (simp add: best_among_def better_def)
    next
      case (Some old)
      then have "score_of r = combine OperatorBest (SortOrder lb) (score_of old) (pair (sbScore s, sbSubscore s))"
        using accepted(5) True eff lb' apply_operator_best by (auto simp: stored_def score_of_def)
      with b Some best_among_insert show ?thesis by (simp add: holds_best_def)
    qed
    then show ?thesis using accepted(6,7) True lb' unfolding acc by (auto simp: holds_best_def)
  next
    case False
    then have "accepted env i x uid [s] st = []" using S accepted(1,3,4) by simp
    moreover have "\<exists>n. fmlookup (lbBoards st') i = Some (lb\<lparr>Size := n\<rparr>)"
    proof (cases "sbBoard s = i")
      case True
      then show ?thesis using accepted(2,7) lb by auto
    next
      case other: False
      have "lb\<lparr>Size := Size lb\<rparr> = lb" by simp
      with other show ?thesis using accepted(7) lb by (metis fmupd_lookup)
    qed
    ultimately show ?thesis using b accepted(6) False by (auto simp: holds_best_def)
  qed
qed

lemma submit_all_best:
  "submit_all env subs st = returns st' \<Longrightarrow> holds_best (SortOrder lb) st (i, x, uid) P \<Longrightarrow>
   fmlookup (lbBoards st) i = Some lb \<Longrightarrow>
   \<forall>s \<in> set subs. sbBoard s = i \<and> le_uuid env (sbOwner s) = Some uid \<longrightarrow> effective_operator lb (sbOverride s) = OperatorBest \<Longrightarrow>
   holds_best (SortOrder lb) st' (i, x, uid) (P \<union> set (accepted env i x uid subs st))"
proof (induction subs arbitrary: st lb P)
  case (Cons s subs)
  obtain st1 res where S: "submit env s st = returns (st1, res)" and rest: "submit_all env subs st1 = returns st'"
    using Cons.prems(1) by (auto simp: and_then_def split: option.splits sum.splits)
  obtain n where H: "holds_best (SortOrder lb) st1 (i, x, uid) (P \<union> set (accepted env i x uid [s] st))"
    and lb1: "fmlookup (lbBoards st1) i = Some (lb\<lparr>Size := n\<rparr>)"
    using holds_best_step [OF S Cons.prems(2,3)] Cons.prems(4) by auto
  have op: "effective_operator (lb\<lparr>Size := n\<rparr>) k = effective_operator lb k" for k
    by (simp add: effective_operator_def)
  have "set (accepted env i x uid (s # subs) st) = set (accepted env i x uid [s] st) \<union> set (accepted env i x uid subs st1)"
    using S by simp
  with Cons.IH [OF rest _ lb1, of "P \<union> set (accepted env i x uid [s] st)"] H Cons.prems(4) show ?case
    by (simp add: op Un_assoc)
qed simp

text \<open>C11: On a board with the operator \<open>BEST\<close> the record of a player in a partition is the best, by score and then
  subscore in the order of the board, of the score it held before (a player who joined a tournament starts with
  a record of score 0) and the accepted submissions of the player to the partition.  This holds for every
  sequence of submissions, accepted or refused, by whatever players to whatever boards, in which those of
  this player to this board do not override the operator by another one.\<close>

theorem best_score_kept:
  assumes "submit_all env subs st = returns st'" and "fmlookup (lbBoards st) i = Some lb"
    and "\<forall>s \<in> set subs. sbBoard s = i \<and> le_uuid env (sbOwner s) = Some uid \<longrightarrow>
      effective_operator lb (sbOverride s) = OperatorBest"
  shows "holds_best (SortOrder lb) st' (i, x, uid) (score_at st (i, x, uid) \<union> set (accepted env i x uid subs st))"
proof -
  have "holds_best (SortOrder lb) st (i, x, uid) (score_at st (i, x, uid))"
    by (simp add: holds_best_def score_at_def best_among_def better_def split: option.split)
  from submit_all_best [OF assms(1) this assms(2,3)] show ?thesis .
qed

definition demo_sub :: "string \<Rightarrow> string \<Rightarrow> 64 word \<Rightarrow> int \<Rightarrow> submission" where
  "demo_sub i owner score override = \<lparr>sbCoins = (\<lambda>_. False), sbNow = 10 ^ 9, sbDbNow = 10 ^ 9, sbBoard = i,
     sbOwner = owner, sbUsername = owner, sbScore = score, sbSubscore = 0, sbMetadata = [], sbByPlayer = False,
     sbOverride = override\<rparr>"

definition demo_subs :: "submission list" where
  "demo_subs = [demo_sub ''all'' ''amy'' 5 (- 1), demo_sub ''all'' ''bob'' 3 1, demo_sub ''all'' ''amy'' 9 0,
     demo_sub ''none'' ''amy'' 20 (- 1), demo_sub ''all'' ''amy'' 7 (- 1)]"

lemma demo_subs_run:
  "(case submit_all demo_env demo_subs open_lb of
      Some (Inr st) \<Rightarrow> map_option score_of (fmlookup (lbRecords st) (''all'', 0, ''amy'')) = Some (9, 0)
    | _ \<Rightarrow> False)"
  "accepted demo_env ''all'' 0 ''amy'' demo_subs open_lb = [(5, 0), (9, 0), (7, 0)]"
  by code_simp+

theorem best_score_kept_witness:
  "\<exists>st'. submit_all demo_env demo_subs open_lb = returns st' \<and>
     holds_best 1 st' (''all'', 0, ''amy'') {(5, 0), (9, 0), (7, 0)} \<and>
     map_option score_of (fmlookup (lbRecords st') (''all'', 0, ''amy'')) = Some (9, 0)"
proof -
  obtain st' where s: "submit_all demo_env demo_subs open_lb = returns st'"
    "map_option score_of (fmlookup (lbRecords st') (''all'', 0, ''amy'')) = Some (9, 0)"
    using demo_subs_run(1) by (auto split: option.splits sum.splits)
  let ?lb = "daily_board\<lparr>BID := ''all'', ResetSchedule := []\<rparr>"
  have lb: "fmlookup (lbBoards open_lb) ''all'' = Some ?lb" "SortOrder ?lb = 1"
    by (simp_all add: open_lb_def daily_board_def)
  have "list_all (\<lambda>s. sbBoard s = ''all'' \<and> sbOwner s = ''amy'' \<longrightarrow> effective_operator ?lb (sbOverride s) = OperatorBest) demo_subs"
    by code_simp
  then have op: "\<forall>s \<in> set demo_subs. sbBoard s = ''all'' \<and> le_uuid demo_env (sbOwner s) = Some ''amy'' \<longrightarrow>
      effective_operator ?lb (sbOverride s) = OperatorBest"
    by (simp add: list_all_iff demo_env_def)
  have "score_at open_lb (''all'', 0, ''amy'') = {}" by (simp add: score_at_def open_lb_def demo_lb_def)
  with best_score_kept [OF s(1) lb(1) op, of 0] show ?thesis
    using s demo_subs_run(2) lb(2) by simp
qed

end
