(* ===== verification/Leaderboard_Coherence.thy ===== *)
theory Leaderboard_Coherence
  imports Leaderboard_Props
begin

section \<open>The rank cache and the record table\<close>

text \<open>
  The rank cache of a partition may lack records, but what it holds agrees with the table and is ranked in
  the order of the board: an invariant of the step relation \<open>lb_step\<close>, runs of operations that do not overlap.
  Owners are passed in the spelling of the database.  Two operations are not steps, because they break the
  invariant: joining a tournament with a record in it (\<open>rejoin_ranks_as_zero\<close>), and \<open>RecordsDeleteAll\<close> for
  partitions that have expired.  Operations that overlap break it as well: a submission enters the rank cache
  after its transaction, and of two submissions of one player the older score can enter last
  (\<open>overlapping_submissions_stale\<close>).
\<close>

inductive lb_step :: "lb_env \<Rightarrow> lb_state \<Rightarrow> lb_state \<Rightarrow> bool" for env where
  submit: "SubmitScore env coins now dbnow st i owner username score subscore md byPlayer override =
      returns (st', res) \<Longrightarrow> le_uuid env owner = Some owner \<Longrightarrow> lb_step env st st'"
| create: "CreateLeaderboard env now st lb = (st', res) \<Longrightarrow> lb_step env st st'"
| delete_board: "lb_step env st (DeleteLeaderboard st i)"
| delete_record: "DeleteRecord env st i owner = (st', res) \<Longrightarrow> lb_step env st st'"
| delete_expiry: "DeleteRecordForExpiry env st i owner expiry = Some (st', res) \<Longrightarrow>
      le_uuid env owner = Some owner \<Longrightarrow> lb_step env st st'"
| prune: "PruneExpiredRecords now st = (st', n) \<Longrightarrow> lb_step env st st'"
| invalidate: "lb_step env st (evict st i expiry)"
| disable: "DisableRanks st i tournament = (st', res) \<Longrightarrow> lb_step env st st'"
| reset: "ManualReset now dbnow st i archive = returns (st', res) \<Longrightarrow> lb_step env st st'"
| around_player: "GetLeaderboardRecordsAroundPlayer flips now st i owner limit expiry = returns (st', res) \<Longrightarrow>
      lb_step env st st'"
| cursor_from_rank: "RecordsListCursorFromRank genc flips now st i rank override = returns (st', res) \<Longrightarrow>
      lb_step env st st'"
| add_attempt: "AddAttempt env now st i owner count = returns (st', res) \<Longrightarrow> lb_step env st st'"
| join: "JoinTournament env coins now dbnow st i owner username = returns (st', res) \<Longrightarrow>
      le_uuid env owner = Some owner \<Longrightarrow> (\<forall>x. fmlookup (lbRecords st) (i, x, owner) = None) \<Longrightarrow> lb_step env st st'"
| configurations: "LeaderboardsGetId st ids = (st', lbs) \<Longrightarrow> lb_step env st st'"
| archive: "ArchiveRecordsForExpiry st i expiry season = (st', n) \<Longrightarrow> lb_step env st st'"
| scheduler_update: "TUpdate runT runL now st ts = returns (st', ts') \<Longrightarrow> lb_step env st st'"
| scheduler_callback: "invokeCallback env genc gdec now replies (st, ts) cb = returns ((st', ts'), calls) \<Longrightarrow>
      lb_step env st st'"

definition cache_sound :: "lb_state \<Rightarrow> bool" where
  "cache_sound st \<longleftrightarrow>
     (\<forall>i x w e. \<not> IsRankCacheBlacklisted (lbBlacklist st) i \<longrightarrow> cached (lbRank st) (i, x) w = Some e \<longrightarrow>
        (\<exists>r. fmlookup (lbRecords st) (i, x, w) = Some r \<and> entry_of r = e))"

definition keyed :: "lb_state \<Rightarrow> bool" where
  "keyed st \<longleftrightarrow> (\<forall>i x w r. fmlookup (lbRecords st) (i, x, w) = Some r \<longrightarrow> ROwnerID r = w)"

definition order_sound :: "lb_state \<Rightarrow> bool" where
  "order_sound st \<longleftrightarrow>
     (\<forall>i x b. gc_order (lbRank st) (i, x) = Some b \<longrightarrow>
        (\<exists>lb. fmlookup (lbBoards st) i = Some lb \<and> b = (SortOrder lb = SortOrderAscending)))"

text \<open>Nothing is cached for a board without ranks.\<close>

definition unranked_empty :: "lb_state \<Rightarrow> bool" where
  "unranked_empty st \<longleftrightarrow>
     (\<forall>i x lb. fmlookup (lbBoards st) i = Some lb \<longrightarrow> \<not> EnableRanks lb \<longrightarrow>
        cached (lbRank st) (i, x) = Map.empty)"

definition coherent :: "lb_state \<Rightarrow> bool" where
  "coherent st \<longleftrightarrow>
     gc_ok (lbRank st) \<and> cache_sound st \<and> keyed st \<and> order_sound st \<and> unranked_empty st"

text \<open>The columns of a board the cache depends on.\<close>

definition rank_columns :: "lb_state \<Rightarrow> string \<Rightarrow> (int \<times> bool) option" where
  "rank_columns st i = map_option (\<lambda>lb. (SortOrder lb, EnableRanks lb)) (fmlookup (lbBoards st) i)"

lemma rank_columnsD: "rank_columns st' i = rank_columns st i \<Longrightarrow> fmlookup (lbBoards st) i = Some lb \<Longrightarrow>
    \<exists>lb'. fmlookup (lbBoards st') i = Some lb' \<and> SortOrder lb' = SortOrder lb \<and> EnableRanks lb' = EnableRanks lb"
  by (auto simp: rank_columns_def)

lemma coherentD:
  assumes "coherent st"
  shows "gc_ok (lbRank st)"
    "\<not> IsRankCacheBlacklisted (lbBlacklist st) i \<Longrightarrow> cached (lbRank st) (i, x) w = Some e \<Longrightarrow>
       \<exists>r. fmlookup (lbRecords st) (i, x, w) = Some r \<and> entry_of r = e"
    "fmlookup (lbRecords st) (i, x, w) = Some r \<Longrightarrow> ROwnerID r = w"
    "gc_order (lbRank st) (i, x) = Some b \<Longrightarrow>
       \<exists>lb. fmlookup (lbBoards st) i = Some lb \<and> b = (SortOrder lb = SortOrderAscending)"
    "fmlookup (lbBoards st) i = Some lb \<Longrightarrow> \<not> EnableRanks lb \<Longrightarrow> cached (lbRank st) (i, x) = Map.empty"
  using assms unfolding coherent_def cache_sound_def keyed_def order_sound_def unranked_empty_def by blast+

text \<open>Only these components matter.\<close>

lemma coherent_cong:
  "lbRank st' = lbRank st \<Longrightarrow> lbRecords st' = lbRecords st \<Longrightarrow> lbBoards st' = lbBoards st \<Longrightarrow>
     lbBlacklist st' = lbBlacklist st \<Longrightarrow> coherent st' = coherent st"
  by (simp add: coherent_def cache_sound_def keyed_def order_sound_def unranked_empty_def)

text \<open>Removing records together with the partitions they were in.\<close>

lemma coherent_filter:
  assumes c: "coherent st"
    and rec: "lbRecords st' = fmfilter p (lbRecords st)" and rank: "lbRank st' = fmfilter q (lbRank st)"
    and keep: "\<And>i x w. q (i, x) \<Longrightarrow> p (i, x, w)"
    and boards: "\<And>i x. q (i, x) \<Longrightarrow> rank_columns st' i = rank_columns st i"
    and bl: "lbBlacklist st' = lbBlacklist st"
  shows "coherent st'"
  unfolding coherent_def cache_sound_def keyed_def order_sound_def unranked_empty_def
proof (intro conjI allI impI)
  show "gc_ok (lbRank st')" unfolding rank by (rule gc_filter_ok(1) [OF coherentD(1) [OF c]])
next
  fix i x w e
  assume n: "\<not> IsRankCacheBlacklisted (lbBlacklist st') i" and "cached (lbRank st') (i, x) w = Some e"
  then have "q (i, x)" "cached (lbRank st) (i, x) w = Some e"
    by (auto simp: rank gc_filter_ok(3) split: if_splits)
  then show "\<exists>r. fmlookup (lbRecords st') (i, x, w) = Some r \<and> entry_of r = e"
    using coherentD(2) [OF c] n keep by (auto simp: rec bl)
next
  fix i x w r
  assume "fmlookup (lbRecords st') (i, x, w) = Some r"
  then show "ROwnerID r = w" using coherentD(3) [OF c] by (auto simp: rec split: if_splits)
next
  fix i x b
  assume "gc_order (lbRank st') (i, x) = Some b"
  then have q: "q (i, x)" "gc_order (lbRank st) (i, x) = Some b"
    by (auto simp: rank gc_filter_ok(2) split: if_splits)
  then show "\<exists>lb. fmlookup (lbBoards st') i = Some lb \<and> b = (SortOrder lb = SortOrderAscending)"
    using coherentD(4) [OF c q(2)] rank_columnsD [OF boards [OF q(1)]] by metis
next
  fix i x lb
  assume lb: "fmlookup (lbBoards st') i = Some lb" "\<not> EnableRanks lb"
  show "cached (lbRank st') (i, x) = Map.empty"
  proof (cases "q (i, x)")
    case True
    obtain lb' where "fmlookup (lbBoards st) i = Some lb'" "EnableRanks lb' = EnableRanks lb"
      using rank_columnsD [OF boards [OF True, symmetric] lb(1)] by blast
    with True lb(2) show ?thesis by (simp add: rank gc_filter_ok(3) coherentD(5) [OF c])
  qed (simp add: rank gc_filter_ok(3))
qed

text \<open>Loading the sorted records of a partition.\<close>

lemma set_place: "set (place lt x ys) = insert x (set ys)"
  by (induction ys) auto

lemma set_sortRecords: "set (sortRecords rs so) = set rs"
proof -
  have "set (foldr (place lt) xs []) = set xs" for lt :: "lb_record \<Rightarrow> lb_record \<Rightarrow> bool" and xs
    by (induction xs) (simp_all add: set_place)
  then show ?thesis by (simp add: sortRecords_def sort_slice_def)
qed

lemma record_rows_set: "r \<in> set (record_rows st i x) \<longleftrightarrow> (\<exists>w. fmlookup (lbRecords st) (i, x, w) = Some r)"
  by (force simp: record_rows_def List.map_filter_def sorted_list_of_fset.rep_eq fmlookup_dom_iff)

lemma build_coherent:
  assumes c: "coherent st" and b: "getOrBuildRankCache flips st i x lb = Some (st', out)"
    and lb: "fmlookup (lbBoards st) i = Some lb"
  shows "coherent st'"
proof (cases "fmlookup (lbLocal st) (list_key i x)")
  case (Some rs)
  with b c show ?thesis by (simp add: getOrBuildRankCache_def)
next
  case None
  let ?rs = "sortRecords (record_rows st i x) (SortOrder lb)"
  obtain g loaded where g: "LoadFromRecords flips (lbRank st) i x (SortOrder lb) (EnableRanks lb) ?rs = Some (g, loaded)"
    "gc_ok g" "\<forall>k. k \<noteq> (i, x) \<longrightarrow> cached g k = cached (lbRank st) k"
    "\<forall>w e. cached g (i, x) w = Some e \<longrightarrow> (\<exists>r\<in>set ?rs. entry_of r = e \<and> ROwnerID r = w)"
    "gc_order g = (gc_order (lbRank st))((i, x) \<mapsto> SortOrder lb = SortOrderAscending)"
    "\<not> EnableRanks lb \<longrightarrow> cached g (i, x) = Map.empty"
    by (rule LoadFromRecords_ok [OF coherentD(1) [OF c], where flips = flips and i = i and expiry = x and
          so = "SortOrder lb" and en = "EnableRanks lb" and records = ?rs])
  have st': "lbRank st' = g" "lbRecords st' = lbRecords st" "lbBoards st' = lbBoards st"
    "lbBlacklist st' = lbBlacklist st"
    using b g(1) None by (auto simp: getOrBuildRankCache_def Let_def)
  have "\<exists>r. fmlookup (lbRecords st) (j, y, w) = Some r \<and> entry_of r = e"
    if "\<not> IsRankCacheBlacklisted (lbBlacklist st) j" "cached g (j, y) w = Some e" for j y w e
  proof (cases "(j, y) = (i, x)")
    case True
    with g(4) that(2) obtain r where "r \<in> set ?rs" "entry_of r = e" "ROwnerID r = w" by blast
    then show ?thesis using True coherentD(3) [OF c] by (auto simp: set_sortRecords record_rows_set)
  next
    case False
    with g(3) that coherentD(2) [OF c] show ?thesis by metis
  qed
  then have "cache_sound st'" by (simp add: cache_sound_def st')
  moreover have "order_sound st'"
    using c lb by (auto simp: order_sound_def st' g(5) coherent_def split: if_splits)
  moreover have "unranked_empty st'"
    unfolding unranked_empty_def st'
  proof (intro allI impI)
    fix j y b
    assume b: "fmlookup (lbBoards st) j = Some b" "\<not> EnableRanks b"
    show "cached g (j, y) = Map.empty"
    proof (cases "(j, y) = (i, x)")
      case True
      with b lb g(6) show ?thesis by simp
    next
      case False
      with g(3) coherentD(5) [OF c b] show ?thesis by simp
    qed
  qed
  ultimately show ?thesis using c g(2) by (simp add: coherent_def st' keyed_def)
qed

subsection \<open>Inserting a record\<close>

lemma insert_coherent:
  assumes c: "coherent st" and lb: "fmlookup (lbBoards st) i = Some lb" and own: "ROwnerID r = owner"
    and ins: "gc_Insert coins (lbBlacklist st) (lbRank st) i (SortOrder lb) (RScore r) (RSubscore r) expiry owner
      (EnableRanks lb) = Some (g, k)"
    and rank: "lbRank st' = g" and rec: "lbRecords st' = fmupd (i, expiry, owner) r (lbRecords st)"
    and boards: "\<And>j. rank_columns st' j = rank_columns st j" and bl: "lbBlacklist st' = lbBlacklist st"
  shows "coherent st'" and "gc_GetRank (lbBlacklist st) g i expiry owner = Some k"
    and "EnableRanks lb \<and> \<not> IsRankCacheBlacklisted (lbBlacklist st) i \<longrightarrow>
      cached g (i, expiry) owner = Some (entry_of r) \<and> (\<exists>rc. fmlookup g (i, expiry) = Some rc \<and> rcEnabled rc)"
proof -
  let ?on = "\<not> IsRankCacheBlacklisted (lbBlacklist st) i \<and> EnableRanks lb"
  obtain g' k' where G: "gc_Insert coins (lbBlacklist st) (lbRank st) i (SortOrder lb) (RScore r) (RSubscore r)
      expiry owner (EnableRanks lb) = Some (g', k')" "gc_ok g'"
    "cached g' = (if IsRankCacheBlacklisted (lbBlacklist st) i \<or> \<not> EnableRanks lb then cached (lbRank st)
       else (cached (lbRank st))((i, expiry) := (cached (lbRank st) (i, expiry))(owner \<mapsto>
         \<lparr>REOwnerID = owner, REScore = RScore r, RESubscore = RSubscore r\<rparr>)))"
    "gc_GetRank (lbBlacklist st) g' i expiry owner = Some k'"
    "gc_order g' = (if IsRankCacheBlacklisted (lbBlacklist st) i then gc_order (lbRank st)
       else (gc_order (lbRank st))((i, expiry) \<mapsto>
         (case gc_order (lbRank st) (i, expiry) of None \<Rightarrow> SortOrder lb = SortOrderAscending | Some b \<Rightarrow> b)))"
    "?on \<longrightarrow> (\<exists>rc. fmlookup g' (i, expiry) = Some rc \<and> rcEnabled rc)"
    by (rule gc_Insert_ok [OF coherentD(1) [OF c], where coins = coins and bl = "lbBlacklist st" and i = i and
        so = "SortOrder lb" and s = "RScore r" and ss = "RSubscore r" and expiry = expiry and w = owner and
        en = "EnableRanks lb"])
  have g: "g' = g" "k' = k" using ins G(1) by simp_all
  have e: "\<lparr>REOwnerID = owner, REScore = RScore r, RESubscore = RSubscore r\<rparr> = entry_of r"
    by (simp add: entry_of_def own)
  have kept: "cached g = cached (lbRank st)" if "\<not> ?on" using that G(3) g by auto
  have new: "cached g = (cached (lbRank st))((i, expiry) := (cached (lbRank st) (i, expiry))(owner \<mapsto> entry_of r))"
    if ?on using that G(3) g e by simp
  have "cache_sound st'"
    unfolding cache_sound_def
  proof (intro allI impI)
    fix j x w d
    assume n: "\<not> IsRankCacheBlacklisted (lbBlacklist st') j" and d: "cached (lbRank st') (j, x) w = Some d"
    show "\<exists>q. fmlookup (lbRecords st') (j, x, w) = Some q \<and> entry_of q = d"
    proof (cases "(j, x, w) = (i, expiry, owner)")
      case True
      have ?on
      proof (rule ccontr)
        assume off: "\<not> ?on"
        with n True have "\<not> EnableRanks lb" by (simp add: bl)
        with coherentD(5) [OF c lb] kept [OF off] d True show False by (simp add: rank)
      qed
      with new d True show ?thesis by (simp add: rank rec)
    next
      case False
      then have "cached (lbRank st) (j, x) w = Some d"
        using d kept new by (cases ?on) (auto simp: rank split: if_splits)
      with coherentD(2) [OF c, of j x w d] n False show ?thesis by (auto simp: rec bl)
    qed
  qed
  moreover have "keyed st'" using c own by (auto simp: keyed_def rec coherent_def split: if_splits)
  moreover have "order_sound st'"
    unfolding order_sound_def
  proof (intro allI impI)
    fix j x b
    assume "gc_order (lbRank st') (j, x) = Some b"
    then consider "gc_order (lbRank st) (j, x) = Some b" | "(j, x) = (i, expiry)" "b = (SortOrder lb = SortOrderAscending)"
      using G(5) by (auto simp: rank g split: if_splits option.splits)
    then have "\<exists>lb. fmlookup (lbBoards st) j = Some lb \<and> b = (SortOrder lb = SortOrderAscending)"
      using coherentD(4) [OF c] lb by cases blast+
    then show "\<exists>lb. fmlookup (lbBoards st') j = Some lb \<and> b = (SortOrder lb = SortOrderAscending)"
      using rank_columnsD [OF boards] by metis
  qed
  moreover have "unranked_empty st'"
    unfolding unranked_empty_def
  proof (intro allI impI)
    fix j x b
    assume b: "fmlookup (lbBoards st') j = Some b" "\<not> EnableRanks b"
    obtain b' where b': "fmlookup (lbBoards st) j = Some b'" "\<not> EnableRanks b'"
      using rank_columnsD [OF boards [symmetric] b(1)] b(2) by auto
    have "j = i \<Longrightarrow> \<not> ?on" using b' lb by simp
    then have "cached g (j, x) = cached (lbRank st) (j, x)" using kept new by (cases ?on) auto
    with coherentD(5) [OF c b'] show "cached (lbRank st') (j, x) = Map.empty" by (simp add: rank)
  qed
  ultimately show "coherent st'" using G(2) by (simp add: coherent_def rank g)
  show "gc_GetRank (lbBlacklist st) g i expiry owner = Some k" using G(4) g by simp
  show "EnableRanks lb \<and> \<not> IsRankCacheBlacklisted (lbBlacklist st) i \<longrightarrow>
      cached g (i, expiry) owner = Some (entry_of r) \<and> (\<exists>rc. fmlookup g (i, expiry) = Some rc \<and> rcEnabled rc)"
    using G(6) new g by auto
qed

subsection \<open>Submissions\<close>

lemma submit_coherent:
  assumes c: "coherent st" and u: "le_uuid env owner = Some owner"
    and s: "SubmitScore env coins now dbnow st i owner username score subscore md byPlayer override =
      returns (st', Inr rec)"
  shows "coherent st'"
    and "\<exists>lb expiry. fmlookup (lbBoards st) i = Some lb \<and>
      CalculateExpiry lb 0 (unix now) = returns (Some expiry) \<and>
      gc_GetRank (lbBlacklist st) (lbRank st') i expiry owner = Some (RRank rec) \<and>
      (\<exists>r. fmlookup (lbRecords st') (i, expiry, owner) = Some r \<and> RScore rec = RScore r \<and>
        RSubscore rec = RSubscore r \<and>
        (EnableRanks lb \<and> \<not> IsRankCacheBlacklisted (lbBlacklist st) i \<longrightarrow>
          cached (lbRank st') (i, expiry) owner = Some (entry_of r) \<and>
          (\<exists>rc. fmlookup (lbRank st') (i, expiry) = Some rc \<and> rcEnabled rc)))"
proof -
  obtain lb expiry uid st2 r g hits old where S:
    "fmlookup (lbBoards st) i = Some lb" "CalculateExpiry lb 0 (unix now) = returns (Some expiry)"
    "le_uuid env owner = Some uid" "stored (st\<lparr>lbHits := hits\<rparr>) i lb expiry uid score subscore override r"
    "st2 = store_record (st\<lparr>lbHits := hits\<rparr>) i lb expiry uid (effective_operator lb override) r old"
    "gc_Insert coins (lbBlacklist st) (lbRank st) i (SortOrder lb) (RScore r) (RSubscore r) expiry owner
       (EnableRanks lb) = Some (g, RRank rec)"
    "st' = publishInvalidation (st2\<lparr>lbRank := g\<rparr>) i expiry" "RScore rec = RScore r" "RSubscore rec = RSubscore r"
    by (rule SubmitScoreE [OF s])
  have uid: "uid = owner" using S(3) u by simp
  have own: "ROwnerID r = owner"
    using S(4) coherentD(3) [OF c] by (auto simp: stored_def uid split: option.splits)
  have rank: "lbRank st' = g" and rec: "lbRecords st' = fmupd (i, expiry, owner) r (lbRecords st)"
    and boards: "rank_columns st' j = rank_columns st j" for j
    using S(1) by (auto simp: S(5,7) publishInvalidation_def uid rank_columns_def)
  have bl: "lbBlacklist st' = lbBlacklist st" by (simp add: S(5,7) publishInvalidation_def)
  note I = insert_coherent [OF c S(1) own S(6) rank rec boards bl]
  show "coherent st'" by (rule I(1))
  show "\<exists>lb expiry. fmlookup (lbBoards st) i = Some lb \<and>
      CalculateExpiry lb 0 (unix now) = returns (Some expiry) \<and>
      gc_GetRank (lbBlacklist st) (lbRank st') i expiry owner = Some (RRank rec) \<and>
      (\<exists>r. fmlookup (lbRecords st') (i, expiry, owner) = Some r \<and> RScore rec = RScore r \<and>
        RSubscore rec = RSubscore r \<and>
        (EnableRanks lb \<and> \<not> IsRankCacheBlacklisted (lbBlacklist st) i \<longrightarrow>
          cached (lbRank st') (i, expiry) owner = Some (entry_of r) \<and>
          (\<exists>rc. fmlookup (lbRank st') (i, expiry) = Some rc \<and> rcEnabled rc)))"
    using S(1,2,8,9) I(2,3) by (intro exI [of _ lb] exI [of _ expiry]) (auto simp: rank rec)
qed

subsection \<open>Every operation\<close>

lemma create_coherent:
  assumes c: "coherent st" and s: "CreateLeaderboard env now st lb = (st', res)"
  shows "coherent st'"
proof (cases res)
  case (Inl err)
  with s have "st' = st"
    by (auto simp: CreateLeaderboard_def Let_def split: sum.splits if_splits option.splits)
  with c show ?thesis by simp
next
  case (Inr u)
  with s obtain row where new: "fmlookup (lbBoards st) (BID lb) = None"
    and st': "lbBoards st' = fmupd (BID lb) row (lbBoards st)" "lbRank st' = lbRank st"
      "lbRecords st' = lbRecords st" "lbBlacklist st' = lbBlacklist st"
    by (auto simp: CreateLeaderboard_def Let_def split: sum.splits if_splits option.splits)
  have none: "gc_order (lbRank st) (BID lb, x) = None" for x
    using coherentD(4) [OF c, of "BID lb" x] new by (cases "gc_order (lbRank st) (BID lb, x)") auto
  then have empty: "cached (lbRank st) (BID lb, x) = Map.empty" for x
    using none [of x] by (simp add: gc_order_def cached_def)
  have "order_sound st'"
    using c new by (auto simp: order_sound_def coherent_def st' none split: if_splits)
  moreover have "unranked_empty st'"
    using c by (simp add: unranked_empty_def coherent_def st' empty)
  ultimately show ?thesis
    using c by (simp add: coherent_def cache_sound_def keyed_def st')
qed

lemma delete_expiry_coherent:
  assumes c: "coherent st" and s: "DeleteRecordForExpiry env st i owner expiry = Some (st', res)"
    and u: "le_uuid env owner = Some owner"
  shows "coherent st'"
proof -
  obtain g where g: "gc_Delete (lbRank st) i expiry owner = Some g" "gc_ok g"
    "cached g = (cached (lbRank st))((i, expiry) := (cached (lbRank st) (i, expiry))(owner := None))"
    "gc_order g = gc_order (lbRank st)"
    by (rule gc_Delete_ok [OF coherentD(1) [OF c]])
  have st': "lbRank st' = g" "lbRecords st' = fmdrop (i, expiry, owner) (lbRecords st)"
    "lbBoards st' = lbBoards st" "lbBlacklist st' = lbBlacklist st"
    using s by (auto simp: DeleteRecordForExpiry_def u g(1) publishInvalidation_def)
  have "cached g (j, x) w = Some e \<Longrightarrow> (j, x, w) \<noteq> (i, expiry, owner) \<and> cached (lbRank st) (j, x) w = Some e" for j x w e
    by (auto simp: g(3) split: if_splits)
  then have "cache_sound st'" using coherentD(2) [OF c] by (fastforce simp: cache_sound_def st')
  moreover have "unranked_empty st'"
    using coherentD(5) [OF c] by (auto simp: unranked_empty_def st' g(3))
  ultimately show ?thesis
    using c g(2) by (simp add: coherent_def keyed_def order_sound_def st' g(4))
qed

lemma coherent_entries:
  assumes c: "coherent st" and "lbRank st' = lbRank st" "lbBoards st' = lbBoards st" "lbBlacklist st' = lbBlacklist st"
    and e: "\<And>k. map_option entry_of (fmlookup (lbRecords st') k) = map_option entry_of (fmlookup (lbRecords st) k)"
  shows "coherent st'"
proof -
  have "cache_sound st'"
    unfolding cache_sound_def
  proof (intro allI impI)
    fix i x w d
    assume "\<not> IsRankCacheBlacklisted (lbBlacklist st') i" "cached (lbRank st') (i, x) w = Some d"
    then obtain r where "fmlookup (lbRecords st) (i, x, w) = Some r" "entry_of r = d"
      using coherentD(2) [OF c] assms(2,4) by metis
    then show "\<exists>r. fmlookup (lbRecords st') (i, x, w) = Some r \<and> entry_of r = d"
      using e [of "(i, x, w)"] by (auto simp: map_option_eq_Some)
  qed
  moreover have "keyed st'"
    unfolding keyed_def
  proof (intro allI impI)
    fix i x w r
    assume "fmlookup (lbRecords st') (i, x, w) = Some r"
    then obtain q where "fmlookup (lbRecords st) (i, x, w) = Some q" "entry_of q = entry_of r"
      using e [of "(i, x, w)"] by (cases "fmlookup (lbRecords st) (i, x, w)") auto
    then show "ROwnerID r = w" using coherentD(3) [OF c] by (simp add: entry_of_def)
  qed
  ultimately show ?thesis using c assms(2-4) by (simp add: coherent_def order_sound_def unranked_empty_def)
qed

lemma attempt_coherent:
  assumes c: "coherent st" and s: "AddAttempt env now st i owner count = returns (st', res)"
  shows "coherent st'"
proof -
  have "lbRank st' = lbRank st \<and> lbBoards st' = lbBoards st \<and> lbBlacklist st' = lbBlacklist st \<and>
    (\<forall>k. map_option entry_of (fmlookup (lbRecords st') k) = map_option entry_of (fmlookup (lbRecords st) k))"
    using s unfolding AddAttempt_def and_then_def
    by (auto simp: entry_of_def split: if_splits option.splits sum.splits prod.splits)
  with coherent_entries [OF c] show ?thesis by blast
qed

text \<open>Joining for the first time.\<close>

lemma JoinTournamentE:
  assumes "JoinTournament env coins now dbnow st i owner username = returns (st', res)"
  obtains "st' = st" "res \<noteq> Inr ()"
  | lb sa ea expiry uid st1 g k where "res = Inr ()" "fmlookup (lbBoards st) i = Some lb" "IsTournament lb"
      "ActiveDeadlines lb (unix now) = returns (sa, ea, expiry)" "in_window sa ea (unix now)"
      "le_uuid env owner = Some uid" "join_tables dbnow st i lb expiry uid username = Inr st1"
      "gc_Insert coins (lbBlacklist st1) (lbRank st1) i (SortOrder lb) 0 0 expiry owner (EnableRanks lb) = Some (g, k)"
      "st' = st1\<lparr>lbRank := g\<rparr>"
  using assms unfolding JoinTournament_def and_then_def
  by (auto split: if_splits option.splits sum.splits prod.splits)

lemma join_coherent:
  assumes c: "coherent st" and s: "JoinTournament env coins now dbnow st i owner username = returns (st', res)"
    and u: "le_uuid env owner = Some owner" and new: "\<forall>x. fmlookup (lbRecords st) (i, x, owner) = None"
  shows "coherent st'"
  using s
proof (cases rule: JoinTournamentE)
  case 1
  with c show ?thesis by simp
next
  case (2 lb sa ea expiry uid st1 g k)
  have uid: "uid = owner" using 2(6) u by simp
  define r where "r = \<lparr>RLeaderboardID = i, ROwnerID = uid, RUsername = username, RScore = 0, RSubscore = 0,
      RNumScore = 0, RMaxNumScore = (if MaxNumScore lb \<le> 0 then 1000000 else MaxNumScore lb),
      RMetadata = ''{}'', RCreateTime = dbnow, RUpdateTime = dbnow, RExpiryTime = expiry, RRank = 0\<rparr>"
  have st1: "st1 = st\<lparr>lbRecords := fmupd (i, expiry, uid) r (lbRecords st),
      lbBoards := fmupd i (lb\<lparr>Size := Size lb + 1\<rparr>) (lbBoards st)\<rparr>"
    using 2(7) new by (auto simp: join_tables_def uid Let_def r_def split: if_splits)
  have rank: "lbRank st' = g" and rec: "lbRecords st' = fmupd (i, expiry, owner) r (lbRecords st)"
    and boards: "rank_columns st' j = rank_columns st j" and bl: "lbBlacklist st' = lbBlacklist st" for j
    using 2(2) by (auto simp: 2(9) st1 uid rank_columns_def)
  have "gc_Insert coins (lbBlacklist st) (lbRank st) i (SortOrder lb) (RScore r) (RSubscore r) expiry owner
      (EnableRanks lb) = Some (g, k)" and own: "ROwnerID r = owner"
    using 2(8) by (simp_all add: st1 r_def uid)
  from insert_coherent(1) [OF c 2(2) own this(1) rank rec boards bl] show ?thesis .
qed

lemma reset_coherent:
  assumes c: "coherent st" and s: "ManualReset now dbnow st i archive = returns (st', res)"
  shows "coherent st'"
proof (cases res)
  case (Inl err)
  with s have "st' = st"
    by (auto simp: ManualReset_def and_then_def Let_def split: sum.splits option.splits prod.splits)
  with c show ?thesis by simp
next
  case (Inr n)
  obtain lb where lb: "fmlookup (lbBoards st) i = Some lb"
    using s Inr by (auto simp: ManualReset_def GetLeaderboard_def split: option.splits)
  obtain expiry where e: "CalculateExpiry lb 0 (unix now) = returns (Some expiry)"
    using s Inr by (auto simp: ManualReset_def GetLeaderboard_def lb and_then_def split: option.splits sum.splits)
  obtain st1 n' where a: "(if archive then ArchiveRecordsForExpiry st i expiry (decimal expiry) else (st, 0)) = (st1, n')"
    by fastforce
  then have st1: "lbRecords st1 = lbRecords st" "lbRank st1 = lbRank st" "lbBlacklist st1 = lbBlacklist st"
    "lbBoards st1 = lbBoards st"
    by (auto simp: ArchiveRecordsForExpiry_def Let_def split: if_splits)
  define st2 where "st2 = (if IsTournament lb then
      st1\<lparr>lbSeason := fold (roll_season dbnow i (decimal expiry)) (record_rows st1 i expiry) (lbSeason st1),
        lbBoards := fmupd i (lb\<lparr>Size := 0\<rparr>) (lbBoards st1)\<rparr> else st1)"
  have st2: "lbRecords st2 = lbRecords st" "lbRank st2 = lbRank st" "lbBlacklist st2 = lbBlacklist st"
    "rank_columns st2 j = rank_columns st j" for j
    using lb st1 by (auto simp: st2_def rank_columns_def)
  have st': "st' = evict (st2\<lparr>lbRecords := fmfilter (\<lambda>(b, x, _). \<not> (b = i \<and> x = expiry)) (lbRecords st2)\<rparr>) i expiry"
    using s unfolding ManualReset_def GetLeaderboard_def lb option.case sum.case e and_then_def Let_def a prod.case
      st2_def [symmetric] by simp
  have "lbRecords st' = fmfilter (\<lambda>(b, x, _). \<not> (b = i \<and> x = expiry)) (lbRecords st2)"
    "lbRank st' = fmfilter (\<lambda>l. l \<noteq> (i, expiry)) (lbRank st2)" "lbBlacklist st' = lbBlacklist st2"
    "rank_columns st' j = rank_columns st2 j" for j
    by (simp_all add: st' evict_def EvictPartition_def fmdrop_is_filter rank_columns_def)
  note this [unfolded st2]
  from coherent_filter [OF c this(1,2) _ this(4,3)] show ?thesis by auto
qed

lemma fmfilter_all: "fmfilter (\<lambda>_. True) m = m"
  by (rule fmap_ext) simp

lemma evict_coherent: "coherent st \<Longrightarrow> coherent (evict st i expiry)"
  by (rule coherent_filter [where p = "\<lambda>_. True" and q = "\<lambda>l. l \<noteq> (i, expiry)"])
    (simp_all add: evict_def EvictPartition_def fmdrop_is_filter fmfilter_all rank_columns_def)

lemma coherent_tables:
  assumes "coherent st" and "lbRank st' = lbRank st" "lbRecords st' = lbRecords st" "lbBlacklist st' = lbBlacklist st"
    and "\<And>i. rank_columns st' i = rank_columns st i"
  shows "coherent st'"
  by (rule coherent_filter [OF assms(1), where p = "\<lambda>_. True" and q = "\<lambda>_. True"])
    (simp_all add: assms(2-5) fmfilter_all)

lemma configurations_tables: "\<exists>c. fst (LeaderboardsGetId st ids) = st\<lparr>lbConfig := c\<rparr>"
proof (induction ids arbitrary: st)
  case Nil
  show ?case by (rule exI [of _ "lbConfig st"]) simp
next
  case (Cons i ids)
  show ?case
  proof (cases "cc_Get (lbConfig st) i")
    case (Some lb)
    with Cons.IH [of st] show ?thesis by (simp add: case_prod_unfold Let_def)
  next
    case None
    show ?thesis
    proof (cases "GetLeaderboard st i")
      case (Inl err)
      with None Cons.IH [of st] show ?thesis by simp
    next
      case (Inr lb)
      with None Cons.IH [of "st\<lparr>lbConfig := cc_Put lb (lbConfig st)\<rparr>"] show ?thesis by (simp add: case_prod_unfold Let_def)
    qed
  qed
qed

lemma config_coherent: "coherent st \<Longrightarrow> coherent (st\<lparr>lbConfig := c\<rparr>)"
  by (rule iffD2 [OF coherent_cong]) simp_all

lemma configurations_coherent:
  assumes "LeaderboardsGetId st ids = (st', lbs)" and "coherent st"
  shows "coherent st'"
  using configurations_tables [of st ids] assms(1) config_coherent [OF assms(2)] by auto

lemma archive_coherent: "coherent st \<Longrightarrow> coherent (fst (ArchiveRecordsForExpiry st i expiry season))"
  by (rule coherent_tables [of st]) (simp_all add: ArchiveRecordsForExpiry_def Let_def rank_columns_def)

lemma zero_size_coherent: "coherent st \<Longrightarrow> coherent (zero_size i st)"
  by (rule coherent_tables [of st]) (auto simp: zero_size_def rank_columns_def split: option.split)

lemma update_coherent:
  assumes "TUpdate runT runL now st ts = returns (st', ts')" and "coherent st"
  shows "coherent st'"
proof -
  have "st' = st \<or> st' = st\<lparr>lbConfig := cc_LoadAll (LoadAllLeaderboards st)\<rparr>"
    using assms(1) by (auto simp: TUpdate_def and_then_def split: if_splits option.splits sum.splits)
  then show ?thesis using assms(2) config_coherent by metis
qed

lemma evict_rank_coherent:
  "coherent st \<Longrightarrow> coherent (st\<lparr>lbRank := EvictPartition (lbRank st) i expiry\<rparr>)"
  by (rule iffD2 [OF coherent_cong evict_coherent [of st i expiry]]) (simp_all add: evict_def)

lemma callback_coherent:
  assumes "invokeCallback env genc gdec now replies (st, ts) cb = returns ((st', ts'), calls)" and "coherent st"
  shows "coherent st'"
proof -
  let ?i = "CbId cb" and ?x = "CbExpiry cb"
  let ?archived = "fst (ArchiveRecordsForExpiry st ?i ?x (decimal ?x))"
  let ?reset = "(zero_size ?i ?archived)\<lparr>lbRank := EvictPartition (lbRank (zero_size ?i ?archived)) ?i ?x\<rparr>"
  have "st' = st \<or> st' = ?archived \<or> st' = ?reset"
  proof (cases "CbKind cb")
    case TournamentEnd
    obtain ts1 won where "tryAcquireRewardLock now (snd replies) ts (reward_key ?i (CbEndActive cb)) = (ts1, won)" by fastforce
    with assms(1) TournamentEnd show ?thesis
      by (auto simp: invokeCallback_def Let_def and_then_def split: if_splits option.splits sum.splits)
  next
    case TournamentReset
    obtain ts1 won where "tryAcquireResetLock now (snd replies) ts (reset_key ?i ?x) = (ts1, won)" by fastforce
    with assms(1) TournamentReset show ?thesis by (auto simp: invokeCallback_def Let_def split: if_splits)
  next
    case LeaderboardReset
    obtain ts1 won where "tryAcquireResetLock now (snd replies) ts (lb_reset_key ?i ?x) = (ts1, won)" by fastforce
    with assms(1) LeaderboardReset show ?thesis by (auto simp: invokeCallback_def Let_def split: if_splits)
  qed
  moreover have "coherent ?archived" by (rule archive_coherent [OF assms(2)])
  moreover have "coherent ?reset" by (rule evict_rank_coherent [OF zero_size_coherent [OF archive_coherent [OF assms(2)]]])
  ultimately show ?thesis using assms(2) by blast
qed

lemma delete_board_coherent: "coherent st \<Longrightarrow> coherent (DeleteLeaderboard st i)"
  by (rule coherent_filter [where p = "\<lambda>(b, _). b \<noteq> i" and q = "\<lambda>k. fst k \<noteq> i"])
    (simp_all add: DeleteLeaderboard_def drop_lists_def gc_DeleteLeaderboard_def rank_columns_def)

lemma delete_record_coherent:
  assumes c: "coherent st" and s: "DeleteRecord env st i owner = (st', res)"
  shows "coherent st'"
proof (cases "le_uuid env owner")
  case None
  with s c show ?thesis by (simp add: DeleteRecord_def)
next
  case (Some uid)
  show ?thesis
    by (rule coherent_filter [OF c, where p = "\<lambda>(b, _, w). \<not> (b = i \<and> w = uid)" and q = "\<lambda>k. fst k \<noteq> i"])
      (use s Some in \<open>auto simp: DeleteRecord_def drop_lists_def gc_DeleteLeaderboard_def rank_columns_def\<close>)
qed

lemma prune_coherent:
  assumes c: "coherent st" and s: "PruneExpiredRecords now st = (st', n)"
  shows "coherent st'"
proof (rule coherent_filter [OF c, where p = "\<lambda>(b, x, w). \<not> (x > 0 \<and> x * 10 ^ 9 < now)"
    and q = "\<lambda>k. \<not> (snd k > 0 \<and> snd k \<le> unix now)"])
  show "lbRecords st' = fmfilter (\<lambda>(b, x, w). \<not> (x > 0 \<and> x * 10 ^ 9 < now)) (lbRecords st)"
    "lbRank st' = fmfilter (\<lambda>k. \<not> (snd k > 0 \<and> snd k \<le> unix now)) (lbRank st)" "lbBlacklist st' = lbBlacklist st"
    "rank_columns st' j = rank_columns st j" for j
    using s by (auto simp: PruneExpiredRecords_def Let_def TrimExpired_def rank_columns_def)
  show "case (i, x, w) of (b, x, w) \<Rightarrow> \<not> (x > 0 \<and> x * 10 ^ 9 < now)"
    if "\<not> (snd (i, x) > 0 \<and> snd (i, x) \<le> unix now)" for i :: string and x :: int and w :: string
    using that by (auto simp: unix_def)
qed

lemma disable_coherent:
  assumes c: "coherent st" and s: "DisableRanks st i tournament = (st', res)"
  shows "coherent st'"
proof (cases res)
  case (Inl err)
  with s have "st' = st" by (auto simp: DisableRanks_def Let_def split: sum.splits if_splits)
  with c show ?thesis by simp
next
  case (Inr u)
  show ?thesis
    by (rule coherent_filter [OF c, where p = "\<lambda>_. True" and q = "\<lambda>k. fst k \<noteq> i"])
      (use s Inr in \<open>auto simp: DisableRanks_def Let_def gc_DeleteLeaderboard_def rank_columns_def fmfilter_all
          split: sum.splits if_splits\<close>)
qed

lemma GetLeaderboard_Inr: "GetLeaderboard st i = Inr lb \<longleftrightarrow> fmlookup (lbBoards st) i = Some lb"
  by (simp add: GetLeaderboard_def split: option.split)

lemma around_coherent:
  assumes c: "coherent st"
    and s: "GetLeaderboardRecordsAroundPlayer flips now st i owner limit expiry = returns (st', res)"
  shows "coherent st'"
proof -
  consider "st' = st" | lb x out where "GetLeaderboard st i = Inr lb" "getOrBuildRankCache flips st i x lb = Some (st', out)"
    using s unfolding GetLeaderboardRecordsAroundPlayer_def Let_def and_then_def
    by (auto split: sum.splits option.splits if_splits)
  then show ?thesis using c build_coherent [OF c] by cases (auto simp: GetLeaderboard_Inr)
qed

lemma resolve_board:
  "ResolveCurrentExpiry now st i override = returns (Inr (x, lb)) \<Longrightarrow> fmlookup (lbBoards st) i = Some lb"
  by (auto simp: ResolveCurrentExpiry_def and_then_def GetLeaderboard_Inr split: sum.splits option.splits)

lemma cursor_coherent:
  assumes c: "coherent st"
    and s: "RecordsListCursorFromRank genc flips now st i rank override = returns (st', res)"
  shows "coherent st'"
proof -
  consider "st' = st" | lb x out where "ResolveCurrentExpiry now st i override = returns (Inr (x, lb))"
      "getOrBuildRankCache flips st i x lb = Some (st', out)"
    using s unfolding RecordsListCursorFromRank_def Let_def and_then_def
    by (auto split: sum.splits option.splits if_splits)
  then show ?thesis using c build_coherent [OF c] resolve_board by cases blast+
qed

lemma step_coherent: "lb_step env st st' \<Longrightarrow> coherent st \<Longrightarrow> coherent st'"
proof (induction rule: lb_step.induct)
  case (submit coins now dbnow st i owner username score subscore md byPlayer override st' res)
  show ?case
  proof (cases res)
    case (Inl err)
    have "st' = st\<lparr>lbHits := lbHits st'\<rparr>" by (rule submit_error [OF submit(1) [unfolded Inl]])
    moreover have "coherent (st\<lparr>lbHits := h\<rparr>)" for h by (rule iffD2 [OF coherent_cong submit(3)]) simp_all
    ultimately show ?thesis by metis
  next
    case (Inr rec)
    with submit submit_coherent(1) show ?thesis by blast
  qed
next
  case (create now st lb st' res)
  then show ?case using create_coherent by blast
next
  case (delete_board st i)
  then show ?case by (rule delete_board_coherent)
next
  case (delete_record st i owner st' res)
  then show ?case using delete_record_coherent by blast
next
  case (delete_expiry st i owner expiry st' res)
  then show ?case using delete_expiry_coherent by blast
next
  case (prune now st st' n)
  then show ?case using prune_coherent by blast
next
  case (invalidate st i expiry)
  then show ?case by (rule evict_coherent)
next
  case (disable st i tournament st' res)
  then show ?case using disable_coherent by blast
next
  case (reset now dbnow st i archive st' res)
  then show ?case using reset_coherent by blast
next
  case (around_player flips now st i owner limit expiry st' res)
  then show ?case using around_coherent by blast
next
  case (cursor_from_rank genc flips now st i rank override st' res)
  then show ?case using cursor_coherent by blast
next
  case (add_attempt now st i owner count st' res)
  then show ?case using attempt_coherent by blast
next
  case (join coins now dbnow st i owner username st' res)
  then show ?case using join_coherent by blast
next
  case (configurations st ids st' lbs)
  then show ?case using configurations_coherent by blast
next
  case (archive st i expiry season st' n)
  then show ?case using archive_coherent by (metis fst_conv)
next
  case (scheduler_update runT runL now st ts st' ts')
  then show ?case using update_coherent by blast
next
  case (scheduler_callback genc gdec now replies st ts cb st' ts' calls)
  then show ?case using callback_coherent by blast
qed

subsection \<open>What the cache promises\<close>

definition no_boards :: "rank_blacklist \<Rightarrow> lb_state" where
  "no_boards bl =
     \<lparr>lbBoards = fmempty, lbRecords = fmempty, lbAudit = [], lbArchive = [], lbSeason = fmempty,
      lbConfig = fmempty, lbRank = fmempty, lbLocal = fmempty, lbHits = fmempty, lbBlacklist = bl\<rparr>"

lemma no_boards_coherent: "coherent (no_boards bl)"
  by (simp add: coherent_def no_boards_def gc_ok_empty cache_sound_def keyed_def order_sound_def unranked_empty_def
      cached_def gc_order_def)

lemma run_coherent: "(lb_step env)\<^sup>*\<^sup>* (no_boards bl) st \<Longrightarrow> coherent st"
  by (induction rule: rtranclp_induct) (simp_all add: no_boards_coherent step_coherent)

text \<open>The rank by the table, and whether the whole partition is cached.\<close>

definition true_rank :: "lb_state \<Rightarrow> board \<Rightarrow> string \<Rightarrow> int \<Rightarrow> string \<Rightarrow> int" where
  "true_rank st lb i x w =
     (case fmlookup (lbRecords st) (i, x, w) of
        None \<Rightarrow> 0
      | Some r \<Rightarrow> 1 + int (card {v. \<exists>q. fmlookup (lbRecords st) (i, x, v) = Some q \<and>
          entry_less (SortOrder lb = SortOrderAscending) (entry_of q) (entry_of r)}))"

definition fully_cached :: "lb_state \<Rightarrow> string \<Rightarrow> int \<Rightarrow> bool" where
  "fully_cached st i x \<longleftrightarrow>
     (\<forall>w. fmlookup (lbRecords st) (i, x, w) \<noteq> None \<longrightarrow> cached (lbRank st) (i, x) w \<noteq> None)"

lemma rank_true:
  assumes c: "coherent st" and bl: "\<not> IsRankCacheBlacklisted (lbBlacklist st) i"
    and lb: "fmlookup (lbBoards st) i = Some lb"
    and rank: "gc_GetRank (lbBlacklist st) (lbRank st) i x w = Some k"
  shows "k \<le> true_rank st lb i x w" and "k = 0 \<or> (fully_cached st i x \<longrightarrow> k = true_rank st lb i x w)"
proof -
  let ?asc = "SortOrder lb = SortOrderAscending"
  have pos: "0 \<le> true_rank st lb i x w" by (simp add: true_rank_def split: option.split)
  have "k = 0 \<or> k \<le> true_rank st lb i x w \<and> (fully_cached st i x \<longrightarrow> k = true_rank st lb i x w)"
  proof (cases "k = 0")
    case False
    obtain rc where rc: "fmlookup (lbRank st) (i, x) = Some rc" "rcEnabled rc"
      using rank bl False by (auto simp: gc_GetRank_def split: option.splits if_splits)
    have asc: "sortAsc (rcSl rc) = ?asc"
      using coherentD(4) [OF c, of i x "sortAsc (rcSl rc)"] lb rc(1) by (auto simp: gc_order_def)
    obtain e where e: "cached (lbRank st) (i, x) w = Some e"
      "k = 1 + int (card {v. \<exists>d. cached (lbRank st) (i, x) v = Some d \<and> entry_less ?asc d e})"
      using rank gc_rank [OF coherentD(1) [OF c] rc bl, of w] False
      by (cases "cached (lbRank st) (i, x) w") (auto simp: asc)
    obtain r where r: "fmlookup (lbRecords st) (i, x, w) = Some r" "entry_of r = e"
      using coherentD(2) [OF c bl e(1)] by blast
    let ?C = "{v. \<exists>d. cached (lbRank st) (i, x) v = Some d \<and> entry_less ?asc d e}"
    let ?T = "{v. \<exists>q. fmlookup (lbRecords st) (i, x, v) = Some q \<and> entry_less ?asc (entry_of q) e}"
    have sub: "?C \<subseteq> ?T" using coherentD(2) [OF c bl] by blast
    have "?T \<subseteq> (\<lambda>(_, _, v). v) ` fset (fmdom (lbRecords st))" by (force simp: fmlookup_dom_iff)
    then have "finite ?T" by (rule finite_subset) simp
    with sub have "card ?C \<le> card ?T" by (intro card_mono)
    moreover have "?C = ?T" if full: "fully_cached st i x"
    proof
      show "?T \<subseteq> ?C"
      proof
        fix v
        assume "v \<in> ?T"
        then obtain q where q: "fmlookup (lbRecords st) (i, x, v) = Some q" "entry_less ?asc (entry_of q) e" by blast
        then obtain d where d: "cached (lbRank st) (i, x) v = Some d" using full by (auto simp: fully_cached_def)
        with coherentD(2) [OF c bl d] q show "v \<in> ?C" by auto
      qed
    qed (rule sub)
    ultimately show ?thesis using e(2) r by (simp add: true_rank_def)
  qed simp
  with pos show "k \<le> true_rank st lb i x w" "k = 0 \<or> (fully_cached st i x \<longrightarrow> k = true_rank st lb i x w)" by auto
qed


text \<open>After an eviction the next submission starts an empty partition: its rank is too good.\<close>

definition board_all :: board where
  "board_all = daily_board\<lparr>BID := ''all'', ResetSchedule := []\<rparr>"

definition no_blacklist :: rank_blacklist where
  "no_blacklist = \<lparr>blIDs = fmempty, blAll = False\<rparr>"

definition evicted_run :: lb_state where
  "evicted_run =
     after_submit (evict (after_submit (fst (CreateLeaderboard demo_env 0 (no_boards no_blacklist) board_all)) ''amy'' 9)
       ''all'' 0) ''bob'' 5"

lemma after_submit_step: "lb_step demo_env st (after_submit st owner score) \<or> after_submit st owner score = st"
  unfolding after_submit_def demo_submit_def
  by (auto split: option.splits sum.splits intro!: lb_step.submit simp: demo_env_def)

lemma after_submit_run: "(lb_step demo_env)\<^sup>*\<^sup>* s st \<Longrightarrow> (lb_step demo_env)\<^sup>*\<^sup>* s (after_submit st owner score)"
  using after_submit_step [of st owner score] rtranclp.rtrancl_into_rtrancl by metis

lemma evicted_reached: "(lb_step demo_env)\<^sup>*\<^sup>* (no_boards no_blacklist) evicted_run"
proof -
  let ?s1 = "fst (CreateLeaderboard demo_env 0 (no_boards no_blacklist) board_all)"
  have "lb_step demo_env (no_boards no_blacklist) ?s1"
    by (rule lb_step.create [of _ 0 _ board_all _ "snd (CreateLeaderboard demo_env 0 (no_boards no_blacklist) board_all)"]) simp
  then have "(lb_step demo_env)\<^sup>*\<^sup>* (no_boards no_blacklist) (after_submit ?s1 ''amy'' 9)"
    by (intro after_submit_run r_into_rtranclp)
  from rtranclp.rtrancl_into_rtrancl [OF this, OF lb_step.invalidate]
  show ?thesis unfolding evicted_run_def by (rule after_submit_run)
qed

lemma evicted_rank:
  "gc_GetRank (lbBlacklist evicted_run) (lbRank evicted_run) ''all'' 0 ''bob'' = Some 1"
  "\<not> IsRankCacheBlacklisted (lbBlacklist evicted_run) ''all''"
  "map_option SortOrder (fmlookup (lbBoards evicted_run) ''all'') = Some 1"
  by code_simp+

lemma evicted_table:
  "map (\<lambda>r. (ROwnerID r, score_of r)) (record_rows evicted_run ''all'' 0) = [(''amy'', 9, 0), (''bob'', 5, 0)]"
  by code_simp

lemma record_rows_rank:
  assumes c: "coherent st" and r: "fmlookup (lbRecords st) (i, x, w) = Some r"
  shows "true_rank st lb i x w = 1 + int (card {v. \<exists>q\<in>set (record_rows st i x). ROwnerID q = v \<and>
      entry_less (SortOrder lb = SortOrderAscending) (entry_of q) (entry_of r)})"
proof -
  have "(\<exists>q. fmlookup (lbRecords st) (i, x, v) = Some q \<and> P q) \<longleftrightarrow> (\<exists>q\<in>set (record_rows st i x). ROwnerID q = v \<and> P q)"
    for v P
    using coherentD(3) [OF c] by (auto simp: record_rows_set Bex_def)
  with r show ?thesis by (simp add: true_rank_def)
qed


text \<open>
  Two submissions of one player that overlap: both transactions commit, the cache insertions follow in the
  other order.  The table holds the score 20, the cache ranks the player with 10, behind a score of 15.
\<close>

definition demo_commit ::
  "lb_state \<Rightarrow> string \<Rightarrow> 64 word \<Rightarrow> (lb_state \<times> (lb_error + board \<times> int \<times> lb_record \<times> string)) cron_result" where
  "demo_commit st owner score =
     submit_commit demo_env (10 ^ 9) (10 ^ 9) st ''all'' owner owner score 0 [] False OperatorNoOverride"

definition demo_insert :: "lb_state \<Rightarrow> board \<times> int \<times> lb_record \<times> string \<Rightarrow> string \<Rightarrow> lb_state option" where
  "demo_insert st = (\<lambda>(lb, expiry, rec, md) owner.
     case submit_rank (\<lambda>_. False) (10 ^ 9) st ''all'' lb expiry owner owner rec md of
       Some (Inr (st', _)) \<Rightarrow> Some st' | _ \<Rightarrow> None)"

lemma overlapping_submissions_stale:
  "let st = after_submit (fst (CreateLeaderboard demo_env 0 (no_boards no_blacklist) board_all)) ''bob'' 15 in
   case demo_commit st ''amy'' 10 of
     Some (Inr (s1, Inr first)) \<Rightarrow>
       (case demo_commit s1 ''amy'' 20 of
          Some (Inr (s2, Inr second)) \<Rightarrow>
            (case demo_insert s2 second ''amy'' of
               Some s3 \<Rightarrow>
                 (case demo_insert s3 first ''amy'' of
                    Some s4 \<Rightarrow>
                      map (\<lambda>r. (ROwnerID r, score_of r)) (record_rows s4 ''all'' 0) = [(''amy'', 20, 0), (''bob'', 15, 0)] \<and>
                      gc_GetRank (lbBlacklist s4) (lbRank s4) ''all'' 0 ''amy'' = Some 2 \<and>
                      gc_GetRank (lbBlacklist s4) (lbRank s4) ''all'' 0 ''bob'' = Some 1
                  | None \<Rightarrow> False)
             | None \<Rightarrow> False)
        | _ \<Rightarrow> False)
   | _ \<Rightarrow> False"
  by code_simp

end
