(* ===== verification/Tournament_Props.thy ===== *)
theory Tournament_Props
  imports Leaderboard_Coherence
begin

section \<open>Properties of tournaments\<close>

text \<open>
  Which callbacks the scheduler finds due, that each hook runs once for its occurrence, who may join,
  and what joining again and adding attempts do to ranks and limits.
\<close>

subsection \<open>Keys\<close>

lemma decimal_nat_digits: "c \<in> set (decimal_nat n) \<Longrightarrow> \<exists>d<10. c = char_of (48 + d :: nat)"
proof (induction n rule: decimal_nat.induct)
  case (1 n)
  have "n mod 10 < 10" by simp
  with 1 show ?case by (subst (asm) (2) decimal_nat.simps) (fastforce split: if_splits)
qed

lemma decimal_nat_inj: "decimal_nat m = decimal_nat n \<Longrightarrow> m = n"
proof (induction m arbitrary: n rule: decimal_nat.induct)
  case (1 m)
  have ne: "decimal_nat k \<noteq> []" for k by (subst decimal_nat.simps) simp
  have d: "char_of (48 + i) = (char_of (48 + j) :: char) \<Longrightarrow> i = j" if "i < 10" "j < 10" for i j :: nat
    using that by (auto dest!: arg_cong [where f = "of_char :: char \<Rightarrow> nat"])
  from 1(2) have e: "(if m < 10 then [char_of (48 + m)] else decimal_nat (m div 10) @ [char_of (48 + m mod 10)]) =
      (if n < 10 then [char_of (48 + n)] else decimal_nat (n div 10) @ [char_of (48 + n mod 10)])"
    by (subst (asm) (1 2) decimal_nat.simps) simp
  show ?case
  proof (cases "m < 10")
    case True
    with e ne ne [symmetric] show ?thesis by (auto split: if_splits intro: d)
  next
    case False
    with e ne ne [symmetric] have n: "\<not> n < 10" by (auto split: if_splits)
    with e False have "decimal_nat (m div 10) = decimal_nat (n div 10)" "char_of (48 + m mod 10) = (char_of (48 + n mod 10) :: char)"
      by auto
    with 1(1) [OF False] d [of "m mod 10" "n mod 10"] have "m div 10 = n div 10" "m mod 10 = n mod 10" by auto
    then show ?thesis by (metis div_mult_mod_eq)
  qed
qed

lemma decimal_no_colon: "CHR '':'' \<notin> set (decimal i)"
proof -
  have "CHR '':'' \<noteq> char_of (48 + d)" if "d < 10" for d :: nat
    using that by (auto dest!: arg_cong [where f = "of_char :: char \<Rightarrow> nat"])
  then show ?thesis using decimal_nat_digits by (auto simp: decimal_def)
qed

lemma decimal_inj: "decimal i = decimal j \<Longrightarrow> i = j"
proof -
  assume e: "decimal i = decimal j"
  have minus: "CHR ''-'' \<noteq> char_of (48 + d)" if "d < 10" for d :: nat
    using that by (auto dest!: arg_cong [where f = "of_char :: char \<Rightarrow> nat"])
  have "CHR ''-'' \<notin> set (decimal_nat n)" for n
    using decimal_nat_digits minus by blast
  then have m: "decimal_nat n \<noteq> CHR ''-'' # s" for n s by (metis list.set_intros(1))
  show "i = j"
    using e m m [symmetric] by (auto simp: decimal_def dest!: decimal_nat_inj split: if_splits)
qed

lemma colon_split:
  "a @ CHR '':'' # b = c @ CHR '':'' # d \<Longrightarrow> CHR '':'' \<notin> set b \<Longrightarrow> CHR '':'' \<notin> set d \<Longrightarrow> a = c \<and> b = d"
  by (auto simp: append_eq_append_conv2 Cons_eq_append_conv append_eq_Cons_conv)

lemma list_key_inj: "list_key i x = list_key j y \<longleftrightarrow> i = j \<and> x = y"
  using colon_split [of i "decimal x" j "decimal y"] decimal_no_colon decimal_inj by (auto simp: list_key_def)

lemma keys_inj:
  "reward_key i x = reward_key j y \<longleftrightarrow> i = j \<and> x = y"
  "reset_key i x = reset_key j y \<longleftrightarrow> i = j \<and> x = y"
  "lb_reset_key i x = lb_reset_key j y \<longleftrightarrow> i = j \<and> x = y"
  "reset_key i x \<noteq> lb_reset_key j y" "reward_key i x \<noteq> reset_key j y" "reward_key i x \<noteq> lb_reset_key j y"
  by (simp_all add: reward_key_def reset_key_def lb_reset_key_def list_key_inj)

subsection \<open>Running callbacks once\<close>

text \<open>Callbacks run one after the other, with Redis those of all nodes; what the rest of the server did to the
  tables in between, the time and the replies of Redis come with each of them.  \<open>same_occurrence\<close> tells which
  callbacks share a key.\<close>

record callback_run =
  ruNow :: gotime
  ruReplies :: "redis_reply \<times> redis_reply"
  ruTables :: lb_state
  ruCallback :: scheduler_callback

fun run_callbacks ::
  "lb_env \<Rightarrow> (record_cursor \<Rightarrow> nat list) \<Rightarrow> (nat list \<Rightarrow> record_cursor option) \<Rightarrow> scheduler \<Rightarrow> callback_run list
   \<Rightarrow> hook_call list list cron_result" where
  "run_callbacks env genc gdec ts [] = returns []"
| "run_callbacks env genc gdec ts (r # runs) =
     and_then (invokeCallback env genc gdec (ruNow r) (ruReplies r) (ruTables r, ts) (ruCallback r)) (\<lambda>((_, ts'), calls).
     and_then (run_callbacks env genc gdec ts' runs) (\<lambda>rest. returns (calls # rest)))"

definition same_occurrence :: "scheduler_callback \<Rightarrow> scheduler_callback \<Rightarrow> bool" where
  "same_occurrence c d \<longleftrightarrow> CbKind c = CbKind d \<and> CbId c = CbId d \<and>
     (if CbKind c = TournamentEnd then CbEndActive c = CbEndActive d else CbExpiry c = CbExpiry d)"

text \<open>What a callback that has the key does: the hook is called, unless the records cannot be fetched.\<close>

definition hook_calls ::
  "lb_env \<Rightarrow> (record_cursor \<Rightarrow> nat list) \<Rightarrow> (nat list \<Rightarrow> record_cursor option) \<Rightarrow> callback_run
   \<Rightarrow> hook_call list cron_result" where
  "hook_calls env genc gdec r =
     (let cb = ruCallback r in
      case CbKind cb of
        TournamentEnd \<Rightarrow>
          (let expiry = (if CbExpiry cb = zero_time \<or> CbExpiry cb = 0 then CbEndActive cb else CbExpiry cb) in
           and_then (GetLeaderboardRecords env genc gdec (ruNow r) (ruTables r) (CbId cb) 100 [] expiry) (\<lambda>res.
           returns (case res of Inl _ \<Rightarrow> [] | Inr (best, _) \<Rightarrow> [RewardCall (CbId cb) expiry best])))
      | TournamentReset \<Rightarrow> returns [ResetCall (CbId cb) (CbEndActive cb) (CbExpiry cb)]
      | LeaderboardReset \<Rightarrow> returns [LeaderboardResetCall (CbId cb) (CbExpiry cb)])"

text \<open>The keys taken, in the local sets or in Redis.\<close>

definition callback_key :: "scheduler_callback \<Rightarrow> string" where
  "callback_key cb =
     (case CbKind cb of
        TournamentEnd \<Rightarrow> reward_key (CbId cb) (CbEndActive cb)
      | TournamentReset \<Rightarrow> reset_key (CbId cb) (CbExpiry cb)
      | LeaderboardReset \<Rightarrow> lb_reset_key (CbId cb) (CbExpiry cb))"

definition taken :: "gotime \<Rightarrow> scheduler \<Rightarrow> scheduler_callback \<Rightarrow> bool" where
  "taken now ts cb \<longleftrightarrow>
     (case tsRedis ts of
        None \<Rightarrow> fmlookup (if CbKind cb = TournamentEnd then tsRewarded ts else tsReset ts) (callback_key cb) \<noteq> None
      | Some db \<Rightarrow> redis_has now db (callback_key cb))"

definition one_store :: "scheduler \<Rightarrow> bool" where
  "one_store ts \<longleftrightarrow> (tsRedis ts \<noteq> None \<longrightarrow> tsRewarded ts = fmempty \<and> tsReset ts = fmempty)"

lemma same_key: "callback_key c = callback_key d \<longleftrightarrow> same_occurrence c d"
  by (cases "CbKind c"; cases "CbKind d")
    (auto simp: callback_key_def same_occurrence_def keys_inj keys_inj(4-6) [symmetric])

text \<open>A callback of any kind: whether it takes the key, and whether it hears that it did.\<close>

definition takes :: "gotime \<Rightarrow> redis_reply \<Rightarrow> scheduler \<Rightarrow> scheduler_callback \<Rightarrow> bool" where
  "takes now reply ts cb \<longleftrightarrow> \<not> taken now ts cb \<and> (tsRedis ts \<noteq> None \<longrightarrow> reply \<noteq> NotReached)"

definition take_key :: "gotime \<Rightarrow> redis_reply \<Rightarrow> scheduler \<Rightarrow> scheduler_callback \<Rightarrow> scheduler" where
  "take_key now reply ts cb =
     (if \<not> takes now reply ts cb then ts
      else case tsRedis ts of
        Some db \<Rightarrow> ts\<lparr>tsRedis := Some (fmupd (callback_key cb) (now + lock_ttl) db)\<rparr>
      | None \<Rightarrow>
          if CbKind cb = TournamentEnd then ts\<lparr>tsRewarded := fmupd (callback_key cb) () (tsRewarded ts)\<rparr>
          else ts\<lparr>tsReset := fmupd (callback_key cb) () (tsReset ts)\<rparr>)"

lemma same_db: "tsRedis ts = Some db \<Longrightarrow> ts\<lparr>tsRedis := Some db\<rparr> = ts"
  by simp

lemma lock_reward:
  assumes "one_store ts" and "CbKind cb = TournamentEnd"
  shows "tryAcquireRewardLock now reply ts (callback_key cb) =
      (take_key now reply ts cb, takes now reply ts cb \<and> (tsRedis ts \<noteq> None \<longrightarrow> reply = Answered))"
    and "isAlreadyRewarded now reply' ts (callback_key cb) \<Longrightarrow> taken now ts cb"
  using assms
  by (auto simp: tryAcquireRewardLock_def take_key_def takes_def taken_def redis_setnx_def isAlreadyRewarded_def
      one_store_def same_db split: option.splits)

lemma lock_reset:
  assumes "one_store ts" and "CbKind cb \<noteq> TournamentEnd"
  shows "tryAcquireResetLock now reply ts (callback_key cb) =
      (take_key now reply ts cb, takes now reply ts cb \<and> (tsRedis ts \<noteq> None \<longrightarrow> reply = Answered))"
    and "isAlreadyReset now reply' ts (callback_key cb) \<Longrightarrow> taken now ts cb"
  using assms
  by (auto simp: tryAcquireResetLock_def take_key_def takes_def taken_def redis_setnx_def isAlreadyReset_def
      one_store_def same_db split: option.splits)

lemma take_key_taken:
  assumes "one_store ts" and "now \<le> t"
  shows "taken t (take_key now reply ts cb) d \<longleftrightarrow>
      taken t ts d \<or> takes now reply ts cb \<and> same_occurrence cb d \<and> (tsRedis ts \<noteq> None \<longrightarrow> t < now + lock_ttl)"
    and "one_store (take_key now reply ts cb)" and "tsRedis (take_key now reply ts cb) = None \<longleftrightarrow> tsRedis ts = None"
proof -
  have kinds: "same_occurrence cb d \<Longrightarrow> CbKind cb = CbKind d" by (simp add: same_occurrence_def)
  show "taken t (take_key now reply ts cb) d \<longleftrightarrow>
      taken t ts d \<or> takes now reply ts cb \<and> same_occurrence cb d \<and> (tsRedis ts \<noteq> None \<longrightarrow> t < now + lock_ttl)"
  proof (cases "takes now reply ts cb")
    case True
    show ?thesis
    proof (cases "tsRedis ts")
      case None
      with True kinds show ?thesis
        by (auto simp: take_key_def taken_def same_key)
    next
      case (Some db)
      then have "\<not> redis_has now db (callback_key cb)" using True by (simp add: takes_def taken_def)
      then have "\<not> redis_has t db (callback_key cb)" using assms(2) by (auto simp: redis_has_def split: option.splits)
      with True Some show ?thesis
        by (auto simp: take_key_def taken_def same_key [symmetric] redis_has_def)
    qed
  qed (simp add: take_key_def)
  show "one_store (take_key now reply ts cb)" "tsRedis (take_key now reply ts cb) = None \<longleftrightarrow> tsRedis ts = None"
    using assms(1) by (auto simp: take_key_def one_store_def split: option.splits)
qed

lemma invoke_once:
  assumes "invokeCallback env genc gdec (ruNow r) (ruReplies r) (ruTables r, ts) (ruCallback r) = returns ((st', ts'), calls)"
    and "one_store ts"
  shows "ts' = take_key (ruNow r) (snd (ruReplies r)) ts (ruCallback r)"
    and "if takes (ruNow r) (snd (ruReplies r)) ts (ruCallback r) \<and> (tsRedis ts \<noteq> None \<longrightarrow> snd (ruReplies r) = Answered)
      then hook_calls env genc gdec r = returns calls else calls = []"
proof -
  let ?cb = "ruCallback r" and ?now = "ruNow r" and ?rep = "snd (ruReplies r)"
  have T: "taken ?now ts ?cb \<Longrightarrow> \<not> takes ?now ?rep ts ?cb \<and> take_key ?now ?rep ts ?cb = ts"
    by (simp add: takes_def take_key_def)
  have "ts' = take_key ?now ?rep ts ?cb \<and> (if takes ?now ?rep ts ?cb \<and> (tsRedis ts \<noteq> None \<longrightarrow> ?rep = Answered)
      then hook_calls env genc gdec r = returns calls else calls = [])"
  proof (cases "CbKind ?cb = TournamentEnd")
    case True
    then have k: "reward_key (CbId ?cb) (CbEndActive ?cb) = callback_key ?cb" by (simp add: callback_key_def)
    show ?thesis
    proof (cases "isAlreadyRewarded ?now (fst (ruReplies r)) ts (callback_key ?cb)")
      case already: True
      with T lock_reward(2) [OF assms(2) True] assms(1) True k show ?thesis by (auto simp: invokeCallback_def Let_def)
    next
      case False
      with assms(1) True k lock_reward(1) [OF assms(2) True, of ?now ?rep] show ?thesis
        by (auto simp: invokeCallback_def hook_calls_def Let_def and_then_def split: if_splits option.splits sum.splits)
    qed
  next
    case False
    then have k: "CbKind ?cb = TournamentReset \<and> reset_key (CbId ?cb) (CbExpiry ?cb) = callback_key ?cb \<or>
        CbKind ?cb = LeaderboardReset \<and> lb_reset_key (CbId ?cb) (CbExpiry ?cb) = callback_key ?cb"
      by (cases "CbKind ?cb") (simp_all add: callback_key_def)
    show ?thesis
    proof (cases "isAlreadyReset ?now (fst (ruReplies r)) ts (callback_key ?cb)")
      case already: True
      with T lock_reset(2) [OF assms(2) False] assms(1) k show ?thesis by (auto simp: invokeCallback_def Let_def)
    next
      case no: False
      with assms(1) k lock_reset(1) [OF assms(2) False, of ?now ?rep] show ?thesis
        by (auto simp: invokeCallback_def hook_calls_def Let_def split: if_splits)
    qed
  qed
  then show "ts' = take_key ?now ?rep ts ?cb" and "if takes ?now ?rep ts ?cb \<and> (tsRedis ts \<noteq> None \<longrightarrow> ?rep = Answered)
      then hook_calls env genc gdec r = returns calls else calls = []" by blast+
qed

text \<open>\<open>took ! n\<close>: the callback \<open>n\<close> takes the key, as its command arrives and no earlier one still holds it.\<close>

definition takes_key :: "bool \<Rightarrow> callback_run list \<Rightarrow> bool list \<Rightarrow> nat \<Rightarrow> bool" where
  "takes_key redis runs took n \<longleftrightarrow>
     (redis \<longrightarrow> snd (ruReplies (runs ! n)) \<noteq> NotReached) \<and>
     \<not> (\<exists>m<n. took ! m \<and> same_occurrence (ruCallback (runs ! m)) (ruCallback (runs ! n)) \<and>
         (redis \<longrightarrow> ruNow (runs ! n) < ruNow (runs ! m) + lock_ttl))"

definition hook_runs ::
  "lb_env \<Rightarrow> (record_cursor \<Rightarrow> nat list) \<Rightarrow> (nat list \<Rightarrow> record_cursor option) \<Rightarrow> bool \<Rightarrow> callback_run list
   \<Rightarrow> hook_call list list \<Rightarrow> bool list \<Rightarrow> nat \<Rightarrow> bool" where
  "hook_runs env genc gdec redis runs css took n \<longleftrightarrow>
     (if took ! n \<and> (redis \<longrightarrow> snd (ruReplies (runs ! n)) = Answered)
      then hook_calls env genc gdec (runs ! n) = returns (css ! n) else css ! n = [])"

lemma hook_runs_Suc: "hook_runs env genc gdec redis (r # runs) (c # css) (b # took) (Suc n) =
    hook_runs env genc gdec redis runs css took n"
  by (simp only: hook_runs_def nth_Cons_Suc)

lemma takes_key_Suc: "takes_key redis (r # runs) (b # took) (Suc n) \<longleftrightarrow> takes_key redis runs took n \<and>
    \<not> (b \<and> same_occurrence (ruCallback r) (ruCallback (runs ! n)) \<and> (redis \<longrightarrow> ruNow (runs ! n) < ruNow r + lock_ttl))"
  by (auto simp: takes_key_def Ex_less_Suc2)

lemma run_callbacks_took:
  assumes "run_callbacks env genc gdec ts runs = returns css" and "one_store ts" and "sorted (map ruNow runs)"
  shows "\<exists>took. length took = length runs \<and> length css = length runs \<and> (\<forall>n < length runs.
    (took ! n \<longleftrightarrow> \<not> taken (ruNow (runs ! n)) ts (ruCallback (runs ! n)) \<and> takes_key (tsRedis ts \<noteq> None) runs took n) \<and>
    hook_runs env genc gdec (tsRedis ts \<noteq> None) runs css took n)"
  using assms
proof (induction runs arbitrary: ts css)
  case (Cons r runs)
  obtain st' ts' calls where i: "invokeCallback env genc gdec (ruNow r) (ruReplies r) (ruTables r, ts) (ruCallback r) =
      returns ((st', ts'), calls)"
    using Cons.prems(1) by (auto simp: and_then_def split: option.splits sum.splits)
  obtain rest where r: "run_callbacks env genc gdec ts' runs = returns rest" "css = calls # rest"
    using Cons.prems(1) by (auto simp: i and_then_def split: option.splits sum.splits)
  define b where "b = takes (ruNow r) (snd (ruReplies r)) ts (ruCallback r)"
  have ts': "ts' = take_key (ruNow r) (snd (ruReplies r)) ts (ruCallback r)" by (rule invoke_once(1) [OF i Cons.prems(2)])
  have one: "one_store ts'" and mode: "tsRedis ts' \<noteq> None \<longleftrightarrow> tsRedis ts \<noteq> None"
    unfolding ts' using take_key_taken(2,3) [OF Cons.prems(2) order_refl] by (simp_all only: not_False_eq_True)
  have "sorted (map ruNow runs)" using Cons.prems(3) by simp
  from Cons.IH [OF r(1) one this] obtain took where took: "length took = length runs" "length rest = length runs"
    "\<And>n. n < length runs \<Longrightarrow>
      (took ! n \<longleftrightarrow> \<not> taken (ruNow (runs ! n)) ts' (ruCallback (runs ! n)) \<and> takes_key (tsRedis ts \<noteq> None) runs took n) \<and>
      hook_runs env genc gdec (tsRedis ts \<noteq> None) runs rest took n"
    unfolding mode by blast
  have later: "taken (ruNow (runs ! n)) ts' (ruCallback (runs ! n)) \<longleftrightarrow> taken (ruNow (runs ! n)) ts (ruCallback (runs ! n)) \<or>
      b \<and> same_occurrence (ruCallback r) (ruCallback (runs ! n)) \<and> (tsRedis ts \<noteq> None \<longrightarrow> ruNow (runs ! n) < ruNow r + lock_ttl)"
    if "n < length runs" for n
  proof -
    have "ruNow r \<le> ruNow (runs ! n)" using Cons.prems(3) that by simp
    from take_key_taken(1) [OF Cons.prems(2) this] show ?thesis by (simp add: ts' b_def)
  qed
  show ?case
  proof (intro exI [of _ "b # took"] conjI allI impI)
    fix n
    assume n: "n < length (r # runs)"
    show "(b # took) ! n \<longleftrightarrow> \<not> taken (ruNow ((r # runs) ! n)) ts (ruCallback ((r # runs) ! n)) \<and>
        takes_key (tsRedis ts \<noteq> None) (r # runs) (b # took) n"
    proof (cases n)
      case 0
      then show ?thesis by (simp add: b_def takes_def takes_key_def)
    next
      case (Suc k)
      with n took(3) [of k] later [of k] show ?thesis by (auto simp: takes_key_Suc)
    qed
    show "hook_runs env genc gdec (tsRedis ts \<noteq> None) (r # runs) css (b # took) n"
    proof (cases n)
      case 0
      then show ?thesis using invoke_once(2) [OF i Cons.prems(2)] by (simp add: hook_runs_def r(2) b_def)
    next
      case (Suc k)
      with n took(3) [of k] show ?thesis by (simp add: r(2) hook_runs_Suc)
    qed
  qed (use took r(2) in simp_all)
qed simp

text \<open>C14: When hooks run.  Callbacks are handled one after the other in time order, from a start without keys,
  whatever happens to the tables in between.  Then one can say which callbacks take the key of their
  occurrence (the end of the active part, or a reset): without Redis those before which no other took it, that is the
  first; with Redis, shared by all nodes, those whose command reaches it and before which nobody took the key
  within 24 hours.  The hook is called by exactly the callbacks that take the key and, with Redis, get the
  answer, with the records of that time; a reward hook is left out when the records cannot be fetched.
  So without Redis no hook runs twice for an occurrence, and with Redis not twice within 24 hours.\<close>

theorem hooks_run_once:
  assumes "run_callbacks env genc gdec (NewTournamentScheduler (if redis then Some fmempty else None)) runs = returns css"
    and "sorted (map ruNow runs)"
  shows "\<exists>took. length took = length runs \<and> (\<forall>n < length runs.
    (took ! n \<longleftrightarrow> takes_key redis runs took n) \<and> hook_runs env genc gdec redis runs css took n)"
proof -
  let ?ts = "NewTournamentScheduler (if redis then Some fmempty else None)"
  have "one_store ?ts" "(tsRedis ?ts \<noteq> None) = redis" "\<not> taken now ?ts cb" for now cb
    by (simp_all add: one_store_def NewTournamentScheduler_def taken_def redis_has_def)
  with run_callbacks_took [OF assms(1) _ assms(2)] show ?thesis by auto
qed

definition demo_reset :: "gotime \<Rightarrow> redis_reply \<Rightarrow> int \<Rightarrow> callback_run" where
  "demo_reset now reply x = \<lparr>ruNow = now, ruReplies = (Answered, reply), ruTables = open_lb,
     ruCallback = \<lparr>CbKind = TournamentReset, CbId = ''all'', CbEndActive = 5, CbExpiry = x\<rparr>\<rparr>"

definition demo_runs :: "callback_run list" where
  "demo_runs = [demo_reset 0 Answered 7, demo_reset 1 NotReached 9, demo_reset 2 Answered 9, demo_reset 3 Answered 7,
     demo_reset lock_ttl Answered 7]"

lemma redis_key_expires:
  "case run_callbacks demo_env (\<lambda>_. []) (\<lambda>_. None) (NewTournamentScheduler (Some fmempty)) demo_runs of
     Some (Inr css) \<Rightarrow> map length css = [1, 0, 1, 0, 1] | _ \<Rightarrow> False"
  by code_simp

text \<open>With Redis the hook of one occurrence runs again after 24 hours.\<close>

theorem hooks_run_once_witness:
  "\<exists>css took. run_callbacks demo_env (\<lambda>_. []) (\<lambda>_. None) (NewTournamentScheduler (Some fmempty)) demo_runs = returns css \<and>
     took ! 0 \<and> \<not> took ! 3 \<and> css ! 0 = [ResetCall ''all'' 5 7] \<and> css ! 3 = []"
proof -
  obtain css where r: "run_callbacks demo_env (\<lambda>_. []) (\<lambda>_. None)
      (NewTournamentScheduler (if True then Some fmempty else None)) demo_runs = returns css"
    using redis_key_expires by (auto split: option.splits sum.splits)
  have "sorted (map ruNow demo_runs)" by code_simp
  from hooks_run_once [OF r this] obtain took where took: "length took = length demo_runs"
    "\<And>n. n < length demo_runs \<Longrightarrow> (took ! n \<longleftrightarrow> takes_key True demo_runs took n) \<and>
      hook_runs demo_env (\<lambda>_. []) (\<lambda>_. None) True demo_runs css took n"
    by blast
  have t0: "took ! 0" using took(2) [of 0] by (simp add: demo_runs_def takes_key_def demo_reset_def)
  then have "\<not> takes_key True demo_runs took 3"
    by (auto simp: takes_key_def demo_runs_def demo_reset_def same_occurrence_def lock_ttl_def intro!: exI [of _ 0])
  then have t3: "\<not> took ! 3" using took(2) [of 3] by (simp add: demo_runs_def)
  have "css ! 0 = [ResetCall ''all'' 5 7]" "css ! 3 = []"
    using took(2) [of 0] took(2) [of 3] t0 t3
    by (simp_all add: demo_runs_def hook_runs_def demo_reset_def hook_calls_def)
  with r t0 t3 show ?thesis by auto
qed

subsection \<open>What is due\<close>

definition end_callback :: "board \<Rightarrow> int \<Rightarrow> int \<Rightarrow> scheduler_callback" where
  "end_callback lb ea ex = \<lparr>CbKind = TournamentEnd, CbId = BID lb, CbEndActive = ea, CbExpiry = ex\<rparr>"


text \<open>A daily tournament that runs for an hour, and one that runs all day.\<close>

definition hourly_cup :: board where
  "hourly_cup = daily_board\<lparr>Duration := 3600\<rparr>"


subsection \<open>Joining\<close>

text \<open>C17: A player is let into a tournament exactly when it has not ended, the instant lies in its active window,
  and the player has joined before or the tournament is unlimited or not full.\<close>

theorem JoinTournament_admits_iff:
  assumes "fmlookup (lbBoards st) i = Some lb" and "ActiveDeadlines lb (unix now) = returns (sa, ea, expiry)"
    and "le_uuid env owner = Some uid" and "gc_ok (lbRank st)"
  shows "(\<exists>st'. JoinTournament env coins now dbnow st i owner username = returns (st', Inr ())) \<longleftrightarrow>
    IsTournament lb \<and> \<not> (0 < EndTime lb \<and> EndTime lb * 10 ^ 9 < now) \<and>
    sa \<le> unix now \<and> (ea = 0 \<or> unix now \<le> ea) \<and>
    (fmlookup (lbRecords st) (i, expiry, uid) \<noteq> None \<or> \<not> (0 < MaxSize lb \<and> MaxSize lb < 100000000) \<or>
      Size lb < MaxSize lb)"
proof -
  have ins: "\<exists>g k. gc_Insert coins bl (lbRank st) i so 0 0 expiry owner en = Some (g, k)" for bl so en
    by (rule gc_Insert_ok [OF assms(4)]) blast
  have tables: "(\<exists>st1. join_tables dbnow st i lb expiry uid username = Inr st1) \<longleftrightarrow>
      fmlookup (lbRecords st) (i, expiry, uid) \<noteq> None \<or> \<not> (0 < MaxSize lb \<and> MaxSize lb < 100000000) \<or>
      Size lb < MaxSize lb"
    by (simp add: join_tables_def Let_def)
  have rank: "lbRank st1 = lbRank st" if "join_tables dbnow st i lb expiry uid username = Inr st1" for st1
    using that by (auto simp: join_tables_def Let_def split: if_splits)
  have joined: "(\<exists>st'. (case join_tables dbnow st i lb expiry uid username of
       Inl err \<Rightarrow> returns (st, Inl err)
     | Inr st' \<Rightarrow>
         (case gc_Insert coins (lbBlacklist st') (lbRank st') i (SortOrder lb) 0 0 expiry owner (EnableRanks lb) of
            None \<Rightarrow> None
          | Some (g, _) \<Rightarrow> returns (st'\<lparr>lbRank := g\<rparr>, Inr ()))) = returns (st', Inr ())) \<longleftrightarrow>
     (\<exists>st1. join_tables dbnow st i lb expiry uid username = Inr st1)"
  proof (cases "join_tables dbnow st i lb expiry uid username")
    case (Inr st1)
    obtain g k where "gc_Insert coins (lbBlacklist st1) (lbRank st1) i (SortOrder lb) 0 0 expiry owner (EnableRanks lb) =
        Some (g, k)"
      using ins rank [OF Inr] by metis
    with Inr show ?thesis by simp
  qed simp
  have ended: "EndTime lb \<noteq> zero_time \<and> EndTime lb > 0 \<and> now > EndTime lb * 10 ^ 9 \<longleftrightarrow>
      0 < EndTime lb \<and> EndTime lb * 10 ^ 9 < now"
    by (auto simp: zero_time_def)
  have window: "in_window sa ea (unix now) \<longleftrightarrow> sa \<le> unix now \<and> (ea = 0 \<or> unix now \<le> ea)"
    by (auto simp: in_window_def)
  show ?thesis
    unfolding JoinTournament_def assms(1) option.case assms(2) and_then_returns prod.case assms(3) ended window
      tables [symmetric] joined [symmetric]
    by auto
qed

text \<open>Three players for two places.\<close>

definition cup_lb :: lb_state where
  "cup_lb = demo_lb\<lparr>lbBoards := fmupd ''cup'' (daily_board\<lparr>BID := ''cup'', ResetSchedule := [], Duration := 100,
     StartTime := 0, MaxSize := 2\<rparr>) fmempty\<rparr>"

definition cup_join :: "lb_state \<Rightarrow> string \<Rightarrow> (lb_state \<times> (tournament_error + unit)) cron_result" where
  "cup_join st owner = JoinTournament demo_env (\<lambda>_. False) (10 ^ 9) (10 ^ 9) st ''cup'' owner owner"

definition cup_joined :: "lb_state \<Rightarrow> string \<Rightarrow> lb_state" where
  "cup_joined st owner = (case cup_join st owner of Some (Inr (st', _)) \<Rightarrow> st' | _ \<Rightarrow> st)"

definition cup_submit :: "lb_state \<Rightarrow> string \<Rightarrow> 64 word \<Rightarrow> (lb_state \<times> (lb_error + lb_record)) cron_result" where
  "cup_submit st owner score =
     SubmitScore demo_env (\<lambda>_. False) (10 ^ 9) (10 ^ 9) st ''cup'' owner owner score 0 [] False OperatorNoOverride"

lemma cup_board: "case fmlookup (lbBoards (cup_joined (cup_joined cup_lb ''amy'') ''bob'')) ''cup'' of
    None \<Rightarrow> False
  | Some lb \<Rightarrow> Size lb = 2 \<and> MaxSize lb = 2 \<and> ActiveDeadlines lb 1 = returns (0, 100, 0) \<and> IsTournament lb \<and> EndTime lb = 0"
  by code_simp

lemma cup_records:
  "fmlookup (lbRecords (cup_joined (cup_joined cup_lb ''amy'') ''bob'')) (''cup'', 0, ''amy'') \<noteq> None"
  "fmlookup (lbRecords (cup_joined (cup_joined cup_lb ''amy'') ''bob'')) (''cup'', 0, ''cat'') = None"
  by code_simp+

lemma gc_Insert_keeps:
  assumes "gc_ok g" "gc_Insert coins bl g i so s ss expiry w en = Some (g', r)"
  shows "gc_ok g'"
proof -
  obtain g2 r2 where "gc_Insert coins bl g i so s ss expiry w en = Some (g2, r2)" "gc_ok g2"
    by (rule gc_Insert_ok [OF assms(1)])
  with assms(2) show ?thesis by simp
qed

lemma cup_joined_ok: "gc_ok (lbRank st) \<Longrightarrow> gc_ok (lbRank (cup_joined st owner))"
proof -
  assume ok: "gc_ok (lbRank st)"
  have "gc_ok (lbRank st')" if "cup_join st owner = returns (st', res)" for st' res
    using that unfolding cup_join_def
  proof (cases rule: JoinTournamentE)
    case 1
    with ok show ?thesis by simp
  next
    case (2 lb sa ea expiry uid st1 g k)
    have "gc_ok (lbRank st1)" using ok 2(7) by (auto simp: join_tables_def Let_def split: if_splits)
    then have "gc_ok g" by (rule gc_Insert_keeps [OF _ 2(8)])
    with 2(9) show ?thesis by simp
  qed
  with ok show ?thesis by (auto simp: cup_joined_def split: option.split sum.split)
qed

theorem JoinTournament_admits_iff_witness:
  "\<exists>st. (\<exists>st'. cup_join st ''amy'' = returns (st', Inr ())) \<and> \<not> (\<exists>st'. cup_join st ''cat'' = returns (st', Inr ()))"
proof -
  let ?st = "cup_joined (cup_joined cup_lb ''amy'') ''bob''"
  obtain lb where lb: "fmlookup (lbBoards ?st) ''cup'' = Some lb" "Size lb = 2" "MaxSize lb = 2"
    "ActiveDeadlines lb (unix (10 ^ 9)) = returns (0, 100, 0)" "IsTournament lb" "EndTime lb = 0"
    using cup_board by (auto simp: unix_def split: option.splits)
  have "gc_ok (lbRank ?st)" by (intro cup_joined_ok) (simp add: cup_lb_def demo_lb_def gc_ok_empty)
  moreover have "le_uuid demo_env owner = Some owner" for owner by (simp add: demo_env_def)
  ultimately have "(\<exists>st'. cup_join ?st owner = returns (st', Inr ())) \<longleftrightarrow>
      fmlookup (lbRecords ?st) (''cup'', 0, owner) \<noteq> None" for owner
    using JoinTournament_admits_iff [OF lb(1,4), of demo_env owner owner] lb(2,3,5,6)
    by (simp add: cup_join_def unix_def)
  then show ?thesis using cup_records by blast
qed

text \<open>C18: Joining again leaves the player's record alone but puts the player into the rank cache with a score of
  0: the cached rank forgets the score until the partition is rebuilt.\<close>

theorem rejoin_ranks_as_zero:
  assumes "JoinTournament env coins now dbnow st i owner username = returns (st', Inr ())"
    and "fmlookup (lbBoards st) i = Some lb" and "EnableRanks lb" and "\<not> IsRankCacheBlacklisted (lbBlacklist st) i"
    and "ActiveDeadlines lb (unix now) = returns (sa, ea, expiry)" and "le_uuid env owner = Some owner"
    and "fmlookup (lbRecords st) (i, expiry, owner) = Some r" and "gc_ok (lbRank st)"
  shows "lbRecords st' = lbRecords st \<and>
    cached (lbRank st') (i, expiry) owner = Some \<lparr>REOwnerID = owner, REScore = 0, RESubscore = 0\<rparr>"
  using assms(1)
proof (cases rule: JoinTournamentE)
  case (2 lb' sa' ea' expiry' uid st1 g k)
  have e: "lb' = lb" "expiry' = expiry" "uid = owner" using 2(2,4,6) assms(2,5,6) by auto
  have st1: "st1 = st" using 2(7) assms(7) by (simp add: join_tables_def e)
  obtain g' k' where "gc_Insert coins (lbBlacklist st) (lbRank st) i (SortOrder lb) 0 0 expiry owner (EnableRanks lb) = Some (g', k')"
    "cached g' = (if IsRankCacheBlacklisted (lbBlacklist st) i \<or> \<not> EnableRanks lb then cached (lbRank st)
       else (cached (lbRank st))((i, expiry) := (cached (lbRank st) (i, expiry))(owner \<mapsto>
         \<lparr>REOwnerID = owner, REScore = 0, RESubscore = 0\<rparr>)))"
    by (rule gc_Insert_ok [OF assms(8)])
  with 2(8,9) assms(3,4) show ?thesis by (simp add: st1 e)
qed simp

lemma cup_second:
  "case cup_submit (cup_joined cup_lb ''amy'') ''amy'' 9 of
     Some (Inr (st, Inr rec)) \<Rightarrow>
       (case cup_join st ''amy'' of Some (Inr (st', Inr _)) \<Rightarrow> True | _ \<Rightarrow> False) \<and>
       map_option score_of (fmlookup (lbRecords st) (''cup'', 0, ''amy'')) = Some (9, 0) \<and>
       \<not> IsRankCacheBlacklisted (lbBlacklist st) ''cup'' \<and>
       (case fmlookup (lbBoards st) ''cup'' of None \<Rightarrow> False | Some lb \<Rightarrow> EnableRanks lb \<and>
          ActiveDeadlines lb 1 = returns (0, 100, 0))
   | _ \<Rightarrow> False"
  by code_simp

theorem rejoin_ranks_as_zero_witness:
  "\<exists>st st'. cup_join st ''amy'' = returns (st', Inr ()) \<and>
     map_option score_of (fmlookup (lbRecords st') (''cup'', 0, ''amy'')) = Some (9, 0) \<and>
     map_option REScore (cached (lbRank st') (''cup'', 0) ''amy'') = Some 0"
proof -
  let ?st0 = "cup_joined cup_lb ''amy''"
  obtain st rec where s: "cup_submit ?st0 ''amy'' 9 = returns (st, Inr rec)"
    "(case cup_join st ''amy'' of Some (Inr (st', Inr _)) \<Rightarrow> True | _ \<Rightarrow> False) \<and>
       map_option score_of (fmlookup (lbRecords st) (''cup'', 0, ''amy'')) = Some (9, 0) \<and>
       \<not> IsRankCacheBlacklisted (lbBlacklist st) ''cup'' \<and>
       (case fmlookup (lbBoards st) ''cup'' of None \<Rightarrow> False | Some lb \<Rightarrow> EnableRanks lb \<and>
          ActiveDeadlines lb 1 = returns (0, 100, 0))"
    by (rule submittedE [OF cup_second])
  have "gc_ok (lbRank ?st0)" by (intro cup_joined_ok) (simp add: cup_lb_def demo_lb_def gc_ok_empty)
  then have ok: "gc_ok (lbRank st)"
    using s(1) unfolding cup_submit_def
    by (elim SubmitScoreE) (simp add: publishInvalidation_def gc_Insert_keeps)
  obtain st' where j: "cup_join st ''amy'' = returns (st', Inr ())"
    by (rule submittedE [where res = "cup_join st ''amy''" and Q = "\<lambda>_ _. True"]) (use s(2) in simp_all)
  obtain lb where lb: "fmlookup (lbBoards st) ''cup'' = Some lb" "EnableRanks lb"
    "ActiveDeadlines lb (unix (10 ^ 9)) = returns (0, 100, 0)"
    using s(2) by (auto simp: unix_def split: option.splits)
  obtain r where r: "fmlookup (lbRecords st) (''cup'', 0, ''amy'') = Some r" "score_of r = (9, 0)"
    using s(2) by auto
  have "le_uuid demo_env ''amy'' = Some ''amy''" by (simp add: demo_env_def)
  from rejoin_ranks_as_zero [OF j [unfolded cup_join_def] lb(1,2) _ lb(3) this r(1) ok] s(2) j r
  show ?thesis by (intro exI [of _ st] exI [of _ st']) simp
qed

text \<open>Attempts added to a record do not count: a submission is checked against the limit of the board.\<close>

lemma added_attempts_unused:
  assumes "AddAttempt env now st i owner count = returns (st1, Inr ())"
    and "fmlookup (lbBoards st) i = Some lb" and "CalculateExpiry lb 0 (unix now') = returns (Some x)"
    and "le_uuid env owner = Some uid" and "fmlookup (lbRecords st) (i, x, uid) = Some r"
    and "MaxNumScore lb \<le> RNumScore r" and "nonneg score subscore"
  shows "SubmitScore env coins now' dbnow st1 i owner username score subscore [] False override =
    returns (st1, Inl ErrMaxAttemptsReached)"
proof -
  have A: "lbBoards st1 = lbBoards st \<and> (\<forall>k. map_option RNumScore (fmlookup (lbRecords st1) k) =
      map_option RNumScore (fmlookup (lbRecords st) k))"
    using assms(1) unfolding AddAttempt_def and_then_def
    by (auto split: if_splits option.splits sum.splits prod.splits)
  have "map_option RNumScore (fmlookup (lbRecords st1) (i, x, uid)) = Some (RNumScore r)" using A assms(5) by simp
  then obtain r1 where "fmlookup (lbRecords st1) (i, x, uid) = Some r1" "RNumScore r1 = RNumScore r"
    by blast
  then have r1: "fmlookup (lbBoards st1) i = Some lb" "fmlookup (lbRecords st1) (i, x, uid) = Some r1"
    "RNumScore r1 = RNumScore r"
    using A assms(2) by simp_all
  have w: "write_score env dbnow st1 i lb x uid username score subscore ''{}'' override = Inl ErrMaxAttemptsReached"
    using r1(2,3) assms(6) by (simp add: write_score_def)
  have n: "\<not> (sint score < 0 \<or> sint subscore < 0)" using assms(7) by (simp add: nonneg_def not_less)
  have m: "is_ok (ValidateMetadata ''{}'')" by (simp add: ValidateMetadata_def MaxMetadataBytes_def)
  have h: "st1\<lparr>lbHits := lbHits st1\<rparr> = st1" by simp
  show ?thesis
    unfolding SubmitScore_eq Let_def if_not_P [OF n] if_False prod.case h simp_thms if_P [OF refl] r1(1)
      option.case assms(3) and_then_returns assms(4) w sum.case
    using m r1(2) by (simp only: if_True not_True_eq_False if_False simp_thms option.distinct w sum.case)
qed

end
