(* ===== verification/Social_Groups.thy ===== *)
theory Social_Groups
  imports Storage Leaderboard
begin

section \<open>Groups\<close>

text \<open>
  \<open>internal/social/groups.go\<close>: the tables \<open>groups\<close> and \<open>group_edge\<close> with the constraints of migration
  0003, and every operation on them.  An edge leads from a group to a user and, except for a ban, back;
  both ends are identifiers in the spelling of the database.  \<open>None\<close> of a statement is an error of the
  database.  The environment holds what is outside: the JSON check of Go, the form in which the database
  stores a JSON text, the length limits of the columns, and the comparison \<open>ILIKE\<close>.  \<open>pos\<close> is the clock in milliseconds that becomes the position of
  an edge, \<open>now\<close> the clock of the database.  Notifications and broadcasts are a list of calls; an empty
  caller stands for the server itself.
\<close>

datatype group_error = ErrGroupName | ErrGroupMetadata | ErrGroupNotFound | ErrAlreadyMember
  | ErrBannedFromGroup | ErrRequestPending | ErrGroupFull | ErrNoPermission | ErrKickSelf
  | ErrNotMember | ErrActorNotMember | ErrKickRank | ErrMaxCount | ErrLastSuperadmin | ErrPromoteTarget
  | ErrPromoteRank | ErrDemoteTarget | ErrDemoteRank | ErrDemoteLast | GroupDatabase

definition GroupStateOpen :: int where "GroupStateOpen = 0"
definition GroupStateClosed :: int where "GroupStateClosed = 1"
definition RoleSuperAdmin :: int where "RoleSuperAdmin = 0"
definition RoleAdmin :: int where "RoleAdmin = 1"
definition RoleMember :: int where "RoleMember = 2"
definition RoleJoinRequest :: int where "RoleJoinRequest = 3"
definition RoleBanned :: int where "RoleBanned = 4"

datatype group_call =
    Broadcast string int string
  | NoticeJoinRequest string string
  | NoticeAdded string string

definition GroupChannelMsgJoin :: int where "GroupChannelMsgJoin = 3"
definition GroupChannelMsgAdd :: int where "GroupChannelMsgAdd = 4"
definition GroupChannelMsgLeave :: int where "GroupChannelMsgLeave = 5"
definition GroupChannelMsgKick :: int where "GroupChannelMsgKick = 6"
definition GroupChannelMsgPromote :: int where "GroupChannelMsgPromote = 7"
definition GroupChannelMsgBan :: int where "GroupChannelMsgBan = 8"
definition GroupChannelMsgDemote :: int where "GroupChannelMsgDemote = 9"

definition epochDisable :: gotime where "epochDisable = 0"

record group_row =
  GID :: string
  GCreatorID :: string
  GName :: string
  GDescription :: string
  GAvatarURL :: string
  GLangTag :: string
  GMetadata :: string
  GState :: int
  GEdgeCount :: int
  GMaxCount :: int
  GCreateTime :: gotime
  GUpdateTime :: gotime
  GDisableTime :: gotime

record group_edge =
  EState :: int
  EPosition :: int
  EUpdateTime :: gotime

type_synonym group_edges = "(string \<times> string, group_edge) fmap"

record group_tables =
  gtGroups :: "(string, group_row) fmap"
  gtEdges :: group_edges
  gtUsers :: "(string, string) fmap"

record group_env =
  ge_json :: "string \<Rightarrow> bool"
  ge_jsonb :: "string \<Rightarrow> string option"
  ge_fits :: "group_row \<Rightarrow> bool"
  ge_ilike :: "string \<Rightarrow> string \<Rightarrow> bool"

record CreateGroupParams =
  CpName :: string
  CpDescription :: string
  CpAvatarURL :: string
  CpLangTag :: string
  CpMetadata :: string
  CpOpen :: bool
  CpMaxCount :: int

subsection \<open>Statements on the edges\<close>

definition edge_role :: "group_edges \<Rightarrow> string \<Rightarrow> string \<Rightarrow> int option" where
  "edge_role es s d = map_option EState (fmlookup es (s, d))"

text \<open>The primary key is source, state and position.\<close>

definition key_taken :: "group_edges \<Rightarrow> string \<Rightarrow> string \<Rightarrow> int \<Rightarrow> int \<Rightarrow> bool" where
  "key_taken es s d st pos =
     (\<exists>k\<in>set (sorted_list_of_fset (fmdom es)). fst k = s \<and> snd k \<noteq> d \<and>
        map_option (\<lambda>e. (EState e, EPosition e)) (fmlookup es k) = Some (st, pos))"

text \<open>The insert with \<open>ON CONFLICT \<dots> DO UPDATE\<close>, and the plain insert.\<close>

definition put_edge :: "gotime \<Rightarrow> string \<Rightarrow> string \<Rightarrow> int \<Rightarrow> int \<Rightarrow> group_edges \<Rightarrow> group_edges option" where
  "put_edge now s d st pos es =
     (if s = nil_uuid \<or> d = nil_uuid \<or> key_taken es s d st pos then None
      else Some (fmupd (s, d) \<lparr>EState = st, EPosition = pos, EUpdateTime = now\<rparr> es))"

definition insert_edge :: "gotime \<Rightarrow> string \<Rightarrow> string \<Rightarrow> int \<Rightarrow> int \<Rightarrow> group_edges \<Rightarrow> group_edges option" where
  "insert_edge now s d st pos es = (if fmlookup es (s, d) \<noteq> None then None else put_edge now s d st pos es)"

definition put_pair :: "gotime \<Rightarrow> string \<Rightarrow> string \<Rightarrow> int \<Rightarrow> int \<Rightarrow> group_edges \<Rightarrow> group_edges option" where
  "put_pair now g u st pos es =
     Option.bind (put_edge now g u st pos es) (put_edge now u g st pos)"

definition delete_pair :: "string \<Rightarrow> string \<Rightarrow> group_edges \<Rightarrow> group_edges" where
  "delete_pair g u es = fmdrop (u, g) (fmdrop (g, u) es)"

definition delete_edges :: "string \<Rightarrow> group_edges \<Rightarrow> group_edges" where
  "delete_edges i es = fmfilter (\<lambda>(s, d). \<not> (s = i \<or> d = i)) es"

text \<open>The update of the state of the edges between two ends.\<close>

definition set_state :: "string \<Rightarrow> string \<Rightarrow> int \<Rightarrow> group_edges \<Rightarrow> group_edges option" where
  "set_state s d st es =
     (case fmlookup es (s, d) of
        None \<Rightarrow> Some es
      | Some e \<Rightarrow>
          if key_taken es s d st (EPosition e) then None else Some (fmupd (s, d) (e\<lparr>EState := st\<rparr>) es))"

definition set_pair :: "string \<Rightarrow> string \<Rightarrow> int \<Rightarrow> group_edges \<Rightarrow> group_edges option" where
  "set_pair g u st es = Option.bind (set_state g u st es) (set_state u g st)"

text \<open>The users a group has edges to, in the order of the keys, and a count over them.\<close>

definition edge_ends :: "group_edges \<Rightarrow> string \<Rightarrow> (int \<Rightarrow> bool) \<Rightarrow> string list" where
  "edge_ends es s P =
     map snd (filter (\<lambda>k. fst k = s \<and> (case fmlookup es k of None \<Rightarrow> False | Some e \<Rightarrow> P (EState e)))
       (sorted_list_of_fset (fmdom es)))"

definition count_edges :: "group_edges \<Rightarrow> string \<Rightarrow> (int \<Rightarrow> bool) \<Rightarrow> int" where
  "count_edges es s P = int (length (edge_ends es s P))"

text \<open>The update of the count and time of a group.\<close>

definition add_count :: "gotime \<Rightarrow> string \<Rightarrow> int \<Rightarrow> (string, group_row) fmap \<Rightarrow> (string, group_row) fmap" where
  "add_count now g n gs =
     (case fmlookup gs g of
        None \<Rightarrow> gs
      | Some r \<Rightarrow> fmupd g (r\<lparr>GEdgeCount := GEdgeCount r + n, GUpdateTime := now\<rparr>) gs)"

definition drop_count :: "string \<Rightarrow> (string, group_row) fmap \<Rightarrow> (string, group_row) fmap" where
  "drop_count g gs =
     (case fmlookup gs g of
        None \<Rightarrow> gs | Some r \<Rightarrow> fmupd g (r\<lparr>GEdgeCount := max (GEdgeCount r - 1) 0\<rparr>) gs)"

definition touch_group :: "gotime \<Rightarrow> string \<Rightarrow> (string, group_row) fmap \<Rightarrow> (string, group_row) fmap" where
  "touch_group now g gs =
     (case fmlookup gs g of None \<Rightarrow> gs | Some r \<Rightarrow> fmupd g (r\<lparr>GUpdateTime := now\<rparr>) gs)"

definition disable_group :: "gotime \<Rightarrow> string \<Rightarrow> (string, group_row) fmap \<Rightarrow> (string, group_row) fmap" where
  "disable_group now g gs =
     (case fmlookup gs g of
        None \<Rightarrow> gs
      | Some r \<Rightarrow> fmupd g (r\<lparr>GDisableTime := now, GUpdateTime := now, GEdgeCount := 0\<rparr>) gs)"

definition live :: "(string, group_row) fmap \<Rightarrow> string \<Rightarrow> group_row option" where
  "live gs g = (case fmlookup gs g of None \<Rightarrow> None
     | Some r \<Rightarrow> if GDisableTime r = epochDisable then Some r else None)"

definition stored_row :: "group_env \<Rightarrow> group_row \<Rightarrow> group_row option" where
  "stored_row env r =
     (case ge_jsonb env (GMetadata r) of
        None \<Rightarrow> None | Some m \<Rightarrow> if ge_fits env r then Some (r\<lparr>GMetadata := m\<rparr>) else None)"

definition name_taken :: "(string, group_row) fmap \<Rightarrow> string \<Rightarrow> string \<Rightarrow> bool" where
  "name_taken gs i n =
     (\<exists>k\<in>set (sorted_list_of_fset (fmdom gs)). k \<noteq> i \<and> map_option GName (fmlookup gs k) = Some n)"

subsection \<open>Creating\<close>

definition CreateGroupWithParams ::
  "group_env \<Rightarrow> gotime \<Rightarrow> int \<Rightarrow> string \<Rightarrow> group_tables \<Rightarrow> string \<Rightarrow> CreateGroupParams
   \<Rightarrow> group_tables \<times> (group_error + group_row)" where
  "CreateGroupWithParams env now pos groupID st creator p =
     (if CpName p = [] then (st, Inl ErrGroupName)
      else
        let metadata = (if CpMetadata p = [] then ''{}'' else CpMetadata p) in
        if \<not> ge_json env metadata then (st, Inl ErrGroupMetadata)
        else
          let row = \<lparr>GID = groupID, GCreatorID = creator, GName = CpName p, GDescription = CpDescription p,
                GAvatarURL = CpAvatarURL p, GLangTag = (if CpLangTag p = [] then ''en'' else CpLangTag p),
                GMetadata = metadata, GState = (if CpOpen p then GroupStateOpen else GroupStateClosed),
                GEdgeCount = 1, GMaxCount = (if CpMaxCount p \<le> 0 then 100 else CpMaxCount p),
                GCreateTime = now, GUpdateTime = now, GDisableTime = epochDisable\<rparr> in
          (case stored_row env row of
             None \<Rightarrow> (st, Inl GroupDatabase)
           | Some g \<Rightarrow>
               if fmlookup (gtGroups st) groupID \<noteq> None \<or> name_taken (gtGroups st) groupID (GName g)
               then (st, Inl GroupDatabase)
               else (case Option.bind (insert_edge now groupID creator RoleSuperAdmin pos (gtEdges st))
                            (insert_edge now creator groupID RoleSuperAdmin pos) of
                   None \<Rightarrow> (st, Inl GroupDatabase)
                 | Some es \<Rightarrow>
                     (st\<lparr>gtGroups := fmupd groupID g (gtGroups st), gtEdges := es\<rparr>, Inr g))))"

definition CreateGroup ::
  "group_env \<Rightarrow> gotime \<Rightarrow> int \<Rightarrow> string \<Rightarrow> group_tables \<Rightarrow> string \<Rightarrow> string \<Rightarrow> string \<Rightarrow> string \<Rightarrow> string
   \<Rightarrow> group_tables \<times> (group_error + group_row)" where
  "CreateGroup env now pos groupID st creator name description avatarURL langTag =
     CreateGroupWithParams env now pos groupID st creator
       \<lparr>CpName = name, CpDescription = description, CpAvatarURL = avatarURL, CpLangTag = langTag,
        CpMetadata = ''{}'', CpOpen = True, CpMaxCount = 100\<rparr>"

subsection \<open>Joining and adding\<close>

type_synonym group_result = "group_tables \<times> group_call list \<times> (group_error + unit)"

definition refuse :: "group_tables \<Rightarrow> group_error \<Rightarrow> group_result" where
  "refuse st err = (st, [], Inl err)"

definition JoinGroup :: "gotime \<Rightarrow> int \<Rightarrow> group_tables \<Rightarrow> string \<Rightarrow> string \<Rightarrow> group_result" where
  "JoinGroup now pos st user g =
     (case live (gtGroups st) g of
        None \<Rightarrow> refuse st ErrGroupNotFound
      | Some r \<Rightarrow>
          let role = edge_role (gtEdges st) g user in
          if (case role of None \<Rightarrow> False | Some k \<Rightarrow> k \<le> RoleMember) then refuse st ErrAlreadyMember
          else if role = Some RoleBanned then refuse st ErrBannedFromGroup
          else if role = Some RoleJoinRequest then refuse st ErrRequestPending
          else if GState r = GroupStateOpen then
            if GEdgeCount r \<ge> GMaxCount r then refuse st ErrGroupFull
            else (case put_pair now g user RoleMember pos (gtEdges st) of
                None \<Rightarrow> refuse st GroupDatabase
              | Some es \<Rightarrow>
                  (st\<lparr>gtEdges := es, gtGroups := add_count now g 1 (gtGroups st)\<rparr>,
                   [Broadcast g GroupChannelMsgJoin user], Inr ()))
          else (case put_pair now g user RoleJoinRequest pos (gtEdges st) of
              None \<Rightarrow> refuse st GroupDatabase
            | Some es \<Rightarrow>
                (st\<lparr>gtEdges := es\<rparr>,
                 map (\<lambda>a. NoticeJoinRequest a user) (edge_ends es g (\<lambda>k. k \<le> RoleAdmin)), Inr ())))"

definition GetUserRole :: "group_tables \<Rightarrow> string \<Rightarrow> string \<Rightarrow> group_error + int" where
  "GetUserRole st user g =
     (case edge_role (gtEdges st) g user of None \<Rightarrow> Inl ErrNotMember | Some k \<Rightarrow> Inr k)"

definition IsGroupMember :: "group_tables \<Rightarrow> string \<Rightarrow> string \<Rightarrow> bool" where
  "IsGroupMember st user g =
     (case edge_role (gtEdges st) g user of None \<Rightarrow> False | Some k \<Rightarrow> k \<le> RoleMember)"

text \<open>Whether the caller has at least the given role; the server always has.\<close>

definition acts_as :: "group_edges \<Rightarrow> string \<Rightarrow> string \<Rightarrow> int \<Rightarrow> bool" where
  "acts_as es g caller k \<longleftrightarrow>
     caller = [] \<or> (case edge_role es g caller of None \<Rightarrow> False | Some r \<Rightarrow> r \<le> k)"

fun add_users ::
  "gotime \<Rightarrow> (nat \<Rightarrow> int) \<Rightarrow> string \<Rightarrow> group_row \<Rightarrow> nat \<Rightarrow> string list \<Rightarrow> group_edges \<times> int
   \<Rightarrow> group_error + group_edges \<times> int" where
  "add_users now clock g r n [] (es, added) = Inr (es, added)"
| "add_users now clock g r n (uid # uids) (es, added) =
     (if uid = [] then add_users now clock g r (Suc n) uids (es, added)
      else if (case edge_role es g uid of None \<Rightarrow> False | Some k \<Rightarrow> k \<le> RoleMember \<or> k = RoleBanned)
      then add_users now clock g r (Suc n) uids (es, added)
      else if GEdgeCount r + added \<ge> GMaxCount r then Inl ErrGroupFull
      else (case put_pair now g uid RoleMember (clock n) es of
          None \<Rightarrow> Inl GroupDatabase
        | Some es' \<Rightarrow> add_users now clock g r (Suc n) uids (es', added + 1)))"

definition AddGroupUsers ::
  "gotime \<Rightarrow> (nat \<Rightarrow> int) \<Rightarrow> group_tables \<Rightarrow> string \<Rightarrow> string \<Rightarrow> string list \<Rightarrow> group_result" where
  "AddGroupUsers now clock st caller g uids =
     (case live (gtGroups st) g of
        None \<Rightarrow> refuse st ErrGroupNotFound
      | Some r \<Rightarrow>
          if \<not> acts_as (gtEdges st) g caller RoleAdmin then refuse st ErrNoPermission
          else (case add_users now clock g r 0 uids (gtEdges st, 0) of
              Inl err \<Rightarrow> refuse st err
            | Inr (es, added) \<Rightarrow>
                (st\<lparr>gtEdges := es,
                   gtGroups := (if added > 0 then add_count now g added (gtGroups st) else gtGroups st)\<rparr>,
                 if added > 0 then map (\<lambda>u. NoticeAdded u caller) uids @
                   map (Broadcast g GroupChannelMsgAdd) (filter (\<lambda>u. u \<noteq> []) uids) else [],
                 Inr ())))"

subsection \<open>Removing and banning\<close>

definition KickMember :: "gotime \<Rightarrow> group_tables \<Rightarrow> string \<Rightarrow> string \<Rightarrow> string \<Rightarrow> group_result" where
  "KickMember now st kicker user g =
     (if kicker = user \<and> kicker \<noteq> [] then refuse st ErrKickSelf
      else case edge_role (gtEdges st) g user of
        None \<Rightarrow> refuse st ErrNotMember
      | Some target \<Rightarrow>
          (case (if kicker = [] then None
                 else case edge_role (gtEdges st) g kicker of
                   None \<Rightarrow> Some ErrActorNotMember
                 | Some role \<Rightarrow>
                     if role > RoleAdmin then Some ErrNoPermission
                     else if role \<ge> target \<and> target \<le> RoleMember then Some ErrKickRank else None) of
             Some err \<Rightarrow> refuse st err
           | None \<Rightarrow>
               (st\<lparr>gtEdges := delete_pair g user (gtEdges st),
                  gtGroups := (if target \<le> RoleMember then touch_group now g (drop_count g (gtGroups st))
                    else gtGroups st)\<rparr>,
                if target \<le> RoleMember then [Broadcast g GroupChannelMsgKick user] else [], Inr ())))"

text \<open>The caller's role is read again for every user, and is 0 when there is none.\<close>

fun ban_users ::
  "gotime \<Rightarrow> (nat \<Rightarrow> int) \<Rightarrow> string \<Rightarrow> string \<Rightarrow> nat \<Rightarrow> string list
   \<Rightarrow> (string, group_row) fmap \<times> group_edges \<Rightarrow> ((string, group_row) fmap \<times> group_edges) option" where
  "ban_users now clock caller g n [] (gs, es) = Some (gs, es)"
| "ban_users now clock caller g n (uid # uids) (gs, es) =
     (if uid = [] \<or> uid = caller then ban_users now clock caller g (Suc n) uids (gs, es)
      else
        let target = edge_role es g uid;
            role = (case edge_role es g caller of None \<Rightarrow> 0 | Some r \<Rightarrow> r);
            member = (case target of None \<Rightarrow> False | Some k \<Rightarrow> k \<le> RoleMember) in
        if caller \<noteq> [] \<and> (case target of None \<Rightarrow> False | Some k \<Rightarrow> k \<le> role \<and> k \<le> RoleMember)
        then ban_users now clock caller g (Suc n) uids (gs, es)
        else
          let gs' = (if member then touch_group now g (drop_count g gs) else gs) in
          (case put_edge now g uid RoleBanned (clock n) (delete_pair g uid es) of
             None \<Rightarrow> None
           | Some es' \<Rightarrow> ban_users now clock caller g (Suc n) uids (gs', es')))"

definition BanGroupUsers ::
  "gotime \<Rightarrow> (nat \<Rightarrow> int) \<Rightarrow> group_tables \<Rightarrow> string \<Rightarrow> string \<Rightarrow> string list \<Rightarrow> group_result" where
  "BanGroupUsers now clock st caller g uids =
     (if \<not> acts_as (gtEdges st) g caller RoleAdmin then refuse st ErrNoPermission
      else case ban_users now clock caller g 0 uids (gtGroups st, gtEdges st) of
        None \<Rightarrow> refuse st GroupDatabase
      | Some (gs, es) \<Rightarrow>
          (st\<lparr>gtGroups := gs, gtEdges := es\<rparr>,
           map (Broadcast g GroupChannelMsgBan) (filter (\<lambda>u. u \<noteq> [] \<and> u \<noteq> caller) uids), Inr ()))"

subsection \<open>Changing and deleting a group\<close>

definition UpdateGroup ::
  "group_env \<Rightarrow> gotime \<Rightarrow> group_tables \<Rightarrow> string \<Rightarrow> string \<Rightarrow> string \<Rightarrow> string \<Rightarrow> string \<Rightarrow> string \<Rightarrow> bool
   \<Rightarrow> string \<Rightarrow> group_result" where
  "UpdateGroup env now st caller g name description avatarURL langTag open metadata =
     (if \<not> acts_as (gtEdges st) g caller RoleAdmin then refuse st ErrNoPermission
      else
        let m = (if metadata = [] then ''{}'' else metadata) in
        if \<not> ge_json env m then refuse st ErrGroupMetadata
        else (case live (gtGroups st) g of
            None \<Rightarrow> (st, [], Inr ())
          | Some r \<Rightarrow>
              (case stored_row env (r\<lparr>GName := name, GDescription := description, GAvatarURL := avatarURL,
                      GLangTag := langTag, GState := if open then GroupStateOpen else GroupStateClosed,
                      GMetadata := m, GUpdateTime := now\<rparr>) of
                 None \<Rightarrow> refuse st GroupDatabase
               | Some r' \<Rightarrow>
                   if name_taken (gtGroups st) g (GName r') then refuse st GroupDatabase
                   else (st\<lparr>gtGroups := fmupd g r' (gtGroups st)\<rparr>, [], Inr ()))))"

definition UpdateGroupMaxCount :: "gotime \<Rightarrow> group_tables \<Rightarrow> string \<Rightarrow> int \<Rightarrow> group_result" where
  "UpdateGroupMaxCount now st g maxCount =
     (if maxCount < 1 then refuse st ErrMaxCount
      else case live (gtGroups st) g of
        None \<Rightarrow> (st, [], Inr ())
      | Some r \<Rightarrow>
          (st\<lparr>gtGroups := fmupd g (r\<lparr>GMaxCount := maxCount, GUpdateTime := now\<rparr>) (gtGroups st)\<rparr>, [], Inr ()))"

definition DeleteGroup :: "gotime \<Rightarrow> group_tables \<Rightarrow> string \<Rightarrow> string \<Rightarrow> group_result" where
  "DeleteGroup now st caller g =
     (if caller \<noteq> [] \<and> edge_role (gtEdges st) g caller \<noteq> Some RoleSuperAdmin then refuse st ErrNoPermission
      else (st\<lparr>gtEdges := delete_edges g (gtEdges st), gtGroups := disable_group now g (gtGroups st)\<rparr>,
        [], Inr ()))"

subsection \<open>Leaving\<close>

text \<open>The transaction reads, decides and writes; it locks nothing while it decides.\<close>

datatype leave_decision = LeaveRefused group_error | LeaveBanned | LeaveRequest | LeaveDisband | LeaveMember

definition leave_decide :: "group_tables \<Rightarrow> string \<Rightarrow> string \<Rightarrow> leave_decision" where
  "leave_decide st user g =
     (case edge_role (gtEdges st) g user of
        None \<Rightarrow> LeaveRefused ErrNotMember
      | Some role \<Rightarrow>
          if role = RoleBanned then LeaveBanned
          else if role = RoleJoinRequest then LeaveRequest
          else if role = RoleSuperAdmin \<and> count_edges (gtEdges st) g (\<lambda>k. k = RoleSuperAdmin) \<le> 1 then
            if length (filter (\<lambda>u. u \<noteq> user) (edge_ends (gtEdges st) g (\<lambda>k. k \<le> RoleMember))) > 0
            then LeaveRefused ErrLastSuperadmin else LeaveDisband
          else LeaveMember)"

definition leave_commit :: "gotime \<Rightarrow> leave_decision \<Rightarrow> group_tables \<Rightarrow> string \<Rightarrow> string \<Rightarrow> group_result" where
  "leave_commit now d st user g =
     (case d of
        LeaveRefused err \<Rightarrow> refuse st err
      | LeaveBanned \<Rightarrow> (st, [], Inr ())
      | LeaveRequest \<Rightarrow> (st\<lparr>gtEdges := delete_pair g user (gtEdges st)\<rparr>, [], Inr ())
      | LeaveDisband \<Rightarrow>
          (st\<lparr>gtEdges := delete_edges g (gtEdges st), gtGroups := disable_group now g (gtGroups st)\<rparr>, [], Inr ())
      | LeaveMember \<Rightarrow>
          (st\<lparr>gtEdges := delete_pair g user (gtEdges st), gtGroups := drop_count g (gtGroups st)\<rparr>,
           [Broadcast g GroupChannelMsgLeave user], Inr ()))"

definition LeaveGroup :: "gotime \<Rightarrow> group_tables \<Rightarrow> string \<Rightarrow> string \<Rightarrow> group_result" where
  "LeaveGroup now st user g = leave_commit now (leave_decide st user g) st user g"

subsection \<open>Roles\<close>

definition PromoteMember :: "group_tables \<Rightarrow> string \<Rightarrow> string \<Rightarrow> string \<Rightarrow> group_result" where
  "PromoteMember st actor user g =
     (case edge_role (gtEdges st) g user of
        None \<Rightarrow> refuse st ErrNotMember
      | Some target \<Rightarrow>
          if target > RoleMember \<or> target \<le> RoleSuperAdmin then refuse st ErrPromoteTarget
          else (case (if actor = [] then None
                 else case edge_role (gtEdges st) g actor of
                   None \<Rightarrow> Some ErrActorNotMember
                 | Some role \<Rightarrow>
                     if role > RoleAdmin then Some ErrNoPermission
                     else if target \<le> role then Some ErrPromoteRank else None) of
             Some err \<Rightarrow> refuse st err
           | None \<Rightarrow>
               (case set_pair g user (target - 1) (gtEdges st) of
                  None \<Rightarrow> refuse st GroupDatabase
                | Some es \<Rightarrow> (st\<lparr>gtEdges := es\<rparr>, [Broadcast g GroupChannelMsgPromote user], Inr ()))))"

definition DemoteMember :: "group_tables \<Rightarrow> string \<Rightarrow> string \<Rightarrow> string \<Rightarrow> group_result" where
  "DemoteMember st actor user g =
     (case edge_role (gtEdges st) g user of
        None \<Rightarrow> refuse st ErrNotMember
      | Some target \<Rightarrow>
          if target \<ge> RoleMember \<or> target < RoleSuperAdmin then refuse st ErrDemoteTarget
          else (case (if actor = [] then None
                 else case edge_role (gtEdges st) g actor of
                   None \<Rightarrow> Some ErrActorNotMember
                 | Some role \<Rightarrow>
                     if role > RoleAdmin then Some ErrNoPermission
                     else if role \<ge> target then Some ErrDemoteRank else None) of
             Some err \<Rightarrow> refuse st err
           | None \<Rightarrow>
               if target = RoleSuperAdmin \<and> count_edges (gtEdges st) g (\<lambda>k. k = RoleSuperAdmin) \<le> 1
               then refuse st ErrDemoteLast
               else (case set_pair g user (target + 1) (gtEdges st) of
                  None \<Rightarrow> refuse st GroupDatabase
                | Some es \<Rightarrow> (st\<lparr>gtEdges := es\<rparr>, [Broadcast g GroupChannelMsgDemote user], Inr ()))))"

subsection \<open>Lists\<close>

definition group_rows :: "group_tables \<Rightarrow> group_row list" where
  "group_rows st = filter (\<lambda>r. GDisableTime r = epochDisable)
     (List.map_filter (fmlookup (gtGroups st)) (sorted_list_of_fset (fmdom (gtGroups st))))"

definition GroupsGetID :: "group_tables \<Rightarrow> string list \<Rightarrow> group_row list" where
  "GroupsGetID st ids = (if ids = [] then [] else filter (\<lambda>r. GID r \<in> set ids) (group_rows st))"

text \<open>\<open>ord\<close> is the random order of the database.\<close>

definition GroupsGetRandom :: "(group_row list \<Rightarrow> group_row list) \<Rightarrow> group_tables \<Rightarrow> int \<Rightarrow> group_row list" where
  "GroupsGetRandom ord st count =
     (let n = (if count \<le> 0 then 1 else count) in take (nat (if n > 100 then 100 else n)) (ord (group_rows st)))"

definition list_size :: "int \<Rightarrow> nat" where
  "list_size limit = nat (let n = (if limit \<le> 0 then 10 else limit) in if n > 100 then 100 else n)"

text \<open>The part of a list from an index on, and the cursor of what follows.\<close>

definition cut_page :: "nat \<Rightarrow> nat \<Rightarrow> (nat \<Rightarrow> string) \<Rightarrow> 'a list \<Rightarrow> 'a list \<times> string" where
  "cut_page start limit cursor_at xs =
     (if start \<ge> length xs then ([], [])
      else
        let stop = (if start + limit > length xs then length xs else start + limit) in
        (take (stop - start) (drop start xs), if stop < length xs then cursor_at stop else []))"

definition ListGroups ::
  "group_env \<Rightarrow> group_tables \<Rightarrow> string \<Rightarrow> string \<Rightarrow> bool option \<Rightarrow> int \<Rightarrow> int \<Rightarrow> string
   \<Rightarrow> group_row list \<times> string" where
  "ListGroups env st name langTag open members limit cursor =
     (let rows = filter (\<lambda>r. (name = [] \<or> ge_ilike env (''%'' @ name @ ''%'') (GName r)) \<and>
            (langTag = [] \<or> GLangTag r = langTag) \<and>
            (case open of None \<Rightarrow> True
             | Some b \<Rightarrow> GState r = (if \<not> b then GroupStateClosed else GroupStateOpen)) \<and>
            (members > 0 \<longrightarrow> GEdgeCount r \<le> members)) (group_rows st);
          start = (if cursor = [] then 0
            else case index_of cursor (map GID rows) of None \<Rightarrow> 0 | Some i \<Rightarrow> i + 1) in
      cut_page start (list_size limit) (\<lambda>i. GID (rows ! (i - 1))) rows)"

text \<open>\<open>strconv.ParseInt\<close> in base 10 for 64 bits.\<close>

definition digit_val :: "char \<Rightarrow> int option" where
  "digit_val c = (if CHR ''0'' \<le> c \<and> c \<le> CHR ''9'' then Some (int (of_char c) - 48) else None)"

fun digits_val :: "int \<Rightarrow> string \<Rightarrow> int option" where
  "digits_val acc [] = Some acc"
| "digits_val acc (c # cs) = (case digit_val c of None \<Rightarrow> None | Some d \<Rightarrow> digits_val (10 * acc + d) cs)"

definition ParseInt :: "string \<Rightarrow> int option" where
  "ParseInt s =
     (let (neg, ds) = (case s of [] \<Rightarrow> (False, [])
            | c # cs \<Rightarrow> if c = CHR ''-'' then (True, cs) else if c = CHR ''+'' then (False, cs) else (False, s)) in
      if ds = [] then None
      else case digits_val 0 ds of
        None \<Rightarrow> None
      | Some v \<Rightarrow>
          let n = (if neg then - v else v) in
          if - (2 ^ 63) \<le> n \<and> n < 2 ^ 63 then Some n else None)"

text \<open>The first row below the position of the cursor; the first row of all when there is none.\<close>

definition position_start :: "string \<Rightarrow> int list \<Rightarrow> nat" where
  "position_start cursor positions =
     (if cursor = [] then 0
      else case ParseInt cursor of
        None \<Rightarrow> 0
      | Some p \<Rightarrow>
          let i = length (takeWhile (\<lambda>q. \<not> q < p) positions) in if i < length positions then i else 0)"

record group_member =
  GmUserID :: string
  GmUsername :: string
  GmRole :: int

definition position_rows :: "group_tables \<Rightarrow> string \<Rightarrow> (string \<times> group_edge) list" where
  "position_rows st s =
     sort_key (\<lambda>(_, e). - EPosition e)
       (List.map_filter (\<lambda>k. map_option (Pair (snd k)) (fmlookup (gtEdges st) k))
         (filter (\<lambda>k. fst k = s) (sorted_list_of_fset (fmdom (gtEdges st)))))"

definition member_rows :: "group_tables \<Rightarrow> string \<Rightarrow> (group_member \<times> int) list" where
  "member_rows st g =
     List.map_filter (\<lambda>(u, e). if EState e \<le> RoleMember
       then map_option (\<lambda>n. (\<lparr>GmUserID = u, GmUsername = n, GmRole = EState e\<rparr>, EPosition e))
         (fmlookup (gtUsers st) u) else None) (position_rows st g)"

definition ListGroupMembers :: "group_tables \<Rightarrow> string \<Rightarrow> int \<Rightarrow> string \<Rightarrow> group_member list \<times> string" where
  "ListGroupMembers st g limit cursor =
     (let rows = member_rows st g; positions = map snd rows in
      cut_page (position_start cursor positions) (list_size limit) (\<lambda>i. decimal (positions ! i)) (map fst rows))"

definition ListUserGroups :: "group_tables \<Rightarrow> string \<Rightarrow> int \<Rightarrow> string \<Rightarrow> (group_row \<times> int) list \<times> string" where
  "ListUserGroups st user limit cursor =
     (let rows = List.map_filter (\<lambda>(g, e). if EState e \<le> RoleMember
            then map_option (\<lambda>r. ((r, EState e), EPosition e)) (live (gtGroups st) g) else None)
            (position_rows st user);
          positions = map snd rows in
      cut_page (position_start cursor positions) (list_size limit) (\<lambda>i. decimal (positions ! i)) (map fst rows))"

end
