(* ===== verification/Social_Group_Props.thy ===== *)
theory Social_Group_Props
  imports Social_Groups
begin

section \<open>Properties of groups\<close>

text \<open>
  An abstract view of the tables (the size and limit of each live group, the role at the end of each edge)
  and its invariant: every live group has a superadmin, counts its members, keeps its limit, and each
  membership has both edges.  Every operation of a client keeps it; what two concurrent leaves and the
  member lists do is shown on concrete tables.
\<close>

subsection \<open>The view\<close>

type_synonym group_view = "string \<Rightarrow> (int \<times> int) option"
type_synonym role_view = "string \<Rightarrow> string \<Rightarrow> int option"

definition sizes :: "(string, group_row) fmap \<Rightarrow> group_view" where
  "sizes gs g = map_option (\<lambda>r. (GEdgeCount r, GMaxCount r)) (live gs g)"

definition members :: "role_view \<Rightarrow> string \<Rightarrow> string set" where
  "members E g = {u. \<exists>k. E g u = Some k \<and> k \<le> RoleMember}"

definition mirror :: "int option \<Rightarrow> int option" where
  "mirror k = (if k = Some RoleBanned then None else k)"

text \<open>Identifiers of users and of groups are apart: \<open>isu\<close> tells the users.\<close>

definition sound :: "(string \<Rightarrow> bool) \<Rightarrow> group_view \<Rightarrow> role_view \<Rightarrow> bool" where
  "sound isu V E \<longleftrightarrow>
     (\<forall>g n m. V g = Some (n, m) \<longrightarrow>
        \<not> isu g \<and> (\<exists>u. E g u = Some RoleSuperAdmin) \<and> n = int (card (members E g)) \<and> n \<le> m) \<and>
     (\<forall>s d k. E s d = Some k \<longrightarrow> 0 \<le> k \<and> k \<le> RoleBanned \<and> (isu s \<and> V d \<noteq> None \<or> isu d \<and> V s \<noteq> None)) \<and>
     (\<forall>u g. isu u \<longrightarrow> V g \<noteq> None \<longrightarrow> E u g = mirror (E g u))"

lemma soundD:
  assumes "sound isu V E"
  shows "V g = Some (n, m) \<Longrightarrow> \<not> isu g" "V g = Some (n, m) \<Longrightarrow> \<exists>u. E g u = Some RoleSuperAdmin"
    "V g = Some (n, m) \<Longrightarrow> n = int (card (members E g))" "V g = Some (n, m) \<Longrightarrow> n \<le> m"
    "E s d = Some k \<Longrightarrow> 0 \<le> k \<and> k \<le> RoleBanned" "E s d = Some k \<Longrightarrow> isu s \<and> V d \<noteq> None \<or> isu d \<and> V s \<noteq> None"
    "isu u \<Longrightarrow> V g \<noteq> None \<Longrightarrow> E u g = mirror (E g u)"
  using assms unfolding sound_def by blast+

definition link :: "role_view \<Rightarrow> string \<Rightarrow> string \<Rightarrow> int option \<Rightarrow> role_view" where
  "link E g u k = E(g := (E g)(u := k), u := (E u)(g := mirror k))"

definition weight :: "int option \<Rightarrow> int" where
  "weight k = (case k of None \<Rightarrow> 0 | Some r \<Rightarrow> if r \<le> RoleMember then 1 else 0)"

lemma members_link:
  assumes "g \<noteq> u"
  shows "members (link E g u k) g = (if weight k = 1 then insert u (members E g) else members E g - {u})"
  using assms by (auto simp: members_def link_def weight_def split: option.splits if_splits)

lemma card_members_link:
  assumes "g \<noteq> u" "finite (members E g)"
  shows "int (card (members (link E g u k) g)) = int (card (members E g)) - weight (E g u) + weight k"
proof -
  have m: "u \<in> members E g \<longleftrightarrow> weight (E g u) = 1" "weight k = 1 \<or> weight k = 0" "weight (E g u) = 1 \<or> weight (E g u) = 0"
    by (auto simp: members_def weight_def split: option.splits)
  show ?thesis
  proof (cases "u \<in> members E g")
    case True
    then have "0 < card (members E g)" using assms(2) by (auto simp: card_gt_0_iff)
    with True m assms show ?thesis by (auto simp: members_link insert_absorb)
  next
    case False
    with m assms show ?thesis by (auto simp: members_link)
  qed
qed

text \<open>Changing one role.\<close>

lemma sound_link:
  assumes s: "sound isu V E" and g: "V g = Some (n, m)" and u: "isu u" and fin: "finite (members E g)"
    and k: "\<And>r. k = Some r \<Longrightarrow> 0 \<le> r \<and> r \<le> RoleBanned"
    and admin: "k = Some RoleSuperAdmin \<or> (\<exists>v. v \<noteq> u \<and> E g v = Some RoleSuperAdmin)"
    and room: "n - weight (E g u) + weight k \<le> m"
  shows "sound isu (V(g \<mapsto> (n - weight (E g u) + weight k, m))) (link E g u k)"
proof -
  have gu: "g \<noteq> u" "\<not> isu g" using soundD(1) [OF s g] u by auto
  have other: "link E g u k h = E h \<or> isu h" if "h \<noteq> g" for h
    using that u by (auto simp: link_def)
  have same: "members (link E g u k) h = members E h" if "h \<noteq> g" "\<not> isu h" for h
    using that other [of h] by (simp add: members_def)
  show ?thesis
    unfolding sound_def
  proof (intro conjI allI impI)
    fix h a b
    assume h: "(V(g \<mapsto> (n - weight (E g u) + weight k, m))) h = Some (a, b)"
    show "\<not> isu h" using h gu(2) soundD(1) [OF s] by (auto split: if_splits)
    show "\<exists>v. link E g u k h v = Some RoleSuperAdmin"
    proof (cases "h = g")
      case True
      with admin gu show ?thesis by (auto simp: link_def)
    next
      case False
      then have "V h = Some (a, b)" using h by simp
      with soundD(1,2) [OF s] other [OF False] show ?thesis by metis
    qed
    show "a = int (card (members (link E g u k) h))"
    proof (cases "h = g")
      case True
      with h card_members_link [OF gu(1) fin] soundD(3) [OF s g] show ?thesis by simp
    next
      case False
      then have "V h = Some (a, b)" using h by simp
      with soundD(1,3) [OF s] same [OF False] show ?thesis by metis
    qed
    show "a \<le> b" using h room soundD(4) [OF s] by (auto split: if_splits)
  next
    fix x y r
    assume r: "link E g u k x y = Some r"
    then have old: "E x y = Some r \<or> (x = g \<and> y = u \<and> k = Some r) \<or> (x = u \<and> y = g \<and> k = Some r)"
      using gu by (auto simp: link_def mirror_def split: if_splits)
    then show "0 \<le> r" "r \<le> RoleBanned" using soundD(5) [OF s] k by blast+
    show "isu x \<and> (V(g \<mapsto> (n - weight (E g u) + weight k, m))) y \<noteq> None \<or>
        isu y \<and> (V(g \<mapsto> (n - weight (E g u) + weight k, m))) x \<noteq> None"
      using old soundD(6) [OF s, of x y r] u by auto
  next
    fix w h
    assume w: "isu w" and h: "(V(g \<mapsto> (n - weight (E g u) + weight k, m))) h \<noteq> None"
    have "V h \<noteq> None" using h g by (auto split: if_splits)
    with soundD(7) [OF s w this] soundD(1) [OF s] gu w show "link E g u k w h = mirror (link E g u k h w)"
      by (auto simp: link_def)
  qed
qed

text \<open>A new group, and the end of one.\<close>

lemma no_edges:
  assumes "sound isu V E" "\<not> isu g" "V g = None"
  shows "E g u = None" "E u g = None"
  using soundD(6) [OF assms(1), of g u] soundD(6) [OF assms(1), of u g] assms(2,3)
  by (cases "E g u"; cases "E u g"; auto)+

lemma sound_create:
  assumes s: "sound isu V E" and g: "V g = None" "\<not> isu g" and u: "isu u" and m: "1 \<le> m"
  shows "sound isu (V(g \<mapsto> (1, m))) (link E g u (Some RoleSuperAdmin))"
proof -
  note none = no_edges [OF s g(2,1)]
  have gu: "g \<noteq> u" using g(2) u by auto
  have "members E g = {}" using none by (auto simp: members_def)
  then have mg: "members (link E g u (Some RoleSuperAdmin)) g = {u}"
    using gu by (simp add: members_link weight_def RoleSuperAdmin_def RoleMember_def)
  have other: "link E g u (Some RoleSuperAdmin) h = E h" if "h \<noteq> g" "\<not> isu h" for h
    using that u by (auto simp: link_def)
  have same: "members (link E g u (Some RoleSuperAdmin)) h = members E h" if "h \<noteq> g" "\<not> isu h" for h
    using other [OF that] by (simp add: members_def)
  show ?thesis
    unfolding sound_def
  proof (intro conjI allI impI)
    fix h a b
    assume h: "(V(g \<mapsto> (1, m))) h = Some (a, b)"
    show h': "\<not> isu h" using h g(2) soundD(1) [OF s] by (auto split: if_splits)
    show "\<exists>v. link E g u (Some RoleSuperAdmin) h v = Some RoleSuperAdmin"
      using h h' gu soundD(2) [OF s] other by (cases "h = g") (auto simp: link_def)
    show "a = int (card (members (link E g u (Some RoleSuperAdmin)) h))"
      using h h' mg same soundD(3) [OF s] by (cases "h = g") auto
    show "a \<le> b" using h m soundD(4) [OF s] by (auto split: if_splits)
  next
    fix x y r
    assume "link E g u (Some RoleSuperAdmin) x y = Some r"
    then have old: "E x y = Some r \<or> (x = g \<and> y = u \<and> r = RoleSuperAdmin) \<or> (x = u \<and> y = g \<and> r = RoleSuperAdmin)"
      using gu by (auto simp: link_def mirror_def split: if_splits)
    then show "0 \<le> r" "r \<le> RoleBanned"
      using soundD(5) [OF s] by (auto simp: RoleSuperAdmin_def RoleBanned_def)
    show "isu x \<and> (V(g \<mapsto> (1, m))) y \<noteq> None \<or> isu y \<and> (V(g \<mapsto> (1, m))) x \<noteq> None"
      using old soundD(6) [OF s, of x y r] u by auto
  next
    fix w h
    assume w: "isu w" and h: "(V(g \<mapsto> (1, m))) h \<noteq> None"
    show "link E g u (Some RoleSuperAdmin) w h = mirror (link E g u (Some RoleSuperAdmin) h w)"
    proof (cases "h = g")
      case True
      with none gu w g(2) show ?thesis by (auto simp: link_def mirror_def RoleSuperAdmin_def RoleBanned_def)
    next
      case False
      then have "V h \<noteq> None" using h by simp
      with soundD(7) [OF s w this] soundD(1) [OF s] False w g(2) u show ?thesis by (auto simp: link_def)
    qed
  qed
qed

definition unlink :: "role_view \<Rightarrow> string \<Rightarrow> role_view" where
  "unlink E g x y = (if x = g \<or> y = g then None else E x y)"

lemma sound_delete:
  assumes s: "sound isu V E" and g: "\<not> isu g"
  shows "sound isu (V(g := None)) (unlink E g)"
proof -
  have m: "members (unlink E g) h = members E h" if "V h = Some (a, b)" "h \<noteq> g" for h a b
    using that soundD(6) [OF s, of h g] soundD(1) [OF s that(1)] g
    by (auto simp: members_def unlink_def)
  show ?thesis
    unfolding sound_def
  proof (intro conjI allI impI)
    fix h a b
    assume h: "(V(g := None)) h = Some (a, b)"
    then have h': "V h = Some (a, b)" "h \<noteq> g" by (auto split: if_splits)
    show "\<not> isu h" "a \<le> b" using h' soundD(1,4) [OF s] by blast+
    obtain v where v: "E h v = Some RoleSuperAdmin" using soundD(2) [OF s h'(1)] by blast
    then have "v \<noteq> g" using soundD(6) [OF s v] soundD(1) [OF s h'(1)] g by auto
    with v h'(2) show "\<exists>v. unlink E g h v = Some RoleSuperAdmin" by (auto simp: unlink_def)
    show "a = int (card (members (unlink E g) h))" using m [OF h'] soundD(3) [OF s h'(1)] by simp
  next
    fix x y r
    assume "unlink E g x y = Some r"
    then have r: "E x y = Some r" "x \<noteq> g" "y \<noteq> g" by (auto simp: unlink_def split: if_splits)
    show "0 \<le> r" "r \<le> RoleBanned" using soundD(5) [OF s r(1)] by simp_all
    show "isu x \<and> (V(g := None)) y \<noteq> None \<or> isu y \<and> (V(g := None)) x \<noteq> None"
      using soundD(6) [OF s r(1)] r(2,3) by auto
  next
    fix w h
    assume "isu w" "(V(g := None)) h \<noteq> None"
    with soundD(7) [OF s, of w h] g show "unlink E g w h = mirror (unlink E g h w)"
      by (auto simp: unlink_def mirror_def split: if_splits)
  qed
qed

subsection \<open>The statements in the view\<close>

lemma put_edge_role:
  "put_edge now s d st pos es = Some es' \<Longrightarrow> edge_role es' = (edge_role es)(s := (edge_role es s)(d \<mapsto> st))"
  by (auto simp: put_edge_def edge_role_def fun_eq_iff split: if_splits)

lemma put_pair_link:
  assumes "put_pair now g u st pos es = Some es'" "g \<noteq> u" "st \<noteq> RoleBanned"
  shows "edge_role es' = link (edge_role es) g u (Some st)"
proof -
  obtain es1 where "put_edge now g u st pos es = Some es1" "put_edge now u g st pos es1 = Some es'"
    using assms(1) by (auto simp: put_pair_def bind_eq_Some_conv)
  from this [THEN put_edge_role] assms(2,3) show ?thesis by (auto simp: link_def mirror_def fun_eq_iff)
qed

lemma delete_pair_link: "g \<noteq> u \<Longrightarrow> edge_role (delete_pair g u es) = link (edge_role es) g u None"
  by (auto simp: edge_role_def delete_pair_def link_def mirror_def fun_eq_iff)

lemma ban_link:
  assumes "put_edge now g u RoleBanned pos (delete_pair g u es) = Some es'" "g \<noteq> u"
  shows "edge_role es' = link (edge_role es) g u (Some RoleBanned)"
  using put_edge_role [OF assms(1)] assms(2)
  by (auto simp: edge_role_def delete_pair_def link_def mirror_def fun_eq_iff)

lemma set_state_role:
  "set_state s d st es = Some es' \<Longrightarrow>
     edge_role es' = (edge_role es)(s := (edge_role es s)(d := map_option (\<lambda>_. st) (edge_role es s d)))"
  by (auto simp: set_state_def edge_role_def fun_eq_iff split: option.splits if_splits)

lemma set_pair_link:
  assumes "set_pair g u st es = Some es'" "g \<noteq> u" "edge_role es g u = Some k" "edge_role es u g = Some k" "st \<noteq> RoleBanned"
  shows "edge_role es' = link (edge_role es) g u (Some st)"
proof -
  obtain es1 where "set_state g u st es = Some es1" "set_state u g st es1 = Some es'"
    using assms(1) by (auto simp: set_pair_def bind_eq_Some_conv)
  from this [THEN set_state_role] assms(2-5) show ?thesis by (auto simp: link_def mirror_def fun_eq_iff)
qed

lemma delete_edges_unlink: "edge_role (delete_edges g es) = unlink (edge_role es) g"
  by (auto simp: edge_role_def delete_edges_def unlink_def fun_eq_iff)

lemma members_finite: "finite (members (edge_role es) g)"
proof (rule finite_subset)
  show "members (edge_role es) g \<subseteq> snd ` fset (fmdom es)"
    by (force simp: members_def edge_role_def fmlookup_dom_iff)
qed simp

lemma sizes_upd: "sizes (fmupd g r gs) = (sizes gs)(g := (if GDisableTime r = epochDisable then Some (GEdgeCount r, GMaxCount r) else None))"
  by (auto simp: sizes_def live_def fun_eq_iff)

lemma live_SomeD: "live gs g = Some r \<Longrightarrow> fmlookup gs g = Some r \<and> GDisableTime r = epochDisable"
  by (auto simp: live_def split: option.splits if_splits)

lemma sizes_Some: "sizes gs g = Some (n, m) \<longleftrightarrow> (\<exists>r. live gs g = Some r \<and> GEdgeCount r = n \<and> GMaxCount r = m)"
  by (auto simp: sizes_def)

lemma sizes_count:
  "sizes (add_count now g k gs) = (case sizes gs g of None \<Rightarrow> sizes gs | Some (n, m) \<Rightarrow> (sizes gs)(g \<mapsto> (n + k, m)))"
  "sizes (touch_group now g gs) = sizes gs"
  "sizes (drop_count g gs) = (case sizes gs g of None \<Rightarrow> sizes gs | Some (n, m) \<Rightarrow> (sizes gs)(g \<mapsto> (max (n - 1) 0, m)))"
  "now \<noteq> epochDisable \<Longrightarrow> sizes (disable_group now g gs) = (sizes gs)(g := None)"
  by (auto simp: sizes_def add_count_def touch_group_def drop_count_def disable_group_def live_def fun_eq_iff
      split: option.splits)

subsection \<open>Every operation of a client\<close>

definition tables_sound :: "(string \<Rightarrow> bool) \<Rightarrow> group_tables \<Rightarrow> bool" where
  "tables_sound isu st \<longleftrightarrow> sound isu (sizes (gtGroups st)) (edge_role (gtEdges st))"

lemma role_live:
  assumes "sound isu V E" "E g u = Some k" "isu u"
  obtains n m where "V g = Some (n, m)" "\<not> isu g"
proof -
  have "isu g \<and> V u \<noteq> None \<or> isu u \<and> V g \<noteq> None" using soundD(6) [OF assms(1,2)] .
  then obtain n m where "V g = Some (n, m)" using soundD(1) [OF assms(1), of u] assms(3) by auto
  with soundD(1) [OF assms(1)] that show thesis by blast
qed

lemma role_user: "sound isu V E \<Longrightarrow> V g = Some (n, m) \<Longrightarrow> E g u = Some k \<Longrightarrow> isu u"
  using soundD(1) [of isu V E g n m] soundD(6) [of isu V E g u k] by auto

lemma role_back:
  "sound isu V E \<Longrightarrow> V g = Some (n, m) \<Longrightarrow> E g u = Some k \<Longrightarrow> k \<noteq> RoleBanned \<Longrightarrow> E u g = Some k"
  using soundD(7) [of isu V E u g] role_user [of isu V E g n m u k] by (simp add: mirror_def)

lemma weight_simps [simp]:
  "weight None = 0" "k \<le> RoleMember \<Longrightarrow> weight (Some k) = 1" "RoleMember < k \<Longrightarrow> weight (Some k) = 0"
  by (simp_all add: weight_def)

lemmas role_defs = RoleSuperAdmin_def RoleAdmin_def RoleMember_def RoleJoinRequest_def RoleBanned_def

text \<open>Changing one role together with the size.\<close>

lemma tables_link:
  assumes s: "sound isu (sizes gs) (edge_role es)" and g: "sizes gs g = Some (n, m)" and u: "isu u"
    and es': "edge_role es' = link (edge_role es) g u k"
    and k: "\<And>r. k = Some r \<Longrightarrow> 0 \<le> r \<and> r \<le> RoleBanned"
    and admin: "k = Some RoleSuperAdmin \<or> (\<exists>v. v \<noteq> u \<and> edge_role es g v = Some RoleSuperAdmin)"
    and n': "n' = n - weight (edge_role es g u) + weight k" "n' \<le> m"
    and gs': "sizes gs' = (sizes gs)(g \<mapsto> (n', m))"
  shows "sound isu (sizes gs') (edge_role es')"
  using sound_link [OF s g u members_finite k admin] n' unfolding gs' es' by simp

lemma other_admin:
  assumes "sound isu V E" "V g = Some (n, m)" "E g u \<noteq> Some RoleSuperAdmin"
  shows "\<exists>v. v \<noteq> u \<and> E g v = Some RoleSuperAdmin"
  using soundD(2) [OF assms(1,2)] assms(3) by metis

lemma create_sound:
  assumes s: "tables_sound isu st" and c: "CreateGroupWithParams env now pos g st creator p = (st', res)"
    and u: "isu creator" "\<not> isu g"
  shows "tables_sound isu st'"
proof (cases res)
  case (Inl err)
  with c have "st' = st"
    by (auto simp: CreateGroupWithParams_def Let_def split: if_splits option.splits)
  with s show ?thesis by simp
next
  case (Inr row)
  let ?row = "\<lparr>GID = g, GCreatorID = creator, GName = CpName p, GDescription = CpDescription p,
      GAvatarURL = CpAvatarURL p, GLangTag = (if CpLangTag p = [] then ''en'' else CpLangTag p),
      GMetadata = (if CpMetadata p = [] then ''{}'' else CpMetadata p),
      GState = (if CpOpen p then GroupStateOpen else GroupStateClosed),
      GEdgeCount = 1, GMaxCount = (if CpMaxCount p \<le> 0 then 100 else CpMaxCount p),
      GCreateTime = now, GUpdateTime = now, GDisableTime = epochDisable\<rparr>"
  obtain r where r: "stored_row env ?row = Some r"
    using c Inr unfolding CreateGroupWithParams_def Let_def by (auto split: if_split_asm option.split_asm)
  then have cols: "GDisableTime r = epochDisable" "GEdgeCount r = 1" "1 \<le> GMaxCount r"
    by (auto simp: stored_row_def split: option.splits if_splits)
  obtain es where new: "fmlookup (gtGroups st) g = None"
    and ins: "Option.bind (insert_edge now g creator RoleSuperAdmin pos (gtEdges st))
      (insert_edge now creator g RoleSuperAdmin pos) = Some es"
    and st': "st' = st\<lparr>gtGroups := fmupd g r (gtGroups st), gtEdges := es\<rparr>"
    using c Inr unfolding CreateGroupWithParams_def Let_def r by (auto split: if_split_asm option.split_asm)
  have "put_pair now g creator RoleSuperAdmin pos (gtEdges st) = Some es"
    using ins by (auto simp: put_pair_def insert_edge_def bind_eq_Some_conv split: if_splits)
  moreover have "g \<noteq> creator" using u by auto
  ultimately have "edge_role es = link (edge_role (gtEdges st)) g creator (Some RoleSuperAdmin)"
    by (rule put_pair_link) (simp add: role_defs)
  moreover have "sizes (gtGroups st) g = None" using new by (simp add: sizes_def live_def)
  from sound_create [OF s [unfolded tables_sound_def] this u(2,1) cols(3)]
  have "sound isu ((sizes (gtGroups st))(g \<mapsto> (1, GMaxCount r))) (link (edge_role (gtEdges st)) g creator (Some RoleSuperAdmin))" .
  ultimately show ?thesis by (simp add: tables_sound_def st' sizes_upd cols)
qed

lemma join_sound:
  assumes s: "tables_sound isu st" and j: "JoinGroup now pos st user g = (st', calls, res)" and u: "isu user"
  shows "tables_sound isu st'"
proof (cases res)
  case (Inl err)
  with j have "st' = st"
    by (auto simp: JoinGroup_def refuse_def Let_def split: if_splits option.splits)
  with s show ?thesis by simp
next
  case (Inr x)
  note S = s [unfolded tables_sound_def]
  obtain r where r: "live (gtGroups st) g = Some r"
    using j Inr by (auto simp: JoinGroup_def refuse_def split: option.splits)
  have g: "sizes (gtGroups st) g = Some (GEdgeCount r, GMaxCount r)" using r by (simp add: sizes_def)
  have none: "edge_role (gtEdges st) g user = None"
  proof (rule ccontr)
    assume "edge_role (gtEdges st) g user \<noteq> None"
    then obtain k where k: "edge_role (gtEdges st) g user = Some k" by blast
    have "k \<le> RoleMember \<or> k = RoleBanned \<or> k = RoleJoinRequest"
      using soundD(5) [OF S k] by (auto simp: role_defs)
    with j Inr r k show False by (auto simp: JoinGroup_def refuse_def Let_def role_defs split: if_splits)
  qed
  have gu: "g \<noteq> user" using soundD(1) [OF S g] u by auto
  note admin = other_admin [OF S g, of user]
  from j Inr r none consider
      es where "GEdgeCount r < GMaxCount r" "put_pair now g user RoleMember pos (gtEdges st) = Some es"
        "st' = st\<lparr>gtEdges := es, gtGroups := add_count now g 1 (gtGroups st)\<rparr>"
    | es where "put_pair now g user RoleJoinRequest pos (gtEdges st) = Some es" "st' = st\<lparr>gtEdges := es\<rparr>"
    by (auto simp: JoinGroup_def refuse_def Let_def split: if_splits option.splits)
  then show ?thesis
  proof cases
    case (1 es)
    have "edge_role es = link (edge_role (gtEdges st)) g user (Some RoleMember)"
      by (rule put_pair_link [OF 1(2) gu]) (simp add: role_defs)
    from tables_link [OF S g u this, where n' = "GEdgeCount r + 1" and gs' = "add_count now g 1 (gtGroups st)"]
    show ?thesis using admin none 1(1) g by (simp add: tables_sound_def 1(3) sizes_count role_defs)
  next
    case (2 es)
    have "edge_role es = link (edge_role (gtEdges st)) g user (Some RoleJoinRequest)"
      by (rule put_pair_link [OF 2(1) gu]) (simp add: role_defs)
    from tables_link [OF S g u this, where n' = "GEdgeCount r" and gs' = "gtGroups st"]
    show ?thesis
      using admin none soundD(4) [OF S g] g by (simp add: tables_sound_def 2(2) role_defs fun_upd_idem)
  qed
qed

lemma add_users_sound:
  assumes "sound isu (sizes (add_count now g a gs)) (edge_role es)"
    and "live gs g = Some r" and "\<forall>u\<in>set uids. u = [] \<or> isu u" and "0 \<le> a"
    and "add_users now clock g r n uids (es, a) = Inr (es', a')"
  shows "sound isu (sizes (add_count now g a' gs)) (edge_role es') \<and> a \<le> a'"
  using assms
proof (induction uids arbitrary: n es a)
  case (Cons uid uids)
  show ?case
  proof (cases "uid = [] \<or> (case edge_role es g uid of None \<Rightarrow> False | Some k \<Rightarrow> k \<le> RoleMember \<or> k = RoleBanned)")
    case True
    then have "add_users now clock g r (Suc n) uids (es, a) = Inr (es', a')"
      using Cons.prems(5) by (auto split: if_splits)
    with Cons.IH [OF Cons.prems(1,2) _ Cons.prems(4)] Cons.prems(3) show ?thesis by simp
  next
    case False
    then obtain es1 where p: "put_pair now g uid RoleMember (clock n) es = Some es1"
      and room: "GEdgeCount r + a < GMaxCount r"
      and rest: "add_users now clock g r (Suc n) uids (es1, a + 1) = Inr (es', a')"
      using Cons.prems(5) by (auto split: if_splits option.splits)
    have u: "isu uid" using False Cons.prems(3) by auto
    note S = Cons.prems(1)
    have g: "sizes (add_count now g a gs) g = Some (GEdgeCount r + a, GMaxCount r)"
      using Cons.prems(2) by (simp add: sizes_count sizes_def)
    have gu: "g \<noteq> uid" using soundD(1) [OF S g] u by auto
    have w: "weight (edge_role es g uid) = 0" "edge_role es g uid \<noteq> Some RoleSuperAdmin"
      using False soundD(5) [OF S, of g uid]
      by (auto simp: weight_def role_defs split: option.splits)
    have l: "edge_role es1 = link (edge_role es) g uid (Some RoleMember)"
      by (rule put_pair_link [OF p gu]) (simp add: role_defs)
    have "sizes (add_count now g (a + 1) gs) = (sizes (add_count now g a gs))(g \<mapsto> (GEdgeCount r + a + 1, GMaxCount r))"
      using Cons.prems(2) by (simp add: sizes_count sizes_def add.assoc)
    from tables_link [OF S g u l _ _ _ _ this] other_admin [OF S g w(2)] w(1) room
    have "sound isu (sizes (add_count now g (a + 1) gs)) (edge_role es1)" by (simp add: role_defs)
    from Cons.IH [OF this Cons.prems(2) _ _ rest] Cons.prems(3,4) show ?thesis by simp
  qed
qed simp

lemma add_sound:
  assumes s: "tables_sound isu st" and j: "AddGroupUsers now clock st caller g uids = (st', calls, res)"
    and u: "\<forall>u\<in>set uids. u = [] \<or> isu u"
  shows "tables_sound isu st'"
proof (cases res)
  case (Inl err)
  with j have "st' = st"
    by (auto simp: AddGroupUsers_def refuse_def split: if_splits option.splits sum.splits)
  with s show ?thesis by simp
next
  case (Inr x)
  obtain r es a where r: "live (gtGroups st) g = Some r"
    and a: "add_users now clock g r 0 uids (gtEdges st, 0) = Inr (es, a)"
    and st': "st' = st\<lparr>gtEdges := es, gtGroups := (if a > 0 then add_count now g a (gtGroups st) else gtGroups st)\<rparr>"
    using j Inr by (auto simp: AddGroupUsers_def refuse_def split: if_splits option.splits sum.splits)
  have z: "sizes (add_count now g 0 (gtGroups st)) = sizes (gtGroups st)"
    using r by (auto simp: sizes_count sizes_def fun_eq_iff)
  from add_users_sound [OF _ r u _ a] s z have "sound isu (sizes (add_count now g a (gtGroups st))) (edge_role es) \<and> 0 \<le> a"
    by (simp add: tables_sound_def)
  with z show ?thesis by (auto simp: tables_sound_def st')
qed

text \<open>Removing somebody who is not a superadmin.\<close>

lemma remove_sound:
  assumes S: "sound isu (sizes gs) (edge_role es)" and g: "sizes gs g = Some (n, m)" and k: "edge_role es g u = Some k"
    and admin: "\<exists>v. v \<noteq> u \<and> edge_role es g v = Some RoleSuperAdmin"
    and es': "edge_role es' = link (edge_role es) g u k'" "k' = None \<or> k' = Some RoleBanned"
    and gs': "sizes gs' = (if k \<le> RoleMember then (sizes gs)(g \<mapsto> (max (n - 1) 0, m)) else sizes gs)"
  shows "sound isu (sizes gs') (edge_role es')"
proof -
  have u: "isu u" by (rule role_user [OF S g k])
  have w: "weight k' = 0" "weight (edge_role es g u) = (if k \<le> RoleMember then 1 else 0)"
    using es'(2) by (auto simp: role_defs k)
  have n: "n = int (card (members (edge_role es) g))" "n \<le> m" using soundD(3,4) [OF S g] by simp_all
  have pos: "k \<le> RoleMember \<Longrightarrow> 1 \<le> n"
    using n(1) k members_finite [of es g] by (auto simp: members_def card_gt_0_iff Suc_le_eq int_one_le_iff_zero_less)
  show ?thesis
  proof (rule tables_link [OF S g u es'(1), where n' = "n - weight (edge_role es g u) + weight k'"])
    show "sizes gs' = (sizes gs)(g \<mapsto> (n - weight (edge_role es g u) + weight k', m))"
      using pos g by (auto simp: gs' w fun_upd_idem)
    show "n - weight (edge_role es g u) + weight k' \<le> m" using n(2) by (simp add: w)
    show "0 \<le> r \<and> r \<le> RoleBanned" if "k' = Some r" for r using that es'(2) by (auto simp: role_defs)
  qed (use admin in auto)
qed

lemma kick_sound:
  assumes s: "tables_sound isu st" and j: "KickMember now st kicker user g = (st', calls, res)"
    and u: "isu kicker" "kicker \<noteq> []"
  shows "tables_sound isu st'"
proof (cases res)
  case (Inl err)
  with j have "st' = st"
    by (auto simp: KickMember_def refuse_def split: if_splits option.splits)
  with s show ?thesis by simp
next
  case (Inr x)
  note S = s [unfolded tables_sound_def]
  obtain k role where k: "edge_role (gtEdges st) g user = Some k" "edge_role (gtEdges st) g kicker = Some role"
    "\<not> (k \<le> role \<and> k \<le> RoleMember)"
    and st': "st' = st\<lparr>gtEdges := delete_pair g user (gtEdges st),
      gtGroups := (if k \<le> RoleMember then touch_group now g (drop_count g (gtGroups st)) else gtGroups st)\<rparr>"
    using j Inr u(2) by (auto simp: KickMember_def refuse_def split: if_splits option.splits)
  obtain n m where g: "sizes (gtGroups st) g = Some (n, m)" "\<not> isu g" by (rule role_live [OF S k(2) u(1)])
  have gu: "g \<noteq> user" using g(2) role_user [OF S g(1) k(1)] by auto
  have "k \<noteq> RoleSuperAdmin" using k(3) soundD(5) [OF S k(2)] by (auto simp: role_defs)
  then have admin: "\<exists>v. v \<noteq> user \<and> edge_role (gtEdges st) g v = Some RoleSuperAdmin"
    using other_admin [OF S g(1), of user] k(1) by simp
  have "sound isu (sizes (gtGroups st')) (edge_role (gtEdges st'))"
    by (rule remove_sound [OF S g(1) k(1) admin, where k' = None])
      (use gu g(1) in \<open>simp_all add: st' delete_pair_link sizes_count\<close>)
  then show ?thesis by (simp add: tables_sound_def)
qed

lemma ban_users_sound:
  assumes "sound isu (sizes gs) (edge_role es)" and "isu caller" and "edge_role es g caller = Some role"
    and "\<forall>u\<in>set uids. u = [] \<or> isu u" and "caller \<noteq> []"
    and "ban_users now clock caller g n uids (gs, es) = Some (gs', es')"
  shows "sound isu (sizes gs') (edge_role es')"
  using assms
proof (induction uids arbitrary: n gs es)
  case (Cons uid uids)
  note S = Cons.prems(1)
  let ?skip = "uid = [] \<or> uid = caller \<or> (case edge_role es g uid of None \<Rightarrow> False | Some k \<Rightarrow> k \<le> role \<and> k \<le> RoleMember)"
  show ?case
  proof (cases ?skip)
    case True
    then have "ban_users now clock caller g (Suc n) uids (gs, es) = Some (gs', es')"
      using Cons.prems(3,5,6) by (auto simp: Let_def split: if_splits)
    with Cons.IH [OF S Cons.prems(2,3) _ Cons.prems(5)] Cons.prems(4) show ?thesis by simp
  next
    case False
    let ?member = "case edge_role es g uid of None \<Rightarrow> False | Some k \<Rightarrow> k \<le> RoleMember"
    let ?gs = "if ?member then touch_group now g (drop_count g gs) else gs"
    obtain es1 where p: "put_edge now g uid RoleBanned (clock n) (delete_pair g uid es) = Some es1"
      and rest: "ban_users now clock caller g (Suc n) uids (?gs, es1) = Some (gs', es')"
      using False Cons.prems(3,5,6) by (auto simp: Let_def split: if_splits option.splits)
    have u: "isu uid" "uid \<noteq> caller" using False Cons.prems(4) by auto
    obtain c m where g: "sizes gs g = Some (c, m)" "\<not> isu g" by (rule role_live [OF S Cons.prems(3,2)])
    have gu: "g \<noteq> uid" "g \<noteq> caller" using g(2) u(1) Cons.prems(2) by auto
    note l = ban_link [OF p gu(1)]
    have "edge_role es g uid \<noteq> Some RoleSuperAdmin"
      using False soundD(5) [OF S Cons.prems(3)] by (auto simp: role_defs)
    note admin = other_admin [OF S g(1) this]
    have "sound isu (sizes ?gs) (edge_role es1)"
    proof (cases "edge_role es g uid")
      case None
      have sz: "sizes ?gs = (sizes gs)(g \<mapsto> (c, m))" using None g(1) by (simp add: fun_upd_idem)
      show ?thesis
        by (rule tables_link [OF S g(1) u(1) l _ _ _ _ sz])
          (use None admin soundD(4) [OF S g(1)] in \<open>auto simp: role_defs\<close>)
    next
      case (Some k)
      show ?thesis
        by (rule remove_sound [OF S g(1) Some admin l]) (use Some g(1) in \<open>simp_all add: sizes_count\<close>)
    qed
    moreover have "edge_role es1 g caller = Some role" using l u(2) gu Cons.prems(3) by (simp add: link_def)
    ultimately show ?thesis using Cons.IH [OF _ Cons.prems(2) _ _ Cons.prems(5) rest] Cons.prems(4) by simp
  qed
qed simp

lemma ban_sound:
  assumes s: "tables_sound isu st" and j: "BanGroupUsers now clock st caller g uids = (st', calls, res)"
    and u: "isu caller" "caller \<noteq> []" "\<forall>u\<in>set uids. u = [] \<or> isu u"
  shows "tables_sound isu st'"
proof (cases res)
  case (Inl err)
  with j have "st' = st"
    by (auto simp: BanGroupUsers_def refuse_def split: if_splits option.splits)
  with s show ?thesis by simp
next
  case (Inr x)
  obtain gs es role where b: "ban_users now clock caller g 0 uids (gtGroups st, gtEdges st) = Some (gs, es)"
    and role: "edge_role (gtEdges st) g caller = Some role" and st': "st' = st\<lparr>gtGroups := gs, gtEdges := es\<rparr>"
    using j Inr u(2) by (auto simp: BanGroupUsers_def refuse_def acts_as_def split: if_splits option.splits)
  from ban_users_sound [OF s [unfolded tables_sound_def] u(1) role u(3,2) b] show ?thesis
    by (simp add: tables_sound_def st')
qed

lemma update_sound:
  assumes s: "tables_sound isu st"
    and j: "UpdateGroup env now st caller g name description avatarURL langTag open metadata = (st', calls, res)"
  shows "tables_sound isu st'"
proof -
  have "sizes (gtGroups st') = sizes (gtGroups st) \<and> gtEdges st' = gtEdges st"
    using j by (auto simp: UpdateGroup_def refuse_def Let_def stored_row_def sizes_upd sizes_Some fun_upd_idem
        dest!: live_SomeD split: if_splits option.splits)
      (auto simp: sizes_def live_def fun_eq_iff)
  with s show ?thesis by (simp add: tables_sound_def)
qed

lemma disband_sound:
  assumes s: "tables_sound isu st" and g: "\<not> isu g" and now: "now \<noteq> epochDisable"
  shows "tables_sound isu (st\<lparr>gtEdges := delete_edges g (gtEdges st), gtGroups := disable_group now g (gtGroups st)\<rparr>)"
  using sound_delete [OF s [unfolded tables_sound_def] g]
  by (simp add: tables_sound_def sizes_count(4) [OF now] delete_edges_unlink)

lemma delete_sound:
  assumes s: "tables_sound isu st" and j: "DeleteGroup now st caller g = (st', calls, res)"
    and u: "isu caller" "caller \<noteq> []" and now: "now \<noteq> epochDisable"
  shows "tables_sound isu st'"
proof (cases "edge_role (gtEdges st) g caller = Some RoleSuperAdmin")
  case True
  then have "\<not> isu g" using role_live [OF s [unfolded tables_sound_def] True u(1)] by blast
  with j True disband_sound [OF s _ now] show ?thesis by (auto simp: DeleteGroup_def)
next
  case False
  with j s u(2) show ?thesis by (simp add: DeleteGroup_def refuse_def)
qed

lemma edge_ends_set: "u \<in> set (edge_ends es g P) \<longleftrightarrow> (\<exists>k. edge_role es g u = Some k \<and> P k)"
  by (force simp: edge_ends_def edge_role_def fmlookup_dom_iff split: option.splits)

lemma edge_ends_distinct: "distinct (edge_ends es g P)"
  by (auto simp: edge_ends_def distinct_map inj_on_def sorted_list_of_fset.rep_eq intro!: distinct_filter)

lemma leave_sound:
  assumes s: "tables_sound isu st" and j: "LeaveGroup now st user g = (st', calls, res)"
    and u: "isu user" and now: "now \<noteq> epochDisable"
  shows "tables_sound isu st'"
proof -
  note S = s [unfolded tables_sound_def]
  let ?E = "edge_role (gtEdges st)"
  show ?thesis
  proof (cases "leave_decide st user g")
    case (LeaveRefused err)
    with j s show ?thesis by (simp add: LeaveGroup_def leave_commit_def refuse_def)
  next
    case LeaveBanned
    with j s show ?thesis by (simp add: LeaveGroup_def leave_commit_def)
  next
    case LeaveRequest
    then have k: "?E g user = Some RoleJoinRequest"
      by (auto simp: leave_decide_def split: option.splits if_splits)
    obtain n m where g: "sizes (gtGroups st) g = Some (n, m)" "\<not> isu g" by (rule role_live [OF S k u])
    have gu: "g \<noteq> user" using g(2) u by auto
    have admin: "\<exists>v. v \<noteq> user \<and> ?E g v = Some RoleSuperAdmin"
      using other_admin [OF S g(1), of user] k by (simp add: role_defs)
    have "sound isu (sizes (gtGroups st)) (edge_role (delete_pair g user (gtEdges st)))"
      by (rule remove_sound [OF S g(1) k admin, where k' = None])
        (use gu in \<open>simp_all add: delete_pair_link role_defs\<close>)
    with j LeaveRequest show ?thesis by (auto simp: LeaveGroup_def leave_commit_def tables_sound_def)
  next
    case LeaveDisband
    then obtain k where "?E g user = Some k" by (auto simp: leave_decide_def split: option.splits)
    then have "\<not> isu g" using role_live [OF S _ u] by blast
    with j LeaveDisband disband_sound [OF s _ now] show ?thesis by (auto simp: LeaveGroup_def leave_commit_def)
  next
    case LeaveMember
    then obtain k where k: "?E g user = Some k" "k \<noteq> RoleBanned" "k \<noteq> RoleJoinRequest"
      and more: "k = RoleSuperAdmin \<Longrightarrow> 1 < count_edges (gtEdges st) g (\<lambda>k. k = RoleSuperAdmin)"
      by (auto simp: leave_decide_def not_le split: option.splits if_splits)
    obtain n m where g: "sizes (gtGroups st) g = Some (n, m)" "\<not> isu g" by (rule role_live [OF S k(1) u])
    have gu: "g \<noteq> user" using g(2) u by auto
    have km: "k \<le> RoleMember" using soundD(5) [OF S k(1)] k(2,3) by (auto simp: role_defs)
    have admin: "\<exists>v. v \<noteq> user \<and> ?E g v = Some RoleSuperAdmin"
    proof (cases "k = RoleSuperAdmin")
      case True
      let ?A = "edge_ends (gtEdges st) g (\<lambda>k. k = RoleSuperAdmin)"
      have "card (set ?A) > 1" using more [OF True] edge_ends_distinct [of "gtEdges st" g]
        by (simp add: count_edges_def distinct_card)
      then have "\<not> set ?A \<subseteq> {user}" using card_mono [of "{user}" "set ?A"] by auto
      then show ?thesis by (auto simp: edge_ends_set)
    qed (use other_admin [OF S g(1), of user] k(1) in simp)
    have "sound isu (sizes (drop_count g (gtGroups st))) (edge_role (delete_pair g user (gtEdges st)))"
      by (rule remove_sound [OF S g(1) k(1) admin, where k' = None])
        (use gu km g(1) in \<open>simp_all add: delete_pair_link sizes_count\<close>)
    with j LeaveMember show ?thesis by (auto simp: LeaveGroup_def leave_commit_def tables_sound_def)
  qed
qed

lemma set_role_sound:
  assumes S: "sound isu (sizes gs) (edge_role es)" and g: "sizes gs g = Some (n, m)" and k: "edge_role es g u = Some k"
    and r: "0 \<le> r" "r \<le> RoleMember" "k \<le> RoleMember" and es': "set_pair g u r es = Some es'"
    and admin: "r = RoleSuperAdmin \<or> (\<exists>v. v \<noteq> u \<and> edge_role es g v = Some RoleSuperAdmin)"
  shows "sound isu (sizes gs) (edge_role es')"
proof -
  have u: "isu u" by (rule role_user [OF S g k])
  have gu: "g \<noteq> u" using u soundD(1) [OF S g] by auto
  have rev: "edge_role es u g = Some k" using role_back [OF S g k] r(3) by (simp add: role_defs)
  have l: "edge_role es' = link (edge_role es) g u (Some r)"
    by (rule set_pair_link [OF es' gu k rev]) (use r(2) in \<open>simp add: role_defs\<close>)
  have sz: "sizes gs = (sizes gs)(g \<mapsto> (n, m))" using g by (simp add: fun_upd_idem)
  show ?thesis
    by (rule tables_link [OF S g u l _ _ _ _ sz])
      (use r admin soundD(4) [OF S g] k in \<open>auto simp: role_defs\<close>)
qed

lemma PromoteE:
  assumes "PromoteMember st actor user g = (st', calls, res)" "actor \<noteq> []"
  obtains "st' = st"
  | k role es where "edge_role (gtEdges st) g user = Some k" "edge_role (gtEdges st) g actor = Some role"
      "RoleSuperAdmin < k" "k \<le> RoleMember" "role \<le> RoleAdmin" "role < k"
      "set_pair g user (k - 1) (gtEdges st) = Some es" "st' = st\<lparr>gtEdges := es\<rparr>"
proof (cases res)
  case (Inl err)
  with assms(1) have "st' = st" by (auto simp: PromoteMember_def refuse_def split: if_splits option.splits)
  then show thesis by (rule that(1))
next
  case (Inr x)
  with assms that(2) show thesis
    by (auto simp: PromoteMember_def refuse_def not_le split: if_split_asm option.split_asm)
qed

lemma DemoteE:
  assumes "DemoteMember st actor user g = (st', calls, res)" "actor \<noteq> []"
  obtains "st' = st"
  | k role es where "edge_role (gtEdges st) g user = Some k" "edge_role (gtEdges st) g actor = Some role"
      "RoleSuperAdmin \<le> k" "k < RoleMember" "role \<le> RoleAdmin" "role < k"
      "set_pair g user (k + 1) (gtEdges st) = Some es" "st' = st\<lparr>gtEdges := es\<rparr>"
proof (cases res)
  case (Inl err)
  with assms(1) have "st' = st" by (auto simp: DemoteMember_def refuse_def split: if_splits option.splits)
  then show thesis by (rule that(1))
next
  case (Inr x)
  with assms that(2) show thesis
    by (auto simp: DemoteMember_def refuse_def not_le not_less split: if_split_asm option.split_asm)
qed

lemma promote_sound:
  assumes s: "tables_sound isu st" and j: "PromoteMember st actor user g = (st', calls, res)"
    and u: "isu actor" "actor \<noteq> []"
  shows "tables_sound isu st'"
  using j u(2)
proof (cases rule: PromoteE)
  case 1
  with s show ?thesis by simp
next
  case (2 k role es)
  note S = s [unfolded tables_sound_def]
  obtain n m where g: "sizes (gtGroups st) g = Some (n, m)" "\<not> isu g" by (rule role_live [OF S 2(2) u(1)])
  from set_role_sound [OF S g(1) 2(1) _ _ 2(4,7)] other_admin [OF S g(1), of user] 2
  show ?thesis by (simp add: tables_sound_def role_defs)
qed

lemma demote_sound:
  assumes s: "tables_sound isu st" and j: "DemoteMember st actor user g = (st', calls, res)"
    and u: "isu actor" "actor \<noteq> []"
  shows "tables_sound isu st'"
  using j u(2)
proof (cases rule: DemoteE)
  case 1
  with s show ?thesis by simp
next
  case (2 k role es)
  note S = s [unfolded tables_sound_def]
  obtain n m where g: "sizes (gtGroups st) g = Some (n, m)" "\<not> isu g" by (rule role_live [OF S 2(2) u(1)])
  have "k \<noteq> RoleSuperAdmin" using 2(6) soundD(5) [OF S 2(2)] by (simp add: role_defs)
  with set_role_sound [OF S g(1) 2(1) _ _ _ 2(7)] other_admin [OF S g(1), of user] 2
  show ?thesis by (simp add: tables_sound_def role_defs)
qed

subsection \<open>Runs\<close>

text \<open>What clients do: users act in their own name, and name users by identifiers of users.\<close>

inductive group_step :: "group_env \<Rightarrow> (string \<Rightarrow> bool) \<Rightarrow> group_tables \<Rightarrow> group_tables \<Rightarrow> bool" for env isu where
  create: "CreateGroupWithParams env now pos g st u p = (st', res) \<Longrightarrow> isu u \<Longrightarrow> \<not> isu g \<Longrightarrow> group_step env isu st st'"
| join: "JoinGroup now pos st u g = (st', calls, r) \<Longrightarrow> isu u \<Longrightarrow> group_step env isu st st'"
| add: "AddGroupUsers now clock st u g uids = (st', calls, r) \<Longrightarrow> \<forall>v\<in>set uids. v = [] \<or> isu v \<Longrightarrow>
    group_step env isu st st'"
| kick: "KickMember now st u v g = (st', calls, r) \<Longrightarrow> isu u \<Longrightarrow> u \<noteq> [] \<Longrightarrow> group_step env isu st st'"
| ban: "BanGroupUsers now clock st u g uids = (st', calls, r) \<Longrightarrow> isu u \<Longrightarrow> u \<noteq> [] \<Longrightarrow>
    \<forall>v\<in>set uids. v = [] \<or> isu v \<Longrightarrow> group_step env isu st st'"
| update: "UpdateGroup env now st u g name desc avatar lang open md = (st', calls, r) \<Longrightarrow> group_step env isu st st'"
| delete: "DeleteGroup now st u g = (st', calls, r) \<Longrightarrow> isu u \<Longrightarrow> u \<noteq> [] \<Longrightarrow> now \<noteq> epochDisable \<Longrightarrow>
    group_step env isu st st'"
| leave: "LeaveGroup now st u g = (st', calls, r) \<Longrightarrow> isu u \<Longrightarrow> now \<noteq> epochDisable \<Longrightarrow> group_step env isu st st'"
| promote: "PromoteMember st u v g = (st', calls, r) \<Longrightarrow> isu u \<Longrightarrow> u \<noteq> [] \<Longrightarrow> group_step env isu st st'"
| demote: "DemoteMember st u v g = (st', calls, r) \<Longrightarrow> isu u \<Longrightarrow> u \<noteq> [] \<Longrightarrow> group_step env isu st st'"

lemma step_sound: "group_step env isu st st' \<Longrightarrow> tables_sound isu st \<Longrightarrow> tables_sound isu st'"
  by (induction rule: group_step.induct)
    (metis create_sound join_sound add_sound kick_sound ban_sound update_sound delete_sound leave_sound
      promote_sound demote_sound)+

definition no_groups :: "(string, string) fmap \<Rightarrow> group_tables" where
  "no_groups users = \<lparr>gtGroups = fmempty, gtEdges = fmempty, gtUsers = users\<rparr>"

lemma no_groups_sound: "tables_sound isu (no_groups users)"
  by (simp add: tables_sound_def no_groups_def sound_def sizes_def live_def edge_role_def)

lemma run_sound: "(group_step env isu)\<^sup>*\<^sup>* (no_groups users) st \<Longrightarrow> tables_sound isu st"
  by (induction rule: rtranclp_induct) (simp_all add: no_groups_sound step_sound)

text \<open>C12: In every run from empty tables of client operations that come one after the other, in which users act in
  their own name, the identifiers given to \<open>AddGroupUsers\<close> and \<open>BanGroupUsers\<close> are users, and user and group
  identifiers are apart: each live group has a superadmin, its edge count is the number of its members and
  within its maximum, and every member's own edge to the group shows the same role.  Both restrictions are
  needed: see \<open>group_added_as_user\<close> and \<open>concurrent_leaves_orphan\<close>.\<close>

theorem live_groups_consistent:
  assumes "(group_step env isu)\<^sup>*\<^sup>* (no_groups users) st" and "live (gtGroups st) g = Some r"
  shows "(\<exists>u. edge_role (gtEdges st) g u = Some RoleSuperAdmin) \<and>
    GEdgeCount r = int (card {u. IsGroupMember st u g}) \<and> GEdgeCount r \<le> GMaxCount r \<and>
    (\<forall>u. IsGroupMember st u g \<longrightarrow> edge_role (gtEdges st) u g = edge_role (gtEdges st) g u)"
proof -
  note S = run_sound [OF assms(1), unfolded tables_sound_def]
  have g: "sizes (gtGroups st) g = Some (GEdgeCount r, GMaxCount r)" using assms(2) by (simp add: sizes_def)
  have m: "{u. IsGroupMember st u g} = members (edge_role (gtEdges st)) g"
    by (auto simp: IsGroupMember_def members_def split: option.splits)
  have "edge_role (gtEdges st) u g = edge_role (gtEdges st) g u" if "IsGroupMember st u g" for u
    using that role_back [OF S g, of u] by (auto simp: IsGroupMember_def role_defs split: option.splits)
  with soundD(2-4) [OF S g] m show ?thesis by simp
qed

definition demo_genv :: group_env where
  "demo_genv = \<lparr>ge_json = (\<lambda>_. True), ge_jsonb = Some, ge_fits = (\<lambda>_. True), ge_ilike = (\<lambda>p s. p = s)\<rparr>"

definition demo_users :: "(string, string) fmap" where
  "demo_users = fmap_of_list [(''amy'', ''Amy''), (''bob'', ''Bob''), (''cat'', ''Cat'')]"

definition guild :: group_tables where
  "guild = fst (JoinGroup 7 3 (fst (JoinGroup 6 2
     (fst (CreateGroup demo_genv 5 1 ''guild'' (no_groups demo_users) ''amy'' ''Guild'' [] [] [])) ''bob'' ''guild''))
     ''cat'' ''guild'')"

definition demo_isu :: "string \<Rightarrow> bool" where
  "demo_isu u \<longleftrightarrow> u \<in> {''amy'', ''bob'', ''cat''}"

lemma guild_run: "(group_step demo_genv demo_isu)\<^sup>*\<^sup>* (no_groups demo_users) guild"
proof -
  let ?s1 = "fst (CreateGroup demo_genv 5 1 ''guild'' (no_groups demo_users) ''amy'' ''Guild'' [] [] [])"
  let ?s2 = "fst (JoinGroup 6 2 ?s1 ''bob'' ''guild'')"
  have u: "demo_isu ''amy''" "demo_isu ''bob''" "demo_isu ''cat''" "\<not> demo_isu ''guild''" by (simp_all add: demo_isu_def)
  have "group_step demo_genv demo_isu (no_groups demo_users) ?s1"
    unfolding CreateGroup_def by (rule group_step.create, rule prod.collapse [symmetric]) (use u in simp_all)
  moreover have "group_step demo_genv demo_isu ?s1 ?s2"
    by (rule group_step.join [of 6 2 ?s1 "''bob''" "''guild''" ?s2 "fst (snd (JoinGroup 6 2 ?s1 ''bob'' ''guild''))"
          "snd (snd (JoinGroup 6 2 ?s1 ''bob'' ''guild''))"]) (use u in simp_all)
  moreover have "group_step demo_genv demo_isu ?s2 guild"
    by (rule group_step.join [of 7 3 ?s2 "''cat''" "''guild''" guild "fst (snd (JoinGroup 7 3 ?s2 ''cat'' ''guild''))"
          "snd (snd (JoinGroup 7 3 ?s2 ''cat'' ''guild''))"]) (use u in \<open>simp_all add: guild_def\<close>)
  ultimately show ?thesis by (meson converse_rtranclp_into_rtranclp rtranclp.rtrancl_refl)
qed

lemma guild_row: "case live (gtGroups guild) ''guild'' of None \<Rightarrow> False | Some r \<Rightarrow> GEdgeCount r = 3 \<and> GMaxCount r = 100"
  by code_simp

theorem live_groups_consistent_witness:
  "\<exists>u. edge_role (gtEdges guild) ''guild'' u = Some RoleSuperAdmin \<and> card {u. IsGroupMember guild u ''guild''} = 3"
proof -
  obtain r where "live (gtGroups guild) ''guild'' = Some r" "GEdgeCount r = 3"
    using guild_row by (auto split: option.splits)
  with live_groups_consistent [OF guild_run this(1)] show ?thesis by auto
qed

subsection \<open>Ranks\<close>

text \<open>The operations by which a member acts on others.\<close>

inductive manages :: "string \<Rightarrow> string \<Rightarrow> group_tables \<Rightarrow> group_tables \<Rightarrow> bool" for caller g where
  "KickMember now st caller v g = (st', calls, r) \<Longrightarrow> manages caller g st st'"
| "BanGroupUsers now clock st caller g uids = (st', calls, r) \<Longrightarrow> manages caller g st st'"
| "PromoteMember st caller v g = (st', calls, r) \<Longrightarrow> manages caller g st st'"
| "DemoteMember st caller v g = (st', calls, r) \<Longrightarrow> manages caller g st st'"

lemma set_pair_other: "set_pair g u st es = Some es' \<Longrightarrow> v \<noteq> u \<Longrightarrow> v \<noteq> g \<Longrightarrow> edge_role es' g v = edge_role es g v"
proof -
  assume a: "set_pair g u st es = Some es'" "v \<noteq> u" "v \<noteq> g"
  then obtain es1 where "set_state g u st es = Some es1" "set_state u g st es1 = Some es'"
    by (auto simp: set_pair_def bind_eq_Some_conv)
  from this [THEN set_state_role] a(2,3) show "edge_role es' g v = edge_role es g v" by auto
qed

lemma ban_users_ranks:
  assumes "ban_users now clock caller g n uids (gs, es) = Some (gs', es')" and "caller \<noteq> []" "caller \<noteq> g" "v \<noteq> g"
    and "edge_role es g caller = Some role" and "edge_role es g v = Some k" "k \<le> RoleMember" "edge_role es' g v \<noteq> Some k"
  shows "role < k"
  using assms
proof (induction uids arbitrary: n gs es)
  case (Cons uid uids)
  let ?skip = "uid = [] \<or> uid = caller \<or> (case edge_role es g uid of None \<Rightarrow> False | Some k \<Rightarrow> k \<le> role \<and> k \<le> RoleMember)"
  show ?case
  proof (cases ?skip)
    case True
    then have "ban_users now clock caller g (Suc n) uids (gs, es) = Some (gs', es')"
      using Cons.prems(1,2,5) by (auto simp: Let_def split: if_splits)
    from Cons.IH [OF this Cons.prems(2-8)] show ?thesis .
  next
    case False
    then obtain gs1 es1 where p: "put_edge now g uid RoleBanned (clock n) (delete_pair g uid es) = Some es1"
      and rest: "ban_users now clock caller g (Suc n) uids (gs1, es1) = Some (gs', es')"
      using Cons.prems(1,2,5) by (auto simp: Let_def split: if_splits option.splits)
    have same: "edge_role es1 g w = edge_role es g w" if "w \<noteq> uid" "w \<noteq> g" for w
      using put_edge_role [OF p] that by (auto simp: edge_role_def delete_pair_def)
    show ?thesis
    proof (cases "v = uid")
      case True
      with False Cons.prems(6,7) show ?thesis by auto
    next
      case other: False
      have "edge_role es1 g caller = Some role" "edge_role es1 g v = Some k"
        using same [of caller] same [of v] False other Cons.prems by auto
      from Cons.IH [OF rest Cons.prems(2-4) this Cons.prems(7,8)] show ?thesis .
    qed
  qed
qed simp

text \<open>C13: Kicking, banning, promoting and demoting change the role of a member only when the caller is an admin or
  superadmin of that group and ranks strictly above the member.\<close>

theorem only_higher_ranks_act:
  assumes "manages caller g st st'" and "caller \<noteq> []" "caller \<noteq> g" "v \<noteq> g"
    and "edge_role (gtEdges st) g v = Some k" and "k \<le> RoleMember" and "edge_role (gtEdges st') g v \<noteq> Some k"
  shows "\<exists>r. edge_role (gtEdges st) g caller = Some r \<and> r \<le> RoleAdmin \<and> r < k"
  using assms(1)
proof cases
  case (1 now u calls res)
  then have "v = u"
    using assms by (auto simp: KickMember_def refuse_def edge_role_def delete_pair_def split: if_splits option.splits)
  with 1 assms(2,5-7) show ?thesis
    by (auto simp: KickMember_def refuse_def split: if_splits option.splits)
next
  case (2 now clock uids calls res)
  then obtain gs es where b: "ban_users now clock caller g 0 uids (gtGroups st, gtEdges st) = Some (gs, es)"
    "st' = st\<lparr>gtGroups := gs, gtEdges := es\<rparr>" "acts_as (gtEdges st) g caller RoleAdmin"
    using assms(5,7) by (auto simp: BanGroupUsers_def refuse_def split: if_splits option.splits)
  then obtain role where r: "edge_role (gtEdges st) g caller = Some role" "role \<le> RoleAdmin"
    using assms(2) by (auto simp: acts_as_def split: option.splits)
  from ban_users_ranks [OF b(1) assms(2-4) r(1) assms(5,6)] assms(7) b(2) r show ?thesis by simp
next
  case (3 u calls res)
  from 3(1) assms(2) show ?thesis
  proof (cases rule: PromoteE)
    case (2 k' role es)
    then have "v = u" using set_pair_other [OF 2(7), of v] assms(4,5,7) by auto
    with 2 assms(5) show ?thesis by auto
  qed (use assms(5,7) in simp)
next
  case (4 u calls res)
  from 4(1) assms(2) show ?thesis
  proof (cases rule: DemoteE)
    case (2 k' role es)
    then have "v = u" using set_pair_other [OF 2(7), of v] assms(4,5,7) by auto
    with 2 assms(5) show ?thesis by auto
  qed (use assms(5,7) in simp)
qed

lemma guild_kick:
  "(case KickMember 8 guild ''amy'' ''bob'' ''guild'' of (st', calls, r) \<Rightarrow>
      r = Inr () \<and> edge_role (gtEdges st') ''guild'' ''bob'' = None)"
  "edge_role (gtEdges guild) ''guild'' ''bob'' = Some RoleMember"
  by code_simp+

theorem only_higher_ranks_act_witness:
  "\<exists>st' r. manages ''amy'' ''guild'' guild st' \<and> edge_role (gtEdges st') ''guild'' ''bob'' = None \<and>
     edge_role (gtEdges guild) ''guild'' ''amy'' = Some r \<and> r < RoleMember"
proof -
  obtain st' calls r where k: "KickMember 8 guild ''amy'' ''bob'' ''guild'' = (st', calls, r)"
    "edge_role (gtEdges st') ''guild'' ''bob'' = None"
    using guild_kick(1) by auto
  have m: "manages ''amy'' ''guild'' guild st'" by (rule manages.intros(1) [OF k(1)])
  from only_higher_ranks_act [OF m _ _ _ guild_kick(2)] k(2) m show ?thesis by auto
qed

text \<open>Two superadmins who leave at the same time both see the other one: the group is left without any.\<close>

definition two_chiefs :: group_tables where
  "two_chiefs = fst (PromoteMember (fst (PromoteMember guild ''amy'' ''bob'' ''guild'')) ''amy'' ''bob'' ''guild'')"

lemma concurrent_leaves_orphan:
  "let d1 = leave_decide two_chiefs ''amy'' ''guild''; d2 = leave_decide two_chiefs ''bob'' ''guild'';
       st1 = fst (leave_commit 9 d1 two_chiefs ''amy'' ''guild'');
       st2 = fst (leave_commit 9 d2 st1 ''bob'' ''guild'') in
     live (gtGroups st2) ''guild'' \<noteq> None \<and> edge_ends (gtEdges st2) ''guild'' (\<lambda>k. k = RoleSuperAdmin) = [] \<and>
     edge_role (gtEdges st2) ''guild'' ''cat'' = Some RoleMember"
  by code_simp

text \<open>The primary key of the edges is source, state and position: two users added by one call in the same
  millisecond make it fail.\<close>

lemma add_in_one_millisecond_fails:
  "let st = fst (CreateGroup demo_genv 5 1 ''guild'' (no_groups demo_users) ''amy'' ''Guild'' [] [] []) in
     snd (snd (AddGroupUsers 6 (\<lambda>_. 2) st ''amy'' ''guild'' [''bob'', ''cat''])) = Inl GroupDatabase \<and>
     snd (snd (AddGroupUsers 6 (\<lambda>n. 2 + int n) st ''amy'' ''guild'' [''bob'', ''cat''])) = Inr ()"
  by code_simp

text \<open>Nothing checks that the users exist: an admin can add a group in place of a user, and the other group
  then counts a member that its own operations did not admit.\<close>

lemma group_added_as_user:
  "let st = fst (CreateGroup demo_genv 6 9 ''clan'' guild ''bob'' ''Clan'' [] [] []);
       st' = fst (AddGroupUsers 7 (\<lambda>_. 8) st ''amy'' ''guild'' [''clan'']) in
     IsGroupMember st' ''guild'' ''clan'' \<and> snd (snd (LeaveGroup 9 st' ''bob'' ''clan'')) = Inl ErrLastSuperadmin"
  by code_simp

subsection \<open>The list of members\<close>

text \<open>Printing and parsing a position.\<close>

lemma digits_val_append:
  "digits_val a (xs @ ys) = (case digits_val a xs of None \<Rightarrow> None | Some b \<Rightarrow> digits_val b ys)"
  by (induction xs arbitrary: a) (auto split: option.split)

lemma digit_char: "d < 10 \<Longrightarrow> digit_val (char_of (48 + d)) = Some (int d)"
proof -
  assume "d < 10"
  then have "d \<in> {0, 1, 2, 3, 4, 5, 6, 7, 8, 9}" by auto
  then show ?thesis by (elim insertE) (simp_all add: digit_val_def less_eq_char_def)
qed

lemma digits_decimal: "digits_val 0 (decimal_nat n) = Some (int n)"
proof (induction n rule: decimal_nat.induct)
  case (1 n)
  show ?case
  proof (cases "n < 10")
    case True
    then show ?thesis by (subst decimal_nat.simps) (simp add: digit_char)
  next
    case False
    have "digits_val 0 (decimal_nat n) = digits_val (int (n div 10)) [char_of (48 + n mod 10)]"
      using False 1 by (subst decimal_nat.simps) (simp add: digits_val_append)
    also have "\<dots> = Some (10 * int (n div 10) + int (n mod 10))" using digit_char [of "n mod 10"] by simp
    also have "10 * int (n div 10) + int (n mod 10) = int n" by (simp add: zdiv_int zmod_int)
    finally show ?thesis .
  qed
qed

lemma decimal_nat_head: "\<exists>d cs. d < 10 \<and> decimal_nat n = char_of (48 + d :: nat) # cs"
proof (induction n rule: decimal_nat.induct)
  case (1 n)
  then show ?case by (cases "n < 10") (subst decimal_nat.simps, force)+
qed

lemma ParseInt_decimal:
  assumes "- (2 ^ 63) \<le> p" "p < 2 ^ 63"
  shows "ParseInt (decimal p) = Some p"
proof (cases "p < 0")
  case True
  moreover have "decimal_nat (nat (- p)) \<noteq> []" using decimal_nat_head by (metis list.distinct(1))
  ultimately show ?thesis using assms digits_decimal [of "nat (- p)"] by (simp add: ParseInt_def decimal_def)
next
  case False
  obtain d cs where d: "d < 10" "decimal_nat (nat p) = char_of (48 + d :: nat) # cs" using decimal_nat_head by blast
  have "char_of (48 + d) \<noteq> CHR ''-''" "char_of (48 + d) \<noteq> CHR ''+''"
    using d(1) by (auto dest!: arg_cong [where f = "of_char :: char \<Rightarrow> nat"])
  with False d assms digits_decimal [of "nat p"] show ?thesis by (simp add: ParseInt_def decimal_def)
qed

lemma takeWhile_position:
  assumes "sorted_wrt (>) (ps :: int list)" "i < length ps"
  shows "length (takeWhile (\<lambda>q. \<not> q < ps ! i) ps) = Suc i"
proof -
  have "takeWhile (\<lambda>q. \<not> q < ps ! i) (take (Suc i) ps @ drop (Suc i) ps) =
      take (Suc i) ps @ takeWhile (\<lambda>q. \<not> q < ps ! i) (drop (Suc i) ps)"
  proof (rule takeWhile_append2)
    fix q
    assume "q \<in> set (take (Suc i) ps)"
    then obtain j where "j < Suc i" "q = ps ! j" using assms(2) by (auto simp: in_set_conv_nth)
    with assms show "\<not> q < ps ! i" by (cases "j = i") (auto simp: sorted_wrt_iff_nth_less less_Suc_eq dest: order.asym)
  qed
  moreover have "takeWhile (\<lambda>q. \<not> q < ps ! i) (drop (Suc i) ps) = []"
  proof (cases "drop (Suc i) ps")
    case (Cons q qs)
    then have "Suc i < length ps" "q = ps ! Suc i"
      by (metis drop_eq_Nil not_le list.distinct(1)) (metis Cons hd_drop_conv_nth list.sel(1) drop_eq_Nil list.distinct(1) not_le)
    with assms Cons show ?thesis by (simp add: sorted_wrt_iff_nth_less)
  qed simp
  ultimately show ?thesis using assms(2) by simp
qed

lemma cut_page_simps:
  "start < length xs \<Longrightarrow> fst (cut_page start n c xs) = take n (drop start xs)"
  "start + n < length xs \<Longrightarrow> cut_page start n c xs = (take n (drop start xs), c (start + n))"
  by (simp_all add: cut_page_def Let_def)

text \<open>The page reached by following \<open>k\<close> cursors.\<close>

fun members_page :: "group_tables \<Rightarrow> string \<Rightarrow> int \<Rightarrow> nat \<Rightarrow> group_member list \<times> string" where
  "members_page st g limit 0 = ListGroupMembers st g limit []"
| "members_page st g limit (Suc k) = ListGroupMembers st g limit (snd (members_page st g limit k))"

lemma members_from:
  assumes "position_start cursor (map snd (member_rows st g)) = start" and "start < length (member_rows st g)"
  shows "fst (ListGroupMembers st g limit cursor) = take (list_size limit) (drop start (map fst (member_rows st g)))"
    and "start + list_size limit < length (member_rows st g) \<Longrightarrow>
      snd (ListGroupMembers st g limit cursor) = decimal (map snd (member_rows st g) ! (start + list_size limit))"
  using assms cut_page_simps(1) [of start "map fst (member_rows st g)"]
    cut_page_simps(2) [of start "list_size limit" "map fst (member_rows st g)"]
  by (simp_all add: ListGroupMembers_def Let_def)

lemma cursor_start:
  assumes "sorted_wrt (>) ps" and "\<forall>p\<in>set ps. \<bar>p\<bar> < 2 ^ 63" and "i < length ps"
  shows "position_start (decimal (ps ! i)) ps = (if Suc i < length ps then Suc i else 0)"
proof -
  have "ps ! i \<in> set ps" using assms(3) by simp
  then have "\<bar>ps ! i\<bar> < 2 ^ 63" using assms(2) by blast
  then have p: "ParseInt (decimal (ps ! i)) = Some (ps ! i)" by (intro ParseInt_decimal) linarith+
  have "decimal (ps ! i) \<noteq> []" using decimal_nat_head by (auto simp: decimal_def) (metis list.distinct(1))
  then show ?thesis using takeWhile_position [OF assms(1,3)] by (simp add: position_start_def p)
qed

lemma members_page_start:
  assumes "sorted_wrt (>) (map snd (member_rows st g))" and "\<forall>p\<in>set (map snd (member_rows st g)). \<bar>p\<bar> < 2 ^ 63"
    and "k * Suc (list_size limit) < length (member_rows st g)"
  shows "\<exists>cursor. members_page st g limit k = ListGroupMembers st g limit cursor \<and>
    position_start cursor (map snd (member_rows st g)) = k * Suc (list_size limit)"
  using assms(3)
proof (induction k)
  case 0
  show ?case by (rule exI [of _ "[]"]) (simp add: position_start_def)
next
  case (Suc k)
  let ?n = "list_size limit" and ?ps = "map snd (member_rows st g)"
  have less: "k * Suc ?n < length (member_rows st g)" "Suc (k * Suc ?n + ?n) < length (member_rows st g)"
    using Suc.prems by auto
  obtain cursor where c: "members_page st g limit k = ListGroupMembers st g limit cursor"
    "position_start cursor ?ps = k * Suc ?n" using Suc.IH less(1) by blast
  have "snd (members_page st g limit k) = decimal (?ps ! (k * Suc ?n + ?n))"
    using members_from(2) [OF c(2) less(1), of limit] less(2) c(1) by simp
  moreover have "position_start (decimal (?ps ! (k * Suc ?n + ?n))) ?ps = Suc (k * Suc ?n + ?n)"
    using cursor_start [OF assms(1,2), of "k * Suc ?n + ?n"] less(2) by simp
  ultimately show ?case by (intro exI [of _ "decimal (?ps ! (k * Suc ?n + ?n))"]) simp
qed

text \<open>C27: The cursor of a page of members is the position of the first member not shown, but the next page starts
  behind that position.  So, when the positions of the members differ (and fit 64 bits), the page reached by following \<open>k\<close>
  cursors starts \<open>k\<close> members too late: each page boundary leaves out one member; and when a page leaves just one
  member, its cursor leads to the first page again.\<close>

theorem member_pages_skip:
  assumes "sorted_wrt (>) (map snd (member_rows st g))" and "\<forall>p\<in>set (map snd (member_rows st g)). \<bar>p\<bar> < 2 ^ 63"
    and "n = list_size limit" and "k * Suc n < length (member_rows st g)"
  shows "fst (members_page st g limit k) = take n (drop (k * Suc n) (map fst (member_rows st g))) \<and>
    (length (member_rows st g) = Suc k * Suc n \<longrightarrow> members_page st g limit (Suc k) = members_page st g limit 0)"
proof -
  let ?ps = "map snd (member_rows st g)"
  obtain cursor where c: "members_page st g limit k = ListGroupMembers st g limit cursor"
    "position_start cursor ?ps = k * Suc n"
    using members_page_start [OF assms(1,2)] assms(3,4) by blast
  have "members_page st g limit (Suc k) = members_page st g limit 0" if len: "length (member_rows st g) = Suc k * Suc n"
  proof -
    have l: "k * Suc n + n < length (member_rows st g)" "\<not> Suc (k * Suc n + n) < length (member_rows st g)"
      using len by auto
    have "snd (members_page st g limit k) = decimal (?ps ! (k * Suc n + n))"
      using members_from(2) [OF c(2) assms(4), of limit] l(1) c(1) assms(3) by simp
    moreover have "position_start (decimal (?ps ! (k * Suc n + n))) ?ps = position_start [] ?ps"
      using cursor_start [OF assms(1,2), of "k * Suc n + n"] l by (simp add: position_start_def)
    ultimately show ?thesis by (simp add: ListGroupMembers_def)
  qed
  then show ?thesis using members_from(1) [OF c(2) assms(4), of limit] c(1) assms(3) by simp
qed

lemma guild_members:
  "map (\<lambda>(m, p). (GmUserID m, p)) (member_rows guild ''guild'') = [(''cat'', 3), (''bob'', 2), (''amy'', 1)]"
  by code_simp

theorem member_pages_skip_witness:
  "map GmUserID (fst (members_page guild ''guild'' 1 0)) = [''cat''] \<and>
   map GmUserID (fst (members_page guild ''guild'' 1 1)) = [''amy'']"
proof -
  let ?rows = "member_rows guild ''guild''"
  obtain a b c where rows: "?rows = [(a, 3), (b, 2), (c, 1)]" "GmUserID a = ''cat''" "GmUserID c = ''amy''"
    using guild_members by auto
  from member_pages_skip [OF _ _ refl, of guild "''guild''" 0 1] member_pages_skip [OF _ _ refl, of guild "''guild''" 1 1]
  show ?thesis using rows by (simp add: list_size_def)
qed

end
