(* ===== verification/Friends.thy ===== *)
theory Friends
  imports Storage Base64 Social_Groups
begin

section \<open>Friends\<close>

text \<open>
  \<open>internal/social/friends.go\<close> and the transactions of \<open>import.go\<close>: the table \<open>user_edge\<close> with the
  constraints of migration 0003 and the edge counts of the users.  The operations compare identifiers as
  texts and hand them to the database, which reads them as UUIDs: \<open>fe_uuid\<close> is that reading, \<open>None\<close> a text
  that is none.  \<open>fe_json\<close> and \<open>fe_concat\<close> are the JSON input and the operator \<open>||\<close> of the database.
  \<open>pos\<close> is the clock in nanoseconds that becomes the position of an edge, \<open>now\<close> the clock of the database.
  Notifications are a list of calls.  Of a user only the name, the edge count and the linked identifiers
  are modelled; an identifier that is not linked is the empty text.
\<close>

datatype friend_error = ErrCannotAddSelf | ErrCannotBlockSelf | ErrFriendLimitReached
  | ErrPendingLimitReached | ErrFriendCursor | FriendEdges | FriendDatabase | ErrFriendFetch | ErrSteamConfig
  | ErrSteamProfile

definition StateFriend :: int where "StateFriend = 0"
definition StateInviteSent :: int where "StateInviteSent = 1"
definition StateInviteReceived :: int where "StateInviteReceived = 2"
definition StateBlocked :: int where "StateBlocked = 3"

definition NotificationCodeFriendRequest :: int where "NotificationCodeFriendRequest = - 2"
definition NotificationCodeFriendAccept :: int where "NotificationCodeFriendAccept = - 3"
definition NotificationCodeFriendImport :: int where "NotificationCodeFriendImport = - 1001"
definition NotificationCodeFriendRemove :: int where "NotificationCodeFriendRemove = - 9"

definition DefaultMaxFriends :: int where "DefaultMaxFriends = 1000"
definition DefaultMaxPending :: int where "DefaultMaxPending = 100"
definition DefaultListLimit :: int where "DefaultListLimit = 100"
definition MaxListLimit :: int where "MaxListLimit = 1000"

record friend_user =
  FuUsername :: string
  FuEdgeCount :: int
  FuFacebookID :: string
  FuSteamID :: string

record user_edge =
  UeState :: int
  UePosition :: int
  UeUpdateTime :: gotime
  UeMetadata :: string

type_synonym user_edges = "(string \<times> string, user_edge) fmap"
type_synonym friend_users = "(string, friend_user) fmap"

record friend_tables =
  ftEdges :: user_edges
  ftUsers :: friend_users

record friend_env =
  fe_uuid :: "string \<Rightarrow> string option"
  fe_json :: "string \<Rightarrow> string option"
  fe_concat :: "string \<Rightarrow> string \<Rightarrow> string"

record friend_config =
  MaxFriends :: int
  MaxPending :: int

definition DefaultConfig :: friend_config where
  "DefaultConfig = \<lparr>MaxFriends = DefaultMaxFriends, MaxPending = DefaultMaxPending\<rparr>"

text \<open>A notification: receiver, code, sender.\<close>

type_synonym friend_call = "string \<times> int \<times> string"

subsection \<open>Statements\<close>

definition ue_state :: "user_edges \<Rightarrow> string \<Rightarrow> string \<Rightarrow> int option" where
  "ue_state es s d = map_option UeState (fmlookup es (s, d))"

definition ue_rows :: "user_edges \<Rightarrow> string \<Rightarrow> (string \<times> user_edge) list" where
  "ue_rows es s =
     List.map_filter (\<lambda>k. map_option (Pair (snd k)) (fmlookup es k))
       (filter (\<lambda>k. fst k = s) (sorted_list_of_fset (fmdom es)))"

definition countEdges :: "user_edges \<Rightarrow> string \<Rightarrow> int \<Rightarrow> int" where
  "countEdges es s st = int (length (filter (\<lambda>(_, e). UeState e = st) (ue_rows es s)))"

text \<open>Another edge of the source has this state and position: the primary key.\<close>

definition ue_taken :: "user_edges \<Rightarrow> string \<Rightarrow> string \<Rightarrow> int \<Rightarrow> int \<Rightarrow> bool" where
  "ue_taken es s d st pos = (\<exists>r\<in>set (ue_rows es s). fst r \<noteq> d \<and> UeState (snd r) = st \<and> UePosition (snd r) = pos)"

text \<open>The state of one edge set to another value, with the rest of the change to the row.\<close>

definition restate ::
  "int \<Rightarrow> (user_edge \<Rightarrow> user_edge) \<Rightarrow> string \<times> string \<Rightarrow> user_edges \<Rightarrow> user_edges option" where
  "restate st f k es =
     (case fmlookup es k of
        None \<Rightarrow> Some es
      | Some e \<Rightarrow>
          if ue_taken es (fst k) (snd k) st (UePosition e) then None
          else Some (fmupd k ((f e)\<lparr>UeState := st\<rparr>) es))"

text \<open>One row of an insert that skips an existing pair; the ends are users and not the nil UUID.\<close>

definition insert_ue ::
  "friend_users \<Rightarrow> string \<Rightarrow> string \<Rightarrow> user_edge \<Rightarrow> user_edges \<Rightarrow> user_edges option" where
  "insert_ue us s d e es =
     (if fmlookup es (s, d) \<noteq> None then Some es
      else if s = nil_uuid \<or> d = nil_uuid \<or> fmlookup us s = None \<or> fmlookup us d = None \<or>
        ue_taken es s d (UeState e) (UePosition e) then None
      else Some (fmupd (s, d) e es))"

text \<open>The edge count of a user raised, and lowered when it is positive.\<close>

definition raise_count :: "string \<Rightarrow> friend_users \<Rightarrow> friend_users" where
  "raise_count i us =
     (case fmlookup us i of None \<Rightarrow> us | Some u \<Rightarrow> fmupd i (u\<lparr>FuEdgeCount := FuEdgeCount u + 1\<rparr>) us)"

definition lower_count :: "int \<Rightarrow> string \<Rightarrow> friend_users \<Rightarrow> friend_users" where
  "lower_count n i us =
     (case fmlookup us i of None \<Rightarrow> us | Some u \<Rightarrow> fmupd i (u\<lparr>FuEdgeCount := max (FuEdgeCount u - n) 0\<rparr>) us)"

definition drop_one :: "string \<Rightarrow> friend_users \<Rightarrow> friend_users" where
  "drop_one i us =
     (case fmlookup us i of
        None \<Rightarrow> us
      | Some u \<Rightarrow> if FuEdgeCount u > 0 then fmupd i (u\<lparr>FuEdgeCount := FuEdgeCount u - 1\<rparr>) us else us)"

subsection \<open>Adding\<close>

datatype add_outcome = Accepted | Requested | NoRows

text \<open>The change of an accepted row: the metadata joins the row of the user who accepts.\<close>

definition accepted_row :: "friend_env \<Rightarrow> gotime \<Rightarrow> string \<Rightarrow> string \<times> string \<Rightarrow> string \<times> string \<Rightarrow> user_edge \<Rightarrow> user_edge" where
  "accepted_row env now md own k e =
     e\<lparr>UeUpdateTime := now, UeMetadata := (if k = own then fe_concat env (UeMetadata e) md else UeMetadata e)\<rparr>"

text \<open>The first statement: the invitation of the other side becomes a friendship.\<close>

definition accept_edges ::
  "friend_env \<Rightarrow> gotime \<Rightarrow> string \<Rightarrow> string \<Rightarrow> string \<Rightarrow> user_edges \<Rightarrow> (user_edges \<times> nat) option" where
  "accept_edges env now user friend md es =
     (let keys = remdups (filter (\<lambda>k. k = (friend, user) \<and> ue_state es friend user = Some StateInviteSent \<or>
            k = (user, friend) \<and> ue_state es user friend = Some StateInviteReceived)
            [(friend, user), (user, friend)]) in
      map_option (\<lambda>es'. (es', length keys))
        (fold (\<lambda>k acc. Option.bind acc (restate StateFriend (accepted_row env now md (user, friend) k) k)) keys (Some es)))"

definition addFriendTx ::
  "friend_env \<Rightarrow> gotime \<Rightarrow> int \<Rightarrow> friend_tables \<Rightarrow> string \<Rightarrow> string \<Rightarrow> string \<Rightarrow> friend_config
   \<Rightarrow> friend_tables \<times> (friend_error + add_outcome)" where
  "addFriendTx env now pos st user friend metadata cfg =
     (case fe_json env metadata of
        None \<Rightarrow> (st, Inl FriendDatabase)
      | Some md \<Rightarrow>
          (case accept_edges env now user friend md (ftEdges st) of
             None \<Rightarrow> (st, Inl FriendDatabase)
           | Some (es, n) \<Rightarrow>
               let st1 = st\<lparr>ftEdges := es\<rparr> in
               if n = 2 then (st1, Inr Accepted)
               else if countEdges es user StateFriend \<ge> MaxFriends cfg then (st1, Inl ErrFriendLimitReached)
               else if countEdges es user StateInviteSent \<ge> MaxPending cfg then (st1, Inl ErrPendingLimitReached)
               else
                 (case (if fmlookup (ftUsers st) friend = None \<or> ue_state es friend user = Some StateBlocked then Some es
                        else Option.bind
                          (insert_ue (ftUsers st) user friend
                            \<lparr>UeState = StateInviteSent, UePosition = pos, UeUpdateTime = now, UeMetadata = md\<rparr> es)
                          (insert_ue (ftUsers st) friend user
                            \<lparr>UeState = StateInviteReceived, UePosition = pos, UeUpdateTime = now,
                             UeMetadata = ''{}''\<rparr>)) of
                    None \<Rightarrow> (st1, Inl FriendDatabase)
                  | Some es' \<Rightarrow>
                      let found = map_option UePosition (fmlookup es' (user, friend)) = Some pos \<or>
                            map_option UePosition (fmlookup es' (friend, user)) = Some pos;
                          rows = (if found then filter (\<lambda>i. fmlookup (ftUsers st) i \<noteq> None) (remdups [user, friend])
                            else []) in
                      (st1\<lparr>ftEdges := es', ftUsers := fold raise_count rows (ftUsers st)\<rparr>,
                       Inr (if length rows \<noteq> 2 then NoRows else Requested)))))"

definition friend_limits :: "friend_config \<Rightarrow> friend_config" where
  "friend_limits cfg =
     \<lparr>MaxFriends = (if MaxFriends cfg \<le> 0 then DefaultMaxFriends else MaxFriends cfg),
      MaxPending = (if MaxPending cfg \<le> 0 then DefaultMaxPending else MaxPending cfg)\<rparr>"

type_synonym friend_result = "friend_tables \<times> friend_call list \<times> (friend_error + unit)"

definition AddFriendWithOpts ::
  "friend_env \<Rightarrow> gotime \<Rightarrow> int \<Rightarrow> friend_tables \<Rightarrow> string \<Rightarrow> string \<Rightarrow> string \<Rightarrow> friend_config \<Rightarrow> friend_result" where
  "AddFriendWithOpts env now pos st source destination metadata cfg =
     (if source = destination then (st, [], Inl ErrCannotAddSelf)
      else case (fe_uuid env source, fe_uuid env destination) of
        (Some s, Some d) \<Rightarrow>
          if ue_state (ftEdges st) s d = Some StateBlocked then (st, [], Inr ())
          else (case addFriendTx env now pos st s d (if metadata = [] then ''{}'' else metadata) (friend_limits cfg) of
              (_, Inl err) \<Rightarrow> (st, [], Inl err)
            | (st', Inr NoRows) \<Rightarrow> (st', [], Inr ())
            | (st', Inr Accepted) \<Rightarrow> (st', [(destination, NotificationCodeFriendAccept, source)], Inr ())
            | (st', Inr Requested) \<Rightarrow> (st', [(destination, NotificationCodeFriendRequest, source)], Inr ()))
      | _ \<Rightarrow> (st, [], Inl FriendDatabase))"

definition AddFriend :: "friend_env \<Rightarrow> gotime \<Rightarrow> int \<Rightarrow> friend_tables \<Rightarrow> string \<Rightarrow> string \<Rightarrow> friend_result" where
  "AddFriend env now pos st source destination =
     AddFriendWithOpts env now pos st source destination ''{}'' DefaultConfig"


definition UserExistsAndDoesNotBlock ::
  "friend_env \<Rightarrow> friend_tables \<Rightarrow> string \<Rightarrow> string \<Rightarrow> friend_error + bool" where
  "UserExistsAndDoesNotBlock env st checkUserID blocksUserID =
     (case (fe_uuid env checkUserID, fe_uuid env blocksUserID) of
        (Some c, Some b) \<Rightarrow>
          Inr (fmlookup (ftUsers st) c \<noteq> None \<and> ue_state (ftEdges st) c b \<noteq> Some StateBlocked)
      | _ \<Rightarrow> Inl FriendDatabase)"

subsection \<open>Blocking and deleting\<close>

text \<open>The edge is set to blocked or inserted as blocked; \<open>None\<close> a failed statement.\<close>

definition block_edge ::
  "gotime \<Rightarrow> int \<Rightarrow> string \<Rightarrow> string \<Rightarrow> friend_tables \<Rightarrow> friend_tables option" where
  "block_edge now pos s d st =
     (if ue_state (ftEdges st) s d \<noteq> None
      then map_option (\<lambda>es. st\<lparr>ftEdges := es\<rparr>)
        (restate StateBlocked (\<lambda>e. e\<lparr>UeUpdateTime := now\<rparr>) (s, d) (ftEdges st))
      else map_option (\<lambda>es. st\<lparr>ftEdges := es, ftUsers := raise_count s (ftUsers st)\<rparr>)
        (insert_ue (ftUsers st) s d
          \<lparr>UeState = StateBlocked, UePosition = pos, UeUpdateTime = now, UeMetadata = ''{}''\<rparr> (ftEdges st)))"

text \<open>The edge removed unless it is a block.\<close>

definition open_edge :: "user_edges \<Rightarrow> string \<Rightarrow> string \<Rightarrow> bool" where
  "open_edge es s d = (case ue_state es s d of None \<Rightarrow> False | Some st \<Rightarrow> st \<noteq> StateBlocked)"

definition BlockUser ::
  "friend_env \<Rightarrow> gotime \<Rightarrow> int \<Rightarrow> friend_tables \<Rightarrow> string \<Rightarrow> string \<Rightarrow> friend_tables \<times> (friend_error + unit)" where
  "BlockUser env now pos st source destination =
     (if source = destination then (st, Inl ErrCannotBlockSelf)
      else case (fe_uuid env source, fe_uuid env destination) of
        (Some s, Some d) \<Rightarrow>
          if ue_state (ftEdges st) s d = None \<and> fmlookup (ftUsers st) d = None then (st, Inr ())
          else (case block_edge now pos s d st of
              None \<Rightarrow> (st, Inl FriendDatabase)
            | Some st1 \<Rightarrow>
                if open_edge (ftEdges st1) d s
                then (st1\<lparr>ftEdges := fmdrop (d, s) (ftEdges st1), ftUsers := drop_one d (ftUsers st1)\<rparr>, Inr ())
                else (st1, Inr ()))
      | _ \<Rightarrow> (st, Inl FriendDatabase))"

text \<open>Two rows at most can be deleted: the pairs are unique.\<close>

definition deleteFriendTx :: "friend_tables \<Rightarrow> string \<Rightarrow> string \<Rightarrow> friend_tables \<times> bool" where
  "deleteFriendTx st user friend =
     (let es = ftEdges st;
          keys = remdups (filter (\<lambda>k. k = (user, friend) \<and> ue_state es user friend \<noteq> None \<or>
            k = (friend, user) \<and> open_edge es friend user) [(user, friend), (friend, user)]);
          es' = fold fmdrop keys es in
      if length keys = 0 then (st, False)
      else if length keys = 1 then (st\<lparr>ftEdges := es', ftUsers := drop_one user (ftUsers st)\<rparr>, False)
      else (st\<lparr>ftEdges := es', ftUsers := drop_one friend (drop_one user (ftUsers st))\<rparr>, True))"

definition DeleteFriend ::
  "friend_env \<Rightarrow> friend_tables \<Rightarrow> string \<Rightarrow> string \<Rightarrow> friend_result" where
  "DeleteFriend env st source destination =
     (case (fe_uuid env source, fe_uuid env destination) of
        (Some s, Some d) \<Rightarrow>
          (case deleteFriendTx st s d of
             (st', notify) \<Rightarrow>
               (st', if notify then [(destination, NotificationCodeFriendRemove, source)] else [], Inr ()))
      | _ \<Rightarrow> (st, [], Inl FriendDatabase))"

definition UnblockUser ::
  "friend_env \<Rightarrow> friend_tables \<Rightarrow> string \<Rightarrow> string \<Rightarrow> friend_result" where
  "UnblockUser env st source destination = DeleteFriend env st source destination"

subsection \<open>Lists\<close>

record edge_cursor =
  ECState :: int
  ECPosition :: int

record fof_cursor =
  FCSourceID :: string
  FCDestinationID :: string

definition decodeEdgeCursor ::
  "(nat list \<Rightarrow> edge_cursor option) \<Rightarrow> string \<Rightarrow> friend_error + edge_cursor option" where
  "decodeEdgeCursor gdec cursor =
     (if cursor = [] then Inr None
      else case url_decode cursor of
        None \<Rightarrow> Inl ErrFriendCursor
      | Some b \<Rightarrow> (case gdec b of None \<Rightarrow> Inl ErrFriendCursor | Some c \<Rightarrow> Inr (Some c)))"

definition decodeFoFCursor ::
  "(nat list \<Rightarrow> fof_cursor option) \<Rightarrow> string \<Rightarrow> friend_error + fof_cursor option" where
  "decodeFoFCursor gdec cursor =
     (if cursor = [] then Inr None
      else case url_decode cursor of
        None \<Rightarrow> Inl ErrFriendCursor
      | Some b \<Rightarrow>
          (case gdec b of
             None \<Rightarrow> Inl ErrFriendCursor
           | Some c \<Rightarrow> if FCSourceID c = [] \<or> FCDestinationID c = [] then Inl ErrFriendCursor else Inr (Some c)))"

definition friend_page_size :: "int \<Rightarrow> nat" where
  "friend_page_size limit =
     (let l = (if limit \<le> 0 then DefaultListLimit else limit) in nat (if l > MaxListLimit then MaxListLimit else l))"

text \<open>The rows of one state, the latest position first.\<close>

definition friend_rows :: "friend_tables \<Rightarrow> string \<Rightarrow> int \<Rightarrow> (string \<times> user_edge) list" where
  "friend_rows st user state =
     rev (sort_key (\<lambda>r. UePosition (snd r))
       (filter (\<lambda>r. UeState (snd r) = state \<and> fmlookup (ftUsers st) (fst r) \<noteq> None) (ue_rows (ftEdges st) user)))"

definition before_edge :: "edge_cursor option \<Rightarrow> string \<times> user_edge \<Rightarrow> bool" where
  "before_edge c r =
     (case c of
        None \<Rightarrow> True
      | Some e \<Rightarrow> UeState (snd r) < ECState e \<or> UeState (snd r) = ECState e \<and> UePosition (snd r) < ECPosition e)"

definition ListFriends ::
  "friend_env \<Rightarrow> (edge_cursor \<Rightarrow> nat list) \<Rightarrow> (nat list \<Rightarrow> edge_cursor option) \<Rightarrow> friend_tables \<Rightarrow> string
   \<Rightarrow> int \<Rightarrow> int \<Rightarrow> string \<Rightarrow> friend_error + (string \<times> user_edge) list \<times> string" where
  "ListFriends env genc gdec st userID filterState limit cursor =
     (let n = friend_page_size limit in
      case decodeEdgeCursor gdec cursor of
        Inl err \<Rightarrow> Inl err
      | Inr incoming \<Rightarrow>
          (case fe_uuid env userID of
             None \<Rightarrow> Inl FriendDatabase
           | Some u \<Rightarrow>
               let rows = take (n + 1) (filter (before_edge incoming) (friend_rows st u filterState)) in
               if length rows > n
               then (let l = snd (rows ! (n - 1)) in
                     Inr (take n rows, url_encode (genc \<lparr>ECState = UeState l, ECPosition = UePosition l\<rparr>)))
               else Inr (rows, [])))"

definition GetFriends ::
  "friend_env \<Rightarrow> (edge_cursor \<Rightarrow> nat list) \<Rightarrow> (nat list \<Rightarrow> edge_cursor option) \<Rightarrow> friend_tables \<Rightarrow> string
   \<Rightarrow> friend_error + (string \<times> user_edge) list" where
  "GetFriends env genc gdec st userID =
     map_sum id fst (ListFriends env genc gdec st userID StateFriend MaxListLimit [])"

text \<open>The friends of one friend, from the cursor on, without the user and the user's own friends.\<close>

definition fof_rows ::
  "friend_tables \<Rightarrow> string \<Rightarrow> string list \<Rightarrow> string option \<Rightarrow> nat \<Rightarrow> string \<Rightarrow> (string \<times> string) list" where
  "fof_rows st user friends from n f =
     take (n + 1) (map (\<lambda>r. (f, fst r))
       (filter (\<lambda>r. fst r \<noteq> user \<and> fst r \<notin> set friends \<and> UeState (snd r) = StateFriend \<and>
          (case from of None \<Rightarrow> True | Some d \<Rightarrow> fst r \<ge> d)) (ue_rows (ftEdges st) f)))"

text \<open>The rows taken so far, and the first row beyond the limit.\<close>

fun fof_loop ::
  "friend_env \<Rightarrow> friend_tables \<Rightarrow> string \<Rightarrow> string list \<Rightarrow> nat \<Rightarrow> fof_cursor option \<Rightarrow> string list
   \<Rightarrow> (string \<times> string) list \<Rightarrow> friend_error + (string \<times> string) list \<times> (string \<times> string) option" where
  "fof_loop env st user friends n incoming [] acc = Inr (acc, None)"
| "fof_loop env st user friends n incoming (f # fs) acc =
     (if incoming \<noteq> None \<and> map_option FCSourceID incoming \<noteq> Some f
      then fof_loop env st user friends n incoming fs acc
      else if incoming \<noteq> None \<and> Option.bind incoming (fe_uuid env \<circ> FCDestinationID) = None
      then Inl FriendDatabase
      else
        (let rows = fof_rows st user friends (Option.bind incoming (fe_uuid env \<circ> FCDestinationID)) n f;
             room = n - length acc in
         if length rows > room then Inr (acc @ take room rows, Some (rows ! room))
         else fof_loop env st user friends n None fs (acc @ rows)))"

definition ListFriendsOfFriends ::
  "friend_env \<Rightarrow> (fof_cursor \<Rightarrow> nat list) \<Rightarrow> (nat list \<Rightarrow> fof_cursor option) \<Rightarrow> friend_tables \<Rightarrow> string
   \<Rightarrow> int \<Rightarrow> string \<Rightarrow> friend_error + (string \<times> string) list \<times> string" where
  "ListFriendsOfFriends env genc gdec st userID limit cursor =
     (let n = friend_page_size limit in
      case decodeFoFCursor gdec cursor of
        Inl err \<Rightarrow> Inl err
      | Inr incoming \<Rightarrow>
          (case fe_uuid env userID of
             None \<Rightarrow> Inl FriendDatabase
           | Some u \<Rightarrow>
               let friends = map fst (filter (\<lambda>r. UeState (snd r) = StateFriend) (ue_rows (ftEdges st) u)) in
               (case fof_loop env st u friends n incoming friends [] of
                  Inl err \<Rightarrow> Inl err
                | Inr (rows, next) \<Rightarrow>
                    if rows = [] then Inr ([], [])
                    else Inr (filter (\<lambda>r. fmlookup (ftUsers st) (snd r) \<noteq> None) rows,
                      case next of
                        None \<Rightarrow> []
                      | Some (s, d) \<Rightarrow> url_encode (genc \<lparr>FCSourceID = s, FCDestinationID = d\<rparr>)))))"

definition UsersGetFriendStatus ::
  "friend_env \<Rightarrow> friend_tables \<Rightarrow> string \<Rightarrow> string list \<Rightarrow> friend_error + (string \<times> int) list" where
  "UsersGetFriendStatus env st userID friendIDs =
     (if friendIDs = [] then Inr []
      else case (fe_uuid env userID, all_some (map (fe_uuid env) friendIDs)) of
        (Some u, Some fs) \<Rightarrow>
          Inr (map (\<lambda>r. (fst r, UeState (snd r))) (filter (\<lambda>r. fst r \<in> set fs) (ue_rows (ftEdges st) u)))
      | _ \<Rightarrow> Inl FriendDatabase)"

definition FriendMetadataUpdate ::
  "friend_env \<Rightarrow> gotime \<Rightarrow> friend_tables \<Rightarrow> string \<Rightarrow> string \<Rightarrow> string option
   \<Rightarrow> friend_tables \<times> (friend_error + unit)" where
  "FriendMetadataUpdate env now st userID friendID metadata =
     (case (fe_uuid env userID, fe_uuid env friendID, fe_json env (case metadata of None \<Rightarrow> ''{}'' | Some m \<Rightarrow> m)) of
        (Some u, Some f, Some md) \<Rightarrow>
          (case fmlookup (ftEdges st) (u, f) of
             None \<Rightarrow> (st, Inr ())
           | Some e \<Rightarrow>
               (st\<lparr>ftEdges := fmupd (u, f) (e\<lparr>UeMetadata := md, UeUpdateTime := now\<rparr>) (ftEdges st)\<rparr>, Inr ()))
      | _ \<Rightarrow> (st, Inl FriendDatabase))"

text \<open>The identifiers first, then those of the names, each once.\<close>

definition user_named :: "friend_users \<Rightarrow> string \<Rightarrow> string option" where
  "user_named us name =
     List.find (\<lambda>i. map_option FuUsername (fmlookup us i) = Some name) (sorted_list_of_fset (fmdom us))"

definition ResolveUserIDs :: "friend_users \<Rightarrow> string list \<Rightarrow> string list \<Rightarrow> string list" where
  "ResolveUserIDs us ids usernames =
     (let add = (\<lambda>i acc. if i \<in> set acc then acc else acc @ [i]) in
      fold add (List.map_filter (user_named us) usernames) (fold add (filter (\<lambda>i. i \<noteq> []) ids) []))"

subsection \<open>Importing\<close>

text \<open>
  The friends a service reports: for Facebook a page, given the token and the cursor of the page before,
  for Steam one list, given the key and the identifier.  Both calls are parameters; \<open>None\<close> is any failure.
  The loop over the pages has fuel, as nothing bounds the number of pages.
\<close>

record fb_page =
  FbData :: "string list"
  FbNext :: string
  FbAfter :: string

fun fb_pages ::
  "nat \<Rightarrow> (string \<Rightarrow> string \<Rightarrow> fb_page option) \<Rightarrow> string \<Rightarrow> string list \<Rightarrow> string
   \<Rightarrow> (friend_error + string list) option" where
  "fb_pages 0 get token friends after = None"
| "fb_pages (Suc fuel) get token friends after =
     (case get token after of
        None \<Rightarrow> Some (Inl ErrFriendFetch)
      | Some p \<Rightarrow>
          let friends' = friends @ filter (\<lambda>i. i \<noteq> []) (FbData p) in
          if FbNext p = [] then Some (Inr friends') else fb_pages fuel get token friends' (FbAfter p))"

definition FetchFacebookFriendIDs ::
  "nat \<Rightarrow> (string \<Rightarrow> string \<Rightarrow> fb_page option) \<Rightarrow> string \<Rightarrow> (friend_error + string list) option" where
  "FetchFacebookFriendIDs fuel get accessToken =
     (if accessToken = [] then Some (Inl ErrFriendFetch) else fb_pages fuel get accessToken [] [])"

definition FetchSteamFriendIDs ::
  "(string \<Rightarrow> string \<Rightarrow> 64 word list option) \<Rightarrow> string \<Rightarrow> string \<Rightarrow> friend_error + string list" where
  "FetchSteamFriendIDs get publisherKey steamID =
     (if publisherKey = [] \<or> steamID = [] then Inl ErrFriendFetch
      else case get publisherKey steamID of
        None \<Rightarrow> Inl ErrFriendFetch
      | Some ids \<Rightarrow> Inr (map (\<lambda>w. decimal (uint w)) ids))"

definition resetUserFriends :: "friend_tables \<Rightarrow> string \<Rightarrow> friend_tables" where
  "resetUserFriends st u =
     (let es = ftEdges st;
          n = length (filter (\<lambda>r. UeState (snd r) \<noteq> StateBlocked) (ue_rows es u));
          es1 = fmfilter (\<lambda>k. \<not> (fst k = u \<and> open_edge es u (snd k))) es;
          us1 = (if n = 0 then ftUsers st else lower_count (int n) u (ftUsers st));
          sources = map fst (filter (\<lambda>k. snd k = u \<and> open_edge es1 (fst k) u) (sorted_list_of_fset (fmdom es1)));
          es2 = fmfilter (\<lambda>k. \<not> (snd k = u \<and> open_edge es1 (fst k) u)) es1 in
      st\<lparr>ftEdges := es2, ftUsers := fold (lower_count 1) sources us1\<rparr>)"

text \<open>
  A failed statement makes all later ones and the commit fail: \<open>None\<close>.  The limits only skip a friend.
  \<open>u\<close> is the UUID of the importing user, if the text is one; \<open>pos i\<close> is the clock at the \<open>i\<close>-th friend.
\<close>

fun importFriendsByIDs ::
  "friend_env \<Rightarrow> gotime \<Rightarrow> (nat \<Rightarrow> int) \<Rightarrow> nat \<Rightarrow> friend_tables \<Rightarrow> string \<Rightarrow> string option \<Rightarrow> string list
   \<Rightarrow> string \<Rightarrow> (friend_tables \<times> string list) option" where
  "importFriendsByIDs env now pos i st userID u [] meta = Some (st, [])"
| "importFriendsByIDs env now pos i st userID u (fid # ids) meta =
     (if fid = userID then importFriendsByIDs env now pos i st userID u ids meta
      else case u of
        None \<Rightarrow> None
      | Some user \<Rightarrow>
          (case addFriendTx env now (pos i) st user fid meta DefaultConfig of
             (st', Inl err) \<Rightarrow>
               if err = FriendDatabase then None
               else importFriendsByIDs env now pos (Suc i) st' userID u ids meta
           | (st', Inr out) \<Rightarrow>
               if out = NoRows then importFriendsByIDs env now pos (Suc i) st' userID u ids meta
               else map_option (\<lambda>r. (fst r, fid # snd r))
                 (importFriendsByIDs env now pos (Suc i) st' userID u ids meta)))"

definition matchUsersByProviderIDs :: "(friend_user \<Rightarrow> string) \<Rightarrow> friend_users \<Rightarrow> string list \<Rightarrow> string list" where
  "matchUsersByProviderIDs column us providerIDs =
     filter (\<lambda>i. case fmlookup us i of None \<Rightarrow> False | Some u \<Rightarrow> column u \<in> set providerIDs)
       (sorted_list_of_fset (fmdom us))"

definition import_meta :: "string \<Rightarrow> string" where
  "import_meta provider =
     [CHR 0x7B, CHR 0x22] @ ''imported'' @ [CHR 0x22] @ '':true,'' @ [CHR 0x22] @ ''provider'' @ [CHR 0x22] @ '':'' @
     [CHR 0x22] @ provider @ [CHR 0x22, CHR 0x7D]"

text \<open>The transaction of both imports and its notifications.\<close>

definition import_friends ::
  "friend_env \<Rightarrow> gotime \<Rightarrow> (nat \<Rightarrow> int) \<Rightarrow> friend_tables \<Rightarrow> string \<Rightarrow> (friend_user \<Rightarrow> string) \<Rightarrow> string list
   \<Rightarrow> string \<Rightarrow> bool \<Rightarrow> friend_result" where
  "import_friends env now pos st userID column ids provider reset =
     (if ids = [] \<and> \<not> reset then (st, [], Inr ())
      else if reset \<and> fe_uuid env userID = None then (st, [], Inl FriendDatabase)
      else
        (let st1 = (if reset then (case fe_uuid env userID of None \<Rightarrow> st | Some u \<Rightarrow> resetUserFriends st u) else st) in
         case importFriendsByIDs env now pos 0 st1 userID (fe_uuid env userID)
           (matchUsersByProviderIDs column (ftUsers st1) ids) (import_meta provider) of
           None \<Rightarrow> (st, [], Inl FriendDatabase)
         | Some (st2, imported) \<Rightarrow>
             (st2, map (\<lambda>fid. (fid, NotificationCodeFriendImport, userID)) imported, Inr ())))"

definition ImportFacebookFriends ::
  "nat \<Rightarrow> (string \<Rightarrow> string \<Rightarrow> fb_page option) \<Rightarrow> friend_env \<Rightarrow> gotime \<Rightarrow> (nat \<Rightarrow> int) \<Rightarrow> friend_tables
   \<Rightarrow> string \<Rightarrow> string \<Rightarrow> bool \<Rightarrow> friend_result option" where
  "ImportFacebookFriends fuel get env now pos st userID token reset =
     map_option (\<lambda>fetched.
         case fetched of
           Inl err \<Rightarrow> (st, [], Inl err)
         | Inr fbIDs \<Rightarrow> import_friends env now pos st userID FuFacebookID fbIDs ''Facebook'' reset)
       (FetchFacebookFriendIDs fuel get token)"

text \<open>The identifier linked to the user, or else the token; a row that is missing reads as the empty text.\<close>

definition ImportSteamFriends ::
  "(string \<Rightarrow> string \<Rightarrow> 64 word list option) \<Rightarrow> string \<Rightarrow> friend_env \<Rightarrow> gotime \<Rightarrow> (nat \<Rightarrow> int)
   \<Rightarrow> friend_tables \<Rightarrow> string \<Rightarrow> string \<Rightarrow> bool \<Rightarrow> friend_result" where
  "ImportSteamFriends get publisherKey env now pos st userID steamToken reset =
     (if publisherKey = [] then (st, [], Inl ErrSteamConfig)
      else
        (let linked = (case Option.bind (fe_uuid env userID) (fmlookup (ftUsers st)) of
              None \<Rightarrow> [] | Some u \<Rightarrow> FuSteamID u);
             steamID = (if linked = [] then steamToken else linked) in
         if steamID = [] then (st, [], Inl ErrSteamProfile)
         else case FetchSteamFriendIDs get publisherKey steamID of
           Inl err \<Rightarrow> (st, [], Inl err)
         | Inr ids \<Rightarrow> import_friends env now pos st userID FuSteamID ids ''Steam'' reset))"

end
