(* ===== verification/Friends_Props.thy ===== *)
theory Friends_Props
  imports Friends
begin

section \<open>Correctness of the friend edges\<close>

text \<open>
  Friend edges come in mirrored pairs and the edge counts are exact, in every run of the operations with
  a clock that advances; a block holds until its owner lifts it.
\<close>

subsection \<open>The statements on the states of the edges\<close>

named_theorems edge_laws

lemma ue_state_upd [edge_laws]:
  "ue_state (fmupd k e es) x y = (if (x, y) = k then Some (UeState e) else ue_state es x y)"
  by (auto simp: ue_state_def)

lemma ue_state_drop [edge_laws]: "ue_state (fmdrop k es) x y = (if (x, y) = k then None else ue_state es x y)"
  by (auto simp: ue_state_def fmlookup_drop)

lemma ue_state_filter [edge_laws]: "ue_state (fmfilter P es) x y = (if P (x, y) then ue_state es x y else None)"
  by (auto simp: ue_state_def fmlookup_filter)

lemma ue_state_None: "ue_state es s d = None \<longleftrightarrow> fmlookup es (s, d) = None"
  by (simp add: ue_state_def)

lemma restate_state:
  assumes "restate st f k es = Some es'"
  shows "ue_state es' x y = (if (x, y) = k \<and> ue_state es x y \<noteq> None then Some st else ue_state es x y)"
  using assms by (auto simp: restate_def ue_state_def split: option.splits if_splits)

lemma insert_ue_state:
  assumes "insert_ue us s d e es = Some es'"
  shows "ue_state es' x y = (if (x, y) = (s, d) \<and> ue_state es x y = None then Some (UeState e) else ue_state es x y)"
  using assms by (auto simp: insert_ue_def ue_state_def split: if_splits)

lemma insert_ue_old: "ue_state es s d \<noteq> None \<Longrightarrow> insert_ue us s d e es = Some es"
  by (simp add: insert_ue_def ue_state_def)

lemma insert_ue_new:
  assumes "insert_ue us s d e es = Some es'" and "ue_state es s d = None"
  shows "es' = fmupd (s, d) e es" and "fmlookup us s \<noteq> None" and "fmlookup us d \<noteq> None"
  using assms by (auto simp: insert_ue_def ue_state_def split: if_splits)

text \<open>The number of edges of a user.\<close>

definition deg :: "user_edges \<Rightarrow> string \<Rightarrow> int" where
  "deg es s = int (card (dom (ue_state es s)))"

lemma finite_ends: "finite (dom (ue_state es s))"
proof -
  have "dom (ue_state es s) \<subseteq> snd ` fset (fmdom es)"
  proof
    fix d assume "d \<in> dom (ue_state es s)"
    then obtain e where "fmlookup es (s, d) = Some e" by (auto simp: ue_state_def)
    then have "(s, d) |\<in>| fmdom es" by (rule fmdomI)
    then show "d \<in> snd ` fset (fmdom es)" by force
  qed
  then show ?thesis by (rule finite_subset) simp
qed

lemma ue_rows_ends: "map fst (ue_rows es s) = map snd (filter (\<lambda>k. fst k = s) (sorted_list_of_fset (fmdom es)))"
proof -
  have "map fst (List.map_filter (\<lambda>k. map_option (Pair (snd k)) (fmlookup es k)) ks) = map snd ks"
    if "\<forall>k\<in>set ks. k |\<in>| fmdom es" for ks
    using that
  proof (induction ks)
    case (Cons k ks)
    then obtain e where "fmlookup es k = Some e" by (auto simp: fmlookup_dom_iff)
    with Cons show ?case by (simp add: List.map_filter_def)
  qed (simp add: List.map_filter_def)
  then show ?thesis by (simp add: ue_rows_def)
qed

lemma ue_rows_distinct: "distinct (map fst (ue_rows es s))"
  unfolding ue_rows_ends
  by (auto simp: distinct_map inj_on_def intro!: distinct_filter valid_order_distinct [OF valid_order_sorted])

lemma ue_rows_set: "(d, e) \<in> set (ue_rows es s) \<longleftrightarrow> fmlookup es (s, d) = Some e"
  by (force simp: ue_rows_def List.map_filter_def fmlookup_dom_iff)

lemma ue_rows_filter_length:
  "length (filter P (ue_rows es s)) = card {d. \<exists>e. fmlookup es (s, d) = Some e \<and> P (d, e)}"
proof -
  have "distinct (map fst (filter P (ue_rows es s)))"
    using ue_rows_distinct by (rule distinct_map_filter)
  moreover have "set (map fst (filter P (ue_rows es s))) = {d. \<exists>e. fmlookup es (s, d) = Some e \<and> P (d, e)}"
    by (force simp: ue_rows_set [symmetric])
  ultimately show ?thesis by (metis distinct_card length_map)
qed

lemma ue_rows_length: "int (length (ue_rows es s)) = deg es s"
proof -
  have "dom (ue_state es s) = {d. \<exists>e. fmlookup es (s, d) = Some e}" by (auto simp: ue_state_def)
  then show ?thesis using ue_rows_filter_length [of "\<lambda>_. True" es s] by (simp add: deg_def)
qed

lemma deg_cong: "(\<And>d. ue_state es' s d = ue_state es s d) \<Longrightarrow> deg es' s = deg es s"
  unfolding deg_def by presburger

lemma deg_same_ends:
  assumes "\<And>d. ue_state es' s d = None \<longleftrightarrow> ue_state es s d = None"
  shows "deg es' s = deg es s"
proof -
  have "dom (ue_state es' s) = dom (ue_state es s)" using assms by (simp add: dom_def)
  then show ?thesis by (simp add: deg_def)
qed

definition present :: "'a option \<Rightarrow> int" where
  "present x = (if x = None then 0 else 1)"

lemma present_simps [simp]: "present None = 0" "present (Some x) = 1"
  by (simp_all add: present_def)

lemma deg_change:
  assumes "\<And>y. ue_state es' s y = (if y = d then a else ue_state es s y)"
  shows "deg es' s = deg es s + present a - present (ue_state es s d)"
proof -
  let ?D = "dom (ue_state es s) - {d}"
  have eq: "dom (ue_state es' s) = (if a = None then ?D else insert d ?D)"
  proof (rule set_eqI)
    fix x show "x \<in> dom (ue_state es' s) \<longleftrightarrow> x \<in> (if a = None then ?D else insert d ?D)"
      using assms [of x] by (cases "x = d"; cases a) (simp_all add: domIff)
  qed
  have old: "int (card (dom (ue_state es s))) = int (card ?D) + present (ue_state es s d)"
  proof (cases "ue_state es s d")
    case None then show ?thesis by (simp add: dom_def)
  next
    case (Some c)
    then have "d \<in> dom (ue_state es s)" by blast
    from card.remove [OF finite_ends this] Some show ?thesis by simp
  qed
  have "int (card (dom (ue_state es' s))) = int (card ?D) + present a"
  proof (cases a)
    case None then show ?thesis by (simp add: eq)
  next
    case (Some c)
    moreover have "card (insert d ?D) = Suc (card ?D)" by (rule card_insert_disjoint) (simp_all add: finite_ends)
    ultimately show ?thesis by (simp only: eq if_False option.distinct present_simps)
  qed
  with old show ?thesis by (simp add: deg_def)
qed

lemma deg_pos:
  assumes "ue_state es s d \<noteq> None"
  shows "deg es s > 0"
proof -
  have "d \<in> dom (ue_state es s)" using assms by (simp add: dom_def)
  then have "card (dom (ue_state es s)) > 0" using finite_ends card_gt_0_iff by blast
  then show ?thesis by (simp add: deg_def)
qed

text \<open>The edge count of a user.\<close>

definition edge_count :: "friend_users \<Rightarrow> string \<Rightarrow> int option" where
  "edge_count us i = map_option FuEdgeCount (fmlookup us i)"

lemma edge_count_raise [edge_laws]:
  "edge_count (raise_count j us) i = (if i = j then map_option (\<lambda>n. n + 1) (edge_count us i) else edge_count us i)"
  by (auto simp: edge_count_def raise_count_def split: option.splits)

lemma edge_count_lower [edge_laws]:
  "edge_count (lower_count n j us) i = (if i = j then map_option (\<lambda>c. max (c - n) 0) (edge_count us i) else edge_count us i)"
  by (auto simp: edge_count_def lower_count_def split: option.splits)

lemma edge_count_drop [edge_laws]:
  "edge_count (drop_one j us) i =
     (if i = j then map_option (\<lambda>c. if c > 0 then c - 1 else c) (edge_count us i) else edge_count us i)"
  by (auto simp: edge_count_def drop_one_def split: option.splits)

lemma edge_count_None: "edge_count us i = None \<longleftrightarrow> fmlookup us i = None"
  by (simp add: edge_count_def)

subsection \<open>The invariant\<close>

definition mirror :: "int \<Rightarrow> int" where
  "mirror c = (if c = StateInviteSent then StateInviteReceived else if c = StateInviteReceived then StateInviteSent else c)"

definition edges_ok :: "friend_tables \<Rightarrow> bool" where
  "edges_ok st =
     (\<forall>s d c. ue_state (ftEdges st) s d = Some c \<longrightarrow>
        s \<noteq> d \<and> fmlookup (ftUsers st) s \<noteq> None \<and> fmlookup (ftUsers st) d \<noteq> None \<and>
        (c = StateBlocked \<or>
         c \<in> {StateFriend, StateInviteSent, StateInviteReceived} \<and> ue_state (ftEdges st) d s = Some (mirror c)))"

lemma edges_okD:
  assumes "edges_ok st" and "ue_state (ftEdges st) s d = Some c"
  shows "s \<noteq> d \<and> fmlookup (ftUsers st) s \<noteq> None \<and> fmlookup (ftUsers st) d \<noteq> None \<and>
    (c = StateBlocked \<or>
     c \<in> {StateFriend, StateInviteSent, StateInviteReceived} \<and> ue_state (ftEdges st) d s = Some (mirror c))"
  using assms unfolding edges_ok_def by blast

definition counts_ok :: "friend_tables \<Rightarrow> bool" where
  "counts_ok st = (\<forall>i u. fmlookup (ftUsers st) i = Some u \<longrightarrow> FuEdgeCount u = int (length (ue_rows (ftEdges st) i)))"

lemma counts_ok_deg: "counts_ok st \<longleftrightarrow> (\<forall>i n. edge_count (ftUsers st) i = Some n \<longrightarrow> n = deg (ftEdges st) i)"
  by (force simp: counts_ok_def edge_count_def ue_rows_length)

definition friends_ok :: "friend_tables \<Rightarrow> bool" where
  "friends_ok st = (edges_ok st \<and> counts_ok st)"

lemmas state_nums = StateFriend_def StateInviteSent_def StateInviteReceived_def StateBlocked_def

text \<open>The two edges of a pair determine what an operation on the pair can meet.\<close>

lemma pair_cases:
  assumes "edges_ok st" and "s \<noteq> d"
  obtains (Neither) "ue_state (ftEdges st) s d = None" "ue_state (ftEdges st) d s = None"
  | (Mutual) c where "ue_state (ftEdges st) s d = Some c" "ue_state (ftEdges st) d s = Some (mirror c)"
      "c \<in> {StateFriend, StateInviteSent, StateInviteReceived}"
  | (Blocks) "ue_state (ftEdges st) s d = Some StateBlocked"
      "ue_state (ftEdges st) d s \<in> {None, Some StateBlocked}"
  | (Blocked) "ue_state (ftEdges st) s d = None" "ue_state (ftEdges st) d s = Some StateBlocked"
proof -
  have m: "mirror c \<noteq> StateBlocked" if "c \<in> {StateFriend, StateInviteSent, StateInviteReceived}" for c
    using that by (auto simp: mirror_def state_nums)
  show thesis
  proof (cases "ue_state (ftEdges st) s d")
    case n: None
    show ?thesis
    proof (cases "ue_state (ftEdges st) d s")
      case None then show ?thesis using n Neither by blast
    next
      case (Some c)
      then have "c = StateBlocked" using assms(1) n unfolding edges_ok_def by (metis option.distinct(1))
      then show ?thesis using n Some Blocked by blast
    qed
  next
    case s: (Some c)
    show ?thesis
    proof (cases "c = StateBlocked")
      case False
      then show ?thesis using assms(1) s Mutual unfolding edges_ok_def by metis
    next
      case True
      have "ue_state (ftEdges st) d s \<in> {None, Some StateBlocked}"
      proof (rule ccontr)
        assume a: "\<not> ?thesis"
        then obtain c' where c': "ue_state (ftEdges st) d s = Some c'" "c' \<noteq> StateBlocked" by auto
        then have "c' \<in> {StateFriend, StateInviteSent, StateInviteReceived}" "ue_state (ftEdges st) s d = Some (mirror c')"
          using assms(1) unfolding edges_ok_def by metis+
        then show False using s True m by force
      qed
      then show ?thesis using s True Blocks by blast
    qed
  qed
qed


definition pair_ok :: "friend_tables \<Rightarrow> string \<Rightarrow> string \<Rightarrow> int option \<Rightarrow> int option \<Rightarrow> bool" where
  "pair_ok st s d a b =
     ((a \<noteq> None \<or> b \<noteq> None \<longrightarrow> fmlookup (ftUsers st) s \<noteq> None \<and> fmlookup (ftUsers st) d \<noteq> None) \<and>
      (\<forall>c. a = Some c \<longrightarrow> c = StateBlocked \<or>
         c \<in> {StateFriend, StateInviteSent, StateInviteReceived} \<and> b = Some (mirror c)) \<and>
      (\<forall>c. b = Some c \<longrightarrow> c = StateBlocked \<or>
         c \<in> {StateFriend, StateInviteSent, StateInviteReceived} \<and> a = Some (mirror c)))"

lemma pair_change:
  assumes ok: "friends_ok st" and "s \<noteq> d"
    and new: "\<And>x y. ue_state (ftEdges st') x y =
      (if (x, y) = (s, d) then a else if (x, y) = (d, s) then b else ue_state (ftEdges st) x y)"
    and count: "\<And>i. edge_count (ftUsers st') i = map_option (\<lambda>n. n +
      (if i = s then present a - present (ue_state (ftEdges st) s d)
       else if i = d then present b - present (ue_state (ftEdges st) d s) else 0)) (edge_count (ftUsers st) i)"
    and pair: "pair_ok st s d a b"
  shows "friends_ok st'"
proof -
  have users: "fmlookup (ftUsers st') i = None \<longleftrightarrow> fmlookup (ftUsers st) i = None" for i
    using count [of i] by (simp flip: edge_count_None)
  have "edges_ok st'"
    unfolding edges_ok_def
  proof (intro allI impI)
    fix x y c assume c: "ue_state (ftEdges st') x y = Some c"
    consider "(x, y) = (s, d)" | "(x, y) = (d, s)" | "(x, y) \<noteq> (s, d)" "(x, y) \<noteq> (d, s)" by blast
    then show "x \<noteq> y \<and> fmlookup (ftUsers st') x \<noteq> None \<and> fmlookup (ftUsers st') y \<noteq> None \<and>
      (c = StateBlocked \<or> c \<in> {StateFriend, StateInviteSent, StateInviteReceived} \<and>
        ue_state (ftEdges st') y x = Some (mirror c))"
    proof cases
      case 1 then show ?thesis using c pair \<open>s \<noteq> d\<close> unfolding pair_ok_def users new by auto
    next
      case 2 then show ?thesis using c pair \<open>s \<noteq> d\<close> unfolding pair_ok_def users new by auto
    next
      case 3
      then have f: "(y, x) \<noteq> (s, d)" "(y, x) \<noteq> (d, s)" by blast+
      have "ue_state (ftEdges st') x y = ue_state (ftEdges st) x y" by (simp only: new 3 if_False)
      with c have old: "ue_state (ftEdges st) x y = Some c" by simp
      have other: "ue_state (ftEdges st') y x = ue_state (ftEdges st) y x" by (simp only: new f if_False)
      have "edges_ok st" using ok by (simp add: friends_ok_def)
      from edges_okD [OF this old] show ?thesis unfolding users other .
    qed
  qed
  moreover have "counts_ok st'"
    unfolding counts_ok_deg
  proof (intro allI impI)
    fix i n assume n: "edge_count (ftUsers st') i = Some n"
    then obtain m where m: "edge_count (ftUsers st) i = Some m" using count [of i] by (cases "edge_count (ftUsers st) i") auto
    then have old: "m = deg (ftEdges st) i" using ok unfolding friends_ok_def counts_ok_deg by blast
    consider "i = s" | "i = d" "i \<noteq> s" | "i \<noteq> s" "i \<noteq> d" by blast
    then show "n = deg (ftEdges st') i"
    proof cases
      case 1
      have "deg (ftEdges st') s = deg (ftEdges st) s + present a - present (ue_state (ftEdges st) s d)"
        by (rule deg_change) (simp add: new \<open>s \<noteq> d\<close>)
      then show ?thesis using n count [of i] m old 1 by simp
    next
      case 2
      have "deg (ftEdges st') d = deg (ftEdges st) d + present b - present (ue_state (ftEdges st) d s)"
        by (rule deg_change) (use \<open>s \<noteq> d\<close> in \<open>simp add: new\<close>)
      then show ?thesis using n count [of i] m old 2 by simp
    next
      case 3
      have "deg (ftEdges st') i = deg (ftEdges st) i" by (rule deg_cong) (use 3 in \<open>simp add: new\<close>)
      then show ?thesis using n count [of i] m old 3 by simp
    qed
  qed
  ultimately show ?thesis by (simp add: friends_ok_def)
qed

text \<open>The same from and to the same pair of states.\<close>

lemma pair_ok_now:
  assumes "edges_ok st" and "s \<noteq> d"
  shows "pair_ok st s d (ue_state (ftEdges st) s d) (ue_state (ftEdges st) d s)"
proof -
  note e = edges_okD [OF assms(1)]
  show ?thesis
    unfolding pair_ok_def
  proof (intro conjI allI impI)
    assume "ue_state (ftEdges st) s d \<noteq> None \<or> ue_state (ftEdges st) d s \<noteq> None"
    then obtain c where "ue_state (ftEdges st) s d = Some c \<or> ue_state (ftEdges st) d s = Some c" by blast
    then show "fmlookup (ftUsers st) s \<noteq> None" and "fmlookup (ftUsers st) d \<noteq> None"
      using e by blast+
  qed (use e in blast)+
qed

subsection \<open>The position of a new edge\<close>

text \<open>All positions lie before the clock.\<close>

definition before_clock :: "int \<Rightarrow> user_edges \<Rightarrow> bool" where
  "before_clock pos es = (\<forall>k e. fmlookup es k = Some e \<longrightarrow> UePosition e < pos)"

lemma before_clock_later: "before_clock pos es \<Longrightarrow> pos \<le> pos' \<Longrightarrow> before_clock pos' es"
  by (force simp: before_clock_def)

lemma before_clock_drop: "before_clock pos es \<Longrightarrow> before_clock pos (fmdrop k es)"
  by (simp add: before_clock_def fmlookup_drop)

lemma before_clock_upd: "before_clock pos es \<Longrightarrow> UePosition e < pos \<Longrightarrow> before_clock pos (fmupd k e es)"
  by (auto simp: before_clock_def)

lemma restate_clock:
  assumes "restate st f k es = Some es'" and "before_clock pos es" and "\<And>e. UePosition (f e) = UePosition e"
  shows "before_clock pos es'"
  using assms by (auto simp: restate_def before_clock_def split: option.splits if_splits)

lemma insert_ue_clock:
  assumes "insert_ue us s d e es = Some es'" and "before_clock pos es" and "UePosition e < pos"
  shows "before_clock pos es'"
  using assms by (auto simp: insert_ue_def before_clock_def split: if_splits)

lemma accept_none:
  assumes "ue_state es friend user \<noteq> Some StateInviteSent" and "ue_state es user friend \<noteq> Some StateInviteReceived"
  shows "accept_edges env now user friend md es = Some (es, 0)"
  using assms by (simp add: accept_edges_def)

lemma accept_both:
  assumes "ue_state es friend user = Some StateInviteSent" and "ue_state es user friend = Some StateInviteReceived"
    and "user \<noteq> friend"
  shows "accept_edges env now user friend md es =
    map_option (\<lambda>es'. (es', 2)) (Option.bind
      (restate StateFriend (accepted_row env now md (user, friend) (friend, user)) (friend, user) es)
      (restate StateFriend (accepted_row env now md (user, friend) (user, friend)) (user, friend)))"
  using assms by (simp add: accept_edges_def numeral_2_eq_2)

lemma raise_two: "user \<noteq> friend \<Longrightarrow> fmlookup us user \<noteq> None \<Longrightarrow> fmlookup us friend \<noteq> None \<Longrightarrow>
  filter (\<lambda>i. fmlookup us i \<noteq> None) (remdups [user, friend]) = [user, friend]"
  by simp

lemma addFriendTx_cases:
  assumes tx: "addFriendTx env now pos st user friend md cfg = (st', r)"
    and ok: "edges_ok st" and ne: "user \<noteq> friend" and clock: "before_clock pos (ftEdges st)"
    and free: "ue_state (ftEdges st) user friend \<noteq> Some StateBlocked"
  obtains (Same) "st' = st" "r \<noteq> Inr Accepted" "r \<noteq> Inr Requested"
  | (Accept) "r = Inr Accepted" "ue_state (ftEdges st) user friend = Some StateInviteReceived"
      "ue_state (ftEdges st) friend user = Some StateInviteSent" "ftUsers st' = ftUsers st"
      "\<forall>x y. ue_state (ftEdges st') x y =
         (if (x, y) = (user, friend) then Some StateFriend else if (x, y) = (friend, user) then Some StateFriend
          else ue_state (ftEdges st) x y)"
  | (Request) "r = Inr Requested" "ue_state (ftEdges st) user friend = None"
      "ue_state (ftEdges st) friend user = None"
      "fmlookup (ftUsers st) user \<noteq> None" "fmlookup (ftUsers st) friend \<noteq> None"
      "ftUsers st' = raise_count friend (raise_count user (ftUsers st))"
      "\<forall>x y. ue_state (ftEdges st') x y =
         (if (x, y) = (user, friend) then Some StateInviteSent
          else if (x, y) = (friend, user) then Some StateInviteReceived else ue_state (ftEdges st) x y)"
proof -
  let ?es = "ftEdges st" and ?us = "ftUsers st"
  show thesis
  proof (cases "fe_json env md")
    case None then show ?thesis using tx by (intro Same) (auto simp: addFriendTx_def)
  next
    case json: (Some m)
    have nopos: "map_option UePosition (fmlookup ?es k) \<noteq> Some pos" for k
      using clock unfolding before_clock_def by fastforce
    show ?thesis
    proof (cases "ue_state ?es user friend = Some StateInviteReceived")
      case True
      then have inv: "ue_state ?es friend user = Some StateInviteSent"
        using edges_okD [OF ok True] by (auto simp: mirror_def state_nums)
      show ?thesis
      proof (cases "accept_edges env now user friend m ?es")
        case None then show ?thesis using tx json by (intro Same) (auto simp: addFriendTx_def)
      next
        case (Some p)
        then obtain es1 es2 where es: "restate StateFriend (accepted_row env now m (user, friend) (friend, user)) (friend, user) ?es = Some es1"
            "restate StateFriend (accepted_row env now m (user, friend) (user, friend)) (user, friend) es1 = Some es2" "p = (es2, 2)"
          unfolding accept_both [OF inv True ne] by (auto simp: bind_eq_Some_conv)
        have r: "st' = st\<lparr>ftEdges := es2\<rparr>" "r = Inr Accepted"
          using tx json Some es(3) by (simp_all add: addFriendTx_def)
        have "\<forall>x y. ue_state es2 x y = (if (x, y) = (user, friend) then Some StateFriend
            else if (x, y) = (friend, user) then Some StateFriend else ue_state ?es x y)"
        proof (intro allI)
          fix x y
          consider "(x, y) = (user, friend)" | "(x, y) = (friend, user)" | "(x, y) \<noteq> (user, friend)" "(x, y) \<noteq> (friend, user)"
            by blast
          then show "ue_state es2 x y = (if (x, y) = (user, friend) then Some StateFriend
            else if (x, y) = (friend, user) then Some StateFriend else ue_state ?es x y)"
          proof cases
            case 1
            then show ?thesis using True ne by (simp add: restate_state [OF es(1)] restate_state [OF es(2)])
          next
            case 2
            then show ?thesis using inv ne by (simp add: restate_state [OF es(1)] restate_state [OF es(2)])
          next
            case 3
            then show ?thesis by (simp only: restate_state [OF es(1)] restate_state [OF es(2)] if_False simp_thms)
          qed
        qed
        then show ?thesis using r True inv by (intro Accept) simp_all
      qed
    next
      case False
      then have "ue_state ?es friend user \<noteq> Some StateInviteSent"
        using edges_okD [OF ok, of friend user StateInviteSent] by (auto simp: mirror_def state_nums)
      note acc = accept_none [OF this False]
      show ?thesis
      proof (cases "countEdges ?es user StateFriend \<ge> MaxFriends cfg \<or> countEdges ?es user StateInviteSent \<ge> MaxPending cfg")
        case True
        then show ?thesis using tx json acc by (intro Same) (auto simp: addFriendTx_def split: if_splits)
      next
        case limits: False
        show ?thesis
        proof (cases "ue_state ?es user friend = None \<and> ue_state ?es friend user = None \<and> fmlookup ?us friend \<noteq> None")
          case False
          have "(if fmlookup ?us friend = None \<or> ue_state ?es friend user = Some StateBlocked then Some ?es
              else Option.bind (insert_ue ?us user friend e ?es) (insert_ue ?us friend user e')) = Some ?es" for e e'
          proof (rule pair_cases [OF ok ne])
            assume "ue_state ?es user friend = None" "ue_state ?es friend user = None"
            with False show ?thesis by simp
          next
            fix c assume "ue_state ?es user friend = Some c" "ue_state ?es friend user = Some (mirror c)"
            then show ?thesis by (simp add: insert_ue_old)
          next
            assume "ue_state ?es user friend = Some StateBlocked"
            with free show ?thesis by simp
          next
            assume "ue_state ?es friend user = Some StateBlocked"
            then show ?thesis by simp
          qed
          then show ?thesis using tx json acc limits nopos by (intro Same) (auto simp: addFriendTx_def Let_def cong: conj_cong)
        next
          case fresh: True
          let ?e = "\<lparr>UeState = StateInviteSent, UePosition = pos, UeUpdateTime = now, UeMetadata = m\<rparr>"
          let ?e' = "\<lparr>UeState = StateInviteReceived, UePosition = pos, UeUpdateTime = now, UeMetadata = ''{}''\<rparr>"
          let ?ins = "Option.bind (insert_ue ?us user friend ?e ?es) (insert_ue ?us friend user ?e')"
          show ?thesis
          proof (cases ?ins)
            case None
            then show ?thesis using tx json acc limits fresh by (intro Same) (auto simp: addFriendTx_def)
          next
            case (Some es')
            then obtain es1 where es: "insert_ue ?us user friend ?e ?es = Some es1" "insert_ue ?us friend user ?e' es1 = Some es'"
              by (auto simp: bind_eq_Some_conv)
            note i1 = insert_ue_new [OF es(1)] fresh
            have n2: "ue_state es1 friend user = None"
              using fresh ne by (simp add: insert_ue_state [OF es(1)])
            have found: "fmlookup es' (user, friend) = Some ?e"
              using insert_ue_new [OF es(2) n2] i1 ne by auto
            have users: "fmlookup ?us user \<noteq> None" "fmlookup ?us friend \<noteq> None"
              using i1 by simp_all
            have r: "r = Inr Requested" "st' = st\<lparr>ftEdges := es', ftUsers := raise_count friend (raise_count user ?us)\<rparr>"
              using tx json acc limits fresh Some found users ne by (auto simp: addFriendTx_def)
            have "\<forall>x y. ue_state es' x y = (if (x, y) = (user, friend) then Some StateInviteSent
                else if (x, y) = (friend, user) then Some StateInviteReceived else ue_state ?es x y)"
            proof (intro allI)
              fix x y
              have e: "es' = fmupd (friend, user) ?e' (fmupd (user, friend) ?e ?es)"
                using insert_ue_new(1) [OF es(2) n2] insert_ue_new(1) [OF es(1)] fresh by simp
              show "ue_state es' x y = (if (x, y) = (user, friend) then Some StateInviteSent
                else if (x, y) = (friend, user) then Some StateInviteReceived else ue_state ?es x y)"
                using ne by (auto simp: e ue_state_upd)
            qed
            then show ?thesis using r users fresh by (intro Request) simp_all
          qed
        qed
      qed
    qed
  qed
qed

text \<open>Each operation on a pair keeps the invariant.\<close>

lemma addFriendTx_ok:
  assumes "addFriendTx env now pos st user friend md cfg = (st', r)"
    and ok: "friends_ok st" and ne: "user \<noteq> friend" and "before_clock pos (ftEdges st)"
    and "ue_state (ftEdges st) user friend \<noteq> Some StateBlocked"
  shows "friends_ok st'"
proof -
  have "edges_ok st" using ok by (simp add: friends_ok_def)
  from assms(1) this ne assms(4,5) show ?thesis
  proof (cases rule: addFriendTx_cases)
    case Same then show ?thesis using ok by simp
  next
    case Accept
    have "fmlookup (ftUsers st) user \<noteq> None" "fmlookup (ftUsers st) friend \<noteq> None"
      using edges_okD [OF \<open>edges_ok st\<close> Accept(2)] by blast+
    then have pair: "pair_ok st user friend (Some StateFriend) (Some StateFriend)"
      by (auto simp: pair_ok_def mirror_def state_nums)
    show ?thesis
      by (rule pair_change [OF ok ne _ _ pair])
        (use Accept(5) in blast, simp add: Accept option.map_ident)
  next
    case Request
    then have pair: "pair_ok st user friend (Some StateInviteSent) (Some StateInviteReceived)"
      by (auto simp: pair_ok_def mirror_def state_nums)
    show ?thesis
      by (rule pair_change [OF ok ne _ _ pair])
        (use Request(7) in blast, use ne in \<open>simp add: Request edge_laws option.map_comp o_def option.map_ident\<close>)
  qed
qed

lemma fold_bind_None: "fold (\<lambda>k acc. Option.bind acc (g k)) ks None = None"
  by (induction ks) simp_all

lemma addFriendTx_clock:
  assumes "addFriendTx env now pos st user friend md cfg = (st', r)" and old: "before_clock pos (ftEdges st)"
    and "pos < pos'"
  shows "before_clock pos' (ftEdges st')"
proof -
  let ?es = "ftEdges st"
  have old': "before_clock pos' ?es" using old \<open>pos < pos'\<close> before_clock_later by fastforce
  have acc: "before_clock pos' es" if "accept_edges env now user friend m ?es = Some (es, n)" for m es n
  proof -
    have "before_clock pos' es''" if "fold (\<lambda>k acc. Option.bind acc
        (restate StateFriend (accepted_row env now m (user, friend) k) k)) ks (Some es') = Some es''" "before_clock pos' es'" for ks es' es''
      using that
    proof (induction ks arbitrary: es')
      case (Cons k ks)
      then obtain e1 where e1: "restate StateFriend (accepted_row env now m (user, friend) k) k es' = Some e1"
        by (cases "restate StateFriend (accepted_row env now m (user, friend) k) k es'") (auto simp: fold_bind_None)
      then have "before_clock pos' e1" using Cons.prems(2) by (rule restate_clock) (simp add: accepted_row_def)
      then show ?case using Cons.IH Cons.prems(1) e1 by simp
    qed simp
    then show ?thesis using that old' by (auto simp: accept_edges_def Let_def)
  qed
  have ins: "before_clock pos' es'" if "(if b then Some es else Option.bind (insert_ue us s d e es) (insert_ue us d s e')) = Some es'"
      "before_clock pos' es" "UePosition e = pos" "UePosition e' = pos" for b es es' us s d e e'
  proof (cases b)
    case False
    with that(1) have "Option.bind (insert_ue us s d e es) (insert_ue us d s e') = Some es'" by simp
    then obtain es1 where "insert_ue us s d e es = Some es1" "insert_ue us d s e' es1 = Some es'"
      unfolding bind_eq_Some_conv by blast
    then show ?thesis using that \<open>pos < pos'\<close> by (metis insert_ue_clock)
  qed (use that in simp)
  show ?thesis
  proof (cases "fe_json env md")
    case None then show ?thesis using assms(1) old' by (auto simp: addFriendTx_def)
  next
    case json: (Some m)
    show ?thesis
    proof (cases "accept_edges env now user friend m ?es")
      case None then show ?thesis using assms(1) old' json by (auto simp: addFriendTx_def)
    next
      case (Some p)
      then obtain es n where es: "accept_edges env now user friend m ?es = Some (es, n)" by (cases p) auto
      have "ftEdges st' = es"
        if "n = 2 \<or> countEdges es user StateFriend \<ge> MaxFriends cfg \<or> countEdges es user StateInviteSent \<ge> MaxPending cfg"
        using assms(1) json es that by (cases "n = 2"; cases "countEdges es user StateFriend \<ge> MaxFriends cfg") (auto simp: addFriendTx_def Let_def)
      then consider "ftEdges st' = es"
        | "n \<noteq> 2" "\<not> countEdges es user StateFriend \<ge> MaxFriends cfg" "\<not> countEdges es user StateInviteSent \<ge> MaxPending cfg"
        by blast
      then show ?thesis
      proof cases
        case 1 then show ?thesis using acc [OF es] by simp
      next
        case 2
        let ?e = "\<lparr>UeState = StateInviteSent, UePosition = pos, UeUpdateTime = now, UeMetadata = m\<rparr>"
        let ?e' = "\<lparr>UeState = StateInviteReceived, UePosition = pos, UeUpdateTime = now, UeMetadata = ''{}''\<rparr>"
        let ?b = "fmlookup (ftUsers st) friend = None \<or> ue_state es friend user = Some StateBlocked"
        show ?thesis
        proof (cases "if ?b then Some es else Option.bind (insert_ue (ftUsers st) user friend ?e es) (insert_ue (ftUsers st) friend user ?e')")
          case None
          then show ?thesis using assms(1) json es 2 acc [OF es] by (auto simp: addFriendTx_def)
        next
          case (Some es')
          have "before_clock pos' es'" by (rule ins [OF Some acc [OF es]]) simp_all
          moreover have "ftEdges st' = es'" using assms(1) json es 2 Some by (auto simp: addFriendTx_def Let_def)
          ultimately show ?thesis by simp
        qed
      qed
    qed
  qed
qed

subsection \<open>Blocking and deleting\<close>

lemma block_edge_state:
  assumes "block_edge now pos s d st = Some st1"
  shows "ue_state (ftEdges st1) x y = (if (x, y) = (s, d) then Some StateBlocked else ue_state (ftEdges st) x y)"
    and "edge_count (ftUsers st1) i = map_option (\<lambda>n. n +
      (if i = s then 1 - present (ue_state (ftEdges st) s d) else 0)) (edge_count (ftUsers st) i)"
    and "ue_state (ftEdges st) s d = None \<Longrightarrow> fmlookup (ftUsers st) s \<noteq> None \<and> fmlookup (ftUsers st) d \<noteq> None"
proof -
  have "(ue_state (ftEdges st1) x y = (if (x, y) = (s, d) then Some StateBlocked else ue_state (ftEdges st) x y)) \<and>
    edge_count (ftUsers st1) i = map_option (\<lambda>n. n +
      (if i = s then 1 - present (ue_state (ftEdges st) s d) else 0)) (edge_count (ftUsers st) i) \<and>
    (ue_state (ftEdges st) s d = None \<longrightarrow> fmlookup (ftUsers st) s \<noteq> None \<and> fmlookup (ftUsers st) d \<noteq> None)"
  proof (cases "ue_state (ftEdges st) s d")
    case None
    then obtain es where "insert_ue (ftUsers st) s d
        \<lparr>UeState = StateBlocked, UePosition = pos, UeUpdateTime = now, UeMetadata = ''{}''\<rparr> (ftEdges st) = Some es"
      "st1 = st\<lparr>ftEdges := es, ftUsers := raise_count s (ftUsers st)\<rparr>"
      using assms by (auto simp: block_edge_def)
    note es = this
    show ?thesis using None insert_ue_new [OF es(1)]
      by (simp add: es(2) insert_ue_state [OF es(1)] edge_laws option.map_ident)
  next
    case (Some c)
    then obtain es where es: "restate StateBlocked (\<lambda>e. e\<lparr>UeUpdateTime := now\<rparr>) (s, d) (ftEdges st) = Some es"
      "st1 = st\<lparr>ftEdges := es\<rparr>"
      using assms by (auto simp: block_edge_def)
    then show ?thesis using Some by (simp add: restate_state [OF es(1)] option.map_ident)
  qed
  then show "ue_state (ftEdges st1) x y = (if (x, y) = (s, d) then Some StateBlocked else ue_state (ftEdges st) x y)"
    and "edge_count (ftUsers st1) i = map_option (\<lambda>n. n +
      (if i = s then 1 - present (ue_state (ftEdges st) s d) else 0)) (edge_count (ftUsers st) i)"
    and "ue_state (ftEdges st) s d = None \<Longrightarrow> fmlookup (ftUsers st) s \<noteq> None \<and> fmlookup (ftUsers st) d \<noteq> None"
    by blast+
qed

text \<open>What a block leaves of the edge of the other side.\<close>

definition kept :: "int option \<Rightarrow> int option" where
  "kept b = (if b = Some StateBlocked then b else None)"

lemma open_edge_iff: "open_edge es s d \<longleftrightarrow> ue_state es s d \<noteq> None \<and> ue_state es s d \<noteq> Some StateBlocked"
  by (auto simp: open_edge_def split: option.splits)

lemma count_positive:
  assumes "friends_ok st" and "edge_count (ftUsers st) i = Some n" and "ue_state (ftEdges st) i x \<noteq> None"
  shows "n > 0"
  using assms deg_pos unfolding friends_ok_def counts_ok_deg by blast

text \<open>Two spellings of the UUID of one user, which the comparison of texts takes for two users.\<close>

definition two_spellings :: "friend_env \<Rightarrow> string \<Rightarrow> string \<Rightarrow> bool" where
  "two_spellings env s d \<longleftrightarrow> s \<noteq> d \<and> fe_uuid env s \<noteq> None \<and> fe_uuid env s = fe_uuid env d"

lemma BlockUser_cases:
  assumes op: "BlockUser env now pos st source destination = (st', r)" and ok: "friends_ok st"
    and ne: "\<not> two_spellings env source destination"
  obtains (Same) "st' = st"
  | (Block) s d where "fe_uuid env source = Some s" "fe_uuid env destination = Some d" "s \<noteq> d" "friends_ok st'"
      "\<forall>x y. ue_state (ftEdges st') x y = (if (x, y) = (s, d) then Some StateBlocked
         else if (x, y) = (d, s) then kept (ue_state (ftEdges st) d s) else ue_state (ftEdges st) x y)"
      "\<exists>st1. block_edge now pos s d st = Some st1 \<and> (ftEdges st' = ftEdges st1 \<or> ftEdges st' = fmdrop (d, s) (ftEdges st1))"
proof (cases "source = destination \<or> fe_uuid env source = None \<or> fe_uuid env destination = None")
  case True
  then show ?thesis using op by (intro Same) (auto simp: BlockUser_def split: option.splits if_splits)
next
  case False
  then obtain s d where u: "fe_uuid env source = Some s" "fe_uuid env destination = Some d" and ne': "source \<noteq> destination" by auto
  then have sd: "s \<noteq> d" using ne by (auto simp: two_spellings_def)
  note body = op [unfolded BlockUser_def u, simplified ne' if_False option.case prod.case]
  show ?thesis
  proof (cases "ue_state (ftEdges st) s d = None \<and> fmlookup (ftUsers st) d = None \<or> block_edge now pos s d st = None")
    case True then show ?thesis using body ne' by (intro Same) (auto split: if_splits)
  next
    case False
    then obtain st1 where st1: "block_edge now pos s d st = Some st1" by blast
    note b = block_edge_state [OF st1]
    have st': "st' = (if open_edge (ftEdges st1) d s
        then st1\<lparr>ftEdges := fmdrop (d, s) (ftEdges st1), ftUsers := drop_one d (ftUsers st1)\<rparr> else st1)"
      using body ne' False st1 by (auto split: if_splits)
    have new: "ue_state (ftEdges st') x y = (if (x, y) = (s, d) then Some StateBlocked
         else if (x, y) = (d, s) then kept (ue_state (ftEdges st) d s) else ue_state (ftEdges st) x y)" for x y
      using sd by (auto simp: st' b(1) edge_laws open_edge_iff kept_def)
    have ok': "edges_ok st" using ok by (simp add: friends_ok_def)
    have users: "fmlookup (ftUsers st) s \<noteq> None \<and> fmlookup (ftUsers st) d \<noteq> None"
      using b(3) edges_okD [OF ok', of s d] by (cases "ue_state (ftEdges st) s d") blast+
    have pair: "pair_ok st s d (Some StateBlocked) (kept (ue_state (ftEdges st) d s))"
      using users by (auto simp: pair_ok_def kept_def)
    have "friends_ok st'"
    proof (rule pair_change [OF ok sd new _ pair])
      fix i
      show "edge_count (ftUsers st') i = map_option (\<lambda>n. n +
        (if i = s then present (Some StateBlocked) - present (ue_state (ftEdges st) s d)
         else if i = d then present (kept (ue_state (ftEdges st) d s)) - present (ue_state (ftEdges st) d s) else 0))
        (edge_count (ftUsers st) i)"
      proof (cases "edge_count (ftUsers st) i")
        case None then show ?thesis by (auto simp: st' b(2) edge_laws)
      next
        case (Some n)
        have "n > 0" if "i = d" "open_edge (ftEdges st) d s"
          using count_positive [OF ok Some] that by (auto simp: open_edge_iff)
        then show ?thesis using Some sd
          by (auto simp: st' b edge_laws open_edge_iff kept_def present_def)
      qed
    qed
    then show ?thesis using Block [OF u sd] new st1 st' by auto
  qed
qed

lemma deleteFriendTx_state:
  assumes tx: "deleteFriendTx st u f = (st', notify)" and ok: "friends_ok st" and ne: "u \<noteq> f"
  shows "ue_state (ftEdges st') x y = (if (x, y) = (u, f) then None
         else if (x, y) = (f, u) then kept (ue_state (ftEdges st) f u) else ue_state (ftEdges st) x y)"
    and "friends_ok st'"
    and "notify \<Longrightarrow> open_edge (ftEdges st) f u"
proof -
  have ok': "edges_ok st" using ok by (simp add: friends_ok_def)
  have mutual: "ue_state (ftEdges st) u f \<noteq> None" if "open_edge (ftEdges st) f u"
    using that edges_okD [OF ok', of f u] by (auto simp: open_edge_iff)
  have keys: "remdups (filter (\<lambda>k. k = (u, f) \<and> ue_state (ftEdges st) u f \<noteq> None \<or>
        k = (f, u) \<and> open_edge (ftEdges st) f u) [(u, f), (f, u)]) =
      (if ue_state (ftEdges st) u f = None then [] else if open_edge (ftEdges st) f u then [(u, f), (f, u)] else [(u, f)])"
    using mutual ne by (cases "ue_state (ftEdges st) u f"; cases "open_edge (ftEdges st) f u") simp_all
  note body = tx [unfolded deleteFriendTx_def Let_def keys]
  have st': "st' = (if ue_state (ftEdges st) u f = None then st
    else if open_edge (ftEdges st) f u
      then st\<lparr>ftEdges := fmdrop (f, u) (fmdrop (u, f) (ftEdges st)), ftUsers := drop_one f (drop_one u (ftUsers st))\<rparr>
      else st\<lparr>ftEdges := fmdrop (u, f) (ftEdges st), ftUsers := drop_one u (ftUsers st)\<rparr>)"
    and n: "notify \<longleftrightarrow> ue_state (ftEdges st) u f \<noteq> None \<and> open_edge (ftEdges st) f u"
    using body by (cases "ue_state (ftEdges st) u f"; cases "open_edge (ftEdges st) f u"; simp)+
  have new: "ue_state (ftEdges st') x y = (if (x, y) = (u, f) then None
         else if (x, y) = (f, u) then kept (ue_state (ftEdges st) f u) else ue_state (ftEdges st) x y)" for x y
    using ne mutual by (auto simp: st' edge_laws open_edge_iff kept_def)
  show "ue_state (ftEdges st') x y = (if (x, y) = (u, f) then None
         else if (x, y) = (f, u) then kept (ue_state (ftEdges st) f u) else ue_state (ftEdges st) x y)"
    by (rule new)
  show "notify \<Longrightarrow> open_edge (ftEdges st) f u" using n by blast
  have pair: "pair_ok st u f None (kept (ue_state (ftEdges st) f u))"
    using edges_okD [OF ok', of f u] by (auto simp: pair_ok_def kept_def)
  show "friends_ok st'"
  proof (rule pair_change [OF ok ne new _ pair])
    fix i
    show "edge_count (ftUsers st') i = map_option (\<lambda>n. n +
        (if i = u then present None - present (ue_state (ftEdges st) u f)
         else if i = f then present (kept (ue_state (ftEdges st) f u)) - present (ue_state (ftEdges st) f u) else 0))
        (edge_count (ftUsers st) i)"
    proof (cases "edge_count (ftUsers st) i")
      case None then show ?thesis by (auto simp: st' edge_laws)
    next
      case (Some n)
      have "n > 0" if "i = f" "open_edge (ftEdges st) f u"
        using count_positive [OF ok Some] that by (auto simp: open_edge_iff)
      moreover have "n > 0" if "i = u" "ue_state (ftEdges st) u f \<noteq> None"
        using count_positive [OF ok Some] that by auto
      ultimately show ?thesis using Some ne mutual
        by (auto simp: st' edge_laws open_edge_iff kept_def present_def)
    qed
  qed
qed

lemma MetadataUpdate_state:
  assumes "FriendMetadataUpdate env now st user friend md = (st', r)"
  shows "ue_state (ftEdges st') x y = ue_state (ftEdges st) x y" and "ftUsers st' = ftUsers st"
  using assms by (auto simp: FriendMetadataUpdate_def ue_state_def split: option.splits if_splits)

lemma friends_ok_same:
  assumes "friends_ok st" and "\<And>x y. ue_state (ftEdges st') x y = ue_state (ftEdges st) x y" and "ftUsers st' = ftUsers st"
  shows "friends_ok st'"
proof -
  have "deg (ftEdges st') i = deg (ftEdges st) i" for i by (rule deg_cong) (rule assms(2))
  then show ?thesis using assms(1,3) by (simp add: friends_ok_def counts_ok_deg edges_ok_def assms(2))
qed

subsection \<open>Importing\<close>

lemma edge_count_lowered:
  "distinct js \<Longrightarrow> edge_count (fold (lower_count n) js us) i =
     (if i \<in> set js then map_option (\<lambda>c. max (c - n) 0) (edge_count us i) else edge_count us i)"
  by (induction js arbitrary: us) (auto simp: edge_laws)

lemma open_count:
  "int (length (filter (\<lambda>r. UeState (snd r) \<noteq> StateBlocked) (ue_rows es u))) = int (card {d. open_edge es u d})"
proof -
  have "{d. open_edge es u d} = {d. \<exists>e. fmlookup es (u, d) = Some e \<and> UeState (snd (d, e)) \<noteq> StateBlocked}"
    by (auto simp: open_edge_iff ue_state_def)
  then show ?thesis by (simp add: ue_rows_filter_length)
qed

lemma reset_state:
  assumes "edges_ok st"
  shows "ue_state (ftEdges (resetUserFriends st u)) x y =
    (if x = u \<or> y = u then kept (ue_state (ftEdges st) x y) else ue_state (ftEdges st) x y)"
proof -
  let ?es = "ftEdges st"
  let ?es1 = "fmfilter (\<lambda>k. \<not> (fst k = u \<and> open_edge ?es u (snd k))) ?es"
  have e: "ftEdges (resetUserFriends st u) = fmfilter (\<lambda>k. \<not> (snd k = u \<and> open_edge ?es1 (fst k) u)) ?es1"
    by (simp add: resetUserFriends_def Let_def)
  have open1: "open_edge ?es1 x u \<longleftrightarrow> x \<noteq> u \<and> open_edge ?es x u"
    using edges_okD [OF assms, of u u] by (simp add: open_edge_iff ue_state_filter) blast
  show ?thesis
    unfolding e ue_state_filter fst_conv snd_conv open1
    using edges_okD [OF assms, of u u] by (cases "x = u"; cases "y = u") (auto simp: open_edge_iff kept_def)
qed

lemma reset_clock:
  "before_clock pos (ftEdges st) \<Longrightarrow> before_clock pos (ftEdges (resetUserFriends st u))"
  by (auto simp: resetUserFriends_def Let_def before_clock_def fmlookup_filter split: if_splits)

lemma reset_users:
  assumes ok: "edges_ok st" and counts: "counts_ok st"
  shows "edge_count (ftUsers (resetUserFriends st u)) i =
    (if i = u then map_option (\<lambda>c. max (c - int (card {d. open_edge (ftEdges st) u d})) 0) (edge_count (ftUsers st) i)
     else if open_edge (ftEdges st) i u then map_option (\<lambda>c. max (c - 1) 0) (edge_count (ftUsers st) i)
     else edge_count (ftUsers st) i)"
    (is "?l = ?r")
proof -
  let ?es = "ftEdges st"
  let ?es1 = "fmfilter (\<lambda>k. \<not> (fst k = u \<and> open_edge ?es u (snd k))) ?es"
  let ?n = "length (filter (\<lambda>r. UeState (snd r) \<noteq> StateBlocked) (ue_rows ?es u))"
  let ?js = "map fst (filter (\<lambda>k. snd k = u \<and> open_edge ?es1 (fst k) u) (sorted_list_of_fset (fmdom ?es1)))"
  have open1: "open_edge ?es1 x u \<longleftrightarrow> x \<noteq> u \<and> open_edge ?es x u" for x
    using edges_okD [OF ok, of u u] by (auto simp: open_edge_iff edge_laws)
  have "distinct ?js"
    by (auto simp: distinct_map inj_on_def intro!: distinct_filter valid_order_distinct [OF valid_order_sorted])
  moreover have "set ?js = {x. x \<noteq> u \<and> open_edge ?es x u}"
  proof (intro set_eqI)
    fix x
    have js: "x \<in> set ?js \<longleftrightarrow> (\<exists>k. k |\<in>| fmdom ?es1 \<and> snd k = u \<and> open_edge ?es1 (fst k) u \<and> x = fst k)"
      by (simp only: set_map set_filter sorted_list_of_fset_simps image_iff mem_Collect_eq) blast
    show "x \<in> set ?js \<longleftrightarrow> x \<in> {x. x \<noteq> u \<and> open_edge ?es x u}"
    proof
      assume "x \<in> {x. x \<noteq> u \<and> open_edge ?es x u}"
      then have x: "open_edge ?es1 x u" unfolding open1 by blast
      then obtain e where "fmlookup ?es1 (x, u) = Some e" unfolding open_edge_iff ue_state_def by blast
      then have "(x, u) |\<in>| fmdom ?es1" by (rule fmdomI)
      with x show "x \<in> set ?js" unfolding js by (intro exI [of _ "(x, u)"]) simp
    next
      assume "x \<in> set ?js"
      then have "open_edge ?es1 x u" unfolding js by metis
      then show "x \<in> {x. x \<noteq> u \<and> open_edge ?es x u}" unfolding open1 by blast
    qed
  qed
  ultimately have lowered: "edge_count (fold (lower_count 1) ?js us) i =
      (if i \<noteq> u \<and> open_edge ?es i u then map_option (\<lambda>c. max (c - 1) 0) (edge_count us i) else edge_count us i)" for us
    by (simp only: edge_count_lowered mem_Collect_eq)
  have first: "edge_count (if ?n = 0 then ftUsers st else lower_count (int ?n) u (ftUsers st)) i =
      (if i = u \<and> ?n \<noteq> 0 then map_option (\<lambda>c. max (c - int ?n) 0) (edge_count (ftUsers st) i) else edge_count (ftUsers st) i)"
    by (simp add: edge_laws)
  have nonneg: "map_option (\<lambda>c. max (c - 0) 0) (edge_count (ftUsers st) i) = edge_count (ftUsers st) i"
  proof (cases "edge_count (ftUsers st) i")
    case (Some a)
    then have "a = deg (ftEdges st) i" using counts unfolding counts_ok_deg by blast
    then show ?thesis by (simp add: Some deg_def)
  qed simp
  have "?l = edge_count (fold (lower_count 1) ?js (if ?n = 0 then ftUsers st else lower_count (int ?n) u (ftUsers st))) i"
    by (simp add: resetUserFriends_def Let_def)
  also have "\<dots> = ?r"
    unfolding lowered first open_count [symmetric]
    using nonneg by (cases "i = u"; cases "?n = 0") simp_all
  finally show ?thesis .
qed

lemma reset_ok:
  assumes ok: "friends_ok st"
  shows "friends_ok (resetUserFriends st u)"
proof -
  let ?st = "resetUserFriends st u"
  have e: "edges_ok st" and c: "counts_ok st" using ok by (simp_all add: friends_ok_def)
  note new = reset_state [OF e, of u] and users = reset_users [OF e c, of u]
  have dom: "fmlookup (ftUsers ?st) i = None \<longleftrightarrow> fmlookup (ftUsers st) i = None" for i
    using users [of i] by (simp flip: edge_count_None)
  have "edges_ok ?st"
    unfolding edges_ok_def
  proof (intro allI impI)
    fix x y k assume "ue_state (ftEdges ?st) x y = Some k"
    then have old: "ue_state (ftEdges st) x y = Some k" "x = u \<or> y = u \<Longrightarrow> k = StateBlocked"
      by (auto simp: new kept_def split: if_splits)
    show "x \<noteq> y \<and> fmlookup (ftUsers ?st) x \<noteq> None \<and> fmlookup (ftUsers ?st) y \<noteq> None \<and>
      (k = StateBlocked \<or> k \<in> {StateFriend, StateInviteSent, StateInviteReceived} \<and>
        ue_state (ftEdges ?st) y x = Some (mirror k))"
    proof (cases "x = u \<or> y = u")
      case True
      show ?thesis using edges_okD [OF e old(1)] old(2) [OF True] unfolding dom by blast
    next
      case False
      then have "ue_state (ftEdges ?st) y x = ue_state (ftEdges st) y x" by (simp add: new)
      then show ?thesis using edges_okD [OF e old(1)] unfolding dom by simp
    qed
  qed
  moreover have "counts_ok ?st"
    unfolding counts_ok_deg
  proof (intro allI impI)
    fix i n assume n: "edge_count (ftUsers ?st) i = Some n"
    then obtain m where m: "edge_count (ftUsers st) i = Some m"
      unfolding users by (cases "edge_count (ftUsers st) i") (auto split: if_splits)
    then have old: "m = deg (ftEdges st) i" using c unfolding counts_ok_deg by blast
    show "n = deg (ftEdges ?st) i"
    proof (cases "i = u")
      case True
      have parts: "dom (ue_state (ftEdges st) u) = dom (ue_state (ftEdges ?st) u) \<union> {d. open_edge (ftEdges st) u d}"
        "dom (ue_state (ftEdges ?st) u) \<inter> {d. open_edge (ftEdges st) u d} = {}"
        by (auto simp: new open_edge_iff kept_def split: if_splits)
      have fin: "finite {d. open_edge (ftEdges st) u d}"
        by (rule finite_subset [OF _ finite_ends [of "ftEdges st" u]]) (use parts in blast)
      have "deg (ftEdges st) u = deg (ftEdges ?st) u + int (card {d. open_edge (ftEdges st) u d})"
        unfolding deg_def parts(1) using card_Un_disjoint [OF finite_ends fin parts(2)] by simp
      moreover have "deg (ftEdges ?st) u \<ge> 0" by (simp add: deg_def)
      ultimately show ?thesis using n m old True unfolding users by simp
    next
      case False
      have "deg (ftEdges ?st) i = deg (ftEdges st) i + present (kept (ue_state (ftEdges st) i u)) - present (ue_state (ftEdges st) i u)"
        by (rule deg_change) (simp add: new False)
      moreover have "deg (ftEdges st) i > 0" if "open_edge (ftEdges st) i u"
        by (rule deg_pos [of _ _ u]) (use that in \<open>simp add: open_edge_iff\<close>)
      ultimately show ?thesis using n m old False unfolding users
        by (cases "open_edge (ftEdges st) i u") (auto simp: open_edge_iff kept_def present_def split: if_splits)
    qed
  qed
  ultimately show ?thesis by (simp add: friends_ok_def)
qed

text \<open>Adding neither makes nor lifts a block, and only tells a user who does not block the sender.\<close>

lemma addFriendTx_blocks:
  assumes "addFriendTx env now pos st user friend md cfg = (st', r)"
    and "friends_ok st" and "user \<noteq> friend" and "before_clock pos (ftEdges st)"
    and "ue_state (ftEdges st) user friend \<noteq> Some StateBlocked"
  shows "ue_state (ftEdges st') x y = Some StateBlocked \<longleftrightarrow> ue_state (ftEdges st) x y = Some StateBlocked"
    and "r = Inr Accepted \<or> r = Inr Requested \<Longrightarrow> ue_state (ftEdges st) friend user \<noteq> Some StateBlocked"
proof -
  have ok: "edges_ok st" using assms(2) by (simp add: friends_ok_def)
  have "(ue_state (ftEdges st') x y = Some StateBlocked \<longleftrightarrow> ue_state (ftEdges st) x y = Some StateBlocked) \<and>
    (r = Inr Accepted \<or> r = Inr Requested \<longrightarrow> ue_state (ftEdges st) friend user \<noteq> Some StateBlocked)"
    using assms(1) ok assms(3-5)
  proof (cases rule: addFriendTx_cases)
    case Same then show ?thesis by blast
  next
    case Accept
    have "ue_state (ftEdges st') x y = (if (x, y) = (user, friend) then Some StateFriend
        else if (x, y) = (friend, user) then Some StateFriend else ue_state (ftEdges st) x y)"
      using Accept(5) by blast
    then show ?thesis using Accept(2,3) by (auto simp: state_nums)
  next
    case Request
    have "ue_state (ftEdges st') x y = (if (x, y) = (user, friend) then Some StateInviteSent
        else if (x, y) = (friend, user) then Some StateInviteReceived else ue_state (ftEdges st) x y)"
      using Request(7) by blast
    then show ?thesis using Request(2,3) by (auto simp: state_nums)
  qed
  then show "ue_state (ftEdges st') x y = Some StateBlocked \<longleftrightarrow> ue_state (ftEdges st) x y = Some StateBlocked"
    and "r = Inr Accepted \<or> r = Inr Requested \<Longrightarrow> ue_state (ftEdges st) friend user \<noteq> Some StateBlocked"
    by blast+
qed

lemma importFriends_ok:
  assumes "importFriendsByIDs env now pos i st u (Some u) ids meta = Some (st', imported)"
    and "friends_ok st" and "strict_mono pos" and "before_clock (pos i) (ftEdges st)"
    and "\<forall>f\<in>set ids. ue_state (ftEdges st) u f \<noteq> Some StateBlocked"
  shows "friends_ok st' \<and> (\<forall>x y. ue_state (ftEdges st') x y = Some StateBlocked \<longleftrightarrow> ue_state (ftEdges st) x y = Some StateBlocked) \<and>
    (\<forall>f\<in>set imported. f \<in> set ids \<and> ue_state (ftEdges st) f u \<noteq> Some StateBlocked)"
  using assms
proof (induction ids arbitrary: i st imported)
  case Nil then show ?case by simp
next
  case (Cons f ids)
  show ?case
  proof (cases "f = u")
    case True
    then have "importFriendsByIDs env now pos i st u (Some u) ids meta = Some (st', imported)"
      using Cons.prems(1) by simp
    moreover have "\<forall>f\<in>set ids. ue_state (ftEdges st) u f \<noteq> Some StateBlocked" using Cons.prems(5) by simp
    ultimately show ?thesis using Cons.IH [OF _ Cons.prems(2-4), of imported] by (meson list.set_intros(2))
  next
    case False
    obtain st1 r where tx: "addFriendTx env now (pos i) st u f meta DefaultConfig = (st1, r)" by fastforce
    have free: "ue_state (ftEdges st) u f \<noteq> Some StateBlocked" using Cons.prems(5) by simp
    have ne: "u \<noteq> f" using False by blast
    note ok1 = addFriendTx_ok [OF tx Cons.prems(2) ne Cons.prems(4) free]
    note bl = addFriendTx_blocks [OF tx Cons.prems(2) ne Cons.prems(4) free]
    have clock1: "before_clock (pos (Suc i)) (ftEdges st1)"
      by (rule addFriendTx_clock [OF tx Cons.prems(4)]) (simp add: Cons.prems(3) strict_monoD)
    have free1: "\<forall>f\<in>set ids. ue_state (ftEdges st1) u f \<noteq> Some StateBlocked" using Cons.prems(5) bl(1) by simp
    have "\<exists>imp. importFriendsByIDs env now pos (Suc i) st1 u (Some u) ids meta = Some (st', imp) \<and>
      (imported = imp \<or> imported = f # imp \<and> (r = Inr Accepted \<or> r = Inr Requested))"
    proof (cases r)
      case (Inl err) then show ?thesis using Cons.prems(1) False tx by (auto split: if_splits)
    next
      case (Inr out)
      then show ?thesis using Cons.prems(1) False tx by (cases out) auto
    qed
    then obtain imp where imp: "importFriendsByIDs env now pos (Suc i) st1 u (Some u) ids meta = Some (st', imp)"
      "imported = imp \<or> imported = f # imp \<and> (r = Inr Accepted \<or> r = Inr Requested)" by blast
    note rest = Cons.IH [OF imp(1) ok1 Cons.prems(3) clock1 free1]
    have "f' \<in> set (f # ids) \<and> ue_state (ftEdges st) f' u \<noteq> Some StateBlocked" if "f' \<in> set imported" for f'
    proof (cases "f' \<in> set imp")
      case True
      then have "f' \<in> set ids" "ue_state (ftEdges st1) f' u \<noteq> Some StateBlocked" using rest by blast+
      then show ?thesis using bl(1) by simp
    next
      case False
      then have "f' = f" "r = Inr Accepted \<or> r = Inr Requested" using that imp(2) by auto
      then show ?thesis using bl(2) by simp
    qed
    moreover have "friends_ok st'" using rest by blast
    moreover have "ue_state (ftEdges st') x y = Some StateBlocked \<longleftrightarrow> ue_state (ftEdges st) x y = Some StateBlocked" for x y
      using rest bl(1) by blast
    ultimately show ?thesis by blast
  qed
qed

subsection \<open>Runs\<close>

text \<open>
  The operations as clients call them, one at a time with a clock that advances.  \<open>op_ok\<close> leaves out what breaks
  the invariant: adding or blocking oneself by another spelling of the own UUID (\<open>self_edge\<close>), and an import that
  finds a user the importing user blocks (\<open>import_past_block\<close>).  New users appear in between; nothing in the
  repository deletes one.  The importing user and the users found are given by
  the texts the database prints.
\<close>

datatype friend_op =
    AddOp string string string friend_config
  | BlockOp string string
  | DeleteOp string string
  | MetadataOp string string "string option"
  | ImportOp string "friend_user \<Rightarrow> string" "string list" string bool

fun friend_exec ::
  "friend_env \<Rightarrow> gotime \<Rightarrow> (nat \<Rightarrow> int) \<Rightarrow> friend_tables \<Rightarrow> friend_op \<Rightarrow> friend_tables \<times> friend_call list" where
  "friend_exec env now pos st (AddOp s d md cfg) =
     (case AddFriendWithOpts env now (pos 0) st s d md cfg of (st', calls, _) \<Rightarrow> (st', calls))"
| "friend_exec env now pos st (BlockOp s d) = (fst (BlockUser env now (pos 0) st s d), [])"
| "friend_exec env now pos st (DeleteOp s d) = (case DeleteFriend env st s d of (st', calls, _) \<Rightarrow> (st', calls))"
| "friend_exec env now pos st (MetadataOp s d md) = (fst (FriendMetadataUpdate env now st s d md), [])"
| "friend_exec env now pos st (ImportOp u column ids provider reset) =
     (case import_friends env now pos st u column ids provider reset of (st', calls, _) \<Rightarrow> (st', calls))"

fun op_ok :: "friend_env \<Rightarrow> friend_tables \<Rightarrow> friend_op \<Rightarrow> bool" where
  "op_ok env st (AddOp s d md cfg) = (\<not> two_spellings env s d)"
| "op_ok env st (BlockOp s d) = (\<not> two_spellings env s d)"
| "op_ok env st (DeleteOp s d) = True"
| "op_ok env st (MetadataOp s d md) = True"
| "op_ok env st (ImportOp u column ids provider reset) =
     (fe_uuid env u = Some u \<and>
      (\<forall>f \<in> set (matchUsersByProviderIDs column (ftUsers (if reset then resetUserFriends st u else st)) ids).
         fe_uuid env f = Some f \<and> ue_state (ftEdges st) u f \<noteq> Some StateBlocked))"

inductive friend_run ::
  "friend_env \<Rightarrow> friend_tables \<Rightarrow> (friend_op \<times> friend_call list) list \<Rightarrow> friend_tables \<Rightarrow> bool" for env st0 where
  friend_run_start: "friend_run env st0 [] st0"
| friend_run_step: "friend_run env st0 tr st \<Longrightarrow> strict_mono pos \<Longrightarrow> before_clock (pos 0) (ftEdges st) \<Longrightarrow> op_ok env st op
    \<Longrightarrow> friend_exec env now pos st op = (st', calls) \<Longrightarrow> friend_run env st0 (tr @ [(op, calls)]) st'"
| friend_run_user: "friend_run env st0 tr st \<Longrightarrow> fmlookup (ftUsers st) i = None \<Longrightarrow> FuEdgeCount u = 0 \<Longrightarrow>
    friend_run env st0 tr (st\<lparr>ftUsers := fmupd i u (ftUsers st)\<rparr>)"

text \<open>An operation other than its owner's delete keeps a block, and nobody hears of a user he blocks.\<close>

definition lifts :: "friend_env \<Rightarrow> friend_op \<Rightarrow> string \<Rightarrow> string \<Rightarrow> bool" where
  "lifts env op u f = (case op of DeleteOp s d \<Rightarrow> fe_uuid env s = Some u \<and> fe_uuid env d = Some f | _ \<Rightarrow> False)"

definition step_ok :: "friend_env \<Rightarrow> friend_tables \<Rightarrow> friend_op \<Rightarrow> friend_tables \<Rightarrow> friend_call list \<Rightarrow> bool" where
  "step_ok env st op st' calls =
     (friends_ok st' \<and>
      (\<forall>u f. ue_state (ftEdges st) u f = Some StateBlocked \<longrightarrow> lifts env op u f \<or> ue_state (ftEdges st') u f = Some StateBlocked) \<and>
      (\<forall>r c s u f. (r, c, s) \<in> set calls \<longrightarrow> fe_uuid env r = Some u \<longrightarrow> fe_uuid env s = Some f \<longrightarrow>
         ue_state (ftEdges st) u f \<noteq> Some StateBlocked))"

lemma step_ok_same: "friends_ok st \<Longrightarrow> step_ok env st op st []"
  by (simp add: step_ok_def)

lemma AddFriend_step:
  assumes op: "AddFriendWithOpts env now pos st s d md cfg = (st', calls, r)" and ok: "friends_ok st"
    and ne: "\<not> two_spellings env s d" and clock: "before_clock pos (ftEdges st)"
  shows "step_ok env st (AddOp s d md cfg) st' calls"
proof (cases "s = d \<or> fe_uuid env s = None \<or> fe_uuid env d = None")
  case True
  then have "st' = st \<and> calls = []" using op by (auto simp: AddFriendWithOpts_def split: option.splits if_splits)
  then show ?thesis using step_ok_same [OF ok] by simp
next
  case False
  then obtain u f where u: "fe_uuid env s = Some u" "fe_uuid env d = Some f" and sd: "s \<noteq> d" by auto
  then have uf: "u \<noteq> f" using ne by (auto simp: two_spellings_def)
  show ?thesis
  proof (cases "ue_state (ftEdges st) u f = Some StateBlocked")
    case True
    then have "st' = st \<and> calls = []" using op u sd by (auto simp: AddFriendWithOpts_def)
    then show ?thesis using step_ok_same [OF ok] by simp
  next
    case free: False
    obtain st1 out where tx: "addFriendTx env now pos st u f (if md = [] then ''{}'' else md) (friend_limits cfg) = (st1, out)"
      by fastforce
    note ok1 = addFriendTx_ok [OF tx ok uf clock free] and bl = addFriendTx_blocks [OF tx ok uf clock free]
    show ?thesis
    proof (cases out)
      case (Inl e)
      then have "st' = st \<and> calls = []" using op u sd free tx by (auto simp: AddFriendWithOpts_def)
      then show ?thesis using step_ok_same [OF ok] by simp
    next
      case (Inr o')
      then have "st' = st1" and "calls = [] \<or> (\<exists>c. calls = [(d, c, s)]) \<and> (out = Inr Accepted \<or> out = Inr Requested)"
        using op u sd free tx by (cases o'; auto simp: AddFriendWithOpts_def)+
      then show ?thesis using ok1 bl u by (auto simp: step_ok_def)
    qed
  qed
qed

lemma BlockUser_step:
  assumes "BlockUser env now pos st s d = (st', r)" and ok: "friends_ok st" and "\<not> two_spellings env s d"
  shows "step_ok env st (BlockOp s d) st' []"
  using assms
proof (cases rule: BlockUser_cases)
  case Same then show ?thesis using step_ok_same [OF ok] by simp
next
  case (Block u f)
  then show ?thesis by (auto simp: step_ok_def kept_def)
qed

lemma DeleteFriend_step:
  assumes op: "DeleteFriend env st s d = (st', calls, r)" and ok: "friends_ok st"
  shows "step_ok env st (DeleteOp s d) st' calls"
proof (cases "fe_uuid env s = None \<or> fe_uuid env d = None")
  case True
  then have "st' = st \<and> calls = []" using op by (auto simp: DeleteFriend_def split: option.splits)
  then show ?thesis using step_ok_same [OF ok] by simp
next
  case False
  then obtain u f where u: "fe_uuid env s = Some u" "fe_uuid env d = Some f" by auto
  show ?thesis
  proof (cases "u = f")
    case True
    have "ue_state (ftEdges st) u u = None"
      using edges_okD [of st u u] ok by (cases "ue_state (ftEdges st) u u") (auto simp: friends_ok_def)
    then have "deleteFriendTx st u f = (st, False)" using True by (simp add: deleteFriendTx_def open_edge_def)
    then have "st' = st \<and> calls = []" using op u by (auto simp: DeleteFriend_def)
    then show ?thesis using step_ok_same [OF ok] by simp
  next
    case uf: False
    obtain st1 n where tx: "deleteFriendTx st u f = (st1, n)" by fastforce
  note d = deleteFriendTx_state [OF tx ok uf]
  have "st' = st1" "calls = (if n then [(d, NotificationCodeFriendRemove, s)] else [])"
    using op u tx by (auto simp: DeleteFriend_def)
  moreover have "ue_state (ftEdges st1) x y = Some StateBlocked \<or> x = u \<and> y = f"
    if "ue_state (ftEdges st) x y = Some StateBlocked" for x y
    using that by (auto simp: d(1) kept_def)
  ultimately show ?thesis using d(2,3) u by (auto simp: step_ok_def lifts_def open_edge_iff)
  qed
qed

lemma Metadata_step:
  assumes "FriendMetadataUpdate env now st s d md = (st', r)" and "friends_ok st"
  shows "step_ok env st (MetadataOp s d md) st' []"
  using friends_ok_same [OF assms(2) MetadataUpdate_state [OF assms(1)]] MetadataUpdate_state(1) [OF assms(1)]
  by (simp add: step_ok_def)

lemma Import_step:
  assumes op: "import_friends env now pos st u column ids provider reset = (st', calls, r)" and ok: "friends_ok st"
    and guard: "op_ok env st (ImportOp u column ids provider reset)"
    and "strict_mono pos" and clock: "before_clock (pos 0) (ftEdges st)"
  shows "step_ok env st (ImportOp u column ids provider reset) st' calls"
proof -
  let ?st1 = "if reset then resetUserFriends st u else st"
  let ?found = "matchUsersByProviderIDs column (ftUsers ?st1) ids"
  have u: "fe_uuid env u = Some u" using guard by simp
  have e: "edges_ok st" using ok by (simp add: friends_ok_def)
  show ?thesis
  proof (cases "ids = [] \<and> \<not> reset \<or> importFriendsByIDs env now pos 0 ?st1 u (Some u) ?found (import_meta provider) = None")
    case True
    then have "st' = st \<and> calls = []" using op u by (auto simp: import_friends_def split: if_splits)
    then show ?thesis using step_ok_same [OF ok] by simp
  next
    case False
    then obtain st2 imp where imp: "importFriendsByIDs env now pos 0 ?st1 u (Some u) ?found (import_meta provider) = Some (st2, imp)"
      by fastforce
    have st': "st' = st2" "calls = map (\<lambda>fid. (fid, NotificationCodeFriendImport, u)) imp"
      using op u imp False by (auto simp: import_friends_def Let_def split: if_splits)
    have ok1: "friends_ok ?st1" using ok reset_ok by simp
    have clock1: "before_clock (pos 0) (ftEdges ?st1)" using clock reset_clock by simp
    have same: "ue_state (ftEdges ?st1) x y = Some StateBlocked \<longleftrightarrow> ue_state (ftEdges st) x y = Some StateBlocked" for x y
      by (auto simp: reset_state [OF e] kept_def)
    have free: "\<forall>f\<in>set ?found. ue_state (ftEdges ?st1) u f \<noteq> Some StateBlocked"
      using guard unfolding same by simp
    note all = importFriends_ok [OF imp ok1 \<open>strict_mono pos\<close> clock1 free]
    have told: "ue_state (ftEdges st) x y \<noteq> Some StateBlocked"
      if "(f, c, v) \<in> set calls" "fe_uuid env f = Some x" "fe_uuid env v = Some y" for f c v x y
    proof -
      have f: "f \<in> set imp" "v = u" using that(1) unfolding st'(2) by auto
      then have "f \<in> set ?found" "ue_state (ftEdges ?st1) f u \<noteq> Some StateBlocked" using all by blast+
      moreover have "fe_uuid env f = Some f" using guard \<open>f \<in> set ?found\<close> by simp
      ultimately show ?thesis using that(2,3) u f(2) same by simp
    qed
    have keeps: "ue_state (ftEdges st') x y = Some StateBlocked \<longleftrightarrow> ue_state (ftEdges st) x y = Some StateBlocked" for x y
      using all same unfolding st'(1) by blast
    have "friends_ok st'" using all unfolding st'(1) by blast
    then show ?thesis using keeps told unfolding step_ok_def by blast
  qed
qed

lemma friend_exec_step:
  assumes "friend_exec env now pos st op = (st', calls)" and "friends_ok st" and "op_ok env st op"
    and "strict_mono pos" and "before_clock (pos 0) (ftEdges st)"
  shows "step_ok env st op st' calls"
proof (cases op)
  case (AddOp s d md cfg)
  with assms show ?thesis by (auto split: prod.splits intro: AddFriend_step)
next
  case (BlockOp s d)
  with assms show ?thesis by (auto intro: BlockUser_step [OF prod.collapse [symmetric]])
next
  case (DeleteOp s d)
  with assms show ?thesis by (auto split: prod.splits intro: DeleteFriend_step)
next
  case (MetadataOp s d md)
  with assms show ?thesis by (auto intro: Metadata_step [OF prod.collapse [symmetric]])
next
  case (ImportOp u column ids provider reset)
  with assms show ?thesis by (auto split: prod.splits intro: Import_step simp del: op_ok.simps)
qed


definition friend_init :: "friend_tables \<Rightarrow> bool" where
  "friend_init st \<longleftrightarrow> ftEdges st = fmempty \<and> (\<forall>i u. fmlookup (ftUsers st) i = Some u \<longrightarrow> FuEdgeCount u = 0)"

lemma friend_init_ok: "friend_init st \<Longrightarrow> friends_ok st"
proof -
  have "dom (ue_state fmempty i) = {}" for i by (simp add: ue_state_def dom_def)
  then show "friend_init st \<Longrightarrow> friends_ok st"
    by (auto simp: friend_init_def friends_ok_def edges_ok_def counts_ok_def ue_state_def ue_rows_length deg_def)
qed

lemma new_user_ok:
  assumes ok: "friends_ok st" and new: "fmlookup (ftUsers st) i = None" and u: "FuEdgeCount u = 0"
  shows "friends_ok (st\<lparr>ftUsers := fmupd i u (ftUsers st)\<rparr>)"
proof -
  have e: "edges_ok st" and c: "counts_ok st" using ok by (simp_all add: friends_ok_def)
  have "ue_state (ftEdges st) i d = None" for d
    using edges_okD [OF e, of i d] new by (cases "ue_state (ftEdges st) i d") auto
  then have "deg (ftEdges st) i = 0" by (simp add: deg_def dom_def)
  then have "counts_ok (st\<lparr>ftUsers := fmupd i u (ftUsers st)\<rparr>)"
    using c u by (auto simp: counts_ok_def ue_rows_length)
  moreover have "edges_ok (st\<lparr>ftUsers := fmupd i u (ftUsers st)\<rparr>)"
    unfolding edges_ok_def
  proof (intro allI impI)
    fix s d k
    assume "ue_state (ftEdges (st\<lparr>ftUsers := fmupd i u (ftUsers st)\<rparr>)) s d = Some k"
    then have "ue_state (ftEdges st) s d = Some k" by simp
    from edges_okD [OF e this] show "s \<noteq> d \<and> fmlookup (ftUsers (st\<lparr>ftUsers := fmupd i u (ftUsers st)\<rparr>)) s \<noteq> None \<and>
        fmlookup (ftUsers (st\<lparr>ftUsers := fmupd i u (ftUsers st)\<rparr>)) d \<noteq> None \<and>
        (k = StateBlocked \<or> k \<in> {StateFriend, StateInviteSent, StateInviteReceived} \<and>
         ue_state (ftEdges (st\<lparr>ftUsers := fmupd i u (ftUsers st)\<rparr>)) d s = Some (mirror k))"
      by simp
  qed
  ultimately show ?thesis by (simp add: friends_ok_def)
qed

lemma friend_run_ok: "friend_run env st0 tr st \<Longrightarrow> friends_ok st0 \<Longrightarrow> friends_ok st"
proof (induction rule: friend_run.induct)
  case (friend_run_step tr st pos op now st' calls)
  then have "step_ok env st op st' calls" by (intro friend_exec_step) simp_all
  then show ?case by (simp add: step_ok_def)
next
  case (friend_run_user tr st i u)
  then show ?case by (intro new_user_ok) simp_all
qed simp

subsection \<open>Examples\<close>

definition demo_fenv :: friend_env where
  "demo_fenv = \<lparr>fe_uuid = (\<lambda>s. Some (if s = ''A'' then ''a'' else s)), fe_json = Some, fe_concat = (@)\<rparr>"

definition demo_player :: "string \<Rightarrow> friend_user" where
  "demo_player i = \<lparr>FuUsername = i, FuEdgeCount = 0, FuFacebookID = ''fb-'' @ i, FuSteamID = []\<rparr>"

definition demo_ft :: friend_tables where
  "demo_ft = \<lparr>ftEdges = fmempty, ftUsers = fmap_of_list (map (\<lambda>i. (i, demo_player i)) [''a'', ''b'', ''c''])\<rparr>"

lemma demo_ft_init: "friend_init demo_ft"
  by (simp add: friend_init_def demo_ft_def fmlookup_of_list demo_player_def split: if_splits)

definition clock_check :: "int \<Rightarrow> user_edges \<Rightarrow> bool" where
  "clock_check pos es = list_all (\<lambda>k. case fmlookup es k of None \<Rightarrow> True | Some e \<Rightarrow> UePosition e < pos)
     (sorted_list_of_fset (fmdom es))"

lemma clock_check: "clock_check pos es \<Longrightarrow> before_clock pos es"
  unfolding before_clock_def
proof (intro allI impI)
  fix k e assume "clock_check pos es" "fmlookup es k = Some e"
  moreover from this have "k \<in> set (sorted_list_of_fset (fmdom es))" by (simp add: fmdomI)
  ultimately show "UePosition e < pos" unfolding clock_check_def list_all_iff by fastforce
qed

text \<open>A run by operations, ten ticks of the clock each.\<close>

fun friend_play ::
  "friend_env \<Rightarrow> nat \<Rightarrow> friend_tables \<Rightarrow> friend_op list \<Rightarrow> ((friend_op \<times> friend_call list) list \<times> friend_tables) option" where
  "friend_play env i st [] = Some ([], st)"
| "friend_play env i st (op # ops) =
     (if op_ok env st op \<and> clock_check (int (10 * i)) (ftEdges st)
      then case friend_exec env 0 (\<lambda>j. int (10 * i + j)) st op of
        (st', calls) \<Rightarrow> map_option (\<lambda>r. ((op, calls) # fst r, snd r)) (friend_play env (i + 1) st' ops)
      else None)"

lemma friend_play_run:
  "friend_play env i st ops = Some (tr, st') \<Longrightarrow> friend_run env st0 tr0 st \<Longrightarrow> friend_run env st0 (tr0 @ tr) st'"
proof (induction ops arbitrary: i st tr tr0)
  case Nil then show ?case by simp
next
  case (Cons op ops)
  obtain st1 calls where x: "friend_exec env 0 (\<lambda>j. int (10 * i + j)) st op = (st1, calls)" by fastforce
  from Cons.prems(1) have g: "op_ok env st op" "clock_check (int (10 * i)) (ftEdges st)"
    by (simp_all split: if_splits)
  from Cons.prems(1) g x obtain tr1 where tr1: "friend_play env (i + 1) st1 ops = Some (tr1, st')" "tr = (op, calls) # tr1"
    by auto
  have "friend_run env st0 (tr0 @ [(op, calls)]) st1"
    by (rule friend_run_step [OF Cons.prems(2) _ _ g(1) x])
      (use clock_check [OF g(2)] in \<open>simp_all add: strict_mono_def\<close>)
  from Cons.IH [OF tr1(1) this] show ?case by (simp add: tr1(2))
qed

definition demo_ops :: "friend_op list" where
  "demo_ops = [AddOp ''a'' ''b'' [] DefaultConfig, AddOp ''b'' ''a'' [] DefaultConfig, AddOp ''c'' ''a'' [] DefaultConfig,
     BlockOp ''b'' ''c'']"

definition demo_attack :: "friend_op list" where
  "demo_attack = [AddOp ''c'' ''b'' [] DefaultConfig, ImportOp ''c'' FuFacebookID [''fb-a'', ''fb-b''] ''Facebook'' True,
     DeleteOp ''c'' ''b'']"

lemma demo_ops_end:
  "case friend_play demo_fenv 1 demo_ft demo_ops of None \<Rightarrow> False
   | Some (tr, st) \<Rightarrow> ue_state (ftEdges st) ''a'' ''b'' = Some StateFriend \<and>
       ue_state (ftEdges st) ''b'' ''c'' = Some StateBlocked \<and>
       (case friend_play demo_fenv 9 st demo_attack of None \<Rightarrow> False | Some (tr', st') \<Rightarrow> list_all (\<lambda>r. \<not> lifts demo_fenv (fst r) ''b'' ''c'') tr')"
  by code_simp

subsection \<open>The properties\<close>

text \<open>C26: friendships are mutual and counted: in every run of the operations from empty edges, one at a time with a
  clock that advances, in which nobody adds or blocks himself by another spelling of his UUID and no import finds
  a user the importing user blocks, each edge that is not a block has its mirror image, so a friend has a friend
  and an invitation sent an invitation received, nobody has an edge to himself, and the edge count of every user
  is the number of the user's edges.\<close>

theorem friendships_consistent:
  assumes "friend_init st0" and "friend_run env st0 tr st"
  shows "(\<forall>s d c. ue_state (ftEdges st) s d = Some c \<longrightarrow> s \<noteq> d \<and> (c = StateBlocked \<or> ue_state (ftEdges st) d s = Some (mirror c))) \<and>
    (\<forall>i u. fmlookup (ftUsers st) i = Some u \<longrightarrow> FuEdgeCount u = int (length (ue_rows (ftEdges st) i)))"
proof -
  have ok: "friends_ok st" by (rule friend_run_ok [OF assms(2) friend_init_ok [OF assms(1)]])
  then have "edges_ok st" by (simp add: friends_ok_def)
  moreover have "counts_ok st" using ok by (simp add: friends_ok_def)
  ultimately show ?thesis unfolding counts_ok_def using edges_okD by blast
qed

theorem friendships_consistent_witness:
  "\<exists>tr st. friend_run demo_fenv demo_ft tr st \<and> ue_state (ftEdges st) ''a'' ''b'' = Some StateFriend \<and>
     ue_state (ftEdges st) ''b'' ''a'' = Some (mirror StateFriend)"
proof -
  obtain tr st where r: "friend_play demo_fenv 1 demo_ft demo_ops = Some (tr, st)" "ue_state (ftEdges st) ''a'' ''b'' = Some StateFriend"
    using demo_ops_end by (auto split: option.splits)
  have run: "friend_run demo_fenv demo_ft tr st"
    using friend_play_run [OF r(1) friend_run_start] by simp
  then show ?thesis using friendships_consistent [OF demo_ft_init run] r(2) by (metis state_nums(1,4) zero_neq_numeral)
qed



subsection \<open>Where the guards are missing\<close>

text \<open>The import does not look at the importer's own blocks: the blocked user is invited, and when he accepts he
  has a friend whose side is a block; the count of the importer is one too high.\<close>

lemma import_past_block:
  "let st1 = fst (BlockUser demo_fenv 0 1 demo_ft ''a'' ''c'');
       (st2, calls, r) = import_friends demo_fenv 0 (\<lambda>j. 5 + int j) st1 ''a'' FuFacebookID [''fb-c''] ''Facebook'' False;
       st3 = fst (AddFriend demo_fenv 0 9 st2 ''c'' ''a'') in
   r = Inr () \<and> calls = [(''c'', NotificationCodeFriendImport, ''a'')] \<and>
   ue_state (ftEdges st2) ''c'' ''a'' = Some StateInviteReceived \<and> ue_state (ftEdges st3) ''c'' ''a'' = Some StateFriend \<and>
   ue_state (ftEdges st3) ''a'' ''c'' = Some StateBlocked \<and>
   edge_count (ftUsers st3) ''a'' = Some 2 \<and> length (ue_rows (ftEdges st3) ''a'') = 1"
  by code_simp

text \<open>The check against oneself compares the texts: another spelling of the own UUID makes an edge to oneself.\<close>

lemma self_edge:
  "let st1 = fst (AddFriend demo_fenv 0 1 demo_ft ''A'' ''a'') in
   ue_state (ftEdges st1) ''a'' ''a'' = Some StateInviteSent"
  by code_simp

text \<open>Accepting does not look at the limits of either user.\<close>

lemma accept_past_limit:
  "let cfg = \<lparr>MaxFriends = 1, MaxPending = 100\<rparr>;
       add = (\<lambda>t s d st. fst (AddFriendWithOpts demo_fenv 0 t st s d [] cfg));
       st = add 4 ''c'' ''a'' (add 3 ''b'' ''a'' (add 2 ''a'' ''c'' (add 1 ''a'' ''b'' demo_ft))) in
   countEdges (ftEdges st) ''a'' StateFriend = 2"
  by code_simp

text \<open>Rejecting an invitation is notified as the removal of a friend.\<close>

lemma reject_reads_as_removal:
  "let st = fst (AddFriend demo_fenv 0 1 demo_ft ''a'' ''b'') in
   fst (snd (DeleteFriend demo_fenv st ''b'' ''a'')) = [(''a'', NotificationCodeFriendRemove, ''b'')]"
  by code_simp

text \<open>The pages of the friends of another service may never end: as long as a page names a next one the loop
  goes on, also when the cursor is the empty text that asks for the first page again.\<close>

lemma pages_may_never_end:
  assumes "\<And>after. get token after = Some \<lparr>FbData = ids, FbNext = ''next'', FbAfter = []\<rparr>"
  shows "fb_pages fuel get token friends after = None"
  by (induction fuel arbitrary: friends after) (simp_all add: assms)

end
