(* ===== verification/Spec2Isabelle.thy ===== *)
theory Spec2Isabelle
  imports Presence_Tracker Status_Registry Party_Props Wallet_Props Session_Props Matchmaker_Token
    ACL Lockout Storage_List Cron_Props Tournament_Props Social_Group_Props Friends_Props
begin

section \<open>A verified model of the game server core\<close>

text \<open>
  The repository is a multiplayer game server in Go: HTTP, gRPC and WebSocket front ends
  (\<open>internal/api\<close>, \<open>internal/socket\<close>), an admin console, and behind them components that keep the
  state of players: presences, parties, matchmaking, wallets, storage, sessions and schedules.
  The development models these components from their Go sources and leaves the front ends, the
  script runtimes and external services out.  Each component is a group of definitions with the
  names of the source; all are executable.

  \<^bold>\<open>Theories and sources\<close> (paths under \<open>src/internal/\<close>).
  \<^item> \<open>Prelude\<close>, \<open>Paging\<close>, \<open>Base64\<close>, \<open>Civil_Time\<close>: shared vocabulary.  Maps, iteration orders and
    two-level maps with the locale \<open>nested_store\<close>; paging with the locale of cursors; the base64
    text of bitmaps; Go's calendar in UTC.
  \<^item> \<open>Presence_Tracker\<close> (\<open>presence/stream_tracker.go\<close>), \<open>Online_Index\<close> (\<open>presence/online_index.go\<close>),
    \<open>Status_Registry\<close> (\<open>presence/status_registry.go\<close>, \<open>message_router.go\<close>): which session is on
    which stream, who is online, who follows whom.
  \<^item> \<open>Party\<close> (\<open>party/party.go\<close>) with \<open>Party_Inv\<close>, \<open>Party_Ops\<close>, \<open>Party_Steps\<close>, \<open>Party_Props\<close>: the
    registry of parties, its step relation and invariants.
  \<^item> \<open>Matchmaker\<close> (\<open>matchmaker/matchmaker.go\<close>) and \<open>Matchmaker_Process\<close> (\<open>matchmaker/process.go\<close>)
    with \<open>Matchmaker_Inv\<close>, \<open>_Groups\<close>, \<open>_Tick\<close>, \<open>_Props\<close>, \<open>_Token\<close>: ticket pool, the tick that forms
    matches, match tokens, rate limit.
  \<^item> \<open>Wallet\<close>, \<open>Wallet_Props\<close> (\<open>economy/wallet.go\<close>): balances on 64-bit words and the ledger.
  \<^item> \<open>Session_Store\<close>, \<open>Session_Props\<close> (\<open>auth/session_store.go\<close>, the refresh handler of
    \<open>api/server.go\<close>): refresh-token rotation behind the locale \<open>session_store\<close>.
  \<^item> \<open>Lockout\<close> (\<open>auth/security.go\<close>, the login handler of \<open>api/server.go\<close>): failed-login limits.
  \<^item> \<open>ACL\<close> (\<open>console/acl/acl.go\<close>, permission checks of \<open>console/console.go\<close>).
  \<^item> \<open>Storage\<close>, \<open>Storage_Props\<close>, \<open>Storage_List\<close> (\<open>storage/storage.go\<close>, \<open>storage/storage_tx.go\<close>):
    writes, deletes, reads and lists on the storage table.
  \<^item> \<open>Cron\<close>, \<open>Cron_Parse\<close> (\<open>cronexpr/*.go\<close>) with \<open>Cron_Days\<close>, \<open>Cron_Next\<close>, \<open>Cron_Last\<close>,
    \<open>Cron_Props\<close>: schedules of leaderboards and hooks.
  \<^item> \<open>Skip_List\<close>, \<open>Skip_Rep\<close>, \<open>Skip_Props\<close> (the skip list of \<open>leaderboard/admin.go\<close>), \<open>Rank_Cache\<close>
    (\<open>leaderboard/rank_cache.go\<close>, \<open>rank_blacklist.go\<close>) and \<open>Rank_Index\<close>, the contract of a rank index
    as a locale with the skip list as its interpretation.
  \<^item> \<open>Deadlines\<close> (\<open>leaderboard/deadlines.go\<close>), \<open>Leaderboard\<close>, \<open>Leaderboard_Records\<close>,
    \<open>Leaderboard_Admin\<close> (\<open>leaderboard/*.go\<close>), \<open>Tournament\<close> (\<open>tournament/tournament.go\<close>);
    \<open>Leaderboard_Props\<close> shows what a submission stores, \<open>Leaderboard_Coherence\<close> that the rank cache agrees
    with the record table, \<open>Tournament_Props\<close> the scheduler and joining.
  \<^item> \<open>Social_Groups\<close>, \<open>Social_Group_Props\<close> (\<open>social/groups.go\<close>): the tables of groups and memberships, the
    ranks, and the invariant of every live group.
  \<^item> \<open>Friends\<close>, \<open>Friends_Props\<close> (\<open>social/friends.go\<close>, \<open>social/import.go\<close>): the table of friend edges,
    invitations, blocks, lists and imports, and the invariant of the edges.

  \<^bold>\<open>State and operations.\<close>  A Go struct is a record, an operation takes the state and returns it
  updated, and an error or a panic is a value of a sum or option type.  Time is an argument.
  \<open>range\<close> over a map takes an iteration order as an argument and the theorems hold for every
  order.  A mutex makes an operation one atomic step; where the source drops the lock between two
  steps the steps are separate definitions: the login and the refresh handler, the status queue, the matchmaker
  tick, leaving a group, a score submission and its entry into the rank cache.  Theorems about runs name
  their steps; where overlapping requests break a property, the theorem is about operations one after the
  other, and a lemma beside it shows the overlap that breaks it (\<open>overlapping_refresh_not_atomic\<close>,
  \<open>late_failure_lifts_lock\<close>, \<open>overlapping_submissions_stale\<close>, \<open>concurrent_leaves_orphan\<close>, \<open>queue_can_reorder\<close>).  SQL
  statements are operations on tables given as maps or lists, and a transaction is a function that
  returns the old tables on an error.

  \<^bold>\<open>What the lemmas show.\<close>  For each component: the invariant of its state and its preservation by
  every operation; what each operation does on every branch; and the properties of \<open>PROJECT.json\<close>,
  each in a theorem after a block with its number: refinement of an abstract map (presences), exact
  sums (wallets), all-or-nothing batches and visibility (storage), fairness of matches, single use
  of refresh and match tokens, limits in time windows, permissions, and that schedule searches
  terminate with the least or greatest match.

  \<^bold>\<open>Bounds and fuel.\<close>  Following a cursor of a list of \<open>n\<close> rows takes at most \<open>n + 1\<close> pages, which
  is the fuel of \<open>follow\<close>.  The storage retry loop has the attempts of the source.  The mutual
  recursion of the cron searches is a \<open>partial_function\<close>; it is proved to return for every
  parsed expression without empty list and month 0, since each step moves to a later (earlier)
  month and the years lie between 1970 and 2099.

  \<^bold>\<open>Parameters.\<close>  What is not in the repository is an argument with named hypotheses: random token
  generation, hashing and the JSON encoder, the Bleve query match, bcrypt and JWT checks, the
  roaring bitmap, Unicode normalisation, the answers of Facebook and Steam.  Redis is modelled for the locks of
  the tournament scheduler: two commands, keys with a time to live, lost commands and lost answers.

  \<^bold>\<open>Not modelled.\<close>  The Redis and clustered variants of matchmaker and sessions and the other
  network transports; SQL connection failures; the HTTP and gRPC front ends apart from the two
  handlers named above; the WebSocket layer; the Lua and JavaScript runtimes, which bind foreign
  interpreters; in-app purchases, social login and mail, which call external services; the
  floating-point rate limiter; configuration, metrics and start-up.  Chat and notifications are SQL lists like
  the ones modelled, delivered through the stream tracker; the match loop drives a handler of the Lua
  interpreter and what it promises rests on that handler and on the timing of its channels; both are left out.
  The widths of columns are modelled for boards and scores only; elsewhere texts and numbers are taken to fit.
\<close>

end
